(* ===== verification/RustPrelude.thy ===== *)
theory RustPrelude
imports Main "HOL-Library.Word" "HOL-Library.Code_Target_Nat"
begin

text \<open>
  The part of Rust's language and standard library that the modelled code uses, and the generic
  lemmas the components share.

  A \<^verbatim>\<open>char\<close> is a Unicode scalar value, a natural number; a \<^verbatim>\<open>String\<close> or \<^verbatim>\<open>&str\<close> is
  the list of its chars. Byte lengths and byte offsets, which Rust's \<^verbatim>\<open>len\<close> and slices use, are
  computed from the UTF-8 width of each char. A \<^verbatim>\<open>usize\<close> that only counts or indexes existing
  data is a natural number; an \<^verbatim>\<open>i64\<close> that the program computes with is an integer together with
  the checked operations below, which return \<open>None\<close> outside the 64-bit range.
\<close>

section \<open>Characters and strings\<close>

type_synonym rchar = nat
type_synonym rstr = "rchar list"

text \<open>An ASCII character or string literal of the source.\<close>

definition chr :: "char \<Rightarrow> rchar" where
  "chr c = of_char c"

definition str :: "string \<Rightarrow> rstr" where
  "str s = map of_char s"

lemma str_simps [simp]:
  "str [] = []"
  "str (c # s) = of_char c # str s"
  by (simp_all add: str_def)

declare chr_def [simp]

lemma str_append: "str (s @ t) = str s @ str t"
  by (simp add: str_def)

lemma length_str [simp]: "length (str s) = length s"
  by (simp add: str_def)

lemma str_inject [simp]: "str s = str t \<longleftrightarrow> s = t"
proof -
  have "inj (of_char :: char \<Rightarrow> nat)"
    by (rule injI) (simp add: of_char_eq_iff)
  then show ?thesis
    by (auto simp: str_def inj_map_eq_map)
qed

subsection \<open>UTF-8 widths, byte lengths and char boundaries\<close>

definition len_utf8 :: "rchar \<Rightarrow> nat" where
  "len_utf8 c = (if c < 0x80 then 1 else if c < 0x800 then 2 else if c < 0x10000 then 3 else 4)"

lemma len_utf8_bounds: "1 \<le> len_utf8 c" "len_utf8 c \<le> 4"
  by (simp_all add: len_utf8_def)

lemma len_utf8_pos [simp]: "0 < len_utf8 c" "len_utf8 c \<noteq> 0"
  by (simp_all add: len_utf8_def)

fun byte_len :: "rstr \<Rightarrow> nat" where
  "byte_len [] = 0"
| "byte_len (c # cs) = len_utf8 c + byte_len cs"

lemma byte_len_append [simp]: "byte_len (xs @ ys) = byte_len xs + byte_len ys"
  by (induction xs) auto

lemma length_le_byte_len: "length xs \<le> byte_len xs"
proof (induction xs)
  case (Cons c cs)
  then show ?case using len_utf8_bounds(1)[of c] by simp
qed simp

lemma byte_len_0 [simp]: "byte_len xs = 0 \<longleftrightarrow> xs = []"
  by (cases xs) auto

fun is_char_boundary :: "rstr \<Rightarrow> nat \<Rightarrow> bool" where
  "is_char_boundary [] n \<longleftrightarrow> n = 0"
| "is_char_boundary (c # cs) n \<longleftrightarrow>
     n = 0 \<or> (len_utf8 c \<le> n \<and> is_char_boundary cs (n - len_utf8 c))"

lemma is_char_boundary_0 [simp]: "is_char_boundary cs 0"
  by (cases cs) auto

lemma is_char_boundary_le: "is_char_boundary cs n \<Longrightarrow> n \<le> byte_len cs"
  by (induction cs arbitrary: n) force+

lemma is_char_boundary_prefix: "is_char_boundary (xs @ ys) (byte_len xs)"
  by (induction xs) auto

lemma is_char_boundary_byte_len: "is_char_boundary cs (byte_len cs)"
  using is_char_boundary_prefix[of cs "[]"] by simp

text \<open>The slice \<^verbatim>\<open>&s[..n]\<close> at a boundary \<open>n\<close>.\<close>

fun take_bytes :: "rstr \<Rightarrow> nat \<Rightarrow> rstr" where
  "take_bytes [] n = []"
| "take_bytes (c # cs) n = (if n = 0 then [] else c # take_bytes cs (n - len_utf8 c))"

lemma take_bytes_prefix: "take_bytes (xs @ ys) (byte_len xs) = xs"
  by (induction xs) (cases ys; simp)+

lemma byte_len_take_bytes: "is_char_boundary cs n \<Longrightarrow> byte_len (take_bytes cs n) = n"
  by (induction cs arbitrary: n) auto

subsection \<open>Character classes\<close>

definition is_ascii_digit :: "rchar \<Rightarrow> bool" where
  "is_ascii_digit c \<longleftrightarrow> 48 \<le> c \<and> c \<le> 57"

definition is_ascii_uppercase :: "rchar \<Rightarrow> bool" where
  "is_ascii_uppercase c \<longleftrightarrow> 65 \<le> c \<and> c \<le> 90"

definition is_ascii_lowercase :: "rchar \<Rightarrow> bool" where
  "is_ascii_lowercase c \<longleftrightarrow> 97 \<le> c \<and> c \<le> 122"

definition is_ascii_alphabetic :: "rchar \<Rightarrow> bool" where
  "is_ascii_alphabetic c \<longleftrightarrow> is_ascii_uppercase c \<or> is_ascii_lowercase c"

definition is_ascii_alphanumeric :: "rchar \<Rightarrow> bool" where
  "is_ascii_alphanumeric c \<longleftrightarrow> is_ascii_alphabetic c \<or> is_ascii_digit c"

text \<open>\<^verbatim>\<open>char::is_whitespace\<close>: the Unicode property White_Space.\<close>

definition is_whitespace :: "rchar \<Rightarrow> bool" where
  "is_whitespace c \<longleftrightarrow>
     (9 \<le> c \<and> c \<le> 13) \<or> c = 0x20 \<or> c = 0x85 \<or> c = 0xA0 \<or> c = 0x1680 \<or>
     (0x2000 \<le> c \<and> c \<le> 0x200A) \<or> c = 0x2028 \<or> c = 0x2029 \<or> c = 0x202F \<or> c = 0x205F \<or> c = 0x3000"

text \<open>\<^verbatim>\<open>char::is_control\<close>: the Unicode category Cc.\<close>

definition is_control :: "rchar \<Rightarrow> bool" where
  "is_control c \<longleftrightarrow> c < 0x20 \<or> (0x7F \<le> c \<and> c < 0xA0)"

lemmas ascii_class_defs =
  is_ascii_digit_def is_ascii_uppercase_def is_ascii_lowercase_def is_ascii_alphabetic_def
  is_ascii_alphanumeric_def

definition to_ascii_lower_char :: "rchar \<Rightarrow> rchar" where
  "to_ascii_lower_char c = (if is_ascii_uppercase c then c + 32 else c)"

definition to_ascii_lowercase :: "rstr \<Rightarrow> rstr" where
  "to_ascii_lowercase s = map to_ascii_lower_char s"

definition eq_ignore_ascii_case :: "rstr \<Rightarrow> rstr \<Rightarrow> bool" where
  "eq_ignore_ascii_case a b \<longleftrightarrow> to_ascii_lowercase a = to_ascii_lowercase b"

lemma to_ascii_lower_char_idem [simp]:
  "to_ascii_lower_char (to_ascii_lower_char c) = to_ascii_lower_char c"
  by (auto simp: to_ascii_lower_char_def is_ascii_uppercase_def)

lemma to_ascii_lowercase_idem [simp]:
  "to_ascii_lowercase (to_ascii_lowercase s) = to_ascii_lowercase s"
  by (simp add: to_ascii_lowercase_def)

lemma eq_ignore_ascii_case_refl [simp]: "eq_ignore_ascii_case a a"
  by (simp add: eq_ignore_ascii_case_def)

lemma eq_ignore_ascii_case_sym: "eq_ignore_ascii_case a b \<longleftrightarrow> eq_ignore_ascii_case b a"
  by (auto simp: eq_ignore_ascii_case_def)

subsection \<open>Trimming, prefixes, splitting and searching\<close>

definition trim_start :: "rstr \<Rightarrow> rstr" where
  "trim_start s = dropWhile is_whitespace s"

definition trim_end :: "rstr \<Rightarrow> rstr" where
  "trim_end s = rev (dropWhile is_whitespace (rev s))"

definition trim :: "rstr \<Rightarrow> rstr" where
  "trim s = trim_end (trim_start s)"

definition trim_start_matches :: "rchar \<Rightarrow> rstr \<Rightarrow> rstr" where
  "trim_start_matches c s = dropWhile (\<lambda>x. x = c) s"

fun strip_prefix :: "rstr \<Rightarrow> rstr \<Rightarrow> rstr option" where
  "strip_prefix [] s = Some s"
| "strip_prefix (p # ps) [] = None"
| "strip_prefix (p # ps) (c # cs) = (if p = c then strip_prefix ps cs else None)"

definition strip_prefix_or :: "rstr \<Rightarrow> rstr \<Rightarrow> rstr" where
  "strip_prefix_or p s = (case strip_prefix p s of None \<Rightarrow> s | Some r \<Rightarrow> r)"

definition starts_with :: "rstr \<Rightarrow> rstr \<Rightarrow> bool" where
  "starts_with s p \<longleftrightarrow> strip_prefix p s \<noteq> None"

definition ends_with :: "rstr \<Rightarrow> rstr \<Rightarrow> bool" where
  "ends_with s p \<longleftrightarrow> starts_with (rev s) (rev p)"

fun str_contains :: "rstr \<Rightarrow> rstr \<Rightarrow> bool" where
  "str_contains [] needle \<longleftrightarrow> needle = []"
| "str_contains (c # cs) needle \<longleftrightarrow> starts_with (c # cs) needle \<or> str_contains cs needle"

fun split_once :: "rchar \<Rightarrow> rstr \<Rightarrow> (rstr \<times> rstr) option" where
  "split_once c [] = None"
| "split_once c (x # xs) =
     (if x = c then Some ([], xs)
      else case split_once c xs of None \<Rightarrow> None | Some (a, b) \<Rightarrow> Some (x # a, b))"

definition rsplit_once :: "rchar \<Rightarrow> rstr \<Rightarrow> (rstr \<times> rstr) option" where
  "rsplit_once c s =
     (case split_once c (rev s) of None \<Rightarrow> None | Some (a, b) \<Rightarrow> Some (rev b, rev a))"

lemma strip_prefix_Some: "strip_prefix p s = Some r \<longleftrightarrow> s = p @ r"
  by (induction p s rule: strip_prefix.induct) auto

lemma starts_with_iff: "starts_with s p \<longleftrightarrow> (\<exists>r. s = p @ r)"
  by (simp add: starts_with_def not_None_eq strip_prefix_Some)

lemma ends_with_iff: "ends_with s p \<longleftrightarrow> (\<exists>r. s = r @ p)"
proof
  assume "ends_with s p"
  then obtain r where "rev s = rev p @ r"
    by (auto simp: ends_with_def starts_with_iff)
  then have "s = rev r @ p"
    by (metis rev_append rev_rev_ident)
  then show "\<exists>r. s = r @ p" ..
next
  assume "\<exists>r. s = r @ p"
  then show "ends_with s p"
    by (auto simp: ends_with_def starts_with_iff)
qed

lemma str_contains_iff: "str_contains s p \<longleftrightarrow> (\<exists>a b. s = a @ p @ b)"
proof (induction s)
  case Nil
  then show ?case by auto
next
  case (Cons c cs)
  have "(\<exists>a b. c # cs = a @ p @ b) \<longleftrightarrow> (\<exists>b. c # cs = p @ b) \<or> (\<exists>a b. cs = a @ p @ b)"
    by (metis append_Cons append_Nil list.sel(3) neq_Nil_conv)
  then show ?case
    using Cons.IH by (simp add: starts_with_iff)
qed

lemma split_once_Some: "split_once c s = Some (a, b) \<Longrightarrow> s = a @ c # b \<and> c \<notin> set a"
proof (induction s arbitrary: a)
  case (Cons x s)
  show ?case
  proof (cases "x = c")
    case False
    then obtain a' where "split_once c s = Some (a', b)" "a = x # a'"
      using Cons.prems by (auto split: option.splits)
    then show ?thesis using False Cons.IH by simp
  qed (use Cons.prems in simp)
qed simp

lemma split_once_None: "split_once c s = None \<longleftrightarrow> c \<notin> set s"
  by (induction s) (auto split: option.splits)

lemma rsplit_once_Some: "rsplit_once c s = Some (a, b) \<Longrightarrow> s = a @ c # b \<and> c \<notin> set b"
proof -
  assume "rsplit_once c s = Some (a, b)"
  then have "split_once c (rev s) = Some (rev b, rev a)"
    by (auto simp: rsplit_once_def split: option.splits)
  from split_once_Some[OF this] have r: "rev s = rev b @ c # rev a" "c \<notin> set (rev b)"
    by auto
  from r(1) have "s = rev (rev b @ c # rev a)" by (metis rev_rev_ident)
  with r(2) show ?thesis by simp
qed

lemma dropWhile_idem: "dropWhile P (dropWhile P xs) = dropWhile P xs"
  by (induction xs) auto

lemma trim_start_matches_idem [simp]:
  "trim_start_matches c (trim_start_matches c s) = trim_start_matches c s"
  by (simp add: trim_start_matches_def dropWhile_idem)

section \<open>Signed 64-bit integers\<close>

definition i64_min :: int where
  "i64_min = - 9223372036854775808"

definition i64_max :: int where
  "i64_max = 9223372036854775807"

definition in_i64 :: "int \<Rightarrow> bool" where
  "in_i64 n \<longleftrightarrow> i64_min \<le> n \<and> n \<le> i64_max"

definition to_i64 :: "int \<Rightarrow> int option" where
  "to_i64 n = (if in_i64 n then Some n else None)"

definition checked_add :: "int \<Rightarrow> int \<Rightarrow> int option" where
  "checked_add a b = to_i64 (a + b)"

definition checked_sub :: "int \<Rightarrow> int \<Rightarrow> int option" where
  "checked_sub a b = to_i64 (a - b)"

definition checked_mul :: "int \<Rightarrow> int \<Rightarrow> int option" where
  "checked_mul a b = to_i64 (a * b)"

definition checked_neg :: "int \<Rightarrow> int option" where
  "checked_neg a = to_i64 (- a)"

text \<open>Rust's integer division truncates towards zero; \<^verbatim>\<open>checked_div\<close> is \<open>None\<close> for a zero
  divisor and for the one quotient that overflows, \<^verbatim>\<open>i64::MIN / -1\<close>.\<close>

definition trunc_div :: "int \<Rightarrow> int \<Rightarrow> int" where
  "trunc_div a b = sgn a * sgn b * (\<bar>a\<bar> div \<bar>b\<bar>)"

definition checked_div :: "int \<Rightarrow> int \<Rightarrow> int option" where
  "checked_div a b = (if b = 0 then None else to_i64 (trunc_div a b))"

lemmas i64_defs = i64_min_def i64_max_def in_i64_def
lemmas checked_defs = checked_add_def checked_sub_def checked_mul_def checked_neg_def
  checked_div_def to_i64_def

lemma checked_in_i64:
  "checked_add a b = Some c \<Longrightarrow> in_i64 c"
  "checked_sub a b = Some c \<Longrightarrow> in_i64 c"
  "checked_mul a b = Some c \<Longrightarrow> in_i64 c"
  "checked_div a b = Some c \<Longrightarrow> in_i64 c"
  "checked_neg a = Some c \<Longrightarrow> in_i64 c"
  by (auto simp: checked_defs split: if_splits)

text \<open>Decimal printing, as \<^verbatim>\<open>to_string\<close> of an \<^verbatim>\<open>i64\<close>.\<close>

fun nat_digits :: "nat \<Rightarrow> rstr" where
  "nat_digits n = (if n < 10 then [48 + n] else nat_digits (n div 10) @ [48 + n mod 10])"

declare nat_digits.simps [simp del]

definition int_to_string :: "int \<Rightarrow> rstr" where
  "int_to_string n = (if n < 0 then chr CHR ''-'' # nat_digits (nat (- n)) else nat_digits (nat n))"

text \<open>Decimal reading of a digit string, as \<^verbatim>\<open>parse::<u64>\<close> before its range check.\<close>

definition digits_value :: "rstr \<Rightarrow> nat" where
  "digits_value s = foldl (\<lambda>n c. 10 * n + (c - 48)) 0 s"

lemma digits_value_snoc: "digits_value (s @ [c]) = 10 * digits_value s + (c - 48)"
  by (simp add: digits_value_def)

lemma digits_value_nat_digits [simp]: "digits_value (nat_digits n) = n"
proof (induction n rule: nat_digits.induct)
  case (1 n)
  show ?case
  proof (cases "n < 10")
    case True
    then show ?thesis by (simp add: nat_digits.simps[of n] digits_value_def)
  next
    case False
    then show ?thesis using "1" by (simp add: nat_digits.simps[of n] digits_value_snoc)
  qed
qed

lemma nat_digits_ascii: "\<forall>c \<in> set (nat_digits n). is_ascii_digit c"
proof (induction n rule: nat_digits.induct)
  case (1 n)
  have "n mod 10 < 10" by simp
  then show ?case
    using "1" by (auto simp: nat_digits.simps[of n] is_ascii_digit_def)
qed

lemma nat_digits_nonempty [simp]: "nat_digits n \<noteq> []"
  by (simp add: nat_digits.simps[of n])

section \<open>Lists\<close>

text \<open>\<^verbatim>\<open>Vec::contains\<close> followed by \<^verbatim>\<open>push\<close>, under a chosen equality.\<close>

definition push_unless :: "('a \<Rightarrow> 'a \<Rightarrow> bool) \<Rightarrow> 'a list \<Rightarrow> 'a \<Rightarrow> 'a list" where
  "push_unless eq xs x = (if \<exists>y \<in> set xs. eq y x then xs else xs @ [x])"

text \<open>Keeping the first element of each key, as a \<^verbatim>\<open>HashSet\<close> of seen keys does.\<close>

fun dedup_by :: "('a \<Rightarrow> 'k) \<Rightarrow> 'k list \<Rightarrow> 'a list \<Rightarrow> 'a list" where
  "dedup_by key seen [] = []"
| "dedup_by key seen (x # xs) =
     (if key x \<in> set seen then dedup_by key seen xs
      else x # dedup_by key (key x # seen) xs)"

lemma set_dedup_by: "key ` set (dedup_by key seen xs) = key ` set xs - set seen"
  by (induction key seen xs rule: dedup_by.induct) auto

lemma dedup_by_subset: "set (dedup_by key seen xs) \<subseteq> set xs"
  by (induction key seen xs rule: dedup_by.induct) auto

lemma distinct_dedup_by: "distinct (map key (dedup_by key seen xs))"
proof (induction key seen xs rule: dedup_by.induct)
  case (2 key seen x xs)
  have "key x \<notin> key ` set (dedup_by key (key x # seen) xs)"
    by (simp add: set_dedup_by)
  with 2 show ?case by simp
qed simp

lemma length_dedup_by: "length (dedup_by key seen xs) \<le> length xs"
  by (induction key seen xs rule: dedup_by.induct) auto

end
