(* ===== verification/Models.thy ===== *)
theory Models
imports RustPrelude
begin

text \<open>
  The stored and provider data that the query language reads: the SQLite row types of
  \<^verbatim>\<open>src/src/db/models.rs\<close>, the JSON payload types of \<^verbatim>\<open>src/src/mastodon/types/status.rs\<close>, and the
  record of the third-party functions the modelled code calls. Each record field has the Rust
  field's name behind a short prefix of its struct. Fields whose type is itself third-party
  (\<^verbatim>\<open>serde_json::Value\<close>, custom emoji) and which no modelled function reads are left out.
\<close>

section \<open>Database rows\<close>

record db_account =
  ac_id :: rstr
  ac_server_domain :: rstr
  ac_username :: rstr
  ac_acct :: rstr
  ac_display_name :: rstr
  ac_note :: rstr
  ac_avatar :: rstr
  ac_avatar_static :: rstr
  ac_header :: rstr
  ac_locked :: bool
  ac_bot :: bool
  ac_followers_count :: int
  ac_following_count :: int
  ac_statuses_count :: int
  ac_created_at :: rstr
  ac_fetched_at :: rstr
  ac_fields_json :: "rstr option"
  ac_emojis_json :: "rstr option"

record db_status =
  st_id :: rstr
  st_server_domain :: rstr
  st_uri :: rstr
  st_url :: "rstr option"
  st_created_at :: rstr
  st_edited_at :: "rstr option"
  st_account_id :: rstr
  st_content :: rstr
  st_visibility :: rstr
  st_sensitive :: bool
  st_spoiler_text :: rstr
  st_reblogs_count :: int
  st_favourites_count :: int
  st_replies_count :: int
  st_in_reply_to_id :: "rstr option"
  st_in_reply_to_account_id :: "rstr option"
  st_reblog_of_id :: "rstr option"
  st_language :: "rstr option"
  st_pinned :: "bool option"
  st_favourited :: "bool option"
  st_reblogged :: "bool option"
  st_muted :: "bool option"
  st_bookmarked :: "bool option"
  st_poll_json :: "rstr option"
  st_card_json :: "rstr option"
  st_application_json :: "rstr option"
  st_mentions_json :: "rstr option"
  st_tags_json :: "rstr option"
  st_emojis_json :: "rstr option"
  st_media_attachments_json :: "rstr option"
  st_fetched_at :: rstr
  st_quote_id :: "rstr option"
  st_quote_original_url :: "rstr option"

record db_status_viewer_state =
  vs_login_account_acct :: rstr
  vs_status_id :: rstr
  vs_server_domain :: rstr
  vs_favourited :: "bool option"
  vs_reblogged :: "bool option"
  vs_muted :: "bool option"
  vs_bookmarked :: "bool option"
  vs_pinned :: "bool option"
  vs_updated_at :: rstr

section \<open>JSON payloads\<close>

text \<open>A \<^verbatim>\<open>DateTime<Utc>\<close> is its instant; only its printed form is ever used.\<close>

type_synonym datetime = int

record media_attachment =
  ma_id :: rstr
  ma_media_type :: rstr
  ma_url :: "rstr option"
  ma_preview_url :: "rstr option"
  ma_remote_url :: "rstr option"
  ma_description :: "rstr option"
  ma_blurhash :: "rstr option"

record mention =
  mn_id :: rstr
  mn_username :: rstr
  mn_acct :: rstr
  mn_url :: rstr

record tag =
  tg_name :: rstr
  tg_url :: rstr

record poll_option =
  po_title :: rstr
  po_votes_count :: "int option"

record poll =
  pl_id :: rstr
  pl_expires_at :: "datetime option"
  pl_expired :: bool
  pl_multiple :: bool
  pl_votes_count :: int
  pl_voters_count :: "int option"
  pl_options :: "poll_option list"
  pl_voted :: "bool option"
  pl_own_votes :: "int list option"

record card =
  cd_url :: rstr
  cd_title :: rstr
  cd_description :: rstr
  cd_card_type :: rstr
  cd_image :: "rstr option"
  cd_provider_name :: "rstr option"
  cd_provider_url :: "rstr option"
  cd_author_name :: "rstr option"
  cd_author_url :: "rstr option"
  cd_blurhash :: "rstr option"

record status_application =
  ap_name :: rstr
  ap_website :: "rstr option"

section \<open>Third-party functions\<close>

text \<open>
  A compiled \<^verbatim>\<open>Regex\<close> is determined by the pattern and the builder options it was built from; the
  crate decides which of them build (\<open>lib_regex_builds\<close>) and what they match
  (\<open>lib_regex_is_match\<close>). The other fields are the ICU normaliser and case folder, the serde
  decoders of the JSON columns (\<open>None\<close> for a decoding error), chrono's date printing and, beyond
  ASCII, the Unicode tables of the letters and of the numeric characters.
\<close>

record regex_options =
  ro_case_insensitive :: bool
  ro_size_limit :: "nat option"
  ro_dfa_size_limit :: "nat option"
  ro_nest_limit :: "nat option"

datatype regex = Regex (regex_pattern: rstr) (regex_opts: regex_options)

record lib =
  lib_alphabetic :: "rchar \<Rightarrow> bool"
  lib_numeric :: "rchar \<Rightarrow> bool"
  lib_regex_builds :: "regex \<Rightarrow> bool"
  lib_regex_is_match :: "regex \<Rightarrow> rstr \<Rightarrow> bool"
  lib_nfkc :: "rstr \<Rightarrow> rstr"
  lib_fold_string :: "rstr \<Rightarrow> rstr"
  lib_parse_mentions :: "rstr \<Rightarrow> mention list option"
  lib_parse_tags :: "rstr \<Rightarrow> tag list option"
  lib_parse_media :: "rstr \<Rightarrow> media_attachment list option"
  lib_parse_poll :: "rstr \<Rightarrow> poll option"
  lib_parse_card :: "rstr \<Rightarrow> card option"
  lib_parse_application :: "rstr \<Rightarrow> status_application option"
  lib_to_rfc3339 :: "datetime \<Rightarrow> rstr"

text \<open>\<^verbatim>\<open>RegexBuilder::build\<close>: the compiled expression, or \<open>None\<close> when the crate refuses it.\<close>

definition regex_build :: "lib \<Rightarrow> rstr \<Rightarrow> regex_options \<Rightarrow> regex option" where
  "regex_build L pattern opts =
     (if lib_regex_builds L (Regex pattern opts) then Some (Regex pattern opts) else None)"

text \<open>\<^verbatim>\<open>char::is_alphabetic\<close> and \<^verbatim>\<open>char::is_alphanumeric\<close>.\<close>

definition is_alphabetic :: "lib \<Rightarrow> rchar \<Rightarrow> bool" where
  "is_alphabetic L c = (if c < 128 then is_ascii_alphabetic c else lib_alphabetic L c)"

definition is_numeric :: "lib \<Rightarrow> rchar \<Rightarrow> bool" where
  "is_numeric L c = (if c < 128 then is_ascii_digit c else lib_numeric L c)"

definition is_alphanumeric :: "lib \<Rightarrow> rchar \<Rightarrow> bool" where
  "is_alphanumeric L c = (is_alphabetic L c \<or> is_numeric L c)"

text \<open>
  A concrete instance for the witnesses: no letters beyond ASCII, case folding of ASCII letters,
  regular expressions that are plain substrings, and JSON columns that never decode.
\<close>

definition ascii_lib :: lib where
  "ascii_lib = \<lparr>
     lib_alphabetic = (\<lambda>_. False), lib_numeric = (\<lambda>_. False),
     lib_regex_builds = (\<lambda>_. True),
     lib_regex_is_match = (\<lambda>r s. str_contains s (regex_pattern r)),
     lib_nfkc = (\<lambda>s. s), lib_fold_string = to_ascii_lowercase,
     lib_parse_mentions = (\<lambda>_. None), lib_parse_tags = (\<lambda>_. None), lib_parse_media = (\<lambda>_. None),
     lib_parse_poll = (\<lambda>_. None), lib_parse_card = (\<lambda>_. None), lib_parse_application = (\<lambda>_. None),
     lib_to_rfc3339 = (\<lambda>_. []) \<rparr>"

end
