(* ===== verification/KqSyntax.thy ===== *)
theory KqSyntax
imports Models
begin

unbundle bit_operations_syntax

text \<open>
  The data of the KQ compiler (\<^verbatim>\<open>src/src/services/kq_filter.rs\<close>, up to the lexer): spans and
  limits, compile errors with their line and column, source kinds, typed expressions and the field
  enumeration with its static value types. Constructors carry a short prefix in front of the
  source's name because several Rust enums share names.
\<close>

section \<open>Spans, limits and compile errors\<close>

record span =
  sp_start :: nat
  sp_end :: nat

definition mk_span :: "nat \<Rightarrow> nat \<Rightarrow> span" where
  "mk_span s e = \<lparr>sp_start = s, sp_end = e\<rparr>"

lemma mk_span_sel [simp]: "sp_start (mk_span s e) = s" "sp_end (mk_span s e) = e"
  by (simp_all add: mk_span_def)

record query_limits =
  max_query_bytes :: nat
  max_tokens :: nat
  max_depth :: nat
  max_set_items :: nat
  max_sources :: nat
  max_source_arguments :: nat
  max_regex_bytes :: nat

definition default_limits :: query_limits where
  "default_limits = \<lparr>
     max_query_bytes = 32 * 1024, max_tokens = 4096, max_depth = 64, max_set_items = 1024,
     max_sources = 64, max_source_arguments = 64, max_regex_bytes = 4 * 1024 \<rparr>"

record compile_error =
  ce_message :: string
  ce_span :: span
  ce_line :: nat
  ce_column :: nat

text \<open>The two boundary loops of \<^verbatim>\<open>CompileError::at\<close>.\<close>

fun floor_boundary :: "rstr \<Rightarrow> nat \<Rightarrow> nat" where
  "floor_boundary input n =
     (if is_char_boundary input n \<or> n = 0 then n else floor_boundary input (n - 1))"

fun floor_boundary_above :: "rstr \<Rightarrow> nat \<Rightarrow> nat \<Rightarrow> nat" where
  "floor_boundary_above input lo n =
     (if lo < n \<and> \<not> is_char_boundary input n then floor_boundary_above input lo (n - 1) else n)"

declare floor_boundary.simps [simp del] floor_boundary_above.simps [simp del]

definition compile_error_at :: "rstr \<Rightarrow> span \<Rightarrow> string \<Rightarrow> compile_error" where
  "compile_error_at input sp message =
     (let bounded_start = floor_boundary input (min (sp_start sp) (byte_len input));
          prefix = take_bytes input bounded_start;
          line = length (filter (\<lambda>c. c = 10) prefix) + 1;
          column = length (takeWhile (\<lambda>c. c \<noteq> 10) (rev prefix)) + 1;
          bounded_end =
            floor_boundary_above input bounded_start (min (sp_end sp) (byte_len input))
      in \<lparr>ce_message = message,
          ce_span = mk_span bounded_start (max bounded_end bounded_start),
          ce_line = line,
          ce_column = column\<rparr>)"

lemma floor_boundary_le: "floor_boundary input n \<le> n"
proof (induction input n rule: floor_boundary.induct)
  case (1 input n)
  then show ?case
    by (subst floor_boundary.simps) (auto split: if_splits)
qed

lemma floor_boundary_is_boundary: "is_char_boundary input (floor_boundary input n)"
proof (induction input n rule: floor_boundary.induct)
  case (1 input n)
  then show ?case
    by (subst floor_boundary.simps) auto
qed

lemma floor_boundary_id [simp]: "is_char_boundary input n \<Longrightarrow> floor_boundary input n = n"
  by (simp add: floor_boundary.simps)

lemma floor_boundary_above_id [simp]:
  "is_char_boundary input n \<Longrightarrow> floor_boundary_above input lo n = n"
  by (simp add: floor_boundary_above.simps)

lemma floor_boundary_above_bounds:
  "floor_boundary_above input lo n \<le> n \<and>
   (lo \<le> n \<longrightarrow> lo \<le> floor_boundary_above input lo n) \<and>
   (is_char_boundary input (floor_boundary_above input lo n) \<or> floor_boundary_above input lo n \<le> lo)"
proof (induction input lo n rule: floor_boundary_above.induct)
  case (1 input lo n)
  then show ?case
    by (subst (1 2 3 4) floor_boundary_above.simps) auto
qed

text \<open>What every reported error promises: a span of the input on character boundaries, and a
  one-based line and column.\<close>

definition error_within :: "rstr \<Rightarrow> compile_error \<Rightarrow> bool" where
  "error_within input e \<longleftrightarrow>
     sp_start (ce_span e) \<le> sp_end (ce_span e) \<and> sp_end (ce_span e) \<le> byte_len input \<and>
     is_char_boundary input (sp_start (ce_span e)) \<and> is_char_boundary input (sp_end (ce_span e)) \<and>
     1 \<le> ce_line e \<and> 1 \<le> ce_column e"

lemma compile_error_at_within: "error_within input (compile_error_at input sp message)"
proof -
  let ?n = "byte_len input"
  let ?s = "floor_boundary input (min (sp_start sp) ?n)"
  let ?e = "floor_boundary_above input ?s (min (sp_end sp) ?n)"
  have s: "is_char_boundary input ?s" "?s \<le> ?n"
    using floor_boundary_is_boundary floor_boundary_le[of input "min (sp_start sp) ?n"] by auto
  have e: "?e \<le> ?n" "is_char_boundary input ?e \<or> ?e \<le> ?s"
    using floor_boundary_above_bounds[of input ?s "min (sp_end sp) ?n"] by auto
  then have "is_char_boundary input (max ?e ?s)"
    using s(1) by (auto simp: max_def)
  with s e show ?thesis
    by (simp add: compile_error_at_def error_within_def Let_def)
qed

text \<open>At a boundary of the input the reported position is the position itself.\<close>

lemma compile_error_at_exact:
  assumes "is_char_boundary input (sp_start sp)"
  shows "sp_start (ce_span (compile_error_at input sp message)) = sp_start sp"
proof -
  have "min (sp_start sp) (byte_len input) = sp_start sp"
    using is_char_boundary_le[OF assms] by simp
  with assms show ?thesis by (simp add: compile_error_at_def Let_def)
qed

lemma ce_message_at [simp]: "ce_message (compile_error_at input sp message) = message"
  by (simp add: compile_error_at_def Let_def)

section \<open>Sources\<close>

datatype (plugins only: code size) source_kind =
  SrcLocal | SrcHome | SrcList | SrcMentions | SrcDirect | SrcSearch | SrcTrack | SrcConversation
| SrcUser | SrcPublic | SrcLocalPublic | SrcHashtag | SrcBookmarks | SrcFavourites

fun source_kind_as_str :: "source_kind \<Rightarrow> string" where
  "source_kind_as_str SrcLocal = ''local''"
| "source_kind_as_str SrcHome = ''home''"
| "source_kind_as_str SrcList = ''list''"
| "source_kind_as_str SrcMentions = ''mentions''"
| "source_kind_as_str SrcDirect = ''direct''"
| "source_kind_as_str SrcSearch = ''search''"
| "source_kind_as_str SrcTrack = ''track''"
| "source_kind_as_str SrcConversation = ''conversation''"
| "source_kind_as_str SrcUser = ''user''"
| "source_kind_as_str SrcPublic = ''public''"
| "source_kind_as_str SrcLocalPublic = ''local_public''"
| "source_kind_as_str SrcHashtag = ''hashtag''"
| "source_kind_as_str SrcBookmarks = ''bookmarks''"
| "source_kind_as_str SrcFavourites = ''favourites''"

record source_spec =
  ss_kind :: source_kind
  ss_arguments :: "rstr list"
  ss_span :: span

section \<open>Static value types\<close>

text \<open>The bit mask \<^verbatim>\<open>ValueTypes(u8)\<close>.\<close>

type_synonym value_types = "8 word"

definition ty_bool :: value_types where "ty_bool = 1"
definition ty_number :: value_types where "ty_number = 2"
definition ty_text :: value_types where "ty_text = 4"
definition ty_set :: value_types where "ty_set = 8"
definition ty_identity :: value_types where "ty_identity = 16"

lemmas ty_defs = ty_bool_def ty_number_def ty_text_def ty_set_def ty_identity_def

definition intersects :: "value_types \<Rightarrow> value_types \<Rightarrow> bool" where
  "intersects a b \<longleftrightarrow> a AND b \<noteq> 0"

text \<open>The masks the compiler gives to expressions are single bits.\<close>

definition basic_types :: "value_types list" where
  "basic_types = [ty_bool, ty_number, ty_text, ty_set, ty_identity]"

lemma ty_distinct [simp]:
  "ty_bool \<noteq> ty_number" "ty_bool \<noteq> ty_text" "ty_bool \<noteq> ty_set" "ty_bool \<noteq> ty_identity"
  "ty_number \<noteq> ty_bool" "ty_number \<noteq> ty_text" "ty_number \<noteq> ty_set" "ty_number \<noteq> ty_identity"
  "ty_text \<noteq> ty_bool" "ty_text \<noteq> ty_number" "ty_text \<noteq> ty_set" "ty_text \<noteq> ty_identity"
  "ty_set \<noteq> ty_bool" "ty_set \<noteq> ty_number" "ty_set \<noteq> ty_text" "ty_set \<noteq> ty_identity"
  "ty_identity \<noteq> ty_bool" "ty_identity \<noteq> ty_number" "ty_identity \<noteq> ty_text" "ty_identity \<noteq> ty_set"
  by (simp_all add: ty_defs)

section \<open>Expressions\<close>

datatype unary_op = UNot | UNegate | UCaseful

datatype (plugins only: code size) binary_op =
  BOr | BAnd | BEqual | BNotEqual | BLess | BLessEqual | BGreater | BGreaterEqual | BRegex
| BStartsWith | BEndsWith | BContains | BIn | BAdd | BSubtract | BMultiply | BDivide

datatype (plugins only: code size) field =
  FText | FRawContent | FId | FUri | FUrl | FApplication | FDirectMessage | FBoost | FInReplyTo
| FReplyAccountId | FIsReply | FMentions | FFavouritesCount | FReblogsCount | FRepliesCount
| FVisibility | FLanguage | FSpoilerText | FHasSpoiler | FSensitive | FHasMedia | FMediaCount
| FMediaTypes | FMediaDescriptions | FHasImage | FHasVideo | FHasAudio | FHasPoll | FPollId
| FPollExpired | FPollMultiple | FPollVotesCount | FPollVotersCount | FPollOptionsCount
| FPollOptions | FPollExpiresAt | FHasCard | FHasQuote | FEdited | FEditedAt | FDomain | FHashtags
| FOurAccounts | FIsPublic | FIsUnlisted | FIsPrivate | FAuthorId | FAuthorUsername | FAuthorAcct
| FAuthorDisplayName | FAuthorNote | FAuthorLocked | FAuthorBot | FAuthorFollowers
| FAuthorFollowing | FAuthorStatuses | FAuthorDomain | FBoosterId | FBoosterUsername
| FBoosterAcct | FBoosterDisplayName | FBoosterNote | FBoosterLocked | FBoosterBot
| FBoosterFollowers | FBoosterFollowing | FBoosterStatuses | FBoosterDomain | FQuoteId | FQuoteUrl
| FQuoteText | FQuoteAuthorAcct | FViewerFavourited | FViewerReblogged | FViewerMuted
| FViewerBookmarked | FViewerPinned

datatype expr = Expr (e_kind: expr_kind) (e_types: value_types) (e_span: span)
and expr_kind =
  EBool bool
| ENumber int
| EText rstr
| EIdentity rstr
| ESet "expr list"
| EField field
| EUnary unary_op expr
| EBinary binary_op expr expr "regex option"

definition field_value_types :: "field \<Rightarrow> value_types" where
  "field_value_types f =
     (if f \<in> {FId, FInReplyTo, FReplyAccountId, FPollId, FAuthorId, FBoosterId, FQuoteId}
      then ty_identity
      else if f \<in> {FDirectMessage, FBoost, FIsReply, FHasSpoiler, FSensitive, FHasMedia, FHasImage,
        FHasVideo, FHasAudio, FHasPoll, FPollExpired, FPollMultiple, FHasCard, FHasQuote, FEdited,
        FIsPublic, FIsUnlisted, FIsPrivate, FAuthorLocked, FAuthorBot, FBoosterLocked, FBoosterBot,
        FViewerFavourited, FViewerReblogged, FViewerMuted, FViewerBookmarked, FViewerPinned}
      then ty_bool
      else if f \<in> {FFavouritesCount, FReblogsCount, FRepliesCount, FMediaCount, FPollVotesCount,
        FPollVotersCount, FPollOptionsCount, FAuthorFollowers, FAuthorFollowing, FAuthorStatuses,
        FBoosterFollowers, FBoosterFollowing, FBoosterStatuses}
      then ty_number
      else if f \<in> {FMentions, FMediaTypes, FMediaDescriptions, FHashtags, FOurAccounts, FPollOptions}
      then ty_set
      else ty_text)"

lemma field_value_types_basic: "field_value_types f \<in> set basic_types"
  by (simp add: field_value_types_def basic_types_def)

text \<open>\<^verbatim>\<open>binary_result_types\<close>: the mask of the result, or \<open>None\<close> for an operator that does not
  apply to the operands' masks. The guards are tried in the source's order.\<close>

definition binary_result_types ::
  "binary_op \<Rightarrow> value_types \<Rightarrow> value_types \<Rightarrow> value_types option" where
  "binary_result_types op left right =
     (let same = left AND right in
      case op of
        BOr \<Rightarrow> if intersects left ty_bool \<and> intersects right ty_bool then Some ty_bool else None
      | BAnd \<Rightarrow> if intersects left ty_bool \<and> intersects right ty_bool then Some ty_bool else None
      | BRegex \<Rightarrow> if intersects left ty_text \<and> intersects right ty_text then Some ty_bool else None
      | BStartsWith \<Rightarrow> if intersects left ty_text \<and> intersects right ty_text then Some ty_bool else None
      | BEndsWith \<Rightarrow> if intersects left ty_text \<and> intersects right ty_text then Some ty_bool else None
      | BContains \<Rightarrow>
          if (intersects left ty_text \<and> intersects right ty_text) \<or>
             (intersects left ty_set \<and>
              intersects right (ty_text OR ty_number OR ty_identity OR ty_set))
          then Some ty_bool else None
      | BIn \<Rightarrow>
          if intersects right ty_set \<and>
             intersects left (ty_text OR ty_number OR ty_identity OR ty_set)
          then Some ty_bool else None
      | BAdd \<Rightarrow>
          if intersects same (ty_number OR ty_text OR ty_set) then Some same else None
      | BSubtract \<Rightarrow> if intersects same (ty_number OR ty_set) then Some same else None
      | BMultiply \<Rightarrow> if intersects same (ty_number OR ty_set) then Some same else None
      | BDivide \<Rightarrow>
          if intersects left ty_number \<and> intersects right ty_number then Some ty_number else None
      | _ \<Rightarrow>
          if op = BEqual \<or> op = BNotEqual then
            (if intersects same (ty_bool OR ty_number OR ty_text OR ty_identity) \<or>
                (intersects left ty_identity \<and> intersects right (ty_text OR ty_number)) \<or>
                (intersects right ty_identity \<and> intersects left (ty_text OR ty_number))
             then Some ty_bool else None)
          else \<comment> \<open>the four comparisons\<close>
            (if intersects left ty_number \<and> intersects right ty_number
             then Some ty_bool else None))"

lemma binary_result_types_basic:
  assumes "left \<in> set basic_types" and "right \<in> set basic_types"
    and "binary_result_types op left right = Some t"
  shows "t \<in> set basic_types"
proof (cases op)
qed (use assms in \<open>auto simp: basic_types_def binary_result_types_def intersects_def ty_defs Let_def
       split: if_splits\<close>)

end
