(* ===== verification/KqFields.thy ===== *)
theory KqFields
imports KqSyntax
begin

text \<open>
  Name resolution of the KQ compiler: \<^verbatim>\<open>resolve_field\<close> and \<^verbatim>\<open>resolve_source_kind\<close> of
  \<^verbatim>\<open>src/src/services/kq_filter.rs\<close>. The source matches a lower-cased path against arms of
  alternatives; here the arms are tables, in the source's order, and the first arm that holds the
  path wins.
\<close>

section \<open>Fields\<close>

text \<open>The arms for the status itself, its reply, media, poll, card and quote.\<close>

definition status_field_aliases :: "(string list list \<times> field) list" where
  "status_field_aliases = [
     ([[''text''], [''body''], [''content'']], FText),
     ([[''raw_content''], [''raw'']], FRawContent),
     ([[''id'']], FId),
     ([[''uri'']], FUri),
     ([[''url'']], FUrl),
     ([[''via''], [''source''], [''client''], [''from''], [''application''],
       [''application_name''], [''application'', ''name'']], FApplication),
     ([[''direct_message''], [''directmessage''], [''isdirectmessage''], [''is_direct_message''],
       [''dm''], [''isdm''], [''is_dm''], [''message''], [''ismessage''], [''is_message''],
       [''is_direct''], [''direct'']], FDirectMessage),
     ([[''retweet''], [''rt''], [''isretweet''], [''is_retweet''], [''reblog''], [''isreblog''],
       [''is_reblog''], [''boost''], [''isboost''], [''is_boost''], [''renote''], [''isrenote''],
       [''is_renote'']], FBoost),
     ([[''in_reply_to''], [''in_reply_to_id''], [''inreplyto''], [''replyto''], [''reply_to''],
       [''reply'', ''id'']], FInReplyTo),
     ([[''in_reply_to_account''], [''in_reply_to_account_id''], [''reply'', ''account_id'']], FReplyAccountId),
     ([[''is_reply''], [''reply'']], FIsReply),
     ([[''to''], [''mention''], [''mentions'']], FMentions),
     ([[''favs''], [''favourite''], [''favourites''], [''favorite''], [''favorites''],
       [''favourer''], [''favourers''], [''favorer''], [''favorers''], [''like''], [''likes''],
       [''fav_count''], [''favourites_count''], [''favorites_count''], [''likes_count''],
       [''reactions_count'']], FFavouritesCount),
     ([[''retweets''], [''rts''], [''reblogs''], [''boosts''], [''renotes''], [''reposts''],
       [''retweeters''], [''reblogs_count''], [''boosts_count''], [''renotes_count''],
       [''reposts_count'']], FReblogsCount),
     ([[''replies''], [''replies_count'']], FRepliesCount),
     ([[''visibility'']], FVisibility),
     ([[''public''], [''is_public'']], FIsPublic),
     ([[''unlisted''], [''is_unlisted'']], FIsUnlisted),
     ([[''private''], [''is_private''], [''followers_only'']], FIsPrivate),
     ([[''lang''], [''language'']], FLanguage),
     ([[''cw''], [''spoiler''], [''spoiler_text'']], FSpoilerText),
     ([[''has_cw''], [''has_spoiler'']], FHasSpoiler),
     ([[''sensitive'']], FSensitive),
     ([[''media''], [''has_media'']], FHasMedia),
     ([[''media_count''], [''media'', ''count'']], FMediaCount),
     ([[''media_types''], [''media'', ''types'']], FMediaTypes),
     ([[''media_descriptions''], [''media'', ''descriptions'']], FMediaDescriptions),
     ([[''has_image''], [''media'', ''has_image'']], FHasImage),
     ([[''has_video''], [''media'', ''has_video'']], FHasVideo),
     ([[''has_audio''], [''media'', ''has_audio'']], FHasAudio),
     ([[''poll''], [''has_poll'']], FHasPoll),
     ([[''poll'', ''id'']], FPollId),
     ([[''poll'', ''expired'']], FPollExpired),
     ([[''poll'', ''multiple'']], FPollMultiple),
     ([[''poll'', ''votes_count'']], FPollVotesCount),
     ([[''poll'', ''voters_count'']], FPollVotersCount),
     ([[''poll'', ''options_count'']], FPollOptionsCount),
     ([[''poll'', ''options'']], FPollOptions),
     ([[''poll'', ''expires_at'']], FPollExpiresAt),
     ([[''card''], [''has_card'']], FHasCard),
     ([[''quote''], [''has_quote''], [''isquote''], [''is_quote'']], FHasQuote),
     ([[''quote'', ''id'']], FQuoteId),
     ([[''quote'', ''url'']], FQuoteUrl),
     ([[''quote'', ''text'']], FQuoteText),
     ([[''quote'', ''user''], [''quote'', ''author''], [''quote'', ''user'', ''acct''],
       [''quote'', ''author'', ''acct'']], FQuoteAuthorAcct),
     ([[''edited''], [''is_edited'']], FEdited),
     ([[''edited_at'']], FEditedAt),
     ([[''domain''], [''server_domain''], [''host'']], FDomain),
     ([[''hashtag''], [''hashtags''], [''tag''], [''tags'']], FHashtags),
     ([[''we''], [''our''], [''us'']], FOurAccounts)]"

text \<open>The arms for the author. The legacy \<^verbatim>\<open>user.username\<close> is the display name, as in StarryEyes.\<close>

definition author_field_aliases :: "(string list list \<times> field) list" where
  "author_field_aliases = [
     ([[''user''], [''author''], [''user'', ''acct''], [''author'', ''acct''],
       [''user'', ''screen_name''], [''user'', ''screenname'']], FAuthorAcct),
     ([[''author'', ''username'']], FAuthorUsername),
     ([[''user'', ''username''], [''user'', ''name''], [''user'', ''display_name''],
       [''author'', ''name''], [''author'', ''display_name'']], FAuthorDisplayName),
     ([[''user'', ''id''], [''author'', ''id'']], FAuthorId),
     ([[''user'', ''description''], [''user'', ''desc''], [''user'', ''bio''],
       [''user'', ''note''], [''author'', ''description''], [''author'', ''desc''],
       [''author'', ''bio''], [''author'', ''note'']], FAuthorNote),
     ([[''user'', ''protected''], [''user'', ''isprotected''], [''user'', ''is_protected''],
       [''user'', ''locked''], [''author'', ''protected''], [''author'', ''is_protected''],
       [''author'', ''locked'']], FAuthorLocked),
     ([[''user'', ''bot''], [''user'', ''is_bot''], [''author'', ''bot''],
       [''author'', ''is_bot'']], FAuthorBot),
     ([[''user'', ''follower''], [''user'', ''followers''], [''user'', ''followerscount''],
       [''user'', ''follower_count''], [''user'', ''followers_count''],
       [''author'', ''followers''], [''author'', ''followers_count'']], FAuthorFollowers),
     ([[''user'', ''follow''], [''user'', ''following''], [''user'', ''followings''],
       [''user'', ''followingcount''], [''user'', ''followingscount''],
       [''user'', ''following_count''], [''user'', ''followings_count''], [''user'', ''friend''],
       [''user'', ''friends''], [''user'', ''friendscount''], [''user'', ''friend_count''],
       [''user'', ''friends_count''], [''author'', ''following''],
       [''author'', ''following_count'']], FAuthorFollowing),
     ([[''user'', ''status''], [''user'', ''statuses''], [''user'', ''statuscount''],
       [''user'', ''statusescount''], [''user'', ''status_count''],
       [''user'', ''statuses_count''], [''author'', ''statuses''],
       [''author'', ''statuses_count'']], FAuthorStatuses),
     ([[''user'', ''domain''], [''user'', ''server_domain''], [''author'', ''domain''],
       [''author'', ''server_domain'']], FAuthorDomain)]"

text \<open>The arms for the booster of a reblog wrapper.\<close>

definition booster_field_aliases :: "(string list list \<times> field) list" where
  "booster_field_aliases = [
     ([[''retweeter''], [''reblogger''], [''booster''], [''renoter''], [''retweeter'', ''acct''],
       [''reblogger'', ''acct''], [''booster'', ''acct''], [''retweeter'', ''screen_name''],
       [''retweeter'', ''screenname''], [''reblogger'', ''screen_name''],
       [''reblogger'', ''screenname''], [''booster'', ''screen_name''],
       [''booster'', ''screenname'']], FBoosterAcct),
     ([[''booster'', ''username''], [''reblogger'', ''username'']], FBoosterUsername),
     ([[''retweeter'', ''username''], [''retweeter'', ''name''],
       [''retweeter'', ''display_name''], [''booster'', ''name''],
       [''booster'', ''display_name''], [''reblogger'', ''name''],
       [''reblogger'', ''display_name'']], FBoosterDisplayName),
     ([[''retweeter'', ''id''], [''reblogger'', ''id''], [''booster'', ''id'']], FBoosterId),
     ([[''retweeter'', ''description''], [''retweeter'', ''desc''], [''retweeter'', ''bio''],
       [''retweeter'', ''note''], [''reblogger'', ''description''], [''reblogger'', ''desc''],
       [''reblogger'', ''bio''], [''reblogger'', ''note''], [''booster'', ''description''],
       [''booster'', ''desc''], [''booster'', ''bio''], [''booster'', ''note'']], FBoosterNote),
     ([[''retweeter'', ''protected''], [''retweeter'', ''isprotected''],
       [''retweeter'', ''is_protected''], [''retweeter'', ''locked''],
       [''reblogger'', ''protected''], [''reblogger'', ''is_protected''],
       [''reblogger'', ''locked''], [''booster'', ''protected''],
       [''booster'', ''is_protected''], [''booster'', ''locked'']], FBoosterLocked),
     ([[''retweeter'', ''bot''], [''retweeter'', ''is_bot''], [''reblogger'', ''bot''],
       [''reblogger'', ''is_bot''], [''booster'', ''bot''], [''booster'', ''is_bot'']], FBoosterBot),
     ([[''retweeter'', ''follower''], [''retweeter'', ''followers''],
       [''retweeter'', ''followerscount''], [''retweeter'', ''follower_count''],
       [''retweeter'', ''followers_count''], [''reblogger'', ''follower''],
       [''reblogger'', ''followers''], [''reblogger'', ''followerscount''],
       [''reblogger'', ''followers_count''], [''booster'', ''follower''],
       [''booster'', ''followers''], [''booster'', ''followerscount''],
       [''booster'', ''followers_count'']], FBoosterFollowers),
     ([[''retweeter'', ''follow''], [''retweeter'', ''following''],
       [''retweeter'', ''followings''], [''retweeter'', ''followingcount''],
       [''retweeter'', ''followingscount''], [''retweeter'', ''following_count''],
       [''retweeter'', ''followings_count''], [''retweeter'', ''friend''],
       [''retweeter'', ''friends''], [''retweeter'', ''friendscount''],
       [''retweeter'', ''friend_count''], [''retweeter'', ''friends_count''],
       [''reblogger'', ''follow''], [''reblogger'', ''following''],
       [''reblogger'', ''followings''], [''reblogger'', ''followingcount''],
       [''reblogger'', ''following_count''], [''reblogger'', ''followings_count''],
       [''reblogger'', ''friend''], [''reblogger'', ''friends''], [''booster'', ''follow''],
       [''booster'', ''following''], [''booster'', ''followings''],
       [''booster'', ''followingcount''], [''booster'', ''following_count''],
       [''booster'', ''followings_count''], [''booster'', ''friend''], [''booster'', ''friends'']], FBoosterFollowing),
     ([[''retweeter'', ''status''], [''retweeter'', ''statuses''],
       [''retweeter'', ''statuscount''], [''retweeter'', ''statusescount''],
       [''retweeter'', ''status_count''], [''retweeter'', ''statuses_count''],
       [''reblogger'', ''statuses''], [''reblogger'', ''statuses_count''],
       [''booster'', ''statuses''], [''booster'', ''statuses_count'']], FBoosterStatuses),
     ([[''retweeter'', ''domain''], [''retweeter'', ''server_domain''],
       [''reblogger'', ''domain''], [''reblogger'', ''server_domain''],
       [''booster'', ''domain''], [''booster'', ''server_domain'']], FBoosterDomain)]"

text \<open>The arms for the viewer state.\<close>

definition viewer_field_aliases :: "(string list list \<times> field) list" where
  "viewer_field_aliases = [
     ([[''viewer'', ''favourited''], [''viewer'', ''favorited'']], FViewerFavourited),
     ([[''viewer'', ''reblogged''], [''viewer'', ''boosted''], [''viewer'', ''renoted'']], FViewerReblogged),
     ([[''viewer'', ''muted'']], FViewerMuted),
     ([[''viewer'', ''bookmarked'']], FViewerBookmarked),
     ([[''viewer'', ''pinned'']], FViewerPinned)]"

definition field_aliases :: "(string list list \<times> field) list" where
  "field_aliases =
     status_field_aliases @ author_field_aliases @ booster_field_aliases @ viewer_field_aliases"

definition path_of :: "string list \<Rightarrow> rstr list" where
  "path_of p = map str p"

definition resolve_field :: "rstr list \<Rightarrow> field option" where
  "resolve_field parts =
     (let path = map to_ascii_lowercase parts
      in map_option snd (find (\<lambda>(alts, f). path \<in> set (map path_of alts)) field_aliases))"

lemmas field_alias_defs =
  status_field_aliases_def author_field_aliases_def booster_field_aliases_def
  viewer_field_aliases_def field_aliases_def

lemma path_of_inject [simp]: "path_of p = path_of q \<longleftrightarrow> p = q"
proof -
  have "inj str" by (rule injI) simp
  then show ?thesis by (simp add: path_of_def inj_map_eq_map)
qed

lemma to_ascii_lowercase_map_idem [simp]:
  "map to_ascii_lowercase (map to_ascii_lowercase parts) = map to_ascii_lowercase parts"
  by (simp add: comp_def)

text \<open>Resolution ignores ASCII case.\<close>

lemma resolve_field_ignores_case:
  assumes "map to_ascii_lowercase parts = map to_ascii_lowercase parts'"
  shows "resolve_field parts = resolve_field parts'"
  using assms by (simp add: resolve_field_def)

text \<open>On a path whose lower-cased form is spelled \<open>p\<close>, resolution is the first arm holding \<open>p\<close>.\<close>

definition field_arm :: "string list \<Rightarrow> (string list list \<times> field) option" where
  "field_arm p = find (\<lambda>(alts, f). p \<in> set alts) field_aliases"

lemma resolve_field_arm:
  assumes "map to_ascii_lowercase parts = path_of p"
  shows "resolve_field parts = map_option snd (field_arm p)"
proof -
  have "path_of p \<in> set (map path_of alts) \<longleftrightarrow> p \<in> set alts" for alts
    by (auto simp: image_iff)
  with assms show ?thesis
    by (simp add: resolve_field_def field_arm_def)
qed

section \<open>Source names\<close>

definition source_kind_aliases :: "(string list \<times> source_kind) list" where
  "source_kind_aliases = [
     ([''*'', ''all'', ''local''], SrcLocal),
     ([''home''], SrcHome),
     ([''list''], SrcList),
     ([''mention'', ''mentions'', ''reply'', ''replies''], SrcMentions),
     ([''message'', ''messages'', ''dm'', ''dms'', ''direct''], SrcDirect),
     ([''search'', ''find''], SrcSearch),
     ([''track'', ''stream''], SrcTrack),
     ([''conv'', ''conversation'', ''talk'', ''tree''], SrcConversation),
     ([''user''], SrcUser),
     ([''public'', ''federated''], SrcPublic),
     ([''local_public'', ''localpublic''], SrcLocalPublic),
     ([''hashtag'', ''tag''], SrcHashtag),
     ([''bookmark'', ''bookmarks'', ''bookmarked''], SrcBookmarks),
     ([''favourite'', ''favourites'', ''favorite'', ''favorites'', ''favs''], SrcFavourites)]"

definition resolve_source_kind :: "rstr \<Rightarrow> source_kind option" where
  "resolve_source_kind name =
     map_option snd (find (\<lambda>(alts, k). name \<in> set (map str alts)) source_kind_aliases)"

definition source_requires_argument :: "source_kind \<Rightarrow> bool" where
  "source_requires_argument k \<longleftrightarrow>
     k \<in> {SrcList, SrcSearch, SrcTrack, SrcConversation, SrcUser, SrcHashtag}"

definition source_accepts_account_wildcard :: "source_kind \<Rightarrow> bool" where
  "source_accepts_account_wildcard k \<longleftrightarrow>
     k \<in> {SrcHome, SrcMentions, SrcDirect, SrcPublic, SrcLocalPublic, SrcBookmarks, SrcFavourites}"

definition normalize_source_argument :: "source_kind \<Rightarrow> rstr \<Rightarrow> rstr" where
  "normalize_source_argument k argument =
     (let trimmed = trim argument in
      if k = SrcHashtag then trim_start_matches (chr CHR ''#'') trimmed
      else if k \<in> {SrcHome, SrcMentions, SrcDirect, SrcPublic, SrcLocalPublic, SrcBookmarks,
                    SrcFavourites, SrcUser}
      then strip_prefix_or (str ''@'') trimmed
      else trimmed)"

lemma resolve_source_kind_as_str: "resolve_source_kind (str (source_kind_as_str k)) = Some k"
  by (cases k; hypsubst; code_simp)

text \<open>No source kind both needs an argument and lets a wildcard erase its arguments.\<close>

lemma source_argument_rules_disjoint:
  "\<not> (source_requires_argument k \<and> source_accepts_account_wildcard k)"
  by (cases k) (simp_all add: source_requires_argument_def source_accepts_account_wildcard_def)

end
