(* ===== verification/KqLexer.thy ===== *)
theory KqLexer
imports KqSyntax
begin

text \<open>
  The KQ lexer (\<^verbatim>\<open>Lexer\<close> of \<^verbatim>\<open>src/src/services/kq_filter.rs\<close>). The source keeps the input and a
  byte position; the model carries the unread suffix \<open>rest\<close> of the input together with that byte
  position, so \<^verbatim>\<open>peek\<close> is the head of \<open>rest\<close> and \<^verbatim>\<open>advance\<close> moves one character from \<open>rest\<close> to the
  position. A scanner returns the token kind, the new suffix and the new position, or the compile
  error. The theorems: every token occupies a non-empty slice of the input on character
  boundaries, only white space lies between tokens, \<open>TkEnd\<close> is the last token and only the last,
  numbers fit a signed 64-bit integer, and quoting and decimal printing are inverted by the lexer.
\<close>

section \<open>Tokens\<close>

datatype (plugins only: code size) token_kind =
  TkIdentifier rstr
| TkString rstr
| TkAccount rstr
| TkOpaqueId rstr
| TkNumber int
| TkMinMagnitude
| TkLeftParen | TkRightParen | TkLeftBracket | TkRightBracket | TkComma | TkDot | TkColon
| TkPlus | TkMinus | TkStar | TkSlash | TkBang | TkAmpersand | TkPipe | TkEqual | TkNotEqual
| TkLess | TkLessEqual | TkGreater | TkGreaterEqual | TkArrowRight | TkArrowLeft
| TkEnd

record token =
  tk_kind :: token_kind
  tk_span :: span

type_synonym scanned = "token_kind \<times> rstr \<times> nat"

definition is_identifier_start :: "lib \<Rightarrow> rchar \<Rightarrow> bool" where
  "is_identifier_start L ch \<longleftrightarrow> ch = chr CHR ''_'' \<or> is_alphabetic L ch"

definition is_identifier_continue :: "lib \<Rightarrow> rchar \<Rightarrow> bool" where
  "is_identifier_continue L ch \<longleftrightarrow> ch = chr CHR ''_'' \<or> is_alphanumeric L ch"

definition is_literal_delimiter :: "rchar \<Rightarrow> bool" where
  "is_literal_delimiter ch \<longleftrightarrow> is_whitespace ch \<or> ch \<in> set (str ''()[],&|=!<>+*/'')"

definition quote_char :: rchar where "quote_char = chr (CHR 0x22)"
definition backslash :: rchar where "backslash = chr (CHR 0x5C)"

definition next_is :: "char \<Rightarrow> rstr \<Rightarrow> bool" where
  "next_is c rest = (case rest of [] \<Rightarrow> False | x # _ \<Rightarrow> x = chr c)"

section \<open>Scanners\<close>

text \<open>The loop of \<^verbatim>\<open>quoted\<close>, after the opening quote: \<open>Inl\<close> the message and the position of an
  unterminated literal.\<close>

fun quoted_loop :: "rstr \<Rightarrow> nat \<Rightarrow> rstr \<Rightarrow> (string \<times> nat) + (rstr \<times> rstr \<times> nat)" where
  "quoted_loop [] position value = Inl (''unterminated string literal'', position)"
| "quoted_loop (ch # rest) position value =
     (let position = position + len_utf8 ch in
      if ch = quote_char then Inr (value, rest, position)
      else if ch = backslash then
        (case rest of
           [] \<Rightarrow> Inl (''unterminated string escape'', position)
         | escaped # rest' \<Rightarrow>
             quoted_loop rest' (position + len_utf8 escaped)
               (if escaped = quote_char \<or> escaped = backslash then value @ [escaped]
                else value @ [backslash, escaped]))
      else quoted_loop rest position (value @ [ch]))"

text \<open>\<^verbatim>\<open>quoted(start)\<close>; \<open>rest\<close> and \<open>position\<close> stand behind the opening quote.\<close>

definition quoted :: "rstr \<Rightarrow> nat \<Rightarrow> rstr \<Rightarrow> nat \<Rightarrow> compile_error + (rstr \<times> rstr \<times> nat)" where
  "quoted input start rest position =
     (case quoted_loop rest position [] of
        Inl (message, position) \<Rightarrow> Inl (compile_error_at input (mk_span start position) message)
      | Inr r \<Rightarrow> Inr r)"

text \<open>\<^verbatim>\<open>account\<close> and \<^verbatim>\<open>opaque_id\<close>: \<open>rest\<close> and \<open>position\<close> stand behind the marker, \<open>start\<close> on it.\<close>

definition scan_account :: "rstr \<Rightarrow> nat \<Rightarrow> rstr \<Rightarrow> nat \<Rightarrow> compile_error + scanned" where
  "scan_account input start rest position =
     (if next_is (CHR 0x22) rest then
        (case quoted input position (tl rest) (position + len_utf8 quote_char) of
           Inl e \<Rightarrow> Inl e
         | Inr (value, rest', end) \<Rightarrow>
             if value = [] then
               Inl (compile_error_at input (mk_span start end) ''empty account literal'')
             else Inr (TkAccount value, rest', end))
      else
        (let stop = (\<lambda>ch. is_literal_delimiter ch \<or> ch = chr CHR '':'');
             value = takeWhile (\<lambda>ch. \<not> stop ch) rest;
             position' = position + byte_len value
         in if value = [] then
              Inl (compile_error_at input (mk_span start position') ''empty account literal'')
            else Inr (TkAccount value, dropWhile (\<lambda>ch. \<not> stop ch) rest, position')))"

definition scan_opaque_id :: "rstr \<Rightarrow> nat \<Rightarrow> rstr \<Rightarrow> nat \<Rightarrow> compile_error + scanned" where
  "scan_opaque_id input start rest position =
     (if next_is (CHR 0x22) rest then
        (case quoted input position (tl rest) (position + len_utf8 quote_char) of
           Inl e \<Rightarrow> Inl e
         | Inr (value, rest', end) \<Rightarrow>
             if value = [] then
               Inl (compile_error_at input (mk_span start end) ''empty identifier literal'')
             else Inr (TkOpaqueId value, rest', end))
      else
        (let value = takeWhile (\<lambda>ch. \<not> is_literal_delimiter ch) rest;
             position' = position + byte_len value
         in if value = [] then
              Inl (compile_error_at input (mk_span start position') ''empty identifier literal'')
            else Inr (TkOpaqueId value, dropWhile (\<lambda>ch. \<not> is_literal_delimiter ch) rest, position')))"

text \<open>\<^verbatim>\<open>number\<close>: \<open>text\<close> starts with a digit. The first error is \<^verbatim>\<open>parse::<u64>\<close> failing.\<close>

definition scan_number :: "rstr \<Rightarrow> nat \<Rightarrow> rstr \<Rightarrow> compile_error + scanned" where
  "scan_number input start text =
     (let digits = takeWhile is_ascii_digit text;
          position = start + byte_len digits;
          magnitude = digits_value digits;
          out_of_range = compile_error_at input (mk_span start position)
            ''integer literal is outside the signed 64-bit range''
      in if magnitude \<ge> 18446744073709551616 then Inl out_of_range
         else if int magnitude \<le> i64_max
         then Inr (TkNumber (int magnitude), dropWhile is_ascii_digit text, position)
         else if int magnitude = i64_max + 1
         then Inr (TkMinMagnitude, dropWhile is_ascii_digit text, position)
         else Inl out_of_range)"

definition scan_identifier :: "lib \<Rightarrow> nat \<Rightarrow> rchar \<Rightarrow> rstr \<Rightarrow> scanned" where
  "scan_identifier L start ch rest =
     (let name = ch # takeWhile (is_identifier_continue L) rest
      in (TkIdentifier name, dropWhile (is_identifier_continue L) rest, start + byte_len name))"

text \<open>One character of punctuation, or two when the second one follows.\<close>

definition single :: "token_kind \<Rightarrow> rstr \<Rightarrow> nat \<Rightarrow> scanned" where
  "single k rest position = (k, rest, position)"

definition one_or_two :: "char \<Rightarrow> token_kind \<Rightarrow> token_kind \<Rightarrow> rstr \<Rightarrow> nat \<Rightarrow> scanned" where
  "one_or_two second k2 k1 rest position =
     (if next_is second rest then (k2, tl rest, position + len_utf8 (chr second))
      else (k1, rest, position))"

text \<open>The body of the loop of \<^verbatim>\<open>tokenize\<close> for a character that is not white space.\<close>

definition scan_token :: "lib \<Rightarrow> rstr \<Rightarrow> rchar \<Rightarrow> rstr \<Rightarrow> nat \<Rightarrow> compile_error + scanned" where
  "scan_token L input ch rest start =
     (let position = start + len_utf8 ch in
      if ch = quote_char then
        (case quoted input start rest position of
           Inl e \<Rightarrow> Inl e
         | Inr (value, rest', end) \<Rightarrow> Inr (TkString value, rest', end))
      else if ch = chr CHR ''@'' then scan_account input start rest position
      else if ch = chr CHR ''#'' then scan_opaque_id input start rest position
      else if is_ascii_digit ch then scan_number input start (ch # rest)
      else if ch = chr CHR ''('' then Inr (single TkLeftParen rest position)
      else if ch = chr CHR '')'' then Inr (single TkRightParen rest position)
      else if ch = chr CHR ''['' then Inr (single TkLeftBracket rest position)
      else if ch = chr CHR '']'' then Inr (single TkRightBracket rest position)
      else if ch = chr CHR '','' then Inr (single TkComma rest position)
      else if ch = chr CHR ''.'' then Inr (single TkDot rest position)
      else if ch = chr CHR '':'' then Inr (single TkColon rest position)
      else if ch = chr CHR ''+'' then Inr (single TkPlus rest position)
      else if ch = chr CHR ''*'' then Inr (single TkStar rest position)
      else if ch = chr CHR ''/'' then Inr (single TkSlash rest position)
      else if ch = chr CHR ''&'' then Inr (one_or_two CHR ''&'' TkAmpersand TkAmpersand rest position)
      else if ch = chr CHR ''|'' then Inr (one_or_two CHR ''|'' TkPipe TkPipe rest position)
      else if ch = chr CHR ''='' then Inr (one_or_two CHR ''='' TkEqual TkEqual rest position)
      else if ch = chr CHR ''!'' then Inr (one_or_two CHR ''='' TkNotEqual TkBang rest position)
      else if ch = chr CHR ''-'' then Inr (one_or_two CHR ''>'' TkArrowRight TkMinus rest position)
      else if ch = chr CHR ''<'' then
        (if next_is CHR ''='' rest then Inr (one_or_two CHR ''='' TkLessEqual TkLess rest position)
         else Inr (one_or_two CHR ''-'' TkArrowLeft TkLess rest position))
      else if ch = chr CHR ''>'' then Inr (one_or_two CHR ''='' TkGreaterEqual TkGreater rest position)
      else if is_identifier_start L ch then Inr (scan_identifier L start ch rest)
      else Inl (compile_error_at input (mk_span start position) ''unexpected character''))"

definition push_token ::
  "query_limits \<Rightarrow> rstr \<Rightarrow> token list \<Rightarrow> token_kind \<Rightarrow> nat \<Rightarrow> nat \<Rightarrow> compile_error + token list" where
  "push_token lim input toks k s e =
     (if length toks \<ge> max_tokens lim
      then Inl (compile_error_at input (mk_span s e) ''query token limit exceeded'')
      else Inr (toks @ [\<lparr>tk_kind = k, tk_span = mk_span s e\<rparr>]))"

section \<open>What a scanner consumes\<close>

text \<open>A scan result that consumed a prefix of \<open>text\<close> of the right byte length.\<close>

definition consumed :: "rstr \<Rightarrow> nat \<Rightarrow> rstr \<Rightarrow> nat \<Rightarrow> bool" where
  "consumed text position rest' position' \<longleftrightarrow>
     (\<exists>c. text = c @ rest' \<and> position' = position + byte_len c)"

lemma consumed_refl [simp]: "consumed text position text position"
  by (auto simp: consumed_def intro: exI [of _ "[]"])

lemma consumed_Cons:
  "consumed rest (position + len_utf8 ch) rest' position' \<Longrightarrow>
   consumed (ch # rest) position rest' position'"
  unfolding consumed_def by (metis append_Cons byte_len.simps(2) add.assoc)

lemma consumed_takeWhile:
  "consumed text position (dropWhile P text) (position + byte_len (takeWhile P text))"
  unfolding consumed_def by (metis takeWhile_dropWhile_id)

lemma consumed_length: "consumed text position rest' position' \<Longrightarrow> length rest' \<le> length text"
  by (auto simp: consumed_def)

lemma consumed_position: "consumed text position rest' position' \<Longrightarrow> position \<le> position'"
  by (auto simp: consumed_def)

lemma next_is_Cons: "next_is c rest \<Longrightarrow> rest = chr c # tl rest"
  by (auto simp: next_is_def split: list.splits)

lemma quoted_loop_consumed:
  "quoted_loop rest position u = Inr (v, rest', position') \<Longrightarrow>
   consumed rest position rest' position'"
proof (induction rest position u rule: quoted_loop.induct)
  case (2 ch rest position u)
  show ?case
  proof (cases "ch = backslash \<and> ch \<noteq> quote_char")
    case True
    with 2 show ?thesis
      by (cases rest) (auto intro!: consumed_Cons simp: Let_def split: if_splits)
  next
    case False
    with 2 show ?thesis
      by (auto intro!: consumed_Cons simp: Let_def split: if_splits)
  qed
qed simp

lemma quoted_consumed:
  "quoted input start rest position = Inr (v, rest', position') \<Longrightarrow>
   consumed rest position rest' position'"
  by (auto simp: quoted_def dest: quoted_loop_consumed split: sum.splits prod.splits)

lemma quoted_after_marker:
  assumes "next_is (CHR 0x22) rest"
    and "quoted input s (tl rest) (position + len_utf8 quote_char) = Inr (v, rest', position')"
  shows "consumed rest position rest' position'"
  using quoted_consumed[OF assms(2)] next_is_Cons[OF assms(1)]
  by (metis consumed_Cons quote_char_def)

lemma scan_account_consumed:
  "scan_account input start rest position = Inr (k, rest', position') \<Longrightarrow>
   consumed rest position rest' position'"
  by (auto simp: scan_account_def Let_def intro: consumed_takeWhile
      dest: quoted_after_marker split: if_splits sum.splits prod.splits)

lemma scan_opaque_id_consumed:
  "scan_opaque_id input start rest position = Inr (k, rest', position') \<Longrightarrow>
   consumed rest position rest' position'"
  by (auto simp: scan_opaque_id_def Let_def intro: consumed_takeWhile
      dest: quoted_after_marker split: if_splits sum.splits prod.splits)

lemma one_or_two_consumed:
  "one_or_two c k2 k1 rest position = (k, rest', position') \<Longrightarrow>
   consumed rest position rest' position'"
  unfolding one_or_two_def
  by (auto split: if_splits dest!: next_is_Cons intro: consumed_refl)
    (metis consumed_Cons consumed_refl chr_def)

lemma scan_number_consumed:
  assumes "scan_number input start (ch # rest) = Inr (k, rest', position')" and "is_ascii_digit ch"
  shows "consumed rest (start + len_utf8 ch) rest' position'"
  using assms consumed_takeWhile[of rest "start + len_utf8 ch" is_ascii_digit]
  by (auto simp: scan_number_def Let_def add.assoc split: if_splits)

lemma scan_identifier_consumed:
  assumes "scan_identifier L start ch rest = (k, rest', position')"
  shows "consumed rest (start + len_utf8 ch) rest' position'"
  using assms consumed_takeWhile[of rest "start + len_utf8 ch" "is_identifier_continue L"]
  by (auto simp: scan_identifier_def Let_def add.assoc)

lemmas scan_consumed = quoted_consumed scan_account_consumed scan_opaque_id_consumed
  scan_number_consumed scan_identifier_consumed one_or_two_consumed

lemma scan_token_consumed:
  assumes "scan_token L input ch rest start = Inr (k, rest', position')"
  shows "consumed rest (start + len_utf8 ch) rest' position'"
  using assms unfolding scan_token_def Let_def single_def
  by (auto split: if_splits sum.splits prod.splits dest: scan_consumed)

section \<open>The loop\<close>

text \<open>\<^verbatim>\<open>tokenize\<close>: the tokens pushed so far are an argument of the loop.\<close>

function tokenize_loop ::
  "lib \<Rightarrow> query_limits \<Rightarrow> rstr \<Rightarrow> rstr \<Rightarrow> nat \<Rightarrow> token list \<Rightarrow> compile_error + token list" where
  "tokenize_loop L lim input [] position toks = push_token lim input toks TkEnd position position"
| "tokenize_loop L lim input (ch # rest) position toks =
     (if is_whitespace ch then tokenize_loop L lim input rest (position + len_utf8 ch) toks
      else case scan_token L input ch rest position of
        Inl e \<Rightarrow> Inl e
      | Inr (k, rest', position') \<Rightarrow>
          (case push_token lim input toks k position position' of
             Inl e \<Rightarrow> Inl e
           | Inr toks' \<Rightarrow> tokenize_loop L lim input rest' position' toks'))"
  by pat_completeness auto
termination
  by (relation "measure (\<lambda>(L, lim, input, rest, position, toks). length rest)")
    (auto dest!: scan_token_consumed consumed_length)

definition tokenize :: "lib \<Rightarrow> query_limits \<Rightarrow> rstr \<Rightarrow> compile_error + token list" where
  "tokenize L lim input = tokenize_loop L lim input input 0 []"

section \<open>The layout of the token stream\<close>

text \<open>
  \<open>layout p text toks\<close>: read from byte offset \<open>p\<close>, \<open>text\<close> is white space and non-empty token
  slices in turn, each token's span is exactly its slice, and an end token stands behind the last
  white space.
\<close>

inductive layout :: "nat \<Rightarrow> rstr \<Rightarrow> token list \<Rightarrow> bool" where
  layout_end: "\<forall>c \<in> set ws. is_whitespace c \<Longrightarrow> e = p + byte_len ws \<Longrightarrow>
     layout p ws [\<lparr>tk_kind = TkEnd, tk_span = mk_span e e\<rparr>]"
| layout_token: "\<forall>c \<in> set ws. is_whitespace c \<Longrightarrow> lexeme \<noteq> [] \<Longrightarrow> k \<noteq> TkEnd \<Longrightarrow>
     s = p + byte_len ws \<Longrightarrow> e = s + byte_len lexeme \<Longrightarrow> layout e rest toks \<Longrightarrow>
     layout p (ws @ lexeme @ rest) (\<lparr>tk_kind = k, tk_span = mk_span s e\<rparr> # toks)"

lemma layout_whitespace:
  assumes "layout (p + len_utf8 ch) rest toks" and "is_whitespace ch"
  shows "layout p (ch # rest) toks"
  using assms(1)
proof cases
  case (layout_end e)
  then show ?thesis
    using assms(2) layout.layout_end[of "ch # rest" e p] by simp
next
  case (layout_token ws lexeme k s e rest' toks')
  then show ?thesis
    using assms(2) layout.layout_token[of "ch # ws" lexeme k s p e rest' toks'] by simp
qed

text \<open>What a token carries.\<close>

fun token_kind_ok :: "token_kind \<Rightarrow> bool" where
  "token_kind_ok (TkNumber n) \<longleftrightarrow> 0 \<le> n \<and> in_i64 n"
| "token_kind_ok (TkIdentifier name) \<longleftrightarrow> name \<noteq> []"
| "token_kind_ok (TkAccount v) \<longleftrightarrow> v \<noteq> []"
| "token_kind_ok (TkOpaqueId v) \<longleftrightarrow> v \<noteq> []"
| "token_kind_ok _ \<longleftrightarrow> True"

definition produced :: "token_kind \<Rightarrow> bool" where
  "produced k \<longleftrightarrow> k \<noteq> TkEnd \<and> token_kind_ok k"

lemma scan_account_produced:
  "scan_account input start rest position = Inr (k, r) \<Longrightarrow> produced k"
  by (auto simp: scan_account_def produced_def Let_def split: if_splits sum.splits)

lemma scan_opaque_id_produced:
  "scan_opaque_id input start rest position = Inr (k, r) \<Longrightarrow> produced k"
  by (auto simp: scan_opaque_id_def produced_def Let_def split: if_splits sum.splits)

lemma scan_number_produced: "scan_number input start text = Inr (k, r) \<Longrightarrow> produced k"
  by (auto simp: scan_number_def produced_def Let_def i64_defs split: if_splits)

lemma scan_identifier_produced: "scan_identifier L start ch rest = (k, r) \<Longrightarrow> produced k"
  by (auto simp: scan_identifier_def produced_def Let_def)

lemma one_or_two_produced:
  "one_or_two c k2 k1 rest position = (k, r) \<Longrightarrow> produced k1 \<Longrightarrow> produced k2 \<Longrightarrow> produced k"
  by (auto simp: one_or_two_def split: if_splits)

lemma scan_token_produced:
  assumes "scan_token L input ch rest start = Inr (k, r)"
  shows "produced k"
proof -
  have p: "produced TkAmpersand" "produced TkPipe" "produced TkEqual" "produced TkNotEqual"
    "produced TkBang" "produced TkArrowRight" "produced TkMinus" "produced TkLessEqual"
    "produced TkLess" "produced TkArrowLeft" "produced TkGreaterEqual" "produced TkGreater"
    "produced TkLeftParen" "produced TkRightParen" "produced TkLeftBracket"
    "produced TkRightBracket" "produced TkComma" "produced TkDot" "produced TkColon"
    "produced TkPlus" "produced TkStar" "produced TkSlash" "\<And>v. produced (TkString v)"
    by (simp_all add: produced_def)
  show ?thesis
    using assms unfolding scan_token_def Let_def single_def
    by (auto simp: p split: if_splits sum.splits prod.splits
        dest: scan_account_produced scan_opaque_id_produced scan_number_produced
        scan_identifier_produced one_or_two_produced)
qed

lemma push_token_Inr:
  "push_token lim input toks k s e = Inr toks' \<longleftrightarrow>
     length toks < max_tokens lim \<and> toks' = toks @ [\<lparr>tk_kind = k, tk_span = mk_span s e\<rparr>]"
  by (auto simp: push_token_def)

text \<open>The invariant of the loop: what it appends lays out the unread suffix.\<close>

lemma tokenize_loop_layout:
  assumes "tokenize_loop L lim input rest position toks = Inr result"
  shows "\<exists>new. result = toks @ new \<and> layout position rest new \<and>
    (\<forall>t \<in> set new. token_kind_ok (tk_kind t)) \<and> length result \<le> max_tokens lim"
  using assms
proof (induction L lim input rest position toks rule: tokenize_loop.induct)
  case (1 L lim input position toks)
  then show ?case
    by (auto simp: push_token_Inr intro!: exI layout_end)
next
  case (2 L lim input ch rest position toks)
  show ?case
  proof (cases "is_whitespace ch")
    case True
    with 2 show ?thesis by (auto intro: layout_whitespace)
  next
    case False
    with "2.prems" obtain k rest' position' toks' where
      scan: "scan_token L input ch rest position = Inr (k, rest', position')" and
      push: "push_token lim input toks k position position' = Inr toks'" and
      loop: "tokenize_loop L lim input rest' position' toks' = Inr result"
      by (auto split: sum.splits prod.splits)
    from "2.IH"(2)[OF False scan refl refl push loop] obtain new where
      new: "result = toks' @ new" "layout position' rest' new"
        "\<forall>t \<in> set new. token_kind_ok (tk_kind t)" "length result \<le> max_tokens lim" by blast
    from scan_token_consumed[OF scan] obtain c where
      c: "rest = c @ rest'" "position' = position + byte_len (ch # c)"
      by (auto simp: consumed_def)
    have k: "k \<noteq> TkEnd" "token_kind_ok k"
      using scan_token_produced[OF scan] by (auto simp: produced_def)
    have "layout position ([] @ (ch # c) @ rest')
            (\<lparr>tk_kind = k, tk_span = mk_span position position'\<rparr> # new)"
      using c k new(2) by (intro layout.layout_token) auto
    then show ?thesis
      using new k push c(1) by (auto simp: push_token_Inr)
  qed
qed

lemma tokenize_layout:
  assumes "tokenize L lim input = Inr toks"
  shows "layout 0 input toks" "\<forall>t \<in> set toks. token_kind_ok (tk_kind t)"
    "length toks \<le> max_tokens lim"
  using tokenize_loop_layout[OF assms[unfolded tokenize_def]] by auto

text \<open>Spans in order, on character boundaries of the whole input.\<close>

fun spans_in_order :: "rstr \<Rightarrow> nat \<Rightarrow> token list \<Rightarrow> bool" where
  "spans_in_order input lo [] \<longleftrightarrow> True"
| "spans_in_order input lo (t # toks) \<longleftrightarrow>
     lo \<le> sp_start (tk_span t) \<and>
     (if tk_kind t = TkEnd then sp_end (tk_span t) = sp_start (tk_span t)
      else sp_start (tk_span t) < sp_end (tk_span t)) \<and>
     is_char_boundary input (sp_start (tk_span t)) \<and> is_char_boundary input (sp_end (tk_span t)) \<and>
     spans_in_order input (sp_end (tk_span t)) toks"

lemma layout_spans:
  assumes "layout p text toks" and "input = before @ text" and "p = byte_len before"
  shows "spans_in_order input p toks"
  using assms
proof (induction arbitrary: before rule: layout.induct)
  case (layout_end ws e p)
  then show ?case
    using is_char_boundary_byte_len[of input] by simp
next
  case (layout_token ws lexeme k s p e rest toks)
  have "is_char_boundary input s"
    using is_char_boundary_prefix[of "before @ ws" "lexeme @ rest"] layout_token by simp
  moreover have e: "is_char_boundary input e"
    using is_char_boundary_prefix[of "before @ ws @ lexeme" rest] layout_token
    by (simp add: add.assoc)
  moreover have "spans_in_order input e toks"
    using layout_token.prems layout_token.hyps layout_token.IH[of "before @ ws @ lexeme"]
    by (simp add: add.assoc)
  moreover have "0 < byte_len lexeme"
    using layout_token.hyps(2) by (metis byte_len_0 gr0I)
  ultimately show ?case
    using layout_token by (simp add: add.assoc)
qed

text \<open>The end token is the last one, and no other token is an end token.\<close>

definition well_ended :: "token list \<Rightarrow> bool" where
  "well_ended toks \<longleftrightarrow>
     toks \<noteq> [] \<and> tk_kind (last toks) = TkEnd \<and> (\<forall>t \<in> set (butlast toks). tk_kind t \<noteq> TkEnd)"

lemma layout_well_ended: "layout p text toks \<Longrightarrow> well_ended toks"
  by (induction rule: layout.induct) (auto simp: well_ended_def)

lemma tokenize_well_ended: "tokenize L lim input = Inr toks \<Longrightarrow> well_ended toks"
  by (rule layout_well_ended[OF tokenize_layout(1)])

section \<open>Errors\<close>

lemma quoted_error: "quoted input s rest p = Inl e \<Longrightarrow> error_within input e"
  by (auto simp: quoted_def compile_error_at_within split: sum.splits prod.splits)

lemma scan_token_error: "scan_token L input ch rest start = Inl e \<Longrightarrow> error_within input e"
  unfolding scan_token_def Let_def scan_account_def scan_opaque_id_def scan_number_def
  by (auto simp: compile_error_at_within split: if_splits sum.splits prod.splits dest: quoted_error)

lemma push_token_error: "push_token lim input toks k s e = Inl err \<Longrightarrow> error_within input err"
  by (auto simp: push_token_def compile_error_at_within split: if_splits)

lemma tokenize_loop_error:
  "tokenize_loop L lim input rest position toks = Inl e \<Longrightarrow> error_within input e"
proof (induction L lim input rest position toks rule: tokenize_loop.induct)
  case (2 L lim input ch rest position toks)
  then show ?case
    by (auto split: if_splits sum.splits prod.splits
        dest: scan_token_error push_token_error)
qed (auto dest: push_token_error)

section \<open>Round trips\<close>

text \<open>Printing a string literal: the quote and the backslash are escaped, nothing else.\<close>

definition escape_char :: "rchar \<Rightarrow> rstr" where
  "escape_char c = (if c = quote_char \<or> c = backslash then [backslash, c] else [c])"

definition escape_body :: "rstr \<Rightarrow> rstr" where
  "escape_body s = concat (map escape_char s)"

definition quote_literal :: "rstr \<Rightarrow> rstr" where
  "quote_literal s = quote_char # escape_body s @ [quote_char]"

lemma quote_backslash [simp]:
  "quote_char \<noteq> backslash" "backslash \<noteq> quote_char" "len_utf8 quote_char = 1" "len_utf8 backslash = 1"
  by (simp_all add: quote_char_def backslash_def len_utf8_def)

lemma quoted_loop_escape:
  "quoted_loop (escape_body s @ quote_char # rest) position u =
     Inr (u @ s, rest, position + byte_len (escape_body s) + 1)"
  by (induction s arbitrary: position u) (auto simp: escape_body_def escape_char_def Let_def)

text \<open>The lexer reads a printed string literal back, whatever follows it.\<close>

lemma scan_quote_literal:
  "scan_token L input quote_char (escape_body s @ quote_char # rest) start =
     Inr (TkString s, rest, start + byte_len (quote_literal s))"
  by (simp add: scan_token_def quoted_def quoted_loop_escape quote_literal_def)

text \<open>Decimal literals: every non-negative 64-bit integer is read back; the magnitude of
  \<open>i64_min\<close>, which no positive literal reaches, is kept for the unary minus.\<close>

lemma takeWhile_digits:
  assumes "rest = [] \<or> \<not> is_ascii_digit (hd rest)"
  shows "takeWhile is_ascii_digit (nat_digits n @ rest) = nat_digits n"
    and "dropWhile is_ascii_digit (nat_digits n @ rest) = rest"
proof -
  have d: "\<And>c. c \<in> set (nat_digits n) \<Longrightarrow> is_ascii_digit c"
    using nat_digits_ascii by blast
  show "takeWhile is_ascii_digit (nat_digits n @ rest) = nat_digits n"
    using assms d by (cases rest) (simp_all add: takeWhile_append2)
  show "dropWhile is_ascii_digit (nat_digits n @ rest) = rest"
    using assms d by (cases rest) (simp_all add: dropWhile_append2)
qed

lemma digit_scans_as_number:
  assumes "is_ascii_digit ch"
  shows "scan_token L input ch rest start = scan_number input start (ch # rest)"
  using assms
  by (auto simp: scan_token_def Let_def quote_char_def is_ascii_digit_def)

lemma scan_digits_number:
  "scan_token L input (hd (nat_digits n)) (tl (nat_digits n) @ rest) start =
     scan_number input start (nat_digits n @ rest)"
proof -
  obtain c cs where "nat_digits n = c # cs"
    by (cases "nat_digits n") auto
  then show ?thesis
    using nat_digits_ascii[of n] by (simp add: digit_scans_as_number)
qed

lemma scan_nat_digits:
  assumes "rest = [] \<or> \<not> is_ascii_digit (hd rest)" and "int n \<le> i64_max + 1"
  shows "scan_token L input (hd (nat_digits n)) (tl (nat_digits n) @ rest) start =
    Inr (if int n \<le> i64_max then TkNumber (int n) else TkMinMagnitude, rest,
         start + byte_len (nat_digits n))"
  unfolding scan_digits_number scan_number_def takeWhile_digits[OF assms(1)]
  using assms(2) by (auto simp: Let_def i64_max_def)

text \<open>A magnitude beyond that is refused.\<close>

lemma scan_nat_digits_too_large:
  assumes "rest = [] \<or> \<not> is_ascii_digit (hd rest)" and "i64_max + 1 < int n"
  shows "\<exists>e. scan_token L input (hd (nat_digits n)) (tl (nat_digits n) @ rest) start = Inl e"
  unfolding scan_digits_number scan_number_def takeWhile_digits[OF assms(1)]
  using assms(2) by (auto simp: Let_def)

lemma tokenize_single:
  assumes "input \<noteq> []" and "\<not> is_whitespace (hd input)" and "2 \<le> max_tokens lim"
    and "scan_token L input (hd input) (tl input) 0 = Inr (k, [], n)"
  shows "tokenize L lim input = Inr [\<lparr>tk_kind = k, tk_span = mk_span 0 n\<rparr>,
    \<lparr>tk_kind = TkEnd, tk_span = mk_span n n\<rparr>]"
  using assms by (cases input) (simp_all add: tokenize_def push_token_def)

lemma tokenize_refuses:
  assumes "input \<noteq> []" and "\<not> is_whitespace (hd input)"
    and "scan_token L input (hd input) (tl input) 0 = Inl e"
  shows "tokenize L lim input = Inl e"
  using assms by (cases input) (simp_all add: tokenize_def)

lemma quote_not_whitespace: "\<not> is_whitespace quote_char"
  by (simp add: quote_char_def is_whitespace_def)

lemma digit_not_whitespace: "is_ascii_digit c \<Longrightarrow> \<not> is_whitespace c"
  by (auto simp: is_ascii_digit_def is_whitespace_def)

section \<open>The lexer's contract\<close>

text \<open>The token stream of an accepted query covers it: the spans of the tokens lie in order on
  character boundaries with only white space between them, one end token stands behind them, every
  token carries a legal literal, and the token limit holds.\<close>

theorem tokenize_covers:
  assumes "tokenize L lim input = Inr toks"
  shows "layout 0 input toks \<and> spans_in_order input 0 toks \<and> well_ended toks \<and>
    (\<forall>t \<in> set toks. token_kind_ok (tk_kind t)) \<and> length toks \<le> max_tokens lim"
  using tokenize_layout[OF assms] layout_spans[of 0 input toks input "[]"] layout_well_ended
  by simp

theorem tokenize_covers_witness:
  "\<exists>toks. tokenize ascii_lib default_limits (str ''from home'') = Inr toks \<and> well_ended toks \<and>
     spans_in_order (str ''from home'') 0 toks \<and> length toks \<le> 4096"
proof -
  have "case tokenize ascii_lib default_limits (str ''from home'') of Inl e \<Rightarrow> False | Inr t \<Rightarrow> True"
    by code_simp
  then have "\<exists>toks. tokenize ascii_lib default_limits (str ''from home'') = Inr toks"
    by (simp split: sum.splits)
  then obtain toks where toks: "tokenize ascii_lib default_limits (str ''from home'') = Inr toks" ..
  from tokenize_covers[OF toks] toks show ?thesis by (simp add: default_limits_def)
qed

text \<open>C40: a printed string literal is read back: the query that spells a text between quotes, with its
  quotes and backslashes escaped, is one string token with that text.\<close>

theorem string_literal_round_trip:
  assumes "2 \<le> max_tokens lim"
  shows "tokenize L lim (quote_literal s) =
    Inr [\<lparr>tk_kind = TkString s, tk_span = mk_span 0 (byte_len (quote_literal s))\<rparr>,
      \<lparr>tk_kind = TkEnd, tk_span = mk_span (byte_len (quote_literal s)) (byte_len (quote_literal s))\<rparr>]"
  by (rule tokenize_single[OF _ _ assms])
    (simp_all add: quote_not_whitespace quote_literal_def
      scan_quote_literal[of _ _ s "[]", unfolded quote_literal_def])

theorem string_literal_round_trip_witness:
  "tokenize ascii_lib default_limits (quote_literal [quote_char, backslash, 97]) =
    Inr [\<lparr>tk_kind = TkString [quote_char, backslash, 97], tk_span = mk_span 0 7\<rparr>,
      \<lparr>tk_kind = TkEnd, tk_span = mk_span 7 7\<rparr>]"
proof -
  have "byte_len (quote_literal [quote_char, backslash, 97]) = 7" by code_simp
  then show ?thesis
    using string_literal_round_trip[of default_limits ascii_lib "[quote_char, backslash, 97]"]
    by (simp add: default_limits_def)
qed

text \<open>A decimal literal is read back exactly up to the largest signed 64-bit integer; the one magnitude
  above it is kept for the unary minus, and every larger literal is refused instead of wrapping
  around.\<close>

theorem number_literal_round_trip:
  assumes "2 \<le> max_tokens lim"
  shows "if int n \<le> i64_max + 1
    then tokenize L lim (nat_digits n) =
      Inr [\<lparr>tk_kind = (if int n \<le> i64_max then TkNumber (int n) else TkMinMagnitude),
             tk_span = mk_span 0 (byte_len (nat_digits n))\<rparr>,
           \<lparr>tk_kind = TkEnd, tk_span = mk_span (byte_len (nat_digits n)) (byte_len (nat_digits n))\<rparr>]
    else \<exists>e. tokenize L lim (nat_digits n) = Inl e"
proof -
  have "hd (nat_digits n) \<in> set (nat_digits n)" by (rule hd_in_set) simp
  then have ws: "\<not> is_whitespace (hd (nat_digits n))"
    using nat_digits_ascii digit_not_whitespace by blast
  show ?thesis
  proof (cases "int n \<le> i64_max + 1")
    case True
    from tokenize_single[OF _ ws assms scan_nat_digits[of "[]" n L "nat_digits n" 0, simplified, OF True]]
    show ?thesis using True by simp
  next
    case False
    then obtain e where
      "scan_token L (nat_digits n) (hd (nat_digits n)) (tl (nat_digits n)) 0 = Inl e"
      using scan_nat_digits_too_large[of "[]" n L "nat_digits n" 0] by auto
    then show ?thesis using False tokenize_refuses[OF _ ws] by auto
  qed
qed

theorem number_literal_round_trip_witness:
  "\<exists>e. tokenize ascii_lib default_limits (nat_digits 9223372036854775809) = Inl e"
  using number_literal_round_trip[of default_limits 9223372036854775809 ascii_lib]
  by (simp add: default_limits_def i64_max_def)

end
