(* ===== verification/KqParser.thy ===== *)
theory KqParser
imports KqLexer KqFields
begin

text \<open>
  The KQ parser and type checker (\<^verbatim>\<open>Parser\<close> of \<^verbatim>\<open>src/src/services/kq_filter.rs\<close>).

  A parser operation takes the parser state and returns an \<open>outcome\<close>: a result with the new
  state, the compile error, \<open>Panic\<close> where the source would index out of range or unwrap a missing
  value, or \<open>Stuck\<close> when a loop of the model runs out of fuel. The source's functions for the
  binary levels call each other in a chain down to \<^verbatim>\<open>parse_unary\<close>, which is the only one that
  calls upwards again, always one depth further; so the model's \<open>parse_unary\<close> recurses on fuel and
  the other functions take it as the argument \<open>pu\<close>. The depth guard bounds that recursion:
  \<open>max_depth + 2\<close> units are enough. A loop over tokens consumes a token in each round, and the
  number of unread tokens is enough fuel for it. \<open>KqParserProps\<close> proves both.
\<close>

section \<open>Outcomes\<close>

datatype 'a outcome = Done 'a | Fail compile_error | Panic | Stuck

fun obind :: "'a outcome \<Rightarrow> ('a \<Rightarrow> 'b outcome) \<Rightarrow> 'b outcome" where
  "obind (Done x) f = f x"
| "obind (Fail e) f = Fail e"
| "obind Panic f = Panic"
| "obind Stuck f = Stuck"

section \<open>The parser state\<close>

record parser =
  ps_input :: rstr
  ps_tokens :: "token list"
  ps_position :: nat
  ps_limits :: query_limits
  ps_source_argument_count :: nat

definition new_parser :: "rstr \<Rightarrow> token list \<Rightarrow> query_limits \<Rightarrow> parser" where
  "new_parser input toks lim = \<lparr>
     ps_input = input, ps_tokens = toks, ps_position = 0, ps_limits = lim,
     ps_source_argument_count = 0 \<rparr>"

datatype (plugins only: code size) simple_token =
  StLeftParen | StRightParen | StRightBracket | StComma | StDot | StColon | StPlus | StMinus
| StStar | StSlash | StBang | StAmpersand | StPipe | StEqual | StNotEqual | StLess | StLessEqual
| StGreater | StGreaterEqual | StArrowRight | StArrowLeft

definition simple_kind :: "simple_token \<Rightarrow> token_kind" where
  "simple_kind s =
     (case s of
        StLeftParen \<Rightarrow> TkLeftParen | StRightParen \<Rightarrow> TkRightParen
      | StRightBracket \<Rightarrow> TkRightBracket | StComma \<Rightarrow> TkComma | StDot \<Rightarrow> TkDot | StColon \<Rightarrow> TkColon
      | StPlus \<Rightarrow> TkPlus | StMinus \<Rightarrow> TkMinus | StStar \<Rightarrow> TkStar | StSlash \<Rightarrow> TkSlash
      | StBang \<Rightarrow> TkBang | StAmpersand \<Rightarrow> TkAmpersand | StPipe \<Rightarrow> TkPipe | StEqual \<Rightarrow> TkEqual
      | StNotEqual \<Rightarrow> TkNotEqual | StLess \<Rightarrow> TkLess | StLessEqual \<Rightarrow> TkLessEqual
      | StGreater \<Rightarrow> TkGreater | StGreaterEqual \<Rightarrow> TkGreaterEqual
      | StArrowRight \<Rightarrow> TkArrowRight | StArrowLeft \<Rightarrow> TkArrowLeft)"

definition simple_matches :: "simple_token \<Rightarrow> token_kind \<Rightarrow> bool" where
  "simple_matches s k \<longleftrightarrow> k = simple_kind s"

text \<open>\<open>current\<close> reads a token of a non-empty list; \<open>parse\<close> below panics at once on an empty one.\<close>

definition current :: "parser \<Rightarrow> token" where
  "current p = ps_tokens p ! min (ps_position p) (length (ps_tokens p) - 1)"

definition at_end :: "parser \<Rightarrow> bool" where
  "at_end p \<longleftrightarrow> tk_kind (current p) = TkEnd"

definition advance :: "parser \<Rightarrow> (token \<times> parser) outcome" where
  "advance p =
     (let index = ps_position p;
          p' = (if at_end p then p else p\<lparr>ps_position := index + 1\<rparr>)
      in if index < length (ps_tokens p) then Done (ps_tokens p ! index, p') else Panic)"

definition check_keyword :: "string \<Rightarrow> parser \<Rightarrow> bool" where
  "check_keyword keyword p =
     (case tk_kind (current p) of
        TkIdentifier v \<Rightarrow> eq_ignore_ascii_case v (str keyword)
      | _ \<Rightarrow> False)"

definition take_if :: "bool \<Rightarrow> parser \<Rightarrow> (token option \<times> parser) outcome" where
  "take_if b p = (if b then obind (advance p) (\<lambda>(t, p'). Done (Some t, p')) else Done (None, p))"

definition take_keyword :: "string \<Rightarrow> parser \<Rightarrow> (token option \<times> parser) outcome" where
  "take_keyword keyword p = take_if (check_keyword keyword p) p"

definition check_simple :: "simple_token \<Rightarrow> parser \<Rightarrow> bool" where
  "check_simple s p \<longleftrightarrow> simple_matches s (tk_kind (current p))"

definition take_simple :: "simple_token \<Rightarrow> parser \<Rightarrow> (token option \<times> parser) outcome" where
  "take_simple s p = take_if (check_simple s p) p"

definition error_current :: "parser \<Rightarrow> string \<Rightarrow> compile_error" where
  "error_current p message = compile_error_at (ps_input p) (tk_span (current p)) message"

definition expect_simple :: "simple_token \<Rightarrow> string \<Rightarrow> parser \<Rightarrow> (token \<times> parser) outcome" where
  "expect_simple s message p =
     obind (take_simple s p) (\<lambda>(t, p').
       case t of Some tok \<Rightarrow> Done (tok, p') | None \<Rightarrow> Fail (error_current p' message))"

definition guard_depth :: "nat \<Rightarrow> parser \<Rightarrow> (unit \<times> parser) outcome" where
  "guard_depth depth p =
     (if depth > max_depth (ps_limits p)
      then Fail (error_current p ''query nesting limit exceeded'') else Done ((), p))"

definition fail_at :: "parser \<Rightarrow> span \<Rightarrow> string \<Rightarrow> 'a outcome" where
  "fail_at p sp message = Fail (compile_error_at (ps_input p) sp message)"

text \<open>The number of unread tokens, the fuel of the token loops.\<close>

definition unread :: "parser \<Rightarrow> nat" where
  "unread p = length (ps_tokens p) - ps_position p"

section \<open>Expression nodes\<close>

definition unary_required :: "unary_op \<Rightarrow> value_types" where
  "unary_required op = (case op of UNot \<Rightarrow> ty_bool | UNegate \<Rightarrow> ty_number | UCaseful \<Rightarrow> ty_text)"

definition make_unary :: "unary_op \<Rightarrow> expr \<Rightarrow> span \<Rightarrow> parser \<Rightarrow> expr outcome" where
  "make_unary op operand operator_span p =
     (if \<not> intersects (e_types operand) (unary_required op)
      then fail_at p operator_span ''unary operator cannot be applied to this value type''
      else Done (Expr (EUnary op operand) (unary_required op)
                  (mk_span (sp_start operator_span) (sp_end (e_span operand)))))"

definition usize_saturating_mul :: "nat \<Rightarrow> nat \<Rightarrow> nat" where
  "usize_saturating_mul a b = min (a * b) 18446744073709551615"

definition literal_regex_options :: "query_limits \<Rightarrow> regex_options" where
  "literal_regex_options lim = \<lparr>
     ro_case_insensitive = False,
     ro_size_limit = Some (usize_saturating_mul (max_regex_bytes lim) 64),
     ro_dfa_size_limit = Some (usize_saturating_mul (max_regex_bytes lim) 256),
     ro_nest_limit = Some (max_depth lim mod 2 ^ 32) \<rparr>"

definition literal_regex :: "lib \<Rightarrow> binary_op \<Rightarrow> expr \<Rightarrow> parser \<Rightarrow> regex option outcome" where
  "literal_regex L op right p =
     (if op = BRegex then
        (case e_kind right of
           EText pattern \<Rightarrow>
             if byte_len pattern > max_regex_bytes (ps_limits p)
             then fail_at p (e_span right) ''regular expression limit exceeded''
             else (case regex_build L pattern (literal_regex_options (ps_limits p)) of
                     Some r \<Rightarrow> Done (Some r)
                   | None \<Rightarrow> fail_at p (e_span right) ''invalid regular expression'')
         | _ \<Rightarrow> fail_at p (e_span right) ''regular expression pattern must be a string literal'')
      else Done None)"

definition make_binary ::
  "lib \<Rightarrow> binary_op \<Rightarrow> expr \<Rightarrow> expr \<Rightarrow> span \<Rightarrow> parser \<Rightarrow> expr outcome" where
  "make_binary L op left right operator_span p =
     (case binary_result_types op (e_types left) (e_types right) of
        None \<Rightarrow> fail_at p operator_span ''binary operator cannot be applied to these value types''
      | Some result_types \<Rightarrow>
          obind (literal_regex L op right p) (\<lambda>rx.
            Done (Expr (EBinary op left right rx) result_types
                    (mk_span (sp_start (e_span left)) (sp_end (e_span right))))))"

text \<open>\<^verbatim>\<open>right_fold_ops\<close>: two stacks, popped from the right. The vectors are kept reversed, so \<^verbatim>\<open>pop\<close>
  takes the head.\<close>

type_synonym tail = "binary_op \<times> span \<times> expr"

fun pop_fold ::
  "lib \<Rightarrow> parser \<Rightarrow> expr list \<Rightarrow> (binary_op \<times> span) list \<Rightarrow> expr \<Rightarrow> expr outcome" where
  "pop_fold L p operands [] right = Done right"
| "pop_fold L p (left # operands) ((op, sp) # operators) right =
     obind (make_binary L op left right sp p) (\<lambda>right. pop_fold L p operands operators right)"
| "pop_fold L p [] ((op, sp) # operators) right = Panic"

definition right_fold_ops :: "lib \<Rightarrow> expr \<Rightarrow> tail list \<Rightarrow> parser \<Rightarrow> expr outcome" where
  "right_fold_ops L first tails p =
     (if tails = [] then Done first
      else if length tails \<ge> max_depth (ps_limits p) then
        (let i = max_depth (ps_limits p) - 1 in
         if i < length tails
         then fail_at p (fst (snd (tails ! i))) ''expression depth limit exceeded'' else Panic)
      else
        (let operands = first # map (\<lambda>(op, sp, e). e) tails;
             operators = map (\<lambda>(op, sp, e). (op, sp)) tails
         in case rev operands of
              [] \<Rightarrow> Panic
            | right # rest \<Rightarrow> pop_fold L p rest (rev operators) right))"

section \<open>Binary levels\<close>

type_synonym expr_parser = "nat \<Rightarrow> parser \<Rightarrow> (expr \<times> parser) outcome"
type_synonym token_taker = "parser \<Rightarrow> (token option \<times> parser) outcome"

text \<open>The operator tokens of a level are tried in the source's order.\<close>

fun take_op ::
  "(token_taker \<times> binary_op) list \<Rightarrow> parser \<Rightarrow> ((binary_op \<times> token) option \<times> parser) outcome" where
  "take_op [] p = Done (None, p)"
| "take_op ((take_tok, op) # others) p =
     obind (take_tok p) (\<lambda>(r, p').
       case r of Some tok \<Rightarrow> Done (Some (op, tok), p') | None \<Rightarrow> take_op others p')"

fun tails_loop ::
  "nat \<Rightarrow> (token_taker \<times> binary_op) list \<Rightarrow> (parser \<Rightarrow> (expr \<times> parser) outcome) \<Rightarrow> parser \<Rightarrow>
   (tail list \<times> parser) outcome" where
  "tails_loop 0 ops operand p = Stuck"
| "tails_loop (Suc n) ops operand p =
     obind (take_op ops p) (\<lambda>(r, p).
       case r of
         None \<Rightarrow> Done ([], p)
       | Some (op, tok) \<Rightarrow>
           obind (operand p) (\<lambda>(e, p).
             obind (tails_loop n ops operand p) (\<lambda>(tails, p).
               Done ((op, tk_span tok, e) # tails, p))))"

definition binary_level ::
  "lib \<Rightarrow> (token_taker \<times> binary_op) list \<Rightarrow> expr_parser \<Rightarrow> nat \<Rightarrow> parser \<Rightarrow> (expr \<times> parser) outcome"
where
  "binary_level L ops operand depth p =
     obind (guard_depth depth p) (\<lambda>(_, p).
       obind (operand depth p) (\<lambda>(first, p).
         obind (tails_loop (unread p) ops (operand depth) p) (\<lambda>(tails, p).
           obind (right_fold_ops L first tails p) (\<lambda>e. Done (e, p)))))"

definition multiplicative_ops :: "(token_taker \<times> binary_op) list" where
  "multiplicative_ops = [(take_simple StStar, BMultiply), (take_simple StSlash, BDivide)]"

definition additive_ops :: "(token_taker \<times> binary_op) list" where
  "additive_ops = [(take_simple StPlus, BAdd), (take_simple StMinus, BSubtract)]"

definition match_ops :: "(token_taker \<times> binary_op) list" where
  "match_ops = [
     (take_keyword ''regex'', BRegex), (take_keyword ''match'', BRegex),
     (take_keyword ''startswith'', BStartsWith), (take_keyword ''startwith'', BStartsWith),
     (take_keyword ''endswith'', BEndsWith), (take_keyword ''endwith'', BEndsWith),
     (take_keyword ''contains'', BContains), (take_simple StArrowRight, BContains),
     (take_keyword ''in'', BIn), (take_simple StArrowLeft, BIn)]"

definition comparison_ops :: "(token_taker \<times> binary_op) list" where
  "comparison_ops = [
     (take_simple StLess, BLess), (take_simple StLessEqual, BLessEqual),
     (take_simple StGreater, BGreater), (take_simple StGreaterEqual, BGreaterEqual)]"

definition equality_ops :: "(token_taker \<times> binary_op) list" where
  "equality_ops = [(take_simple StEqual, BEqual), (take_simple StNotEqual, BNotEqual)]"

definition and_ops :: "(token_taker \<times> binary_op) list" where
  "and_ops = [(take_simple StAmpersand, BAnd), (take_keyword ''and'', BAnd)]"

definition or_ops :: "(token_taker \<times> binary_op) list" where
  "or_ops = [(take_simple StPipe, BOr), (take_keyword ''or'', BOr)]"

definition parse_multiplicative :: "lib \<Rightarrow> expr_parser \<Rightarrow> expr_parser" where
  "parse_multiplicative L pu = binary_level L multiplicative_ops pu"

definition parse_additive :: "lib \<Rightarrow> expr_parser \<Rightarrow> expr_parser" where
  "parse_additive L pu = binary_level L additive_ops (parse_multiplicative L pu)"

definition parse_match_operator :: "lib \<Rightarrow> expr_parser \<Rightarrow> expr_parser" where
  "parse_match_operator L pu = binary_level L match_ops (parse_additive L pu)"

definition parse_comparison :: "lib \<Rightarrow> expr_parser \<Rightarrow> expr_parser" where
  "parse_comparison L pu = binary_level L comparison_ops (parse_match_operator L pu)"

definition parse_equality :: "lib \<Rightarrow> expr_parser \<Rightarrow> expr_parser" where
  "parse_equality L pu = binary_level L equality_ops (parse_comparison L pu)"

definition parse_and :: "lib \<Rightarrow> expr_parser \<Rightarrow> expr_parser" where
  "parse_and L pu = binary_level L and_ops (parse_equality L pu)"

definition parse_or :: "lib \<Rightarrow> expr_parser \<Rightarrow> expr_parser" where
  "parse_or L pu = binary_level L or_ops (parse_and L pu)"

section \<open>Primaries\<close>

text \<open>The loop of \<^verbatim>\<open>parse_set\<close>.\<close>

fun set_loop ::
  "nat \<Rightarrow> expr_parser \<Rightarrow> nat \<Rightarrow> expr list \<Rightarrow> parser \<Rightarrow> (expr list \<times> parser) outcome" where
  "set_loop 0 item depth vals p = Stuck"
| "set_loop (Suc n) item depth vals p =
     (if length vals \<ge> max_set_items (ps_limits p)
      then Fail (error_current p ''set item limit exceeded'')
      else obind (item depth p) (\<lambda>(v, p).
        if \<not> intersects (e_types v) (ty_number OR ty_text OR ty_identity)
        then fail_at p (e_span v) ''set items must be scalar values''
        else obind (take_simple StComma p) (\<lambda>(comma, p).
          if comma = None \<or> check_simple StRightBracket p then Done (vals @ [v], p)
          else set_loop n item depth (vals @ [v]) p)))"

definition parse_set :: "expr_parser \<Rightarrow> span \<Rightarrow> nat \<Rightarrow> parser \<Rightarrow> (expr \<times> parser) outcome" where
  "parse_set item open_span depth p =
     obind (if check_simple StRightBracket p then Done ([], p)
            else set_loop (unread p) item depth [] p) (\<lambda>(vals, p).
       obind (expect_simple StRightBracket ''set is missing a closing bracket'' p) (\<lambda>(close, p).
         Done (Expr (ESet vals) ty_set
                 (mk_span (sp_start open_span) (sp_end (tk_span close))), p)))"

text \<open>The loop over \<^verbatim>\<open>.component\<close> of \<^verbatim>\<open>parse_field_or_boolean\<close>.\<close>

fun field_path_loop ::
  "nat \<Rightarrow> rstr list \<Rightarrow> nat \<Rightarrow> parser \<Rightarrow> ((rstr list \<times> nat) \<times> parser) outcome" where
  "field_path_loop 0 parts stop p = Stuck"
| "field_path_loop (Suc n) parts stop p =
     obind (take_simple StDot p) (\<lambda>(dot, p).
       if dot = None then Done ((parts, stop), p)
       else obind (advance p) (\<lambda>(tok, p).
         case tk_kind tok of
           TkIdentifier part \<Rightarrow> field_path_loop n (parts @ [part]) (sp_end (tk_span tok)) p
         | _ \<Rightarrow> fail_at p (tk_span tok) ''field component expected after dot''))"

definition parse_field_or_boolean :: "rstr \<Rightarrow> span \<Rightarrow> parser \<Rightarrow> (expr \<times> parser) outcome" where
  "parse_field_or_boolean first start p =
     (if eq_ignore_ascii_case first (str ''true'') \<or> eq_ignore_ascii_case first (str ''false'')
      then Done (Expr (EBool (eq_ignore_ascii_case first (str ''true''))) ty_bool start, p)
      else obind (field_path_loop (unread p) [first] (sp_end start) p) (\<lambda>((parts, stop), p).
        case resolve_field parts of
          None \<Rightarrow> fail_at p (mk_span (sp_start start) stop) ''field is unsupported or unavailable''
        | Some f \<Rightarrow>
            Done (Expr (EField f) (field_value_types f) (mk_span (sp_start start) stop), p)))"

definition parse_primary :: "lib \<Rightarrow> expr_parser \<Rightarrow> expr_parser" where
  "parse_primary L pu depth p =
     obind (guard_depth depth p) (\<lambda>(_, p).
       obind (advance p) (\<lambda>(tok, p).
         case tk_kind tok of
           TkNumber n \<Rightarrow> Done (Expr (ENumber n) ty_number (tk_span tok), p)
         | TkMinMagnitude \<Rightarrow>
             fail_at p (tk_span tok) ''integer literal is outside the signed 64-bit range''
         | TkString v \<Rightarrow> Done (Expr (EText v) ty_text (tk_span tok), p)
         | TkAccount v \<Rightarrow> Done (Expr (EText v) ty_text (tk_span tok), p)
         | TkOpaqueId v \<Rightarrow> Done (Expr (EIdentity v) ty_identity (tk_span tok), p)
         | TkStar \<Rightarrow> Done (Expr (EField FOurAccounts) ty_set (tk_span tok), p)
         | TkIdentifier first \<Rightarrow> parse_field_or_boolean first (tk_span tok) p
         | TkLeftParen \<Rightarrow>
             obind (take_simple StRightParen p) (\<lambda>(close, p).
               if close \<noteq> None then Done (Expr (EBool True) ty_bool (tk_span tok), p)
               else obind (parse_or L pu (depth + 1) p) (\<lambda>(e, p).
                 obind (expect_simple StRightParen ''group is missing a closing parenthesis'' p)
                   (\<lambda>(close, p).
                     Done (Expr (e_kind e) (e_types e)
                             (mk_span (sp_start (tk_span tok)) (sp_end (tk_span close))), p))))
         | TkLeftBracket \<Rightarrow> parse_set (parse_or L pu) (tk_span tok) (depth + 1) p
         | TkEnd \<Rightarrow> fail_at p (tk_span tok) ''expression expected''
         | _ \<Rightarrow> fail_at p (tk_span tok) ''value or field expected''))"

text \<open>A unary operator applied to the operand that \<open>pu\<close> parses one depth further.\<close>

definition unary_operand :: "unary_op \<Rightarrow> expr_parser \<Rightarrow> nat \<Rightarrow> token \<Rightarrow> parser \<Rightarrow> (expr \<times> parser) outcome" where
  "unary_operand op pu depth tok p =
     obind (pu (depth + 1) p) (\<lambda>(operand, p).
       obind (make_unary op operand (tk_span tok) p) (\<lambda>e. Done (e, p)))"

definition negation :: "expr_parser \<Rightarrow> nat \<Rightarrow> token \<Rightarrow> parser \<Rightarrow> (expr \<times> parser) outcome" where
  "negation pu depth tok p =
     (if tk_kind (current p) = TkMinMagnitude then
        obind (advance p) (\<lambda>(magnitude, p).
          Done (Expr (ENumber i64_min) ty_number
                  (mk_span (sp_start (tk_span tok)) (sp_end (tk_span magnitude))), p))
      else unary_operand UNegate pu depth tok p)"

primrec parse_unary :: "nat \<Rightarrow> lib \<Rightarrow> expr_parser" where
  "parse_unary 0 L = (\<lambda>depth p. Stuck)"
| "parse_unary (Suc n) L = (\<lambda>depth p.
     obind (guard_depth depth p) (\<lambda>(_, p).
       obind (take_simple StBang p) (\<lambda>(bang, p).
         obind (if bang \<noteq> None then Done (bang, p) else take_keyword ''not'' p) (\<lambda>(bang, p).
           case bang of
             Some tok \<Rightarrow> unary_operand UNot (parse_unary n L) depth tok p
           | None \<Rightarrow> obind (take_simple StMinus p) (\<lambda>(minus, p).
               case minus of
                 Some tok \<Rightarrow> negation (parse_unary n L) depth tok p
               | None \<Rightarrow> obind (take_keyword ''caseful'' p) (\<lambda>(caseful, p).
                   case caseful of
                     Some tok \<Rightarrow> unary_operand UCaseful (parse_unary n L) depth tok p
                   | None \<Rightarrow> parse_primary L (parse_unary n L) depth p))))))"

text \<open>The predicate parser with its fuel.\<close>

definition parse_predicate :: "lib \<Rightarrow> parser \<Rightarrow> (expr \<times> parser) outcome" where
  "parse_predicate L p = parse_or L (parse_unary (max_depth (ps_limits p) + 2) L) 0 p"

section \<open>Sources\<close>

definition parse_source_argument :: "parser \<Rightarrow> (rstr \<times> parser) outcome" where
  "parse_source_argument p =
     (let p = p\<lparr>ps_source_argument_count := ps_source_argument_count p + 1\<rparr> in
      if ps_source_argument_count p > max_source_arguments (ps_limits p)
      then Fail (error_current p ''source argument limit exceeded'')
      else obind (advance p) (\<lambda>(tok, p).
        case tk_kind tok of
          TkString v \<Rightarrow> Done (v, p)
        | TkAccount v \<Rightarrow> Done (v, p)
        | TkOpaqueId v \<Rightarrow> Done (v, p)
        | TkIdentifier v \<Rightarrow> Done (v, p)
        | TkNumber v \<Rightarrow> Done (int_to_string v, p)
        | TkStar \<Rightarrow> Done (str ''*'', p)
        | _ \<Rightarrow> fail_at p (tk_span tok)
                 ''source argument must be a string, account, or identifier''))"

definition next_is_source_argument :: "parser \<Rightarrow> bool" where
  "next_is_source_argument p =
     (ps_position p + 1 < length (ps_tokens p) \<and>
      (case tk_kind (ps_tokens p ! (ps_position p + 1)) of
         TkString _ \<Rightarrow> True | TkAccount _ \<Rightarrow> True | TkOpaqueId _ \<Rightarrow> True | TkNumber _ \<Rightarrow> True
       | TkStar \<Rightarrow> True | _ \<Rightarrow> False))"

fun colon_arguments_loop :: "nat \<Rightarrow> rstr list \<Rightarrow> parser \<Rightarrow> (rstr list \<times> parser) outcome" where
  "colon_arguments_loop 0 args p = Stuck"
| "colon_arguments_loop (Suc n) args p =
     (if check_simple StComma p \<and> next_is_source_argument p then
        obind (advance p) (\<lambda>(_, p).
          obind (parse_source_argument p) (\<lambda>(a, p). colon_arguments_loop n (args @ [a]) p))
      else Done (args, p))"

fun call_arguments_loop :: "nat \<Rightarrow> rstr list \<Rightarrow> parser \<Rightarrow> (rstr list \<times> parser) outcome" where
  "call_arguments_loop 0 args p = Stuck"
| "call_arguments_loop (Suc n) args p =
     obind (parse_source_argument p) (\<lambda>(a, p).
       obind (take_simple StComma p) (\<lambda>(comma, p).
         if comma = None \<or> check_simple StRightParen p then Done (args @ [a], p)
         else call_arguments_loop n (args @ [a]) p))"

definition parse_source_arguments :: "parser \<Rightarrow> (rstr list \<times> parser) outcome" where
  "parse_source_arguments p =
     obind (take_simple StColon p) (\<lambda>(colon, p).
       if colon \<noteq> None then
         obind (parse_source_argument p) (\<lambda>(a, p). colon_arguments_loop (unread p) [a] p)
       else obind (take_simple StLeftParen p) (\<lambda>(open_paren, p).
         if open_paren = None then Done ([], p)
         else obind (if check_simple StRightParen p then Done ([], p)
                     else call_arguments_loop (unread p) [] p) (\<lambda>(args, p).
           obind (expect_simple StRightParen ''source call is missing a closing parenthesis'' p)
             (\<lambda>(_, p). Done (args, p)))))"

text \<open>The checks and the normalisation of one source call.\<close>

definition source_specs ::
  "source_kind \<Rightarrow> rstr list \<Rightarrow> span \<Rightarrow> parser \<Rightarrow> (source_spec list \<times> parser) outcome" where
  "source_specs k args sp p =
     (if source_requires_argument k \<and> args = [] then fail_at p sp ''source requires an argument''
      else if k = SrcLocal \<and> args \<noteq> []
      then fail_at p sp ''named local timelines are not available in Awayuki''
      else if args = [] then Done ([\<lparr>ss_kind = k, ss_arguments = [], ss_span = sp\<rparr>], p)
      else if \<exists>a \<in> set args. trim a = [] then fail_at p sp ''source argument cannot be empty''
      else if k = SrcUser \<and> (\<exists>a \<in> set args. trim a = str ''*'')
      then fail_at p sp ''user source does not accept a wildcard argument''
      else
        (let normalized = map (normalize_source_argument k) args in
         if source_requires_argument k \<and> (\<exists>a \<in> set normalized. a = [])
         then fail_at p sp ''source argument cannot be empty''
         else
           (let normalized =
              (if source_accepts_account_wildcard k \<and> (\<exists>a \<in> set normalized. a = str ''*'')
               then [] else normalized)
            in if normalized = [] then Done ([\<lparr>ss_kind = k, ss_arguments = [], ss_span = sp\<rparr>], p)
               else Done (map (\<lambda>a. \<lparr>ss_kind = k, ss_arguments = [a], ss_span = sp\<rparr>) normalized, p))))"

definition parse_source :: "parser \<Rightarrow> (source_spec list \<times> parser) outcome" where
  "parse_source p =
     obind (advance p) (\<lambda>(tok, p).
       obind (case tk_kind tok of
                TkIdentifier name \<Rightarrow> Done (to_ascii_lowercase name)
              | TkStar \<Rightarrow> Done (str ''*'')
              | _ \<Rightarrow> fail_at p (tk_span tok) ''source name expected'') (\<lambda>source_name.
         case resolve_source_kind source_name of
           None \<Rightarrow> fail_at p (tk_span tok) ''unsupported source''
         | Some k \<Rightarrow>
             obind (parse_source_arguments p) (\<lambda>(args, p).
               source_specs k args (tk_span tok) p)))"

fun sources_loop :: "nat \<Rightarrow> source_spec list \<Rightarrow> parser \<Rightarrow> (source_spec list \<times> parser) outcome" where
  "sources_loop 0 sources p = Stuck"
| "sources_loop (Suc n) sources p =
     (if at_end p \<or> check_keyword ''where'' p then Done (sources, p)
      else obind (parse_source p) (\<lambda>(parsed, p).
        let sources = sources @ parsed in
        if length sources > max_sources (ps_limits p)
        then Fail (error_current p ''source limit exceeded'')
        else obind (take_simple StComma p) (\<lambda>(comma, p).
          if comma \<noteq> None then
            (if at_end p \<or> check_keyword ''where'' p then Done (sources, p)
             else sources_loop n sources p)
          else if \<not> at_end p \<and> \<not> check_keyword ''where'' p
          then Fail (error_current p ''sources must be separated by commas'')
          else sources_loop n sources p)))"

definition source_key :: "source_spec \<Rightarrow> source_kind \<times> rstr list" where
  "source_key s = (ss_kind s, ss_arguments s)"

definition parse_sources :: "parser \<Rightarrow> (source_spec list \<times> parser) outcome" where
  "parse_sources p =
     obind (sources_loop (unread p) [] p) (\<lambda>(sources, p).
       Done (dedup_by source_key [] sources, p))"

section \<open>Requirements\<close>

record query_requirements =
  rq_effective_status :: bool
  rq_quote_status :: bool
  rq_memberships :: bool
  rq_viewer_states :: bool
  rq_login_accounts :: bool
  rq_conversations :: bool

text \<open>\<^verbatim>\<open>visit_fields\<close>: the fields in the order the visitor sees them.\<close>

fun visit_fields :: "expr \<Rightarrow> field list"
and visit_kind :: "expr_kind \<Rightarrow> field list" where
  "visit_fields (Expr k t s) = visit_kind k"
| "visit_kind (EField f) = [f]"
| "visit_kind (ESet es) = concat (map visit_fields es)"
| "visit_kind (EUnary op e) = visit_fields e"
| "visit_kind (EBinary op l r rx) = visit_fields l @ visit_fields r"
| "visit_kind _ = []"

definition booster_fields :: "field set" where
  "booster_fields = {FBoosterId, FBoosterUsername, FBoosterAcct, FBoosterDisplayName, FBoosterNote,
     FBoosterLocked, FBoosterBot, FBoosterFollowers, FBoosterFollowing, FBoosterStatuses,
     FBoosterDomain}"

definition quote_fields :: "field set" where
  "quote_fields = {FQuoteId, FQuoteUrl, FQuoteText, FQuoteAuthorAcct}"

definition viewer_fields :: "field set" where
  "viewer_fields = {FViewerFavourited, FViewerReblogged, FViewerMuted, FViewerBookmarked,
     FViewerPinned}"

definition require_field :: "field \<Rightarrow> query_requirements \<Rightarrow> query_requirements" where
  "require_field f r =
     (if f \<in> booster_fields \<or> f = FBoost then r
      else if f \<in> quote_fields then r\<lparr>rq_quote_status := True\<rparr>
      else if f \<in> viewer_fields then
        r\<lparr>rq_effective_status := True, rq_viewer_states := True, rq_memberships := True\<rparr>
      else if f = FOurAccounts then r\<lparr>rq_login_accounts := True\<rparr>
      else r\<lparr>rq_effective_status := True\<rparr>)"

definition query_requirements_of :: "source_spec list \<Rightarrow> expr \<Rightarrow> query_requirements" where
  "query_requirements_of sources predicate =
     (let any = (\<lambda>kinds. \<exists>s \<in> set sources. ss_kind s \<in> kinds) in
      fold require_field (visit_fields predicate) \<lparr>
        rq_effective_status = any {SrcUser, SrcBookmarks, SrcFavourites},
        rq_quote_status = False,
        rq_memberships = (\<exists>s \<in> set sources. ss_kind s \<notin> {SrcLocal, SrcUser, SrcConversation}),
        rq_viewer_states = any {SrcBookmarks, SrcFavourites},
        rq_login_accounts = any {SrcHome, SrcList, SrcMentions, SrcDirect, SrcPublic,
          SrcLocalPublic, SrcHashtag, SrcBookmarks, SrcFavourites},
        rq_conversations = any {SrcConversation} \<rparr>)"

section \<open>Compiled queries\<close>

record compiled_query =
  cq_sources :: "source_spec list"
  cq_predicate :: expr
  cq_sql_prefilter :: "rstr \<times> (rstr + int) list"
  cq_requirements :: query_requirements
  cq_conversation_ids :: "rstr list"

definition true_predicate :: "parser \<Rightarrow> expr" where
  "true_predicate p = Expr (EBool True) ty_bool (tk_span (current p))"

definition parse_head :: "parser \<Rightarrow> ((bool \<times> source_spec list) \<times> parser) outcome" where
  "parse_head p =
     obind (take_keyword ''from'' p) (\<lambda>(from_tok, p).
       if from_tok \<noteq> None then
         obind (parse_sources p) (\<lambda>(sources, p). Done ((True, sources), p))
       else if check_keyword ''where'' p then
         Done ((False, [\<lparr>ss_kind = SrcLocal, ss_arguments = [], ss_span = mk_span 0 0\<rparr>]), p)
       else Fail (error_current p ''query must start with from or where''))"

definition parse_where :: "lib \<Rightarrow> bool \<Rightarrow> parser \<Rightarrow> (expr \<times> parser) outcome" where
  "parse_where L had_from p =
     obind (take_keyword ''where'' p) (\<lambda>(where_tok, p).
       if where_tok \<noteq> None then
         (if at_end p then
            (if had_from then Done (true_predicate p, p)
             else Fail (error_current p ''where requires a predicate''))
          else parse_predicate L p)
       else Done (true_predicate p, p))"

definition parse :: "lib \<Rightarrow> parser \<Rightarrow> compiled_query outcome" where
  "parse L p =
     (if ps_tokens p = [] then Panic
      else obind (parse_head p) (\<lambda>((had_from, sources), p).
        if sources = [] then Fail (error_current p ''from requires at least one source'')
        else obind (parse_where L had_from p) (\<lambda>(predicate, p).
          if \<not> intersects (e_types predicate) ty_bool
          then fail_at p (e_span predicate) ''query predicate must produce a boolean value''
          else if \<not> at_end p then Fail (error_current p ''unexpected token after query'')
          else Done \<lparr>
            cq_sources = sources,
            cq_predicate = predicate,
            cq_sql_prefilter = ([], []),
            cq_requirements = query_requirements_of sources predicate,
            cq_conversation_ids =
              concat (map ss_arguments
                (filter (\<lambda>s. ss_kind s = SrcConversation) sources)) \<rparr>)))"

definition compile_query_with_limits :: "lib \<Rightarrow> query_limits \<Rightarrow> rstr \<Rightarrow> compiled_query outcome" where
  "compile_query_with_limits L lim query =
     (if byte_len query > max_query_bytes lim
      then Fail (compile_error_at query (mk_span (max_query_bytes lim) (max_query_bytes lim))
                   ''query byte limit exceeded'')
      else case tokenize L lim query of
        Inl e \<Rightarrow> Fail e
      | Inr toks \<Rightarrow> parse L (new_parser query toks lim))"

definition compile_query :: "lib \<Rightarrow> rstr \<Rightarrow> compiled_query outcome" where
  "compile_query L query = compile_query_with_limits L default_limits query"

end
