(* ===== verification/KqParserProps.thy ===== *)
theory KqParserProps
imports KqParser
begin

text \<open>
  The parser and type checker proved correct. \<open>yields input r Q\<close> is the contract of a fallible
  parser operation: it neither panics nor gets stuck, a compile error lies within the input, and a
  result satisfies \<open>Q\<close>. The locale \<open>operand_parser\<close> states what every level of the expression
  grammar needs from the parser of its operands; its lemmas carry the contract from the operands
  up through the binary levels, the groups and the sets. \<open>parse_unary\<close> with enough fuel is an
  instance, by induction on the fuel, so the whole predicate parser is one.
\<close>

section \<open>Contracts\<close>

fun yields :: "rstr \<Rightarrow> 'a outcome \<Rightarrow> ('a \<Rightarrow> bool) \<Rightarrow> bool" where
  "yields input (Done x) Q \<longleftrightarrow> Q x"
| "yields input (Fail e) Q \<longleftrightarrow> error_within input e"
| "yields input Panic Q \<longleftrightarrow> False"
| "yields input Stuck Q \<longleftrightarrow> False"

lemma yields_bind:
  assumes "yields input r Q" and "\<And>x. Q x \<Longrightarrow> yields input (f x) R"
  shows "yields input (obind r f) R"
  using assms by (cases r) auto

lemma yields_mono: "yields input r Q \<Longrightarrow> (\<And>x. Q x \<Longrightarrow> R x) \<Longrightarrow> yields input r R"
  by (cases r) auto

lemma yields_fail_at [simp]: "ps_input p = input \<Longrightarrow> yields input (fail_at p sp m) Q"
  by (simp add: fail_at_def compile_error_at_within)

lemma obind_fail_at [simp]: "obind (fail_at p sp m) f = fail_at p sp m"
  by (simp add: fail_at_def)

lemma error_current_within [simp]:
  "ps_input p = input \<Longrightarrow> error_within input (error_current p m)"
  by (auto simp: error_current_def compile_error_at_within)

lemma obind_Done_iff: "obind r f = Done y \<longleftrightarrow> (\<exists>x. r = Done x \<and> f x = Done y)"
  by (cases r) auto

text \<open>The invariant of the parser state: the tokens are the lexer's and the position is on one.\<close>

definition pwf :: "parser \<Rightarrow> bool" where
  "pwf p \<longleftrightarrow> well_ended (ps_tokens p) \<and> (\<forall>t \<in> set (ps_tokens p). token_kind_ok (tk_kind t)) \<and>
     ps_position p < length (ps_tokens p)"

text \<open>What every operation leaves alone, and that it never moves backwards.\<close>

definition advanced :: "parser \<Rightarrow> parser \<Rightarrow> bool" where
  "advanced p p' \<longleftrightarrow> pwf p' \<and> ps_input p' = ps_input p \<and> ps_tokens p' = ps_tokens p \<and>
     ps_limits p' = ps_limits p \<and> ps_position p \<le> ps_position p'"

lemma advanced_refl [simp]: "pwf p \<Longrightarrow> advanced p p"
  by (simp add: advanced_def)

lemma advanced_trans: "advanced p q \<Longrightarrow> advanced q r \<Longrightarrow> advanced p r"
  by (simp add: advanced_def)

lemma advancedD:
  assumes "advanced p p'"
  shows "pwf p'" "ps_input p' = ps_input p" "ps_tokens p' = ps_tokens p"
    "ps_limits p' = ps_limits p" "ps_position p \<le> ps_position p'"
  using assms by (auto simp: advanced_def)

lemma unread_mono: "advanced p p' \<Longrightarrow> unread p' \<le> unread p"
  by (auto simp: advanced_def unread_def)

lemma unread_less:
  "advanced p p' \<Longrightarrow> ps_position p < ps_position p' \<Longrightarrow> unread p' < unread p"
  by (auto simp: advanced_def unread_def pwf_def)

lemma unread_pos: "pwf p \<Longrightarrow> 0 < unread p"
  by (auto simp: pwf_def unread_def)

section \<open>Reading tokens\<close>

definition step_over :: "parser \<Rightarrow> parser" where
  "step_over p = (if at_end p then p else p\<lparr>ps_position := ps_position p + 1\<rparr>)"

lemma current_nth: "pwf p \<Longrightarrow> current p = ps_tokens p ! ps_position p"
  by (auto simp: pwf_def current_def min_def intro!: arg_cong[where f = "nth (ps_tokens p)"])

lemma current_ok: "pwf p \<Longrightarrow> token_kind_ok (tk_kind (current p))"
  by (auto simp: current_nth) (simp add: pwf_def)

lemma advance_Done: "pwf p \<Longrightarrow> advance p = Done (current p, step_over p)"
  by (simp add: advance_def step_over_def current_nth Let_def) (simp add: pwf_def)

lemma not_at_end_next:
  assumes "pwf p" and "\<not> at_end p"
  shows "ps_position p + 1 < length (ps_tokens p)"
proof (rule ccontr)
  assume "\<not> ?thesis"
  with assms(1) have "ps_position p = length (ps_tokens p) - 1" "ps_tokens p \<noteq> []"
    by (auto simp: pwf_def)
  with assms show False
    by (simp add: at_end_def current_nth pwf_def well_ended_def last_conv_nth)
qed

lemma step_over_advanced: "pwf p \<Longrightarrow> advanced p (step_over p)"
  using not_at_end_next[of p] by (auto simp: step_over_def advanced_def pwf_def)

lemma step_over_position:
  "\<not> at_end p \<Longrightarrow> ps_position (step_over p) = ps_position p + 1"
  by (simp add: step_over_def)

lemma check_simple_not_at_end: "check_simple s p \<Longrightarrow> \<not> at_end p"
  by (cases s) (auto simp: check_simple_def simple_matches_def simple_kind_def at_end_def)

lemma check_keyword_not_at_end: "check_keyword k p \<Longrightarrow> \<not> at_end p"
  by (auto simp: check_keyword_def at_end_def split: token_kind.splits)

lemma take_simple_Done:
  "pwf p \<Longrightarrow> take_simple s p =
     Done (if check_simple s p then (Some (current p), step_over p) else (None, p))"
  by (simp add: take_simple_def take_if_def advance_Done)

lemma take_keyword_Done:
  "pwf p \<Longrightarrow> take_keyword k p =
     Done (if check_keyword k p then (Some (current p), step_over p) else (None, p))"
  by (simp add: take_keyword_def take_if_def advance_Done)

text \<open>A token taker either leaves the state alone or takes one token that is not the end.\<close>

definition taken :: "parser \<Rightarrow> 'a option \<times> parser \<Rightarrow> bool" where
  "taken p = (\<lambda>(t, p'). case t of
     None \<Rightarrow> p' = p
   | Some _ \<Rightarrow> p' = step_over p \<and> \<not> at_end p)"

definition token_taker_ok :: "token_taker \<Rightarrow> bool" where
  "token_taker_ok taker \<longleftrightarrow> (\<forall>p. pwf p \<longrightarrow> (\<exists>r. taker p = Done r \<and> taken p r))"

lemma take_simple_ok [simp]: "token_taker_ok (take_simple s)"
  by (auto simp: token_taker_ok_def taken_def take_simple_Done dest: check_simple_not_at_end)

lemma take_keyword_ok [simp]: "token_taker_ok (take_keyword k)"
  by (auto simp: token_taker_ok_def taken_def take_keyword_Done dest: check_keyword_not_at_end)

lemma take_op_taken:
  assumes "pwf p" and "\<forall>(t, op) \<in> set ops. token_taker_ok t"
  shows "\<exists>r. take_op ops p = Done r \<and> taken p r"
  using assms(2)
proof (induction ops)
  case Nil
  then show ?case by (simp add: taken_def)
next
  case (Cons o' ops)
  obtain t op where o': "o' = (t, op)" by (cases o')
  with Cons.prems assms(1) obtain tok p' where r: "t p = Done (tok, p')" "taken p (tok, p')"
    unfolding token_taker_ok_def by (auto split: prod.splits)
  show ?case
  proof (cases tok)
    case None
    with r o' Cons show ?thesis by (simp add: taken_def)
  next
    case (Some k)
    with r o' show ?thesis by (simp add: taken_def)
  qed
qed

lemma op_takers_ok:
  "\<forall>(t, op) \<in> set multiplicative_ops. token_taker_ok t"
  "\<forall>(t, op) \<in> set additive_ops. token_taker_ok t"
  "\<forall>(t, op) \<in> set match_ops. token_taker_ok t"
  "\<forall>(t, op) \<in> set comparison_ops. token_taker_ok t"
  "\<forall>(t, op) \<in> set equality_ops. token_taker_ok t"
  "\<forall>(t, op) \<in> set and_ops. token_taker_ok t"
  "\<forall>(t, op) \<in> set or_ops. token_taker_ok t"
  by (simp_all add: multiplicative_ops_def additive_ops_def match_ops_def comparison_ops_def
      equality_ops_def and_ops_def or_ops_def)

lemma expect_simple_yields:
  assumes "pwf p"
  shows "yields (ps_input p) (expect_simple s m p) (\<lambda>(t, p'). p' = step_over p \<and> \<not> at_end p)"
  using assms
  by (auto simp: expect_simple_def take_simple_Done dest: check_simple_not_at_end)

lemma guard_depth_yields:
  "yields (ps_input p) (guard_depth depth p)
     (\<lambda>(u, p'). p' = p \<and> depth \<le> max_depth (ps_limits p))"
  by (simp add: guard_depth_def)

section \<open>Typed expressions\<close>

text \<open>A regular expression node carries the compiled pattern of its literal, other nodes none.\<close>

definition regex_ok :: "lib \<Rightarrow> query_limits \<Rightarrow> binary_op \<Rightarrow> expr \<Rightarrow> regex option \<Rightarrow> bool" where
  "regex_ok L lim op right rx \<longleftrightarrow>
     (if op = BRegex then
        (case e_kind right of
           EText pattern \<Rightarrow> byte_len pattern \<le> max_regex_bytes lim \<and> rx \<noteq> None \<and>
             rx = regex_build L pattern (literal_regex_options lim)
         | _ \<Rightarrow> False)
      else rx = None)"

fun well_typed :: "lib \<Rightarrow> query_limits \<Rightarrow> expr \<Rightarrow> bool"
and well_typed_kind :: "lib \<Rightarrow> query_limits \<Rightarrow> expr_kind \<Rightarrow> value_types \<Rightarrow> bool" where
  "well_typed L lim (Expr k t s) \<longleftrightarrow> well_typed_kind L lim k t"
| "well_typed_kind L lim (EBool b) t \<longleftrightarrow> t = ty_bool"
| "well_typed_kind L lim (ENumber n) t \<longleftrightarrow> t = ty_number \<and> in_i64 n"
| "well_typed_kind L lim (EText v) t \<longleftrightarrow> t = ty_text"
| "well_typed_kind L lim (EIdentity v) t \<longleftrightarrow> t = ty_identity"
| "well_typed_kind L lim (ESet es) t \<longleftrightarrow> t = ty_set \<and> length es \<le> max_set_items lim \<and>
     (\<forall>e \<in> set es. well_typed L lim e \<and> e_types e \<in> {ty_number, ty_text, ty_identity})"
| "well_typed_kind L lim (EField f) t \<longleftrightarrow> t = field_value_types f"
| "well_typed_kind L lim (EUnary op e) t \<longleftrightarrow>
     well_typed L lim e \<and> e_types e = unary_required op \<and> t = unary_required op"
| "well_typed_kind L lim (EBinary op l r rx) t \<longleftrightarrow>
     well_typed L lim l \<and> well_typed L lim r \<and>
     binary_result_types op (e_types l) (e_types r) = Some t \<and> regex_ok L lim op r rx"

text \<open>The number of nodes.\<close>

fun node_count :: "expr \<Rightarrow> nat" and node_count_kind :: "expr_kind \<Rightarrow> nat" where
  "node_count (Expr k t s) = node_count_kind k"
| "node_count_kind (ESet es) = 1 + sum_list (map node_count es)"
| "node_count_kind (EUnary op e) = 1 + node_count e"
| "node_count_kind (EBinary op l r rx) = 1 + node_count l + node_count r"
| "node_count_kind _ = 1"

lemma well_typed_sel: "well_typed L lim e = well_typed_kind L lim (e_kind e) (e_types e)"
  by (cases e) simp

lemma node_count_sel: "node_count e = node_count_kind (e_kind e)"
  by (cases e) simp

lemma node_count_pos: "1 \<le> node_count e"
  by (cases e; cases "e_kind e") simp_all

lemma well_typed_basic:
  "well_typed L lim e \<Longrightarrow> e_types e \<in> set basic_types"
  "well_typed_kind L lim k t \<Longrightarrow> t \<in> set basic_types"
proof (induction L lim e and L lim k t rule: well_typed_well_typed_kind.induct)
  case (8 L lim op e t)
  then show ?case by (cases op) (auto simp: basic_types_def unary_required_def)
next
  case (9 L lim op l r rx t)
  then show ?case using binary_result_types_basic[of "e_types l" "e_types r" op t] by simp
next
  case (7 L lim f t)
  then show ?case using field_value_types_basic by simp
qed (auto simp: basic_types_def)

text \<open>On single bits the overlap test of the type checker is equality.\<close>

lemma intersects_basic:
  assumes "t \<in> set basic_types" and "u \<in> set basic_types"
  shows "intersects t u \<longleftrightarrow> t = u"
  using assms by (auto simp: basic_types_def intersects_def ty_defs)

lemma intersects_scalar:
  assumes "t \<in> set basic_types"
  shows "intersects t (ty_number OR ty_text OR ty_identity) \<longleftrightarrow>
    t \<in> {ty_number, ty_text, ty_identity}"
  using assms by (auto simp: basic_types_def intersects_def ty_defs)

lemma unary_required_basic: "unary_required op \<in> set basic_types"
  by (cases op) (simp_all add: unary_required_def basic_types_def)

lemma make_unary_yields:
  assumes "well_typed L (ps_limits p) e" and "ps_input p = input"
  shows "yields input (make_unary op e sp p)
    (\<lambda>e'. well_typed L (ps_limits p) e' \<and> node_count e' = 1 + node_count e)"
  using assms intersects_basic[OF well_typed_basic(1)[OF assms(1)] unary_required_basic]
  by (simp add: make_unary_def)

lemma literal_regex_yields:
  assumes "ps_input p = input"
  shows "yields input (literal_regex L op r p) (regex_ok L (ps_limits p) op r)"
proof (cases "e_kind r")
  case (EText pattern)
  then show ?thesis
    using assms by (auto simp: literal_regex_def regex_ok_def split: option.splits)
qed (use assms in \<open>auto simp: literal_regex_def regex_ok_def\<close>)

lemma make_binary_yields:
  assumes "well_typed L (ps_limits p) l" and "well_typed L (ps_limits p) r" and "ps_input p = input"
  shows "yields input (make_binary L op l r sp p)
    (\<lambda>e. well_typed L (ps_limits p) e \<and> node_count e = 1 + node_count l + node_count r)"
proof (cases "binary_result_types op (e_types l) (e_types r)")
  case None
  then show ?thesis using assms(3) by (simp add: make_binary_def)
next
  case (Some t)
  then show ?thesis
    using assms
    by (auto simp: make_binary_def intro: yields_bind[OF literal_regex_yields])
qed

section \<open>Right association\<close>

text \<open>The specification of the operator loop: the expression to the right of the first operator is
  the right operand of that operator.\<close>

fun assoc_right :: "lib \<Rightarrow> parser \<Rightarrow> expr \<Rightarrow> tail list \<Rightarrow> expr outcome" where
  "assoc_right L p first [] = Done first"
| "assoc_right L p first ((op, sp, e) # tails) =
     obind (assoc_right L p e tails) (\<lambda>right. make_binary L op first right sp p)"

lemma obind_assoc: "obind (obind r f) g = obind r (\<lambda>x. obind (f x) g)"
  by (cases r) auto

lemma obind_Done_right [simp]: "obind r Done = r"
  by (cases r) auto

lemma pop_fold_bottom:
  "length xs = length os \<Longrightarrow>
   pop_fold L p (xs @ [first]) (os @ [(op, sp)]) r =
     obind (pop_fold L p xs os r) (\<lambda>r'. make_binary L op first r' sp p)"
proof (induction xs os arbitrary: r rule: list_induct2)
  case (Cons x xs o' os)
  then show ?case by (cases o') (simp add: obind_assoc ext[OF Cons.IH])
next
  case Nil
  show ?case by (cases "make_binary L op first r sp p") auto
qed

definition stack_fold :: "lib \<Rightarrow> parser \<Rightarrow> expr \<Rightarrow> tail list \<Rightarrow> expr outcome" where
  "stack_fold L p first tails =
     (case rev (first # map (\<lambda>(op, sp, e). e) tails) of
        [] \<Rightarrow> Panic
      | right # rest \<Rightarrow> pop_fold L p rest (rev (map (\<lambda>(op, sp, e). (op, sp)) tails)) right)"

lemma stack_fold_assoc: "stack_fold L p first tails = assoc_right L p first tails"
proof (induction tails arbitrary: first)
  case Nil
  then show ?case by (simp add: stack_fold_def)
next
  case (Cons t tails)
  obtain op sp e where t: "t = (op, sp, e)" by (cases t)
  obtain right rest where r: "rev (e # map (\<lambda>(op, sp, e). e) tails) = right # rest"
    by (metis list.simps(3) neq_Nil_conv rev_is_Nil_conv)
  from arg_cong[OF this, of length]
  have len: "length rest = length (rev (map (\<lambda>(op, sp, e). (op, sp)) tails))" by simp
  have "stack_fold L p first (t # tails) =
      pop_fold L p (rest @ [first]) (rev (map (\<lambda>(op, sp, e). (op, sp)) tails) @ [(op, sp)]) right"
    using r by (simp add: stack_fold_def t)
  also have "\<dots> = obind (stack_fold L p e tails) (\<lambda>r'. make_binary L op first r' sp p)"
    using r by (simp add: pop_fold_bottom[OF len] stack_fold_def)
  finally show ?case by (simp add: Cons.IH t)
qed

lemma right_fold_ops_eq:
  assumes "length tails < max_depth (ps_limits p)"
  shows "right_fold_ops L first tails p = assoc_right L p first tails"
  using assms by (simp add: right_fold_ops_def Let_def stack_fold_assoc[symmetric] stack_fold_def)

definition tails_typed :: "lib \<Rightarrow> query_limits \<Rightarrow> tail list \<Rightarrow> bool" where
  "tails_typed L lim tails \<longleftrightarrow> (\<forall>(op, sp, e) \<in> set tails. well_typed L lim e)"

definition tails_count :: "tail list \<Rightarrow> nat" where
  "tails_count tails = sum_list (map (\<lambda>(op, sp, e). 1 + node_count e) tails)"

lemma assoc_right_yields:
  assumes "well_typed L (ps_limits p) first" and "tails_typed L (ps_limits p) tails"
    and "ps_input p = input"
  shows "yields input (assoc_right L p first tails)
    (\<lambda>e. well_typed L (ps_limits p) e \<and> node_count e = node_count first + tails_count tails)"
  using assms
proof (induction tails arbitrary: first)
  case Nil
  then show ?case by (simp add: tails_count_def)
next
  case (Cons t tails)
  obtain op sp e where t: "t = (op, sp, e)" by (cases t)
  have "yields input (assoc_right L p e tails)
      (\<lambda>e'. well_typed L (ps_limits p) e' \<and> node_count e' = node_count e + tails_count tails)"
    using Cons t by (intro Cons.IH) (auto simp: tails_typed_def)
  then show ?case
    unfolding t assoc_right.simps
    by (rule yields_bind)
      (use Cons.prems in \<open>auto intro!: yields_mono[OF make_binary_yields] simp: tails_count_def\<close>)
qed

lemma right_fold_ops_yields:
  assumes "well_typed L (ps_limits p) first" and "tails_typed L (ps_limits p) tails"
    and "ps_input p = input"
  shows "yields input (right_fold_ops L first tails p)
    (\<lambda>e. well_typed L (ps_limits p) e \<and> node_count e = node_count first + tails_count tails)"
proof (cases "tails \<noteq> [] \<and> length tails \<ge> max_depth (ps_limits p)")
  case True
  then have "max_depth (ps_limits p) - 1 < length tails"
    by (cases tails) auto
  with True assms(3) show ?thesis
    by (simp add: right_fold_ops_def Let_def)
next
  case False
  then show ?thesis
    using assms assoc_right_yields[OF assms] right_fold_ops_eq[of tails p L first]
    by (cases "tails = []") (auto simp: right_fold_ops_def)
qed

section \<open>The operand contract\<close>

text \<open>What a parser of expressions yields: the state has advanced by at least one token for each
  node of a well-typed expression.\<close>

definition expr_from :: "lib \<Rightarrow> parser \<Rightarrow> expr \<times> parser \<Rightarrow> bool" where
  "expr_from L p = (\<lambda>(e, p'). advanced p p' \<and> well_typed L (ps_limits p) e \<and>
     ps_position p + node_count e \<le> ps_position p')"

definition parses_expr :: "lib \<Rightarrow> parser \<Rightarrow> (expr \<times> parser) outcome \<Rightarrow> bool" where
  "parses_expr L p r \<longleftrightarrow> yields (ps_input p) r (expr_from L p)"

lemma expr_from_less: "expr_from L p (e, p') \<Longrightarrow> ps_position p < ps_position p'"
  using node_count_pos[of e] by (simp add: expr_from_def)

locale operand_parser =
  fixes L :: lib and lim :: query_limits and pu :: expr_parser and lo :: nat
  assumes operand_law:
    "pwf p \<Longrightarrow> ps_limits p = lim \<Longrightarrow> lo \<le> depth \<Longrightarrow> parses_expr L p (pu depth p)"
begin

lemma tails_loop_yields:
  assumes "\<forall>(t, op) \<in> set ops. token_taker_ok t" and "lo \<le> depth"
    and "pwf p" and "ps_limits p = lim" and "unread p \<le> n"
  shows "yields (ps_input p) (tails_loop n ops (pu depth) p)
    (\<lambda>(tails, p'). advanced p p' \<and> tails_typed L lim tails \<and>
       ps_position p + tails_count tails \<le> ps_position p')"
  using assms(3-5)
proof (induction n arbitrary: p)
  case 0
  then show ?case using unread_pos[of p] by simp
next
  case (Suc n)
  obtain r p1 where op: "take_op ops p = Done (r, p1)" "taken p (r, p1)"
    using take_op_taken[OF Suc.prems(1) assms(1)] by auto
  show ?case
  proof (cases r)
    case None
    with op Suc.prems show ?thesis
      by (simp add: taken_def tails_typed_def tails_count_def)
  next
    case (Some ot)
    obtain op' tok where ot: "r = Some (op', tok)" using Some by (cases ot) simp
    with op have p1: "p1 = step_over p" "\<not> at_end p" by (simp_all add: taken_def)
    have a1: "advanced p p1" using step_over_advanced Suc.prems(1) p1 by simp
    have s1: "ps_position p1 = ps_position p + 1" using step_over_position p1 by simp
    have operand: "yields (ps_input p) (pu depth p1) (expr_from L p1)"
      using operand_law[of p1 depth] a1 Suc.prems assms(2)
      by (simp add: parses_expr_def advanced_def)
    have "yields (ps_input p)
        (obind (pu depth p1) (\<lambda>(e, p). obind (tails_loop n ops (pu depth) p)
          (\<lambda>(tails, p). Done ((op', tk_span tok, e) # tails, p))))
        (\<lambda>(tails, p'). advanced p p' \<and> tails_typed L lim tails \<and>
           ps_position p + tails_count tails \<le> ps_position p')"
    proof (rule yields_bind[OF operand], clarify)
      fix e p2
      assume e: "expr_from L p1 (e, p2)"
      then have a2: "advanced p p2" and "ps_position p < ps_position p2"
        using a1 s1 by (auto simp: expr_from_def intro: advanced_trans)
      then have "unread p2 \<le> n"
        using unread_less[OF a2] Suc.prems by simp
      then have "yields (ps_input p) (tails_loop n ops (pu depth) p2)
          (\<lambda>(tails, p'). advanced p2 p' \<and> tails_typed L lim tails \<and>
             ps_position p2 + tails_count tails \<le> ps_position p')"
        using Suc.IH[of p2] a2 Suc.prems by (simp add: advanced_def)
      then show "yields (ps_input p) (obind (tails_loop n ops (pu depth) p2)
          (\<lambda>(tails, p). Done ((op', tk_span tok, e) # tails, p)))
          (\<lambda>(tails, p'). advanced p p' \<and> tails_typed L lim tails \<and>
             ps_position p + tails_count tails \<le> ps_position p')"
        by (rule yields_bind)
          (use e s1 a2 a1 Suc.prems(2) in \<open>auto simp: expr_from_def tails_typed_def
             tails_count_def advancedD(4) intro: advanced_trans\<close>)
    qed
    with op(1) ot show ?thesis by simp
  qed
qed

text \<open>A binary level over operands is an operand parser again.\<close>

lemma level:
  assumes "\<forall>(t, op) \<in> set ops. token_taker_ok t"
  shows "operand_parser L lim (binary_level L ops pu) lo"
proof
  fix p depth
  assume p: "pwf p" "ps_limits p = lim" "lo \<le> depth"
  have operand: "yields (ps_input p) (pu depth p) (expr_from L p)"
    using operand_law[OF p] by (simp add: parses_expr_def)
  have rest: "yields (ps_input p)
      (obind (tails_loop (unread p1) ops (pu depth) p1) (\<lambda>(tails, p).
         obind (right_fold_ops L first tails p) (\<lambda>e. Done (e, p)))) (expr_from L p)"
    if e: "expr_from L p (first, p1)" for first p1
  proof -
    from e have a1: "advanced p p1" "ps_limits p1 = lim" "pwf p1" "ps_input p1 = ps_input p"
      using p by (auto simp: expr_from_def advanced_def)
    note loop = tails_loop_yields[OF assms p(3) a1(3,2) order_refl, unfolded a1(4)]
    show ?thesis
    proof (rule yields_bind[OF loop], clarify)
      fix tails p2
      assume t: "advanced p1 p2" "tails_typed L lim tails"
        "ps_position p1 + tails_count tails \<le> ps_position p2"
      then have i: "ps_input p2 = ps_input p" "ps_limits p2 = lim" "advanced p p2"
        using a1 advanced_trans by (auto simp: advanced_def)
      have fold: "yields (ps_input p) (right_fold_ops L first tails p2)
          (\<lambda>e. well_typed L (ps_limits p2) e \<and> node_count e = node_count first + tails_count tails)"
        using e t i p by (intro right_fold_ops_yields) (auto simp: expr_from_def)
      show "yields (ps_input p) (obind (right_fold_ops L first tails p2) (\<lambda>e. Done (e, p2)))
          (expr_from L p)"
        by (rule yields_bind[OF fold]) (use e t i p in \<open>auto simp: expr_from_def\<close>)
    qed
  qed
  show "parses_expr L p (binary_level L ops pu depth p)"
    unfolding parses_expr_def binary_level_def
    by (rule yields_bind[OF guard_depth_yields], clarify, rule yields_bind[OF operand], clarify,
        rule rest)
qed

end

lemma parse_or_operand:
  assumes "operand_parser L lim pu lo"
  shows "operand_parser L lim (parse_or L pu) lo"
  unfolding parse_or_def parse_and_def parse_equality_def parse_comparison_def
    parse_match_operator_def parse_additive_def parse_multiplicative_def
  by (intro operand_parser.level[OF operand_parser.level[OF operand_parser.level[OF
        operand_parser.level[OF operand_parser.level[OF operand_parser.level[OF
        operand_parser.level[OF assms]]]]]]] op_takers_ok)

section \<open>Primaries and unary operators\<close>

lemma field_path_yields:
  assumes "pwf p" and "unread p \<le> n"
  shows "yields (ps_input p) (field_path_loop n parts stop p) (\<lambda>(r, p'). advanced p p')"
  using assms
proof (induction n arbitrary: p parts stop)
  case 0
  then show ?case using unread_pos[of p] by simp
next
  case (Suc n)
  show ?case
  proof (cases "check_simple StDot p")
    case False
    then show ?thesis using Suc.prems by (simp add: take_simple_Done)
  next
    case True
    let ?q = "step_over (step_over p)"
    have a1: "advanced p (step_over p)" and lt: "ps_position p < ps_position (step_over p)"
      using True Suc.prems(1)
      by (simp_all add: step_over_advanced step_over_position check_simple_not_at_end)
    have a2: "advanced p ?q"
      using a1 step_over_advanced[OF advancedD(1)[OF a1]] advanced_trans by blast
    have "unread (step_over p) \<le> n"
      using unread_less[OF a1 lt] Suc.prems by simp
    moreover have "unread ?q \<le> unread (step_over p)"
      by (rule unread_mono[OF step_over_advanced[OF advancedD(1)[OF a1]]])
    ultimately have "unread ?q \<le> n" by simp
    then have "yields (ps_input p) (field_path_loop n parts' stop' ?q) (\<lambda>(r, p'). advanced p p')"
      for parts' stop'
      using Suc.IH[of ?q parts' stop'] a2
      by (auto elim!: yields_mono intro: advanced_trans simp: advancedD(1,2))
    then show ?thesis
      using True Suc.prems a1 a2
      by (simp add: take_simple_Done advance_Done advancedD split: token_kind.splits)
  qed
qed

lemma parse_field_or_boolean_yields:
  assumes "pwf p"
  shows "yields (ps_input p) (parse_field_or_boolean first start p)
    (\<lambda>(e, p'). advanced p p' \<and> well_typed L lim e \<and> node_count e = 1)"
  unfolding parse_field_or_boolean_def
  by (auto simp: assms advancedD(2) split: option.splits
      intro!: yields_bind[OF field_path_yields[OF assms order_refl]])

context operand_parser
begin

lemma set_loop_yields:
  assumes "lo \<le> depth" and "pwf p" and "ps_limits p = lim" and "unread p \<le> n"
    and "\<forall>e \<in> set vals. well_typed L lim e \<and> e_types e \<in> {ty_number, ty_text, ty_identity}"
  shows "yields (ps_input p) (set_loop n pu depth vals p)
    (\<lambda>(es, p'). advanced p p' \<and> length es \<le> max_set_items lim \<and>
       (\<forall>e \<in> set es. well_typed L lim e \<and> e_types e \<in> {ty_number, ty_text, ty_identity}) \<and>
       ps_position p + sum_list (map node_count es) \<le>
         ps_position p' + sum_list (map node_count vals))"
  using assms(2-5)
proof (induction n arbitrary: p vals)
  case 0
  then show ?case using unread_pos[of p] by simp
next
  case (Suc n)
  let ?Q = "\<lambda>(es, p'). advanced p p' \<and> length es \<le> max_set_items lim \<and>
       (\<forall>e \<in> set es. well_typed L lim e \<and> e_types e \<in> {ty_number, ty_text, ty_identity}) \<and>
       ps_position p + sum_list (map node_count es) \<le>
         ps_position p' + sum_list (map node_count vals)"
  have operand: "yields (ps_input p) (pu depth p) (expr_from L p)"
    using operand_law[of p depth] Suc.prems assms(1) by (simp add: parses_expr_def)
  have after: "yields (ps_input p)
      (obind (take_simple StComma p1) (\<lambda>(comma, p).
          if comma = None \<or> check_simple StRightBracket p then Done (vals @ [v], p)
          else set_loop n pu depth (vals @ [v]) p)) ?Q"
    if v: "expr_from L p (v, p1)" "e_types v \<in> {ty_number, ty_text, ty_identity}"
      and room: "length vals < max_set_items lim" for v p1
  proof -
    have a1: "advanced p p1" "pwf p1" and lt: "ps_position p < ps_position p1"
      using v(1) expr_from_less by (auto simp: expr_from_def advanced_def)
    have ok: "\<forall>e \<in> set (vals @ [v]). well_typed L lim e \<and>
        e_types e \<in> {ty_number, ty_text, ty_identity}"
      using v Suc.prems by (auto simp: expr_from_def)
    let ?p2 = "step_over p1"
    have a2: "advanced p1 ?p2" "advanced p ?p2"
      using step_over_advanced[OF a1(2)] a1(1) advanced_trans by blast+
    have "unread ?p2 \<le> n"
      using unread_mono[OF a2(1)] unread_less[OF a1(1) lt] Suc.prems by simp
    then have "yields (ps_input p) (set_loop n pu depth (vals @ [v]) ?p2) ?Q"
      using Suc.IH[of ?p2 "vals @ [v]"] a2 v(1) ok Suc.prems
      by (auto elim!: yields_mono intro: advanced_trans simp: expr_from_def advanced_def)
    moreover have "?Q (vals @ [v], p1)" "?Q (vals @ [v], ?p2)"
      using v(1) a2 ok room Suc.prems by (auto simp: expr_from_def advanced_def)
    ultimately show ?thesis
      using a1(2) by (auto simp: take_simple_Done)
  qed
  show ?case
  proof (cases "length vals \<ge> max_set_items (ps_limits p)")
    case True
    then show ?thesis by simp
  next
    case False
    with Suc.prems(2) have room: "length vals < max_set_items lim" by simp
    have "yields (ps_input p)
       (if \<not> intersects (e_types v) (ty_number OR ty_text OR ty_identity)
        then fail_at p1 (e_span v) ''set items must be scalar values''
        else obind (take_simple StComma p1) (\<lambda>(comma, p).
          if comma = None \<or> check_simple StRightBracket p then Done (vals @ [v], p)
          else set_loop n pu depth (vals @ [v]) p)) ?Q"
      if v: "expr_from L p (v, p1)" for v p1
      using after[OF v _ room] v intersects_scalar[OF well_typed_basic(1), of L "ps_limits p" v]
      by (simp add: expr_from_def advanced_def)
    then show ?thesis
      using False by (auto intro!: yields_bind[OF operand])
  qed
qed

lemma parse_set_yields:
  assumes "lo \<le> depth" and "pwf p" and "ps_limits p = lim"
  shows "yields (ps_input p) (parse_set pu sp depth p)
    (\<lambda>(e, p'). advanced p p' \<and> well_typed L lim e \<and>
       ps_position p + node_count e \<le> ps_position p')"
proof -
  have "yields (ps_input p)
      (if check_simple StRightBracket p then Done ([], p) else set_loop (unread p) pu depth [] p)
      (\<lambda>(es, p'). advanced p p' \<and> length es \<le> max_set_items lim \<and>
       (\<forall>e \<in> set es. well_typed L lim e \<and> e_types e \<in> {ty_number, ty_text, ty_identity}) \<and>
       ps_position p + sum_list (map node_count es) \<le> ps_position p')"
    using set_loop_yields[OF assms order_refl, of "[]"] assms by simp
  then show ?thesis
    unfolding parse_set_def
  proof (rule yields_bind, clarify)
    fix es p1
    assume e: "advanced p p1" "length es \<le> max_set_items lim"
      "\<forall>e \<in> set es. well_typed L lim e \<and> e_types e \<in> {ty_number, ty_text, ty_identity}"
      "ps_position p + sum_list (map node_count es) \<le> ps_position p1"
    have close: "yields (ps_input p)
        (expect_simple StRightBracket ''set is missing a closing bracket'' p1)
        (\<lambda>(t, p'). p' = step_over p1 \<and> \<not> at_end p1)"
      using expect_simple_yields[OF advancedD(1)[OF e(1)]] advancedD(2)[OF e(1)] by simp
    show "yields (ps_input p)
        (obind (expect_simple StRightBracket ''set is missing a closing bracket'' p1) (\<lambda>(close, p).
         Done (Expr (ESet es) ty_set (mk_span (sp_start sp) (sp_end (tk_span close))), p)))
        (\<lambda>(e, p'). advanced p p' \<and> well_typed L lim e \<and>
           ps_position p + node_count e \<le> ps_position p')"
      by (rule yields_bind[OF close])
        (use e advanced_trans[OF e(1) step_over_advanced[OF advancedD(1)[OF e(1)]]]
          in \<open>auto simp: step_over_position\<close>)
  qed
qed

end

context operand_parser
begin

lemma parse_primary_yields:
  assumes "operand_parser L lim (parse_or L pu) lo"
    and "pwf p" and "ps_limits p = lim" and "depth \<le> max_depth lim \<Longrightarrow> lo \<le> depth + 1"
  shows "parses_expr L p (parse_primary L pu depth p)"
proof -
  let ?tok = "current p" and ?q = "step_over p"
  have a1: "advanced p ?q" by (rule step_over_advanced[OF assms(2)])
  note q = advancedD[OF a1]
  have leaf: "expr_from L p (Expr k t s, ?q)"
    if "\<not> at_end p" "well_typed_kind L (ps_limits p) k t" "node_count_kind k = 1" for k t s
    using that a1 step_over_position[OF that(1)] by (simp add: expr_from_def)
  have group: "yields (ps_input p) (obind (take_simple StRightParen ?q) (\<lambda>(close, p).
      if close \<noteq> None then Done (Expr (EBool True) ty_bool (tk_span ?tok), p)
      else obind (parse_or L pu (depth + 1) p) (\<lambda>(e, p).
        obind (expect_simple StRightParen ''group is missing a closing parenthesis'' p)
          (\<lambda>(close, p). Done (Expr (e_kind e) (e_types e)
             (mk_span (sp_start (tk_span ?tok)) (sp_end (tk_span close))), p))))) (expr_from L p)"
    if more: "\<not> at_end p" and depth: "depth \<le> max_depth lim"
  proof (cases "check_simple StRightParen ?q")
    case True
    have "advanced p (step_over ?q)"
      using a1 step_over_advanced[OF q(1)] advanced_trans by blast
    then show ?thesis
      using True q(1) step_over_position[OF more] step_over_position[OF check_simple_not_at_end[OF True]]
      by (simp add: take_simple_Done expr_from_def)
  next
    case False
    have "yields (ps_input p) (parse_or L pu (depth + 1) ?q) (expr_from L ?q)"
      using operand_parser.operand_law[OF assms(1) q(1)] q assms(3) assms(4)[OF depth]
      by (simp add: parses_expr_def)
    then have "yields (ps_input p) (obind (parse_or L pu (depth + 1) ?q) (\<lambda>(e, p).
        obind (expect_simple StRightParen ''group is missing a closing parenthesis'' p)
          (\<lambda>(close, p). Done (Expr (e_kind e) (e_types e)
             (mk_span (sp_start (tk_span ?tok)) (sp_end (tk_span close))), p)))) (expr_from L p)"
    proof (rule yields_bind, clarify)
      fix e p2
      assume e: "expr_from L ?q (e, p2)"
      then have a2: "advanced p p2" "pwf p2" "ps_input p2 = ps_input p"
        using a1 advanced_trans by (auto simp: expr_from_def advanced_def)
      note close = expect_simple_yields[OF a2(2), unfolded a2(3)]
      show "yields (ps_input p)
         (obind (expect_simple StRightParen ''group is missing a closing parenthesis'' p2)
          (\<lambda>(close, p). Done (Expr (e_kind e) (e_types e)
             (mk_span (sp_start (tk_span ?tok)) (sp_end (tk_span close))), p))) (expr_from L p)"
        by (rule yields_bind[OF close])
          (use e q advanced_trans[OF a2(1) step_over_advanced[OF a2(2)]]
            in \<open>auto simp: expr_from_def step_over_position well_typed_sel node_count_sel[of e]\<close>)
    qed
    with False q(1) show ?thesis by (simp add: take_simple_Done)
  qed
  have set_literal: "yields (ps_input p) (parse_set (parse_or L pu) (tk_span ?tok) (depth + 1) ?q)
      (expr_from L p)"
    if more: "\<not> at_end p" and depth: "depth \<le> max_depth lim"
    by (rule yields_mono[OF operand_parser.parse_set_yields[OF assms(1), where p = ?q, unfolded q(2)]])
      (use q assms that a1 in \<open>auto simp: expr_from_def advanced_def step_over_position\<close>)
  have field_or_boolean: "yields (ps_input p) (parse_field_or_boolean first (tk_span ?tok) ?q)
      (expr_from L p)" if more: "\<not> at_end p" for first
    by (rule yields_mono[OF parse_field_or_boolean_yields[OF q(1), of first "tk_span ?tok" L lim, unfolded q(2)]])
      (use q assms that a1 in \<open>auto simp: expr_from_def advanced_def step_over_position\<close>)
  have ok: "token_kind_ok (tk_kind ?tok)" by (rule current_ok[OF assms(2)])
  show ?thesis
    unfolding parses_expr_def parse_primary_def
  proof (rule yields_bind[OF guard_depth_yields], clarify)
    assume depth: "depth \<le> max_depth (ps_limits p)"
    then have depth: "depth \<le> max_depth lim" using assms(3) by simp
    show "yields (ps_input p) (obind (advance p) (\<lambda>(tok, p).
         case tk_kind tok of
           TkNumber n \<Rightarrow> Done (Expr (ENumber n) ty_number (tk_span tok), p)
         | TkMinMagnitude \<Rightarrow>
             fail_at p (tk_span tok) ''integer literal is outside the signed 64-bit range''
         | TkString v \<Rightarrow> Done (Expr (EText v) ty_text (tk_span tok), p)
         | TkAccount v \<Rightarrow> Done (Expr (EText v) ty_text (tk_span tok), p)
         | TkOpaqueId v \<Rightarrow> Done (Expr (EIdentity v) ty_identity (tk_span tok), p)
         | TkStar \<Rightarrow> Done (Expr (EField FOurAccounts) ty_set (tk_span tok), p)
         | TkIdentifier first \<Rightarrow> parse_field_or_boolean first (tk_span tok) p
         | TkLeftParen \<Rightarrow>
             obind (take_simple StRightParen p) (\<lambda>(close, p).
               if close \<noteq> None then Done (Expr (EBool True) ty_bool (tk_span tok), p)
               else obind (parse_or L pu (depth + 1) p) (\<lambda>(e, p).
                 obind (expect_simple StRightParen ''group is missing a closing parenthesis'' p)
                   (\<lambda>(close, p).
                     Done (Expr (e_kind e) (e_types e)
                             (mk_span (sp_start (tk_span tok)) (sp_end (tk_span close))), p))))
         | TkLeftBracket \<Rightarrow> parse_set (parse_or L pu) (tk_span tok) (depth + 1) p
         | TkEnd \<Rightarrow> fail_at p (tk_span tok) ''expression expected''
         | _ \<Rightarrow> fail_at p (tk_span tok) ''value or field expected'')) (expr_from L p)"
      using leaf group[OF _ depth] set_literal[OF _ depth] field_or_boolean ok q(2)
      by (cases "tk_kind ?tok")
        (simp_all add: advance_Done assms(2) at_end_def field_value_types_def)
  qed
qed

lemma unary_operand_yields:
  assumes "pwf p" and "ps_limits p = lim" and "lo \<le> depth + 1" and "\<not> at_end p"
  shows "yields (ps_input p) (unary_operand op pu depth tok (step_over p)) (expr_from L p)"
proof -
  let ?q = "step_over p"
  have a1: "advanced p ?q" by (rule step_over_advanced[OF assms(1)])
  note q = advancedD[OF a1]
  have operand: "yields (ps_input p) (pu (depth + 1) ?q) (expr_from L ?q)"
    using operand_law[OF q(1), of "depth + 1"] q assms by (simp add: parses_expr_def)
  show ?thesis
    unfolding unary_operand_def
  proof (rule yields_bind[OF operand], clarify)
    fix e p2
    assume e: "expr_from L ?q (e, p2)"
    have "yields (ps_input p) (make_unary op e (tk_span tok) p2)
        (\<lambda>e'. well_typed L (ps_limits p2) e' \<and> node_count e' = 1 + node_count e)"
      using e q by (intro make_unary_yields) (auto simp: expr_from_def advanced_def)
    then show "yields (ps_input p) (obind (make_unary op e (tk_span tok) p2) (\<lambda>e. Done (e, p2)))
        (expr_from L p)"
      by (rule yields_bind)
        (use e q a1 step_over_position[OF assms(4)] in \<open>auto simp: expr_from_def advanced_def\<close>)
  qed
qed

lemma negation_yields:
  assumes "pwf p" and "ps_limits p = lim" and "lo \<le> depth + 1" and "\<not> at_end p"
  shows "yields (ps_input p) (negation pu depth tok (step_over p)) (expr_from L p)"
proof (cases "tk_kind (current (step_over p)) = TkMinMagnitude")
  case True
  have q: "pwf (step_over p)" by (rule advancedD(1)[OF step_over_advanced[OF assms(1)]])
  have "\<not> at_end (step_over p)" using True by (simp add: at_end_def)
  then show ?thesis
    using True q assms(4) advanced_trans[OF step_over_advanced[OF assms(1)] step_over_advanced[OF q]]
    by (simp add: negation_def advance_Done expr_from_def step_over_position i64_defs)
next
  case False
  then show ?thesis
    using unary_operand_yields[OF assms] by (simp add: negation_def)
qed

end

text \<open>With fuel for the remaining depth, \<open>parse_unary\<close> is an operand parser. At a depth beyond the
  limit one unit is enough: the guard refuses.\<close>

lemma parse_unary_operand:
  assumes "max_depth lim + 1 \<le> lo + n"
  shows "operand_parser L lim (parse_unary (Suc n) L) lo"
  using assms
proof (induction n arbitrary: lo)
  case 0
  show ?case
  proof
    fix p depth
    assume "pwf p" "ps_limits p = lim" "lo \<le> depth"
    with 0 show "parses_expr L p (parse_unary (Suc 0) L depth p)"
      by (simp add: parses_expr_def guard_depth_def)
  qed
next
  case (Suc n)
  then have IH: "operand_parser L lim (parse_unary (Suc n) L) (lo + 1)" by simp
  show ?case
  proof
    fix p depth
    assume p: "pwf p" "ps_limits p = lim" "lo \<le> depth"
    note ops = operand_parser.unary_operand_yields[OF IH p(1,2)]
      operand_parser.negation_yields[OF IH p(1,2)]
      operand_parser.parse_primary_yields[OF IH parse_or_operand[OF IH] p(1,2),
        unfolded parses_expr_def]
    show "parses_expr L p (parse_unary (Suc (Suc n)) L depth p)"
      unfolding parses_expr_def parse_unary.simps(2)[of "Suc n"]
      by (rule yields_bind[OF guard_depth_yields], clarify)
        (use p ops in \<open>simp add: take_simple_Done take_keyword_Done check_simple_not_at_end
           check_keyword_not_at_end\<close>)
  qed
qed

text \<open>The whole predicate parser.\<close>

interpretation predicate: operand_parser L lim "parse_or L (parse_unary (max_depth lim + 2) L)" 0
  for L lim
  by (rule parse_or_operand) (use parse_unary_operand[of lim 0 "max_depth lim + 1" L] in simp)

lemma parse_predicate_yields:
  "pwf p \<Longrightarrow> yields (ps_input p) (parse_predicate L p) (expr_from L p)"
  using predicate.operand_law[of p "ps_limits p" 0 L]
  by (simp add: parse_predicate_def parses_expr_def)

section \<open>Sources\<close>

text \<open>What the compiler promises of a source: at most one argument, a non-empty one where the source
  needs it, none for the local timeline, and no wildcard where a wildcard means every account.\<close>

definition source_ok :: "source_spec \<Rightarrow> bool" where
  "source_ok s \<longleftrightarrow> length (ss_arguments s) \<le> 1 \<and>
     (source_requires_argument (ss_kind s) \<longrightarrow> ss_arguments s \<noteq> [] \<and> [] \<notin> set (ss_arguments s)) \<and>
     (ss_kind s = SrcLocal \<longrightarrow> ss_arguments s = []) \<and>
     (source_accepts_account_wildcard (ss_kind s) \<longrightarrow> str ''*'' \<notin> set (ss_arguments s))"

definition argument_total :: "source_spec list \<Rightarrow> nat" where
  "argument_total ss = sum_list (map (\<lambda>s. length (ss_arguments s)) ss)"

lemma argument_total_simps [simp]:
  "argument_total [] = 0"
  "argument_total (xs @ ys) = argument_total xs + argument_total ys"
  by (simp_all add: argument_total_def)

lemma argument_total_dedup: "argument_total (dedup_by key seen ss) \<le> argument_total ss"
  by (induction key seen ss rule: dedup_by.induct) (auto simp: argument_total_def)

definition source_count_ok :: "parser \<Rightarrow> bool" where
  "source_count_ok p \<longleftrightarrow> ps_source_argument_count p \<le> max_source_arguments (ps_limits p)"

lemma step_over_count [simp]:
  "ps_source_argument_count (step_over p) = ps_source_argument_count p"
  by (simp add: step_over_def)

lemma step_over_count_ok [simp]: "source_count_ok (step_over p) = source_count_ok p"
  by (simp add: step_over_def source_count_ok_def)

definition arguments_from :: "parser \<Rightarrow> rstr list \<Rightarrow> rstr list \<times> parser \<Rightarrow> bool" where
  "arguments_from p args0 = (\<lambda>(args, p'). advanced p p' \<and> source_count_ok p' \<and>
     ps_source_argument_count p' + length args0 = ps_source_argument_count p + length args)"

lemma arguments_from_trans:
  "advanced p q \<Longrightarrow>
   ps_source_argument_count q + length args0 = ps_source_argument_count p + length args1 \<Longrightarrow>
   arguments_from q args1 r \<Longrightarrow> arguments_from p args0 r"
  by (auto simp: arguments_from_def intro: advanced_trans)

lemma parse_source_argument_yields:
  assumes "pwf p"
  shows "yields (ps_input p) (parse_source_argument p)
    (\<lambda>(a, p'). advanced p p' \<and> ps_position p < ps_position p' \<and> source_count_ok p' \<and>
       ps_source_argument_count p' = ps_source_argument_count p + 1)"
proof -
  let ?q = "p\<lparr>ps_source_argument_count := ps_source_argument_count p + 1\<rparr>"
  have q: "pwf ?q" "current ?q = current p" "at_end ?q = at_end p" "ps_input ?q = ps_input p"
    using assms by (simp_all add: pwf_def current_def at_end_def)
  have "advanced p (step_over ?q)"
    using step_over_advanced[OF q(1)] by (simp add: advanced_def)
  then show ?thesis
    using q step_over_position[of ?q]
    by (cases "tk_kind (current p)")
      (auto simp: parse_source_argument_def advance_Done Let_def source_count_ok_def at_end_def
        advanced_def)
qed

lemma colon_arguments_yields:
  assumes "pwf p" and "source_count_ok p" and "unread p \<le> n"
  shows "yields (ps_input p) (colon_arguments_loop n args p) (arguments_from p args)"
  using assms
proof (induction n arbitrary: p args)
  case 0
  then show ?case using unread_pos[of p] by simp
next
  case (Suc n)
  let ?q = "step_over p"
  show ?case
  proof (cases "check_simple StComma p \<and> next_is_source_argument p")
    case False
    then show ?thesis using Suc.prems by (auto simp: arguments_from_def)
  next
    case True
    have a1: "advanced p ?q" by (rule step_over_advanced[OF Suc.prems(1)])
    note q = advancedD[OF a1]
    note arg = parse_source_argument_yields[OF q(1), unfolded q(2)]
    have "yields (ps_input p) (obind (parse_source_argument ?q)
        (\<lambda>(a, p). colon_arguments_loop n (args @ [a]) p)) (arguments_from p args)"
    proof (rule yields_bind[OF arg], clarify)
      fix a p2
      assume r: "advanced ?q p2" "ps_position ?q < ps_position p2" "source_count_ok p2"
        "ps_source_argument_count p2 = ps_source_argument_count ?q + 1"
      have a2: "advanced p p2" by (rule advanced_trans[OF a1 r(1)])
      have "unread p2 \<le> n"
        using unread_less[OF a2] r(2) q(5) Suc.prems(3) by simp
      then show "yields (ps_input p) (colon_arguments_loop n (args @ [a]) p2)
          (arguments_from p args)"
        using Suc.IH[of p2 "args @ [a]"] r a2
        by (auto elim!: yields_mono intro!: arguments_from_trans[OF a2] simp: advanced_def)
    qed
    with True Suc.prems(1) show ?thesis by (simp add: advance_Done)
  qed
qed

lemma call_arguments_yields:
  assumes "pwf p" and "source_count_ok p" and "unread p \<le> n"
  shows "yields (ps_input p) (call_arguments_loop n args p) (arguments_from p args)"
  using assms
proof (induction n arbitrary: p args)
  case 0
  then show ?case using unread_pos[of p] by simp
next
  case (Suc n)
  show ?case
    unfolding call_arguments_loop.simps
  proof (rule yields_bind[OF parse_source_argument_yields[OF Suc.prems(1)]], clarify)
    fix a p1
    assume r: "advanced p p1" "ps_position p < ps_position p1" "source_count_ok p1"
      "ps_source_argument_count p1 = ps_source_argument_count p + 1"
    let ?q = "step_over p1"
    note p1 = advancedD[OF r(1)]
    have a1: "advanced p1 ?q" by (rule step_over_advanced[OF p1(1)])
    have a2: "advanced p ?q" by (rule advanced_trans[OF r(1) a1])
    have "unread ?q \<le> n"
      using unread_mono[OF a1] unread_less[OF r(1,2)] Suc.prems(3) by simp
    then have "yields (ps_input p) (call_arguments_loop n (args @ [a]) ?q) (arguments_from p args)"
      using Suc.IH[of ?q "args @ [a]"] r a2
      by (auto elim!: yields_mono intro!: arguments_from_trans[OF a2] simp: advanced_def)
    then show "yields (ps_input p) (obind (take_simple StComma p1) (\<lambda>(comma, p).
         if comma = None \<or> check_simple StRightParen p then Done (args @ [a], p)
         else call_arguments_loop n (args @ [a]) p)) (arguments_from p args)"
      using r a2 p1(1) by (auto simp: take_simple_Done arguments_from_def)
  qed
qed

lemma parse_source_arguments_yields:
  assumes "pwf p" and "source_count_ok p"
  shows "yields (ps_input p) (parse_source_arguments p) (arguments_from p [])"
proof -
  let ?q = "step_over p"
  have a1: "advanced p ?q" by (rule step_over_advanced[OF assms(1)])
  note q = advancedD[OF a1]
  have colon: "yields (ps_input p) (obind (parse_source_argument ?q)
      (\<lambda>(a, p). colon_arguments_loop (unread p) [a] p)) (arguments_from p [])"
  proof (rule yields_bind[OF parse_source_argument_yields[OF q(1), unfolded q(2)]], clarify)
    fix a p2
    assume r: "advanced ?q p2" "source_count_ok p2"
      "ps_source_argument_count p2 = ps_source_argument_count ?q + 1"
    have a2: "advanced p p2" by (rule advanced_trans[OF a1 r(1)])
    show "yields (ps_input p) (colon_arguments_loop (unread p2) [a] p2) (arguments_from p [])"
      using colon_arguments_yields[of p2 "unread p2" "[a]"] r a2
      by (auto elim!: yields_mono intro!: arguments_from_trans[OF a2] simp: advanced_def)
  qed
  have args: "yields (ps_input p)
      (if check_simple StRightParen ?q then Done ([], ?q) else call_arguments_loop (unread ?q) [] ?q)
      (arguments_from p [])"
    using call_arguments_yields[OF q(1) _ order_refl, of "[]"] assms(2) a1 q(2)
    by (auto elim!: yields_mono intro: advanced_trans simp: arguments_from_def)
  have call: "yields (ps_input p) (obind
      (if check_simple StRightParen ?q then Done ([], ?q) else call_arguments_loop (unread ?q) [] ?q)
      (\<lambda>(args, p). obind
         (expect_simple StRightParen ''source call is missing a closing parenthesis'' p)
         (\<lambda>(_, p). Done (args, p)))) (arguments_from p [])"
  proof (rule yields_bind[OF args], clarify)
    fix r p2
    assume r: "arguments_from p [] (r, p2)"
    then have a2: "advanced p p2" by (simp add: arguments_from_def)
    note close = expect_simple_yields[OF advancedD(1)[OF a2], unfolded advancedD(2)[OF a2]]
    show "yields (ps_input p)
        (obind (expect_simple StRightParen ''source call is missing a closing parenthesis'' p2)
         (\<lambda>(_, p). Done (r, p))) (arguments_from p [])"
      by (rule yields_bind[OF close])
        (use r advanced_trans[OF a2 step_over_advanced[OF advancedD(1)[OF a2]]]
          in \<open>auto simp: arguments_from_def\<close>)
  qed
  show ?thesis
    using assms colon call
    by (auto simp: parse_source_arguments_def take_simple_Done arguments_from_def)
qed

text \<open>The check and normalisation of a source's arguments.\<close>

lemma source_specs_yields:
  assumes "ps_input p = input"
  shows "yields input (source_specs k args sp p)
    (\<lambda>(ss, p'). p' = p \<and> ss \<noteq> [] \<and> (\<forall>s \<in> set ss. source_ok s \<and> ss_kind s = k) \<and>
       argument_total ss \<le> length args)"
proof -
  have "argument_total (map (\<lambda>a. \<lparr>ss_kind = k, ss_arguments = [a], ss_span = sp\<rparr>) xs) = length xs"
    for xs by (induction xs) (simp_all add: argument_total_def)
  then show ?thesis
    using assms source_argument_rules_disjoint[of k]
    by (auto simp: source_specs_def source_ok_def Let_def argument_total_def
        source_accepts_account_wildcard_def)
qed

definition sources_from :: "parser \<Rightarrow> source_spec list \<Rightarrow> source_spec list \<times> parser \<Rightarrow> bool" where
  "sources_from p ss0 = (\<lambda>(ss, p'). advanced p p' \<and> source_count_ok p' \<and>
     (\<forall>s \<in> set ss. source_ok s) \<and> length ss \<le> max (length ss0) (max_sources (ps_limits p)) \<and>
     ps_source_argument_count p + argument_total ss \<le>
       ps_source_argument_count p' + argument_total ss0)"

lemma parse_source_yields:
  assumes "pwf p" and "source_count_ok p"
  shows "yields (ps_input p) (parse_source p)
    (\<lambda>(ss, p'). advanced p p' \<and> ps_position p < ps_position p' \<and> source_count_ok p' \<and>
       (\<forall>s \<in> set ss. source_ok s) \<and>
       ps_source_argument_count p + argument_total ss \<le> ps_source_argument_count p')"
proof -
  let ?q = "step_over p" and ?tok = "current p"
  have a1: "advanced p ?q" by (rule step_over_advanced[OF assms(1)])
  note q = advancedD[OF a1]
  have rest: "yields (ps_input p) (case resolve_source_kind name of
      None \<Rightarrow> fail_at ?q (tk_span ?tok) ''unsupported source''
    | Some k \<Rightarrow> obind (parse_source_arguments ?q) (\<lambda>(args, p). source_specs k args (tk_span ?tok) p))
    (\<lambda>(ss, p'). advanced p p' \<and> ps_position p < ps_position p' \<and> source_count_ok p' \<and>
       (\<forall>s \<in> set ss. source_ok s) \<and>
       ps_source_argument_count p + argument_total ss \<le> ps_source_argument_count p')" (is "yields _ _ ?Q")
    if "\<not> at_end p" for name
  proof (cases "resolve_source_kind name")
    case None
    then show ?thesis using q(2) by simp
  next
    case (Some k)
    have args: "yields (ps_input p) (parse_source_arguments ?q) (arguments_from ?q [])"
      using parse_source_arguments_yields[OF q(1)] q(2) assms(2) by simp
    have "yields (ps_input p)
        (obind (parse_source_arguments ?q) (\<lambda>(args, p). source_specs k args (tk_span ?tok) p)) ?Q"
    proof (rule yields_bind[OF args], clarify)
      fix args p2
      assume r: "arguments_from ?q [] (args, p2)"
      then have a2: "advanced ?q p2" "advanced p p2" "ps_input p2 = ps_input p"
        using a1 advanced_trans by (auto simp: arguments_from_def advanced_def)
      show "yields (ps_input p) (source_specs k args (tk_span ?tok) p2) ?Q"
        using r a2 step_over_position[OF that]
        by (intro yields_mono[OF source_specs_yields[OF a2(3)]])
          (auto simp: arguments_from_def advanced_def)
    qed
    then show ?thesis by (simp add: Some)
  qed
  show ?thesis
    using rest q(2) assms(1)
    by (cases "tk_kind ?tok") (simp_all add: parse_source_def advance_Done at_end_def)
qed

lemma sources_loop_yields:
  assumes "pwf p" and "source_count_ok p" and "unread p \<le> n" and "\<forall>s \<in> set ss. source_ok s"
  shows "yields (ps_input p) (sources_loop n ss p) (sources_from p ss)"
  using assms
proof (induction n arbitrary: p ss)
  case 0
  then show ?case using unread_pos[of p] by simp
next
  case (Suc n)
  show ?case
  proof (cases "at_end p \<or> check_keyword ''where'' p")
    case True
    then show ?thesis using Suc.prems by (auto simp: sources_from_def)
  next
    case False
    have "yields (ps_input p) (obind (parse_source p) (\<lambda>(parsed, p).
        let sources = ss @ parsed in
        if length sources > max_sources (ps_limits p)
        then Fail (error_current p ''source limit exceeded'')
        else obind (take_simple StComma p) (\<lambda>(comma, p).
          if comma \<noteq> None then
            (if at_end p \<or> check_keyword ''where'' p then Done (sources, p)
             else sources_loop n sources p)
          else if \<not> at_end p \<and> \<not> check_keyword ''where'' p
          then Fail (error_current p ''sources must be separated by commas'')
          else sources_loop n sources p))) (sources_from p ss)"
    proof (rule yields_bind[OF parse_source_yields[OF Suc.prems(1,2)]], clarify)
      fix parsed p1
      assume r: "advanced p p1" "ps_position p < ps_position p1" "source_count_ok p1"
        "\<forall>s \<in> set parsed. source_ok s"
        "ps_source_argument_count p + argument_total parsed \<le> ps_source_argument_count p1"
      let ?q = "step_over p1"
      note p1 = advancedD[OF r(1)]
      have a1: "advanced p1 ?q" by (rule step_over_advanced[OF p1(1)])
      have a2: "advanced p ?q" by (rule advanced_trans[OF r(1) a1])
      have n: "unread p1 \<le> n" "unread ?q \<le> n"
        using unread_mono[OF a1] unread_less[OF r(1,2)] Suc.prems(3) by simp_all
      have ok: "\<forall>s \<in> set (ss @ parsed). source_ok s" using r(4) Suc.prems(4) by auto
      have loop: "yields (ps_input p) (sources_loop n (ss @ parsed) p') (sources_from p ss)"
        if "p' = p1 \<or> p' = ?q" "length (ss @ parsed) \<le> max_sources (ps_limits p)" for p'
      proof -
        have p': "advanced p p'" "pwf p'" "ps_input p' = ps_input p" "unread p' \<le> n"
          "source_count_ok p'" "ps_limits p' = ps_limits p"
          "ps_source_argument_count p' = ps_source_argument_count p1"
          using that r a2 n advancedD[OF a2] p1 by auto
        show ?thesis
          using Suc.IH[OF p'(2,5,4) ok] p' that(2) r(5)
          by (auto elim!: yields_mono intro: advanced_trans simp: sources_from_def p'(3))
      qed
      have finished: "sources_from p ss (ss @ parsed, p1)" "sources_from p ss (ss @ parsed, ?q)"
        if "length (ss @ parsed) \<le> max_sources (ps_limits p)"
        using that r a2 ok by (auto simp: sources_from_def)
      show "yields (ps_input p) (let sources = ss @ parsed in
          if length sources > max_sources (ps_limits p1)
          then Fail (error_current p1 ''source limit exceeded'')
          else obind (take_simple StComma p1) (\<lambda>(comma, p).
            if comma \<noteq> None then
              (if at_end p \<or> check_keyword ''where'' p then Done (sources, p)
               else sources_loop n sources p)
            else if \<not> at_end p \<and> \<not> check_keyword ''where'' p
            then Fail (error_current p ''sources must be separated by commas'')
            else sources_loop n sources p)) (sources_from p ss)"
        using finished loop p1 by (simp add: Let_def take_simple_Done)
    qed
    with False show ?thesis by simp
  qed
qed

lemma parse_sources_yields:
  assumes "pwf p" and "source_count_ok p"
  shows "yields (ps_input p) (parse_sources p)
    (\<lambda>(ss, p'). sources_from p [] (ss, p') \<and> distinct (map source_key ss))"
  unfolding parse_sources_def
proof (rule yields_bind[OF sources_loop_yields[OF assms order_refl]])
  fix x
  assume x: "sources_from p [] x"
  then show "yields (ps_input p) (case x of (ss, p) \<Rightarrow> Done (dedup_by source_key [] ss, p))
      (\<lambda>(ss, p'). sources_from p [] (ss, p') \<and> distinct (map source_key ss))"
    using dedup_by_subset[of source_key "[]" "fst x"] length_dedup_by[of source_key "[]" "fst x"]
      argument_total_dedup[of source_key "[]" "fst x"]
    by (auto simp: sources_from_def distinct_dedup_by split: prod.splits)
qed simp

section \<open>Requirements\<close>

lemma quote_viewer_disjoint: "f \<in> quote_fields \<Longrightarrow> f \<notin> viewer_fields"
  by (auto simp: quote_fields_def viewer_fields_def)

lemma booster_disjoint:
  "f \<in> booster_fields \<Longrightarrow> f \<notin> quote_fields \<and> f \<notin> viewer_fields \<and> f \<noteq> FOurAccounts"
  by (auto simp: booster_fields_def quote_fields_def viewer_fields_def)

lemma special_fields [simp]:
  "FBoost \<notin> quote_fields" "FBoost \<notin> viewer_fields" "FOurAccounts \<notin> quote_fields"
  "FOurAccounts \<notin> viewer_fields" "FOurAccounts \<notin> booster_fields"
  by (auto simp: booster_fields_def quote_fields_def viewer_fields_def)

definition needs_status :: "field \<Rightarrow> bool" where
  "needs_status f \<longleftrightarrow> f \<notin> booster_fields \<and> f \<noteq> FBoost \<and> f \<notin> quote_fields \<and> f \<noteq> FOurAccounts"

lemma require_field_sel:
  "rq_effective_status (require_field f r) \<longleftrightarrow> rq_effective_status r \<or> needs_status f"
  "rq_quote_status (require_field f r) \<longleftrightarrow> rq_quote_status r \<or> f \<in> quote_fields"
  "rq_memberships (require_field f r) \<longleftrightarrow> rq_memberships r \<or> f \<in> viewer_fields"
  "rq_viewer_states (require_field f r) \<longleftrightarrow> rq_viewer_states r \<or> f \<in> viewer_fields"
  "rq_login_accounts (require_field f r) \<longleftrightarrow> rq_login_accounts r \<or> f = FOurAccounts"
  "rq_conversations (require_field f r) \<longleftrightarrow> rq_conversations r"
  using booster_disjoint[of f] quote_viewer_disjoint[of f]
  by (auto simp: require_field_def needs_status_def)

lemma require_fields_sel:
  "rq_effective_status (fold require_field fs r) \<longleftrightarrow>
     rq_effective_status r \<or> (\<exists>f \<in> set fs. needs_status f)"
  "rq_quote_status (fold require_field fs r) \<longleftrightarrow>
     rq_quote_status r \<or> (\<exists>f \<in> set fs. f \<in> quote_fields)"
  "rq_memberships (fold require_field fs r) \<longleftrightarrow>
     rq_memberships r \<or> (\<exists>f \<in> set fs. f \<in> viewer_fields)"
  "rq_viewer_states (fold require_field fs r) \<longleftrightarrow>
     rq_viewer_states r \<or> (\<exists>f \<in> set fs. f \<in> viewer_fields)"
  "rq_login_accounts (fold require_field fs r) \<longleftrightarrow>
     rq_login_accounts r \<or> FOurAccounts \<in> set fs"
  "rq_conversations (fold require_field fs r) \<longleftrightarrow> rq_conversations r"
  by (induction fs arbitrary: r) (auto simp: require_field_sel)

section \<open>The whole compiler\<close>

text \<open>What a compiled query promises.\<close>

definition sources_ok :: "query_limits \<Rightarrow> source_spec list \<Rightarrow> bool" where
  "sources_ok lim ss \<longleftrightarrow> ss \<noteq> [] \<and> length ss \<le> max 1 (max_sources lim) \<and>
     distinct (map source_key ss) \<and> (\<forall>s \<in> set ss. source_ok s) \<and>
     argument_total ss \<le> max_source_arguments lim"

definition predicate_ok :: "lib \<Rightarrow> query_limits \<Rightarrow> expr \<Rightarrow> bool" where
  "predicate_ok L lim e \<longleftrightarrow> well_typed L lim e \<and> e_types e = ty_bool \<and> node_count e \<le> max_tokens lim"

definition query_ok :: "lib \<Rightarrow> query_limits \<Rightarrow> compiled_query \<Rightarrow> bool" where
  "query_ok L lim cq \<longleftrightarrow> sources_ok lim (cq_sources cq) \<and> predicate_ok L lim (cq_predicate cq) \<and>
     cq_requirements cq = query_requirements_of (cq_sources cq) (cq_predicate cq) \<and>
     cq_conversation_ids cq =
       concat (map ss_arguments (filter (\<lambda>s. ss_kind s = SrcConversation) (cq_sources cq)))"

lemma parse_head_yields:
  assumes "pwf p" and "ps_source_argument_count p = 0"
  shows "yields (ps_input p) (parse_head p) (\<lambda>((had_from, ss), p').
    advanced p p' \<and> (ss \<noteq> [] \<longrightarrow> sources_ok (ps_limits p) ss))"
proof (cases "check_keyword ''from'' p")
  case True
  let ?q = "step_over p"
  have a1: "advanced p ?q" by (rule step_over_advanced[OF assms(1)])
  note q = advancedD[OF a1]
  have "source_count_ok ?q" using assms(2) by (simp add: source_count_ok_def)
  from parse_sources_yields[OF q(1) this]
  have "yields (ps_input p) (obind (parse_sources ?q) (\<lambda>(ss, p). Done ((True, ss), p)))
      (\<lambda>((had_from, ss), p'). advanced p p' \<and> (ss \<noteq> [] \<longrightarrow> sources_ok (ps_limits p) ss))"
    unfolding q(2)
    by (rule yields_bind)
      (use assms(2) q a1 in \<open>auto simp: sources_from_def sources_ok_def source_count_ok_def
        advancedD(4) intro: advanced_trans\<close>)
  with True assms(1) show ?thesis by (simp add: parse_head_def take_keyword_Done)
next
  case False
  then show ?thesis
    using assms(1)
    by (simp add: parse_head_def take_keyword_Done sources_ok_def source_ok_def argument_total_def
        source_requires_argument_def source_accepts_account_wildcard_def)
qed

lemma predicate_from_tokens:
  assumes "expr_from L p (e, p')" and "length (ps_tokens p) \<le> max_tokens (ps_limits p)"
  shows "advanced p p'" "well_typed L (ps_limits p) e" "node_count e \<le> max_tokens (ps_limits p)"
  using assms by (auto simp: expr_from_def advanced_def pwf_def)

lemma parse_where_yields:
  assumes "pwf p" and "length (ps_tokens p) \<le> max_tokens (ps_limits p)"
  shows "yields (ps_input p) (parse_where L had_from p) (\<lambda>(e, p').
    advanced p p' \<and> well_typed L (ps_limits p) e \<and> node_count e \<le> max_tokens (ps_limits p))"
    (is "yields _ _ ?Q")
proof -
  let ?q = "step_over p"
  have a1: "advanced p ?q" by (rule step_over_advanced[OF assms(1)])
  note q = advancedD[OF a1]
  have "1 \<le> max_tokens (ps_limits p)"
    using assms by (auto simp: pwf_def)
  then have here: "?Q (true_predicate p', p')" if "advanced p p'" for p'
    using that by (simp add: true_predicate_def)
  have "yields (ps_input p) (parse_predicate L ?q) ?Q"
    using parse_predicate_yields[OF q(1), of L] q assms(2) a1
    by (auto elim!: yields_mono dest: predicate_from_tokens intro: advanced_trans)
  with here assms(1) a1 q show ?thesis
    by (simp add: parse_where_def take_keyword_Done)
qed

lemma parse_yields:
  assumes "pwf p" and "ps_source_argument_count p = 0"
    and "length (ps_tokens p) \<le> max_tokens (ps_limits p)"
  shows "yields (ps_input p) (parse L p) (query_ok L (ps_limits p))"
proof -
  have "ps_tokens p \<noteq> []" using assms(1) by (auto simp: pwf_def)
  moreover have "yields (ps_input p) (obind (parse_head p) (\<lambda>((had_from, sources), p).
        if sources = [] then Fail (error_current p ''from requires at least one source'')
        else obind (parse_where L had_from p) (\<lambda>(predicate, p).
          if \<not> intersects (e_types predicate) ty_bool
          then fail_at p (e_span predicate) ''query predicate must produce a boolean value''
          else if \<not> at_end p then Fail (error_current p ''unexpected token after query'')
          else Done \<lparr>
            cq_sources = sources,
            cq_predicate = predicate,
            cq_sql_prefilter = ([], []),
            cq_requirements = query_requirements_of sources predicate,
            cq_conversation_ids =
              concat (map ss_arguments
                (filter (\<lambda>s. ss_kind s = SrcConversation) sources)) \<rparr>)))
     (query_ok L (ps_limits p))"
  proof (rule yields_bind[OF parse_head_yields[OF assms(1,2)]], clarify)
    fix had_from ss p1
    assume r: "advanced p p1" "ss \<noteq> [] \<longrightarrow> sources_ok (ps_limits p) ss"
    note p1 = advancedD[OF r(1)]
    have pred: "yields (ps_input p) (parse_where L had_from p1) (\<lambda>(e, p').
      advanced p1 p' \<and> well_typed L (ps_limits p) e \<and> node_count e \<le> max_tokens (ps_limits p))"
      using parse_where_yields[OF p1(1), of L had_from] p1 assms(3) by simp
    show "yields (ps_input p) (if ss = [] then Fail (error_current p1 ''from requires at least one source'')
        else obind (parse_where L had_from p1) (\<lambda>(predicate, p).
          if \<not> intersects (e_types predicate) ty_bool
          then fail_at p (e_span predicate) ''query predicate must produce a boolean value''
          else if \<not> at_end p then Fail (error_current p ''unexpected token after query'')
          else Done \<lparr>
            cq_sources = ss,
            cq_predicate = predicate,
            cq_sql_prefilter = ([], []),
            cq_requirements = query_requirements_of ss predicate,
            cq_conversation_ids =
              concat (map ss_arguments
                (filter (\<lambda>s. ss_kind s = SrcConversation) ss)) \<rparr>)) (query_ok L (ps_limits p))"
    proof (cases "ss = []")
      case False
      then show ?thesis
        using r(2) p1(2) intersects_basic[OF well_typed_basic(1), of L "ps_limits p" _ ty_bool]
        by (auto intro!: yields_bind[OF pred] simp: query_ok_def predicate_ok_def advancedD(2)
            basic_types_def)
    qed (simp add: p1(2))
  qed
  ultimately show ?thesis by (simp add: parse_def)
qed

lemma new_parser_pwf:
  assumes "tokenize L lim input = Inr toks"
  shows "pwf (new_parser input toks lim)"
  using tokenize_well_ended[OF assms] tokenize_layout(2)[OF assms]
  by (simp add: pwf_def new_parser_def well_ended_def)

lemma compile_yields: "yields q (compile_query_with_limits L lim q) (query_ok L lim)"
proof (cases "tokenize L lim q")
  case (Inl e)
  then show ?thesis
    using tokenize_loop_error[of L lim q q 0 "[]" e]
    by (simp add: compile_query_with_limits_def tokenize_def compile_error_at_within)
next
  case (Inr toks)
  then show ?thesis
    using parse_yields[OF new_parser_pwf[OF Inr], of L] tokenize_layout(3)[OF Inr]
    by (simp add: compile_query_with_limits_def new_parser_def compile_error_at_within)
qed

lemma compile_query_ok:
  "compile_query_with_limits L lim q = Done cq \<Longrightarrow> query_ok L lim cq"
  using compile_yields[of q L lim] by simp

section \<open>Properties of the compiler\<close>

text \<open>C4: compilation always ends with a compiled query or a compile error: the parser neither indexes
  out of range nor recurses without bound, since the depth guard stops it before its fuel of
  \<open>max_depth + 2\<close> is spent, and every error names a span of the input on character boundaries.\<close>

theorem compile_total:
  "(\<exists>cq. compile_query_with_limits L lim q = Done cq) \<or>
   (\<exists>e. compile_query_with_limits L lim q = Fail e \<and> error_within q e)"
  using compile_yields[of q L lim] by (cases "compile_query_with_limits L lim q") auto

text \<open>A small query for the witnesses below.\<close>

definition sample_query :: rstr where
  "sample_query = str ''from home where 1 < 2 * 3''"

definition is_done :: "'a outcome \<Rightarrow> bool" where
  "is_done r \<longleftrightarrow> (case r of Done _ \<Rightarrow> True | _ \<Rightarrow> False)"

lemma is_doneE: "is_done r \<Longrightarrow> (\<And>x. r = Done x \<Longrightarrow> P) \<Longrightarrow> P"
  by (cases r) (simp_all add: is_done_def)

lemma sample_query_compiles:
  "is_done (compile_query_with_limits ascii_lib default_limits sample_query)"
  by code_simp

text \<open>C6: the predicate of a compiled query is well-typed and boolean, its integer literals are 64-bit
  integers, its set literals and regular expressions within their limits, and it has at most one
  node for each token.\<close>

theorem compile_well_typed:
  assumes "compile_query_with_limits L lim q = Done cq"
  shows "well_typed L lim (cq_predicate cq) \<and> e_types (cq_predicate cq) = ty_bool \<and>
    node_count (cq_predicate cq) \<le> max_tokens lim"
  using compile_query_ok[OF assms] by (simp add: query_ok_def predicate_ok_def)

theorem compile_well_typed_witness:
  "\<exists>cq. compile_query_with_limits ascii_lib default_limits sample_query = Done cq \<and>
     well_typed ascii_lib default_limits (cq_predicate cq) \<and> e_types (cq_predicate cq) = ty_bool \<and>
     node_count (cq_predicate cq) \<le> max_tokens default_limits"
proof -
  obtain cq where cq: "compile_query_with_limits ascii_lib default_limits sample_query = Done cq"
    using sample_query_compiles by (rule is_doneE)
  from cq compile_well_typed[OF cq] show ?thesis by blast
qed

text \<open>The sources of a compiled query are not empty, within the source and argument limits, pairwise
  different, and each of them is well-formed: at most one argument, a non-empty one where the
  source needs it, none for the local timeline.\<close>

theorem compile_sources:
  assumes "compile_query_with_limits L lim q = Done cq"
  shows "sources_ok lim (cq_sources cq)"
  using compile_query_ok[OF assms] by (simp add: query_ok_def)

theorem compile_sources_witness:
  "\<exists>cq. compile_query_with_limits ascii_lib default_limits sample_query = Done cq \<and>
     sources_ok default_limits (cq_sources cq)"
proof -
  obtain cq where cq: "compile_query_with_limits ascii_lib default_limits sample_query = Done cq"
    using sample_query_compiles by (rule is_doneE)
  from cq compile_sources[OF cq] show ?thesis by blast
qed

text \<open>The stack machine of \<^verbatim>\<open>right_fold_ops\<close> builds the right-associated expression: each operator
  of a level takes everything to its right on that level as its right operand.\<close>

theorem right_fold_ops_associates:
  assumes "length tails < max_depth (ps_limits p)"
  shows "right_fold_ops L first tails p = assoc_right L p first tails"
  by (rule right_fold_ops_eq[OF assms])

definition sample_tails :: "tail list" where
  "sample_tails = [(BSubtract, mk_span 2 3, Expr (ENumber 3) ty_number (mk_span 4 5)),
     (BSubtract, mk_span 6 7, Expr (ENumber 2) ty_number (mk_span 8 9))]"

definition sample_parser :: parser where
  "sample_parser = new_parser [] [] default_limits"

theorem right_fold_ops_associates_witness:
  "right_fold_ops ascii_lib (Expr (ENumber 9) ty_number (mk_span 0 1)) sample_tails sample_parser =
   assoc_right ascii_lib sample_parser (Expr (ENumber 9) ty_number (mk_span 0 1)) sample_tails"
  by (rule right_fold_ops_associates)
    (simp add: sample_tails_def sample_parser_def new_parser_def default_limits_def)

text \<open>A wildcard is refused as an argument of the user source only as it is written; an argument that
  becomes the wildcard by losing its marker is accepted.\<close>

theorem user_wildcard_behind_marker:
  "source_specs SrcUser [str ''@*''] sp p =
     Done ([\<lparr>ss_kind = SrcUser, ss_arguments = [str ''*''], ss_span = sp\<rparr>], p)"
proof -
  have "trim (str ''@*'') = str ''@*''" by code_simp
  then show ?thesis
    by (simp add: source_specs_def source_requires_argument_def normalize_source_argument_def
        strip_prefix_or_def source_accepts_account_wildcard_def)
qed

text \<open>The requirements of a query are exactly the data that its sources and the fields of its
  predicate call for.\<close>

theorem requirements_characterised:
  "query_requirements_of ss e = \<lparr>
     rq_effective_status = ((\<exists>s \<in> set ss. ss_kind s \<in> {SrcUser, SrcBookmarks, SrcFavourites}) \<or>
       (\<exists>f \<in> set (visit_fields e). needs_status f)),
     rq_quote_status = (\<exists>f \<in> set (visit_fields e). f \<in> quote_fields),
     rq_memberships = ((\<exists>s \<in> set ss. ss_kind s \<notin> {SrcLocal, SrcUser, SrcConversation}) \<or>
       (\<exists>f \<in> set (visit_fields e). f \<in> viewer_fields)),
     rq_viewer_states = ((\<exists>s \<in> set ss. ss_kind s \<in> {SrcBookmarks, SrcFavourites}) \<or>
       (\<exists>f \<in> set (visit_fields e). f \<in> viewer_fields)),
     rq_login_accounts = ((\<exists>s \<in> set ss. ss_kind s \<in> {SrcHome, SrcList, SrcMentions, SrcDirect,
       SrcPublic, SrcLocalPublic, SrcHashtag, SrcBookmarks, SrcFavourites}) \<or>
       FOurAccounts \<in> set (visit_fields e)),
     rq_conversations = (\<exists>s \<in> set ss. ss_kind s = SrcConversation) \<rparr>"
  unfolding query_requirements_of_def Let_def
  by (rule query_requirements.equality) (simp_all add: require_fields_sel)

end
