(* ===== verification/KqText.thy ===== *)
theory KqText
imports RustPrelude
begin

text \<open>
  Provider HTML to plain text (\<^verbatim>\<open>html_to_plain_text\<close> and its helpers in
  \<^verbatim>\<open>src/src/services/kq_evaluator.rs\<close>). The character iterator is the unread list; the out
  string is an argument of the loops. The theorems: the conversion never makes a text longer, text
  without markup and entities is only trimmed, escaped markup reads back as text, the contents of
  scripts and styles never reach the out, and the byte limit does not bound the newlines that
  line breaks produce.
\<close>

definition max_derived_text_bytes :: nat where
  "max_derived_text_bytes = 1024 * 1024"

definition lt_char :: rchar where "lt_char = chr CHR ''<''"
definition gt_char :: rchar where "gt_char = chr CHR ''>''"
definition amp_char :: rchar where "amp_char = chr (CHR 0x26)"
definition newline :: rchar where "newline = 10"

lemmas markup_chars = lt_char_def gt_char_def amp_char_def newline_def

section \<open>Tags\<close>

text \<open>The characters of a tag behind its \<open>'<'\<close>, up to and over the \<open>'>'\<close>; at most about 256 bytes
  of them are kept.\<close>

fun take_tag :: "rstr \<Rightarrow> rstr \<Rightarrow> rstr \<times> rstr" where
  "take_tag tag [] = (tag, [])"
| "take_tag tag (c # cs) =
     (if c = gt_char then (tag, cs)
      else take_tag (if byte_len tag < 256 then tag @ [c] else tag) cs)"

definition html_tag_name :: "rstr \<Rightarrow> bool \<times> rstr" where
  "html_tag_name raw_tag =
     (let trimmed = trim_start raw_tag;
          closing = starts_with trimmed (str ''/'');
          name = takeWhile (\<lambda>ch. \<not> (is_whitespace ch \<or> ch = chr CHR ''/''))
                   (trim_start_matches (chr CHR ''/'') trimmed)
      in (closing, to_ascii_lowercase name))"

definition block_tags :: "string list" where
  "block_tags = [''address'', ''article'', ''aside'', ''blockquote'', ''div'', ''footer'',
     ''header'', ''li'', ''main'', ''nav'', ''ul'', ''ol'', ''p'', ''pre'', ''section'', ''table'',
     ''tr'', ''h1'', ''h2'', ''h3'', ''h4'', ''h5'', ''h6'']"

definition is_block_tag :: "rstr \<Rightarrow> bool" where
  "is_block_tag name \<longleftrightarrow> name \<in> set (map str block_tags)"

definition push_newline :: "rstr \<Rightarrow> rstr" where
  "push_newline out =
     (if out \<noteq> [] \<and> \<not> ends_with out [newline] then out @ [newline] else out)"

text \<open>What one tag does to the output and to the suppressed tag.\<close>

definition apply_tag :: "rstr \<Rightarrow> rstr option \<Rightarrow> rstr \<Rightarrow> rstr \<times> rstr option" where
  "apply_tag out suppressed tag =
     (let (closing, name) = html_tag_name tag in
      case suppressed of
        Some s \<Rightarrow> (out, if closing \<and> s = name then None else suppressed)
      | None \<Rightarrow>
          if \<not> closing \<and> name \<in> {str ''script'', str ''style''} then (out, Some name)
          else if name = str ''br'' then (out @ [newline], None)
          else if closing \<and> is_block_tag name then (push_newline out, None)
          else (out, None))"

lemma take_tag_length: "take_tag tag rest = (t, rest') \<Longrightarrow> length rest' \<le> length rest"
  by (induction tag rest rule: take_tag.induct) (auto split: if_splits)

function strip_loop :: "rstr \<Rightarrow> rstr option \<Rightarrow> rstr \<Rightarrow> rstr" where
  "strip_loop out suppressed [] = out"
| "strip_loop out suppressed (ch # rest) =
     (if ch = lt_char then
        (let (tag, rest') = take_tag [] rest;
             (out', suppressed') = apply_tag out suppressed tag
         in strip_loop out' suppressed' rest')
      else
        (let out' = (if suppressed = None then out @ [ch] else out)
         in if byte_len out' \<ge> max_derived_text_bytes then out'
            else strip_loop out' suppressed rest))"
  by pat_completeness auto
termination
  by (relation "measure (\<lambda>(out, suppressed, rest). length rest)")
    (auto dest!: sym[THEN take_tag_length] simp: less_Suc_eq_le)

section \<open>Entities\<close>

definition char_from_u32 :: "nat \<Rightarrow> rchar option" where
  "char_from_u32 n =
     (if n > 0x10FFFF \<or> (0xD800 \<le> n \<and> n \<le> 0xDFFF) then None else Some n)"

definition hex_digit :: "rchar \<Rightarrow> nat option" where
  "hex_digit c =
     (if is_ascii_digit c then Some (c - 48)
      else if 97 \<le> c \<and> c \<le> 102 then Some (c - 87)
      else if 65 \<le> c \<and> c \<le> 70 then Some (c - 55) else None)"

definition dec_digit :: "rchar \<Rightarrow> nat option" where
  "dec_digit c = (if is_ascii_digit c then Some (c - 48) else None)"

text \<open>\<^verbatim>\<open>u32::from_str_radix\<close> on a text without a sign.\<close>

definition parse_u32 :: "nat \<Rightarrow> (rchar \<Rightarrow> nat option) \<Rightarrow> rstr \<Rightarrow> nat option" where
  "parse_u32 radix digit s =
     (if s = [] \<or> (\<exists>c \<in> set s. digit c = None) then None
      else (let n = foldl (\<lambda>n c. radix * n + the (digit c)) 0 s in
            if n < 2 ^ 32 then Some n else None))"

definition named_entities :: "(string \<times> rchar) list" where
  "named_entities = [
     (''nbsp'', 0x20), (''amp'', 0x26), (''lt'', 0x3C), (''gt'', 0x3E), (''quot'', 0x22),
     (''apos'', 0x27), (''#39'', 0x27), (''hellip'', 0x2026), (''ndash'', 0x2013),
     (''mdash'', 0x2014), (''lsquo'', 0x2018), (''rsquo'', 0x2019), (''ldquo'', 0x201C),
     (''rdquo'', 0x201D), (''copy'', 0xA9), (''reg'', 0xAE), (''trade'', 0x2122),
     (''eacute'', 0xE9)]"

definition decode_html_entity :: "rstr \<Rightarrow> rchar option" where
  "decode_html_entity entity =
     (case find (\<lambda>(name, c). entity = str name) named_entities of
        Some (name, c) \<Rightarrow> Some c
      | None \<Rightarrow>
          if starts_with entity (str ''#x'') \<or> starts_with entity (str ''#X'') then
            Option.bind (parse_u32 16 hex_digit (drop 2 entity)) char_from_u32
          else if starts_with entity (str ''#'') then
            Option.bind (parse_u32 10 dec_digit (drop 1 entity)) char_from_u32
          else None)"

definition entity_char :: "rchar \<Rightarrow> bool" where
  "entity_char c \<longleftrightarrow> is_ascii_alphanumeric c \<or> c \<in> set (str ''#xX'')"

text \<open>The inner loop behind an ampersand: the entity, whether its semicolon was consumed, and the
  rest.\<close>

fun scan_entity :: "rstr \<Rightarrow> rstr \<Rightarrow> rstr \<times> bool \<times> rstr" where
  "scan_entity entity [] = (entity, False, [])"
| "scan_entity entity (c # cs) =
     (if byte_len entity > 32 then (entity, False, c # cs)
      else if c = chr CHR '';'' then (entity, True, cs)
      else if \<not> entity_char c then (entity, False, c # cs)
      else scan_entity (entity @ [c]) cs)"

lemma scan_entity_text:
  "scan_entity entity rest = (e, t, rest') \<Longrightarrow>
   entity @ rest = e @ (if t then str '';'' else []) @ rest'"
  by (induction entity rest rule: scan_entity.induct) (auto split: if_splits)

lemma scan_entity_length:
  assumes "scan_entity [] rest = (e, t, rest')"
  shows "length rest' \<le> length rest"
  using scan_entity_text[OF assms] by simp

definition entity_text :: "rstr \<Rightarrow> bool \<Rightarrow> rstr" where
  "entity_text entity terminated =
     (if terminated then
        (case decode_html_entity entity of
           Some decoded \<Rightarrow> [decoded]
         | None \<Rightarrow> amp_char # entity @ str '';'')
      else amp_char # entity)"

function decode_html_entities_once :: "rstr \<Rightarrow> rstr" where
  "decode_html_entities_once [] = []"
| "decode_html_entities_once (ch # rest) =
     (if ch \<noteq> amp_char then ch # decode_html_entities_once rest
      else (let (entity, terminated, rest') = scan_entity [] rest
            in entity_text entity terminated @ decode_html_entities_once rest'))"
  by pat_completeness auto
termination
  by (relation "measure length") (auto dest!: sym[THEN scan_entity_length] simp: less_Suc_eq_le)

fun decode_rounds :: "nat \<Rightarrow> rstr \<Rightarrow> rstr" where
  "decode_rounds 0 decoded = decoded"
| "decode_rounds (Suc n) decoded =
     (let next = decode_html_entities_once decoded
      in if next = decoded then decoded else decode_rounds n next)"

definition decode_nested_html_entities :: "rstr \<Rightarrow> rstr" where
  "decode_nested_html_entities s = decode_rounds 8 s"

definition html_to_plain_text :: "rstr \<Rightarrow> rstr" where
  "html_to_plain_text html = trim (decode_nested_html_entities (trim (strip_loop [] None html)))"

section \<open>The text never grows\<close>

lemma byte_len_dropWhile: "byte_len (dropWhile P s) \<le> byte_len s"
  by (induction s) auto

lemma byte_len_rev [simp]: "byte_len (rev s) = byte_len s"
  by (induction s) auto

lemma byte_len_trim: "byte_len (trim s) \<le> byte_len s"
  using byte_len_dropWhile[of is_whitespace "rev (trim_start s)"] byte_len_dropWhile[of is_whitespace s]
  by (simp add: trim_def trim_end_def trim_start_def)

lemma take_tag_bytes:
  "take_tag tag rest = (t, rest') \<Longrightarrow> byte_len rest' \<le> byte_len rest"
  by (induction tag rest rule: take_tag.induct) (auto split: if_splits)

lemma apply_tag_bytes:
  "apply_tag out suppressed tag = (out', s') \<Longrightarrow> byte_len out' \<le> byte_len out + 1"
  by (auto simp: apply_tag_def push_newline_def newline_def len_utf8_def Let_def
      split: prod.splits option.splits if_splits)

lemma strip_loop_bytes: "byte_len (strip_loop out suppressed rest) \<le> byte_len out + byte_len rest"
proof (induction out suppressed rest rule: strip_loop.induct)
  case (2 out suppressed ch rest)
  show ?case
  proof (cases "ch = lt_char")
    case True
    obtain tag rest' where t: "take_tag [] rest = (tag, rest')" by fastforce
    obtain o' s' where a: "apply_tag out suppressed tag = (o', s')" by fastforce
    have "byte_len (strip_loop o' s' rest') \<le> byte_len o' + byte_len rest'"
      using 2(1)[OF True t[symmetric] refl a[symmetric] refl] by simp
    then show ?thesis
      using True t a take_tag_bytes[OF t] apply_tag_bytes[OF a] len_utf8_bounds(1)[of ch] by simp
  next
    case False
    then show ?thesis using 2(2)[OF False refl] by (auto simp: Let_def)
  qed
qed simp

lemma str_length_bytes: "length s \<le> byte_len (str s)"
  using length_le_byte_len[of "str s"] by simp

lemma decode_html_entity_bytes:
  assumes "decode_html_entity e = Some c"
  shows "len_utf8 c \<le> byte_len e + 2"
proof -
  have "2 \<le> length e"
  proof (cases "find (\<lambda>(name, c). e = str name) named_entities")
    case (Some nc)
    then obtain name where "e = str name" "\<exists>c. (name, c) \<in> set named_entities"
      by (auto simp: find_Some_iff) (metis nth_mem)
    moreover have "\<forall>(name, c) \<in> set named_entities. 2 \<le> length name"
      by (simp add: named_entities_def)
    ultimately show ?thesis by auto
  next
    case None
    then have "starts_with e (str ''#x'') \<or> starts_with e (str ''#X'') \<or>
        (starts_with e (str ''#'') \<and> drop 1 e \<noteq> [])"
      using assms by (auto simp: decode_html_entity_def parse_u32_def split: if_splits)
    then show ?thesis
      by (auto simp: starts_with_iff Suc_le_eq)
  qed
  then show ?thesis
    using len_utf8_bounds(2)[of c] length_le_byte_len[of e] by linarith
qed

lemma entity_text_bytes:
  "byte_len (entity_text e t) \<le> 1 + byte_len e + (if t then 1 else 0)"
  using decode_html_entity_bytes[of e]
  by (auto simp: entity_text_def amp_char_def len_utf8_def split: option.splits)

lemma decode_once_bytes: "byte_len (decode_html_entities_once s) \<le> byte_len s"
proof (induction s rule: decode_html_entities_once.induct)
  case (2 ch rest)
  show ?case
  proof (cases "ch = amp_char")
    case True
    obtain e t rest' where s: "scan_entity [] rest = (e, t, rest')" by (metis prod_cases3)
    have "byte_len (decode_html_entities_once rest') \<le> byte_len rest'"
      using 2(2)[of "(e, t, rest')"] True s by simp
    moreover have "byte_len rest = byte_len e + (if t then 1 else 0) + byte_len rest'"
      using scan_entity_text[OF s] by (simp add: len_utf8_def)
    moreover have "len_utf8 amp_char = 1" by (simp add: amp_char_def len_utf8_def)
    ultimately show ?thesis
      using True s entity_text_bytes[of e t] by simp
  qed (use 2(1) in simp)
qed simp

lemma decode_rounds_bytes: "byte_len (decode_rounds n s) \<le> byte_len s"
proof (induction n arbitrary: s)
  case (Suc n)
  show ?case
    using order_trans[OF Suc.IH[of "decode_html_entities_once s"] decode_once_bytes[of s]]
    by (simp add: Let_def)
qed simp

text \<open>The plain text of a provider's HTML is never longer than the HTML.\<close>

theorem html_to_plain_text_shrinks: "byte_len (html_to_plain_text html) \<le> byte_len html"
proof -
  have "byte_len (trim (strip_loop [] None html)) \<le> byte_len html"
    using byte_len_trim[of "strip_loop [] None html"] strip_loop_bytes[of "[]" None html] by simp
  then show ?thesis
    using byte_len_trim[of "decode_rounds 8 (trim (strip_loop [] None html))"]
      decode_rounds_bytes[of 8 "trim (strip_loop [] None html)"]
    by (simp add: html_to_plain_text_def decode_nested_html_entities_def)
qed

section \<open>Texts without markup, and escaped markup\<close>

lemma strip_loop_plain:
  assumes "lt_char \<notin> set s" and "byte_len out + byte_len s \<le> max_derived_text_bytes"
  shows "strip_loop out None s = out @ s"
  using assms
proof (induction s arbitrary: out)
  case (Cons c s)
  show ?case
  proof (cases "byte_len (out @ [c]) \<ge> max_derived_text_bytes")
    case True
    then have "byte_len s = 0" using Cons.prems(2) by (simp del: byte_len_0)
    then have "s = []" by simp
    with True Cons.prems(1) show ?thesis by simp
  next
    case False
    then show ?thesis using Cons.prems Cons.IH[of "out @ [c]"] by auto
  qed
qed simp

lemma decode_once_plain: "amp_char \<notin> set s \<Longrightarrow> decode_html_entities_once s = s"
  by (induction s) auto

lemma decode_rounds_fixed: "decode_html_entities_once s = s \<Longrightarrow> decode_rounds n s = s"
  by (cases n) simp_all

lemma decode_rounds_step:
  assumes "decode_html_entities_once s = t" and "decode_html_entities_once t = t"
  shows "decode_rounds (Suc n) s = t"
  using assms decode_rounds_fixed[OF assms(2), of n] by (simp add: Let_def)

lemma trim_unchanged:
  assumes "s = [] \<or> (\<not> is_whitespace (hd s) \<and> \<not> is_whitespace (last s))"
  shows "trim s = s"
proof (cases s)
  case (Cons c cs)
  with assms have "trim_start s = s" by (simp add: trim_start_def)
  moreover have "\<not> is_whitespace (hd (rev s))" "rev s \<noteq> []"
    using assms Cons by (simp_all add: hd_rev del: rev.simps)
  then have "dropWhile is_whitespace (rev s) = rev s"
    by (metis dropWhile.simps(2) list.collapse)
  ultimately show ?thesis by (simp add: trim_def trim_end_def)
qed (simp add: trim_def trim_start_def trim_end_def)

lemma trim_ends: "trim s = [] \<or> (\<not> is_whitespace (hd (trim s)) \<and> \<not> is_whitespace (last (trim s)))"
proof (cases "trim s = []")
  case False
  let ?t = "trim_start s" and ?d = "dropWhile is_whitespace (rev (trim_start s))"
  have d: "?d \<noteq> []" "trim s = rev ?d" using False by (auto simp: trim_def trim_end_def)
  have "\<not> is_whitespace (hd ?d)" using d(1) by (rule hd_dropWhile)
  moreover have "hd (rev ?d) = hd ?t"
  proof -
    obtain ws where ws: "rev ?t = ws @ ?d"
      using takeWhile_dropWhile_id[of is_whitespace "rev ?t"] by metis
    have "?t = rev ?d @ rev ws" using arg_cong[OF ws, of rev] by simp
    with d(1) show ?thesis by (metis hd_append2 rev_is_Nil_conv)
  qed
  moreover have "?t \<noteq> []" using d(1) by auto
  ultimately show ?thesis
    using d by (simp add: last_rev) (simp add: trim_start_def hd_dropWhile)
qed simp

lemma trim_idem [simp]: "trim (trim s) = trim s"
  by (rule trim_unchanged[OF trim_ends])

lemma set_trim: "set (trim s) \<subseteq> set s"
  by (auto simp: trim_def trim_start_def trim_end_def dest!: set_dropWhileD)

text \<open>A text without markup and entities, of at most a mebibyte, is only trimmed.\<close>

theorem html_to_plain_text_plain:
  assumes "lt_char \<notin> set s" and "amp_char \<notin> set s" and "byte_len s \<le> max_derived_text_bytes"
  shows "html_to_plain_text s = trim s"
proof -
  have "decode_html_entities_once (trim s) = trim s"
    using assms(2) set_trim[of s] by (intro decode_once_plain) auto
  then show ?thesis
    using strip_loop_plain[of s "[]"] assms
    by (simp add: html_to_plain_text_def decode_nested_html_entities_def decode_rounds_fixed)
qed

theorem html_to_plain_text_plain_witness:
  "html_to_plain_text (str '' a > b '') = str ''a > b''"
proof -
  have "html_to_plain_text (str '' a > b '') = trim (str '' a > b '')"
    by (rule html_to_plain_text_plain)
      (simp_all add: lt_char_def amp_char_def max_derived_text_bytes_def len_utf8_def)
  also have "\<dots> = str ''a > b''" by code_simp
  finally show ?thesis .
qed

text \<open>The angle brackets of a text written as entities.\<close>

definition escape_markup_char :: "rchar \<Rightarrow> rstr" where
  "escape_markup_char c =
     (if c = lt_char then str ''&lt;'' else if c = gt_char then str ''&gt;'' else [c])"

definition escape_markup :: "rstr \<Rightarrow> rstr" where
  "escape_markup s = concat (map escape_markup_char s)"

lemma escape_markup_simps [simp]:
  "escape_markup [] = []"
  "escape_markup (c # s) = escape_markup_char c @ escape_markup s"
  "escape_markup (s @ t) = escape_markup s @ escape_markup t"
  by (simp_all add: escape_markup_def)

lemma escape_no_lt: "lt_char \<notin> set (escape_markup s)"
  by (induction s) (auto simp: escape_markup_char_def markup_chars)

lemma decode_lt_gt:
  "decode_html_entity (str ''lt'') = Some lt_char" "decode_html_entity (str ''gt'') = Some gt_char"
  by code_simp+

lemma decode_escape:
  "amp_char \<notin> set s \<Longrightarrow> decode_html_entities_once (escape_markup s) = s"
proof (induction s)
  case (Cons c s)
  have "scan_entity [] (str ''lt;'' @ r) = (str ''lt'', True, r)"
    "scan_entity [] (str ''gt;'' @ r) = (str ''gt'', True, r)" for r
    by (simp_all add: entity_char_def ascii_class_defs len_utf8_def)
  then show ?case
    using Cons decode_lt_gt
    by (auto simp: escape_markup_char_def amp_char_def lt_char_def gt_char_def entity_text_def)
qed simp

lemma escape_markup_empty [simp]: "escape_markup s = [] \<longleftrightarrow> s = []"
  by (cases s) (auto simp: escape_markup_char_def)

lemma escape_markup_char_whitespace:
  "\<forall>x \<in> set (escape_markup_char c). is_whitespace x \<longleftrightarrow> is_whitespace c"
  by (auto simp: escape_markup_char_def lt_char_def gt_char_def is_whitespace_def)

lemma dropWhile_escape:
  "dropWhile is_whitespace (escape_markup s) = escape_markup (dropWhile is_whitespace s)"
proof (induction s)
  case (Cons c s)
  show ?case
  proof (cases "is_whitespace c")
    case True
    then show ?thesis
      using escape_markup_char_whitespace[of c] Cons.IH by (simp add: dropWhile_append2)
  next
    case False
    then show ?thesis
      using escape_markup_char_whitespace[of c]
      by (cases "escape_markup_char c") (auto simp: escape_markup_char_def split: if_splits)
  qed
qed simp

lemma trim_escape: "trim (escape_markup s) = escape_markup (trim s)"
proof -
  have "dropWhile is_whitespace (rev (escape_markup t)) =
      rev (escape_markup (rev (dropWhile is_whitespace (rev t))))" for t
  proof (induction t rule: rev_induct)
    case (snoc c t)
    show ?case
    proof (cases "is_whitespace c")
      case True
      then have "dropWhile is_whitespace (rev (escape_markup_char c) @ ys) =
          dropWhile is_whitespace ys" for ys
        using escape_markup_char_whitespace[of c] by (intro dropWhile_append2) simp
      with True snoc.IH show ?thesis by simp
    next
      case False
      then have "\<not> is_whitespace (hd (rev (escape_markup_char c)))" "escape_markup_char c \<noteq> []"
        by (auto simp: escape_markup_char_def is_whitespace_def)
      with False show ?thesis
        by (cases "rev (escape_markup_char c)") auto
    qed
  qed simp
  then show ?thesis
    by (simp add: trim_def trim_start_def trim_end_def dropWhile_escape)
qed

text \<open>Escaped markup reads back as the text it spells: no text can smuggle in a tag.\<close>

theorem html_to_plain_text_escape:
  assumes "amp_char \<notin> set s" and "byte_len (escape_markup s) \<le> max_derived_text_bytes"
  shows "html_to_plain_text (escape_markup s) = trim s"
proof -
  have "strip_loop [] None (escape_markup s) = escape_markup s"
    using strip_loop_plain[OF escape_no_lt, of "[]" s] assms(2) by simp
  moreover have "amp_char \<notin> set (trim s)" using assms(1) set_trim[of s] by blast
  then have "decode_rounds (Suc 7) (escape_markup (trim s)) = trim s"
    by (intro decode_rounds_step decode_escape decode_once_plain)
  ultimately show ?thesis
    by (simp add: html_to_plain_text_def decode_nested_html_entities_def trim_escape numeral_eq_Suc)
qed

theorem html_to_plain_text_escape_witness:
  "html_to_plain_text (escape_markup (str ''<b>x</b>'')) = str ''<b>x</b>''"
proof -
  have "html_to_plain_text (escape_markup (str ''<b>x</b>'')) = trim (str ''<b>x</b>'')"
    by (rule html_to_plain_text_escape)
      (simp_all add: markup_chars escape_markup_char_def max_derived_text_bytes_def len_utf8_def)
  also have "\<dots> = str ''<b>x</b>''" by code_simp
  finally show ?thesis .
qed

section \<open>Suppressed elements and line breaks\<close>

lemma strip_loop_suppressed:
  assumes "lt_char \<notin> set body" and "byte_len out < max_derived_text_bytes"
  shows "strip_loop out (Some name) (body @ rest) = strip_loop out (Some name) rest"
  using assms by (induction body) auto

lemma script_tags:
  "take_tag [] (str ''script>'' @ rest) = (str ''script'', rest)"
  "take_tag [] (str ''/script>'' @ rest) = (str ''/script'', rest)"
  by (simp_all add: gt_char_def len_utf8_def)

lemma apply_script_tags:
  "apply_tag out None (str ''script'') = (out, Some (str ''script''))"
  "apply_tag out (Some (str ''script'')) (str ''/script'') = (out, None)"
proof -
  have names: "html_tag_name (str ''script'') = (False, str ''script'')"
    "html_tag_name (str ''/script'') = (True, str ''script'')"
    by code_simp+
  show "apply_tag out None (str ''script'') = (out, Some (str ''script''))"
    "apply_tag out (Some (str ''script'')) (str ''/script'') = (out, None)"
    by (simp_all only: apply_tag_def names) simp_all
qed

text \<open>A script element leaves no trace in the text, whatever its body.\<close>

theorem html_to_plain_text_script:
  assumes "lt_char \<notin> set body"
  shows "html_to_plain_text (str ''<script>'' @ body @ str ''</script>'' @ rest) =
    html_to_plain_text rest"
proof -
  have "strip_loop [] None (lt_char # str ''script>'' @ body @ lt_char # str ''/script>'' @ rest) =
      strip_loop [] (Some (str ''script'')) (body @ lt_char # str ''/script>'' @ rest)"
    by (simp only: strip_loop.simps script_tags apply_script_tags Let_def prod.case simp_thms if_True)
  also have "\<dots> = strip_loop [] (Some (str ''script'')) (lt_char # str ''/script>'' @ rest)"
    using assms by (intro strip_loop_suppressed) (simp_all add: max_derived_text_bytes_def)
  also have "\<dots> = strip_loop [] None rest"
    by (simp only: strip_loop.simps script_tags apply_script_tags Let_def prod.case simp_thms if_True)
  finally show ?thesis
    by (simp add: html_to_plain_text_def lt_char_def)
qed

theorem html_to_plain_text_script_witness:
  "html_to_plain_text (str ''<script>alert(1)</script>ok'') = str ''ok''"
proof -
  have "html_to_plain_text (str ''<script>'' @ str ''alert(1)'' @ str ''</script>'' @ str ''ok'') =
      html_to_plain_text (str ''ok'')"
    by (rule html_to_plain_text_script) (simp add: lt_char_def)
  also have "\<dots> = str ''ok''" by code_simp
  finally show ?thesis by simp
qed

text \<open>The line breaks between two letters: the byte limit is not tested on the newlines they append.\<close>

definition line_breaks :: "nat \<Rightarrow> rstr" where
  "line_breaks n = concat (replicate n (str ''<br>''))"

lemma strip_loop_line_breaks:
  "strip_loop out None (line_breaks n @ rest) = strip_loop (out @ replicate n newline) None rest"
proof (induction n arbitrary: out)
  case (Suc n)
  have t: "take_tag [] (str ''br>'' @ r) = (str ''br'', r)" for r
    by (simp add: gt_char_def len_utf8_def)
  have "html_tag_name (str ''br'') = (False, str ''br'')" by code_simp
  then have a: "apply_tag out None (str ''br'') = (out @ [newline], None)"
    by (simp add: apply_tag_def)
  have "strip_loop out None (line_breaks (Suc n) @ rest) =
      strip_loop out None (lt_char # str ''br>'' @ line_breaks n @ rest)"
    by (simp add: line_breaks_def lt_char_def)
  also have "\<dots> = strip_loop (out @ [newline]) None (line_breaks n @ rest)"
    by (simp only: strip_loop.simps t a Let_def prod.case simp_thms if_True)
  also have "\<dots> = strip_loop (out @ replicate (Suc n) newline) None rest"
    by (simp only: Suc.IH) simp
  finally show ?case .
qed (simp add: line_breaks_def)

text \<open>The limit on derived text does not hold for line breaks: a text of \<open>n\<close> of them between two
  letters converts to \<open>n + 2\<close> bytes, however large \<open>n\<close> is.\<close>

theorem html_to_plain_text_line_breaks:
  "byte_len (html_to_plain_text (str ''x'' @ line_breaks n @ str ''y'')) = n + 2"
proof -
  let ?t = "str ''x'' @ replicate n newline @ str ''y''"
  have "strip_loop [] None (str ''x'' @ line_breaks n @ str ''y'') =
      strip_loop (str ''x'') None (line_breaks n @ str ''y'')"
    by (simp add: lt_char_def max_derived_text_bytes_def len_utf8_def)
  also have "\<dots> = ?t"
    unfolding strip_loop_line_breaks by (simp add: lt_char_def Let_def)
  finally have s: "strip_loop [] None (str ''x'' @ line_breaks n @ str ''y'') = ?t" .
  have t: "trim ?t = ?t" by (rule trim_unchanged) (simp add: is_whitespace_def)
  have "decode_html_entities_once ?t = ?t"
    by (rule decode_once_plain) (auto simp: amp_char_def newline_def)
  then have "html_to_plain_text (str ''x'' @ line_breaks n @ str ''y'') = ?t"
    by (simp only: html_to_plain_text_def s t decode_nested_html_entities_def decode_rounds_fixed)
  moreover have "byte_len (replicate n newline) = n"
    by (induction n) (simp_all add: newline_def len_utf8_def)
  ultimately show ?thesis by (simp add: len_utf8_def)
qed

end
