(* ===== verification/KqValues.thy ===== *)
theory KqValues
imports KqSyntax KqText
begin

text \<open>
  The values of KQ expressions and their operators (\<^verbatim>\<open>src/src/services/kq_evaluator.rs\<close>): Kleene's
  three truth values, scalars, sets of scalars and the unary and binary operators on values. The
  theorems: the truth values are a chain with conjunction its minimum and disjunction its maximum;
  numbers never leave the signed 64-bit range and derived texts never exceed their limit; sets never
  hold two equal scalars; the operators respect the static types of the compiler; and every operator
  is monotone in the information order, where unknown is below every value.
\<close>

section \<open>Truth values\<close>

datatype truth = TFalse | TUnknown | TTrue

definition truth_not :: "truth \<Rightarrow> truth" where
  "truth_not t = (case t of TTrue \<Rightarrow> TFalse | TFalse \<Rightarrow> TTrue | TUnknown \<Rightarrow> TUnknown)"

definition truth_and :: "truth \<Rightarrow> truth \<Rightarrow> truth" where
  "truth_and a b =
     (if a = TFalse \<or> b = TFalse then TFalse else if a = TTrue \<and> b = TTrue then TTrue else TUnknown)"

definition truth_or :: "truth \<Rightarrow> truth \<Rightarrow> truth" where
  "truth_or a b =
     (if a = TTrue \<or> b = TTrue then TTrue else if a = TFalse \<and> b = TFalse then TFalse else TUnknown)"

definition to_truth :: "bool \<Rightarrow> truth" where
  "to_truth b = (if b then TTrue else TFalse)"

lemmas truth_defs = truth_not_def truth_and_def truth_or_def to_truth_def

lemma to_truth_simps [simp]:
  "to_truth b = TTrue \<longleftrightarrow> b" "to_truth b = TFalse \<longleftrightarrow> \<not> b" "to_truth b \<noteq> TUnknown"
  "to_truth b = to_truth c \<longleftrightarrow> b = c"
  by (simp_all add: to_truth_def)

text \<open>False below unknown below true.\<close>

instantiation truth :: linorder
begin

fun truth_rank :: "truth \<Rightarrow> nat" where
  "truth_rank TFalse = 0"
| "truth_rank TUnknown = 1"
| "truth_rank TTrue = 2"

definition less_eq_truth :: "truth \<Rightarrow> truth \<Rightarrow> bool" where
  "less_eq_truth a b \<longleftrightarrow> truth_rank a \<le> truth_rank b"

definition less_truth :: "truth \<Rightarrow> truth \<Rightarrow> bool" where
  "less_truth a b \<longleftrightarrow> truth_rank a < truth_rank b"

instance
proof
  fix a b :: truth
  show "a \<le> b \<Longrightarrow> b \<le> a \<Longrightarrow> a = b"
    by (cases a; cases b) (simp_all add: less_eq_truth_def)
qed (auto simp: less_eq_truth_def less_truth_def)

end

lemma truth_and_min: "truth_and a b = min a b"
  by (cases a; cases b) (simp_all add: truth_and_def min_def less_eq_truth_def)

lemma truth_or_max: "truth_or a b = max a b"
  by (cases a; cases b) (simp_all add: truth_or_def max_def less_eq_truth_def)

lemma truth_not_antimono: "truth_not a \<le> truth_not b \<longleftrightarrow> b \<le> a"
  by (cases a; cases b) (simp_all add: truth_not_def less_eq_truth_def)

text \<open>Conjunction and disjunction are the minimum and maximum of the chain of truth values, and
  negation turns the chain round: De Morgan, distribution and absorption follow.\<close>

theorem kleene_lattice:
  "truth_and a b = min a b \<and> truth_or a b = max a b \<and>
   truth_not (truth_and a b) = truth_or (truth_not a) (truth_not b) \<and>
   truth_not (truth_not a) = a \<and>
   truth_and a (truth_or b c) = truth_or (truth_and a b) (truth_and a c)"
  unfolding truth_and_min truth_or_max
  by (cases a; cases b; cases c) (simp_all add: truth_not_def min_def max_def less_eq_truth_def)

section \<open>Folding and selectors\<close>

text \<open>\<^verbatim>\<open>fold\<close>.\<close>

definition fold_text :: "lib \<Rightarrow> rstr \<Rightarrow> rstr" where
  "fold_text L s = lib_nfkc L (lib_fold_string L (lib_nfkc L s))"

definition selector_equal :: "lib \<Rightarrow> rstr \<Rightarrow> rstr \<Rightarrow> bool" where
  "selector_equal L left right \<longleftrightarrow>
     fold_text L (trim_start_matches (chr CHR ''@'') (trim left)) =
     fold_text L (trim_start_matches (chr CHR ''@'') (trim right))"

definition identity_equal :: "rstr \<Rightarrow> rstr \<Rightarrow> bool" where
  "identity_equal left right \<longleftrightarrow> left = right"

definition insensitive_contains :: "lib \<Rightarrow> rstr \<Rightarrow> rstr \<Rightarrow> bool" where
  "insensitive_contains L haystack needle \<longleftrightarrow>
     str_contains (fold_text L haystack) (fold_text L needle)"

lemma selector_equal_equiv:
  "selector_equal L a a"
  "selector_equal L a b \<Longrightarrow> selector_equal L b a"
  "selector_equal L a b \<Longrightarrow> selector_equal L b c \<Longrightarrow> selector_equal L a c"
  by (simp_all add: selector_equal_def)

section \<open>Values\<close>

datatype scalar_value = SNumber int | SText rstr | SIdentity rstr

datatype val =
  VUnknown
| VBool truth
| VNumber int
| VText rstr bool
| VIdentity rstr
| VSet "scalar_value list"

definition boolean :: "bool \<Rightarrow> val" where
  "boolean b = VBool (to_truth b)"

definition text_value :: "rstr \<Rightarrow> val" where
  "text_value s = VText s False"

definition value_truth :: "val \<Rightarrow> truth" where
  "value_truth v = (case v of VBool t \<Rightarrow> t | _ \<Rightarrow> TUnknown)"

definition into_scalar :: "val \<Rightarrow> scalar_value option" where
  "into_scalar v =
     (case v of
        VNumber n \<Rightarrow> Some (SNumber n)
      | VText s caseful \<Rightarrow> Some (SText s)
      | VIdentity s \<Rightarrow> Some (SIdentity s)
      | _ \<Rightarrow> None)"

definition text_parts :: "val \<Rightarrow> (rstr \<times> bool) option" where
  "text_parts v =
     (case v of VText s caseful \<Rightarrow> Some (s, caseful) | VIdentity s \<Rightarrow> Some (s, False) | _ \<Rightarrow> None)"

definition text_equal :: "lib \<Rightarrow> rstr \<Rightarrow> rstr \<Rightarrow> bool \<Rightarrow> bool" where
  "text_equal L left right caseful \<longleftrightarrow>
     (if caseful then left = right else fold_text L left = fold_text L right)"

definition scalar_equal :: "lib \<Rightarrow> scalar_value \<Rightarrow> scalar_value \<Rightarrow> bool" where
  "scalar_equal L left right \<longleftrightarrow>
     (case (left, right) of
        (SNumber a, SNumber b) \<Rightarrow> a = b
      | (SText a, SText b) \<Rightarrow> selector_equal L a b
      | (SIdentity a, SIdentity b) \<Rightarrow> identity_equal a b
      | (SIdentity a, SText b) \<Rightarrow> identity_equal a b
      | (SText b, SIdentity a) \<Rightarrow> identity_equal a b
      | (SIdentity a, SNumber n) \<Rightarrow> a = int_to_string n
      | (SNumber n, SIdentity a) \<Rightarrow> a = int_to_string n
      | (SText _, SNumber _) \<Rightarrow> False
      | (SNumber _, SText _) \<Rightarrow> False)"

lemma scalar_equal_refl: "scalar_equal L a a"
  by (cases a) (simp_all add: scalar_equal_def identity_equal_def selector_equal_equiv)

lemma scalar_equal_sym: "scalar_equal L a b \<longleftrightarrow> scalar_equal L b a"
  by (cases a; cases b) (auto simp: scalar_equal_def identity_equal_def intro: selector_equal_equiv)

definition push_unique_scalar :: "lib \<Rightarrow> scalar_value list \<Rightarrow> scalar_value \<Rightarrow> scalar_value list" where
  "push_unique_scalar L vals v = push_unless (scalar_equal L) vals v"

fun push_all_unique :: "lib \<Rightarrow> scalar_value list \<Rightarrow> scalar_value list \<Rightarrow> scalar_value list" where
  "push_all_unique L vals [] = vals"
| "push_all_unique L vals (v # vs) = push_all_unique L (push_unique_scalar L vals v) vs"

section \<open>Operators\<close>

definition eval_unary :: "unary_op \<Rightarrow> val \<Rightarrow> val" where
  "eval_unary op v =
     (case op of
        UNot \<Rightarrow> VBool (truth_not (value_truth v))
      | UNegate \<Rightarrow>
          (case v of
             VNumber n \<Rightarrow> (case checked_neg n of Some m \<Rightarrow> VNumber m | None \<Rightarrow> VUnknown)
           | _ \<Rightarrow> VUnknown)
      | UCaseful \<Rightarrow> (case v of VText s caseful \<Rightarrow> VText s True | _ \<Rightarrow> VUnknown))"

definition equal_values :: "lib \<Rightarrow> val \<Rightarrow> val \<Rightarrow> truth" where
  "equal_values L left right =
     (case (left, right) of
        (VBool a, VBool b) \<Rightarrow> if a = TUnknown \<or> b = TUnknown then TUnknown else to_truth (a = b)
      | (VNumber a, VNumber b) \<Rightarrow> to_truth (a = b)
      | (VText a ca, VText b cb) \<Rightarrow> to_truth (text_equal L a b (ca \<or> cb))
      | (VIdentity a, VIdentity b) \<Rightarrow> to_truth (identity_equal a b)
      | (VIdentity a, VText b cb) \<Rightarrow> to_truth (identity_equal a b)
      | (VText b cb, VIdentity a) \<Rightarrow> to_truth (identity_equal a b)
      | (VIdentity a, VNumber n) \<Rightarrow> to_truth (a = int_to_string n)
      | (VNumber n, VIdentity a) \<Rightarrow> to_truth (a = int_to_string n)
      | _ \<Rightarrow> TUnknown)"

definition compare_numbers :: "(int \<Rightarrow> int \<Rightarrow> bool) \<Rightarrow> val \<Rightarrow> val \<Rightarrow> val" where
  "compare_numbers compare left right =
     (case (left, right) of
        (VNumber a, VNumber b) \<Rightarrow> boolean (compare a b)
      | _ \<Rightarrow> VBool TUnknown)"

definition compare_text :: "lib \<Rightarrow> (rstr \<Rightarrow> rstr \<Rightarrow> bool) \<Rightarrow> val \<Rightarrow> val \<Rightarrow> val" where
  "compare_text L compare left right =
     (case (text_parts left, text_parts right) of
        (Some (a, ca), Some (b, cb)) \<Rightarrow>
          if ca \<or> cb then boolean (compare a b)
          else boolean (compare (fold_text L a) (fold_text L b))
      | _ \<Rightarrow> VBool TUnknown)"

definition contains_value :: "lib \<Rightarrow> val \<Rightarrow> val \<Rightarrow> val" where
  "contains_value L left right =
     (if left = VUnknown \<or> right = VUnknown then VBool TUnknown
      else if text_parts left \<noteq> None \<and> text_parts right \<noteq> None then
        compare_text L str_contains left right
      else case left of
        VSet vals \<Rightarrow>
          (case right of
             VSet wanted \<Rightarrow> boolean (\<exists>c \<in> set vals. \<exists>item \<in> set wanted. scalar_equal L c item)
           | _ \<Rightarrow>
               (case into_scalar right of
                  None \<Rightarrow> VBool TUnknown
                | Some wanted \<Rightarrow> boolean (\<exists>c \<in> set vals. scalar_equal L c wanted)))
      | _ \<Rightarrow> VBool TUnknown)"

definition is_in :: "lib \<Rightarrow> val \<Rightarrow> val \<Rightarrow> val" where
  "is_in L left right =
     (if left = VUnknown \<or> right = VUnknown then VBool TUnknown
      else case right of
        VSet vals \<Rightarrow>
          (case left of
             VSet wanted \<Rightarrow> boolean (\<exists>c \<in> set wanted. \<exists>item \<in> set vals. scalar_equal L c item)
           | _ \<Rightarrow>
               (case into_scalar left of
                  None \<Rightarrow> VBool TUnknown
                | Some wanted \<Rightarrow> boolean (\<exists>c \<in> set vals. scalar_equal L c wanted)))
      | _ \<Rightarrow> VBool TUnknown)"

definition number_or_unknown :: "int option \<Rightarrow> val" where
  "number_or_unknown r = (case r of Some n \<Rightarrow> VNumber n | None \<Rightarrow> VUnknown)"

definition add_values :: "lib \<Rightarrow> val \<Rightarrow> val \<Rightarrow> val" where
  "add_values L left right =
     (case (left, right) of
        (VNumber a, VNumber b) \<Rightarrow> number_or_unknown (checked_add a b)
      | (VText a ca, VText b cb) \<Rightarrow>
          if byte_len a + byte_len b > max_derived_text_bytes then VUnknown
          else VText (a @ b) (ca \<or> cb)
      | (VSet a, VSet b) \<Rightarrow> VSet (push_all_unique L a b)
      | _ \<Rightarrow> VUnknown)"

definition subtract_values :: "lib \<Rightarrow> val \<Rightarrow> val \<Rightarrow> val" where
  "subtract_values L left right =
     (case (left, right) of
        (VNumber a, VNumber b) \<Rightarrow> number_or_unknown (checked_sub a b)
      | (VSet a, VSet b) \<Rightarrow> VSet (filter (\<lambda>c. \<not> (\<exists>item \<in> set b. scalar_equal L c item)) a)
      | _ \<Rightarrow> VUnknown)"

definition multiply_values :: "lib \<Rightarrow> val \<Rightarrow> val \<Rightarrow> val" where
  "multiply_values L left right =
     (case (left, right) of
        (VNumber a, VNumber b) \<Rightarrow> number_or_unknown (checked_mul a b)
      | (VSet a, VSet b) \<Rightarrow> VSet (filter (\<lambda>c. \<exists>item \<in> set b. scalar_equal L c item) a)
      | _ \<Rightarrow> VUnknown)"

definition divide_values :: "val \<Rightarrow> val \<Rightarrow> val" where
  "divide_values left right =
     (case (left, right) of
        (VNumber a, VNumber b) \<Rightarrow> number_or_unknown (checked_div a b)
      | _ \<Rightarrow> VUnknown)"

text \<open>The strict operators of \<^verbatim>\<open>eval_binary\<close>, all but the two connectives and the regular expression
  match.\<close>

definition strict_binary :: "lib \<Rightarrow> binary_op \<Rightarrow> val \<Rightarrow> val \<Rightarrow> val" where
  "strict_binary L op left right =
     (case op of
        BEqual \<Rightarrow> VBool (equal_values L left right)
      | BNotEqual \<Rightarrow> VBool (truth_not (equal_values L left right))
      | BLess \<Rightarrow> compare_numbers (<) left right
      | BLessEqual \<Rightarrow> compare_numbers (\<le>) left right
      | BGreater \<Rightarrow> compare_numbers (>) left right
      | BGreaterEqual \<Rightarrow> compare_numbers (\<ge>) left right
      | BStartsWith \<Rightarrow> compare_text L starts_with left right
      | BEndsWith \<Rightarrow> compare_text L ends_with left right
      | BContains \<Rightarrow> contains_value L left right
      | BIn \<Rightarrow> is_in L left right
      | BAdd \<Rightarrow> add_values L left right
      | BSubtract \<Rightarrow> subtract_values L left right
      | BMultiply \<Rightarrow> multiply_values L left right
      | BDivide \<Rightarrow> divide_values left right
      | _ \<Rightarrow> VUnknown)"

section \<open>Well-formed values\<close>

fun scalar_ok :: "scalar_value \<Rightarrow> bool" where
  "scalar_ok (SNumber n) \<longleftrightarrow> in_i64 n"
| "scalar_ok _ \<longleftrightarrow> True"

definition set_ok :: "lib \<Rightarrow> scalar_value list \<Rightarrow> bool" where
  "set_ok L vs \<longleftrightarrow> (\<forall>v \<in> set vs. scalar_ok v) \<and> sorted_wrt (\<lambda>a b. \<not> scalar_equal L a b) vs"

fun val_ok :: "lib \<Rightarrow> val \<Rightarrow> bool" where
  "val_ok L (VNumber n) \<longleftrightarrow> in_i64 n"
| "val_ok L (VSet vs) \<longleftrightarrow> set_ok L vs"
| "val_ok L _ \<longleftrightarrow> True"

lemma push_unique_scalar_ok:
  "set_ok L vs \<Longrightarrow> scalar_ok v \<Longrightarrow> set_ok L (push_unique_scalar L vs v)"
  by (auto simp: set_ok_def push_unique_scalar_def push_unless_def sorted_wrt_append)

lemma push_all_unique_ok:
  "set_ok L vs \<Longrightarrow> \<forall>w \<in> set ws. scalar_ok w \<Longrightarrow> set_ok L (push_all_unique L vs ws)"
  by (induction L vs ws rule: push_all_unique.induct) (auto intro: push_unique_scalar_ok)

lemma set_ok_filter: "set_ok L vs \<Longrightarrow> set_ok L (filter P vs)"
  by (auto simp: set_ok_def sorted_wrt_filter)

lemma set_ok_scalar: "set_ok L vs \<Longrightarrow> v \<in> set vs \<Longrightarrow> scalar_ok v"
  by (simp add: set_ok_def)

lemma set_ok_Nil [simp]: "set_ok L []"
  by (simp add: set_ok_def)

lemma boolean_ok [simp]: "val_ok L (boolean b)" "val_ok L (text_value s)"
  by (simp_all add: boolean_def text_value_def)

lemma number_or_unknown_ok:
  "val_ok L (number_or_unknown (checked_add a b))"
  "val_ok L (number_or_unknown (checked_sub a b))"
  "val_ok L (number_or_unknown (checked_mul a b))"
  "val_ok L (number_or_unknown (checked_div a b))"
  by (auto simp: number_or_unknown_def dest: checked_in_i64 split: option.splits)

lemma eval_unary_ok: "val_ok L v \<Longrightarrow> val_ok L (eval_unary op v)"
  by (cases op; cases v) (auto simp: eval_unary_def dest: checked_in_i64 split: option.splits)

lemma compare_ok:
  "val_ok L (compare_numbers f a b)" "val_ok L (compare_text L g a b)"
  "val_ok L (contains_value L a b)" "val_ok L (is_in L a b)"
  by (auto simp: compare_numbers_def compare_text_def contains_value_def is_in_def
      split: val.splits option.splits prod.splits)

lemma arithmetic_ok:
  assumes "val_ok L a" and "val_ok L b"
  shows "val_ok L (add_values L a b)" "val_ok L (subtract_values L a b)"
    "val_ok L (multiply_values L a b)" "val_ok L (divide_values a b)"
  using assms
  by (auto simp: add_values_def subtract_values_def multiply_values_def divide_values_def
      number_or_unknown_ok dest: set_ok_scalar
      intro!: push_all_unique_ok set_ok_filter split: val.splits)

lemma strict_binary_ok: "val_ok L a \<Longrightarrow> val_ok L b \<Longrightarrow> val_ok L (strict_binary L op a b)"
  by (cases op) (simp_all add: strict_binary_def compare_ok arithmetic_ok)

text \<open>The operators keep values well-formed: numbers stay in the signed 64-bit range, an overflow
  or a division by zero gives unknown, and sets keep pairwise unequal elements.\<close>

theorem operators_well_formed:
  assumes "val_ok L a" and "val_ok L b"
  shows "val_ok L (strict_binary L op a b) \<and> val_ok L (eval_unary uop a)"
  using strict_binary_ok[OF assms] eval_unary_ok[OF assms(1)] by simp

theorem operators_well_formed_witness:
  "val_ok ascii_lib (strict_binary ascii_lib BAdd (VNumber i64_max) (VNumber 1)) \<and>
   val_ok ascii_lib (eval_unary UNegate (VNumber i64_max))"
  by (rule operators_well_formed) (simp_all add: i64_defs)

text \<open>Division truncates towards zero and is the exact quotient whenever it is known; it is unknown
  only for a zero divisor and for the quotient that overflows.\<close>

theorem division_truncates:
  assumes "in_i64 a" and "in_i64 b"
  shows "(b = 0 \<or> (a = i64_min \<and> b = -1) \<longrightarrow> divide_values (VNumber a) (VNumber b) = VUnknown) \<and>
    (\<not> (b = 0 \<or> (a = i64_min \<and> b = -1)) \<longrightarrow>
       (\<exists>q. divide_values (VNumber a) (VNumber b) = VNumber q \<and> \<bar>a - q * b\<bar> < \<bar>b\<bar> \<and>
          (a - q * b = 0 \<or> sgn (a - q * b) = sgn a)))"
proof (cases "b = 0")
  case True
  then show ?thesis by (simp add: divide_values_def checked_div_def number_or_unknown_def)
next
  case b: False
  let ?q = "trunc_div a b" and ?d = "\<bar>a\<bar> div \<bar>b\<bar>" and ?m = "\<bar>a\<bar> mod \<bar>b\<bar>"
  have m: "0 \<le> ?m" "?m < \<bar>b\<bar>" using b by simp_all
  have d: "0 \<le> ?d" "\<bar>a\<bar> = \<bar>b\<bar> * ?d + ?m"
    using b by (simp_all add: pos_imp_zdiv_nonneg_iff)
  have "?q * b = sgn a * (\<bar>b\<bar> * ?d)"
    using b by (simp add: trunc_div_def abs_sgn[of b] algebra_simps)
  moreover have "a = sgn a * \<bar>a\<bar>" by (simp add: mult_sgn_abs)
  ultimately have r: "a - ?q * b = sgn a * ?m"
    using d(2) by (metis add_diff_cancel_left' distrib_left)
  have exact: "\<bar>a - ?q * b\<bar> < \<bar>b\<bar> \<and> (a - ?q * b = 0 \<or> sgn (a - ?q * b) = sgn a)"
    unfolding r using m by (cases "a = 0"; cases "?m = 0") (auto simp: abs_mult sgn_mult)
  have "?d \<le> \<bar>a\<bar>" using zdiv_mono2[of "\<bar>a\<bar>" 1 "\<bar>b\<bar>"] b by simp
  show ?thesis
  proof (cases "a = i64_min \<and> b = -1")
    case True
    then show ?thesis
      by (simp add: divide_values_def checked_div_def number_or_unknown_def trunc_div_def to_i64_def
          i64_defs)
  next
    case False
    have q: "\<bar>?q\<bar> \<le> ?d"
      using d(1) by (simp add: trunc_div_def abs_mult abs_sgn_eq)
    have "in_i64 ?q"
    proof (cases "a = i64_min")
      case a: True
      show ?thesis
      proof (cases "b = 1")
        case True
        then show ?thesis using assms(1) by (simp add: trunc_div_def mult_sgn_abs)
      next
        case b1: False
        then have "2 \<le> \<bar>b\<bar>" using False a b by linarith
        then have "?d \<le> \<bar>a\<bar> div 2" by (intro zdiv_mono2) auto
        with q have "\<bar>?q\<bar> \<le> \<bar>a\<bar> div 2" by linarith
        then show ?thesis by (simp add: a i64_defs abs_le_iff)
      qed
    next
      case False
      then have "\<bar>a\<bar> \<le> i64_max" using assms(1) by (auto simp: i64_defs)
      then show ?thesis using q \<open>?d \<le> \<bar>a\<bar>\<close> by (auto simp: i64_defs)
    qed
    then show ?thesis
      using exact b False
      by (simp add: divide_values_def checked_div_def number_or_unknown_def to_i64_def)
  qed
qed

theorem division_truncates_witness:
  "\<exists>q. divide_values (VNumber (-7)) (VNumber 2) = VNumber q \<and> \<bar>-7 - q * 2\<bar> < 2 \<and>
     (-7 - q * 2 = 0 \<or> sgn (-7 - q * 2) = -1)"
  using division_truncates[of "-7" 2] by (simp add: i64_defs)

section \<open>Static types\<close>

text \<open>A value agrees with a type mask; unknown agrees with every mask.\<close>

fun has_type :: "val \<Rightarrow> value_types \<Rightarrow> bool" where
  "has_type VUnknown t \<longleftrightarrow> True"
| "has_type (VBool _) t \<longleftrightarrow> t = ty_bool"
| "has_type (VNumber _) t \<longleftrightarrow> t = ty_number"
| "has_type (VText _ _) t \<longleftrightarrow> t = ty_text"
| "has_type (VIdentity _) t \<longleftrightarrow> t = ty_identity"
| "has_type (VSet _) t \<longleftrightarrow> t = ty_set"

lemma boolean_type [simp]: "has_type (boolean b) t \<longleftrightarrow> t = ty_bool"
  "has_type (text_value s) t \<longleftrightarrow> t = ty_text"
  by (simp_all add: boolean_def text_value_def)

definition arithmetic_ops :: "binary_op set" where
  "arithmetic_ops = {BAdd, BSubtract, BMultiply, BDivide}"

text \<open>The type rule on single bits: an arithmetic operator works within one type, any other gives a
  truth value.\<close>

lemma binary_result_cases:
  assumes "a \<in> set basic_types" and "b \<in> set basic_types" and "binary_result_types op a b = Some t"
  shows "if op \<in> arithmetic_ops then a = b \<and> t = a \<and> t \<in> {ty_number, ty_text, ty_set}
    else t = ty_bool"
proof (cases op)
qed (use assms in \<open>auto simp: basic_types_def binary_result_types_def intersects_def ty_defs Let_def
       arithmetic_ops_def split: if_splits\<close>)

lemma compare_type:
  "has_type (compare_numbers f a b) ty_bool" "has_type (compare_text L g a b) ty_bool"
  "has_type (contains_value L a b) ty_bool" "has_type (is_in L a b) ty_bool"
  by (auto simp: compare_numbers_def compare_text_def contains_value_def is_in_def
      split: val.splits option.splits prod.splits)

lemma number_or_unknown_type: "has_type (number_or_unknown r) ty_number"
  by (auto simp: number_or_unknown_def split: option.splits)

lemma arithmetic_type:
  assumes "has_type a t" and "has_type b t"
  shows "has_type (add_values L a b) t" "has_type (subtract_values L a b) t"
    "has_type (multiply_values L a b) t" "has_type (divide_values a b) t"
  using assms
  by (auto simp: add_values_def subtract_values_def multiply_values_def divide_values_def
      number_or_unknown_type split: val.splits)

lemma strict_binary_type:
  assumes "ta \<in> set basic_types" and "tb \<in> set basic_types"
    and "binary_result_types op ta tb = Some t" and "has_type a ta" and "has_type b tb"
  shows "has_type (strict_binary L op a b) t"
  using binary_result_cases[OF assms(1-3)] assms(4,5)
  by (cases op) (simp_all add: strict_binary_def compare_type arithmetic_type arithmetic_ops_def)

section \<open>The information order\<close>

text \<open>Unknown is below every value, the unknown truth value below the two known ones.\<close>

definition truth_info :: "truth \<Rightarrow> truth \<Rightarrow> bool" where
  "truth_info a b \<longleftrightarrow> a = TUnknown \<or> a = b"

fun info_le :: "val \<Rightarrow> val \<Rightarrow> bool" where
  "info_le VUnknown v \<longleftrightarrow> True"
| "info_le (VBool a) v \<longleftrightarrow> (\<exists>b. v = VBool b \<and> truth_info a b)"
| "info_le u v \<longleftrightarrow> u = v"

lemma info_le_refl [simp]: "info_le v v"
  by (cases v) (auto simp: truth_info_def)

lemma truth_info_refl [simp]: "truth_info t t" "truth_info TUnknown t"
  by (simp_all add: truth_info_def)

lemma info_le_unknown [simp]: "info_le u VUnknown \<longleftrightarrow> u = VUnknown"
  by (cases u) auto

lemma info_le_bool: "info_le u (VBool b) \<longleftrightarrow> u = VUnknown \<or> (\<exists>a. u = VBool a \<and> truth_info a b)"
  by (cases u) auto

text \<open>A value below another one is unknown, an undecided truth value, or the same value.\<close>

lemma info_le_cases:
  "info_le u v \<longleftrightarrow> u = VUnknown \<or> (u = VBool TUnknown \<and> (\<exists>t. v = VBool t)) \<or> u = v"
  by (cases u) (auto simp: truth_info_def)

lemma value_truth_mono: "info_le u v \<Longrightarrow> truth_info (value_truth u) (value_truth v)"
  by (auto simp: info_le_cases value_truth_def)

lemma truth_connectives_mono:
  "truth_info a a' \<Longrightarrow> truth_info b b' \<Longrightarrow> truth_info (truth_and a b) (truth_and a' b')"
  "truth_info a a' \<Longrightarrow> truth_info b b' \<Longrightarrow> truth_info (truth_or a b) (truth_or a' b')"
  "truth_info a a' \<Longrightarrow> truth_info (truth_not a) (truth_not a')"
  by (auto simp: truth_info_def truth_defs split: truth.splits)

lemma eval_unary_mono: "info_le u v \<Longrightarrow> info_le (eval_unary op u) (eval_unary op v)"
  using truth_connectives_mono(3)[OF value_truth_mono]
  by (cases op) (auto simp: eval_unary_def, auto simp: info_le_cases)

text \<open>Where an operand is not known, a strict operator gives the least value of its result type.\<close>

definition undecided :: "val \<Rightarrow> bool" where
  "undecided v \<longleftrightarrow> v = VUnknown \<or> v = VBool TUnknown"

lemma strict_binary_undecided:
  assumes "undecided a \<or> undecided b"
  shows "undecided (strict_binary L op a b)"
proof -
  have "equal_values L a b = TUnknown"
    using assms by (auto simp: undecided_def equal_values_def split: val.splits)
  then show ?thesis
    using assms
    by (cases op) (auto simp: undecided_def strict_binary_def truth_not_def compare_numbers_def
        compare_text_def contains_value_def is_in_def add_values_def subtract_values_def
        multiply_values_def divide_values_def text_parts_def into_scalar_def
        split: val.splits option.splits)
qed

lemma compare_shape:
  "\<exists>t. compare_numbers f a b = VBool t" "\<exists>t. compare_text L g a b = VBool t"
  "\<exists>t. contains_value L a b = VBool t" "\<exists>t. is_in L a b = VBool t"
  by (auto simp: compare_numbers_def compare_text_def contains_value_def is_in_def boolean_def
      split: val.splits option.splits prod.splits)

lemma arithmetic_shape:
  "add_values L a b \<noteq> VBool t" "subtract_values L a b \<noteq> VBool t"
  "multiply_values L a b \<noteq> VBool t" "divide_values a b \<noteq> VBool t"
  by (auto simp: add_values_def subtract_values_def multiply_values_def divide_values_def
      number_or_unknown_def split: val.splits option.splits)

definition truth_ops :: "binary_op set" where
  "truth_ops = - (arithmetic_ops \<union> {BAnd, BOr, BRegex})"

lemma strict_binary_shape: "(\<exists>t. strict_binary L op a b = VBool t) \<longleftrightarrow> op \<in> truth_ops"
  by (cases op) (simp_all add: strict_binary_def compare_shape arithmetic_shape truth_ops_def
      arithmetic_ops_def)

lemma strict_binary_mono:
  assumes "info_le a a'" and "info_le b b'"
  shows "info_le (strict_binary L op a b) (strict_binary L op a' b')"
proof (cases "a = a' \<and> b = b'")
  case False
  then have "undecided a \<or> undecided b"
    using assms by (auto simp: info_le_cases undecided_def)
  from strict_binary_undecided[OF this, of L op] show ?thesis
    using strict_binary_shape[of L op a b] strict_binary_shape[of L op a' b']
    by (auto simp: undecided_def info_le_cases)
qed simp

text \<open>Every operator is monotone in the information order: a result that is decided on partly
  unknown operands is not revised when the operands become known.\<close>

theorem operators_monotone:
  assumes "info_le a a'" and "info_le b b'"
  shows "info_le (strict_binary L op a b) (strict_binary L op a' b') \<and>
    info_le (eval_unary uop a) (eval_unary uop a') \<and>
    truth_info (truth_and (value_truth a) (value_truth b)) (truth_and (value_truth a') (value_truth b')) \<and>
    truth_info (truth_or (value_truth a) (value_truth b)) (truth_or (value_truth a') (value_truth b'))"
  using strict_binary_mono[OF assms] eval_unary_mono[OF assms(1)]
    truth_connectives_mono(1,2)[OF value_truth_mono[OF assms(1)] value_truth_mono[OF assms(2)]]
  by simp

theorem operators_monotone_witness:
  "info_le (strict_binary ascii_lib BAdd VUnknown (VNumber 1))
     (strict_binary ascii_lib BAdd (VNumber 2) (VNumber 1)) \<and>
   info_le (eval_unary UNegate VUnknown) (eval_unary UNegate (VNumber 2)) \<and>
   truth_info (truth_and (value_truth VUnknown) (value_truth (VNumber 1)))
     (truth_and (value_truth (VNumber 2)) (value_truth (VNumber 1))) \<and>
   truth_info (truth_or (value_truth VUnknown) (value_truth (VNumber 1)))
     (truth_or (value_truth (VNumber 2)) (value_truth (VNumber 1)))"
  by (rule operators_monotone) simp_all

section \<open>Membership\<close>

text \<open>\<open>in\<close> is \<open>contains\<close> with its operands swapped, wherever the right operand is a set.\<close>

theorem in_is_flipped_contains: "is_in L v (VSet vs) = contains_value L (VSet vs) v"
proof (cases v)
  case (VSet ws)
  have "(\<exists>c \<in> set ws. \<exists>item \<in> set vs. scalar_equal L c item) \<longleftrightarrow>
      (\<exists>c \<in> set vs. \<exists>item \<in> set ws. scalar_equal L c item)"
    using scalar_equal_sym by blast
  with VSet show ?thesis by (simp add: is_in_def contains_value_def text_parts_def)
qed (simp_all add: is_in_def contains_value_def text_parts_def into_scalar_def)

text \<open>Set difference and intersection split a set, and the elements of a union are those of the left
  set and the elements of the right one that equal none kept before.\<close>

theorem set_operators:
  "\<exists>d i u. subtract_values L (VSet a) (VSet b) = VSet d \<and> multiply_values L (VSet a) (VSet b) = VSet i \<and>
     add_values L (VSet a) (VSet b) = VSet u \<and>
     set a = set d \<union> set i \<and> set d \<inter> set i = {} \<and>
     (\<forall>x \<in> set i. \<exists>y \<in> set b. scalar_equal L x y) \<and> (\<forall>x \<in> set d. \<forall>y \<in> set b. \<not> scalar_equal L x y) \<and>
     (\<exists>new. u = a @ new \<and> set new \<subseteq> set b) \<and> (\<forall>y \<in> set b. \<exists>x \<in> set u. scalar_equal L x y)"
proof -
  have push: "\<exists>new. push_all_unique L vs ws = vs @ new \<and> set new \<subseteq> set ws" for vs ws
  proof (induction L vs ws rule: push_all_unique.induct)
    case (2 L vs w ws)
    then obtain new where "push_all_unique L (push_unique_scalar L vs w) ws =
        push_unique_scalar L vs w @ new" "set new \<subseteq> set ws" by blast
    then show ?case by (auto simp: push_unique_scalar_def push_unless_def)
  qed simp
  have keep: "set vs \<subseteq> set (push_all_unique L vs ws)" for vs ws
    using push[of vs ws] by auto
  have covers: "\<forall>y \<in> set ws. \<exists>x \<in> set (push_all_unique L vs ws). scalar_equal L x y" for vs ws
  proof (induction ws arbitrary: vs)
    case (Cons w ws)
    have "\<exists>x \<in> set (push_unique_scalar L vs w). scalar_equal L x w"
      using scalar_equal_refl by (auto simp: push_unique_scalar_def push_unless_def)
    then show ?case using Cons keep[of "push_unique_scalar L vs w" ws] by auto
  qed simp
  obtain new where new: "push_all_unique L a b = a @ new" "set new \<subseteq> set b"
    using push by blast
  then have "\<forall>y \<in> set b. \<exists>x \<in> set (a @ new). scalar_equal L x y"
    using covers[of b a] by simp
  with new show ?thesis
    by (intro exI[of _ "filter (\<lambda>c. \<not> (\<exists>item \<in> set b. scalar_equal L c item)) a"]
        exI[of _ "filter (\<lambda>c. \<exists>item \<in> set b. scalar_equal L c item) a"] exI[of _ "a @ new"])
      (auto simp: subtract_values_def multiply_values_def add_values_def)
qed

theorem set_operators_witness:
  "\<exists>d i. subtract_values ascii_lib (VSet [SNumber 1, SNumber 2]) (VSet [SNumber 2]) = VSet d \<and>
     multiply_values ascii_lib (VSet [SNumber 1, SNumber 2]) (VSet [SNumber 2]) = VSet i \<and>
     {SNumber 1, SNumber 2} = set d \<union> set i \<and> set d \<inter> set i = {}"
  using set_operators[of ascii_lib "[SNumber 1, SNumber 2]" "[SNumber 2]"] by auto

end
