(* ===== verification/KqContext.thy ===== *)
theory KqContext
imports KqValues
begin

text \<open>
  What a KQ expression is evaluated in: the cached rows of one timeline entry, the login accounts,
  the timeline memberships and the viewer states (\<^verbatim>\<open>EvaluationContext\<close> of
  \<^verbatim>\<open>src/src/services/kq_filter.rs\<close>), the source branches an entry matches and the field values
  (\<^verbatim>\<open>src/src/services/kq_evaluator.rs\<close>). The third-party functions are the argument \<open>L\<close>. The lemmas
  show that field values are well-formed and agree with the compiler's static type of the field,
  and which parts of the context each source and field depends on.
\<close>

section \<open>Contexts\<close>

record timeline_membership =
  tm_account_acct :: rstr
  tm_timeline_type :: rstr
  tm_parameter :: "rstr option"

record status_key =
  sk_server_domain :: rstr
  sk_id :: rstr

record login_account_identity =
  la_acct :: rstr
  la_server_domain :: rstr
  la_account_id :: rstr
  la_display_name :: rstr
  la_server_kind :: rstr
  la_is_active :: bool

record status_view =
  sv_status :: db_status
  sv_account :: "db_account option"

record evaluation_context =
  ec_wrapper :: status_view
  ec_effective :: "status_view option"
  ec_quote :: "status_view option"
  ec_login_accounts :: "login_account_identity list"
  ec_memberships :: "timeline_membership list"
  ec_viewer_states :: "db_status_viewer_state list"
  ec_conversation_keys :: "status_key list"

type_synonym ctx = evaluation_context

definition new_context :: "status_view \<Rightarrow> status_view option \<Rightarrow> ctx" where
  "new_context wrapper effective = \<lparr>
     ec_wrapper = wrapper, ec_effective = effective, ec_quote = None, ec_login_accounts = [],
     ec_memberships = [], ec_viewer_states = [], ec_conversation_keys = [] \<rparr>"

record source_branch =
  sb_viewer_account_acct :: "rstr option"

definition effective_status :: "ctx \<Rightarrow> db_status option" where
  "effective_status c = map_option sv_status (ec_effective c)"

definition author_account :: "ctx \<Rightarrow> db_account option" where
  "author_account c = Option.bind (ec_effective c) sv_account"

section \<open>JSON columns\<close>

definition max_json_bytes :: nat where
  "max_json_bytes = 1024 * 1024"

text \<open>\<^verbatim>\<open>parse_optional_array\<close>: \<open>None\<close> is \<^verbatim>\<open>Invalid\<close>.\<close>

definition parse_optional_array :: "(rstr \<Rightarrow> 'a list option) \<Rightarrow> rstr option \<Rightarrow> 'a list option" where
  "parse_optional_array decode json =
     (case json of
        None \<Rightarrow> Some []
      | Some j \<Rightarrow> if byte_len j > max_json_bytes then None else decode j)"

datatype 'a parsed_object = Absent | Parsed 'a | Invalid

definition parse_optional_object :: "(rstr \<Rightarrow> 'a option) \<Rightarrow> rstr option \<Rightarrow> 'a parsed_object" where
  "parse_optional_object decode json =
     (case json of
        None \<Rightarrow> Absent
      | Some j \<Rightarrow>
          if byte_len j > max_json_bytes then Invalid
          else (case decode j of Some x \<Rightarrow> Parsed x | None \<Rightarrow> Invalid))"

section \<open>Accounts, selectors and memberships\<close>

definition at_sign :: rchar where "at_sign = chr CHR ''@''"

definition contains_char :: "rchar \<Rightarrow> rstr \<Rightarrow> bool" where
  "contains_char c s \<longleftrightarrow> c \<in> set s"

definition status_is_atproto :: "db_status \<Rightarrow> bool" where
  "status_is_atproto s \<longleftrightarrow>
     starts_with (st_uri s) (str ''at://'') \<or> starts_with (st_uri s) (str ''repost:'')"

definition status_scoped_acct :: "rstr \<Rightarrow> db_status \<Rightarrow> rstr" where
  "status_scoped_acct acct s =
     (let acct = trim_start_matches at_sign (trim acct) in
      if status_is_atproto s \<or> contains_char at_sign acct \<or> st_server_domain s = [] then acct
      else acct @ at_sign # st_server_domain s)"

definition status_account_acct :: "db_account \<Rightarrow> db_status \<Rightarrow> rstr" where
  "status_account_acct a s = status_scoped_acct (ac_acct a) s"

definition account_origin_domain :: "db_account \<Rightarrow> db_status \<Rightarrow> rstr" where
  "account_origin_domain a s =
     (let acct = trim_start_matches at_sign (trim (ac_acct a)) in
      case rsplit_once at_sign acct of
        Some (_, domain) \<Rightarrow> domain
      | None \<Rightarrow>
          if status_is_atproto s \<and> contains_char (chr CHR ''.'') acct then acct
          else ac_server_domain a)"

definition login_provider_acct :: "login_account_identity \<Rightarrow> rstr" where
  "login_provider_acct la =
     (let acct = trim_start_matches at_sign (trim (la_acct la)) in
      if eq_ignore_ascii_case (la_server_kind la) (str ''bluesky'') then
        (case rsplit_once at_sign acct of
           Some (handle, domain) \<Rightarrow>
             if contains_char (chr CHR ''.'') handle \<and>
                eq_ignore_ascii_case domain (la_server_domain la)
             then handle else acct
         | None \<Rightarrow> acct)
      else if contains_char at_sign acct \<or> trim (la_server_domain la) = [] then acct
      else acct @ at_sign # trim (la_server_domain la))"

definition without_marker :: "rstr \<Rightarrow> rstr" where
  "without_marker selector =
     (let selector = trim selector in
      case strip_prefix (str ''@'') selector of
        Some rest \<Rightarrow> rest
      | None \<Rightarrow>
          (case strip_prefix (str ''#'') selector of Some rest \<Rightarrow> rest | None \<Rightarrow> selector))"

definition login_account_matches_selector :: "lib \<Rightarrow> login_account_identity \<Rightarrow> rstr \<Rightarrow> bool" where
  "login_account_matches_selector L la selector \<longleftrightarrow>
     identity_equal (without_marker selector) (la_account_id la) \<or>
     selector_equal L (without_marker selector) (login_provider_acct la) \<or>
     selector_equal L (without_marker selector) (la_acct la)"

definition account_matches_login ::
  "lib \<Rightarrow> db_account \<Rightarrow> db_status \<Rightarrow> login_account_identity \<Rightarrow> bool" where
  "account_matches_login L a s la \<longleftrightarrow>
     (eq_ignore_ascii_case (ac_server_domain a) (la_server_domain la) \<and>
      identity_equal (ac_id a) (la_account_id la)) \<or>
     selector_equal L (status_account_acct a s) (login_provider_acct la)"

definition account_matches_selector :: "lib \<Rightarrow> db_account \<Rightarrow> db_status \<Rightarrow> rstr \<Rightarrow> bool" where
  "account_matches_selector L a s selector \<longleftrightarrow>
     identity_equal (without_marker selector) (ac_id a) \<or>
     selector_equal L (without_marker selector) (status_account_acct a s) \<or>
     selector_equal L (without_marker selector) (ac_username a)"

text \<open>\<^verbatim>\<open>selected_login_accounts\<close>: all accounts without a selector, else the ones that match a selector,
  in the selectors' order and each provider account once.\<close>

definition selected_login_accounts ::
  "lib \<Rightarrow> rstr list \<Rightarrow> login_account_identity list \<Rightarrow> login_account_identity list" where
  "selected_login_accounts L arguments accounts =
     (if arguments = [] then accounts
      else dedup_by (\<lambda>la. fold_text L (login_provider_acct la)) []
        (concat (map (\<lambda>selector. filter (\<lambda>la. login_account_matches_selector L la selector) accounts)
           arguments)))"

definition clean_tag :: "rstr \<Rightarrow> rstr" where
  "clean_tag tag = trim_start_matches (chr CHR ''#'') (trim tag)"

definition hashtag_parameter_matches :: "lib \<Rightarrow> rstr \<Rightarrow> rstr \<Rightarrow> bool" where
  "hashtag_parameter_matches L parameter tag \<longleftrightarrow>
     selector_equal L (clean_tag parameter) (clean_tag tag)"

definition split_scoped_list_id :: "rstr \<Rightarrow> rstr option \<times> rstr" where
  "split_scoped_list_id argument =
     (case split_once (chr CHR ''/'') argument of
        None \<Rightarrow> (None, argument)
      | Some (candidate, list_id) \<Rightarrow>
          if contains_char at_sign candidate \<or> contains_char (chr CHR ''.'') candidate \<or>
             starts_with candidate (str ''@'')
          then (Some candidate, list_id) else (None, argument))"

definition membership_matches ::
  "lib \<Rightarrow> ctx \<Rightarrow> string \<Rightarrow> rstr option \<Rightarrow> rstr option \<Rightarrow> bool" where
  "membership_matches L c timeline_type account_acct parameter \<longleftrightarrow>
     (\<exists>m \<in> set (ec_memberships c).
        eq_ignore_ascii_case (tm_timeline_type m) (str timeline_type) \<and>
        (case account_acct of None \<Rightarrow> True | Some acct \<Rightarrow> selector_equal L (tm_account_acct m) acct) \<and>
        (case parameter of
           None \<Rightarrow> True
         | Some expected \<Rightarrow>
             (case tm_parameter m of
                None \<Rightarrow> False
              | Some actual \<Rightarrow>
                  if timeline_type = ''hashtag''
                  then selector_equal L (clean_tag actual) (clean_tag expected)
                  else actual = expected)))"

definition mentions_login_account :: "lib \<Rightarrow> ctx \<Rightarrow> login_account_identity \<Rightarrow> bool" where
  "mentions_login_account L c la \<longleftrightarrow>
     (case effective_status c of
        None \<Rightarrow> False
      | Some s \<Rightarrow>
          ((case st_in_reply_to_account_id s of
              None \<Rightarrow> False | Some i \<Rightarrow> identity_equal i (la_account_id la)) \<and>
           eq_ignore_ascii_case (st_server_domain s) (la_server_domain la)) \<or>
          (case parse_optional_array (lib_parse_mentions L) (st_mentions_json s) of
             None \<Rightarrow> False
           | Some mentions \<Rightarrow>
               \<exists>m \<in> set mentions.
                 (eq_ignore_ascii_case (st_server_domain s) (la_server_domain la) \<and>
                  identity_equal (mn_id m) (la_account_id la)) \<or>
                 selector_equal L (status_scoped_acct (mn_acct m) s) (login_provider_acct la)))"

text \<open>\<^verbatim>\<open>viewer_state\<close>: the state of one viewer for the effective status; none, or more than one row,
  is unknown.\<close>

definition viewer_state_rows :: "lib \<Rightarrow> ctx \<Rightarrow> rstr \<Rightarrow> db_status \<Rightarrow> db_status_viewer_state list" where
  "viewer_state_rows L c viewer subject =
     filter (\<lambda>v. selector_equal L (vs_login_account_acct v) viewer \<and> vs_status_id v = st_id subject \<and>
         eq_ignore_ascii_case (vs_server_domain v) (st_server_domain subject))
       (ec_viewer_states c)"

definition viewer_state ::
  "lib \<Rightarrow> ctx \<Rightarrow> rstr option \<Rightarrow> (db_status_viewer_state \<Rightarrow> bool option) \<Rightarrow> truth" where
  "viewer_state L c viewer_account_acct select =
     (case viewer_account_acct of
        None \<Rightarrow> TUnknown
      | Some viewer \<Rightarrow>
          (case effective_status c of
             None \<Rightarrow> TUnknown
           | Some subject \<Rightarrow>
               (case viewer_state_rows L c viewer subject of
                  [row] \<Rightarrow> (case select row of Some b \<Rightarrow> to_truth b | None \<Rightarrow> TUnknown)
                | _ \<Rightarrow> TUnknown)))"

section \<open>Sources\<close>

definition unscoped :: source_branch where
  "unscoped = \<lparr>sb_viewer_account_acct = None\<rparr>"

definition scoped :: "rstr \<Rightarrow> source_branch" where
  "scoped acct = \<lparr>sb_viewer_account_acct = Some acct\<rparr>"

definition unscoped_branch :: "bool \<Rightarrow> source_branch list" where
  "unscoped_branch matches = (if matches then [unscoped] else [])"

definition collapse_implicit_account_scopes :: "login_account_identity list \<Rightarrow> source_branch list" where
  "collapse_implicit_account_scopes matching =
     (case matching of [] \<Rightarrow> [] | [la] \<Rightarrow> [scoped (la_acct la)] | _ \<Rightarrow> [unscoped])"

definition collapse_membership_scopes :: "lib \<Rightarrow> rstr list \<Rightarrow> source_branch list" where
  "collapse_membership_scopes L matching =
     (case dedup_by (fold_text L) [] matching of
        [] \<Rightarrow> [] | [acct] \<Rightarrow> [scoped acct] | _ \<Rightarrow> [unscoped])"

definition account_source_matches :: "lib \<Rightarrow> source_kind \<Rightarrow> ctx \<Rightarrow> login_account_identity \<Rightarrow> bool" where
  "account_source_matches L k c la =
     (let raw_acct = la_acct la in
      case k of
        SrcHome \<Rightarrow> membership_matches L c ''home'' (Some raw_acct) None
      | SrcPublic \<Rightarrow> membership_matches L c ''public'' (Some raw_acct) None
      | SrcLocalPublic \<Rightarrow> membership_matches L c ''local'' (Some raw_acct) None
      | SrcMentions \<Rightarrow> mentions_login_account L c la
      | SrcDirect \<Rightarrow>
          (case effective_status c of
             None \<Rightarrow> False
           | Some s \<Rightarrow>
               eq_ignore_ascii_case (st_visibility s) (str ''direct'') \<and>
               (membership_matches L c ''home'' (Some raw_acct) None \<or>
                membership_matches L c ''direct'' (Some raw_acct) None \<or>
                (case author_account c of None \<Rightarrow> False | Some a \<Rightarrow> account_matches_login L a s la) \<or>
                mentions_login_account L c la))
      | SrcBookmarks \<Rightarrow> viewer_state L c (Some raw_acct) vs_bookmarked = TTrue
      | SrcFavourites \<Rightarrow> viewer_state L c (Some raw_acct) vs_favourited = TTrue
      | _ \<Rightarrow> False)"

definition account_source_branches :: "lib \<Rightarrow> source_spec \<Rightarrow> ctx \<Rightarrow> source_branch list" where
  "account_source_branches L s c =
     (let matching = dedup_by (\<lambda>la. fold_text L (la_acct la)) []
            (filter (account_source_matches L (ss_kind s) c)
               (selected_login_accounts L (ss_arguments s) (ec_login_accounts c)))
      in if ss_kind s = SrcBookmarks \<or> ss_kind s = SrcFavourites
         then map (\<lambda>la. scoped (la_acct la)) matching
         else collapse_implicit_account_scopes matching)"

definition list_source_branches :: "lib \<Rightarrow> source_spec \<Rightarrow> ctx \<Rightarrow> source_branch list" where
  "list_source_branches L s c =
     concat (map (\<lambda>argument.
       let (selector, list_id) = split_scoped_list_id argument;
           selectors = (case selector of None \<Rightarrow> [] | Some x \<Rightarrow> [x])
       in collapse_membership_scopes L
            (map la_acct (filter (\<lambda>la. membership_matches L c ''list'' (Some (la_acct la)) (Some list_id))
               (selected_login_accounts L selectors (ec_login_accounts c)))))
       (ss_arguments s))"

definition hashtag_source_branches :: "lib \<Rightarrow> rstr \<Rightarrow> ctx \<Rightarrow> source_branch list" where
  "hashtag_source_branches L tag c =
     collapse_membership_scopes L
       (map tm_account_acct (filter (\<lambda>m.
          (eq_ignore_ascii_case (tm_timeline_type m) (str ''hashtag'') \<and>
           (case tm_parameter m of None \<Rightarrow> False | Some p \<Rightarrow> hashtag_parameter_matches L p tag)) \<and>
          (\<exists>la \<in> set (ec_login_accounts c). selector_equal L (la_acct la) (tm_account_acct m)))
        (ec_memberships c)))"

definition join_lines :: "rstr list \<Rightarrow> rstr" where
  "join_lines parts =
     (case parts of [] \<Rightarrow> [] | f # fs \<Rightarrow> f @ concat (map (\<lambda>x. newline # x) fs))"

definition search_haystack :: "lib \<Rightarrow> db_status \<Rightarrow> db_account option \<Rightarrow> rstr" where
  "search_haystack L s account =
     join_lines
       ([html_to_plain_text (st_content s), st_spoiler_text s, st_uri s,
         (case st_url s of None \<Rightarrow> [] | Some u \<Rightarrow> u)] @
        (case account of
           None \<Rightarrow> [] | Some a \<Rightarrow> [status_account_acct a s, ac_display_name a]) @
        (case parse_optional_array (lib_parse_tags L) (st_tags_json s) of
           None \<Rightarrow> [] | Some tags \<Rightarrow> map tg_name tags))"

definition text_source_branches :: "lib \<Rightarrow> source_spec \<Rightarrow> ctx \<Rightarrow> bool \<Rightarrow> source_branch list" where
  "text_source_branches L s c broad =
     map (\<lambda>_. unscoped) (filter (\<lambda>needle.
       case effective_status c of
         None \<Rightarrow> False
       | Some st \<Rightarrow>
           if broad then insensitive_contains L (search_haystack L st (author_account c)) needle
           else insensitive_contains L (html_to_plain_text (st_content st)) needle)
       (ss_arguments s))"

definition status_key_of :: "db_status \<Rightarrow> status_key" where
  "status_key_of s = \<lparr>sk_server_domain = st_server_domain s, sk_id = st_id s\<rparr>"

definition contains_status_key :: "status_key list \<Rightarrow> status_key \<Rightarrow> bool" where
  "contains_status_key keys wanted \<longleftrightarrow>
     (\<exists>k \<in> set keys. sk_id k = sk_id wanted \<and>
        eq_ignore_ascii_case (sk_server_domain k) (sk_server_domain wanted))"

definition conversation_source_matches :: "ctx \<Rightarrow> bool" where
  "conversation_source_matches c \<longleftrightarrow>
     contains_status_key (ec_conversation_keys c) (status_key_of (sv_status (ec_wrapper c))) \<or>
     (case ec_effective c of
        None \<Rightarrow> False
      | Some e \<Rightarrow> contains_status_key (ec_conversation_keys c) (status_key_of (sv_status e)))"

definition author_matches_selector :: "lib \<Rightarrow> ctx \<Rightarrow> rstr \<Rightarrow> bool" where
  "author_matches_selector L c selector \<longleftrightarrow>
     (case sv_account (ec_wrapper c) of
        None \<Rightarrow> False
      | Some a \<Rightarrow> account_matches_selector L a (sv_status (ec_wrapper c)) selector)"

definition source_branches :: "lib \<Rightarrow> source_spec \<Rightarrow> ctx \<Rightarrow> source_branch list" where
  "source_branches L s c =
     (case ss_kind s of
        SrcLocal \<Rightarrow> unscoped_branch (ss_arguments s = [])
      | SrcSearch \<Rightarrow> text_source_branches L s c True
      | SrcTrack \<Rightarrow> text_source_branches L s c False
      | SrcConversation \<Rightarrow> unscoped_branch (conversation_source_matches c)
      | SrcUser \<Rightarrow>
          map (\<lambda>_. unscoped) (filter (author_matches_selector L c) (ss_arguments s))
      | SrcHashtag \<Rightarrow> concat (map (\<lambda>tag. hashtag_source_branches L tag c) (ss_arguments s))
      | SrcList \<Rightarrow> list_source_branches L s c
      | _ \<Rightarrow> account_source_branches L s c)"

section \<open>Field values\<close>

definition nonempty_text :: "rstr \<Rightarrow> val" where
  "nonempty_text s = (if s = [] then VUnknown else text_value s)"

definition optional_nonempty_text :: "rstr option \<Rightarrow> val" where
  "optional_nonempty_text v = (case v of None \<Rightarrow> VUnknown | Some s \<Rightarrow> nonempty_text s)"

definition optional_identity :: "rstr option \<Rightarrow> val" where
  "optional_identity v =
     (case v of None \<Rightarrow> VUnknown | Some s \<Rightarrow> if s = [] then VUnknown else VIdentity s)"

definition usize_number :: "nat \<Rightarrow> val" where
  "usize_number n = number_or_unknown (to_i64 (int n))"

definition text_set :: "lib \<Rightarrow> rstr list \<Rightarrow> val" where
  "text_set L texts = VSet (push_all_unique L [] (map SText texts))"

definition status_application_value :: "lib \<Rightarrow> db_status \<Rightarrow> val" where
  "status_application_value L s =
     (case parse_optional_object (lib_parse_application L) (st_application_json s) of
        Parsed app \<Rightarrow> nonempty_text (trim (ap_name app))
      | Absent \<Rightarrow> VUnknown
      | Invalid \<Rightarrow> VUnknown)"

definition mention_scalars :: "mention \<Rightarrow> db_status \<Rightarrow> scalar_value list" where
  "mention_scalars m s =
     (if mn_id m \<noteq> [] then [SIdentity (mn_id m)] else []) @
     (if mn_acct m \<noteq> [] then [SText (status_scoped_acct (mn_acct m) s)] else []) @
     (if mn_username m \<noteq> [] then [SText (mn_username m)] else [])"

definition mentions_value :: "lib \<Rightarrow> db_status \<Rightarrow> val" where
  "mentions_value L s =
     (case parse_optional_array (lib_parse_mentions L) (st_mentions_json s) of
        None \<Rightarrow> VUnknown
      | Some mentions \<Rightarrow>
          if status_is_atproto s \<and> mentions = [] then VUnknown
          else VSet (push_all_unique L []
            ((case st_in_reply_to_account_id s of
                None \<Rightarrow> [] | Some i \<Rightarrow> if i = [] then [] else [SIdentity i]) @
             concat (map (\<lambda>m. mention_scalars m s) mentions))))"

definition tags_value :: "lib \<Rightarrow> db_status \<Rightarrow> val" where
  "tags_value L s =
     (case parse_optional_array (lib_parse_tags L) (st_tags_json s) of
        None \<Rightarrow> VUnknown
      | Some tags \<Rightarrow>
          if status_is_atproto s \<and> tags = [] then VUnknown
          else text_set L (filter (\<lambda>t. t \<noteq> []) (map tg_name tags)))"

definition normalize_media_type :: "rstr \<Rightarrow> string" where
  "normalize_media_type t =
     (if t = str ''image'' then ''image'' else if t = str ''gifv'' then ''gifv''
      else if t = str ''video'' then ''video'' else if t = str ''audio'' then ''audio''
      else ''unknown'')"

definition media_field_value :: "lib \<Rightarrow> field \<Rightarrow> db_status \<Rightarrow> val" where
  "media_field_value L f s =
     (case parse_optional_array (lib_parse_media L) (st_media_attachments_json s) of
        None \<Rightarrow> VUnknown
      | Some media \<Rightarrow>
          (let kinds = map (\<lambda>a. normalize_media_type (ma_media_type a)) media in
           if f = FHasMedia then boolean (media \<noteq> [])
           else if f = FMediaCount then usize_number (length media)
           else if f = FMediaTypes then text_set L (map str kinds)
           else if f = FMediaDescriptions then
             text_set L (filter (\<lambda>d. d \<noteq> []) (List.map_filter ma_description media))
           else if f = FHasImage then boolean (''image'' \<in> set kinds)
           else if f = FHasVideo then boolean (''video'' \<in> set kinds \<or> ''gifv'' \<in> set kinds)
           else if f = FHasAudio then boolean (''audio'' \<in> set kinds)
           else VUnknown))"

definition poll_field_value :: "lib \<Rightarrow> field \<Rightarrow> db_status \<Rightarrow> val" where
  "poll_field_value L f s =
     (case parse_optional_object (lib_parse_poll L) (st_poll_json s) of
        Absent \<Rightarrow> if f = FHasPoll then boolean False else VUnknown
      | Invalid \<Rightarrow> VUnknown
      | Parsed p \<Rightarrow>
          if f = FHasPoll then boolean True
          else if f = FPollId then optional_identity (Some (pl_id p))
          else if f = FPollExpired then boolean (pl_expired p)
          else if f = FPollMultiple then boolean (pl_multiple p)
          else if f = FPollVotesCount then VNumber (pl_votes_count p)
          else if f = FPollVotersCount then number_or_unknown (pl_voters_count p)
          else if f = FPollOptionsCount then usize_number (length (pl_options p))
          else if f = FPollOptions then
            text_set L (filter (\<lambda>t. t \<noteq> []) (map po_title (pl_options p)))
          else if f = FPollExpiresAt then
            (case pl_expires_at p of
               None \<Rightarrow> VUnknown | Some t \<Rightarrow> text_value (lib_to_rfc3339 L t))
          else VUnknown)"

definition nonempty_option :: "rstr option \<Rightarrow> bool" where
  "nonempty_option v \<longleftrightarrow> (case v of None \<Rightarrow> False | Some s \<Rightarrow> s \<noteq> [])"

definition status_has_quote :: "db_status \<Rightarrow> bool" where
  "status_has_quote s \<longleftrightarrow> nonempty_option (st_quote_id s) \<or> nonempty_option (st_quote_original_url s)"

definition account_field_value :: "field \<Rightarrow> db_account \<Rightarrow> db_status \<Rightarrow> val" where
  "account_field_value f a s =
     (if f = FAuthorId \<or> f = FBoosterId then VIdentity (ac_id a)
      else if f = FAuthorUsername \<or> f = FBoosterUsername then text_value (ac_username a)
      else if f = FAuthorAcct \<or> f = FBoosterAcct then text_value (status_account_acct a s)
      else if f = FAuthorDisplayName \<or> f = FBoosterDisplayName then text_value (ac_display_name a)
      else if f = FAuthorNote \<or> f = FBoosterNote then text_value (html_to_plain_text (ac_note a))
      else if f = FAuthorLocked \<or> f = FBoosterLocked then boolean (ac_locked a)
      else if f = FAuthorBot \<or> f = FBoosterBot then boolean (ac_bot a)
      else if f = FAuthorFollowers \<or> f = FBoosterFollowers then VNumber (ac_followers_count a)
      else if f = FAuthorFollowing \<or> f = FBoosterFollowing then VNumber (ac_following_count a)
      else if f = FAuthorStatuses \<or> f = FBoosterStatuses then VNumber (ac_statuses_count a)
      else if f = FAuthorDomain \<or> f = FBoosterDomain then text_value (account_origin_domain a s)
      else VUnknown)"

definition author_fields :: "field set" where
  "author_fields = {FAuthorId, FAuthorUsername, FAuthorAcct, FAuthorDisplayName, FAuthorNote,
     FAuthorLocked, FAuthorBot, FAuthorFollowers, FAuthorFollowing, FAuthorStatuses, FAuthorDomain}"

definition media_fields :: "field set" where
  "media_fields = {FHasMedia, FMediaCount, FMediaTypes, FMediaDescriptions, FHasImage, FHasVideo,
     FHasAudio}"

definition poll_fields :: "field set" where
  "poll_fields = {FHasPoll, FPollId, FPollExpired, FPollMultiple, FPollVotesCount, FPollVotersCount,
     FPollOptionsCount, FPollOptions, FPollExpiresAt}"

text \<open>The fields of the effective status itself.\<close>

definition status_field_value :: "lib \<Rightarrow> field \<Rightarrow> db_status \<Rightarrow> val" where
  "status_field_value L f s =
     (if f = FText then text_value (html_to_plain_text (st_content s))
      else if f = FRawContent then text_value (st_content s)
      else if f = FId then VIdentity (st_id s)
      else if f = FUri then nonempty_text (st_uri s)
      else if f = FUrl then optional_nonempty_text (st_url s)
      else if f = FApplication then status_application_value L s
      else if f = FDirectMessage then boolean (eq_ignore_ascii_case (st_visibility s) (str ''direct''))
      else if f = FInReplyTo then optional_identity (st_in_reply_to_id s)
      else if f = FReplyAccountId then optional_identity (st_in_reply_to_account_id s)
      else if f = FIsReply then boolean (st_in_reply_to_id s \<noteq> None)
      else if f = FMentions then mentions_value L s
      else if f = FFavouritesCount then VNumber (st_favourites_count s)
      else if f = FReblogsCount then VNumber (st_reblogs_count s)
      else if f = FRepliesCount then VNumber (st_replies_count s)
      else if f = FVisibility then text_value (st_visibility s)
      else if f = FLanguage then optional_nonempty_text (st_language s)
      else if f = FSpoilerText then text_value (st_spoiler_text s)
      else if f = FHasSpoiler then boolean (st_spoiler_text s \<noteq> [])
      else if f = FSensitive then boolean (st_sensitive s)
      else if f = FHasCard then
        (case parse_optional_object (lib_parse_card L) (st_card_json s) of
           Absent \<Rightarrow> boolean False | Parsed _ \<Rightarrow> boolean True | Invalid \<Rightarrow> VBool TUnknown)
      else if f = FHasQuote then boolean (status_has_quote s)
      else if f = FEdited then boolean (st_edited_at s \<noteq> None)
      else if f = FEditedAt then optional_nonempty_text (st_edited_at s)
      else if f = FDomain then text_value (st_server_domain s)
      else if f = FHashtags then tags_value L s
      else if f = FIsPublic then boolean (eq_ignore_ascii_case (st_visibility s) (str ''public''))
      else if f = FIsUnlisted then boolean (eq_ignore_ascii_case (st_visibility s) (str ''unlisted''))
      else if f = FIsPrivate then boolean (eq_ignore_ascii_case (st_visibility s) (str ''private''))
      else VUnknown)"

definition effective_field_value :: "lib \<Rightarrow> field \<Rightarrow> ctx \<Rightarrow> val" where
  "effective_field_value L f c =
     (case effective_status c of
        None \<Rightarrow> VUnknown
      | Some s \<Rightarrow>
          if f \<in> media_fields then media_field_value L f s
          else if f \<in> poll_fields then poll_field_value L f s
          else if f \<in> author_fields then
            (case author_account c of None \<Rightarrow> VUnknown | Some a \<Rightarrow> account_field_value f a s)
          else status_field_value L f s)"

definition booster_field_value :: "field \<Rightarrow> ctx \<Rightarrow> val" where
  "booster_field_value f c =
     (if st_reblog_of_id (sv_status (ec_wrapper c)) = None then VUnknown
      else (case sv_account (ec_wrapper c) of
        None \<Rightarrow> VUnknown
      | Some a \<Rightarrow> account_field_value f a (sv_status (ec_wrapper c))))"

definition filter_nonempty :: "rstr option \<Rightarrow> rstr option" where
  "filter_nonempty v = (case v of None \<Rightarrow> None | Some s \<Rightarrow> if s = [] then None else Some s)"

definition first_some :: "'a option \<Rightarrow> 'a option \<Rightarrow> 'a option" where
  "first_some a b = (case a of None \<Rightarrow> b | Some _ \<Rightarrow> a)"

definition quote_url :: "status_view option \<Rightarrow> db_status \<Rightarrow> rstr option" where
  "quote_url quote subject =
     first_some
       (Option.bind quote (\<lambda>q.
          first_some (filter_nonempty (st_url (sv_status q)))
            (filter_nonempty (Some (st_uri (sv_status q))))))
       (filter_nonempty (st_quote_original_url subject))"

definition quote_field_value :: "field \<Rightarrow> ctx \<Rightarrow> val" where
  "quote_field_value f c =
     (case effective_status c of
        None \<Rightarrow> VUnknown
      | Some subject \<Rightarrow>
          if f = FQuoteId then
            (case ec_quote c of None \<Rightarrow> VUnknown | Some q \<Rightarrow> VIdentity (st_id (sv_status q)))
          else if f = FQuoteUrl then
            (case quote_url (ec_quote c) subject of None \<Rightarrow> VUnknown | Some u \<Rightarrow> text_value u)
          else if f = FQuoteText then
            (case ec_quote c of
               None \<Rightarrow> VUnknown
             | Some q \<Rightarrow> text_value (html_to_plain_text (st_content (sv_status q))))
          else if f = FQuoteAuthorAcct then
            (case ec_quote c of
               None \<Rightarrow> VUnknown
             | Some q \<Rightarrow>
                 (case sv_account q of
                    None \<Rightarrow> VUnknown
                  | Some a \<Rightarrow> text_value (status_account_acct a (sv_status q))))
          else VUnknown)"

definition viewer_field_value :: "lib \<Rightarrow> field \<Rightarrow> ctx \<Rightarrow> source_branch \<Rightarrow> val" where
  "viewer_field_value L f c b =
     (let state = (\<lambda>select. VBool (viewer_state L c (sb_viewer_account_acct b) select)) in
      if f = FViewerFavourited then state vs_favourited
      else if f = FViewerReblogged then state vs_reblogged
      else if f = FViewerMuted then state vs_muted
      else if f = FViewerBookmarked then state vs_bookmarked
      else if f = FViewerPinned then state vs_pinned
      else VUnknown)"

definition our_account_scalars :: "login_account_identity \<Rightarrow> scalar_value list" where
  "our_account_scalars la = [SText (login_provider_acct la), SIdentity (la_account_id la)]"

definition field_value :: "lib \<Rightarrow> field \<Rightarrow> ctx \<Rightarrow> source_branch \<Rightarrow> val" where
  "field_value L f c b =
     (if f = FBoost then boolean (st_reblog_of_id (sv_status (ec_wrapper c)) \<noteq> None)
      else if f = FOurAccounts then
        VSet (push_all_unique L [] (concat (map our_account_scalars (ec_login_accounts c))))
      else if f \<in> {FBoosterId, FBoosterUsername, FBoosterAcct, FBoosterDisplayName, FBoosterNote,
        FBoosterLocked, FBoosterBot, FBoosterFollowers, FBoosterFollowing, FBoosterStatuses,
        FBoosterDomain} then booster_field_value f c
      else if f \<in> {FQuoteId, FQuoteUrl, FQuoteText, FQuoteAuthorAcct} then quote_field_value f c
      else if f \<in> {FViewerFavourited, FViewerReblogged, FViewerMuted, FViewerBookmarked,
        FViewerPinned} then viewer_field_value L f c b
      else effective_field_value L f c)"

section \<open>Field values have the field's static type\<close>

lemma optional_types:
  "has_type (nonempty_text s) ty_text" "has_type (optional_nonempty_text v) ty_text"
  "has_type (optional_identity v) ty_identity" "has_type (text_set L ts) ty_set"
  "has_type (usize_number n) ty_number"
  by (auto simp: nonempty_text_def optional_nonempty_text_def optional_identity_def text_set_def
      usize_number_def number_or_unknown_type split: option.splits)

lemma field_types_by_group:
  "f \<in> media_fields \<Longrightarrow> has_type (media_field_value L f s) (field_value_types f)"
  "f \<in> poll_fields \<Longrightarrow> has_type (poll_field_value L f s) (field_value_types f)"
  "f \<in> author_fields \<Longrightarrow> has_type (account_field_value f a s) (field_value_types f)"
  unfolding media_fields_def poll_fields_def author_fields_def
  by (elim insertE emptyE; simp add: media_field_value_def poll_field_value_def account_field_value_def
      field_value_types_def optional_types number_or_unknown_type Let_def
      split: option.splits parsed_object.splits)+

text \<open>The fields that the routing of \<open>field_value\<close> leaves for the effective status.\<close>

definition plain_status_fields :: "field set" where
  "plain_status_fields = {FText, FRawContent, FId, FUri, FUrl, FApplication, FDirectMessage,
     FInReplyTo, FReplyAccountId, FIsReply, FMentions, FFavouritesCount, FReblogsCount,
     FRepliesCount, FVisibility, FLanguage, FSpoilerText, FHasSpoiler, FSensitive, FHasCard,
     FHasQuote, FEdited, FEditedAt, FDomain, FHashtags, FIsPublic, FIsUnlisted, FIsPrivate}"

definition routed_fields :: "field set" where
  "routed_fields = {FBoost, FOurAccounts, FBoosterId, FBoosterUsername, FBoosterAcct,
     FBoosterDisplayName, FBoosterNote, FBoosterLocked, FBoosterBot, FBoosterFollowers,
     FBoosterFollowing, FBoosterStatuses, FBoosterDomain, FQuoteId, FQuoteUrl, FQuoteText,
     FQuoteAuthorAcct, FViewerFavourited, FViewerReblogged, FViewerMuted, FViewerBookmarked,
     FViewerPinned}"

lemma field_groups:
  "f \<in> plain_status_fields \<or> f \<in> media_fields \<or> f \<in> poll_fields \<or> f \<in> author_fields \<or>
   f \<in> routed_fields"
  by (cases f) (simp_all add: plain_status_fields_def media_fields_def poll_fields_def
      author_fields_def routed_fields_def)

lemma status_field_type:
  assumes "f \<in> plain_status_fields"
  shows "has_type (status_field_value L f s) (field_value_types f)"
  using assms unfolding plain_status_fields_def
  by (elim insertE emptyE; hypsubst)
    (auto simp: status_field_value_def field_value_types_def optional_types
      status_application_value_def mentions_value_def tags_value_def
      split: option.splits parsed_object.splits)

lemma routed_field_type:
  assumes "f \<in> routed_fields"
  shows "has_type (field_value L f c b) (field_value_types f)"
  using assms unfolding routed_fields_def
  by (elim insertE emptyE; hypsubst)
    (auto simp: field_value_def booster_field_value_def quote_field_value_def viewer_field_value_def
      account_field_value_def field_value_types_def split: option.splits)

lemma field_value_effective:
  assumes "f \<notin> routed_fields"
  shows "field_value L f c b = effective_field_value L f c"
  using assms by (auto simp: field_value_def routed_fields_def)

lemma field_value_type: "has_type (field_value L f c b) (field_value_types f)"
proof (cases "f \<in> routed_fields")
  case False
  then show ?thesis
    using field_groups[of f] status_field_type field_types_by_group
    by (auto simp: field_value_effective effective_field_value_def split: option.splits)
qed (rule routed_field_type)

section \<open>Field values are well-formed\<close>

definition account_ok :: "db_account \<Rightarrow> bool" where
  "account_ok a \<longleftrightarrow> in_i64 (ac_followers_count a) \<and> in_i64 (ac_following_count a) \<and>
     in_i64 (ac_statuses_count a)"

definition status_ok :: "db_status \<Rightarrow> bool" where
  "status_ok s \<longleftrightarrow> in_i64 (st_favourites_count s) \<and> in_i64 (st_reblogs_count s) \<and>
     in_i64 (st_replies_count s)"

definition view_ok :: "status_view \<Rightarrow> bool" where
  "view_ok v \<longleftrightarrow> status_ok (sv_status v) \<and> (\<forall>a. sv_account v = Some a \<longrightarrow> account_ok a)"

text \<open>The rows hold 64-bit integers, and so do the polls that the JSON decoder returns.\<close>

definition context_ok :: "lib \<Rightarrow> ctx \<Rightarrow> bool" where
  "context_ok L c \<longleftrightarrow> view_ok (ec_wrapper c) \<and> (\<forall>v. ec_effective c = Some v \<longrightarrow> view_ok v) \<and>
     (\<forall>j p. lib_parse_poll L j = Some p \<longrightarrow>
        in_i64 (pl_votes_count p) \<and> (\<forall>n. pl_voters_count p = Some n \<longrightarrow> in_i64 n))"

lemma context_okD:
  assumes "context_ok L c"
  shows "sv_account (ec_wrapper c) = Some a \<Longrightarrow> account_ok a"
    and "effective_status c = Some s \<Longrightarrow> status_ok s"
    and "author_account c = Some a \<Longrightarrow> account_ok a"
    and "lib_parse_poll L j = Some p \<Longrightarrow> in_i64 (pl_votes_count p)"
    and "lib_parse_poll L j = Some p \<Longrightarrow> pl_voters_count p = Some n \<Longrightarrow> in_i64 n"
  using assms
  by (auto simp: context_ok_def view_ok_def effective_status_def author_account_def
      split: Option.bind_splits)

lemma push_texts_ok: "\<forall>v \<in> set vs. \<exists>t. v = SText t \<or> v = SIdentity t \<Longrightarrow> val_ok L (VSet (push_all_unique L [] vs))"
  by (auto intro!: push_all_unique_ok)

lemma optional_ok:
  "val_ok L (nonempty_text s)" "val_ok L (optional_nonempty_text v)" "val_ok L (optional_identity v)"
  "val_ok L (text_set L ts)" "val_ok L (usize_number n)"
  by (auto simp: nonempty_text_def optional_nonempty_text_def optional_identity_def text_set_def
      usize_number_def number_or_unknown_def to_i64_def simp del: val_ok.simps(2)
      intro!: push_texts_ok split: option.splits)

lemma account_field_ok: "account_ok a \<Longrightarrow> val_ok L (account_field_value f a s)"
  by (auto simp: account_field_value_def account_ok_def)

lemma mentions_value_ok: "val_ok L (mentions_value L s)"
  by (auto simp: mentions_value_def mention_scalars_def
      simp del: val_ok.simps(2) push_all_unique.simps
      intro!: push_texts_ok split: option.splits if_splits)

lemma tags_value_ok: "val_ok L (tags_value L s)"
  by (auto simp: tags_value_def optional_ok split: option.splits)

lemma media_field_ok: "val_ok L (media_field_value L f s)"
  by (auto simp: media_field_value_def optional_ok Let_def split: option.splits)

lemma poll_field_ok:
  assumes "context_ok L c"
  shows "val_ok L (poll_field_value L f s)"
  using context_okD(4,5)[OF assms]
  by (auto simp: poll_field_value_def optional_ok number_or_unknown_def parse_optional_object_def
      split: option.splits parsed_object.splits if_splits)

lemma status_field_ok: "status_ok s \<Longrightarrow> val_ok L (status_field_value L f s)"
  by (simp add: status_field_value_def optional_ok status_ok_def mentions_value_ok tags_value_ok
      status_application_value_def split: option.splits parsed_object.splits)

lemma field_value_ok:
  assumes "context_ok L c"
  shows "val_ok L (field_value L f c b)"
proof -
  have "val_ok L (effective_field_value L f c)"
    using assms by (auto simp: effective_field_value_def media_field_ok poll_field_ok[OF assms]
        status_field_ok account_field_ok dest: context_okD split: option.splits)
  moreover have "val_ok L (booster_field_value f c)"
    using context_okD(1)[OF assms]
    by (auto simp: booster_field_value_def account_field_ok split: option.splits)
  moreover have "val_ok L (quote_field_value f c)"
    by (auto simp: quote_field_value_def split: option.splits)
  moreover have "val_ok L (viewer_field_value L f c b)"
    by (simp add: viewer_field_value_def Let_def)
  moreover have "val_ok L (VSet (push_all_unique L []
      (concat (map our_account_scalars (ec_login_accounts c)))))"
    by (auto simp: our_account_scalars_def simp del: val_ok.simps(2) intro!: push_texts_ok)
  ultimately show ?thesis
    by (simp only: field_value_def boolean_ok if_cancel split: if_split) simp
qed

section \<open>What a field and a source depend on\<close>

lemma viewer_state_independent:
  assumes "effective_status c' = effective_status c" and "ec_viewer_states c' = ec_viewer_states c"
  shows "viewer_state L c' = viewer_state L c"
proof -
  have rows: "viewer_state_rows L c' = viewer_state_rows L c"
    using assms(2) by (simp add: viewer_state_rows_def fun_eq_iff)
  show ?thesis
    unfolding viewer_state_def assms(1) rows ..
qed

lemma field_value_independent:
  assumes "ec_wrapper c' = ec_wrapper c" and "ec_effective c' = ec_effective c"
    and "f \<in> {FQuoteId, FQuoteUrl, FQuoteText, FQuoteAuthorAcct} \<Longrightarrow> ec_quote c' = ec_quote c"
    and "f = FOurAccounts \<Longrightarrow> ec_login_accounts c' = ec_login_accounts c"
    and "f \<in> {FViewerFavourited, FViewerReblogged, FViewerMuted, FViewerBookmarked, FViewerPinned} \<Longrightarrow>
      ec_viewer_states c' = ec_viewer_states c"
  shows "field_value L f c' b = field_value L f c b"
proof -
  have e: "effective_status c' = effective_status c" "author_account c' = author_account c"
    using assms(1,2) by (simp_all add: effective_status_def author_account_def)
  have booster: "booster_field_value f c' = booster_field_value f c"
    unfolding booster_field_value_def assms(1) by simp
  have effective: "effective_field_value L f c' = effective_field_value L f c"
    unfolding effective_field_value_def e by simp
  have quote: "quote_field_value f c' = quote_field_value f c"
    if "f \<in> {FQuoteId, FQuoteUrl, FQuoteText, FQuoteAuthorAcct}"
    unfolding quote_field_value_def e assms(3)[OF that] by simp
  have viewer: "viewer_field_value L f c' b = viewer_field_value L f c b"
    if "f \<in> {FViewerFavourited, FViewerReblogged, FViewerMuted, FViewerBookmarked, FViewerPinned}"
    unfolding viewer_field_value_def viewer_state_independent[OF e(1) assms(5)[OF that]] by simp
  show ?thesis
    unfolding field_value_def booster effective assms(1)
    using quote viewer assms(4) by (simp cong: if_cong)
qed

lemma source_branches_independent:
  assumes "ec_wrapper c' = ec_wrapper c" and "ec_effective c' = ec_effective c"
    and "ss_kind s \<notin> {SrcLocal, SrcUser, SrcConversation} \<Longrightarrow> ec_memberships c' = ec_memberships c"
    and "ss_kind s \<in> {SrcBookmarks, SrcFavourites} \<Longrightarrow> ec_viewer_states c' = ec_viewer_states c"
    and "ss_kind s \<in> {SrcHome, SrcList, SrcMentions, SrcDirect, SrcPublic, SrcLocalPublic, SrcHashtag,
      SrcBookmarks, SrcFavourites} \<Longrightarrow> ec_login_accounts c' = ec_login_accounts c"
    and "ss_kind s = SrcConversation \<Longrightarrow> ec_conversation_keys c' = ec_conversation_keys c"
  shows "source_branches L s c' = source_branches L s c"
proof -
  have e: "effective_status c' = effective_status c" "author_account c' = author_account c"
    using assms(1,2) by (simp_all add: effective_status_def author_account_def)
  have m: "membership_matches L c' t a p = membership_matches L c t a p"
    if "ec_memberships c' = ec_memberships c" for t a p
    using that by (simp add: membership_matches_def)
  have v: "viewer_state L c' w g = viewer_state L c w g"
    if "ec_viewer_states c' = ec_viewer_states c" for w g
    using viewer_state_independent[OF e(1) that] by simp
  have n: "mentions_login_account L c' = mentions_login_account L c"
    using e by (simp add: mentions_login_account_def fun_eq_iff)
  have a: "account_source_matches L (ss_kind s) c' = account_source_matches L (ss_kind s) c"
    using assms e m v n
    by (cases "ss_kind s")
      (simp_all add: account_source_matches_def fun_eq_iff Let_def cong: option.case_cong)
  have search: "text_source_branches L s c' w = text_source_branches L s c w" for w
    unfolding text_source_branches_def e ..
  have account: "account_source_branches L s c' = account_source_branches L s c"
    if "ec_login_accounts c' = ec_login_accounts c"
    unfolding account_source_branches_def a that ..
  have lists: "list_source_branches L s c' = list_source_branches L s c"
    if "ec_memberships c' = ec_memberships c" "ec_login_accounts c' = ec_login_accounts c"
    unfolding list_source_branches_def that m[OF that(1)] ..
  have tags: "hashtag_source_branches L t c' = hashtag_source_branches L t c"
    if "ec_memberships c' = ec_memberships c" "ec_login_accounts c' = ec_login_accounts c" for t
    unfolding hashtag_source_branches_def that ..
  have conversation: "conversation_source_matches c' = conversation_source_matches c"
    if "ec_conversation_keys c' = ec_conversation_keys c"
    unfolding conversation_source_matches_def assms(1,2) that ..
  have user: "author_matches_selector L c' = author_matches_selector L c"
    by (rule ext, unfold author_matches_selector_def assms(1), rule refl)
  show ?thesis
    using assms(3-6) search account lists tags conversation user
    by (cases "ss_kind s") (simp_all add: source_branches_def)
qed

section \<open>Viewer scopes\<close>

lemma selected_login_accounts_subset: "set (selected_login_accounts L args las) \<subseteq> set las"
  using dedup_by_subset[of "\<lambda>la. fold_text L (login_provider_acct la)" "[]"
      "concat (map (\<lambda>sel. filter (\<lambda>la. login_account_matches_selector L la sel) las) args)"]
  by (auto simp: selected_login_accounts_def)

lemma collapse_membership_viewer:
  "b \<in> set (collapse_membership_scopes L accts) \<Longrightarrow> sb_viewer_account_acct b = Some acct \<Longrightarrow>
   acct \<in> set accts"
  using dedup_by_subset[of "fold_text L" "[]" accts]
  by (cases "dedup_by (fold_text L) [] accts"; cases "tl (dedup_by (fold_text L) [] accts)")
    (auto simp: collapse_membership_scopes_def scoped_def unscoped_def)

lemma collapse_implicit_viewer:
  "b \<in> set (collapse_implicit_account_scopes las) \<Longrightarrow> sb_viewer_account_acct b = Some acct \<Longrightarrow>
   acct \<in> la_acct ` set las"
  by (cases las; cases "tl las")
    (auto simp: collapse_implicit_account_scopes_def scoped_def unscoped_def)

lemma source_branches_viewer:
  "\<forall>b \<in> set (source_branches L s c). \<forall>acct. sb_viewer_account_acct b = Some acct \<longrightarrow>
      (\<exists>la \<in> set (ec_login_accounts c). selector_equal L (la_acct la) acct)"
proof -
  have sub: "la \<in> set (ec_login_accounts c)"
    if "la \<in> set (selected_login_accounts L args (ec_login_accounts c))" for la args
    using that selected_login_accounts_subset by blast
  have in_dedup: "la \<in> set xs" if "la \<in> set (dedup_by (\<lambda>la. fold_text L (la_acct la)) [] xs)"
    for la :: login_account_identity and xs
    by (rule subsetD[OF dedup_by_subset that])
  have own: "\<exists>la \<in> set (ec_login_accounts c). selector_equal L (la_acct la) acct"
    if "la \<in> set (ec_login_accounts c)" "acct = la_acct la" for la acct
    using that selector_equal_equiv(1) by blast
  have account: "\<exists>la \<in> set (ec_login_accounts c). selector_equal L (la_acct la) acct"
    if "b \<in> set (account_source_branches L s c)" "sb_viewer_account_acct b = Some acct" for b acct
  proof -
    have "acct \<in> la_acct ` set (dedup_by (\<lambda>la. fold_text L (la_acct la)) []
        (filter (account_source_matches L (ss_kind s) c)
          (selected_login_accounts L (ss_arguments s) (ec_login_accounts c))))"
      using that collapse_implicit_viewer
      by (auto simp: account_source_branches_def Let_def scoped_def split: if_splits)
    then obtain la where la: "acct = la_acct la" "la \<in> set (dedup_by (\<lambda>la. fold_text L (la_acct la)) []
        (filter (account_source_matches L (ss_kind s) c)
          (selected_login_accounts L (ss_arguments s) (ec_login_accounts c))))" by blast
    then show ?thesis using own[OF sub la(1)] in_dedup[OF la(2)] by auto
  qed
  have lists: "\<exists>la \<in> set (ec_login_accounts c). selector_equal L (la_acct la) acct"
    if "b \<in> set (list_source_branches L s c)" "sb_viewer_account_acct b = Some acct" for b acct
  proof -
    from that(1) obtain sels list_id where
      "b \<in> set (collapse_membership_scopes L
         (map la_acct (filter (\<lambda>la. membership_matches L c ''list'' (Some (la_acct la)) (Some list_id))
           (selected_login_accounts L sels (ec_login_accounts c)))))"
      by (auto simp: list_source_branches_def Let_def split: prod.splits)
    from collapse_membership_viewer[OF this that(2)]
    obtain la where "la \<in> set (selected_login_accounts L sels (ec_login_accounts c))"
      "acct = la_acct la" by auto
    then show ?thesis using sub own by blast
  qed
  have tags: "\<exists>la \<in> set (ec_login_accounts c). selector_equal L (la_acct la) acct"
    if "b \<in> set (hashtag_source_branches L t c)" "sb_viewer_account_acct b = Some acct" for b acct t
    using that by (auto simp: hashtag_source_branches_def dest!: collapse_membership_viewer)
  show "\<forall>b \<in> set (source_branches L s c). \<forall>acct. sb_viewer_account_acct b = Some acct \<longrightarrow>
      (\<exists>la \<in> set (ec_login_accounts c). selector_equal L (la_acct la) acct)"
    using account lists tags
    by (cases "ss_kind s") (auto simp: source_branches_def unscoped_branch_def
        text_source_branches_def unscoped_def)
qed

lemma source_branches_few:
  "ss_kind s \<notin> {SrcBookmarks, SrcFavourites} \<longrightarrow>
      length (source_branches L s c) \<le> max 1 (length (ss_arguments s))"
proof -
  have one: "length (collapse_membership_scopes L accts) \<le> 1" for accts
    by (auto simp: collapse_membership_scopes_def split: list.splits)
  have concat_one: "length (concat (map g args)) \<le> length args"
    if "\<And>x. length (g x) \<le> 1" for g :: "rstr \<Rightarrow> source_branch list" and args
  proof (induction args)
    case (Cons a args)
    then show ?case using that[of a] by simp
  qed simp
  have lists: "length (list_source_branches L s c) \<le> length (ss_arguments s)"
    unfolding list_source_branches_def
    by (rule concat_one) (use one in \<open>simp add: Let_def split: prod.splits\<close>)
  have tags: "length (concat (map (\<lambda>t. hashtag_source_branches L t c) (ss_arguments s))) \<le>
      length (ss_arguments s)"
    by (rule concat_one) (use one in \<open>simp add: hashtag_source_branches_def\<close>)
  have account: "length (account_source_branches L s c) \<le> 1"
    if "ss_kind s \<notin> {SrcBookmarks, SrcFavourites}"
    using that by (auto simp: account_source_branches_def collapse_implicit_account_scopes_def Let_def
        split: list.splits)
  have filtered: "length (filter P (ss_arguments s)) \<le> max 1 (length (ss_arguments s))" for P
    using length_filter_le[of P "ss_arguments s"] by linarith
  show "ss_kind s \<notin> {SrcBookmarks, SrcFavourites} \<longrightarrow>
      length (source_branches L s c) \<le> max 1 (length (ss_arguments s))"
    using lists tags account filtered
    by (cases "ss_kind s") (auto simp: source_branches_def unscoped_branch_def
        text_source_branches_def max.coboundedI1 max.coboundedI2)
qed

text \<open>The viewer of a branch is always one of the login accounts, so viewer states of other accounts
  are never consulted; and one source argument never opens two viewer scopes, except for the
  bookmark and favourite sources, which open one per account.\<close>

theorem source_branch_viewers:
  "(\<forall>b \<in> set (source_branches L s c). \<forall>acct. sb_viewer_account_acct b = Some acct \<longrightarrow>
      (\<exists>la \<in> set (ec_login_accounts c). selector_equal L (la_acct la) acct)) \<and>
   (ss_kind s \<notin> {SrcBookmarks, SrcFavourites} \<longrightarrow>
      length (source_branches L s c) \<le> max 1 (length (ss_arguments s)))"
  using source_branches_viewer source_branches_few by blast

text \<open>A concrete entry for the witnesses.\<close>

definition sample_status :: db_status where
  "sample_status = \<lparr>
     st_id = str ''1'', st_server_domain = str ''a.example'', st_uri = str ''https://a.example/1'',
     st_url = None, st_created_at = [], st_edited_at = None, st_account_id = str ''7'',
     st_content = str ''hello'', st_visibility = str ''public'', st_sensitive = False,
     st_spoiler_text = [], st_reblogs_count = 0, st_favourites_count = 3, st_replies_count = 0,
     st_in_reply_to_id = None, st_in_reply_to_account_id = None, st_reblog_of_id = None,
     st_language = None, st_pinned = None, st_favourited = None, st_reblogged = None,
     st_muted = None, st_bookmarked = None, st_poll_json = None, st_card_json = None,
     st_application_json = None, st_mentions_json = None, st_tags_json = None,
     st_emojis_json = None, st_media_attachments_json = None, st_fetched_at = [],
     st_quote_id = None, st_quote_original_url = None \<rparr>"

definition sample_context :: ctx where
  "sample_context =
     new_context \<lparr>sv_status = sample_status, sv_account = None\<rparr>
       (Some \<lparr>sv_status = sample_status, sv_account = None\<rparr>)"

lemma sample_context_ok: "context_ok ascii_lib sample_context"
  by (simp add: sample_context_def new_context_def context_ok_def view_ok_def status_ok_def
      sample_status_def ascii_lib_def i64_defs)

definition sample_account :: login_account_identity where
  "sample_account = \<lparr>la_acct = str ''me@a.example'', la_server_domain = str ''a.example'',
     la_account_id = str ''7'', la_display_name = str ''me'', la_server_kind = str ''mastodon'',
     la_is_active = True\<rparr>"

definition sample_list :: source_spec where
  "sample_list = \<lparr>ss_kind = SrcList, ss_arguments = [str ''3''], ss_span = mk_span 0 0\<rparr>"

theorem source_branch_viewers_witness:
  "{b \<in> set (source_branches ascii_lib sample_list
       (sample_context\<lparr>ec_login_accounts := [sample_account]\<rparr>)). \<exists>acct.
      sb_viewer_account_acct b = Some acct \<and>
      \<not> selector_equal ascii_lib (la_acct sample_account) acct} = {} \<and>
   length (source_branches ascii_lib sample_list
     (sample_context\<lparr>ec_login_accounts := [sample_account]\<rparr>)) \<le> 1"
  using source_branch_viewers[of ascii_lib sample_list
      "sample_context\<lparr>ec_login_accounts := [sample_account]\<rparr>"]
  by (auto simp: sample_list_def)

end
