(* ===== verification/KqEval.thy ===== *)
theory KqEval
imports KqParserProps KqContext
begin

text \<open>
  The KQ evaluator (\<^verbatim>\<open>Evaluator\<close> of \<^verbatim>\<open>src/src/services/kq_evaluator.rs\<close>): expressions are evaluated
  left to right with short-circuit connectives and a bounded cache of dynamic regular expressions,
  which is passed as state. \<open>meaning\<close> is the specification: a compositional, cache-free valuation
  over an arbitrary valuation of the fields, with Kleene's connectives. The theorems: the evaluator
  computes the meaning and keeps the cache valid and bounded; the meaning respects the static
  types; it is monotone in the information about the fields; a match is a true meaning on some
  branch of some source; and the parts of the context that the compiled query does not require are
  not consulted.
\<close>

section \<open>Regular expressions\<close>

definition max_regex_pattern_bytes :: nat where "max_regex_pattern_bytes = 4 * 1024"
definition max_regex_input_bytes :: nat where "max_regex_input_bytes = 1024 * 1024"
definition max_regex_cache_entries :: nat where "max_regex_cache_entries = 64"

definition dynamic_regex_options :: regex_options where
  "dynamic_regex_options = \<lparr>
     ro_case_insensitive = False, ro_size_limit = Some max_regex_input_bytes,
     ro_dfa_size_limit = None, ro_nest_limit = None \<rparr>"

text \<open>The map \<^verbatim>\<open>dynamic_regexes\<close>, as an association list.\<close>

type_synonym regex_cache = "(rstr \<times> regex option) list"

definition cache_regex :: "lib \<Rightarrow> rstr \<Rightarrow> regex_cache \<Rightarrow> regex_cache" where
  "cache_regex L pattern D =
     (if map_of D pattern = None then
        (pattern, regex_build L pattern dynamic_regex_options) #
          (if length D \<ge> max_regex_cache_entries then [] else D)
      else D)"

definition regex_result :: "lib \<Rightarrow> regex option \<Rightarrow> rstr \<Rightarrow> val" where
  "regex_result L rx input =
     (case rx of None \<Rightarrow> VBool TUnknown | Some r \<Rightarrow> boolean (lib_regex_is_match L r input))"

definition eval_regex :: "lib \<Rightarrow> regex_cache \<Rightarrow> val \<Rightarrow> val \<Rightarrow> regex option \<Rightarrow> val \<times> regex_cache" where
  "eval_regex L D input pattern literal =
     (case (text_parts input, text_parts pattern) of
        (Some (i, _), Some (p, _)) \<Rightarrow>
          if byte_len i > max_regex_input_bytes \<or> byte_len p > max_regex_pattern_bytes
          then (VBool TUnknown, D)
          else (case literal of
            Some r \<Rightarrow> (boolean (lib_regex_is_match L r i), D)
          | None \<Rightarrow>
              (let D = cache_regex L p D
               in (regex_result L (case map_of D p of None \<Rightarrow> None | Some rx \<Rightarrow> rx) i, D)))
      | _ \<Rightarrow> (VBool TUnknown, D))"

section \<open>Evaluation\<close>

function eval :: "lib \<Rightarrow> ctx \<Rightarrow> source_branch \<Rightarrow> regex_cache \<Rightarrow> expr \<Rightarrow> val \<times> regex_cache"
and eval_items ::
  "lib \<Rightarrow> ctx \<Rightarrow> source_branch \<Rightarrow> regex_cache \<Rightarrow> scalar_value list \<Rightarrow> expr list \<Rightarrow> val \<times> regex_cache"
where
  "eval L c b D (Expr (EBool v) t s) = (boolean v, D)"
| "eval L c b D (Expr (ENumber n) t s) = (VNumber n, D)"
| "eval L c b D (Expr (EText v) t s) = (text_value v, D)"
| "eval L c b D (Expr (EIdentity v) t s) = (VIdentity v, D)"
| "eval L c b D (Expr (ESet es) t s) = eval_items L c b D [] es"
| "eval L c b D (Expr (EField f) t s) = (field_value L f c b, D)"
| "eval L c b D (Expr (EUnary op e) t s) =
     (let (v, D) = eval L c b D e in (eval_unary op v, D))"
| "eval L c b D (Expr (EBinary op l r rx) t s) =
     (if op = BAnd then
        (let (lv, D) = eval L c b D l in
         if value_truth lv = TFalse then (VBool TFalse, D)
         else (let (rv, D) = eval L c b D r in
               (VBool (truth_and (value_truth lv) (value_truth rv)), D)))
      else if op = BOr then
        (let (lv, D) = eval L c b D l in
         if value_truth lv = TTrue then (VBool TTrue, D)
         else (let (rv, D) = eval L c b D r in
               (VBool (truth_or (value_truth lv) (value_truth rv)), D)))
      else
        (let (lv, D) = eval L c b D l; (rv, D) = eval L c b D r in
         if op = BRegex then eval_regex L D lv rv rx else (strict_binary L op lv rv, D)))"
| "eval_items L c b D vals [] = (VSet vals, D)"
| "eval_items L c b D vals (e # es) =
     (let (v, D) = eval L c b D e in
      case v of
        VSet nested \<Rightarrow> eval_items L c b D (push_all_unique L vals nested) es
      | VUnknown \<Rightarrow> (VUnknown, D)
      | VBool _ \<Rightarrow> (VUnknown, D)
      | _ \<Rightarrow>
          (case into_scalar v of
             None \<Rightarrow> (VUnknown, D)
           | Some x \<Rightarrow> eval_items L c b D (push_unique_scalar L vals x) es))"
  by pat_completeness auto
termination
  by (relation "measure (\<lambda>x. case x of Inl (L, c, b, D, e) \<Rightarrow> size e
      | Inr (L, c, b, D, vals, es) \<Rightarrow> size_list size es)") auto

fun match_branches ::
  "lib \<Rightarrow> ctx \<Rightarrow> regex_cache \<Rightarrow> expr \<Rightarrow> source_branch list \<Rightarrow> bool \<times> regex_cache" where
  "match_branches L c D e [] = (False, D)"
| "match_branches L c D e (b # bs) =
     (let (v, D) = eval L c b D e in
      if value_truth v = TTrue then (True, D) else match_branches L c D e bs)"

fun matches :: "lib \<Rightarrow> ctx \<Rightarrow> regex_cache \<Rightarrow> expr \<Rightarrow> source_spec list \<Rightarrow> bool \<times> regex_cache" where
  "matches L c D e [] = (False, D)"
| "matches L c D e (s # ss) =
     (let (m, D) = match_branches L c D e (source_branches L s c) in
      if m then (True, D) else matches L c D e ss)"

section \<open>The meaning of an expression\<close>

definition regex_meaning :: "lib \<Rightarrow> val \<Rightarrow> val \<Rightarrow> regex option \<Rightarrow> val" where
  "regex_meaning L input pattern literal =
     (case (text_parts input, text_parts pattern) of
        (Some (i, _), Some (p, _)) \<Rightarrow>
          if byte_len i > max_regex_input_bytes \<or> byte_len p > max_regex_pattern_bytes
          then VBool TUnknown
          else regex_result L (case literal of Some r \<Rightarrow> Some r
                 | None \<Rightarrow> regex_build L p dynamic_regex_options) i
      | _ \<Rightarrow> VBool TUnknown)"

text \<open>The elements of a set literal, collected from the values of its items.\<close>

fun collect :: "lib \<Rightarrow> scalar_value list \<Rightarrow> val list \<Rightarrow> val" where
  "collect L vals [] = VSet vals"
| "collect L vals (v # vs) =
     (case v of
        VSet nested \<Rightarrow> collect L (push_all_unique L vals nested) vs
      | _ \<Rightarrow>
          (case into_scalar v of
             None \<Rightarrow> VUnknown
           | Some x \<Rightarrow> collect L (push_unique_scalar L vals x) vs))"

fun meaning :: "lib \<Rightarrow> (field \<Rightarrow> val) \<Rightarrow> expr \<Rightarrow> val"
and meaning_kind :: "lib \<Rightarrow> (field \<Rightarrow> val) \<Rightarrow> expr_kind \<Rightarrow> val" where
  "meaning L F (Expr k t s) = meaning_kind L F k"
| "meaning_kind L F (EBool v) = boolean v"
| "meaning_kind L F (ENumber n) = VNumber n"
| "meaning_kind L F (EText v) = text_value v"
| "meaning_kind L F (EIdentity v) = VIdentity v"
| "meaning_kind L F (ESet es) = collect L [] (map (meaning L F) es)"
| "meaning_kind L F (EField f) = F f"
| "meaning_kind L F (EUnary op e) = eval_unary op (meaning L F e)"
| "meaning_kind L F (EBinary op l r rx) =
     (let lv = meaning L F l; rv = meaning L F r in
      if op = BAnd then VBool (truth_and (value_truth lv) (value_truth rv))
      else if op = BOr then VBool (truth_or (value_truth lv) (value_truth rv))
      else if op = BRegex then regex_meaning L lv rv rx
      else strict_binary L op lv rv)"

text \<open>The fields of a context, seen through a source branch.\<close>

abbreviation fields_of :: "lib \<Rightarrow> ctx \<Rightarrow> source_branch \<Rightarrow> field \<Rightarrow> val" where
  "fields_of L c b f \<equiv> field_value L f c b"

definition sample_leaf :: expr where
  "sample_leaf = Expr (EField FFavouritesCount) ty_number (mk_span 0 0)"

section \<open>The evaluator computes the meaning\<close>

definition cache_ok :: "lib \<Rightarrow> regex_cache \<Rightarrow> bool" where
  "cache_ok L D \<longleftrightarrow> distinct (map fst D) \<and> length D \<le> max_regex_cache_entries \<and>
     (\<forall>(p, rx) \<in> set D. rx = regex_build L p dynamic_regex_options)"

lemma cache_ok_Nil [simp]: "cache_ok L []"
  by (simp add: cache_ok_def)

lemma cache_ok_lookup: "cache_ok L D \<Longrightarrow> map_of D p = Some rx \<Longrightarrow> rx = regex_build L p dynamic_regex_options"
  by (auto simp: cache_ok_def dest: map_of_SomeD)

lemma cache_regex_ok: "cache_ok L D \<Longrightarrow> cache_ok L (cache_regex L p D)"
  by (auto simp: cache_regex_def cache_ok_def max_regex_cache_entries_def map_of_eq_None_iff)

lemma cache_regex_has: "map_of (cache_regex L p D) p \<noteq> None"
  by (simp add: cache_regex_def)

lemma eval_regex_meaning:
  assumes "cache_ok L D"
  shows "fst (eval_regex L D i p rx) = regex_meaning L i p rx \<and> cache_ok L (snd (eval_regex L D i p rx))"
proof -
  have "(case map_of (cache_regex L q D) q of None \<Rightarrow> None | Some rx \<Rightarrow> rx) =
      regex_build L q dynamic_regex_options" for q
    using cache_regex_has[of L q D] cache_ok_lookup[OF cache_regex_ok[OF assms]]
    by (auto split: option.splits)
  then show ?thesis
    using assms cache_regex_ok[OF assms]
    by (auto simp: eval_regex_def regex_meaning_def regex_result_def Let_def split: option.splits)
qed

text \<open>A fixed cache state is threaded through: the two facts that the recursion carries.\<close>

definition computes :: "lib \<Rightarrow> val \<Rightarrow> val \<times> regex_cache \<Rightarrow> bool" where
  "computes L v r \<longleftrightarrow> fst r = v \<and> cache_ok L (snd r)"

lemma computes_pair [simp]: "computes L v (v', D) \<longleftrightarrow> v' = v \<and> cache_ok L D"
  by (simp add: computes_def)

lemma computesE: "computes L v r \<Longrightarrow> (\<And>D. r = (v, D) \<Longrightarrow> cache_ok L D \<Longrightarrow> P) \<Longrightarrow> P"
  by (cases r) simp

lemma computes_regex: "cache_ok L D \<Longrightarrow> computes L (regex_meaning L i p rx) (eval_regex L D i p rx)"
  using eval_regex_meaning[of L D i p rx] by (simp add: computes_def)

lemma truth_and_False: "truth_and TFalse t = TFalse" and truth_or_True: "truth_or TTrue t = TTrue"
  by (simp_all add: truth_and_def truth_or_def)

lemma eval_computes:
  "cache_ok L D \<Longrightarrow> computes L (meaning L (fields_of L c b) e) (eval L c b D e)"
  "cache_ok L D \<Longrightarrow>
   computes L (collect L vals (map (meaning L (fields_of L c b)) es)) (eval_items L c b D vals es)"
proof (induction L c b D e and L c b D vals es rule: eval_eval_items.induct)
  case (7 L c b D op e t s)
  then show ?case by (auto elim!: computesE)
next
  case (8 L c b D op l r rx t s)
  show ?case
  proof (cases "op = BAnd \<or> op = BOr")
    case True
    then show ?thesis
    proof
      assume op: "op = BAnd"
      obtain D1 where l: "eval L c b D l = (meaning L (fields_of L c b) l, D1)" "cache_ok L D1"
        by (rule computesE[OF "8.IH"(1)[OF op "8.prems"]])
      show ?thesis
      proof (cases "value_truth (meaning L (fields_of L c b) l) = TFalse")
        case False
        with "8.IH"(2)[OF op l(1)[symmetric] refl False l(2)] op l show ?thesis
          by (auto elim!: computesE)
      qed (use op l in \<open>simp add: truth_and_False\<close>)
    next
      assume op: "op = BOr"
      then have na: "op \<noteq> BAnd" by simp
      obtain D1 where l: "eval L c b D l = (meaning L (fields_of L c b) l, D1)" "cache_ok L D1"
        by (rule computesE[OF "8.IH"(3)[OF na op "8.prems"]])
      show ?thesis
      proof (cases "value_truth (meaning L (fields_of L c b) l) = TTrue")
        case False
        with "8.IH"(4)[OF na op l(1)[symmetric] refl False l(2)] op l show ?thesis
          by (auto elim!: computesE)
      qed (use op l in \<open>simp add: truth_or_True\<close>)
    qed
  next
    case False
    then have op: "op \<noteq> BAnd" "op \<noteq> BOr" by auto
    obtain D1 where l: "eval L c b D l = (meaning L (fields_of L c b) l, D1)" "cache_ok L D1"
      by (rule computesE[OF "8.IH"(5)[OF op "8.prems"]])
    obtain D2 where r: "eval L c b D1 r = (meaning L (fields_of L c b) r, D2)" "cache_ok L D2"
      by (rule computesE[OF "8.IH"(6)[OF op l(1)[symmetric] refl l(2)]])
    show ?thesis
      using op l r computes_regex[OF r(2)] by simp
  qed
next
  case (10 L c b D vals e es)
  obtain D1 where e: "eval L c b D e = (meaning L (fields_of L c b) e, D1)" "cache_ok L D1"
    by (rule computesE[OF "10.IH"(1)[OF "10.prems"]])
  show ?case
    using "10.IH"(2-)[OF e(1)[symmetric] refl] e
    by (cases "meaning L (fields_of L c b) e") (auto simp: into_scalar_def)
qed simp_all

text \<open>C5: started from a valid cache, the evaluator returns the cache-free meaning of the expression,
  connectives evaluated without short circuits included, and leaves a valid cache of at most 64
  patterns.\<close>

theorem eval_meaning:
  assumes "cache_ok L D"
  shows "fst (eval L c b D e) = meaning L (fields_of L c b) e \<and> cache_ok L (snd (eval L c b D e))"
  using eval_computes(1)[OF assms] by (simp add: computes_def)

theorem eval_meaning_witness:
  "fst (eval ascii_lib sample_context unscoped [] sample_leaf) =
     meaning ascii_lib (fields_of ascii_lib sample_context unscoped) sample_leaf \<and>
   cache_ok ascii_lib (snd (eval ascii_lib sample_context unscoped [] sample_leaf))"
  by (rule eval_meaning) simp

section \<open>Matching\<close>

definition branch_matches :: "lib \<Rightarrow> ctx \<Rightarrow> expr \<Rightarrow> source_branch \<Rightarrow> bool" where
  "branch_matches L c e b \<longleftrightarrow> value_truth (meaning L (fields_of L c b) e) = TTrue"

definition query_matches :: "lib \<Rightarrow> ctx \<Rightarrow> expr \<Rightarrow> source_spec list \<Rightarrow> bool" where
  "query_matches L c e ss \<longleftrightarrow> (\<exists>s \<in> set ss. \<exists>b \<in> set (source_branches L s c). branch_matches L c e b)"

lemma match_branches_spec:
  assumes "cache_ok L D"
  shows "fst (match_branches L c D e bs) = (\<exists>b \<in> set bs. branch_matches L c e b) \<and>
    cache_ok L (snd (match_branches L c D e bs))"
  using assms
proof (induction bs arbitrary: D)
  case (Cons b bs)
  obtain D1 where "eval L c b D e = (meaning L (fields_of L c b) e, D1)" "cache_ok L D1"
    by (rule computesE[OF eval_computes(1)[OF Cons.prems]])
  then show ?case using Cons.IH[of D1] by (simp add: branch_matches_def)
qed simp

lemma matches_spec:
  assumes "cache_ok L D"
  shows "fst (matches L c D e ss) = query_matches L c e ss \<and> cache_ok L (snd (matches L c D e ss))"
  using assms
proof (induction ss arbitrary: D)
  case (Cons s ss)
  obtain m D1 where m: "match_branches L c D e (source_branches L s c) = (m, D1)" by fastforce
  then have "m = (\<exists>b \<in> set (source_branches L s c). branch_matches L c e b)" "cache_ok L D1"
    using match_branches_spec[OF Cons.prems, of c e "source_branches L s c"] by simp_all
  then show ?case using m Cons.IH[of D1] by (auto simp: query_matches_def)
qed (simp add: query_matches_def)

text \<open>C8: an entry matches a query exactly if the predicate means true on some branch of some source:
  neither the order of the sources nor the cache changes the answer, and each viewer's branch is
  judged on its own.\<close>

theorem matches_iff:
  assumes "cache_ok L D"
  shows "fst (matches L c D e ss) = query_matches L c e ss \<and> cache_ok L (snd (matches L c D e ss))"
  using assms by (rule matches_spec)

theorem matches_iff_witness:
  "fst (matches ascii_lib sample_context [] sample_leaf []) =
     query_matches ascii_lib sample_context sample_leaf [] \<and>
   cache_ok ascii_lib (snd (matches ascii_lib sample_context [] sample_leaf []))"
  by (rule matches_iff) simp

section \<open>Static types are respected\<close>

lemma collect_type: "has_type (collect L vals vs) ty_set"
  by (induction L vals vs rule: collect.induct) (auto split: val.splits option.splits)

lemma regex_meaning_type: "has_type (regex_meaning L i p rx) ty_bool"
  by (auto simp: regex_meaning_def regex_result_def split: option.splits)

text \<open>What the evaluator needs from the fields: values of the static type.\<close>

locale typed_fields =
  fixes F :: "field \<Rightarrow> val"
  assumes field_type: "has_type (F f) (field_value_types f)"
begin

lemma meaning_type:
  "well_typed L lim e \<Longrightarrow> has_type (meaning L F e) (e_types e)"
  "well_typed_kind L lim k t \<Longrightarrow> has_type (meaning_kind L F k) t"
proof (induction L lim e and L lim k t rule: well_typed_well_typed_kind.induct)
  case (6 L lim es t)
  then show ?case using collect_type by simp
next
  case (8 L lim op e t)
  then show ?case
    by (cases op; cases "meaning L F e") (auto simp: eval_unary_def unary_required_def
        split: option.splits)
next
  case (9 L lim op l r rx t)
  have lr: "e_types l \<in> set basic_types" "e_types r \<in> set basic_types"
    using 9(3) well_typed_basic(1) by auto
  have t: "binary_result_types op (e_types l) (e_types r) = Some t" using 9(3) by simp
  have "op \<in> {BAnd, BOr, BRegex} \<Longrightarrow> t = ty_bool"
    using binary_result_cases[OF lr t] by (auto simp: arithmetic_ops_def)
  then show ?case
    using 9 strict_binary_type[OF lr t] regex_meaning_type by (auto simp: Let_def)
qed (auto simp: field_type)

end

interpretation context_fields: typed_fields "fields_of L c b" for L c b
  by unfold_locales (rule field_value_type)

text \<open>C7: type soundness: the value of a compiled expression is unknown or has its static type, in every
  context and on every branch; the predicate of a compiled query never evaluates to anything but a
  truth value or unknown.\<close>

theorem meaning_typed:
  assumes "well_typed L lim e"
  shows "has_type (meaning L (fields_of L c b) e) (e_types e)"
  by (rule context_fields.meaning_type(1)[OF assms])

theorem meaning_typed_witness:
  "has_type (meaning ascii_lib (fields_of ascii_lib sample_context unscoped) sample_leaf)
     (e_types sample_leaf)"
  by (rule meaning_typed[of ascii_lib default_limits])
    (simp add: sample_leaf_def field_value_types_def)

section \<open>Values stay well-formed\<close>

lemma collect_ok:
  "set_ok L vals \<Longrightarrow> \<forall>v \<in> set vs. val_ok L v \<Longrightarrow> val_ok L (collect L vals vs)"
proof (induction L vals vs rule: collect.induct)
  case (2 L vals v vs)
  have "\<forall>w \<in> set ws. scalar_ok w" if "v = VSet ws" for ws
    using "2.prems"(2) that by (auto dest: set_ok_scalar)
  then show ?case
    using 2 by (cases v) (simp_all add: into_scalar_def push_unique_scalar_ok push_all_unique_ok)
qed simp

lemma meaning_ok:
  assumes "\<And>f. val_ok L (F f)"
  shows "well_typed L lim e \<Longrightarrow> val_ok L (meaning L F e)"
    and "well_typed_kind L lim k t \<Longrightarrow> val_ok L (meaning_kind L F k)"
  using assms
proof (induction L lim e and L lim k t rule: well_typed_well_typed_kind.induct)
  case (6 L lim es t)
  then show ?case by (auto intro!: collect_ok)
next
  case (8 L lim op e t)
  then show ?case by (simp add: eval_unary_ok)
next
  case (9 L lim op l r rx t)
  then show ?case
    by (auto simp: Let_def strict_binary_ok regex_meaning_def regex_result_def split: option.splits)
qed simp_all

text \<open>Over rows of 64-bit integers every value of a compiled expression is well-formed: its number
  is a 64-bit integer, its set has pairwise unequal elements.\<close>

theorem meaning_well_formed:
  assumes "context_ok L c" and "well_typed L lim e"
  shows "val_ok L (meaning L (fields_of L c b) e)"
  by (rule meaning_ok(1)[OF field_value_ok[OF assms(1)] assms(2)])

theorem meaning_well_formed_witness:
  "val_ok ascii_lib (meaning ascii_lib (fields_of ascii_lib sample_context unscoped) sample_leaf)"
  by (rule meaning_well_formed[OF sample_context_ok, of default_limits])
    (simp add: sample_leaf_def field_value_types_def)

section \<open>Compiled queries carry their regular expressions\<close>

lemma eval_keeps_cache:
  "well_typed L lim e \<Longrightarrow> snd (eval L c b D e) = D"
  "(\<forall>e \<in> set es. well_typed L lim e) \<Longrightarrow> snd (eval_items L c b D vals es) = D"
proof (induction L c b D e and L c b D vals es rule: eval_eval_items.induct)
  case (7 L c b D op e t s)
  then show ?case by (auto split: prod.splits)
next
  case (8 L c b D op l r rx t s)
  then have rx: "op = BRegex \<Longrightarrow> rx \<noteq> None"
    by (auto simp: regex_ok_def split: expr_kind.splits)
  have keep: "snd (eval_regex L D i p rx) = D" if "rx \<noteq> None" for i p D
    using that by (auto simp: eval_regex_def split: option.splits)
  show ?case
    using "8.IH" "8.prems" keep rx
    by (auto simp: Let_def split: prod.splits) (metis snd_conv)+
next
  case (10 L c b D vals e es)
  obtain v D1 where e: "eval L c b D e = (v, D1)" by fastforce
  with "10.IH"(1) "10.prems" have D1: "D1 = D" by (metis list.set_intros(1) snd_conv)
  show ?case
    using "10.IH"(2-)[OF e[symmetric] refl] "10.prems" e D1
    by (cases v) (auto simp: into_scalar_def)
qed simp_all

lemma match_branches_keeps_cache:
  assumes "well_typed L lim e"
  shows "snd (match_branches L c D e bs) = D"
proof (induction bs)
  case (Cons b bs)
  obtain v D1 where e: "eval L c b D e = (v, D1)" by fastforce
  with eval_keeps_cache(1)[OF assms, of c b D] have "D1 = D" by simp
  with e Cons show ?case by simp
qed simp

text \<open>Evaluating a compiled query never compiles a regular expression: the cache of dynamic patterns
  is left as it was.\<close>

theorem compiled_query_keeps_cache:
  assumes "compile_query_with_limits L lim q = Done cq"
  shows "snd (matches L c D (cq_predicate cq) (cq_sources cq)) = D"
proof -
  have wt: "well_typed L lim (cq_predicate cq)"
    using compile_query_ok[OF assms] by (simp add: query_ok_def predicate_ok_def)
  have "snd (matches L c D (cq_predicate cq) ss) = D" for ss
  proof (induction ss)
    case (Cons s ss)
    obtain m D1 where m: "match_branches L c D (cq_predicate cq) (source_branches L s c) = (m, D1)"
      by fastforce
    with match_branches_keeps_cache[OF wt, of c D "source_branches L s c"] have "D1 = D" by simp
    with m Cons show ?case by simp
  qed simp
  then show ?thesis .
qed

theorem compiled_query_keeps_cache_witness:
  "\<exists>cq. compile_query_with_limits ascii_lib default_limits sample_query = Done cq \<and>
     snd (matches ascii_lib sample_context [] (cq_predicate cq) (cq_sources cq)) = []"
proof -
  obtain cq where cq: "compile_query_with_limits ascii_lib default_limits sample_query = Done cq"
    using sample_query_compiles by (rule is_doneE)
  from cq compiled_query_keeps_cache[OF cq, of sample_context "[]"] show ?thesis by blast
qed

section \<open>Monotonicity in the information about the fields\<close>

lemma collect_mono: "list_all2 info_le vs ws \<Longrightarrow> info_le (collect L vals vs) (collect L vals ws)"
proof (induction vs arbitrary: vals ws)
  case (Cons v vs)
  then obtain w ws' where ws: "ws = w # ws'" "info_le v w" "list_all2 info_le vs ws'"
    by (auto simp: list_all2_Cons1)
  show ?case
  proof (cases "v = w")
    case True
    then show ?thesis using ws Cons.IH by (auto split: val.splits option.splits)
  next
    case False
    with ws(2) have "undecided v" by (auto simp: info_le_cases undecided_def)
    then show ?thesis by (auto simp: ws(1) undecided_def into_scalar_def)
  qed
qed simp

lemma regex_meaning_shape: "\<exists>t. regex_meaning L i p rx = VBool t"
  by (auto simp: regex_meaning_def regex_result_def boolean_def split: option.splits)

lemma regex_meaning_undecided:
  "undecided i \<or> undecided p \<Longrightarrow> regex_meaning L i p rx = VBool TUnknown"
  by (auto simp: undecided_def regex_meaning_def text_parts_def split: option.splits val.splits)

lemma regex_meaning_mono:
  assumes "info_le i i'" and "info_le p p'"
  shows "info_le (regex_meaning L i p rx) (regex_meaning L i' p' rx)"
proof (cases "i = i' \<and> p = p'")
  case False
  then have "undecided i \<or> undecided p" using assms by (auto simp: info_le_cases undecided_def)
  from regex_meaning_undecided[OF this] show ?thesis
    using regex_meaning_shape[of L i' p' rx] by auto
qed simp

text \<open>Two valuations of the fields, the second one with more information.\<close>

locale refined_fields =
  fixes F F' :: "field \<Rightarrow> val"
  assumes refines: "info_le (F f) (F' f)"
begin

lemma meaning_refines:
  "info_le (meaning L F e) (meaning L F' e)"
  "info_le (meaning_kind L F k) (meaning_kind L F' k)"
proof (induction e and k)
  case (ESet es)
  then show ?case by (auto intro!: collect_mono simp: list_all2_map1 list_all2_map2 list_all2_same)
next
  case (EUnary op e)
  then show ?case by (simp add: eval_unary_mono)
next
  case (EBinary op l r rx)
  then show ?case
    using truth_connectives_mono(1,2)[OF value_truth_mono value_truth_mono]
    by (simp add: Let_def strict_binary_mono regex_meaning_mono)
qed (simp_all add: refines)

lemma true_stays_true:
  "value_truth (meaning L F e) = TTrue \<Longrightarrow> value_truth (meaning L F' e) = TTrue"
  using value_truth_mono[OF meaning_refines(1)[of L e]] by (auto simp: truth_info_def)

lemma false_stays_false:
  "value_truth (meaning L F e) = TFalse \<Longrightarrow> value_truth (meaning L F' e) = TFalse"
  using value_truth_mono[OF meaning_refines(1)[of L e]] by (auto simp: truth_info_def)

end

text \<open>A boost whose original is not cached: the entry without its effective status.\<close>

definition unresolved :: "ctx \<Rightarrow> ctx" where
  "unresolved c = c\<lparr>ec_effective := None\<rparr>"

lemma unresolved_sel [simp]:
  "ec_wrapper (unresolved c) = ec_wrapper c" "ec_effective (unresolved c) = None"
  "ec_login_accounts (unresolved c) = ec_login_accounts c"
  "ec_memberships (unresolved c) = ec_memberships c"
  "ec_conversation_keys (unresolved c) = ec_conversation_keys c"
  "effective_status (unresolved c) = None"
  by (simp_all add: unresolved_def effective_status_def)

lemma unresolved_field: "info_le (field_value L f (unresolved c) b) (field_value L f c b)"
proof -
  have "booster_field_value f (unresolved c) = booster_field_value f c"
    unfolding booster_field_value_def unresolved_sel ..
  moreover have "viewer_state L (unresolved c) v g = TUnknown" for v g
    by (simp add: viewer_state_def split: option.splits)
  then have "info_le (viewer_field_value L f (unresolved c) b) (viewer_field_value L f c b)"
    by (simp add: viewer_field_value_def Let_def)
  ultimately show ?thesis
    by (simp add: field_value_def quote_field_value_def effective_field_value_def)
qed

interpretation unresolved_boost: refined_fields "fields_of L (unresolved c) b" "fields_of L c b" for L c b
  by unfold_locales (rule unresolved_field)

lemma unresolved_branches: "set (source_branches L s (unresolved c)) \<subseteq> set (source_branches L s c)"
proof -
  have m: "membership_matches L (unresolved c) = membership_matches L c"
    by (simp add: membership_matches_def fun_eq_iff)
  have acc: "account_source_branches L s (unresolved c) = account_source_branches L s c \<or>
      account_source_branches L s (unresolved c) = []"
  proof (cases "ss_kind s \<in> {SrcHome, SrcPublic, SrcLocalPublic}")
    case True
    then have "account_source_matches L (ss_kind s) (unresolved c) =
        account_source_matches L (ss_kind s) c"
      by (auto simp: account_source_matches_def m fun_eq_iff)
    then show ?thesis
      by (simp add: account_source_branches_def)
  next
    case False
    then have "\<not> account_source_matches L (ss_kind s) (unresolved c) la" for la
      by (cases "ss_kind s") (simp_all add: account_source_matches_def mentions_login_account_def
          viewer_state_def Let_def)
    then show ?thesis
      by (simp add: account_source_branches_def collapse_implicit_account_scopes_def)
  qed
  have lists: "list_source_branches L s (unresolved c) = list_source_branches L s c"
    unfolding list_source_branches_def m unresolved_sel ..
  have tags: "hashtag_source_branches L t (unresolved c) = hashtag_source_branches L t c" for t
    unfolding hashtag_source_branches_def unresolved_sel ..
  have user: "author_matches_selector L (unresolved c) = author_matches_selector L c"
    by (rule ext, unfold author_matches_selector_def unresolved_sel, rule refl)
  show ?thesis
    using acc by (cases "ss_kind s")
      (auto simp: source_branches_def text_source_branches_def lists tags user unscoped_branch_def
        conversation_source_matches_def)
qed

text \<open>No answer is taken back when a boost is resolved: an entry that matches while the boosted status
  is missing still matches once it is loaded.\<close>

theorem resolving_keeps_matches:
  assumes "query_matches L (unresolved c) e ss"
  shows "query_matches L c e ss"
  using assms unresolved_branches unresolved_boost.true_stays_true
  unfolding query_matches_def branch_matches_def by blast

definition everything :: "source_spec list" where
  "everything = [\<lparr>ss_kind = SrcLocal, ss_arguments = [], ss_span = mk_span 0 0\<rparr>]"

definition always :: expr where
  "always = Expr (EBool True) ty_bool (mk_span 0 0)"

theorem resolving_keeps_matches_witness: "query_matches ascii_lib sample_context always everything"
  by (rule resolving_keeps_matches)
    (simp add: query_matches_def everything_def always_def branch_matches_def source_branches_def
      unscoped_branch_def value_truth_def boolean_def)

section \<open>What a meaning depends on\<close>

lemma meaning_cong:
  "(\<And>f. f \<in> set (visit_fields e) \<Longrightarrow> F f = F' f) \<Longrightarrow> meaning L F e = meaning L F' e"
  "(\<And>f. f \<in> set (visit_kind k) \<Longrightarrow> F f = F' f) \<Longrightarrow> meaning_kind L F k = meaning_kind L F' k"
proof (induction e and k)
  case (ESet es)
  have "meaning L F e = meaning L F' e" if e: "e \<in> set es" for e
  proof (rule ESet.IH[OF e])
    fix f
    assume "f \<in> set (visit_fields e)"
    with e show "F f = F' f" by (intro ESet.prems) auto
  qed
  then show ?case by (simp cong: map_cong)
qed (simp_all add: Let_def)

end
