(* ===== verification/KqTimeline.thy ===== *)
theory KqTimeline
imports KqEval "HOL-Library.List_Lexorder"
begin

text \<open>
  The bounded timeline scan (\<^verbatim>\<open>src/src/services/kq_timeline.rs\<close>): the query budget, the cache of
  compiled queries, the part of the context that is loaded for a query, and the page loop of
  \<^verbatim>\<open>query_statuses\<close>. The database is the argument \<open>se_fetch\<close>, which answers the page statement for
  a cursor and a limit, and \<open>se_hydrate\<close>, which loads the rows' contexts; both may fail. The
  cancellation token and the clock are read once per guard, and \<open>se_cancelled\<close> and \<open>se_expired\<close>
  say what the n-th guard sees. The theorems: the budget is bounded; the cache is bounded, without
  duplicates and transparent; loading only what the query requires changes no answer; and a scan
  ends with an error or with exactly the page of matches that was asked for.
\<close>

section \<open>Budgets\<close>

definition filter_page_size :: nat where "filter_page_size = 250"
definition min_scanned_rows :: nat where "min_scanned_rows = 25000"
definition absolute_max_scanned_rows :: nat where "absolute_max_scanned_rows = 2000000"
definition min_query_duration :: nat where "min_query_duration = 10000"
definition max_query_duration :: nat where "max_query_duration = 25000"
definition query_duration_per_100k :: nat where "query_duration_per_100k = 1000"

definition usize_max :: nat where "usize_max = 2 ^ 64 - 1"
definition u32_max :: nat where "u32_max = 2 ^ 32 - 1"

text \<open>Durations are milliseconds; their saturation limit is far above the clamp.\<close>

record query_budget =
  qb_max_scanned_rows :: nat
  qb_max_duration :: nat

definition for_status_count :: "nat \<Rightarrow> query_budget" where
  "for_status_count status_count =
     (let rows = max min_scanned_rows
            (min (min (status_count + filter_page_size) usize_max) absolute_max_scanned_rows);
          row_steps = max ((status_count + 99999) div 100000) 1;
          adaptive = min_query_duration + query_duration_per_100k * min row_steps u32_max
      in \<lparr>qb_max_scanned_rows = rows, qb_max_duration = min adaptive max_query_duration\<rparr>)"

lemmas budget_defs = for_status_count_def filter_page_size_def min_scanned_rows_def
  absolute_max_scanned_rows_def min_query_duration_def max_query_duration_def
  query_duration_per_100k_def usize_max_def u32_max_def

text \<open>A budget lies between its fixed bounds and grows with the cache, and below the absolute limit
  it is larger than the cache by a page, so that a scan of the whole cache fits into it.\<close>

theorem budget_bounds:
  "25000 \<le> qb_max_scanned_rows (for_status_count n) \<and> qb_max_scanned_rows (for_status_count n) \<le> 2000000 \<and>
   10000 \<le> qb_max_duration (for_status_count n) \<and> qb_max_duration (for_status_count n) \<le> 25000 \<and>
   (n + 250 \<le> 2000000 \<longrightarrow> n < qb_max_scanned_rows (for_status_count n)) \<and>
   (m \<le> n \<longrightarrow> qb_max_scanned_rows (for_status_count m) \<le> qb_max_scanned_rows (for_status_count n) \<and>
      qb_max_duration (for_status_count m) \<le> qb_max_duration (for_status_count n))"
proof (intro conjI impI)
  show "qb_max_scanned_rows (for_status_count m) \<le> qb_max_scanned_rows (for_status_count n)" if "m \<le> n"
    using that unfolding budget_defs Let_def
    by (simp only: query_budget.simps, intro max.mono min.mono add_mono order_refl)
  show "qb_max_duration (for_status_count m) \<le> qb_max_duration (for_status_count n)" if "m \<le> n"
    using that unfolding budget_defs Let_def
    by (simp only: query_budget.simps, intro max.mono min.mono add_mono order_refl mult_le_mono div_le_mono)
qed (simp_all add: budget_defs Let_def)

theorem budget_bounds_witness:
  "300000 < qb_max_scanned_rows (for_status_count 300000) \<and>
   qb_max_scanned_rows (for_status_count 7) \<le> qb_max_scanned_rows (for_status_count 300000)"
  using budget_bounds[of 300000 7] by simp

section \<open>The cache of compiled queries\<close>

definition compiled_query_cache_capacity :: nat where "compiled_query_cache_capacity = 64"
definition max_cached_query_bytes :: nat where "max_cached_query_bytes = 16 * 1024"

type_synonym query_cache = "(rstr \<times> compiled_query) list"

text \<open>\<^verbatim>\<open>Iterator::position\<close>.\<close>

fun position :: "('a \<Rightarrow> bool) \<Rightarrow> 'a list \<Rightarrow> nat option" where
  "position P [] = None"
| "position P (x # xs) = (if P x then Some 0 else map_option Suc (position P xs))"

lemma position_Some:
  "position P xs = Some i \<Longrightarrow> i < length xs \<and> P (xs ! i) \<and> (\<forall>x \<in> set (take i xs). \<not> P x)"
  by (induction xs arbitrary: i) (auto split: if_splits)

lemma position_None: "position P xs = None \<longleftrightarrow> (\<forall>x \<in> set xs. \<not> P x)"
  by (induction xs) auto

lemma position_takeWhile:
  "takeWhile (\<lambda>x. \<not> P x) xs = (case position P xs of None \<Rightarrow> xs | Some i \<Rightarrow> take i xs)"
  by (induction xs) (auto split: option.splits)

definition cache_get :: "rstr \<Rightarrow> query_cache \<Rightarrow> compiled_query option \<times> query_cache" where
  "cache_get query entries =
     (case position (\<lambda>(cached, _). cached = query) entries of
        None \<Rightarrow> (None, entries)
      | Some i \<Rightarrow>
          (Some (snd (entries ! i)), entries ! i # take i entries @ drop (Suc i) entries))"

definition cache_insert :: "rstr \<Rightarrow> compiled_query \<Rightarrow> query_cache \<Rightarrow> query_cache" where
  "cache_insert query compiled entries =
     take compiled_query_cache_capacity
       ((query, compiled) # filter (\<lambda>(cached, _). cached \<noteq> query) entries)"

definition compile_query_cached ::
  "lib \<Rightarrow> rstr \<Rightarrow> query_cache \<Rightarrow> compiled_query outcome \<times> query_cache" where
  "compile_query_cached L query entries =
     (let (hit, entries) =
        (if byte_len query \<le> max_cached_query_bytes then cache_get query entries else (None, entries))
      in case hit of
        Some compiled \<Rightarrow> (Done compiled, entries)
      | None \<Rightarrow>
          (case compile_query L query of
             Done compiled \<Rightarrow>
               (Done compiled,
                if byte_len query \<le> max_cached_query_bytes
                then cache_insert query compiled entries else entries)
           | r \<Rightarrow> (r, entries)))"

definition query_cache_ok :: "lib \<Rightarrow> query_cache \<Rightarrow> bool" where
  "query_cache_ok L entries \<longleftrightarrow> distinct (map fst entries) \<and>
     length entries \<le> compiled_query_cache_capacity \<and>
     (\<forall>(q, compiled) \<in> set entries. compile_query L q = Done compiled \<and>
        byte_len q \<le> max_cached_query_bytes)"

lemma move_to_front:
  assumes "i < length xs"
  shows "set (xs ! i # take i xs @ drop (Suc i) xs) = set xs"
    and "length (xs ! i # take i xs @ drop (Suc i) xs) = length xs"
    and "distinct (map f xs) \<Longrightarrow> distinct (map f (xs ! i # take i xs @ drop (Suc i) xs))"
proof -
  have xs: "xs = take i xs @ xs ! i # drop (Suc i) xs" by (rule id_take_nth_drop[OF assms])
  show "set (xs ! i # take i xs @ drop (Suc i) xs) = set xs"
    by (subst (4) xs) auto
  show "length (xs ! i # take i xs @ drop (Suc i) xs) = length xs"
    using assms by simp
  show "distinct (map f (xs ! i # take i xs @ drop (Suc i) xs))" if "distinct (map f xs)"
    using that by (subst (asm) xs) auto
qed

lemma cache_get_ok:
  assumes "query_cache_ok L entries" and "cache_get query entries = (hit, entries')"
  shows "query_cache_ok L entries'" and "hit = Some cq \<Longrightarrow> compile_query L query = Done cq"
proof -
  have "query_cache_ok L entries' \<and> (\<forall>cq. hit = Some cq \<longrightarrow> compile_query L query = Done cq)"
  proof (cases "position (\<lambda>(cached, _). cached = query) entries")
    case None
    with assms show ?thesis by (simp add: cache_get_def)
  next
    case (Some i)
    then have i: "i < length entries" "fst (entries ! i) = query"
      using position_Some[OF Some] by (auto split: prod.splits)
    have "(query, snd (entries ! i)) \<in> set entries"
      using nth_mem[OF i(1)] i(2) by (metis prod.collapse)
    then have "compile_query L query = Done (snd (entries ! i))"
      using assms(1) by (auto simp: query_cache_ok_def)
    moreover have "entries' = entries ! i # take i entries @ drop (Suc i) entries"
      "hit = Some (snd (entries ! i))"
      using assms(2) Some by (simp_all add: cache_get_def)
    moreover have "query_cache_ok L (entries ! i # take i entries @ drop (Suc i) entries)"
      unfolding query_cache_ok_def move_to_front(1,2)[OF i(1)]
      using assms(1)[unfolded query_cache_ok_def] move_to_front(3)[OF i(1), of fst] by blast
    ultimately show ?thesis by simp
  qed
  then show "query_cache_ok L entries'" and "hit = Some cq \<Longrightarrow> compile_query L query = Done cq"
    by auto
qed

lemma cache_insert_ok:
  assumes "query_cache_ok L entries" and "compile_query L query = Done cq"
    and "byte_len query \<le> max_cached_query_bytes"
  shows "query_cache_ok L (cache_insert query cq entries)"
proof -
  let ?all = "(query, cq) # filter (\<lambda>(cached, _). cached \<noteq> query) entries"
  have "distinct (map fst ?all)"
    using assms(1) by (auto simp: query_cache_ok_def distinct_map inj_on_def)
  then have "distinct (map fst (take compiled_query_cache_capacity ?all))"
    by (metis distinct_take take_map)
  moreover have "\<forall>(q, compiled) \<in> set ?all. compile_query L q = Done compiled \<and>
      byte_len q \<le> max_cached_query_bytes"
    using assms by (auto simp: query_cache_ok_def)
  then have "\<forall>(q, compiled) \<in> set (take compiled_query_cache_capacity ?all).
      compile_query L q = Done compiled \<and> byte_len q \<le> max_cached_query_bytes"
    by (meson in_set_takeD)
  ultimately show ?thesis
    unfolding query_cache_ok_def cache_insert_def by simp
qed

text \<open>The cache of compiled queries is transparent and bounded: a cached compilation answers what the
  compiler answers, and at most 64 different queries of at most 16 KiB are kept.\<close>

theorem compile_query_cached_transparent:
  assumes "query_cache_ok L entries"
  shows "fst (compile_query_cached L query entries) = compile_query L query \<and>
    query_cache_ok L (snd (compile_query_cached L query entries))"
proof -
  obtain hit entries' where h: "(if byte_len query \<le> max_cached_query_bytes
      then cache_get query entries else (None, entries)) = (hit, entries')" by fastforce
  then have "query_cache_ok L entries'" "\<And>cq. hit = Some cq \<Longrightarrow> compile_query L query = Done cq"
    using assms cache_get_ok[OF assms] by (auto split: if_splits)
  then show ?thesis
    using cache_insert_ok[of L entries' query]
    by (auto simp: compile_query_cached_def h split: option.splits outcome.splits)
qed

theorem compile_query_cached_transparent_witness:
  "fst (compile_query_cached ascii_lib sample_query []) = compile_query ascii_lib sample_query \<and>
   query_cache_ok ascii_lib (snd (compile_query_cached ascii_lib sample_query []))"
  by (rule compile_query_cached_transparent) (simp add: query_cache_ok_def)

section \<open>What is loaded for a query\<close>

definition query_uses_viewer_state_source :: "source_spec list \<Rightarrow> bool" where
  "query_uses_viewer_state_source ss \<longleftrightarrow>
     (\<exists>s \<in> set ss. ss_kind s \<in> {SrcBookmarks, SrcFavourites})"

definition sources_need_login_accounts :: "source_spec list \<Rightarrow> bool" where
  "sources_need_login_accounts ss \<longleftrightarrow>
     (\<exists>s \<in> set ss. ss_kind s \<in> {SrcHome, SrcList, SrcMentions, SrcDirect, SrcPublic, SrcLocalPublic,
        SrcBookmarks, SrcFavourites})"

text \<open>The context of a row as the scan builds it: the parts that the requirements do not name are
  left empty.\<close>

definition loaded_context :: "query_requirements \<Rightarrow> source_spec list \<Rightarrow> ctx \<Rightarrow> ctx" where
  "loaded_context rq ss c = \<lparr>
     ec_wrapper = ec_wrapper c,
     ec_effective = ec_effective c,
     ec_quote = (if rq_quote_status rq then ec_quote c else None),
     ec_login_accounts =
       (if rq_login_accounts rq \<or> rq_viewer_states rq \<or> query_uses_viewer_state_source ss \<or>
           sources_need_login_accounts ss
        then ec_login_accounts c else []),
     ec_memberships =
       (if rq_memberships rq \<or> rq_viewer_states rq \<or> query_uses_viewer_state_source ss
        then ec_memberships c else []),
     ec_viewer_states =
       (if rq_viewer_states rq \<or> query_uses_viewer_state_source ss then ec_viewer_states c else []),
     ec_conversation_keys = (if rq_conversations rq then ec_conversation_keys c else []) \<rparr>"

lemmas loaded_flags = query_requirements_of_def require_fields_sel query_uses_viewer_state_source_def

lemma loaded_branches:
  assumes "s \<in> set ss"
  shows "source_branches L s (loaded_context (query_requirements_of ss e) ss c) = source_branches L s c"
  by (rule source_branches_independent)
    (use assms in \<open>auto simp: loaded_context_def loaded_flags Let_def\<close>)

lemma loaded_field:
  assumes "f \<in> set (visit_fields e)"
  shows "field_value L f (loaded_context (query_requirements_of ss e) ss c) b = field_value L f c b"
  by (rule field_value_independent)
    (use assms in \<open>auto simp: loaded_context_def loaded_flags Let_def quote_fields_def
      viewer_fields_def\<close>)

lemma loaded_query_matches:
  "query_matches L (loaded_context (query_requirements_of ss e) ss c) e ss = query_matches L c e ss"
proof -
  have "meaning L (fields_of L (loaded_context (query_requirements_of ss e) ss c) b) e =
      meaning L (fields_of L c b) e" for b
    by (rule meaning_cong(1)) (rule loaded_field)
  then have "branch_matches L (loaded_context (query_requirements_of ss e) ss c) e =
      branch_matches L c e"
    by (simp add: branch_matches_def fun_eq_iff)
  then show ?thesis
    using loaded_branches[of _ ss L e c] by (simp add: query_matches_def)
qed

text \<open>Loading only what the compiled query requires changes no answer: on the reduced context every
  entry matches exactly when it matches on the full one.\<close>

theorem requirements_sufficient:
  "query_matches L (loaded_context (query_requirements_of ss e) ss c) e ss = query_matches L c e ss"
  by (rule loaded_query_matches)

section \<open>Cursors\<close>

record timeline_cursor =
  tc_created_at :: rstr
  tc_server_domain :: rstr
  tc_id :: rstr

definition cursor_of :: "db_status \<Rightarrow> timeline_cursor" where
  "cursor_of r = \<lparr>tc_created_at = st_created_at r, tc_server_domain = st_server_domain r,
     tc_id = st_id r\<rparr>"

text \<open>The condition that the page statement adds for a cursor; texts compare by code points, as their
  UTF-8 bytes do.\<close>

definition row_before :: "db_status \<Rightarrow> timeline_cursor \<Rightarrow> bool" where
  "row_before r k \<longleftrightarrow>
     st_created_at r < tc_created_at k \<or>
     (st_created_at r = tc_created_at k \<and>
      (st_server_domain r < tc_server_domain k \<or>
       (st_server_domain r = tc_server_domain k \<and> st_id r < tc_id k)))"

definition row_after :: "db_status \<Rightarrow> timeline_cursor \<Rightarrow> bool" where
  "row_after r k \<longleftrightarrow>
     st_created_at r > tc_created_at k \<or>
     (st_created_at r = tc_created_at k \<and>
      (st_server_domain r > tc_server_domain k \<or>
       (st_server_domain r = tc_server_domain k \<and> st_id r > tc_id k)))"

definition satisfies :: "(db_status \<Rightarrow> timeline_cursor \<Rightarrow> bool) \<Rightarrow> timeline_cursor option \<Rightarrow> db_status \<Rightarrow> bool"
where
  "satisfies cond k r = (case k of None \<Rightarrow> True | Some c \<Rightarrow> cond r c)"

text \<open>The order of the page statement, newest first.\<close>

definition listed_before :: "db_status \<Rightarrow> db_status \<Rightarrow> bool" where
  "listed_before a b \<longleftrightarrow> row_before b (cursor_of a)"

text \<open>The page statement over the candidates of the source plan, listed newest first.\<close>

definition page_statement ::
  "db_status list \<Rightarrow> timeline_cursor option \<Rightarrow> timeline_cursor option \<Rightarrow> nat \<Rightarrow> db_status list" where
  "page_statement candidates stop cursor n =
     take n (filter (\<lambda>r. satisfies row_after stop r \<and> satisfies row_before cursor r) candidates)"

section \<open>The scan\<close>

text \<open>\<open>KtStuck\<close> stands for a compiler that panics or does not return.\<close>

datatype kq_timeline_error =
  KtCompile compile_error
| KtTimeout nat
| KtCancelled
| KtDatabase
| KtStuck

record scan_env =
  se_lib :: lib
  se_sources :: "source_spec list"
  se_predicate :: expr
  se_requirements :: query_requirements
  se_budget_rows :: nat
  se_limit :: nat
  se_skip :: nat
  se_stop_key :: "(rstr \<times> rstr) option"
  se_fetch :: "timeline_cursor option \<Rightarrow> nat \<Rightarrow> db_status list option"
  se_hydrate :: "db_status list \<Rightarrow> (db_status \<Rightarrow> ctx) option"
  se_cancelled :: "nat \<Rightarrow> bool"
  se_expired :: "nat \<Rightarrow> bool"

record scan_state =
  sc_cursor :: "timeline_cursor option"
  sc_skipped :: nat
  sc_results :: "db_status list"
  sc_scanned :: nat
  sc_clock :: nat
  sc_cache :: regex_cache

fun ebind :: "'e + 'a \<Rightarrow> ('a \<Rightarrow> 'e + 'b) \<Rightarrow> 'e + 'b" where
  "ebind (Inl e) f = Inl e"
| "ebind (Inr x) f = f x"

lemma ebind_cong [fundef_cong]:
  "r = r' \<Longrightarrow> (\<And>x. r' = Inr x \<Longrightarrow> f x = g x) \<Longrightarrow> ebind r f = ebind r' g"
  by (cases r') auto

lemma ebind_Inr: "ebind r f = Inr y \<longleftrightarrow> (\<exists>x. r = Inr x \<and> f x = Inr y)"
  by (cases r) auto

definition tick :: "scan_state \<Rightarrow> scan_state" where
  "tick s = s\<lparr>sc_clock := sc_clock s + 1\<rparr>"

text \<open>\<^verbatim>\<open>ensure_not_cancelled\<close> followed by \<^verbatim>\<open>ensure_budget_remaining\<close>.\<close>

definition ensure_within_guards :: "scan_env \<Rightarrow> scan_state \<Rightarrow> kq_timeline_error + scan_state" where
  "ensure_within_guards E s =
     (if se_cancelled E (sc_clock s) then Inl KtCancelled
      else if sc_scanned s \<ge> se_budget_rows E \<or> se_expired E (sc_clock s)
      then Inl (KtTimeout (sc_scanned s))
      else Inr (tick s))"

text \<open>\<^verbatim>\<open>await_with_guards\<close>; \<open>None\<close> is a failed database call.\<close>

definition await_with_guards :: "scan_env \<Rightarrow> scan_state \<Rightarrow> 'a option \<Rightarrow> kq_timeline_error + 'a \<times> scan_state"
where
  "await_with_guards E s r =
     (if se_cancelled E (sc_clock s) then Inl KtCancelled
      else if se_expired E (sc_clock s) then Inl (KtTimeout (sc_scanned s))
      else (case r of None \<Rightarrow> Inl KtDatabase | Some x \<Rightarrow> Inr (x, tick s)))"

text \<open>The loop over the rows of a page: the guard of every 64th row, the match and the guard behind it,
  then the bookkeeping of skipped and kept matches.\<close>

definition match_row ::
  "scan_env \<Rightarrow> (db_status \<Rightarrow> ctx) \<Rightarrow> db_status \<Rightarrow> scan_state \<Rightarrow> kq_timeline_error + bool \<times> scan_state"
where
  "match_row E contexts r s =
     ebind (if sc_scanned s mod 64 = 0 then ensure_within_guards E s else Inr s) (\<lambda>s.
       let (m, D) = matches (se_lib E)
             (loaded_context (se_requirements E) (se_sources E) (contexts r))
             (sc_cache s) (se_predicate E) (se_sources E)
       in ebind (ensure_within_guards E (s\<lparr>sc_scanned := sc_scanned s + 1, sc_cache := D\<rparr>))
            (\<lambda>s. Inr (m, s)))"

fun scan_rows ::
  "scan_env \<Rightarrow> (db_status \<Rightarrow> ctx) \<Rightarrow> db_status list \<Rightarrow> scan_state \<Rightarrow> kq_timeline_error + scan_state" where
  "scan_rows E contexts [] s = Inr s"
| "scan_rows E contexts (r # rows) s =
     ebind (match_row E contexts r s) (\<lambda>(m, s).
       if \<not> m then scan_rows E contexts rows s
       else if sc_skipped s < se_skip E
       then scan_rows E contexts rows (s\<lparr>sc_skipped := sc_skipped s + 1\<rparr>)
       else (let s = s\<lparr>sc_results := sc_results s @ [r]\<rparr> in
             if length (sc_results s) \<ge> se_limit E then Inr s
             else scan_rows E contexts rows s))"

definition is_stop_row :: "scan_env \<Rightarrow> db_status \<Rightarrow> bool" where
  "is_stop_row E r =
     (case se_stop_key E of
        None \<Rightarrow> False | Some (i, domain) \<Rightarrow> st_id r = i \<and> st_server_domain r = domain)"

definition truncate_at_stop :: "scan_env \<Rightarrow> db_status list \<Rightarrow> db_status list \<times> bool" where
  "truncate_at_stop E rows =
     (case position (is_stop_row E) rows of None \<Rightarrow> (rows, False) | Some i \<Rightarrow> (take i rows, True))"

lemma ensure_Inr:
  "ensure_within_guards E s = Inr s' \<longleftrightarrow>
     \<not> se_cancelled E (sc_clock s) \<and> \<not> se_expired E (sc_clock s) \<and> sc_scanned s < se_budget_rows E \<and>
     s' = tick s"
  by (auto simp: ensure_within_guards_def)

lemma await_Inr:
  "await_with_guards E s r = Inr (x, s') \<longleftrightarrow>
     \<not> se_cancelled E (sc_clock s) \<and> \<not> se_expired E (sc_clock s) \<and> r = Some x \<and> s' = tick s"
  by (auto simp: await_with_guards_def split: option.splits)

lemma tick_sel [simp]:
  "sc_cursor (tick s) = sc_cursor s" "sc_skipped (tick s) = sc_skipped s"
  "sc_results (tick s) = sc_results s" "sc_scanned (tick s) = sc_scanned s"
  "sc_cache (tick s) = sc_cache s"
  by (simp_all add: tick_def)

text \<open>What a match that passes its guards leaves behind.\<close>

definition after_match :: "scan_env \<Rightarrow> (db_status \<Rightarrow> ctx) \<Rightarrow> db_status \<Rightarrow> scan_state \<Rightarrow> bool \<Rightarrow> scan_state \<Rightarrow> bool"
where
  "after_match E contexts r s m s1 \<longleftrightarrow>
     matches (se_lib E) (loaded_context (se_requirements E) (se_sources E) (contexts r))
       (sc_cache s) (se_predicate E) (se_sources E) = (m, sc_cache s1) \<and>
     sc_cursor s1 = sc_cursor s \<and> sc_skipped s1 = sc_skipped s \<and> sc_results s1 = sc_results s \<and>
     sc_scanned s1 = sc_scanned s + 1 \<and> sc_scanned s1 < se_budget_rows E"

lemma match_row_after: "match_row E contexts r s = Inr (m, s1) \<Longrightarrow> after_match E contexts r s m s1"
  by (auto simp: match_row_def after_match_def ebind_Inr ensure_Inr Let_def
      split: if_splits prod.splits)

lemma scan_rows_scanned:
  "scan_rows E contexts rows s = Inr s' \<Longrightarrow>
   sc_scanned s \<le> sc_scanned s' \<and> (rows \<noteq> [] \<longrightarrow> sc_scanned s < sc_scanned s')"
proof (induction rows arbitrary: s)
  case (Cons r rows)
  from Cons.prems obtain m s1 where m: "match_row E contexts r s = Inr (m, s1)"
    by (auto simp: ebind_Inr)
  from Cons.prems m have "sc_scanned s1 \<le> sc_scanned s'"
    using Cons.IH[of s1] Cons.IH[of "s1\<lparr>sc_skipped := sc_skipped s1 + 1\<rparr>"]
      Cons.IH[of "s1\<lparr>sc_results := sc_results s1 @ [r]\<rparr>"]
    by (auto simp: Let_def split: if_splits)
  then show ?case using match_row_after[OF m] by (simp add: after_match_def)
qed simp

lemma scan_rows_cursor: "scan_rows E cx rows s = Inr s' \<Longrightarrow> sc_cursor s' = sc_cursor s"
proof (induction rows arbitrary: s)
  case (Cons r rows)
  from Cons.prems obtain m s1 where m: "match_row E cx r s = Inr (m, s1)"
    by (auto simp: ebind_Inr)
  then have "sc_cursor s1 = sc_cursor s" using match_row_after[OF m] by (simp add: after_match_def)
  then show ?case
    using Cons.prems m Cons.IH[of s1] Cons.IH[of "s1\<lparr>sc_skipped := sc_skipped s1 + 1\<rparr>"]
      Cons.IH[of "s1\<lparr>sc_results := sc_results s1 @ [r]\<rparr>"]
    by (auto simp: Let_def split: if_splits)
qed simp

text \<open>The contexts of a page's rows: the hydration, then the viewer states where they are needed.\<close>

definition load_contexts ::
  "scan_env \<Rightarrow> db_status list \<Rightarrow> scan_state \<Rightarrow> kq_timeline_error + (db_status \<Rightarrow> ctx) \<times> scan_state"
where
  "load_contexts E rows s =
     ebind (await_with_guards E s (se_hydrate E rows)) (\<lambda>(contexts, s).
       ebind (if rq_viewer_states (se_requirements E) \<or> query_uses_viewer_state_source (se_sources E)
              then await_with_guards E s (Some ()) else Inr ((), s)) (\<lambda>(_, s).
         Inr (contexts, s)))"

text \<open>One round of the page loop, and whether the loop goes on. \<^verbatim>\<open>reached_end\<close> is tested after the
  rows of the page have been scanned.\<close>

definition scan_page :: "scan_env \<Rightarrow> scan_state \<Rightarrow> kq_timeline_error + bool \<times> scan_state" where
  "scan_page E s =
     ebind (ensure_within_guards E s) (\<lambda>s.
       let n = min (se_budget_rows E - sc_scanned s) filter_page_size in
       ebind (await_with_guards E s (se_fetch E (sc_cursor s) n)) (\<lambda>(page, s).
         if page = [] then Inr (False, s)
         else
           (let s = s\<lparr>sc_cursor := Some (cursor_of (last page))\<rparr>;
                (rows, stopped) = truncate_at_stop E page
            in if rows = [] then Inr (False, s)
               else ebind (load_contexts E rows s) (\<lambda>(contexts, s).
                 ebind (scan_rows E contexts rows s) (\<lambda>s.
                   Inr (\<not> (length page < n \<or> stopped), s))))))"

lemma load_contexts_Inr:
  "load_contexts E rows s = Inr (cx, s') \<Longrightarrow> se_hydrate E rows = Some cx \<and>
     sc_cursor s' = sc_cursor s \<and> sc_skipped s' = sc_skipped s \<and> sc_results s' = sc_results s \<and>
     sc_scanned s' = sc_scanned s \<and> sc_cache s' = sc_cache s"
  by (auto simp: load_contexts_def ebind_Inr await_Inr split: if_splits)

lemma scan_page_cases:
  assumes "scan_page E s = Inr (go, s')"
  obtains (idle) n page rows stopped where
      "sc_scanned s < se_budget_rows E" "n = min (se_budget_rows E - sc_scanned s) filter_page_size"
      "se_fetch E (sc_cursor s) n = Some page" "truncate_at_stop E page = (rows, stopped)"
      "rows = []" "sc_results s' = sc_results s" "\<not> go"
  | (rows) n page rows stopped cx s1 where
      "sc_scanned s < se_budget_rows E" "n = min (se_budget_rows E - sc_scanned s) filter_page_size"
      "se_fetch E (sc_cursor s) n = Some page" "truncate_at_stop E page = (rows, stopped)"
      "page \<noteq> []" "rows \<noteq> []" "se_hydrate E rows = Some cx"
      "sc_cursor s1 = Some (cursor_of (last page))" "sc_skipped s1 = sc_skipped s"
      "sc_results s1 = sc_results s" "sc_scanned s1 = sc_scanned s" "sc_cache s1 = sc_cache s"
      "scan_rows E cx rows s1 = Inr s'" "go \<longleftrightarrow> \<not> (length page < n \<or> stopped)"
proof -
  define n where "n = min (se_budget_rows E - sc_scanned s) filter_page_size"
  have ensured: "ensure_within_guards E s = Inr (tick s)"
    using assms by (auto simp: scan_page_def ebind_Inr ensure_Inr)
  then have scanned: "sc_scanned s < se_budget_rows E" by (simp add: ensure_Inr)
  have round: "ebind (await_with_guards E (tick s) (se_fetch E (sc_cursor s) n)) (\<lambda>(page, s).
         if page = [] then Inr (False, s)
         else
           (let s = s\<lparr>sc_cursor := Some (cursor_of (last page))\<rparr>;
                (rows, stopped) = truncate_at_stop E page
            in if rows = [] then Inr (False, s)
               else ebind (load_contexts E rows s) (\<lambda>(contexts, s).
                 ebind (scan_rows E contexts rows s) (\<lambda>s.
                   Inr (\<not> (length page < n \<or> stopped), s))))) = Inr (go, s')"
    using assms unfolding scan_page_def ensured Let_def ebind.simps tick_sel n_def .
  obtain page where fetched: "await_with_guards E (tick s) (se_fetch E (sc_cursor s) n) =
      Inr (page, tick (tick s))" and f: "se_fetch E (sc_cursor s) n = Some page"
    using round by (cases "await_with_guards E (tick s) (se_fetch E (sc_cursor s) n)")
      (auto simp: await_Inr)
  have rest: "(if page = [] then Inr (False, tick (tick s))
         else
           (let s = (tick (tick s))\<lparr>sc_cursor := Some (cursor_of (last page))\<rparr>;
                (rows, stopped) = truncate_at_stop E page
            in if rows = [] then Inr (False, s)
               else ebind (load_contexts E rows s) (\<lambda>(contexts, s).
                 ebind (scan_rows E contexts rows s) (\<lambda>s.
                   Inr (\<not> (length page < n \<or> stopped), s))))) = Inr (go, s')"
    using round unfolding fetched by simp
  obtain rows0 stopped where t: "truncate_at_stop E page = (rows0, stopped)" by fastforce
  show ?thesis
  proof (cases "rows0 = []")
    case True
    have "sc_results s' = sc_results s" "\<not> go" using rest t True by (auto split: if_splits)
    then show ?thesis using idle[OF scanned n_def f t True] by simp
  next
    case False
    then have p: "page \<noteq> []" using t by (auto simp: truncate_at_stop_def)
    with rest t False obtain cx s1 where
      c: "load_contexts E rows0 ((tick (tick s))\<lparr>sc_cursor := Some (cursor_of (last page))\<rparr>) =
          Inr (cx, s1)" and
      r: "scan_rows E cx rows0 s1 = Inr s'" "go \<longleftrightarrow> \<not> (length page < n \<or> stopped)"
      by (auto simp: ebind_Inr)
    show ?thesis
      using rows[OF scanned n_def f t p False _ _ _ _ _ _ r] load_contexts_Inr[OF c] by simp
  qed
qed

lemma scan_page_progress:
  assumes "scan_page E s = Inr (True, s')"
  shows "sc_scanned s < sc_scanned s' \<and> sc_scanned s < se_budget_rows E"
  using assms by (cases rule: scan_page_cases) (auto dest!: scan_rows_scanned)

function scan_pages :: "scan_env \<Rightarrow> scan_state \<Rightarrow> kq_timeline_error + scan_state" where
  "scan_pages E s =
     (if length (sc_results s) \<ge> se_limit E then Inr s
      else ebind (scan_page E s) (\<lambda>(go, s). if go then scan_pages E s else Inr s))"
  by pat_completeness auto
termination
  by (relation "measure (\<lambda>(E, s). se_budget_rows E - sc_scanned s)")
    (auto dest!: scan_page_progress)

declare scan_pages.simps [simp del]

definition initial_scan :: "timeline_cursor option \<Rightarrow> scan_state" where
  "initial_scan cursor = \<lparr>sc_cursor = cursor, sc_skipped = 0, sc_results = [], sc_scanned = 0,
     sc_clock = 0, sc_cache = []\<rparr>"

text \<open>\<^verbatim>\<open>query_statuses\<close> from the page loop on: the answer is the vector of results.\<close>

definition scan_statuses :: "scan_env \<Rightarrow> timeline_cursor option \<Rightarrow> kq_timeline_error + db_status list" where
  "scan_statuses E cursor =
     (if se_limit E = 0 then Inr []
      else ebind (scan_pages E (initial_scan cursor)) (\<lambda>s.
        ebind (ensure_within_guards E s) (\<lambda>s. Inr (sc_results s))))"

section \<open>The listed rows\<close>

lemma row_before_trans: "row_before a (cursor_of b) \<Longrightarrow> row_before b k \<Longrightarrow> row_before a k"
  by (auto simp: row_before_def cursor_of_def)

lemma row_before_irrefl: "\<not> row_before a (cursor_of a)"
  by (simp add: row_before_def cursor_of_def)

lemma row_before_asym: "row_before a (cursor_of b) \<Longrightarrow> \<not> row_before b (cursor_of a)"
  by (auto simp: row_before_def cursor_of_def)

text \<open>All candidates behind a cursor, in the order of the statement.\<close>

definition rows_behind ::
  "db_status list \<Rightarrow> timeline_cursor option \<Rightarrow> timeline_cursor option \<Rightarrow> db_status list" where
  "rows_behind candidates stop cursor =
     filter (\<lambda>r. satisfies row_after stop r \<and> satisfies row_before cursor r) candidates"

lemma page_statement_take: "page_statement cands stop cursor n = take n (rows_behind cands stop cursor)"
  by (simp add: page_statement_def rows_behind_def)

text \<open>Paging by key: the rows behind the last row of a page are the rows that the page left over.\<close>

lemma rows_behind_last:
  assumes "sorted_wrt listed_before cands" and "take n (rows_behind cands stop k) \<noteq> []"
  shows "rows_behind cands stop (Some (cursor_of (last (take n (rows_behind cands stop k))))) =
    drop n (rows_behind cands stop k)"
proof -
  define R where "R = rows_behind cands stop k"
  define l where "l = last (take n R)"
  have sorted: "sorted_wrt listed_before R"
    unfolding R_def rows_behind_def using assms(1) by (rule sorted_wrt_filter)
  have split: "take n R = butlast (take n R) @ [l]"
    using assms(2) by (simp add: l_def R_def)
  then have pieces: "sorted_wrt listed_before ((butlast (take n R) @ [l]) @ drop n R)"
    using sorted append_take_drop_id[of n R] by simp
  have front: "\<not> row_before x (cursor_of l)" if "x \<in> set (take n R)" for x
  proof -
    from that split have "x \<in> set (butlast (take n R)) \<or> x = l"
      by (metis UnE empty_iff insert_iff list.set set_append)
    moreover have "x \<in> set (butlast (take n R)) \<Longrightarrow> listed_before x l"
      using pieces by (simp add: sorted_wrt_append)
    ultimately show ?thesis
      using row_before_irrefl row_before_asym by (auto simp: listed_before_def)
  qed
  have behind: "row_before x (cursor_of l)" if "x \<in> set (drop n R)" for x
    using pieces that by (simp add: sorted_wrt_append listed_before_def)
  have "l \<in> set R" using assms(2) unfolding l_def R_def by (meson in_set_takeD last_in_set)
  then have "satisfies row_before k l" by (simp add: R_def rows_behind_def)
  then have weaken: "row_before r (cursor_of l) \<Longrightarrow> satisfies row_before k r" for r
    by (auto simp: satisfies_def split: option.splits intro: row_before_trans)
  have "rows_behind cands stop (Some (cursor_of l)) = filter (\<lambda>r. row_before r (cursor_of l)) R"
    unfolding R_def rows_behind_def filter_filter
    by (rule filter_cong) (use weaken in \<open>auto simp: satisfies_def\<close>)
  also have "\<dots> = filter (\<lambda>r. row_before r (cursor_of l)) (take n R) @
      filter (\<lambda>r. row_before r (cursor_of l)) (drop n R)"
    by (metis append_take_drop_id filter_append)
  also have "\<dots> = drop n R"
    using front behind by (simp add: filter_False filter_True)
  finally show ?thesis by (simp add: l_def R_def)
qed

section \<open>The scan returns the page it was asked for\<close>

definition row_matches :: "scan_env \<Rightarrow> (db_status \<Rightarrow> ctx) \<Rightarrow> db_status \<Rightarrow> bool" where
  "row_matches E C r \<longleftrightarrow> query_matches (se_lib E)
     (loaded_context (se_requirements E) (se_sources E) (C r)) (se_predicate E) (se_sources E)"

definition page_of :: "scan_env \<Rightarrow> db_status list \<Rightarrow> db_status list" where
  "page_of E ms = take (se_limit E) (drop (se_skip E) ms)"

text \<open>The invariant between rounds: the state accounts for the matches \<open>M\<close> seen so far.\<close>

definition scan_inv :: "scan_env \<Rightarrow> scan_state \<Rightarrow> db_status list \<Rightarrow> bool" where
  "scan_inv E s M \<longleftrightarrow> sc_skipped s = min (se_skip E) (length M) \<and> sc_results s = page_of E M \<and>
     cache_ok (se_lib E) (sc_cache s)"

lemma page_of_append: "length (page_of E M) \<ge> se_limit E \<Longrightarrow> page_of E (M @ N) = page_of E M"
  by (auto simp: page_of_def)

lemma page_of_snoc:
  "page_of E (M @ [r]) = (if length M < se_skip E \<or> length (page_of E M) \<ge> se_limit E
     then page_of E M else page_of E M @ [r])"
  by (auto simp: page_of_def)

lemma scan_rows_inv:
  assumes "scan_inv E s M" and "length (sc_results s) < se_limit E"
    and "\<forall>r \<in> set rows. cx r = C r" and "scan_rows E cx rows s = Inr s'"
  shows "sc_results s' = page_of E (M @ filter (row_matches E C) rows) \<and>
    (length (sc_results s') < se_limit E \<longrightarrow> scan_inv E s' (M @ filter (row_matches E C) rows)) \<and>
    sc_cursor s' = sc_cursor s"
  using assms
proof (induction rows arbitrary: s M)
  case Nil
  then show ?case by (simp add: scan_inv_def)
next
  case (Cons r rows)
  from Cons.prems(4) obtain m s1 where m: "match_row E cx r s = Inr (m, s1)"
    by (auto simp: ebind_Inr)
  note after = match_row_after[OF m, unfolded after_match_def]
  have inv: "sc_skipped s = min (se_skip E) (length M)" "sc_results s = page_of E M"
    "cache_ok (se_lib E) (sc_cache s)"
    using Cons.prems(1) by (auto simp: scan_inv_def)
  have m_iff: "m = row_matches E C r" and ok: "cache_ok (se_lib E) (sc_cache s1)"
    using matches_spec[OF inv(3), of "loaded_context (se_requirements E) (se_sources E) (cx r)"
        "se_predicate E" "se_sources E"] after Cons.prems(3)
    by (auto simp: row_matches_def)
  show ?case
  proof (cases m)
    case False
    then have "scan_inv E s1 M" "scan_rows E cx rows s1 = Inr s'"
      using inv after ok Cons.prems(4) m by (auto simp: scan_inv_def)
    then show ?thesis
      using Cons.IH[of s1 M] Cons.prems(2,3) after False m_iff by simp
  next
    case True
    note hit = True
    show ?thesis
    proof (cases "sc_skipped s1 < se_skip E")
      case True
      let ?s2 = "s1\<lparr>sc_skipped := sc_skipped s1 + 1\<rparr>"
      have "scan_inv E ?s2 (M @ [r])" "scan_rows E cx rows ?s2 = Inr s'"
        using inv after ok Cons.prems(4) m hit True by (auto simp: scan_inv_def page_of_snoc)
      then show ?thesis
        using Cons.IH[of ?s2 "M @ [r]"] Cons.prems(2,3) after hit m_iff by simp
    next
      case False
      let ?s2 = "s1\<lparr>sc_results := sc_results s1 @ [r]\<rparr>"
      have res: "sc_results ?s2 = page_of E (M @ [r])"
        using inv after False Cons.prems(2) by (auto simp: page_of_snoc)
      show ?thesis
      proof (cases "length (sc_results ?s2) \<ge> se_limit E")
        case True
        then have "s' = ?s2" using Cons.prems(4) m hit False by (simp add: Let_def)
        then show ?thesis
          using res True page_of_append[of E "M @ [r]" "filter (row_matches E C) rows"] hit m_iff after
          by simp
      next
        case short: False
        then have "scan_inv E ?s2 (M @ [r])" "scan_rows E cx rows ?s2 = Inr s'"
          using inv after ok Cons.prems(4) m hit False res by (auto simp: scan_inv_def Let_def)
        then show ?thesis
          using Cons.IH[of ?s2 "M @ [r]"] short Cons.prems(3) after hit m_iff by simp
      qed
    qed
  qed
qed

text \<open>What the scan relies on: the page statement lists the candidates of a store in its order, and the
  hydration gives each row its context. Both may fail instead.\<close>

definition listed_answers ::
  "scan_env \<Rightarrow> db_status list \<Rightarrow> timeline_cursor option \<Rightarrow> (db_status \<Rightarrow> ctx) \<Rightarrow> bool" where
  "listed_answers E cands stop C \<longleftrightarrow>
     (\<forall>k n page. se_fetch E k n = Some page \<longrightarrow> page = page_statement cands stop k n) \<and>
     (\<forall>rows cx. se_hydrate E rows = Some cx \<and> set rows \<subseteq> set cands \<longrightarrow>
        (\<forall>r \<in> set rows. cx r = C r))"

definition store_answers ::
  "scan_env \<Rightarrow> db_status list \<Rightarrow> timeline_cursor option \<Rightarrow> (db_status \<Rightarrow> ctx) \<Rightarrow> bool" where
  "store_answers E cands stop C \<longleftrightarrow> sorted_wrt listed_before cands \<and> listed_answers E cands stop C"

text \<open>The rows that a scan from a cursor may see, up to the row at which it stops.\<close>

definition visible_rows ::
  "scan_env \<Rightarrow> db_status list \<Rightarrow> timeline_cursor option \<Rightarrow> timeline_cursor option \<Rightarrow> db_status list" where
  "visible_rows E cands stop k = takeWhile (\<lambda>r. \<not> is_stop_row E r) (rows_behind cands stop k)"

lemma truncate_takeWhile:
  "truncate_at_stop E page = (rows, stopped) \<Longrightarrow>
   rows = takeWhile (\<lambda>r. \<not> is_stop_row E r) page \<and>
   (stopped \<longleftrightarrow> (\<exists>r \<in> set page. is_stop_row E r))"
  by (auto simp: truncate_at_stop_def position_takeWhile position_None
      split: option.splits dest!: position_Some)

lemma takeWhile_take_drop:
  "takeWhile P (take n xs) @ (if \<exists>x \<in> set (take n xs). \<not> P x then [] else takeWhile P (drop n xs)) =
   takeWhile P xs"
proof (induction xs arbitrary: n)
  case (Cons x xs)
  show ?case using Cons.IH[of "n - 1"] by (cases n) (auto split: if_splits)
qed simp

lemma scan_pages_exact:
  assumes "store_answers E cands stop C" and "scan_inv E s M" and "scan_pages E s = Inr s'"
  shows "sc_results s' =
    page_of E (M @ filter (row_matches E C) (visible_rows E cands stop (sc_cursor s)))"
  using assms(2,3)
proof (induction "se_budget_rows E - sc_scanned s" arbitrary: s M rule: less_induct)
  case less
  let ?R = "rows_behind cands stop (sc_cursor s)" and ?m = "row_matches E C"
  have res: "sc_results s = page_of E M" using less.prems(1) by (simp add: scan_inv_def)
  show ?case
  proof (cases "length (sc_results s) \<ge> se_limit E")
    case True
    then have "s' = s" using less.prems(2) by (simp add: scan_pages.simps[of E s])
    then show ?thesis using True res page_of_append by simp
  next
    case False
    with less.prems(2) obtain go s2 where round: "scan_page E s = Inr (go, s2)" and
      next_pages: "(if go then scan_pages E s2 else Inr s2) = Inr s'"
      by (auto simp: scan_pages.simps[of E s] ebind_Inr)
    from round show ?thesis
    proof (cases rule: scan_page_cases)
      case (idle n page rows stopped)
      have "page = take n ?R"
        using assms(1) idle(3) by (simp add: store_answers_def listed_answers_def page_statement_take)
      then have tr: "takeWhile (\<lambda>r. \<not> is_stop_row E r) (take n ?R) = []"
        using truncate_takeWhile[OF idle(4)] idle(5) by simp
      have "0 < n" using idle(1,2) by (simp add: filter_page_size_def)
      then have "visible_rows E cands stop (sc_cursor s) = []"
        using tr by (cases ?R; cases n) (auto simp: visible_rows_def split: if_splits)
      then show ?thesis using idle(6,7) res next_pages by simp
    next
      case (rows n page rows stopped cx s1)
      have pg: "page = take n ?R"
        using assms(1) rows(3) by (simp add: store_answers_def listed_answers_def page_statement_take)
      have tr: "rows = takeWhile (\<lambda>r. \<not> is_stop_row E r) (take n ?R)"
        "stopped \<longleftrightarrow> (\<exists>r \<in> set (take n ?R). is_stop_row E r)"
        using truncate_takeWhile[OF rows(4)] pg by simp_all
      have inv1: "scan_inv E s1 M" "length (sc_results s1) < se_limit E"
        using less.prems(1) rows False by (simp_all add: scan_inv_def)
      have "set rows \<subseteq> set cands"
        unfolding tr(1) rows_behind_def by (auto dest!: set_takeWhileD in_set_takeD)
      then have cx: "\<forall>r \<in> set rows. cx r = C r"
        using assms(1) rows(7) by (simp add: store_answers_def listed_answers_def)
      note step = scan_rows_inv[OF inv1 cx rows(13)]
      have left: "rows_behind cands stop (sc_cursor s2) = drop n ?R"
        using rows_behind_last[of cands n stop "sc_cursor s"] assms(1) rows(5,8) step pg
        by (simp add: store_answers_def)
      have vis: "visible_rows E cands stop (sc_cursor s) =
          rows @ (if stopped then [] else visible_rows E cands stop (sc_cursor s2))"
        unfolding visible_rows_def left tr
        using takeWhile_take_drop[of "\<lambda>r. \<not> is_stop_row E r" n ?R] by simp
      show ?thesis
      proof (cases go)
        case stop: False
        then have "stopped \<or> drop n ?R = []" using rows(14) pg by auto
        then have "visible_rows E cands stop (sc_cursor s) = rows"
          unfolding vis by (auto simp: visible_rows_def left)
        then show ?thesis using stop next_pages step by simp
      next
        case going: True
        then have more: "scan_pages E s2 = Inr s'" "\<not> stopped" using next_pages rows(14) by simp_all
        show ?thesis
        proof (cases "length (sc_results s2) < se_limit E")
          case True
          have "sc_scanned s < sc_scanned s2" "sc_scanned s < se_budget_rows E"
            using scan_page_progress round going by auto
          then show ?thesis
            using less.hyps[of s2 "M @ filter ?m rows"] step True more vis by simp
        next
          case reached: False
          then have "s' = s2" using more(1) by (simp add: scan_pages.simps[of E s2])
          then show ?thesis
            using step reached vis more(2) page_of_append[of E "M @ filter ?m rows"] by simp
        qed
      qed
    qed
  qed
qed

lemma scan_statuses_page:
  assumes "store_answers E cands stop C" and "scan_statuses E cursor = Inr results"
  shows "results = page_of E (filter (row_matches E C) (visible_rows E cands stop cursor))"
proof (cases "se_limit E = 0")
  case True
  then show ?thesis using assms(2) by (simp add: scan_statuses_def page_of_def)
next
  case False
  with assms(2) obtain s where s: "scan_pages E (initial_scan cursor) = Inr s" "results = sc_results s"
    by (auto simp: scan_statuses_def ebind_Inr ensure_Inr)
  have "scan_inv E (initial_scan cursor) []"
    by (simp add: scan_inv_def initial_scan_def page_of_def)
  from scan_pages_exact[OF assms(1) this s(1)] s(2) show ?thesis
    by (simp add: initial_scan_def)
qed

text \<open>Candidates that fit on the first page may repeat: there is no second page to leave them out.\<close>

lemma scan_statuses_short:
  assumes "listed_answers E cands stop C" and "length cands < min (se_budget_rows E) filter_page_size"
    and "scan_statuses E cursor = Inr results"
  shows "results = page_of E (filter (row_matches E C) (visible_rows E cands stop cursor))"
proof (cases "se_limit E = 0")
  case True
  then show ?thesis using assms(3) by (simp add: scan_statuses_def page_of_def)
next
  case False
  let ?s = "initial_scan cursor" and ?R = "rows_behind cands stop cursor"
  have start: "sc_cursor ?s = cursor" "sc_scanned ?s = 0" "sc_results ?s = []" "scan_inv E ?s []"
    by (simp_all add: initial_scan_def scan_inv_def page_of_def)
  have short: "length ?R < min (se_budget_rows E) filter_page_size"
    using assms(2) length_filter_le[of _ cands] unfolding rows_behind_def by (rule le_less_trans[rotated])
  from False assms(3) obtain go s2 s where run: "scan_page E ?s = Inr (go, s2)"
    "(if go then scan_pages E s2 else Inr s2) = Inr s" "results = sc_results s"
    using start(3) by (auto simp: scan_statuses_def ebind_Inr ensure_Inr scan_pages.simps[of E ?s])
  have fetched: "page = ?R" if "se_fetch E cursor n = Some page" "n = min (se_budget_rows E) filter_page_size"
    for page n
  proof -
    have "page = take n ?R"
      using assms(1) that(1) unfolding listed_answers_def page_statement_take by blast
    then show ?thesis using short that(2) by simp
  qed
  from run(1) show ?thesis
  proof (cases rule: scan_page_cases)
    case (idle n page rows stopped)
    then have "page = ?R" using fetched start by simp
    then have "visible_rows E cands stop cursor = []"
      using truncate_takeWhile[OF idle(4)] idle(5) by (simp add: visible_rows_def)
    then show ?thesis using idle(6,7) run start by (simp add: page_of_def)
  next
    case (rows n page rows stopped cx s1)
    then have page: "page = ?R" using fetched start by simp
    then have rows_vis: "rows = visible_rows E cands stop cursor"
      using truncate_takeWhile[OF rows(4)] by (simp add: visible_rows_def)
    have "set rows \<subseteq> set cands"
      unfolding rows_vis visible_rows_def rows_behind_def by (auto dest!: set_takeWhileD)
    then have cx: "\<forall>r \<in> set rows. cx r = C r" using assms(1) rows(7) by (simp add: listed_answers_def)
    have "scan_inv E s1 []" "length (sc_results s1) < se_limit E"
      using start rows False by (simp_all add: scan_inv_def)
    note step = scan_rows_inv[OF this cx rows(13)]
    have "\<not> go" using rows(2,14) short page start by simp
    then show ?thesis using step run rows_vis by simp
  qed
qed

text \<open>With the requirements of the compiled query, a row matches by its full context.\<close>

definition compiled_env :: "scan_env \<Rightarrow> bool" where
  "compiled_env E \<longleftrightarrow> se_requirements E = query_requirements_of (se_sources E) (se_predicate E)"

lemma row_matches_full:
  assumes "compiled_env E"
  shows "row_matches E C r = query_matches (se_lib E) (C r) (se_predicate E) (se_sources E)"
proof -
  have "query_matches L (loaded_context (query_requirements_of ss e) ss c) e ss = query_matches L c e ss"
    for L ss e c by (rule loaded_query_matches)
  then show ?thesis using assms by (simp add: row_matches_def compiled_env_def)
qed

lemma scan_statuses_listed:
  assumes "store_answers E cands stop C \<or>
      listed_answers E cands stop C \<and> length cands < min (se_budget_rows E) filter_page_size"
    and "compiled_env E" and "scan_statuses E cursor = Inr results"
  shows "results = take (se_limit E) (drop (se_skip E)
    (filter (\<lambda>r. query_matches (se_lib E) (C r) (se_predicate E) (se_sources E))
      (visible_rows E cands stop cursor)))"
proof -
  have "row_matches E C = (\<lambda>r. query_matches (se_lib E) (C r) (se_predicate E) (se_sources E))"
    by (rule ext) (rule row_matches_full[OF assms(2)])
  moreover have "results = page_of E (filter (row_matches E C) (visible_rows E cands stop cursor))"
    using assms(1) scan_statuses_page[OF _ assms(3)] scan_statuses_short[OF _ _ assms(3)] by blast
  ultimately show ?thesis by (simp add: page_of_def)
qed

text \<open>A concrete run: one cached entry, asked for with a query that accepts everything.\<close>

definition sample_env :: scan_env where
  "sample_env = \<lparr>se_lib = ascii_lib, se_sources = everything, se_predicate = always,
     se_requirements = query_requirements_of everything always,
     se_budget_rows = qb_max_scanned_rows (for_status_count 1), se_limit = 1, se_skip = 0,
     se_stop_key = None,
     se_fetch = (\<lambda>k n. Some (page_statement [sample_status] None k n)),
     se_hydrate = (\<lambda>rows. Some (\<lambda>r. sample_context)),
     se_cancelled = (\<lambda>n. False), se_expired = (\<lambda>n. False)\<rparr>"

lemma sample_env_answers:
  "store_answers sample_env [sample_status] None (\<lambda>r. sample_context)" "compiled_env sample_env"
  by (simp_all add: sample_env_def store_answers_def listed_answers_def compiled_env_def)

text \<open>C3: a scan never returns a partial or a wrong page: whatever the guards and the database do, it ends
  with an error or with exactly the matches from the offset on, up to the limit, of the rows behind
  the cursor and before the row to stop at, in the listed order and judged by their full
  contexts.\<close>

theorem scan_statuses_exact:
  assumes "store_answers E cands stop C" and "compiled_env E"
    and "scan_statuses E cursor = Inr results"
  shows "results = take (se_limit E) (drop (se_skip E)
    (filter (\<lambda>r. query_matches (se_lib E) (C r) (se_predicate E) (se_sources E))
      (visible_rows E cands stop cursor)))"
  using scan_statuses_listed[OF disjI1[OF assms(1)] assms(2,3)] .

section \<open>The scan completes\<close>

text \<open>An undisturbed run: no cancellation, no expiry, no database failure.\<close>

definition undisturbed :: "scan_env \<Rightarrow> bool" where
  "undisturbed E \<longleftrightarrow> (\<forall>n. \<not> se_cancelled E n \<and> \<not> se_expired E n) \<and>
     (\<forall>k n. se_fetch E k n \<noteq> None) \<and> (\<forall>rows. se_hydrate E rows \<noteq> None)"

lemma match_row_returns:
  assumes "undisturbed E" and "sc_scanned s + 1 < se_budget_rows E"
  shows "\<exists>m s1. match_row E cx r s = Inr (m, s1)"
proof -
  have ensured: "ensure_within_guards E s' = Inr (tick s')" if "sc_scanned s' < se_budget_rows E" for s'
    using assms(1) that by (simp add: ensure_within_guards_def undisturbed_def)
  have "\<exists>s0. (if sc_scanned s mod 64 = 0 then ensure_within_guards E s else Inr s) = Inr s0 \<and>
      sc_scanned s0 = sc_scanned s"
    using ensured[of s] assms(2) by auto
  then obtain s0 where s0: "(if sc_scanned s mod 64 = 0 then ensure_within_guards E s else Inr s) = Inr s0"
    "sc_scanned s0 = sc_scanned s" by blast
  obtain m D where m: "matches (se_lib E)
      (loaded_context (se_requirements E) (se_sources E) (cx r)) (sc_cache s0) (se_predicate E)
      (se_sources E) = (m, D)" by fastforce
  show ?thesis
    unfolding match_row_def s0(1) ebind.simps m Let_def prod.case
    using ensured[of "s0\<lparr>sc_scanned := sc_scanned s0 + 1, sc_cache := D\<rparr>"] s0(2) assms(2) by simp
qed

lemma scan_rows_returns:
  assumes "undisturbed E" and "sc_scanned s + length rows < se_budget_rows E"
  shows "\<exists>s'. scan_rows E cx rows s = Inr s' \<and> sc_scanned s' \<le> sc_scanned s + length rows"
  using assms(2)
proof (induction rows arbitrary: s)
  case (Cons r rows)
  obtain m s1 where m: "match_row E cx r s = Inr (m, s1)"
    using match_row_returns[OF assms(1), of s cx r] Cons.prems by auto
  have scanned: "sc_scanned s1 = sc_scanned s + 1"
    using match_row_after[OF m] by (simp add: after_match_def)
  have "\<exists>s'. scan_rows E cx rows s2 = Inr s' \<and> sc_scanned s' \<le> sc_scanned s + length (r # rows)"
    if "sc_scanned s2 = sc_scanned s1" for s2
    using Cons.IH[of s2] Cons.prems that scanned by auto
  then show ?case using m scanned by (simp add: Let_def)
qed simp

lemma scan_page_returns:
  assumes "undisturbed E" and "store_answers E cands stop C"
    and "sc_scanned s + length (rows_behind cands stop (sc_cursor s)) < se_budget_rows E"
  shows "\<exists>go s'. scan_page E s = Inr (go, s') \<and> sc_scanned s' < se_budget_rows E \<and>
    (go \<longrightarrow> sc_scanned s' + length (rows_behind cands stop (sc_cursor s')) < se_budget_rows E)"
proof -
  define n where "n = min (se_budget_rows E - sc_scanned s) filter_page_size"
  let ?R = "rows_behind cands stop (sc_cursor s)"
  have awaits_unit: "await_with_guards E s' (Some ()) = Inr ((), tick s')" for s'
    using assms(1) by (simp add: await_with_guards_def undisturbed_def)
  have "se_fetch E (sc_cursor s) n \<noteq> None"
    using assms(1) unfolding undisturbed_def by blast
  then obtain page where page: "se_fetch E (sc_cursor s) n = Some page" by auto
  then have pg: "page = take n ?R"
    using assms(2) by (simp add: store_answers_def listed_answers_def page_statement_take)
  have fetched: "await_with_guards E (tick s) (se_fetch E (sc_cursor s) n) = Inr (page, tick (tick s))"
    using assms(1) page by (simp add: await_with_guards_def undisturbed_def)
  have ensured: "ensure_within_guards E s = Inr (tick s)"
    using assms(1,3) by (simp add: ensure_within_guards_def undisturbed_def)
  let ?s1 = "(tick (tick s))\<lparr>sc_cursor := Some (cursor_of (last page))\<rparr>"
  obtain rows stopped where t: "truncate_at_stop E page = (rows, stopped)" by fastforce
  have unfold: "scan_page E s =
      (if page = [] then Inr (False, tick (tick s))
       else if rows = [] then Inr (False, ?s1)
       else ebind (load_contexts E rows ?s1) (\<lambda>(contexts, s).
              ebind (scan_rows E contexts rows s) (\<lambda>s. Inr (\<not> (length page < n \<or> stopped), s))))"
    unfolding scan_page_def ensured ebind.simps Let_def tick_sel n_def[symmetric] fetched prod.case t ..
  show ?thesis
  proof (cases "page = [] \<or> rows = []")
    case True
    then show ?thesis unfolding unfold using assms(3) by auto
  next
    case False
    have "se_hydrate E rows \<noteq> None" using assms(1) unfolding undisturbed_def by blast
    then obtain cx where "se_hydrate E rows = Some cx" by auto
    then have hydrated: "await_with_guards E ?s1 (se_hydrate E rows) = Inr (cx, tick ?s1)"
      using assms(1) by (simp add: await_with_guards_def undisturbed_def)
    obtain s2 where c: "load_contexts E rows ?s1 = Inr (cx, s2)" "sc_scanned s2 = sc_scanned s"
        "sc_cursor s2 = sc_cursor ?s1"
      unfolding load_contexts_def hydrated ebind.simps prod.case awaits_unit
      by (cases "rq_viewer_states (se_requirements E) \<or> query_uses_viewer_state_source (se_sources E)")
        simp_all
    have "length rows \<le> length page"
      using truncate_takeWhile[OF t] by (simp add: length_takeWhile_le)
    moreover have "length page + length (drop n ?R) = length ?R" unfolding pg by simp
    ultimately have sum: "sc_scanned s2 + length rows + length (drop n ?R) < se_budget_rows E"
      using assms(3) c(2) by simp
    then obtain s3 where r: "scan_rows E cx rows s2 = Inr s3" "sc_scanned s3 \<le> sc_scanned s2 + length rows"
      using scan_rows_returns[OF assms(1), of s2 rows cx] by auto
    have "rows_behind cands stop (Some (cursor_of (last page))) = drop n ?R"
      using rows_behind_last[of cands n stop "sc_cursor s"] assms(2) False pg
      by (simp add: store_answers_def)
    moreover have "sc_cursor s3 = sc_cursor s2"
      by (rule scan_rows_cursor[OF r(1)])
    ultimately show ?thesis
      unfolding unfold using False c r sum by auto
  qed
qed

lemma scan_pages_returns:
  assumes "undisturbed E" and "store_answers E cands stop C"
    and "sc_scanned s + length (rows_behind cands stop (sc_cursor s)) < se_budget_rows E"
  shows "\<exists>s'. scan_pages E s = Inr s' \<and> sc_scanned s' < se_budget_rows E"
  using assms(3)
proof (induction "se_budget_rows E - sc_scanned s" arbitrary: s rule: less_induct)
  case less
  obtain go s1 where round: "scan_page E s = Inr (go, s1)" "sc_scanned s1 < se_budget_rows E"
    "go \<Longrightarrow> sc_scanned s1 + length (rows_behind cands stop (sc_cursor s1)) < se_budget_rows E"
    using scan_page_returns[OF assms(1,2) less.prems] by blast
  have "\<exists>s'. scan_pages E s1 = Inr s' \<and> sc_scanned s' < se_budget_rows E" if go
    using less.hyps[OF _ round(3)[OF that]] scan_page_progress[of E s s1] round(1) that by auto
  then show ?case
    using round(1,2) less.prems by (cases go) (simp_all add: scan_pages.simps[of E s])
qed

lemma scan_statuses_returns:
  assumes "undisturbed E" and "store_answers E cands stop C"
    and "length (rows_behind cands stop cursor) < se_budget_rows E"
  shows "\<exists>results. scan_statuses E cursor = Inr results"
proof -
  have "sc_scanned (initial_scan cursor) +
      length (rows_behind cands stop (sc_cursor (initial_scan cursor))) < se_budget_rows E"
    using assms(3) by (simp add: initial_scan_def)
  from scan_pages_returns[OF assms(1,2) this] obtain s where
    "scan_pages E (initial_scan cursor) = Inr s" "sc_scanned s < se_budget_rows E" by blast
  then show ?thesis
    using assms(1) by (simp add: scan_statuses_def ensure_within_guards_def undisturbed_def)
qed

lemma budget_covers: "n + 250 \<le> 2000000 \<Longrightarrow> n < qb_max_scanned_rows (for_status_count n)"
  by (simp add: budget_defs Let_def)

lemma scan_statuses_completes:
  assumes "undisturbed E" and "store_answers E cands stop C" and "compiled_env E"
    and "se_budget_rows E = qb_max_scanned_rows (for_status_count (length cands))"
    and "length cands + 250 \<le> 2000000"
  shows "scan_statuses E cursor = Inr (take (se_limit E) (drop (se_skip E)
    (filter (\<lambda>r. query_matches (se_lib E) (C r) (se_predicate E) (se_sources E))
      (visible_rows E cands stop cursor))))"
proof -
  have "length (rows_behind cands stop cursor) \<le> length cands"
    by (simp add: rows_behind_def length_filter_le)
  then have "length (rows_behind cands stop cursor) < se_budget_rows E"
    using budget_covers[OF assms(5)] assms(4) by simp
  then obtain results where "scan_statuses E cursor = Inr results"
    using scan_statuses_returns[OF assms(1,2)] by blast
  then show ?thesis using scan_statuses_listed[OF disjI1, OF assms(2,3)] by simp
qed

lemma sample_env_undisturbed: "undisturbed sample_env"
  by (simp add: undisturbed_def sample_env_def)

lemma sample_env_budget:
  "se_budget_rows sample_env = qb_max_scanned_rows (for_status_count (length [sample_status]))"
  by (simp add: sample_env_def)

text \<open>C9: a scan that is neither cancelled nor out of time, over a cache of at most 1 999 750 entries whose
  count set the budget, does return, and what it returns is the page it was asked for.\<close>

theorem scan_completes:
  assumes "undisturbed E" and "store_answers E cands stop C" and "compiled_env E"
    and "se_budget_rows E = qb_max_scanned_rows (for_status_count (length cands))"
    and "length cands + 250 \<le> 2000000"
  shows "scan_statuses E cursor = Inr (take (se_limit E) (drop (se_skip E)
    (filter (\<lambda>r. query_matches (se_lib E) (C r) (se_predicate E) (se_sources E))
      (visible_rows E cands stop cursor))))"
  using assms by (rule scan_statuses_completes)

theorem scan_completes_witness:
  "scan_statuses sample_env None = Inr (take (se_limit sample_env) (drop (se_skip sample_env)
    (filter (\<lambda>r. query_matches (se_lib sample_env) sample_context (se_predicate sample_env)
       (se_sources sample_env)) (visible_rows sample_env [sample_status] None None))))"
  by (rule scan_completes[OF sample_env_undisturbed sample_env_answers sample_env_budget]) simp

theorem scan_statuses_exact_witness:
  "scan_statuses sample_env None = Inr [sample_status] \<and>
   [sample_status] = take (se_limit sample_env) (drop (se_skip sample_env)
    (filter (\<lambda>r. query_matches (se_lib sample_env) sample_context (se_predicate sample_env)
       (se_sources sample_env)) (visible_rows sample_env [sample_status] None None)))"
proof -
  obtain results where r: "scan_statuses sample_env None = Inr results"
    using scan_statuses_completes[OF sample_env_undisturbed sample_env_answers sample_env_budget]
    by simp
  note page = scan_statuses_exact[OF sample_env_answers r]
  have "results = [sample_status]"
    unfolding page
    by (simp add: sample_env_def visible_rows_def rows_behind_def satisfies_def is_stop_row_def
        query_matches_def everything_def always_def branch_matches_def source_branches_def
        unscoped_branch_def value_truth_def boolean_def)
  with r page show ?thesis by simp
qed

end
