(* ===== verification/KqStore.thy ===== *)
theory KqStore
imports KqTimeline
begin

text \<open>
  The read side of the status cache that the query language runs over: the tables of the SQLite
  store, the loaders of \<^verbatim>\<open>src/src/services/kq_timeline.rs\<close> (cursors, timeline memberships, login
  accounts, viewer states, conversations) and the bulk hydration of a page of rows
  (\<^verbatim>\<open>CachedStatusViewContext::load\<close> of \<^verbatim>\<open>src/src/application/timeline_hydration.rs\<close>). A table is the
  list of its rows; a \<^verbatim>\<open>HashMap\<close> is an association list or the function that looks a key up. The
  theorem of this part: a page is hydrated in bulk, but each of its rows gets the context that row
  has by itself in the store, whatever else is on the page.
\<close>

section \<open>Tables\<close>

record timeline_entry =
  te_timeline_type :: rstr
  te_server_domain :: rstr
  te_status_id :: rstr
  te_account_acct :: rstr
  te_position_at :: rstr

record kq_store =
  ks_statuses :: "db_status list"
  ks_accounts :: "db_account list"
  ks_timeline_entries :: "timeline_entry list"
  ks_viewer_states :: "db_status_viewer_state list"
  ks_login_accounts :: "login_account_identity list"
  ks_status_counter :: "int option"

type_synonym entity_key = "rstr \<times> rstr"

definition status_key_for_status :: "db_status \<Rightarrow> entity_key" where
  "status_key_for_status s = (st_id s, st_server_domain s)"

definition author_key :: "db_status \<Rightarrow> entity_key" where
  "author_key s = (st_account_id s, st_server_domain s)"

definition account_key :: "db_account \<Rightarrow> entity_key" where
  "account_key a = (ac_id a, ac_server_domain a)"

definition entry_key :: "timeline_entry \<Rightarrow> entity_key" where
  "entry_key e = (te_status_id e, te_server_domain e)"

definition state_key :: "db_status_viewer_state \<Rightarrow> entity_key" where
  "state_key v = (vs_status_id v, vs_server_domain v)"

lemmas entity_key_defs = status_key_for_status_def author_key_def account_key_def entry_key_def
  state_key_def

text \<open>Lookups by primary key.\<close>

definition status_row :: "kq_store \<Rightarrow> entity_key \<Rightarrow> db_status option" where
  "status_row S k = find (\<lambda>s. status_key_for_status s = k) (ks_statuses S)"

definition account_row :: "kq_store \<Rightarrow> entity_key \<Rightarrow> db_account option" where
  "account_row S k = find (\<lambda>a. account_key a = k) (ks_accounts S)"

section \<open>Loaders\<close>

definition load_query_budget :: "kq_store \<Rightarrow> query_budget" where
  "load_query_budget S =
     (let status_count =
        (case ks_status_counter S of Some n \<Rightarrow> n | None \<Rightarrow> int (length (ks_statuses S)))
      in for_status_count (nat (max status_count 0)))"

definition resolve_cursor :: "kq_store \<Rightarrow> entity_key option \<Rightarrow> timeline_cursor option" where
  "resolve_cursor S status =
     (case status of None \<Rightarrow> None | Some k \<Rightarrow> map_option cursor_of (status_row S k))"

definition normalize_timeline_membership :: "rstr \<Rightarrow> rstr \<times> rstr option" where
  "normalize_timeline_membership stored =
     (case strip_prefix (str ''list:'') stored of
        Some parameter \<Rightarrow> (str ''list'', Some parameter)
      | None \<Rightarrow>
          (case strip_prefix (str ''tag:'') stored of
             Some parameter \<Rightarrow> (str ''hashtag'', Some parameter)
           | None \<Rightarrow> (stored, None)))"

definition membership_of_entry :: "timeline_entry \<Rightarrow> timeline_membership" where
  "membership_of_entry e =
     (let (timeline_type, parameter) = normalize_timeline_membership (te_timeline_type e)
      in \<lparr>tm_account_acct = te_account_acct e, tm_timeline_type = timeline_type,
          tm_parameter = parameter\<rparr>)"

text \<open>\<^verbatim>\<open>ORDER BY position_at DESC, account_acct DESC, timeline_type DESC\<close>, by stable sorts.\<close>

definition newest_entries :: "timeline_entry list \<Rightarrow> timeline_entry list" where
  "newest_entries es =
     rev (sort_key te_position_at (sort_key te_account_acct (sort_key te_timeline_type es)))"

definition load_timeline_memberships :: "kq_store \<Rightarrow> entity_key list \<Rightarrow> entity_key \<Rightarrow> timeline_membership list"
where
  "load_timeline_memberships S keys k =
     (if k \<in> set keys
      then map membership_of_entry
             (newest_entries (filter (\<lambda>e. entry_key e = k) (ks_timeline_entries S)))
      else [])"

text \<open>\<^verbatim>\<open>ORDER BY is_active DESC, acct\<close>.\<close>

definition load_login_account_identities :: "kq_store \<Rightarrow> login_account_identity list" where
  "load_login_account_identities S =
     sort_key (\<lambda>la. if la_is_active la then 0 else 1 :: nat) (sort_key la_acct (ks_login_accounts S))"

definition viewer_state_keys ::
  "(entity_key \<Rightarrow> timeline_membership list) \<Rightarrow> (entity_key \<times> entity_key) list \<Rightarrow>
   login_account_identity list \<Rightarrow> bool \<Rightarrow> (rstr \<times> entity_key) list" where
  "viewer_state_keys memberships wrapper_to_effective login_accounts include_all =
     remdups (concat (map (\<lambda>(wrapper_key, effective_key).
       map (\<lambda>acct. (acct, effective_key))
         (map tm_account_acct (memberships wrapper_key) @
          (if include_all then map la_acct login_accounts else [])))
       wrapper_to_effective))"

definition load_viewer_states ::
  "kq_store \<Rightarrow> (entity_key \<Rightarrow> timeline_membership list) \<Rightarrow> (entity_key \<times> entity_key) list \<Rightarrow>
   login_account_identity list \<Rightarrow> bool \<Rightarrow> entity_key \<Rightarrow> db_status_viewer_state list" where
  "load_viewer_states S memberships wrapper_to_effective login_accounts include_all k =
     (let keys = viewer_state_keys memberships wrapper_to_effective login_accounts include_all
      in filter (\<lambda>v. state_key v = k \<and> (vs_login_account_acct v, state_key v) \<in> set keys)
           (ks_viewer_states S))"

section \<open>Bulk hydration\<close>

type_synonym key_queue = "entity_key list \<times> entity_key list"

text \<open>\<^verbatim>\<open>push_unique_status_key\<close>: the keys queued so far and the keys seen.\<close>

definition push_unique_status_key :: "entity_key \<Rightarrow> key_queue \<Rightarrow> key_queue" where
  "push_unique_status_key k q =
     (if k \<in> set (snd q) then q else (fst q @ [k], k # snd q))"

definition push_reference :: "rstr option \<Rightarrow> rstr \<Rightarrow> key_queue \<Rightarrow> key_queue" where
  "push_reference i domain q =
     (case i of None \<Rightarrow> q | Some x \<Rightarrow> push_unique_status_key (x, domain) q)"

definition query_statuses_by_keys :: "kq_store \<Rightarrow> entity_key list \<Rightarrow> (entity_key \<times> db_status) list" where
  "query_statuses_by_keys S keys =
     map (\<lambda>s. (status_key_for_status s, s))
       (filter (\<lambda>s. status_key_for_status s \<in> set keys) (ks_statuses S))"

text \<open>\<^verbatim>\<open>entry(key).or_insert(status)\<close> for each loaded row.\<close>

definition or_insert_all :: "('k \<times> 'v) list \<Rightarrow> ('k \<times> 'v) list \<Rightarrow> ('k \<times> 'v) list" where
  "or_insert_all m new = m @ filter (\<lambda>(k, _). map_of m k = None) new"

definition push_original_quote :: "(entity_key \<times> db_status) list \<Rightarrow> db_status \<Rightarrow> key_queue \<Rightarrow> key_queue" where
  "push_original_quote by_key s q =
     (case st_reblog_of_id s of
        None \<Rightarrow> q
      | Some i \<Rightarrow>
          (case map_of by_key (i, st_server_domain s) of
             None \<Rightarrow> q
           | Some original \<Rightarrow> push_reference (st_quote_id original) (st_server_domain original) q))"

record view_context =
  vc_statuses :: "(entity_key \<times> db_status) list"
  vc_accounts :: "(entity_key \<times> db_account) list"

definition load_view_context :: "kq_store \<Rightarrow> db_status list \<Rightarrow> view_context" where
  "load_view_context S statuses =
     (let by_key = rev (map (\<lambda>s. (status_key_for_status s, s)) statuses);
          related = fst (fold (\<lambda>s q. push_reference (st_quote_id s) (st_server_domain s)
              (push_reference (st_reblog_of_id s) (st_server_domain s) q)) statuses
              ([], map fst by_key));
          by_key = or_insert_all by_key (query_statuses_by_keys S related);
          original_quotes = fst (fold (push_original_quote by_key) statuses ([], map fst by_key));
          by_key = or_insert_all by_key (query_statuses_by_keys S original_quotes);
          account_keys = fst (fold (\<lambda>(_, s). push_unique_status_key (author_key s)) by_key ([], []))
      in \<lparr>vc_statuses = by_key,
          vc_accounts = map (\<lambda>a. (account_key a, a))
            (filter (\<lambda>a. account_key a \<in> set account_keys) (ks_accounts S))\<rparr>)"

definition account_for_status :: "view_context \<Rightarrow> db_status \<Rightarrow> db_account option" where
  "account_for_status hydration s = map_of (vc_accounts hydration) (author_key s)"

definition hydrated_effective :: "view_context \<Rightarrow> db_status \<Rightarrow> db_status option" where
  "hydrated_effective hydration wrapper =
     (case st_reblog_of_id wrapper of
        Some original_id \<Rightarrow> map_of (vc_statuses hydration) (original_id, st_server_domain wrapper)
      | None \<Rightarrow> Some wrapper)"

definition hydrated_quote :: "view_context \<Rightarrow> db_status \<Rightarrow> db_status option" where
  "hydrated_quote hydration effective =
     (case st_quote_id effective of
        None \<Rightarrow> None
      | Some i \<Rightarrow> map_of (vc_statuses hydration) (i, st_server_domain effective))"

definition hydrated_view :: "view_context \<Rightarrow> db_status \<Rightarrow> status_view" where
  "hydrated_view hydration s = \<lparr>sv_status = s, sv_account = account_for_status hydration s\<rparr>"

text \<open>The contexts of the rows of one page, every part loaded.\<close>

definition page_contexts :: "kq_store \<Rightarrow> status_key list \<Rightarrow> db_status list \<Rightarrow> db_status \<Rightarrow> ctx" where
  "page_contexts S conversation_keys rows =
     (let hydration = load_view_context S rows;
          memberships = load_timeline_memberships S (map status_key_for_status rows);
          login_accounts = load_login_account_identities S;
          wrapper_to_effective = List.map_filter (\<lambda>s. map_option
            (\<lambda>e. (status_key_for_status s, status_key_for_status e)) (hydrated_effective hydration s)) rows;
          viewer_states =
            load_viewer_states S memberships wrapper_to_effective login_accounts True
      in (\<lambda>s. (let effective = hydrated_effective hydration s in
         \<lparr>ec_wrapper = hydrated_view hydration s,
          ec_effective = map_option (hydrated_view hydration) effective,
          ec_quote = map_option (hydrated_view hydration)
            (Option.bind effective (hydrated_quote hydration)),
          ec_login_accounts = login_accounts,
          ec_memberships = memberships (status_key_for_status s),
          ec_viewer_states =
            (case effective of None \<Rightarrow> [] | Some e \<Rightarrow> viewer_states (status_key_for_status e)),
          ec_conversation_keys = conversation_keys\<rparr>)))"

section \<open>The context of a stored row\<close>

definition stored_effective :: "kq_store \<Rightarrow> db_status \<Rightarrow> db_status option" where
  "stored_effective S s =
     (case st_reblog_of_id s of
        Some i \<Rightarrow> status_row S (i, st_server_domain s) | None \<Rightarrow> Some s)"

definition stored_quote :: "kq_store \<Rightarrow> db_status \<Rightarrow> db_status option" where
  "stored_quote S e =
     (case st_quote_id e of None \<Rightarrow> None | Some i \<Rightarrow> status_row S (i, st_server_domain e))"

definition stored_view :: "kq_store \<Rightarrow> db_status \<Rightarrow> status_view" where
  "stored_view S s = \<lparr>sv_status = s, sv_account = account_row S (author_key s)\<rparr>"

definition context_of :: "kq_store \<Rightarrow> status_key list \<Rightarrow> db_status \<Rightarrow> ctx" where
  "context_of S conversation_keys s = \<lparr>
     ec_wrapper = stored_view S s,
     ec_effective = map_option (stored_view S) (stored_effective S s),
     ec_quote = map_option (stored_view S) (Option.bind (stored_effective S s) (stored_quote S)),
     ec_login_accounts = load_login_account_identities S,
     ec_memberships = load_timeline_memberships S [status_key_for_status s] (status_key_for_status s),
     ec_viewer_states =
       (case stored_effective S s of
          None \<Rightarrow> []
        | Some e \<Rightarrow> filter (\<lambda>v. state_key v = status_key_for_status e) (ks_viewer_states S)),
     ec_conversation_keys = conversation_keys\<rparr>"

text \<open>What the schema guarantees: primary keys, and the foreign keys of the viewer states and of the
  timeline entries to the login accounts.\<close>

definition store_keys_ok :: "kq_store \<Rightarrow> bool" where
  "store_keys_ok S \<longleftrightarrow>
     distinct (map status_key_for_status (ks_statuses S)) \<and>
     (\<forall>v \<in> set (ks_viewer_states S). vs_login_account_acct v \<in> la_acct ` set (ks_login_accounts S)) \<and>
     (\<forall>e \<in> set (ks_timeline_entries S). te_account_acct e \<in> la_acct ` set (ks_login_accounts S))"

lemma set_login_accounts [simp]:
  "set (load_login_account_identities S) = set (ks_login_accounts S)"
  by (simp add: load_login_account_identities_def)

lemma set_newest_entries [simp]: "set (newest_entries es) = set es"
  by (simp add: newest_entries_def)

lemma find_key:
  "distinct (map f xs) \<Longrightarrow> x \<in> set xs \<Longrightarrow> find (\<lambda>y. f y = f x) xs = Some x"
  by (induction xs) auto

lemma status_row_stored:
  "store_keys_ok S \<Longrightarrow> s \<in> set (ks_statuses S) \<Longrightarrow> status_row S (status_key_for_status s) = Some s"
  by (simp add: store_keys_ok_def status_row_def find_key)

lemma status_row_Some:
  "status_row S k = Some s \<Longrightarrow> s \<in> set (ks_statuses S) \<and> status_key_for_status s = k"
  by (auto simp: status_row_def find_Some_iff)

lemma stored_effective_stored:
  "s \<in> set (ks_statuses S) \<Longrightarrow> stored_effective S s = Some e \<Longrightarrow> e \<in> set (ks_statuses S)"
  by (auto simp: stored_effective_def split: option.splits dest: status_row_Some)

lemma map_of_keyed: "map_of (map (\<lambda>x. (f x, x)) xs) k = find (\<lambda>x. f x = k) xs"
  by (induction xs) auto

lemma find_filter: "find P (filter Q xs) = find (\<lambda>x. Q x \<and> P x) xs"
  by (induction xs) auto

lemma map_of_loaded:
  "map_of (query_statuses_by_keys S keys) k = (if k \<in> set keys then status_row S k else None)"
proof -
  have "(\<lambda>s. status_key_for_status s \<in> set keys \<and> status_key_for_status s = k) =
      (if k \<in> set keys then (\<lambda>s. status_key_for_status s = k) else (\<lambda>s. False))"
    by (auto simp: fun_eq_iff)
  moreover have "find (\<lambda>s. False) xs = None" for xs :: "db_status list"
    by (induction xs) auto
  ultimately show ?thesis
    by (simp add: query_statuses_by_keys_def map_of_keyed find_filter status_row_def)
qed

lemma map_of_or_insert:
  "map_of (or_insert_all m new) k = (case map_of m k of Some v \<Rightarrow> Some v | None \<Rightarrow> map_of new k)"
proof -
  have "map_of m k = None \<Longrightarrow> map_of (filter (\<lambda>(k, _). map_of m k = None) new) k = map_of new k"
    by (induction new) auto
  then show ?thesis
    by (auto simp: or_insert_all_def map_add_def split: option.splits)
qed

text \<open>A queue ends up with every requested key that had not been seen.\<close>

definition pushes :: "entity_key set \<Rightarrow> key_queue \<Rightarrow> key_queue \<Rightarrow> bool" where
  "pushes K q q' \<longleftrightarrow> set (snd q') = K \<union> set (snd q) \<and> set (fst q') = set (fst q) \<union> (K - set (snd q))"

definition reference :: "rstr option \<Rightarrow> rstr \<Rightarrow> entity_key set" where
  "reference i domain = (case i of None \<Rightarrow> {} | Some x \<Rightarrow> {(x, domain)})"

lemma pushes_trans: "pushes K q q' \<Longrightarrow> pushes K' q' q'' \<Longrightarrow> pushes (K \<union> K') q q''"
  by (auto simp: pushes_def)

lemma pushes_unique: "pushes {k} q (push_unique_status_key k q)"
  by (auto simp: pushes_def push_unique_status_key_def)

lemma pushes_reference: "pushes (reference i domain) q (push_reference i domain q)"
  by (cases i) (auto simp: push_reference_def reference_def pushes_unique, simp add: pushes_def)

lemma pushes_fold:
  assumes "\<And>x q. x \<in> set xs \<Longrightarrow> pushes (K x) q (f x q)"
  shows "pushes (\<Union>x \<in> set xs. K x) q (fold f xs q)"
  using assms
proof (induction xs arbitrary: q)
  case Nil
  then show ?case by (simp add: pushes_def)
next
  case (Cons x xs)
  have "pushes (K x \<union> (\<Union>y \<in> set xs. K y)) q (fold f xs (f x q))"
    by (rule pushes_trans[OF Cons.prems Cons.IH]) (use Cons.prems in auto)
  then show ?case by simp
qed

lemma pushes_start: "pushes K ([], seen) q \<Longrightarrow> set (fst q) = K - set seen"
  by (simp add: pushes_def)

text \<open>A map is sound when it holds rows of the store under their keys.\<close>

definition rows_sound :: "kq_store \<Rightarrow> (entity_key \<times> db_status) list \<Rightarrow> bool" where
  "rows_sound S m \<longleftrightarrow> (\<forall>k s. map_of m k = Some s \<longrightarrow> status_row S k = Some s)"

lemma load_missing:
  assumes "rows_sound S m" and "set keys = K - fst ` set m"
  shows "rows_sound S (or_insert_all m (query_statuses_by_keys S keys))"
    and "k \<in> K \<Longrightarrow> map_of (or_insert_all m (query_statuses_by_keys S keys)) k = status_row S k"
    and "map_of m k = Some s \<Longrightarrow> map_of (or_insert_all m (query_statuses_by_keys S keys)) k = Some s"
  using assms by (cases k; auto simp: rows_sound_def map_of_or_insert map_of_loaded map_of_eq_None_iff
      split: option.splits if_splits)+

definition page_keys :: "db_status list \<Rightarrow> entity_key set" where
  "page_keys statuses = (\<Union>s \<in> set statuses.
     reference (st_reblog_of_id s) (st_server_domain s) \<union> reference (st_quote_id s) (st_server_domain s))"

lemma load_view_context_statuses:
  assumes "store_keys_ok S" and "set rows \<subseteq> set (ks_statuses S)"
  shows "rows_sound S (vc_statuses (load_view_context S rows))"
    and "k \<in> page_keys rows \<Longrightarrow> map_of (vc_statuses (load_view_context S rows)) k = status_row S k"
    and "r \<in> set rows \<Longrightarrow> st_reblog_of_id r = Some i \<Longrightarrow>
      status_row S (i, st_server_domain r) = Some original \<Longrightarrow> st_quote_id original = Some q \<Longrightarrow>
      map_of (vc_statuses (load_view_context S rows)) (q, st_server_domain original) =
      status_row S (q, st_server_domain original)"
    and "r \<in> set rows \<Longrightarrow> map_of (vc_statuses (load_view_context S rows)) (status_key_for_status r) = Some r"
proof -
  define m0 where "m0 = rev (map (\<lambda>s. (status_key_for_status s, s)) rows)"
  define related where "related = fst (fold (\<lambda>s q. push_reference (st_quote_id s) (st_server_domain s)
      (push_reference (st_reblog_of_id s) (st_server_domain s) q)) rows ([], map fst m0))"
  define m1 where "m1 = or_insert_all m0 (query_statuses_by_keys S related)"
  define quotes where "quotes = fst (fold (push_original_quote m1) rows ([], map fst m1))"
  define m2 where "m2 = or_insert_all m1 (query_statuses_by_keys S quotes)"
  have ctx: "vc_statuses (load_view_context S rows) = m2"
    by (simp add: load_view_context_def Let_def m0_def related_def m1_def quotes_def m2_def)
  have m0: "rows_sound S m0"
    using assms(2) status_row_stored[OF assms(1)]
    by (force simp: rows_sound_def m0_def dest!: map_of_SomeD)
  have "pushes (page_keys rows) ([], map fst m0) (fold (\<lambda>s q. push_reference (st_quote_id s)
      (st_server_domain s) (push_reference (st_reblog_of_id s) (st_server_domain s) q)) rows
      ([], map fst m0))"
    unfolding page_keys_def by (rule pushes_fold) (rule pushes_trans; rule pushes_reference)
  then have related: "set related = page_keys rows - fst ` set m0"
    unfolding related_def by (simp add: pushes_start)
  note m1 = load_missing[OF m0 related, folded m1_def]
  have original: "map_of m1 (i, st_server_domain r) = status_row S (i, st_server_domain r)"
    if "r \<in> set rows" "st_reblog_of_id r = Some i" for r i
    using that by (intro m1(2)) (auto simp: page_keys_def reference_def intro!: bexI[of _ r])
  define Q where "Q r = (case st_reblog_of_id r of None \<Rightarrow> {} | Some i \<Rightarrow>
      (case status_row S (i, st_server_domain r) of None \<Rightarrow> {}
       | Some original \<Rightarrow> reference (st_quote_id original) (st_server_domain original)))" for r :: db_status
  have "pushes (Q r) q (push_original_quote m1 r q)" if "r \<in> set rows" for r q
    using original[OF that] pushes_reference
    by (auto simp: push_original_quote_def Q_def pushes_def split: option.splits)
  then have "pushes (\<Union>r \<in> set rows. Q r) ([], map fst m1)
      (fold (push_original_quote m1) rows ([], map fst m1))"
    by (rule pushes_fold)
  then have quotes: "set quotes = (\<Union>r \<in> set rows. Q r) - fst ` set m1"
    unfolding quotes_def by (simp add: pushes_start)
  note m2 = load_missing[OF m1(1) quotes, folded m2_def]
  show "rows_sound S (vc_statuses (load_view_context S rows))"
    unfolding ctx by (rule m2(1))
  show "map_of (vc_statuses (load_view_context S rows)) k = status_row S k" if "k \<in> page_keys rows"
    unfolding ctx using m1(2)[OF that] m2(1) m2(3)[of k] unfolding rows_sound_def
    by (metis option.exhaust)
  show "map_of (vc_statuses (load_view_context S rows)) (q, st_server_domain original) =
      status_row S (q, st_server_domain original)"
    if "r \<in> set rows" "st_reblog_of_id r = Some i"
      "status_row S (i, st_server_domain r) = Some original" "st_quote_id original = Some q"
    unfolding ctx by (rule m2(2)) (use that in \<open>auto simp: Q_def reference_def intro!: bexI[of _ r]\<close>)
  show "map_of (vc_statuses (load_view_context S rows)) (status_key_for_status r) = Some r"
    if "r \<in> set rows"
  proof -
    have "(status_key_for_status r, r) \<in> set m0" using that by (auto simp: m0_def)
    then obtain s where s: "map_of m0 (status_key_for_status r) = Some s"
      by (metis map_of_eq_None_iff not_None_eq fst_conv image_eqI)
    then have "status_row S (status_key_for_status r) = Some s"
      using m0 unfolding rows_sound_def by blast
    then have "s = r" using status_row_stored[OF assms(1), of r] that assms(2) by auto
    then show ?thesis unfolding ctx using m2(3)[OF m1(3)[OF s]] by simp
  qed
qed

lemma account_for_hydrated:
  assumes "(k, s) \<in> set (vc_statuses (load_view_context S rows))"
  shows "account_for_status (load_view_context S rows) s = account_row S (author_key s)"
proof -
  define m where "m = vc_statuses (load_view_context S rows)"
  define keys where "keys = fst (fold (\<lambda>(_, s). push_unique_status_key (author_key s)) m ([], []))"
  have accounts: "vc_accounts (load_view_context S rows) =
      map (\<lambda>a. (account_key a, a)) (filter (\<lambda>a. account_key a \<in> set keys) (ks_accounts S))"
    by (simp add: load_view_context_def Let_def keys_def m_def)
  have "pushes (\<Union>x \<in> set m. {author_key (snd x)}) ([], [])
      (fold (\<lambda>(_, s). push_unique_status_key (author_key s)) m ([], []))"
    by (rule pushes_fold) (simp add: pushes_unique split: prod.splits)
  then have "set keys = (\<Union>x \<in> set m. {author_key (snd x)})"
    unfolding keys_def by (simp add: pushes_def)
  moreover have "(k, s) \<in> set m" using assms by (simp add: m_def)
  ultimately have "author_key s \<in> set keys" by force
  then have "(\<lambda>a. account_key a \<in> set keys \<and> account_key a = author_key s) =
      (\<lambda>a. account_key a = author_key s)" by (auto simp: fun_eq_iff)
  then show ?thesis
    by (simp add: account_for_status_def accounts map_of_keyed find_filter account_row_def)
qed

lemma hydrated_rows:
  assumes "store_keys_ok S" and "set rows \<subseteq> set (ks_statuses S)" and "r \<in> set rows"
  shows "hydrated_effective (load_view_context S rows) r = stored_effective S r"
    and "Option.bind (stored_effective S r) (hydrated_quote (load_view_context S rows)) =
      Option.bind (stored_effective S r) (stored_quote S)"
    and "hydrated_view (load_view_context S rows) r = stored_view S r"
proof -
  note maps = load_view_context_statuses[OF assms(1,2)]
  have page: "(i, st_server_domain r) \<in> page_keys rows"
    if "st_reblog_of_id r = Some i \<or> st_quote_id r = Some i" for i
    using that assms(3) by (auto simp: page_keys_def reference_def intro!: bexI[of _ r])
  show eff: "hydrated_effective (load_view_context S rows) r = stored_effective S r"
    using maps(2)[OF page] by (auto simp: hydrated_effective_def stored_effective_def split: option.splits)
  have "hydrated_quote (load_view_context S rows) e = stored_quote S e" if e: "stored_effective S r = Some e" for e
  proof (cases "st_reblog_of_id r")
    case None
    then have "e = r" using e by (simp add: stored_effective_def)
    then show ?thesis
      using maps(2)[OF page] by (auto simp: hydrated_quote_def stored_quote_def split: option.splits)
  next
    case (Some i)
    then show ?thesis
      using maps(3)[OF assms(3) Some] e
      by (auto simp: hydrated_quote_def stored_quote_def stored_effective_def split: option.splits)
  qed
  then show "Option.bind (stored_effective S r) (hydrated_quote (load_view_context S rows)) =
      Option.bind (stored_effective S r) (stored_quote S)"
    by (cases "stored_effective S r") simp_all
  show "hydrated_view (load_view_context S rows) r = stored_view S r"
    using account_for_hydrated[OF map_of_SomeD[OF maps(4)[OF assms(3)]]]
    by (simp add: hydrated_view_def stored_view_def)
qed

lemma hydrated_references:
  assumes "store_keys_ok S" and "set rows \<subseteq> set (ks_statuses S)" and "r \<in> set rows"
  shows "stored_effective S r = Some e \<Longrightarrow> hydrated_view (load_view_context S rows) e = stored_view S e"
    and "stored_effective S r = Some e \<Longrightarrow> stored_quote S e = Some q \<Longrightarrow>
      hydrated_view (load_view_context S rows) q = stored_view S q"
proof -
  note rows = hydrated_rows[OF assms]
  have seen: "hydrated_view (load_view_context S rows) s = stored_view S s"
    if "map_of (vc_statuses (load_view_context S rows)) k = Some s" for k s
    using account_for_hydrated[OF map_of_SomeD[OF that]] by (simp add: hydrated_view_def stored_view_def)
  show "hydrated_view (load_view_context S rows) e = stored_view S e" if "stored_effective S r = Some e"
    using that rows(1,3) seen by (auto simp: hydrated_effective_def split: option.splits)
  show "hydrated_view (load_view_context S rows) q = stored_view S q"
    if "stored_effective S r = Some e" "stored_quote S e = Some q"
    using that rows(2) seen by (auto simp: hydrated_quote_def split: option.splits)
qed

lemma loaded_viewer_states:
  assumes "store_keys_ok S" and "(w, k) \<in> set pairs"
  shows "load_viewer_states S memberships pairs (load_login_account_identities S) True k =
    filter (\<lambda>v. state_key v = k) (ks_viewer_states S)"
proof -
  have "(vs_login_account_acct v, k) \<in> set (viewer_state_keys memberships pairs
      (load_login_account_identities S) True)" if "v \<in> set (ks_viewer_states S)" for v
  proof -
    have "vs_login_account_acct v \<in> la_acct ` set (ks_login_accounts S)"
      using assms(1) that by (simp add: store_keys_ok_def)
    then have "(vs_login_account_acct v, k) \<in> set ((\<lambda>(wrapper_key, effective_key).
        map (\<lambda>acct. (acct, effective_key)) (map tm_account_acct (memberships wrapper_key) @
          (if True then map la_acct (load_login_account_identities S) else []))) (w, k))"
      by auto
    then show ?thesis
      using assms(2) unfolding viewer_state_keys_def set_remdups set_concat set_map by blast
  qed
  then show ?thesis
    unfolding load_viewer_states_def Let_def by (intro filter_cong) auto
qed

lemma page_contexts_stored:
  assumes "store_keys_ok S" and "set rows \<subseteq> set (ks_statuses S)" and "r \<in> set rows"
  shows "page_contexts S conversation_keys rows r = context_of S conversation_keys r"
proof -
  let ?H = "load_view_context S rows"
  let ?pairs = "List.map_filter (\<lambda>s. map_option
      (\<lambda>e. (status_key_for_status s, status_key_for_status e)) (hydrated_effective ?H s)) rows"
  note rows = hydrated_rows[OF assms] and refs = hydrated_references[OF assms]
  have "map_option (hydrated_view ?H) (stored_effective S r) =
      map_option (stored_view S) (stored_effective S r)"
    using refs(1) by (cases "stored_effective S r") auto
  moreover have "map_option (hydrated_view ?H) (Option.bind (stored_effective S r) (stored_quote S)) =
      map_option (stored_view S) (Option.bind (stored_effective S r) (stored_quote S))"
    using refs(2) by (cases "Option.bind (stored_effective S r) (stored_quote S)")
      (auto simp: bind_eq_Some_conv)
  moreover have "load_timeline_memberships S (map status_key_for_status rows) (status_key_for_status r) =
      load_timeline_memberships S [status_key_for_status r] (status_key_for_status r)"
    using assms(3) by (simp add: load_timeline_memberships_def)
  moreover have "load_viewer_states S memberships ?pairs (load_login_account_identities S) True
        (status_key_for_status e) =
      filter (\<lambda>v. state_key v = status_key_for_status e) (ks_viewer_states S)"
    if "stored_effective S r = Some e" for memberships e
  proof (rule loaded_viewer_states[OF assms(1)])
    show "(status_key_for_status r, status_key_for_status e) \<in> set ?pairs"
      using that rows(1) assms(3) by (force simp: List.map_filter_def)
  qed
  ultimately show ?thesis
    by (simp add: page_contexts_def context_of_def Let_def rows split: option.splits)
qed

section \<open>Bulk hydration is exact\<close>

text \<open>A store with a post that quotes, a boost of it and the quoted post.\<close>

definition boost_store :: kq_store where
  "boost_store = \<lparr>
     ks_statuses = [sample_status\<lparr>st_id := str ''b'', st_reblog_of_id := Some (str ''1'')\<rparr>,
       sample_status\<lparr>st_quote_id := Some (str ''q'')\<rparr>, sample_status\<lparr>st_id := str ''q''\<rparr>],
     ks_accounts = [], ks_timeline_entries = [], ks_viewer_states = [],
     ks_login_accounts = [sample_account], ks_status_counter = Some 3\<rparr>"

lemma boost_store_ok: "store_keys_ok boost_store"
  by code_simp

text \<open>C25: hydrating a page in bulk gives each row the context that it has by itself in the store, boosted
  and quoted posts, authors, memberships and viewer states included, whatever else is on the
  page.\<close>

theorem page_hydration_exact:
  assumes "store_keys_ok S" and "set rows \<subseteq> set (ks_statuses S)" and "r \<in> set rows"
  shows "page_contexts S conversation_keys rows r = context_of S conversation_keys r"
  by (rule page_contexts_stored[OF assms])

theorem page_hydration_exact_witness:
  "page_contexts boost_store [] (take 1 (ks_statuses boost_store)) (hd (ks_statuses boost_store)) =
     context_of boost_store [] (hd (ks_statuses boost_store)) \<and>
   map_option (\<lambda>v. st_id (sv_status v)) (ec_quote (context_of boost_store [] (hd (ks_statuses boost_store)))) =
     Some (str ''q'')"
proof
  show "page_contexts boost_store [] (take 1 (ks_statuses boost_store)) (hd (ks_statuses boost_store)) =
      context_of boost_store [] (hd (ks_statuses boost_store))"
    by (rule page_hydration_exact[OF boost_store_ok]) (simp_all add: boost_store_def)
  show "map_option (\<lambda>v. st_id (sv_status v))
      (ec_quote (context_of boost_store [] (hd (ks_statuses boost_store)))) = Some (str ''q'')"
    by code_simp
qed

end
