(* ===== verification/KqConversation.thy ===== *)
theory KqConversation
imports KqStore
begin

text \<open>
  Conversations: the thread page of \<^verbatim>\<open>src/src/db/queries/read_models.rs\<close>, whose recursive statement
  climbs to the first post of a thread and collects the replies below it, and the resolution of
  the \<^verbatim>\<open>conversation\<close> sources in \<^verbatim>\<open>src/src/services/kq_timeline.rs\<close>. A path is the text of ids between
  unit separators that the statement builds to detect cycles. The theorem: a resolved conversation
  is never truncated; it consists of exactly the posts that share an ancestor with one of its roots.
\<close>

section \<open>The thread page\<close>

definition unit_separator :: rchar where "unit_separator = 31"

definition path_mark :: "rstr \<Rightarrow> rstr" where
  "path_mark i = unit_separator # i @ [unit_separator]"

definition parent_row :: "kq_store \<Rightarrow> db_status \<Rightarrow> db_status option" where
  "parent_row S s =
     (case st_in_reply_to_id s of None \<Rightarrow> None | Some i \<Rightarrow> status_row S (i, st_server_domain s))"

definition child_rows :: "kq_store \<Rightarrow> db_status \<Rightarrow> db_status list" where
  "child_rows S s = filter (\<lambda>c. st_in_reply_to_id c = Some (st_id s) \<and>
     st_server_domain c = st_server_domain s) (ks_statuses S)"

text \<open>The common table expressions \<^verbatim>\<open>ancestors\<close> and \<^verbatim>\<open>descendants\<close>; the number is what is left of the
  depth limit.\<close>

fun thread_ancestors :: "kq_store \<Rightarrow> nat \<Rightarrow> rstr \<Rightarrow> db_status \<Rightarrow> db_status list" where
  "thread_ancestors S 0 path s = [s]"
| "thread_ancestors S (Suc n) path s =
     s # (case parent_row S s of
            None \<Rightarrow> []
          | Some parent \<Rightarrow>
              if str_contains path (path_mark (st_id parent)) then []
              else thread_ancestors S n (path @ st_id parent @ [unit_separator]) parent)"

fun thread_descendants :: "kq_store \<Rightarrow> nat \<Rightarrow> rstr \<Rightarrow> db_status \<Rightarrow> db_status list" where
  "thread_descendants S 0 path s = [s]"
| "thread_descendants S (Suc n) path s =
     s # concat (map (\<lambda>c.
       if str_contains path (path_mark (st_id c)) then []
       else thread_descendants S n (path @ st_id c @ [unit_separator]) c) (child_rows S s))"

definition query_thread_status_page ::
  "kq_store \<Rightarrow> rstr \<Rightarrow> rstr \<Rightarrow> nat \<Rightarrow> db_status list option" where
  "query_thread_status_page S status_id server_domain page_limit =
     (let page_limit = min (max page_limit 1) 500 in
      case status_row S (status_id, server_domain) of
        None \<Rightarrow> None
      | Some s \<Rightarrow>
          (let ancestors = thread_ancestors S page_limit (path_mark (st_id s)) s;
               root = last ancestors;
               descendants = thread_descendants S page_limit (path_mark (st_id root)) root
           in Some (take page_limit (remdups (ancestors @ descendants)))))"

section \<open>Conversation sources\<close>

definition max_conversation_sources :: nat where "max_conversation_sources = 8"
definition max_conversation_roots :: nat where "max_conversation_roots = 32"
definition max_conversation_statuses_per_source :: nat where
  "max_conversation_statuses_per_source = 500"
definition max_conversation_statuses :: nat where "max_conversation_statuses = 4000"

definition conversation_candidates :: "kq_store \<Rightarrow> rstr \<Rightarrow> nat \<Rightarrow> entity_key list" where
  "conversation_candidates S source_value remaining =
     map status_key_for_status (take remaining
       (if str_contains source_value (str ''://'')
        then sort_key st_server_domain (sort_key st_id
          (filter (\<lambda>s. st_uri s = source_value \<or> st_url s = Some source_value) (ks_statuses S)))
        else
          (case split_once (chr CHR ''/'') source_value of
             Some (server_domain, status_id) \<Rightarrow>
               filter (\<lambda>s. status_key_for_status s = (status_id, server_domain)) (ks_statuses S)
           | None \<Rightarrow>
               sort_key st_server_domain (filter (\<lambda>s. st_id s = source_value) (ks_statuses S)))))"

definition add_key :: "entity_key \<Rightarrow> entity_key list \<Rightarrow> entity_key list" where
  "add_key k ks = (if k \<in> set ks then ks else ks @ [k])"

fun conversation_roots ::
  "kq_store \<Rightarrow> rstr list \<Rightarrow> entity_key list \<Rightarrow> kq_timeline_error + entity_key list" where
  "conversation_roots S [] roots = Inr roots"
| "conversation_roots S (source_value # values) roots =
     (let remaining = (max_conversation_roots - length roots) + 1;
          roots = fold add_key (conversation_candidates S source_value remaining) roots
      in if length roots > max_conversation_roots then Inl (KtTimeout 0)
         else conversation_roots S values roots)"

fun conversation_statuses ::
  "kq_store \<Rightarrow> entity_key list \<Rightarrow> entity_key list \<Rightarrow> kq_timeline_error + entity_key list" where
  "conversation_statuses S [] keys = Inr keys"
| "conversation_statuses S ((status_id, server_domain) # roots) keys =
     (case query_thread_status_page S status_id server_domain max_conversation_statuses_per_source of
        None \<Rightarrow> conversation_statuses S roots keys
      | Some page \<Rightarrow>
          if length page \<ge> max_conversation_statuses_per_source then Inl (KtTimeout (length page))
          else (let keys = fold add_key (map status_key_for_status page) keys in
                if length keys > max_conversation_statuses then Inl (KtTimeout (length keys))
                else conversation_statuses S roots keys))"

definition resolve_conversation_keys ::
  "kq_store \<Rightarrow> rstr list \<Rightarrow> kq_timeline_error + entity_key list" where
  "resolve_conversation_keys S source_values =
     (if length source_values > max_conversation_sources then Inl (KtTimeout 0)
      else ebind (conversation_roots S source_values []) (\<lambda>roots. conversation_statuses S roots []))"

text \<open>The keys as the evaluator gets them, in the order of domain and id.\<close>

definition sorted_conversation_keys :: "entity_key list \<Rightarrow> status_key list" where
  "sorted_conversation_keys keys =
     sort_key sk_server_domain (sort_key sk_id
       (map (\<lambda>(i, domain). \<lparr>sk_server_domain = domain, sk_id = i\<rparr>) keys))"

section \<open>Threads\<close>

text \<open>One post answers another, and two posts are in one thread when they share an ancestor.\<close>

definition replies_to :: "kq_store \<Rightarrow> db_status \<Rightarrow> db_status \<Rightarrow> bool" where
  "replies_to S c p \<longleftrightarrow> c \<in> set (ks_statuses S) \<and> parent_row S c = Some p"

definition same_thread :: "kq_store \<Rightarrow> db_status \<Rightarrow> db_status \<Rightarrow> bool" where
  "same_thread S a b \<longleftrightarrow> (\<exists>top. (replies_to S)\<^sup>*\<^sup>* a top \<and> (replies_to S)\<^sup>*\<^sup>* b top)"

definition separator_free :: "kq_store \<Rightarrow> bool" where
  "separator_free S \<longleftrightarrow> (\<forall>s \<in> set (ks_statuses S). unit_separator \<notin> set (st_id s))"

subsection \<open>Paths\<close>

definition id_path :: "db_status list \<Rightarrow> rstr" where
  "id_path rows = unit_separator # concat (map (\<lambda>r. st_id r @ [unit_separator]) rows)"

lemma id_path_single: "path_mark (st_id s) = id_path [s]"
  by (simp add: path_mark_def id_path_def)

lemma id_path_snoc: "id_path rows @ st_id s @ [unit_separator] = id_path (rows @ [s])"
  by (simp add: id_path_def)

lemma contains_skip:
  "c \<notin> set v \<Longrightarrow> str_contains (v @ w) (c # p) \<longleftrightarrow> str_contains w (c # p)"
  by (induction v) (auto simp: starts_with_def)

lemma starts_with_mark:
  "c \<notin> set i \<Longrightarrow> c \<notin> set v \<Longrightarrow> starts_with (v @ c # w) (i @ [c]) \<longleftrightarrow> i = v"
proof (induction i arbitrary: v)
  case Nil
  then show ?case by (cases v) (auto simp: starts_with_def)
next
  case (Cons x i)
  then show ?case by (cases v) (auto simp: starts_with_def)
qed

lemma path_contains:
  assumes "unit_separator \<notin> set i" and "\<forall>r \<in> set rows. unit_separator \<notin> set (st_id r)"
  shows "str_contains (id_path rows) (path_mark i) \<longleftrightarrow> i \<in> st_id ` set rows"
  using assms(2)
proof (induction rows)
  case Nil
  then show ?case
    by (cases i) (auto simp: id_path_def path_mark_def starts_with_def)
next
  case (Cons r rows)
  have split: "id_path (r # rows) = unit_separator # st_id r @ id_path rows"
    by (simp add: id_path_def)
  have "starts_with (unit_separator # st_id r @ id_path rows) (unit_separator # i @ [unit_separator])
      \<longleftrightarrow> i = st_id r"
    using starts_with_mark[of unit_separator i "st_id r" "concat (map (\<lambda>r. st_id r @ [unit_separator]) rows)"]
      assms(1) Cons.prems by (simp add: starts_with_def id_path_def)
  moreover have "str_contains (st_id r @ id_path rows) (unit_separator # i @ [unit_separator]) \<longleftrightarrow>
      i \<in> st_id ` set rows"
    using Cons contains_skip[of unit_separator "st_id r"] by (simp add: path_mark_def)
  ultimately show ?case by (simp add: split path_mark_def)
qed

subsection \<open>Climbing to the first post\<close>

lemma parent_row_Some:
  "parent_row S s = Some p \<Longrightarrow> p \<in> set (ks_statuses S) \<and> st_in_reply_to_id s = Some (st_id p) \<and>
     st_server_domain p = st_server_domain s"
  by (auto simp: parent_row_def status_key_for_status_def split: option.splits dest!: status_row_Some)

lemma same_row:
  assumes "store_keys_ok S" "a \<in> set (ks_statuses S)" "b \<in> set (ks_statuses S)"
    and "st_id a = st_id b" "st_server_domain a = st_server_domain b"
  shows "a = b"
  using status_row_stored[OF assms(1,2)] status_row_stored[OF assms(1,3)] assms(4,5)
  by (simp add: status_key_for_status_def)

definition visited :: "kq_store \<Rightarrow> db_status \<Rightarrow> db_status list \<Rightarrow> bool" where
  "visited S s V \<longleftrightarrow> s \<in> set V \<and> set V \<subseteq> set (ks_statuses S) \<and>
     (\<forall>v \<in> set V. st_server_domain v = st_server_domain s)"

lemma visited_contains:
  assumes "store_keys_ok S" "separator_free S" "visited S s V" "p \<in> set (ks_statuses S)"
    "st_server_domain p = st_server_domain s"
  shows "str_contains (id_path V) (path_mark (st_id p)) \<longleftrightarrow> p \<in> set V"
proof -
  have "\<forall>r \<in> set V. unit_separator \<notin> set (st_id r)" "unit_separator \<notin> set (st_id p)"
    using assms(2-4) unfolding separator_free_def visited_def by blast+
  then have "str_contains (id_path V) (path_mark (st_id p)) \<longleftrightarrow> st_id p \<in> st_id ` set V"
    by (rule path_contains[rotated])
  also have "\<dots> \<longleftrightarrow> p \<in> set V"
  proof
    assume "st_id p \<in> st_id ` set V"
    then obtain v where v: "v \<in> set V" "st_id p = st_id v" by blast
    have "st_server_domain v = st_server_domain s" "v \<in> set (ks_statuses S)"
      using assms(3) v(1) unfolding visited_def by blast+
    then have "v \<in> set (ks_statuses S)" "st_server_domain p = st_server_domain v"
      using assms(5) by simp_all
    then show "p \<in> set V" using same_row[OF assms(1,4)] v by blast
  qed simp
  finally show ?thesis .
qed

lemma visited_step:
  assumes "visited S s V" "p \<in> set (ks_statuses S)" "st_server_domain p = st_server_domain s"
  shows "visited S p (V @ [p])"
proof -
  have "st_server_domain v = st_server_domain p" if "v \<in> set V" for v
    using assms(1,3) that unfolding visited_def by metis
  moreover have "set V \<subseteq> set (ks_statuses S)" using assms(1) by (simp only: visited_def)
  ultimately show ?thesis
    unfolding visited_def set_append list.set using assms(2) by blast
qed

definition climbs :: "kq_store \<Rightarrow> nat \<Rightarrow> db_status \<Rightarrow> db_status list \<Rightarrow> db_status list \<Rightarrow> bool" where
  "climbs S n s V A \<longleftrightarrow> A \<noteq> [] \<and> hd A = s \<and> distinct A \<and> set (tl A) \<inter> set V = {} \<and>
     set A \<subseteq> set (ks_statuses S) \<and>
     (\<forall>x \<in> set A. (replies_to S)\<^sup>*\<^sup>* s x \<and> (replies_to S)\<^sup>*\<^sup>* x (last A)) \<and>
     (length A \<le> n \<longrightarrow> (\<forall>x \<in> set A. \<forall>p. parent_row S x = Some p \<longrightarrow> p \<in> set A \<union> set V))"

lemma thread_ancestors_climbs:
  assumes "store_keys_ok S" "separator_free S" "visited S s V"
  shows "climbs S n s V (thread_ancestors S n (id_path V) s)"
  using assms(3)
proof (induction n arbitrary: s V)
  case 0
  then show ?case by (auto simp: climbs_def visited_def)
next
  case (Suc n)
  show ?case
  proof (cases "parent_row S s")
    case None
    then show ?thesis using Suc.prems by (auto simp: climbs_def visited_def)
  next
    case (Some p)
    note p = parent_row_Some[OF Some]
    show ?thesis
    proof (cases "p \<in> set V")
      case True
      then have "thread_ancestors S (Suc n) (id_path V) s = [s]"
        using visited_contains[OF assms(1,2) Suc.prems] p Some by simp
      then show ?thesis using True Some Suc.prems by (auto simp: climbs_def visited_def)
    next
      case False
      define A where "A = thread_ancestors S n (id_path (V @ [p])) p"
      have eq: "thread_ancestors S (Suc n) (id_path V) s = s # A"
        using visited_contains[OF assms(1,2) Suc.prems] p Some False
        by (simp add: id_path_snoc A_def)
      have A: "climbs S n p (V @ [p]) A"
        unfolding A_def using visited_step[OF Suc.prems] p by (intro Suc.IH) blast
      have s: "s \<in> set V" "s \<in> set (ks_statuses S)" using Suc.prems by (auto simp: visited_def)
      then have step: "replies_to S s p" using Some by (simp add: replies_to_def)
      have split: "A = p # tl A" using A by (cases A) (auto simp: climbs_def)
      have fresh: "set A \<inter> set V = {}"
        using A False by (subst split) (auto simp: climbs_def)
      have "(replies_to S)\<^sup>*\<^sup>* s x \<and> (replies_to S)\<^sup>*\<^sup>* x (last (s # A))" if "x \<in> set (s # A)" for x
      proof -
        have up: "(replies_to S)\<^sup>*\<^sup>* p y \<and> (replies_to S)\<^sup>*\<^sup>* y (last A)" if "y \<in> set A" for y
          using A that by (auto simp: climbs_def)
        have "last (s # A) = last A" "p \<in> set A" using split by (auto, metis list.set_intros(1))
        then show ?thesis
          using that up step by (auto intro: converse_rtranclp_into_rtranclp)
      qed
      moreover have "length (s # A) \<le> Suc n \<longrightarrow>
          (\<forall>x \<in> set (s # A). \<forall>q. parent_row S x = Some q \<longrightarrow> q \<in> set (s # A) \<union> set V)"
      proof (intro impI ballI allI)
        fix x q
        assume "length (s # A) \<le> Suc n" "x \<in> set (s # A)" and q: "parent_row S x = Some q"
        then consider "x = s" | "x \<in> set A" "length A \<le> n" by auto
        then show "q \<in> set (s # A) \<union> set V"
        proof cases
          case 1
          then show ?thesis using q Some by (subst split) simp
        next
          case 2
          then have "q \<in> set A \<union> set (V @ [p])" using A q unfolding climbs_def by blast
          moreover have "p \<in> set A" by (subst split) simp
          ultimately show ?thesis by auto
        qed
      qed
      ultimately show ?thesis
        using A fresh s split unfolding eq climbs_def by auto
    qed
  qed
qed

subsection \<open>Collecting the replies\<close>

fun goes_down :: "kq_store \<Rightarrow> db_status \<Rightarrow> db_status list \<Rightarrow> bool" where
  "goes_down S s [] \<longleftrightarrow> True"
| "goes_down S s (c # cs) \<longleftrightarrow> replies_to S c s \<and> goes_down S c cs"

lemma goes_down_append:
  "goes_down S s (cs @ ds) \<longleftrightarrow> goes_down S s cs \<and> goes_down S (last (s # cs)) ds"
  by (induction cs arbitrary: s) auto

lemma child_rows_replies:
  assumes "store_keys_ok S" "s \<in> set (ks_statuses S)"
  shows "c \<in> set (child_rows S s) \<longleftrightarrow> replies_to S c s"
proof
  assume "c \<in> set (child_rows S s)"
  then have c: "c \<in> set (ks_statuses S)" "st_in_reply_to_id c = Some (st_id s)"
    "st_server_domain c = st_server_domain s" by (simp_all add: child_rows_def)
  have "parent_row S c = Some s"
    using status_row_stored[OF assms] unfolding parent_row_def c(2,3) status_key_for_status_def by simp
  then show "replies_to S c s" using c(1) by (simp add: replies_to_def)
next
  assume "replies_to S c s"
  then show "c \<in> set (child_rows S s)"
    using parent_row_Some[of S c s] unfolding replies_to_def child_rows_def by simp
qed

lemma descendants_self [simp]: "s \<in> set (thread_descendants S n path s)"
  by (cases n) auto

lemma replies_stored: "(replies_to S)\<^sup>*\<^sup>* c s \<Longrightarrow> s \<in> set (ks_statuses S) \<Longrightarrow> c \<in> set (ks_statuses S)"
  by (induction rule: converse_rtranclp_induct) (auto simp: replies_to_def)

lemma path_below:
  "(replies_to S)\<^sup>*\<^sup>* x s \<Longrightarrow> \<exists>cs. goes_down S s cs \<and> distinct (s # cs) \<and> last (s # cs) = x"
proof (induction rule: converse_rtranclp_induct)
  case base
  have "goes_down S s [] \<and> distinct [s] \<and> last [s] = s" by simp
  then show ?case by blast
next
  case (step x p)
  then obtain cs where cs: "goes_down S s cs" "distinct (s # cs)" "last (s # cs) = p" by blast
  show ?case
  proof (cases "x \<in> set (s # cs)")
    case True
    then consider "x = s" | "x \<in> set cs" by auto
    then show ?thesis
    proof cases
      case 1
      then have "goes_down S s [] \<and> distinct [s] \<and> last [s] = x" by simp
      then show ?thesis by blast
    next
      case 2
      then obtain front rest where "cs = front @ x # rest" by (meson split_list)
      then have "cs = (front @ [x]) @ rest" by simp
      then have "goes_down S s (front @ [x]) \<and> distinct (s # front @ [x]) \<and>
          last (s # front @ [x]) = x"
        using cs(1,2) by (auto simp: goes_down_append)
      then show ?thesis by blast
    qed
  next
    case False
    have "goes_down S s (cs @ [x]) \<and> distinct (s # cs @ [x]) \<and> last (s # cs @ [x]) = x"
      using cs False step.hyps(1) by (auto simp: goes_down_append)
    then show ?thesis by blast
  qed
qed

lemma descendants_below:
  assumes "store_keys_ok S" "s \<in> set (ks_statuses S)"
  shows "x \<in> set (thread_descendants S n path s) \<Longrightarrow> (replies_to S)\<^sup>*\<^sup>* x s"
  using assms(2)
proof (induction n arbitrary: path s)
  case (Suc n)
  show ?case
  proof (cases "x = s")
    case False
    with Suc.prems(1) obtain c where c: "c \<in> set (child_rows S s)"
      "x \<in> set (thread_descendants S n (path @ st_id c @ [unit_separator]) c)"
      by (auto split: if_splits)
    then have "replies_to S c s" using child_rows_replies[OF assms(1) Suc.prems(2)] by blast
    moreover from this have "c \<in> set (ks_statuses S)" by (simp add: replies_to_def)
    ultimately show ?thesis using Suc.IH[OF c(2)] by (meson rtranclp.rtrancl_into_rtrancl)
  qed simp
qed simp

lemma descendants_reach:
  assumes "store_keys_ok S" "separator_free S"
  shows "visited S s V \<Longrightarrow> goes_down S s cs \<Longrightarrow> distinct cs \<Longrightarrow> set cs \<inter> set V = {} \<Longrightarrow>
    length cs \<le> n \<Longrightarrow> set cs \<subseteq> set (thread_descendants S n (id_path V) s)"
proof (induction cs arbitrary: n s V)
  case (Cons c cs)
  then obtain m where n: "n = Suc m" by (cases n) auto
  have s: "s \<in> set (ks_statuses S)" using Cons.prems(1) unfolding visited_def by blast
  have c: "replies_to S c s" "c \<in> set (ks_statuses S)" "st_server_domain c = st_server_domain s"
    using Cons.prems(2) parent_row_Some[of S c s] by (auto simp: replies_to_def)
  have fresh: "\<not> str_contains (id_path V) (path_mark (st_id c))"
    using visited_contains[OF assms Cons.prems(1) c(2,3)] Cons.prems(4) by auto
  have "set cs \<subseteq> set (thread_descendants S m (id_path (V @ [c])) c)"
    using Cons.IH[OF visited_step[OF Cons.prems(1) c(2,3)]] Cons.prems(2-5) n by auto
  then have "set (c # cs) \<subseteq> set (thread_descendants S m (id_path (V @ [c])) c)" by auto
  moreover have "c \<in> set (child_rows S s)" using child_rows_replies[OF assms(1) s] c(1) by blast
  moreover have "set (thread_descendants S m (id_path (V @ [c])) c) \<subseteq>
      set (thread_descendants S n (id_path V) s)" if "c \<in> set (child_rows S s)"
    using fresh that unfolding n thread_descendants.simps id_path_snoc by force
  ultimately show ?case by blast
qed simp

text \<open>A page that stays below the limit is the whole thread.\<close>

lemma thread_page_complete:
  assumes "store_keys_ok S" "separator_free S"
    and "query_thread_status_page S i domain 500 = Some page" "length page < 500"
  obtains s where "status_row S (i, domain) = Some s" "set page = {x. same_thread S s x}"
proof -
  obtain s where row: "status_row S (i, domain) = Some s"
    using assms(3) by (auto simp: query_thread_status_page_def Let_def split: option.splits)
  define A where "A = thread_ancestors S 500 (id_path [s]) s"
  define root where "root = last A"
  define D where "D = thread_descendants S 500 (id_path [root]) root"
  have page: "page = take 500 (remdups (A @ D))"
    using assms(3) row
    by (simp add: query_thread_status_page_def Let_def id_path_single A_def root_def D_def)
  then have few: "length (remdups (A @ D)) < 500" and all: "set page = set A \<union> set D"
    using assms(4) by auto
  then have card: "card (set A \<union> set D) < 500" by (metis length_remdups_card_conv set_append)
  have s: "s \<in> set (ks_statuses S)" using status_row_Some[OF row] by blast
  have A: "climbs S 500 s [s] A"
    unfolding A_def by (rule thread_ancestors_climbs[OF assms(1,2)]) (simp add: visited_def s)
  have "length A = card (set A)" using A by (simp add: climbs_def distinct_card)
  also have "\<dots> \<le> card (set A \<union> set D)" by (rule card_mono) auto
  finally have lenA: "length A \<le> 500" using card by simp
  have root: "root \<in> set A" "root \<in> set (ks_statuses S)" using A by (auto simp: root_def climbs_def)
  have reached: "(replies_to S)\<^sup>*\<^sup>* s x \<and> (replies_to S)\<^sup>*\<^sup>* x root" if "x \<in> set A" for x
    using A that by (auto simp: root_def climbs_def)
  have "s \<in> set A" using A by (metis climbs_def list.set_sel(1))
  have above: "y \<in> set A" if "(replies_to S)\<^sup>*\<^sup>* s y" for y
    using that
  proof (induction rule: rtranclp_induct)
    case (step y z)
    then have "z \<in> set A \<union> set [s]"
      using A lenA unfolding climbs_def replies_to_def by blast
    then show ?case using \<open>s \<in> set A\<close> by auto
  qed (rule \<open>s \<in> set A\<close>)
  have below: "x \<in> set D" if x: "(replies_to S)\<^sup>*\<^sup>* x root" for x
  proof -
    obtain cs where cs: "goes_down S root cs" "distinct (root # cs)" "last (root # cs) = x"
      using path_below[OF x] by blast
    have "goes_down S root (take 500 cs)"
      using cs(1) goes_down_append[of S root "take 500 cs" "drop 500 cs"] by simp
    moreover have "distinct (take 500 cs)" "set (take 500 cs) \<inter> set [root] = {}"
      using cs(2) set_take_subset[of 500 cs] by auto
    ultimately have sub: "set (take 500 cs) \<subseteq> set D"
      unfolding D_def using root(2)
      by (intro descendants_reach[OF assms(1,2)]) (auto simp: visited_def)
    have "length (take 500 cs) = card (set (take 500 cs))"
      using cs(2) by (simp add: distinct_card)
    also have "\<dots> \<le> card (set A \<union> set D)" using sub by (intro card_mono) auto
    finally have "length cs < 500" using card by simp
    then have "set cs \<subseteq> set D" using sub by simp
    moreover have "root \<in> set D" by (simp add: D_def)
    ultimately show ?thesis using cs(3) by (cases cs rule: rev_cases) auto
  qed
  have "x \<in> set page \<longleftrightarrow> same_thread S s x" for x
  proof
    assume "x \<in> set page"
    then have "x \<in> set A \<or> x \<in> set D" using all by auto
    then show "same_thread S s x"
      using reached reached[OF root(1)] descendants_below[OF assms(1) root(2), of x 500 "id_path [root]"]
      unfolding same_thread_def D_def by blast
  next
    assume "same_thread S s x"
    then obtain y where y: "(replies_to S)\<^sup>*\<^sup>* s y" "(replies_to S)\<^sup>*\<^sup>* x y"
      by (auto simp: same_thread_def)
    then have "(replies_to S)\<^sup>*\<^sup>* x root" using reached[OF above[OF y(1)]] by (meson rtranclp_trans)
    then show "x \<in> set page" using below all by simp
  qed
  then show ?thesis using that[OF row] by blast
qed

section \<open>Resolved conversations\<close>

lemma set_add_keys: "set (fold add_key ks keys) = set ks \<union> set keys"
  by (induction ks arbitrary: keys) (auto simp: add_key_def)

lemma conversation_statuses_threads:
  assumes "store_keys_ok S" "separator_free S"
  shows "conversation_statuses S roots keys = Inr keys' \<Longrightarrow>
    k \<in> set keys' \<longleftrightarrow> k \<in> set keys \<or> (\<exists>root \<in> set roots. \<exists>s x. status_row S root = Some s \<and>
      same_thread S s x \<and> k = status_key_for_status x)"
proof (induction roots arbitrary: keys)
  case (Cons root roots)
  obtain i domain where r: "root = (i, domain)" by fastforce
  show ?case
  proof (cases "query_thread_status_page S i domain 500")
    case None
    then have "status_row S root = None"
      by (auto simp: query_thread_status_page_def Let_def r split: option.splits)
    then show ?thesis
      using Cons None by (simp add: r max_conversation_statuses_per_source_def)
  next
    case (Some page)
    then have short: "length page < 500"
      and rest: "conversation_statuses S roots (fold add_key (map status_key_for_status page) keys) = Inr keys'"
      using Cons.prems by (auto simp: r max_conversation_statuses_per_source_def Let_def split: if_splits)
    obtain s where s: "status_row S root = Some s" "set page = {x. same_thread S s x}"
      using thread_page_complete[OF assms Some short] by (auto simp: r)
    show ?thesis
      unfolding Cons.IH[OF rest] set_add_keys set_map s(2) using s(1) by auto
  qed
qed simp

lemma conversation_threads:
  assumes "store_keys_ok S" "separator_free S" "conversation_roots S values [] = Inr roots"
    and "resolve_conversation_keys S values = Inr keys"
  shows "k \<in> set keys \<longleftrightarrow> (\<exists>root \<in> set roots. \<exists>s x. status_row S root = Some s \<and>
      same_thread S s x \<and> k = status_key_for_status x)"
proof -
  have "conversation_statuses S roots [] = Inr keys"
    using assms(3,4) by (simp add: resolve_conversation_keys_def split: if_splits)
  from conversation_statuses_threads[OF assms(1,2) this] show ?thesis by simp
qed

text \<open>A store with a thread of three posts and a post beside it.\<close>

definition thread_post :: "string \<Rightarrow> rstr option \<Rightarrow> db_status" where
  "thread_post i parent = sample_status\<lparr>st_id := str i, st_server_domain := str ''s'',
     st_in_reply_to_id := parent\<rparr>"

definition thread_store :: kq_store where
  "thread_store = \<lparr>
     ks_statuses = [thread_post ''1'' None, thread_post ''2'' (Some (str ''1'')),
       thread_post ''3'' (Some (str ''1'')), thread_post ''4'' None],
     ks_accounts = [], ks_timeline_entries = [], ks_viewer_states = [], ks_login_accounts = [],
     ks_status_counter = None\<rparr>"

lemma thread_store_ok: "store_keys_ok thread_store" "separator_free thread_store"
  by (code_simp, code_simp)

lemma thread_store_resolves:
  "conversation_roots thread_store [str ''2''] [] = Inr [(str ''2'', str ''s'')]"
  "resolve_conversation_keys thread_store [str ''2''] =
     Inr [(str ''1'', str ''s''), (str ''2'', str ''s''), (str ''3'', str ''s'')]"
  by (code_simp, code_simp)

text \<open>C26: a conversation source is never evaluated against a part of a thread: when the resolution returns
  keys, they are exactly the keys of the posts that share an ancestor with one of its roots; a
  thread that does not fit the limits is an error.\<close>

theorem conversation_complete:
  assumes "store_keys_ok S" "separator_free S" "conversation_roots S values [] = Inr roots"
    and "resolve_conversation_keys S values = Inr keys"
  shows "k \<in> set keys \<longleftrightarrow> (\<exists>root \<in> set roots. \<exists>s x. status_row S root = Some s \<and>
      same_thread S s x \<and> k = status_key_for_status x)"
  by (rule conversation_threads[OF assms])

theorem conversation_complete_witness:
  "\<exists>root \<in> set [(str ''2'', str ''s'')]. \<exists>s x. status_row thread_store root = Some s \<and>
     same_thread thread_store s x \<and> (str ''3'', str ''s'') = status_key_for_status x"
  by (rule iffD1[OF conversation_complete[OF thread_store_ok thread_store_resolves]]) simp

text \<open>The limit of the candidates counts roots that are found again, so a later source can lose a root
  although the number of roots stays below its limit: here the second source names 21 posts, the
  first 20 of them again.\<close>

definition shared_post :: "nat \<Rightarrow> string \<Rightarrow> db_status" where
  "shared_post n uri = sample_status\<lparr>st_id := str ''p'', st_server_domain := [n], st_uri := str uri,
     st_url := Some (str ''u://2'')\<rparr>"

definition shared_store :: kq_store where
  "shared_store = thread_store\<lparr>ks_statuses :=
     map (\<lambda>n. shared_post (n + 100) ''u://1'') [0..<20] @ [shared_post 200 ''u://3'']\<rparr>"

theorem conversation_root_dropped:
  "conversation_roots shared_store [str ''u://2''] [] =
     Inr (map (\<lambda>n. (str ''p'', [n + 100])) [0..<20] @ [(str ''p'', [200])]) \<and>
   conversation_roots shared_store [str ''u://1'', str ''u://2''] [] =
     Inr (map (\<lambda>n. (str ''p'', [n + 100])) [0..<20])"
  by code_simp

end
