(* ===== verification/KqSourcePlan.thy ===== *)
theory KqSourcePlan
imports KqConversation
begin

text \<open>
  Index-backed candidate plans for the sources of a query
  (\<^verbatim>\<open>src/src/services/kq_source_plan.rs\<close>). A plan is kept as its mode and its sources; the SQL that
  the planner writes for them is modelled by the rows it selects from a store: the keys that
  \<^verbatim>\<open>push_keys\<close> selects, the test that \<^verbatim>\<open>push_probe\<close> writes, and the two statements that are made of
  them. \<^verbatim>\<open>serde_json::to_string\<close> of a text is the argument \<open>J\<close>. A list of values bound as JSON is the
  list itself.
\<close>

section \<open>Sources and plans\<close>

definition max_sorted_candidates :: nat where "max_sorted_candidates = 20000"

datatype source_scan_mode = FullScanMode | CandidatesMode | ProbeMode | EmptyMode

datatype viewer_column = BookmarkedColumn | FavouritedColumn

datatype row_source =
  Memberships (rs_timeline_types: "rstr list") (rs_account_accts: "rstr list option")
| Authors "entity_key list"

datatype effective_source =
  ViewerState viewer_column "rstr list"
| DirectVisibility
| RepliesTo "rstr list"
| Mentions "rstr list" "rstr list option"
| Keys "entity_key list"

record source_scan_plan =
  sp_mode :: source_scan_mode
  sp_rows :: "row_source list"
  sp_effective :: "effective_source list"

definition full_scan_plan :: source_scan_plan where
  "full_scan_plan = \<lparr>sp_mode = FullScanMode, sp_rows = [], sp_effective = []\<rparr>"

definition empty_plan :: source_scan_plan where
  "empty_plan = \<lparr>sp_mode = EmptyMode, sp_rows = [], sp_effective = []\<rparr>"

section \<open>Resolving the sources\<close>

definition push_unique :: "'a \<Rightarrow> 'a list \<Rightarrow> 'a list" where
  "push_unique x xs = (if x \<in> set xs then xs else xs @ [x])"

definition selected_accts ::
  "lib \<Rightarrow> rstr list \<Rightarrow> login_account_identity list \<Rightarrow> rstr list" where
  "selected_accts L arguments login_accounts =
     map la_acct (selected_login_accounts L arguments login_accounts)"

definition push_membership ::
  "lib \<Rightarrow> rstr \<Rightarrow> rstr list \<Rightarrow> login_account_identity list \<Rightarrow> row_source list \<Rightarrow> row_source list" where
  "push_membership L timeline_type account_selectors login_accounts rows =
     (let account_accts = selected_accts L account_selectors login_accounts in
      if account_accts = [] then rows
      else push_unique (Memberships [timeline_type] (Some account_accts)) rows)"

text \<open>The range \<^verbatim>\<open>timeline_type >= 'tag:' AND timeline_type < 'tag;'\<close>, each value once.\<close>

definition load_stored_hashtag_types :: "kq_store \<Rightarrow> rstr list" where
  "load_stored_hashtag_types S =
     remdups (filter (\<lambda>t. str ''tag:'' \<le> t \<and> t < str ''tag;'')
       (map te_timeline_type (ks_timeline_entries S)))"

definition hashtag_types :: "lib \<Rightarrow> rstr list \<Rightarrow> rstr \<Rightarrow> rstr list" where
  "hashtag_types L stored tag =
     filter (\<lambda>t. case strip_prefix (str ''tag:'') t of
         None \<Rightarrow> False | Some parameter \<Rightarrow> hashtag_parameter_matches L parameter tag) stored"

text \<open>The part of a text before its first at sign.\<close>

definition before_at :: "rstr \<Rightarrow> rstr" where
  "before_at name = (case split_once at_sign name of None \<Rightarrow> name | Some (local, _) \<Rightarrow> local)"

text \<open>\<^verbatim>\<open>COLLATE NOCASE\<close> compares up to the case of ASCII letters.\<close>

definition resolve_author_keys :: "lib \<Rightarrow> kq_store \<Rightarrow> rstr \<Rightarrow> entity_key list" where
  "resolve_author_keys L S selector =
     (let identity = without_marker selector;
          name = trim_start_matches at_sign (trim identity);
          folded = fold_text L name
      in map account_key (filter (\<lambda>a.
           ac_id a = identity \<or>
           eq_ignore_ascii_case (ac_acct a) name \<or> eq_ignore_ascii_case (ac_acct a) folded \<or>
           eq_ignore_ascii_case (ac_acct a) (before_at name) \<or>
           eq_ignore_ascii_case (ac_acct a) (before_at folded) \<or>
           eq_ignore_ascii_case (ac_username a) name \<or>
           eq_ignore_ascii_case (ac_username a) folded) (ks_accounts S)))"

text \<open>The loops over the arguments of the \<^verbatim>\<open>list\<close>, \<^verbatim>\<open>hashtag\<close> and \<^verbatim>\<open>user\<close> sources.\<close>

definition push_list ::
  "lib \<Rightarrow> login_account_identity list \<Rightarrow> rstr \<Rightarrow> row_source list \<Rightarrow> row_source list" where
  "push_list L login_accounts argument rows =
     (let (account_selector, list_id) = split_scoped_list_id argument;
          selectors = (case account_selector of None \<Rightarrow> [] | Some x \<Rightarrow> [x])
      in push_membership L (str ''list:'' @ list_id) selectors login_accounts rows)"

definition push_hashtag :: "lib \<Rightarrow> kq_store \<Rightarrow> rstr \<Rightarrow> row_source list \<Rightarrow> row_source list" where
  "push_hashtag L S tag rows =
     (let timeline_types = hashtag_types L (load_stored_hashtag_types S) tag
      in if timeline_types = [] then rows else push_unique (Memberships timeline_types None) rows)"

definition push_authors :: "lib \<Rightarrow> kq_store \<Rightarrow> rstr \<Rightarrow> entity_key list \<Rightarrow> entity_key list" where
  "push_authors L S selector keys = fold push_unique (resolve_author_keys L S selector) keys"

definition is_ascii :: "rstr \<Rightarrow> bool" where
  "is_ascii s \<longleftrightarrow> (\<forall>c \<in> set s. c < 128)"

definition mention_acct_needle :: "lib \<Rightarrow> login_account_identity \<Rightarrow> rstr" where
  "mention_acct_needle L la =
     before_at (fold_text L (trim_start_matches at_sign (trim (login_provider_acct la))))"

definition escaped_char :: "rchar \<Rightarrow> bool" where
  "escaped_char c \<longleftrightarrow> c = 34 \<or> c = 92 \<or> is_control c"

definition mention_acct_needles :: "lib \<Rightarrow> login_account_identity list \<Rightarrow> rstr list option" where
  "mention_acct_needles L accounts =
     (let needles = map (mention_acct_needle L) accounts in
      if \<forall>n \<in> set needles. is_ascii n \<and> \<not> (\<exists>c \<in> set n. escaped_char c) then Some needles else None)"

record planned_sources =
  pl_rows :: "row_source list"
  pl_effective :: "effective_source list"
  pl_author_keys :: "entity_key list"
  pl_has_conversation :: bool

text \<open>The body of the loop over the sources; \<open>None\<close> is the early return of a full scan.\<close>

definition plan_source ::
  "lib \<Rightarrow> (rstr \<Rightarrow> rstr) \<Rightarrow> kq_store \<Rightarrow> login_account_identity list \<Rightarrow> source_spec \<Rightarrow>
   planned_sources \<Rightarrow> planned_sources option" where
  "plan_source L J S login_accounts s p =
     (case ss_kind s of
        SrcLocal \<Rightarrow> None
      | SrcSearch \<Rightarrow> None
      | SrcTrack \<Rightarrow> None
      | SrcHome \<Rightarrow>
          Some (p\<lparr>pl_rows := push_membership L (str ''home'') (ss_arguments s) login_accounts (pl_rows p)\<rparr>)
      | SrcPublic \<Rightarrow>
          Some (p\<lparr>pl_rows := push_membership L (str ''public'') (ss_arguments s) login_accounts (pl_rows p)\<rparr>)
      | SrcLocalPublic \<Rightarrow>
          Some (p\<lparr>pl_rows := push_membership L (str ''local'') (ss_arguments s) login_accounts (pl_rows p)\<rparr>)
      | SrcList \<Rightarrow>
          Some (p\<lparr>pl_rows := fold (push_list L login_accounts) (ss_arguments s) (pl_rows p)\<rparr>)
      | SrcHashtag \<Rightarrow>
          Some (p\<lparr>pl_rows := fold (push_hashtag L S) (ss_arguments s) (pl_rows p)\<rparr>)
      | SrcUser \<Rightarrow>
          Some (p\<lparr>pl_author_keys := fold (push_authors L S) (ss_arguments s) (pl_author_keys p)\<rparr>)
      | SrcMentions \<Rightarrow>
          (let accounts = selected_login_accounts L (ss_arguments s) login_accounts in
           Some (if accounts = [] then p
             else p\<lparr>pl_effective :=
               push_unique (Mentions (map (\<lambda>la. J (la_account_id la)) accounts)
                   (mention_acct_needles L accounts))
                 (push_unique (RepliesTo (map la_account_id accounts)) (pl_effective p))\<rparr>))
      | SrcDirect \<Rightarrow>
          Some (if selected_login_accounts L (ss_arguments s) login_accounts = [] then p
             else p\<lparr>pl_effective := push_unique DirectVisibility (pl_effective p)\<rparr>)
      | SrcConversation \<Rightarrow> Some (p\<lparr>pl_has_conversation := True\<rparr>)
      | _ \<Rightarrow>
          (let account_accts = selected_accts L (ss_arguments s) login_accounts;
               column = (if ss_kind s = SrcBookmarks then BookmarkedColumn else FavouritedColumn) in
           Some (if account_accts = [] then p
             else p\<lparr>pl_effective := push_unique (ViewerState column account_accts) (pl_effective p)\<rparr>)))"

fun plan_sources ::
  "lib \<Rightarrow> (rstr \<Rightarrow> rstr) \<Rightarrow> kq_store \<Rightarrow> login_account_identity list \<Rightarrow> source_spec list \<Rightarrow>
   planned_sources \<Rightarrow> planned_sources option" where
  "plan_sources L J S login_accounts [] p = Some p"
| "plan_sources L J S login_accounts (s # ss) p =
     (case plan_source L J S login_accounts s p of
        None \<Rightarrow> None | Some p \<Rightarrow> plan_sources L J S login_accounts ss p)"

section \<open>The rows a source selects\<close>

definition row_source_keys :: "kq_store \<Rightarrow> row_source \<Rightarrow> entity_key list" where
  "row_source_keys S source =
     (case source of
        Memberships timeline_types account_accts \<Rightarrow>
          map entry_key (filter (\<lambda>te. te_timeline_type te \<in> set timeline_types \<and>
            (case account_accts of None \<Rightarrow> True | Some accts \<Rightarrow> te_account_acct te \<in> set accts))
            (ks_timeline_entries S))
      | Authors keys \<Rightarrow>
          map status_key_for_status (filter (\<lambda>a. author_key a \<in> set keys) (ks_statuses S)))"

definition row_source_probe :: "kq_store \<Rightarrow> db_status \<Rightarrow> row_source \<Rightarrow> bool" where
  "row_source_probe S s source =
     (case source of
        Memberships timeline_types account_accts \<Rightarrow>
          (\<exists>te \<in> set (ks_timeline_entries S). te_timeline_type te \<in> set timeline_types \<and>
             te_server_domain te = st_server_domain s \<and> te_status_id te = st_id s \<and>
             (case account_accts of None \<Rightarrow> True | Some accts \<Rightarrow> te_account_acct te \<in> set accts))
      | Authors keys \<Rightarrow> author_key s \<in> set keys)"

text \<open>\<^verbatim>\<open>GLOB '*[^ -~]*'\<close>: a character outside the printable ASCII range.\<close>

definition beyond_printable :: "rstr \<Rightarrow> bool" where
  "beyond_printable s \<longleftrightarrow> (\<exists>c \<in> set s. c < 32 \<or> 126 < c)"

definition mention_row :: "rstr list \<Rightarrow> rstr list option \<Rightarrow> rstr \<Rightarrow> bool" where
  "mention_row id_literals acct_needles json \<longleftrightarrow>
     (case acct_needles of
        None \<Rightarrow> True
      | Some needles \<Rightarrow>
          beyond_printable json \<or> (\<exists>n \<in> set id_literals. str_contains json n) \<or>
          (\<exists>n \<in> set needles. str_contains (to_ascii_lowercase json) n))"

definition effective_source_keys :: "kq_store \<Rightarrow> effective_source \<Rightarrow> entity_key list" where
  "effective_source_keys S source =
     (case source of
        ViewerState column account_accts \<Rightarrow>
          map state_key (filter (\<lambda>v. vs_login_account_acct v \<in> set account_accts \<and>
            (case column of BookmarkedColumn \<Rightarrow> vs_bookmarked v | FavouritedColumn \<Rightarrow> vs_favourited v) =
              Some True) (ks_viewer_states S))
      | DirectVisibility \<Rightarrow>
          map status_key_for_status (filter (\<lambda>d. st_visibility d = str ''direct'') (ks_statuses S))
      | RepliesTo account_ids \<Rightarrow>
          map status_key_for_status (filter (\<lambda>r.
            case st_in_reply_to_account_id r of None \<Rightarrow> False | Some i \<Rightarrow> i \<in> set account_ids)
            (ks_statuses S))
      | Mentions id_literals acct_needles \<Rightarrow>
          map status_key_for_status (filter (\<lambda>m.
            case st_mentions_json m of
              None \<Rightarrow> False | Some json \<Rightarrow> mention_row id_literals acct_needles json) (ks_statuses S))
      | Keys keys \<Rightarrow> keys)"

text \<open>The common table expression \<^verbatim>\<open>kq_effective_keys\<close>.\<close>

definition effective_keys :: "kq_store \<Rightarrow> effective_source list \<Rightarrow> entity_key list" where
  "effective_keys S effective = concat (map (effective_source_keys S) effective)"

text \<open>Whether a row repeats one of the keys.\<close>

definition boosts_key :: "entity_key list \<Rightarrow> db_status \<Rightarrow> bool" where
  "boosts_key keys s \<longleftrightarrow>
     (case st_reblog_of_id s of None \<Rightarrow> False | Some i \<Rightarrow> (i, st_server_domain s) \<in> set keys)"

text \<open>Selects joined by \<^verbatim>\<open>UNION\<close>, which removes repeated rows; a lone select has no \<^verbatim>\<open>UNION\<close>.\<close>

definition sql_union :: "'a list list \<Rightarrow> 'a list" where
  "sql_union selects = (case selects of [only] \<Rightarrow> only | _ \<Rightarrow> remdups (concat selects))"

text \<open>The common table expression \<^verbatim>\<open>kq_source_keys\<close> of \<^verbatim>\<open>candidate_plan\<close>.\<close>

definition source_keys :: "kq_store \<Rightarrow> row_source list \<Rightarrow> effective_source list \<Rightarrow> entity_key list" where
  "source_keys S rows effective =
     sql_union (map (row_source_keys S) rows @
       (if effective = [] then []
        else [effective_keys S effective,
              concat (map (\<lambda>e. map status_key_for_status
                (filter (\<lambda>rb. boosts_key [e] rb) (ks_statuses S))) (effective_keys S effective))]))"

definition candidate_rows :: "kq_store \<Rightarrow> row_source list \<Rightarrow> effective_source list \<Rightarrow> db_status list" where
  "candidate_rows S rows effective =
     concat (map (\<lambda>k. filter (\<lambda>s. status_key_for_status s = k) (ks_statuses S))
       (source_keys S rows effective))"

definition probe_rows :: "kq_store \<Rightarrow> row_source list \<Rightarrow> effective_source list \<Rightarrow> db_status list" where
  "probe_rows S rows effective =
     filter (\<lambda>s. (\<exists>r \<in> set rows. row_source_probe S s r) \<or>
       status_key_for_status s \<in> set (effective_keys S effective) \<or>
       boosts_key (effective_keys S effective) s) (ks_statuses S)"

definition plan_rows :: "kq_store \<Rightarrow> source_scan_plan \<Rightarrow> db_status list" where
  "plan_rows S plan =
     (case sp_mode plan of
        FullScanMode \<Rightarrow> ks_statuses S
      | EmptyMode \<Rightarrow> []
      | CandidatesMode \<Rightarrow> candidate_rows S (sp_rows plan) (sp_effective plan)
      | ProbeMode \<Rightarrow> probe_rows S (sp_rows plan) (sp_effective plan))"

section \<open>Planning\<close>

text \<open>The estimate counts at most one row more than the limit.\<close>

definition estimate_source_rows ::
  "kq_store \<Rightarrow> row_source list \<Rightarrow> effective_source list \<Rightarrow> nat \<Rightarrow> nat" where
  "estimate_source_rows S rows effective max_sorted =
     min (max_sorted + 1)
       (length (concat (map (row_source_keys S) rows)) + length (effective_keys S effective))"

definition plan_source_scan_with_limit ::
  "lib \<Rightarrow> (rstr \<Rightarrow> rstr) \<Rightarrow> kq_store \<Rightarrow> source_spec list \<Rightarrow> login_account_identity list \<Rightarrow>
   status_key list \<Rightarrow> nat \<Rightarrow> source_scan_plan" where
  "plan_source_scan_with_limit L J S sources login_accounts conversation_keys max_sorted =
     (case plan_sources L J S login_accounts sources
          \<lparr>pl_rows = [], pl_effective = [], pl_author_keys = [], pl_has_conversation = False\<rparr> of
        None \<Rightarrow> full_scan_plan
      | Some p \<Rightarrow>
          (let rows = pl_rows p @ (if pl_author_keys p = [] then [] else [Authors (pl_author_keys p)]);
               effective = pl_effective p @
                 (if pl_has_conversation p \<and> conversation_keys \<noteq> []
                  then [Keys (map (\<lambda>k. (sk_id k, sk_server_domain k)) conversation_keys)] else [])
           in if rows = [] \<and> effective = [] then empty_plan
              else \<lparr>sp_mode =
                      (if estimate_source_rows S rows effective max_sorted \<le> max_sorted
                       then CandidatesMode else ProbeMode),
                    sp_rows = rows, sp_effective = effective\<rparr>))"

definition plan_source_scan ::
  "lib \<Rightarrow> (rstr \<Rightarrow> rstr) \<Rightarrow> kq_store \<Rightarrow> source_spec list \<Rightarrow> login_account_identity list \<Rightarrow>
   status_key list \<Rightarrow> source_scan_plan" where
  "plan_source_scan L J S sources login_accounts conversation_keys =
     plan_source_scan_with_limit L J S sources login_accounts conversation_keys max_sorted_candidates"

end
