(* ===== verification/KqSourceCover.thy ===== *)
theory KqSourceCover
imports KqSourcePlan
begin

text \<open>
  What the plans of \<^verbatim>\<open>KqSourcePlan\<close> select. The candidate statement and the probe statement select
  the same rows; a plan selects every row that its sources can match, under what the writers of the
  store guarantee (\<open>store_written\<close>), of ASCII-named authors where a \<^verbatim>\<open>user\<close> source is asked; and a
  plan lists a row twice only when it consists of one membership source.
\<close>

section \<open>Both statements select the same rows\<close>

lemma set_sql_union [simp]: "set (sql_union xs) = (\<Union>x \<in> set xs. set x)"
  by (auto simp: sql_union_def split: list.splits)

lemma unique_row:
  assumes "store_keys_ok S" "a \<in> set (ks_statuses S)" "b \<in> set (ks_statuses S)"
    and "status_key_for_status a = status_key_for_status b"
  shows "a = b"
proof -
  have "Some a = Some b"
    using status_row_stored[OF assms(1,2)] status_row_stored[OF assms(1,3)] unfolding assms(4)
    by (rule trans[OF sym])
  then show ?thesis by simp
qed

lemma stored_key_in:
  assumes "store_keys_ok S" "s \<in> set (ks_statuses S)"
  shows "status_key_for_status s \<in> set (map status_key_for_status (filter P (ks_statuses S))) \<longleftrightarrow> P s"
  using unique_row[OF assms(1) assms(2)] assms(2) by auto

lemma row_source_keys_probe:
  assumes "store_keys_ok S" "s \<in> set (ks_statuses S)"
  shows "status_key_for_status s \<in> set (row_source_keys S r) \<longleftrightarrow> row_source_probe S s r"
proof (cases r)
  case (Memberships types accts)
  then show ?thesis
    by (auto simp: row_source_keys_def row_source_probe_def entry_key_def status_key_for_status_def
        intro!: rev_image_eqI)
next
  case (Authors keys)
  then show ?thesis
    using stored_key_in[OF assms] by (simp add: row_source_keys_def row_source_probe_def)
qed

lemma boosts_key_single: "boosts_key keys s \<longleftrightarrow> (\<exists>k \<in> set keys. boosts_key [k] s)"
  by (auto simp: boosts_key_def split: option.splits)

lemma source_keys_probe:
  assumes "store_keys_ok S" "s \<in> set (ks_statuses S)"
  shows "status_key_for_status s \<in> set (source_keys S rows effective) \<longleftrightarrow>
    (\<exists>r \<in> set rows. row_source_probe S s r) \<or>
    status_key_for_status s \<in> set (effective_keys S effective) \<or>
    boosts_key (effective_keys S effective) s"
proof -
  have boosts: "status_key_for_status s \<in> set (concat (map (\<lambda>e. map status_key_for_status
      (filter (\<lambda>rb. boosts_key [e] rb) (ks_statuses S))) (effective_keys S effective))) \<longleftrightarrow>
      boosts_key (effective_keys S effective) s"
    unfolding set_concat set_map[of _ "effective_keys S effective"] UN_iff bex_simps image_iff
    using stored_key_in[OF assms] boosts_key_single[of "effective_keys S effective" s] by simp
  show ?thesis
  proof (cases "effective = []")
    case True
    then show ?thesis
      using row_source_keys_probe[OF assms]
      by (simp add: source_keys_def effective_keys_def boosts_key_def split: option.splits)
  next
    case False
    then have "set (source_keys S rows effective) = (\<Union>r \<in> set rows. set (row_source_keys S r)) \<union>
        set (effective_keys S effective) \<union>
        set (concat (map (\<lambda>e. map status_key_for_status
          (filter (\<lambda>rb. boosts_key [e] rb) (ks_statuses S))) (effective_keys S effective)))"
      unfolding source_keys_def by auto
    then show ?thesis
      using row_source_keys_probe[OF assms] boosts by (simp only: Un_iff UN_iff) blast
  qed
qed

lemma set_candidate_rows:
  "set (candidate_rows S rows effective) =
   {s \<in> set (ks_statuses S). status_key_for_status s \<in> set (source_keys S rows effective)}"
  by (auto simp: candidate_rows_def)

lemma plans_select_same:
  assumes "store_keys_ok S"
  shows "set (candidate_rows S rows effective) = set (probe_rows S rows effective)"
  unfolding set_candidate_rows probe_rows_def set_filter using source_keys_probe[OF assms] by auto

section \<open>When rows repeat\<close>

lemma distinct_candidate_rows:
  assumes "store_keys_ok S" "distinct (source_keys S rows effective)"
  shows "distinct (candidate_rows S rows effective)"
proof -
  have stored: "distinct (ks_statuses S)"
    using assms(1) by (simp add: store_keys_ok_def distinct_map)
  have "distinct (concat (map (\<lambda>k. filter (\<lambda>s. status_key_for_status s = k) (ks_statuses S)) ks))"
    if "distinct ks" for ks
    using that stored by (induction ks) auto
  then show ?thesis using assms(2) by (simp add: candidate_rows_def)
qed

definition lone_membership :: "source_scan_plan \<Rightarrow> bool" where
  "lone_membership plan \<longleftrightarrow> sp_mode plan = CandidatesMode \<and> sp_effective plan = [] \<and>
     (\<exists>types accts. sp_rows plan = [Memberships types accts])"

lemma distinct_source_keys:
  assumes "store_keys_ok S" "\<nexists>types accts. effective = [] \<and> rows = [Memberships types accts]"
  shows "distinct (source_keys S rows effective)"
proof (cases "effective = [] \<and> length rows = 1")
  case True
  then obtain r where "rows = [r]" by (cases rows) auto
  with True assms(2) obtain keys where "rows = [Authors keys]" by (cases r) auto
  moreover have "distinct (map status_key_for_status (filter P (ks_statuses S)))" for P
    using assms(1) by (simp add: store_keys_ok_def distinct_map_filter)
  ultimately show ?thesis
    using True by (simp add: source_keys_def sql_union_def row_source_keys_def)
next
  case False
  define selects where "selects = map (row_source_keys S) rows @
    (if effective = [] then [] else [effective_keys S effective,
      concat (map (\<lambda>e. map status_key_for_status (filter (\<lambda>rb. boosts_key [e] rb) (ks_statuses S)))
        (effective_keys S effective))])"
  have "length selects \<noteq> 1" using False by (auto simp: selects_def)
  then have "sql_union selects = remdups (concat selects)"
    by (auto simp: sql_union_def split: list.splits)
  then show ?thesis by (simp add: source_keys_def selects_def)
qed

lemma distinct_plan_rows:
  assumes "store_keys_ok S" "\<not> lone_membership plan"
  shows "distinct (plan_rows S plan)"
proof -
  have "distinct (ks_statuses S)" using assms(1) by (simp add: store_keys_ok_def distinct_map)
  then show ?thesis
    using assms distinct_candidate_rows[OF assms(1) distinct_source_keys[OF assms(1)]]
    by (auto simp: plan_rows_def probe_rows_def lone_membership_def split: source_scan_mode.splits)
qed

section \<open>What the writers of the store guarantee\<close>

text \<open>A name in the form the evaluator compares by: ASCII, without markers and surrounding spaces.
  Folding takes an ASCII text to its ASCII lower case.\<close>

definition clean_name :: "rstr \<Rightarrow> rstr" where
  "clean_name s = trim_start_matches at_sign (trim s)"

definition ascii_name :: "rstr \<Rightarrow> bool" where
  "ascii_name s \<longleftrightarrow> is_ascii s \<and> clean_name s = s"

definition folds_ascii :: "lib \<Rightarrow> bool" where
  "folds_ascii L \<longleftrightarrow> (\<forall>s. is_ascii s \<longrightarrow> fold_text L s = to_ascii_lowercase s)"

text \<open>The names of the author of a row. Providers may send names beyond ASCII, so this is no condition
  on a store; only \<^verbatim>\<open>user\<close> sources depend on it.\<close>

definition author_ascii :: "kq_store \<Rightarrow> db_status \<Rightarrow> bool" where
  "author_ascii S s \<longleftrightarrow> (\<forall>a \<in> set (ks_accounts S). account_key a = author_key s \<longrightarrow>
     ascii_name (ac_acct a) \<and> ascii_name (ac_username a) \<and> ascii_name (status_account_acct a s))"

text \<open>The mention columns are what \<^verbatim>\<open>serde_json\<close> writes: a text without quotes, backslashes and control
  characters stands in the JSON as it is, and an identifier as its JSON literal; in a column of
  printable ASCII the mentioned accounts are ASCII names.\<close>

definition mentions_written :: "lib \<Rightarrow> (rstr \<Rightarrow> rstr) \<Rightarrow> kq_store \<Rightarrow> bool" where
  "mentions_written L J S \<longleftrightarrow> (\<forall>s \<in> set (ks_statuses S). \<forall>json mentions.
     st_mentions_json s = Some json \<and> lib_parse_mentions L json = Some mentions \<longrightarrow>
     (\<forall>m \<in> set mentions. str_contains json (J (mn_id m)) \<and>
        (\<forall>part. str_contains (mn_acct m) part \<and> (\<forall>c \<in> set part. \<not> escaped_char c) \<longrightarrow>
           str_contains json part) \<and>
        (\<not> beyond_printable json \<longrightarrow> ascii_name (status_scoped_acct (mn_acct m) s))))"

definition store_written :: "lib \<Rightarrow> (rstr \<Rightarrow> rstr) \<Rightarrow> kq_store \<Rightarrow> bool" where
  "store_written L J S \<longleftrightarrow> store_keys_ok S \<and> folds_ascii L \<and> mentions_written L J S \<and>
     (\<forall>la \<in> set (ks_login_accounts S). \<forall>la' \<in> set (ks_login_accounts S).
        selector_equal L (la_acct la) (la_acct la') \<longrightarrow> la_acct la = la_acct la') \<and>
     (\<forall>e \<in> set (ks_timeline_entries S).
        to_ascii_lowercase (fst (normalize_timeline_membership (te_timeline_type e))) =
        fst (normalize_timeline_membership (te_timeline_type e))) \<and>
     (\<forall>s \<in> set (ks_statuses S). to_ascii_lowercase (st_visibility s) = st_visibility s) \<and>
     (\<forall>s \<in> set (ks_statuses S). \<forall>s' \<in> set (ks_statuses S).
        eq_ignore_ascii_case (st_server_domain s) (st_server_domain s') \<longrightarrow>
        st_server_domain s = st_server_domain s')"

section \<open>Texts up to case\<close>

lemma lower_append [simp]:
  "to_ascii_lowercase (a @ b) = to_ascii_lowercase a @ to_ascii_lowercase b"
  "to_ascii_lowercase (c # b) = to_ascii_lower_char c # to_ascii_lowercase b"
  "to_ascii_lowercase [] = []"
  by (simp_all add: to_ascii_lowercase_def)

lemma lower_at [simp]: "to_ascii_lower_char at_sign = at_sign"
  by code_simp

lemma lower_char_at: "to_ascii_lower_char c = at_sign \<longleftrightarrow> c = at_sign"
proof -
  have at: "at_sign = 64" by code_simp
  show ?thesis unfolding at by (auto simp: to_ascii_lower_char_def is_ascii_uppercase_def)
qed

lemma at_in_lower: "at_sign \<in> set (to_ascii_lowercase s) \<longleftrightarrow> at_sign \<in> set s"
  by (induction s) (auto simp: lower_char_at eq_commute[of at_sign])

lemma takeWhile_no_at: "at_sign \<notin> set s \<Longrightarrow> takeWhile (\<lambda>c. c \<noteq> at_sign) s = s"
  by (induction s) auto

lemma before_at_takeWhile: "before_at s = takeWhile (\<lambda>c. c \<noteq> at_sign) s"
proof (cases "split_once at_sign s")
  case None
  then have "at_sign \<notin> set s" by (simp add: split_once_None)
  then have "takeWhile (\<lambda>c. c \<noteq> at_sign) s = s" by (rule takeWhile_no_at)
  then show ?thesis by (simp only: before_at_def None option.case)
next
  case (Some p)
  obtain a b where p: "p = (a, b)" by fastforce
  from split_once_Some[OF Some[unfolded p]] have "s = a @ at_sign # b" "at_sign \<notin> set a" by auto
  then have "takeWhile (\<lambda>c. c \<noteq> at_sign) s = a" by (auto simp: takeWhile_append)
  then show ?thesis using Some p by (simp add: before_at_def)
qed

lemma before_at_lower: "before_at (to_ascii_lowercase s) = to_ascii_lowercase (before_at s)"
  unfolding before_at_takeWhile by (induction s) (auto simp: lower_char_at)

lemma before_at_append: "at_sign \<notin> set s \<Longrightarrow> before_at (s @ at_sign # rest) = s"
  unfolding before_at_takeWhile by (induction s) auto

lemma contains_part: "str_contains s (before_at (clean_name s))"
proof -
  have "\<exists>a b. s = a @ trim s @ b"
  proof -
    obtain a where a: "s = a @ trim_start s"
      unfolding trim_start_def by (metis takeWhile_dropWhile_id)
    obtain b where "trim_start s = trim s @ b"
      unfolding trim_def trim_end_def by (metis rev_append rev_rev_ident takeWhile_dropWhile_id)
    then have "s = a @ trim s @ b" using a by simp
    then show ?thesis by blast
  qed
  then obtain a b where ab: "s = a @ trim s @ b" by blast
  obtain c where c: "trim s = c @ clean_name s"
    unfolding clean_name_def trim_start_matches_def by (metis takeWhile_dropWhile_id)
  obtain d where d: "clean_name s = before_at (clean_name s) @ d"
    unfolding before_at_takeWhile by (metis takeWhile_dropWhile_id)
  have "s = (a @ c) @ before_at (clean_name s) @ d @ b"
    using ab c d by (metis append.assoc)
  then show ?thesis unfolding str_contains_iff by blast
qed

lemma contains_lower: "str_contains s p \<Longrightarrow> str_contains (to_ascii_lowercase s) (to_ascii_lowercase p)"
  unfolding str_contains_iff by (metis lower_append(1))

lemma escaped_lower: "escaped_char c \<Longrightarrow> to_ascii_lower_char c = c"
  by (auto simp: escaped_char_def to_ascii_lower_char_def is_ascii_uppercase_def is_control_def)

lemma escaped_in_lower:
  "c \<in> set s \<Longrightarrow> escaped_char c \<Longrightarrow> c \<in> set (to_ascii_lowercase s)"
  using escaped_lower by (force simp: to_ascii_lowercase_def)

text \<open>A name scoped to its server starts with its local part.\<close>

lemma before_at_scoped: "before_at (status_scoped_acct acct s) = before_at (clean_name acct)"
  by (simp add: status_scoped_acct_def Let_def clean_name_def contains_char_def before_at_append)
    (simp add: before_at_takeWhile takeWhile_no_at)

section \<open>The planned sources cover what the evaluator matches\<close>

text \<open>What a collection of planned sources selects of one row.\<close>

definition effective_key_in :: "kq_store \<Rightarrow> db_status \<Rightarrow> entity_key set \<Rightarrow> bool" where
  "effective_key_in S r keys \<longleftrightarrow>
     (\<exists>e. stored_effective S r = Some e \<and> status_key_for_status e \<in> keys)"

definition planned_covers :: "kq_store \<Rightarrow> status_key list \<Rightarrow> planned_sources \<Rightarrow> db_status \<Rightarrow> bool" where
  "planned_covers S conv p r \<longleftrightarrow>
     (\<exists>x \<in> set (pl_rows p). row_source_probe S r x) \<or> author_key r \<in> set (pl_author_keys p) \<or>
     (\<exists>x \<in> set (pl_effective p). effective_key_in S r (set (effective_source_keys S x))) \<or>
     (pl_has_conversation p \<and>
       (status_key_for_status r \<in> (\<lambda>k. (sk_id k, sk_server_domain k)) ` set conv \<or>
        effective_key_in S r ((\<lambda>k. (sk_id k, sk_server_domain k)) ` set conv)))"

definition planned_le :: "planned_sources \<Rightarrow> planned_sources \<Rightarrow> bool" where
  "planned_le p q \<longleftrightarrow> set (pl_rows p) \<subseteq> set (pl_rows q) \<and>
     set (pl_author_keys p) \<subseteq> set (pl_author_keys q) \<and>
     set (pl_effective p) \<subseteq> set (pl_effective q) \<and>
     (pl_has_conversation p \<longrightarrow> pl_has_conversation q)"

lemma planned_le_refl: "planned_le p p" and
  planned_le_trans: "planned_le p q \<Longrightarrow> planned_le q r \<Longrightarrow> planned_le p r"
  by (auto simp: planned_le_def)

lemma covers_mono: "planned_le p q \<Longrightarrow> planned_covers S conv p r \<Longrightarrow> planned_covers S conv q r"
  unfolding planned_le_def planned_covers_def by blast

lemma set_push_unique [simp]: "set (push_unique x xs) = insert x (set xs)"
  by (auto simp: push_unique_def)

lemma set_fold_push_unique [simp]: "set (fold push_unique xs ys) = set xs \<union> set ys"
  by (induction xs arbitrary: ys) auto

lemma set_push_membership:
  "set (push_membership L t selectors logins rows) = set rows \<union>
     (if selected_accts L selectors logins = [] then {}
      else {Memberships [t] (Some (selected_accts L selectors logins))})"
  by (simp add: push_membership_def Let_def)

lemma set_fold_rows:
  "(\<And>x rows. set (f x rows) = set rows \<union> g x) \<Longrightarrow> set (fold f xs rows) = set rows \<union> (\<Union>x \<in> set xs. g x)"
  by (induction xs arbitrary: rows) auto

subsection \<open>The parts of a stored row's context\<close>

lemma context_memberships:
  "m \<in> set (ec_memberships (context_of S conv r)) \<longleftrightarrow>
   (\<exists>te \<in> set (ks_timeline_entries S). entry_key te = status_key_for_status r \<and> m = membership_of_entry te)"
  by (auto simp: context_of_def load_timeline_memberships_def)

lemma context_effective [simp]: "effective_status (context_of S conv r) = stored_effective S r"
  by (cases "stored_effective S r") (simp_all add: effective_status_def context_of_def stored_view_def)

lemma context_logins [simp]: "ec_login_accounts (context_of S conv r) = load_login_account_identities S"
  by (simp add: context_of_def)

lemma store_writtenD:
  assumes "store_written L J S"
  shows "store_keys_ok S" "folds_ascii L" "mentions_written L J S"
    and "la \<in> set (ks_login_accounts S) \<Longrightarrow> acct \<in> la_acct ` set (ks_login_accounts S) \<Longrightarrow>
      selector_equal L acct (la_acct la) \<Longrightarrow> acct = la_acct la"
    and "e \<in> set (ks_timeline_entries S) \<Longrightarrow>
      to_ascii_lowercase (fst (normalize_timeline_membership (te_timeline_type e))) =
      fst (normalize_timeline_membership (te_timeline_type e))"
    and "s \<in> set (ks_statuses S) \<Longrightarrow> to_ascii_lowercase (st_visibility s) = st_visibility s"
    and "s \<in> set (ks_statuses S) \<Longrightarrow> s' \<in> set (ks_statuses S) \<Longrightarrow>
      eq_ignore_ascii_case (st_server_domain s) (st_server_domain s') \<Longrightarrow>
      st_server_domain s = st_server_domain s'"
  using assms unfolding store_written_def by blast+

lemma lower_lit [simp]:
  "to_ascii_lower_char (numeral n) = (if 65 \<le> (numeral n :: nat) \<and> (numeral n :: nat) \<le> 90
     then numeral n + 32 else numeral n)"
  by (simp add: to_ascii_lower_char_def is_ascii_uppercase_def)

lemma membership_entry:
  assumes "store_written L J S" "m \<in> set (ec_memberships (context_of S conv r))"
    and "eq_ignore_ascii_case (tm_timeline_type m) t" "to_ascii_lowercase t = t"
  obtains te where "te \<in> set (ks_timeline_entries S)" "te_status_id te = st_id r"
    "te_server_domain te = st_server_domain r" "te_account_acct te = tm_account_acct m"
    "normalize_timeline_membership (te_timeline_type te) = (t, tm_parameter m)"
proof -
  obtain te where te: "te \<in> set (ks_timeline_entries S)" "entry_key te = status_key_for_status r"
    "m = membership_of_entry te" using assms(2) by (auto simp: context_memberships)
  obtain type param where n: "normalize_timeline_membership (te_timeline_type te) = (type, param)"
    by fastforce
  then have "type = t"
    using store_writtenD(5)[OF assms(1) te(1)] assms(3,4) te(3)
    by (simp add: membership_of_entry_def eq_ignore_ascii_case_def)
  then show ?thesis
    using that[of te] te n by (simp add: membership_of_entry_def entry_key_def status_key_for_status_def)
qed

lemma normalized_inverse:
  "normalize_timeline_membership t = (k, Some p) \<Longrightarrow>
     k = str ''list'' \<and> t = str ''list:'' @ p \<or> k = str ''hashtag'' \<and> t = str ''tag:'' @ p"
  "normalize_timeline_membership t = (k, None) \<Longrightarrow> t = k"
  by (auto simp: normalize_timeline_membership_def strip_prefix_Some split: option.splits)

lemma tag_range: "str ''tag:'' \<le> t \<and> t < str ''tag;'' \<longleftrightarrow> (\<exists>p. t = str ''tag:'' @ p)"
proof -
  have tag: "str ''tag:'' = [116, 97, 103, 58]" "str ''tag;'' = [116, 97, 103, 59]" by code_simp+
  have "[116, 97, 103, 58] \<le> t \<and> t < [116, 97, 103, 59] \<longleftrightarrow> (\<exists>p. t = [116, 97, 103, 58] @ p)"
  proof (cases "\<exists>a b c d u. t = a # b # c # d # u")
    case True
    then obtain a b c d u where "t = a # b # c # d # u" by blast
    then show ?thesis by auto
  next
    case False
    then consider "t = []" | a where "t = [a]" | a b where "t = [a, b]" | a b c where "t = [a, b, c]"
      by (metis list.exhaust)
    then show ?thesis by cases auto
  qed
  then show ?thesis unfolding tag .
qed

lemma selected_subset:
  "la \<in> set (selected_login_accounts L arguments (load_login_account_identities S)) \<Longrightarrow>
   la \<in> set (ks_login_accounts S)"
  using selected_login_accounts_subset[of L arguments "load_login_account_identities S"] by auto

lemma membership_covered:
  assumes "store_written L J S" "membership_matches L (context_of S conv r) t (Some (la_acct la)) param"
    and "la \<in> set (selected_login_accounts L selectors (load_login_account_identities S))"
    and "param = None \<and> t \<in> {''home'', ''public'', ''local''} \<and> stored = str t \<or>
      t = ''list'' \<and> param = Some i \<and> stored = str ''list:'' @ i"
  shows "\<exists>x \<in> set (push_membership L stored selectors (load_login_account_identities S) rows).
    row_source_probe S r x"
proof -
  obtain m where m: "m \<in> set (ec_memberships (context_of S conv r))"
    "eq_ignore_ascii_case (tm_timeline_type m) (str t)"
    "selector_equal L (tm_account_acct m) (la_acct la)"
    "case param of None \<Rightarrow> True | Some expected \<Rightarrow> (case tm_parameter m of None \<Rightarrow> False
       | Some actual \<Rightarrow> if t = ''hashtag''
         then selector_equal L (clean_tag actual) (clean_tag expected) else actual = expected)"
    using assms(2) by (auto simp: membership_matches_def)
  have "to_ascii_lowercase (str t) = str t" using assms(4) by auto
  from membership_entry[OF assms(1) m(1,2) this] obtain te where
    te: "te \<in> set (ks_timeline_entries S)" "te_status_id te = st_id r"
      "te_server_domain te = st_server_domain r" "te_account_acct te = tm_account_acct m"
      "normalize_timeline_membership (te_timeline_type te) = (str t, tm_parameter m)" .
  have stored: "te_timeline_type te = stored"
  proof (cases "tm_parameter m")
    case None
    then show ?thesis using normalized_inverse(2)[of "te_timeline_type te"] te(5) m(4) assms(4) by auto
  next
    case (Some q)
    then show ?thesis
      using normalized_inverse(1)[of "te_timeline_type te" "str t" q] te(5) m(4) assms(4)
      by (auto simp: str_inject simp del: str_simps)
  qed
  have "te_account_acct te \<in> la_acct ` set (ks_login_accounts S)"
    using store_writtenD(1)[OF assms(1)] te(1) by (simp add: store_keys_ok_def)
  then have acct: "te_account_acct te = la_acct la"
    using store_writtenD(4)[OF assms(1) selected_subset[OF assms(3)]] m(3) te(4) by simp
  define accts where "accts = selected_accts L selectors (load_login_account_identities S)"
  have "la_acct la \<in> set accts" using assms(3) by (simp add: accts_def selected_accts_def)
  then have "Memberships [stored] (Some accts) \<in>
      set (push_membership L stored selectors (load_login_account_identities S) rows)"
    by (auto simp: set_push_membership accts_def)
  moreover have "row_source_probe S r (Memberships [stored] (Some accts))"
    using te(1-3) stored acct \<open>la_acct la \<in> set accts\<close>
    by (auto simp: row_source_probe_def intro!: bexI[of _ te])
  ultimately show ?thesis by blast
qed

lemma hashtag_covered:
  assumes "store_written L J S" "m \<in> set (ec_memberships (context_of S conv r))"
    and "eq_ignore_ascii_case (tm_timeline_type m) (str ''hashtag'')" "tm_parameter m = Some q"
    and "hashtag_parameter_matches L q tag"
  shows "hashtag_types L (load_stored_hashtag_types S) tag \<noteq> []"
    and "row_source_probe S r (Memberships (hashtag_types L (load_stored_hashtag_types S) tag) None)"
proof -
  have "to_ascii_lowercase (str ''hashtag'') = str ''hashtag''" by simp
  from membership_entry[OF assms(1-3) this] obtain te where
    te: "te \<in> set (ks_timeline_entries S)" "te_status_id te = st_id r"
      "te_server_domain te = st_server_domain r"
      "normalize_timeline_membership (te_timeline_type te) = (str ''hashtag'', Some q)"
    unfolding assms(4) .
  have t: "te_timeline_type te = str ''tag:'' @ q"
    using normalized_inverse(1)[OF te(4)] by (auto simp: str_inject simp del: str_simps)
  then have "te_timeline_type te \<in> set (load_stored_hashtag_types S)"
    unfolding load_stored_hashtag_types_def tag_range set_remdups set_filter using te(1)
    by (auto intro!: rev_image_eqI)
  then have "te_timeline_type te \<in> set (hashtag_types L (load_stored_hashtag_types S) tag)"
    using assms(5) unfolding hashtag_types_def set_filter t by (simp add: strip_prefix_Some[THEN iffD2])
  then show "hashtag_types L (load_stored_hashtag_types S) tag \<noteq> []"
    and "row_source_probe S r (Memberships (hashtag_types L (load_stored_hashtag_types S) tag) None)"
    using te(1-3) by (auto simp: row_source_probe_def intro!: bexI[of _ te])
qed

lemma account_row_Some: "account_row S k = Some a \<Longrightarrow> a \<in> set (ks_accounts S) \<and> account_key a = k"
  by (auto simp: account_row_def find_Some_iff)

lemma selector_folded:
  assumes "selector_equal L identity x" "folds_ascii L" "ascii_name x"
  shows "fold_text L (clean_name identity) = to_ascii_lowercase x"
proof -
  have "fold_text L (clean_name identity) = fold_text L (clean_name x)"
    using assms(1) by (simp add: selector_equal_def clean_name_def at_sign_def)
  then show ?thesis using assms(2,3) by (simp add: folds_ascii_def ascii_name_def)
qed

lemma author_covered:
  assumes "folds_ascii L" "author_ascii S r"
    and "author_matches_selector L (context_of S conv r) selector"
  shows "author_key r \<in> set (resolve_author_keys L S selector)"
proof -
  obtain a where a: "account_row S (author_key r) = Some a"
    "account_matches_selector L a r selector"
    using assms(3) by (auto simp: author_matches_selector_def context_of_def stored_view_def
        split: option.splits)
  note row = account_row_Some[OF a(1)]
  have plain: "clean_name (ac_acct a) = ac_acct a" "ascii_name (ac_username a)"
    "ascii_name (status_account_acct a r)"
    using assms(2) row by (auto simp: author_ascii_def ascii_name_def[of "ac_acct a"])
  define identity where "identity = without_marker selector"
  define folded where "folded = fold_text L (clean_name identity)"
  have "ac_id a = identity \<or> eq_ignore_ascii_case (ac_acct a) folded \<or>
      eq_ignore_ascii_case (ac_acct a) (before_at folded) \<or>
      eq_ignore_ascii_case (ac_username a) folded"
  proof -
    consider "ac_id a = identity" | "selector_equal L identity (status_account_acct a r)"
      | "selector_equal L identity (ac_username a)"
      using a(2) by (auto simp: account_matches_selector_def identity_equal_def identity_def)
    then show ?thesis
    proof cases
      case 2
      have f: "folded = to_ascii_lowercase (status_account_acct a r)"
        unfolding folded_def by (rule selector_folded[OF 2 assms(1) plain(3)])
      show ?thesis
      proof (cases "status_account_acct a r = ac_acct a")
        case True
        then show ?thesis using f by (simp add: eq_ignore_ascii_case_def)
      next
        case False
        then have "at_sign \<notin> set (ac_acct a)"
          "status_account_acct a r = ac_acct a @ at_sign # st_server_domain r"
          using plain(1) by (auto simp: status_account_acct_def status_scoped_acct_def Let_def
              clean_name_def contains_char_def split: if_splits)
        then have "before_at folded = to_ascii_lowercase (ac_acct a)"
          unfolding f before_at_lower by (simp add: before_at_append)
        then show ?thesis by (simp add: eq_ignore_ascii_case_def)
      qed
    next
      case 3
      then show ?thesis
        using selector_folded[OF 3 assms(1) plain(2)] by (simp add: folded_def eq_ignore_ascii_case_def)
    qed simp
  qed
  then have "account_key a \<in> set (resolve_author_keys L S selector)"
    using row unfolding resolve_author_keys_def Let_def identity_def[symmetric] folded_def
      clean_name_def set_map set_filter
    by (intro imageI) blast
  then show ?thesis using row by simp
qed

lemma viewer_covered:
  assumes "store_written L J S" "la \<in> set (selected_login_accounts L arguments (load_login_account_identities S))"
    and "viewer_state L (context_of S conv r) (Some (la_acct la))
      (case column of BookmarkedColumn \<Rightarrow> vs_bookmarked | FavouritedColumn \<Rightarrow> vs_favourited) = TTrue"
  shows "effective_key_in S r (set (effective_source_keys S
    (ViewerState column (selected_accts L arguments (load_login_account_identities S)))))"
proof -
  let ?select = "case column of BookmarkedColumn \<Rightarrow> vs_bookmarked | FavouritedColumn \<Rightarrow> vs_favourited"
  obtain e where e: "stored_effective S r = Some e"
    using assms(3) by (auto simp: viewer_state_def split: option.splits)
  obtain v where v: "viewer_state_rows L (context_of S conv r) (la_acct la) e = [v]" "?select v = Some True"
    using assms(3) e by (auto simp: viewer_state_def to_truth_def split: option.splits list.splits if_splits)
  then have "v \<in> set (viewer_state_rows L (context_of S conv r) (la_acct la) e)" by simp
  then have row: "v \<in> set (ks_viewer_states S)" "state_key v = status_key_for_status e"
    "selector_equal L (vs_login_account_acct v) (la_acct la)"
    by (auto simp: viewer_state_rows_def context_of_def e)
  have "vs_login_account_acct v = la_acct la"
    using store_writtenD(4)[OF assms(1) selected_subset[OF assms(2)] _ row(3)]
      store_writtenD(1)[OF assms(1)] row(1) by (auto simp: store_keys_ok_def)
  then have "vs_login_account_acct v \<in> set (selected_accts L arguments (load_login_account_identities S))"
    using assms(2) by (simp add: selected_accts_def)
  then have "state_key v \<in> set (effective_source_keys S
      (ViewerState column (selected_accts L arguments (load_login_account_identities S))))"
    using row(1) v(2) by (auto simp: effective_source_keys_def split: viewer_column.splits)
  then show ?thesis using e row(2) by (auto simp: effective_key_in_def)
qed

lemma needle_in_row:
  assumes "folds_ascii L" "mentions_written L J S" "e \<in> set (ks_statuses S)" "st_mentions_json e = Some json"
    and "lib_parse_mentions L json = Some mentions" "m \<in> set mentions"
    and "selector_equal L (status_scoped_acct (mn_acct m) e) (login_provider_acct la)"
    and "\<not> beyond_printable json" "\<forall>c \<in> set (mention_acct_needle L la). \<not> escaped_char c"
  shows "str_contains (to_ascii_lowercase json) (mention_acct_needle L la)"
proof -
  have written: "\<forall>part. str_contains (mn_acct m) part \<and> (\<forall>c \<in> set part. \<not> escaped_char c) \<longrightarrow>
      str_contains json part" "ascii_name (status_scoped_acct (mn_acct m) e)"
    using assms(2-6,8) unfolding mentions_written_def by blast+
  let ?part = "before_at (clean_name (mn_acct m))"
  have "fold_text L (clean_name (login_provider_acct la)) =
      to_ascii_lowercase (status_scoped_acct (mn_acct m) e)"
    using selector_folded[OF selector_equal_equiv(2)[OF assms(7)] assms(1) written(2)] .
  then have needle: "mention_acct_needle L la = to_ascii_lowercase ?part"
    by (simp add: mention_acct_needle_def clean_name_def[symmetric] before_at_lower before_at_scoped)
  have "\<not> escaped_char c" if "c \<in> set ?part" for c
    using assms(9) escaped_in_lower[OF that] unfolding needle by blast
  then have "str_contains json ?part" using written(1) contains_part by blast
  then show ?thesis unfolding needle by (rule contains_lower)
qed

lemma mention_covered:
  assumes "store_written L J S" "r \<in> set (ks_statuses S)"
    and "mentions_login_account L (context_of S conv r) la" "la \<in> set accounts"
  shows "effective_key_in S r (set (effective_source_keys S (RepliesTo (map la_account_id accounts)))) \<or>
    effective_key_in S r (set (effective_source_keys S
      (Mentions (map (\<lambda>la. J (la_account_id la)) accounts) (mention_acct_needles L accounts))))"
proof -
  obtain e where e: "stored_effective S r = Some e" "e \<in> set (ks_statuses S)"
    using assms(3) stored_effective_stored[OF assms(2)]
    by (auto simp: mentions_login_account_def split: option.splits)
  consider (reply) "st_in_reply_to_account_id e = Some (la_account_id la)"
    | (mention) mentions m where
      "parse_optional_array (lib_parse_mentions L) (st_mentions_json e) = Some mentions" "m \<in> set mentions"
      "mn_id m = la_account_id la \<or>
       selector_equal L (status_scoped_acct (mn_acct m) e) (login_provider_acct la)"
    using assms(3) e(1)
    by (auto simp: mentions_login_account_def identity_equal_def split: option.splits if_splits)
  then show ?thesis
  proof cases
    case reply
    then have "status_key_for_status e \<in> set (effective_source_keys S (RepliesTo (map la_account_id accounts)))"
      using e(2) assms(4) by (auto simp: effective_source_keys_def)
    then show ?thesis using e(1) by (auto simp: effective_key_in_def)
  next
    case mention
    then obtain json where json: "st_mentions_json e = Some json" "lib_parse_mentions L json = Some mentions"
      by (auto simp: parse_optional_array_def split: option.splits if_splits)
    have "mention_row (map (\<lambda>la. J (la_account_id la)) accounts) (mention_acct_needles L accounts) json"
    proof (cases "mention_acct_needles L accounts = None \<or> beyond_printable json")
      case True
      then show ?thesis by (auto simp: mention_row_def split: option.splits)
    next
      case False
      then have needles: "mention_acct_needles L accounts = Some (map (mention_acct_needle L) accounts)"
        and plain: "\<forall>c \<in> set (mention_acct_needle L la). \<not> escaped_char c"
        using assms(4) by (auto simp: mention_acct_needles_def Let_def split: if_splits)
      from mention(3) show ?thesis
      proof
        assume "mn_id m = la_account_id la"
        then have "str_contains json (J (la_account_id la))"
          using store_writtenD(3)[OF assms(1)] e(2) json mention(2) unfolding mentions_written_def by metis
        then show ?thesis using assms(4) by (auto simp: mention_row_def needles)
      next
        assume "selector_equal L (status_scoped_acct (mn_acct m) e) (login_provider_acct la)"
        then have "str_contains (to_ascii_lowercase json) (mention_acct_needle L la)"
          using needle_in_row[OF store_writtenD(2,3)[OF assms(1)] e(2) json mention(2) _ _ plain] False
          by blast
        then show ?thesis using assms(4) by (auto simp: mention_row_def needles)
      qed
    qed
    then have "status_key_for_status e \<in> set (effective_source_keys S
        (Mentions (map (\<lambda>la. J (la_account_id la)) accounts) (mention_acct_needles L accounts)))"
      using e(2) json(1) by (auto simp: effective_source_keys_def)
    then show ?thesis using e(1) by (auto simp: effective_key_in_def)
  qed
qed

lemma direct_covered:
  assumes "store_written L J S" "r \<in> set (ks_statuses S)"
    and "account_source_matches L SrcDirect (context_of S conv r) la"
  shows "effective_key_in S r (set (effective_source_keys S DirectVisibility))"
proof -
  obtain e where e: "stored_effective S r = Some e" "eq_ignore_ascii_case (st_visibility e) (str ''direct'')"
    using assms(3) by (cases "stored_effective S r") (simp_all add: account_source_matches_def Let_def)
  note stored = stored_effective_stored[OF assms(2) e(1)]
  then have "st_visibility e = str ''direct''"
    using store_writtenD(6)[OF assms(1) stored] e(2) by (simp add: eq_ignore_ascii_case_def)
  then have "status_key_for_status e \<in> set (effective_source_keys S DirectVisibility)"
    using stored by (auto simp: effective_source_keys_def)
  then show ?thesis using e(1) by (auto simp: effective_key_in_def)
qed

text \<open>Conversation keys are keys of stored posts.\<close>

definition stored_keys :: "kq_store \<Rightarrow> status_key list \<Rightarrow> bool" where
  "stored_keys S conv \<longleftrightarrow> (\<forall>k \<in> set conv. \<exists>s \<in> set (ks_statuses S). k = status_key_of s)"

lemma conversation_key_exact:
  assumes "store_written L J S" "stored_keys S conv" "s \<in> set (ks_statuses S)"
    and "contains_status_key conv (status_key_of s)"
  shows "status_key_for_status s \<in> (\<lambda>k. (sk_id k, sk_server_domain k)) ` set conv"
proof -
  obtain k where k: "k \<in> set conv" "sk_id k = st_id s"
    "eq_ignore_ascii_case (sk_server_domain k) (st_server_domain s)"
    using assms(4) by (auto simp: contains_status_key_def status_key_of_def)
  then obtain s' where "s' \<in> set (ks_statuses S)" "k = status_key_of s'"
    using assms(2) by (auto simp: stored_keys_def)
  then have "sk_server_domain k = st_server_domain s"
    using store_writtenD(7)[OF assms(1) _ assms(3)] k(3) by (simp add: status_key_of_def)
  then show ?thesis using k by (auto simp: status_key_for_status_def intro!: rev_image_eqI)
qed

lemma conversation_covered:
  assumes "store_written L J S" "stored_keys S conv" "r \<in> set (ks_statuses S)"
    and "conversation_source_matches (context_of S conv r)"
  shows "status_key_for_status r \<in> (\<lambda>k. (sk_id k, sk_server_domain k)) ` set conv \<or>
    effective_key_in S r ((\<lambda>k. (sk_id k, sk_server_domain k)) ` set conv)"
  using assms(4) conversation_key_exact[OF assms(1,2,3)]
    conversation_key_exact[OF assms(1,2) stored_effective_stored[OF assms(3)]]
  by (auto simp: conversation_source_matches_def context_of_def stored_view_def effective_key_in_def
      split: option.splits)

subsection \<open>One source\<close>

lemma set_push_list:
  "set (push_list L logins argument rows) = set rows \<union> set (push_list L logins argument [])"
  unfolding push_list_def Let_def split_def set_push_membership by simp

lemma set_push_hashtag:
  "set (push_hashtag L S tag rows) = set rows \<union> set (push_hashtag L S tag [])"
  by (simp add: push_hashtag_def Let_def)

lemma set_push_authors:
  "set (push_authors L S selector keys) = set keys \<union> set (resolve_author_keys L S selector)"
  by (auto simp: push_authors_def)

lemma set_source_folds:
  "set (fold (push_list L logins) arguments rows) =
     set rows \<union> (\<Union>argument \<in> set arguments. set (push_list L logins argument []))"
  "set (fold (push_hashtag L S) arguments rows) =
     set rows \<union> (\<Union>tag \<in> set arguments. set (push_hashtag L S tag []))"
  "set (fold (push_authors L S) arguments keys) =
     set keys \<union> (\<Union>selector \<in> set arguments. set (resolve_author_keys L S selector))"
  by (rule set_fold_rows, rule set_push_list, rule set_fold_rows, rule set_push_hashtag,
      rule set_fold_rows, rule set_push_authors)

lemma plan_source_le: "plan_source L J S logins s p = Some q \<Longrightarrow> planned_le p q"
  unfolding plan_source_def
  by (cases "ss_kind s")
    (auto simp: planned_le_def set_source_folds set_push_membership Let_def split: if_splits)

lemma dedup_nonempty: "dedup_by key seen xs \<noteq> [] \<Longrightarrow> xs \<noteq> []"
  by auto

lemma account_branch:
  assumes "account_source_branches L s c \<noteq> []"
  obtains la where "la \<in> set (selected_login_accounts L (ss_arguments s) (ec_login_accounts c))"
    "account_source_matches L (ss_kind s) c la"
proof -
  have "filter (account_source_matches L (ss_kind s) c)
      (selected_login_accounts L (ss_arguments s) (ec_login_accounts c)) \<noteq> []"
    using assms by (auto simp: account_source_branches_def Let_def collapse_implicit_account_scopes_def
        split: if_splits)
  then show ?thesis using that by (auto simp: filter_empty_conv)
qed

definition account_kinds :: "source_kind set" where
  "account_kinds = {SrcHome, SrcPublic, SrcLocalPublic, SrcMentions, SrcDirect, SrcBookmarks, SrcFavourites}"

lemma account_source_covered:
  assumes "store_written L J S" "r \<in> set (ks_statuses S)" "ss_kind s \<in> account_kinds"
    and "plan_source L J S (load_login_account_identities S) s p = Some q"
    and "source_branches L s (context_of S conv r) \<noteq> []"
  shows "planned_covers S conv q r"
proof -
  let ?logins = "load_login_account_identities S" and ?args = "ss_arguments s"
  have "source_branches L s (context_of S conv r) = account_source_branches L s (context_of S conv r)"
    using assms(3) by (auto simp: source_branches_def account_kinds_def)
  then obtain la where la: "la \<in> set (selected_login_accounts L ?args ?logins)"
    "account_source_matches L (ss_kind s) (context_of S conv r) la"
    using assms(5) account_branch[of L s "context_of S conv r"] by auto
  have some: "selected_login_accounts L ?args ?logins \<noteq> []" "selected_accts L ?args ?logins \<noteq> []"
    using la(1) by (auto simp: selected_accts_def)
  have member: "planned_covers S conv q r"
    if "membership_matches L (context_of S conv r) t (Some (la_acct la)) None"
      "t \<in> {''home'', ''public'', ''local''}"
      "pl_rows q = push_membership L (str t) ?args ?logins (pl_rows p)" for t
    using membership_covered[OF assms(1) that(1) la(1)] that(2,3) by (auto simp: planned_covers_def)
  consider "ss_kind s = SrcHome" | "ss_kind s = SrcPublic" | "ss_kind s = SrcLocalPublic"
    | "ss_kind s = SrcMentions" | "ss_kind s = SrcDirect" | "ss_kind s = SrcBookmarks"
    | "ss_kind s = SrcFavourites"
    using assms(3) by (auto simp: account_kinds_def)
  then show ?thesis
  proof cases
    case 1
    then show ?thesis using la(2) assms(4) member[of "''home''"]
      by (auto simp: account_source_matches_def plan_source_def Let_def)
  next
    case 2
    then show ?thesis using la(2) assms(4) member[of "''public''"]
      by (auto simp: account_source_matches_def plan_source_def Let_def)
  next
    case 3
    then show ?thesis using la(2) assms(4) member[of "''local''"]
      by (auto simp: account_source_matches_def plan_source_def Let_def)
  next
    case 4
    then have "mentions_login_account L (context_of S conv r) la"
      using la(2) by (simp add: account_source_matches_def Let_def)
    from mention_covered[OF assms(1,2) this la(1)] show ?thesis
      using 4 assms(4) some(1) by (auto simp: planned_covers_def plan_source_def Let_def)
  next
    case 5
    then show ?thesis
      using direct_covered[OF assms(1,2)] la(2) assms(4) some(1)
      by (auto simp: planned_covers_def plan_source_def Let_def)
  next
    case 6
    then have "viewer_state L (context_of S conv r) (Some (la_acct la)) vs_bookmarked = TTrue"
      using la(2) by (simp add: account_source_matches_def Let_def)
    then show ?thesis
      using viewer_covered[OF assms(1) la(1), of conv r BookmarkedColumn] 6 assms(4) some(2)
      by (auto simp: planned_covers_def plan_source_def Let_def)
  next
    case 7
    then have "viewer_state L (context_of S conv r) (Some (la_acct la)) vs_favourited = TTrue"
      using la(2) by (simp add: account_source_matches_def Let_def)
    then show ?thesis
      using viewer_covered[OF assms(1) la(1), of conv r FavouritedColumn] 7 assms(4) some(2)
      by (auto simp: planned_covers_def plan_source_def Let_def)
  qed
qed

lemma collapse_membership_nonempty: "collapse_membership_scopes L xs \<noteq> [] \<Longrightarrow> xs \<noteq> []"
  by (auto simp: collapse_membership_scopes_def)

lemma list_source_covered:
  assumes "store_written L J S" "ss_kind s = SrcList"
    and "plan_source L J S (load_login_account_identities S) s p = Some q"
    and "source_branches L s (context_of S conv r) \<noteq> []"
  shows "planned_covers S conv q r"
proof -
  let ?logins = "load_login_account_identities S"
  have "\<exists>argument \<in> set (ss_arguments s). \<exists>la \<in> set (selected_login_accounts L
      (case fst (split_scoped_list_id argument) of None \<Rightarrow> [] | Some x \<Rightarrow> [x]) ?logins).
      membership_matches L (context_of S conv r) ''list'' (Some (la_acct la))
        (Some (snd (split_scoped_list_id argument)))"
    using assms(2,4) by (auto simp: source_branches_def list_source_branches_def Let_def split_def
        filter_empty_conv dest!: collapse_membership_nonempty)
  then obtain argument la where a: "argument \<in> set (ss_arguments s)"
    "la \<in> set (selected_login_accounts L
      (case fst (split_scoped_list_id argument) of None \<Rightarrow> [] | Some x \<Rightarrow> [x]) ?logins)"
    "membership_matches L (context_of S conv r) ''list'' (Some (la_acct la))
      (Some (snd (split_scoped_list_id argument)))" by blast
  have "\<exists>x \<in> set (push_membership L (str ''list:'' @ snd (split_scoped_list_id argument))
      (case fst (split_scoped_list_id argument) of None \<Rightarrow> [] | Some x \<Rightarrow> [x]) ?logins []).
      row_source_probe S r x"
    by (rule membership_covered[OF assms(1) a(3,2)]) simp
  then obtain x where x: "x \<in> set (push_list L ?logins argument [])" "row_source_probe S r x"
    unfolding push_list_def Let_def split_def by blast
  have "pl_rows q = fold (push_list L ?logins) (ss_arguments s) (pl_rows p)"
    using assms(2,3) by (auto simp: plan_source_def)
  then have "x \<in> set (pl_rows q)" using a(1) x(1) by (auto simp: set_source_folds)
  then show ?thesis using x(2) by (auto simp: planned_covers_def)
qed

lemma hashtag_source_covered:
  assumes "store_written L J S" "ss_kind s = SrcHashtag" "plan_source L J S logins s p = Some q"
    and "source_branches L s (context_of S conv r) \<noteq> []"
  shows "planned_covers S conv q r"
proof -
  have "\<exists>tag \<in> set (ss_arguments s). hashtag_source_branches L tag (context_of S conv r) \<noteq> []"
    using assms(2,4) by (auto simp: source_branches_def)
  then obtain tag where tag: "tag \<in> set (ss_arguments s)"
    "hashtag_source_branches L tag (context_of S conv r) \<noteq> []" by blast
  from collapse_membership_nonempty[OF tag(2)[unfolded hashtag_source_branches_def]]
  obtain m where m: "m \<in> set (ec_memberships (context_of S conv r))"
    "eq_ignore_ascii_case (tm_timeline_type m) (str ''hashtag'')"
    "case tm_parameter m of None \<Rightarrow> False | Some p \<Rightarrow> hashtag_parameter_matches L p tag"
    unfolding map_is_Nil_conv filter_empty_conv by blast
  then obtain param where "tm_parameter m = Some param" "hashtag_parameter_matches L param tag"
    by (cases "tm_parameter m") auto
  note covered = hashtag_covered[OF assms(1) m(1,2) this]
  have "pl_rows q = fold (push_hashtag L S) (ss_arguments s) (pl_rows p)"
    using assms(2,3) by (auto simp: plan_source_def)
  moreover have "Memberships (hashtag_types L (load_stored_hashtag_types S) tag) None \<in>
      set (push_hashtag L S tag [])"
    using covered(1) by (simp add: push_hashtag_def Let_def)
  ultimately have "Memberships (hashtag_types L (load_stored_hashtag_types S) tag) None \<in> set (pl_rows q)"
    using tag(1) by (auto simp: set_source_folds)
  then show ?thesis using covered(2) by (auto simp: planned_covers_def)
qed

lemma user_source_covered:
  assumes "folds_ascii L" "author_ascii S r" "ss_kind s = SrcUser"
    and "plan_source L J S logins s p = Some q" "source_branches L s (context_of S conv r) \<noteq> []"
  shows "planned_covers S conv q r"
proof -
  obtain selector where selector: "selector \<in> set (ss_arguments s)"
    "author_matches_selector L (context_of S conv r) selector"
    using assms(3,5) by (auto simp: source_branches_def filter_empty_conv)
  have "pl_author_keys q = fold (push_authors L S) (ss_arguments s) (pl_author_keys p)"
    using assms(3,4) by (auto simp: plan_source_def)
  then have "author_key r \<in> set (pl_author_keys q)"
    using author_covered[OF assms(1,2) selector(2)] selector(1) by (auto simp: set_source_folds)
  then show ?thesis by (simp add: planned_covers_def)
qed

lemma plan_source_covers:
  assumes "store_written L J S" "stored_keys S conv" "r \<in> set (ks_statuses S)"
    and "plan_source L J S logins s p = Some q" "source_branches L s (context_of S conv r) \<noteq> []"
    and "sources_need_login_accounts [s] \<Longrightarrow> logins = load_login_account_identities S"
    and "ss_kind s = SrcUser \<Longrightarrow> author_ascii S r"
  shows "planned_covers S conv q r"
proof -
  consider "ss_kind s \<in> {SrcLocal, SrcSearch, SrcTrack}" | "ss_kind s = SrcConversation"
    | "ss_kind s = SrcUser" | "ss_kind s = SrcHashtag" | "ss_kind s = SrcList" | "ss_kind s \<in> account_kinds"
    by (cases "ss_kind s") (auto simp: account_kinds_def)
  then show ?thesis
  proof cases
    case 1
    then show ?thesis using assms(4) by (auto simp: plan_source_def)
  next
    case 2
    then have "conversation_source_matches (context_of S conv r)" "pl_has_conversation q"
      using assms(4,5) by (auto simp: source_branches_def unscoped_branch_def plan_source_def split: if_splits)
    then show ?thesis using conversation_covered[OF assms(1-3)] by (auto simp: planned_covers_def)
  next
    case 3
    show ?thesis by (rule user_source_covered[OF store_writtenD(2)[OF assms(1)] assms(7)[OF 3] 3 assms(4,5)])
  next
    case 4
    show ?thesis by (rule hashtag_source_covered[OF assms(1) 4 assms(4,5)])
  next
    case 5
    then have "logins = load_login_account_identities S"
      using assms(6) by (simp add: sources_need_login_accounts_def)
    then show ?thesis using list_source_covered[OF assms(1) 5 _ assms(5)] assms(4) by simp
  next
    case 6
    then have "logins = load_login_account_identities S"
      using assms(6) by (auto simp: sources_need_login_accounts_def account_kinds_def)
    then show ?thesis using account_source_covered[OF assms(1,3) 6 _ assms(5)] assms(4) by simp
  qed
qed

subsection \<open>All sources\<close>

lemma plan_sources_le: "plan_sources L J S logins ss p = Some q \<Longrightarrow> planned_le p q"
  by (induction ss arbitrary: p)
    (auto simp: planned_le_refl split: option.splits intro: planned_le_trans[OF plan_source_le])

lemma plan_sources_cover:
  assumes "store_written L J S" "stored_keys S conv" "r \<in> set (ks_statuses S)"
    and "sources_need_login_accounts ss \<Longrightarrow> logins = load_login_account_identities S"
    and "s \<in> set ss" "source_branches L s (context_of S conv r) \<noteq> []"
    and "ss_kind s = SrcUser \<Longrightarrow> author_ascii S r"
  shows "plan_sources L J S logins ss p = Some q \<Longrightarrow> planned_covers S conv q r"
  using assms(4,5)
proof (induction ss arbitrary: p)
  case (Cons t ts)
  obtain m where m: "plan_source L J S logins t p = Some m" "plan_sources L J S logins ts m = Some q"
    using Cons.prems(1) by (auto split: option.splits)
  show ?case
  proof (cases "s = t")
    case True
    have "sources_need_login_accounts [t] \<Longrightarrow> logins = load_login_account_identities S"
      using Cons.prems(2) by (simp add: sources_need_login_accounts_def)
    with True have "planned_covers S conv m r"
      using plan_source_covers[OF assms(1-3) m(1)] assms(6,7) by simp
    then show ?thesis by (rule covers_mono[OF plan_sources_le[OF m(2)]])
  next
    case False
    have "sources_need_login_accounts ts \<Longrightarrow> logins = load_login_account_identities S"
      using Cons.prems(2) by (auto simp: sources_need_login_accounts_def)
    then show ?thesis using Cons.IH[OF m(2)] Cons.prems(3) False by simp
  qed
qed simp

lemma effective_selected:
  assumes "effective_key_in S r K" "K \<subseteq> set keys"
  shows "status_key_for_status r \<in> set keys \<or> boosts_key keys r"
proof -
  obtain e where e: "stored_effective S r = Some e" "status_key_for_status e \<in> set keys"
    using assms by (auto simp: effective_key_in_def)
  show ?thesis
  proof (cases "st_reblog_of_id r")
    case None
    then show ?thesis using e by (simp add: stored_effective_def)
  next
    case (Some i)
    then have "status_key_for_status e = (i, st_server_domain r)"
      using e(1) status_row_Some by (auto simp: stored_effective_def)
    then show ?thesis using e(2) Some by (simp add: boosts_key_def)
  qed
qed

lemma covered_selected:
  assumes "planned_covers S conv p r" "r \<in> set (ks_statuses S)"
    and "rows = pl_rows p @ (if pl_author_keys p = [] then [] else [Authors (pl_author_keys p)])"
    and "effective = pl_effective p @ (if pl_has_conversation p \<and> conv \<noteq> []
      then [Keys (map (\<lambda>k. (sk_id k, sk_server_domain k)) conv)] else [])"
  shows "r \<in> set (probe_rows S rows effective)"
proof -
  have by_effective: ?thesis if "effective_key_in S r K" "K \<subseteq> set (effective_keys S effective)" for K
    using effective_selected[OF that] assms(2) by (auto simp: probe_rows_def)
  have conv: "(\<lambda>k. (sk_id k, sk_server_domain k)) ` set conv \<subseteq> set (effective_keys S effective)"
    if "pl_has_conversation p"
    using that by (auto simp: assms(4) effective_keys_def effective_source_keys_def)
  consider x where "x \<in> set (pl_rows p)" "row_source_probe S r x"
    | "author_key r \<in> set (pl_author_keys p)"
    | x where "x \<in> set (pl_effective p)" "effective_key_in S r (set (effective_source_keys S x))"
    | "pl_has_conversation p" "status_key_for_status r \<in> (\<lambda>k. (sk_id k, sk_server_domain k)) ` set conv"
    | "pl_has_conversation p" "effective_key_in S r ((\<lambda>k. (sk_id k, sk_server_domain k)) ` set conv)"
    using assms(1) unfolding planned_covers_def by blast
  then show ?thesis
  proof cases
    case 1
    then show ?thesis using assms(2) by (auto simp: probe_rows_def assms(3))
  next
    case 2
    then have "pl_author_keys p \<noteq> []" by auto
    then show ?thesis using 2 assms(2) by (auto simp: probe_rows_def assms(3) row_source_probe_def)
  next
    case 3
    then have "set (effective_source_keys S x) \<subseteq> set (effective_keys S effective)"
      unfolding assms(4) effective_keys_def set_concat set_map set_append by blast
    then show ?thesis by (rule by_effective[OF 3(2)])
  next
    case 4
    then show ?thesis using conv assms(2) by (auto simp: probe_rows_def)
  next
    case 5
    then show ?thesis using by_effective conv by blast
  qed
qed

lemma plan_selects:
  assumes "store_written L J S" "stored_keys S conv" "r \<in> set (ks_statuses S)"
    and "sources_need_login_accounts ss \<Longrightarrow> logins = load_login_account_identities S"
    and "s \<in> set ss" "source_branches L s (context_of S conv r) \<noteq> []"
    and "ss_kind s = SrcUser \<Longrightarrow> author_ascii S r"
  shows "r \<in> set (plan_rows S (plan_source_scan_with_limit L J S ss logins conv limit))"
proof -
  define start where "start = \<lparr>pl_rows = [], pl_effective = [], pl_author_keys = [], pl_has_conversation = False\<rparr>"
  show ?thesis
  proof (cases "plan_sources L J S logins ss start")
    case None
    then show ?thesis
      using assms(3) by (simp add: plan_source_scan_with_limit_def start_def full_scan_plan_def plan_rows_def)
  next
    case (Some p)
    define rows where "rows = pl_rows p @ (if pl_author_keys p = [] then [] else [Authors (pl_author_keys p)])"
    define effective where "effective = pl_effective p @ (if pl_has_conversation p \<and> conv \<noteq> []
      then [Keys (map (\<lambda>k. (sk_id k, sk_server_domain k)) conv)] else [])"
    have probe: "r \<in> set (probe_rows S rows effective)"
      using covered_selected[OF plan_sources_cover[OF assms Some] assms(3) rows_def effective_def] .
    then have "\<not> (rows = [] \<and> effective = [])"
      by (auto simp: probe_rows_def effective_keys_def boosts_key_def split: option.splits)
    then have plan: "plan_source_scan_with_limit L J S ss logins conv limit =
        \<lparr>sp_mode = (if estimate_source_rows S rows effective limit \<le> limit then CandidatesMode else ProbeMode),
         sp_rows = rows, sp_effective = effective\<rparr>"
      using Some by (auto simp: plan_source_scan_with_limit_def start_def rows_def effective_def Let_def)
    show ?thesis
      using probe plans_select_same[OF store_writtenD(1)[OF assms(1)], of rows effective]
      by (simp add: plan plan_rows_def)
  qed
qed

end
