(* ===== verification/KqQuery.thy ===== *)
theory KqQuery
imports KqSourceCover "HOL-Library.Product_Lexorder"
begin

text \<open>
  \<^verbatim>\<open>query_statuses\<close> of \<^verbatim>\<open>src/src/services/kq_timeline.rs\<close> from the text of a query to its page, over
  a store: compilation through the cache, budget, login accounts, conversations, source plan,
  cursors and scan. The host of a run says, for each guard, whether the query has been cancelled
  or its time is over, and which database calls fail. The theorem: a query that returns a page
  returns the page of a full scan: the source plan, the paging, the bulk hydration and the
  partial loading change no answer.
\<close>

section \<open>The run of a query\<close>

record query_host =
  qh_lib :: lib
  qh_json_string :: "rstr \<Rightarrow> rstr"
  qh_cancelled :: "nat \<Rightarrow> bool"
  qh_expired :: "nat \<Rightarrow> bool"
  qh_fails :: "nat \<Rightarrow> bool"
  qh_page_fails :: "timeline_cursor option \<Rightarrow> bool"
  qh_hydration_fails :: "db_status list \<Rightarrow> bool"

definition ensure_not_cancelled :: "query_host \<Rightarrow> nat \<Rightarrow> kq_timeline_error + nat" where
  "ensure_not_cancelled H n = (if qh_cancelled H n then Inl KtCancelled else Inr (n + 1))"

definition ensure_budget_remaining :: "query_host \<Rightarrow> nat \<Rightarrow> kq_timeline_error + nat" where
  "ensure_budget_remaining H n = (if qh_expired H n then Inl (KtTimeout 0) else Inr (n + 1))"

text \<open>\<^verbatim>\<open>await_with_guards\<close> before the scan has begun.\<close>

definition await_prepared ::
  "query_host \<Rightarrow> nat \<Rightarrow> kq_timeline_error + 'a \<Rightarrow> kq_timeline_error + ('a \<times> nat)" where
  "await_prepared H n r =
     (if qh_cancelled H n then Inl KtCancelled
      else if qh_expired H n then Inl (KtTimeout 0)
      else if qh_fails H n then Inl KtDatabase
      else ebind r (\<lambda>x. Inr (x, n + 1)))"

text \<open>\<^verbatim>\<open>ORDER BY created_at DESC, server_domain DESC, id DESC\<close>.\<close>

definition newest_rows :: "db_status list \<Rightarrow> db_status list" where
  "newest_rows rows = rev (sort_key (\<lambda>s. (st_created_at s, st_server_domain s, st_id s)) rows)"

definition needs_login_accounts :: "compiled_query \<Rightarrow> bool" where
  "needs_login_accounts cq \<longleftrightarrow> rq_login_accounts (cq_requirements cq) \<or>
     rq_viewer_states (cq_requirements cq) \<or> query_uses_viewer_state_source (cq_sources cq) \<or>
     sources_need_login_accounts (cq_sources cq)"

definition query_logins :: "kq_store \<Rightarrow> compiled_query \<Rightarrow> login_account_identity list" where
  "query_logins S cq = (if needs_login_accounts cq then load_login_account_identities S else [])"

definition query_conversation :: "kq_store \<Rightarrow> compiled_query \<Rightarrow> kq_timeline_error + status_key list" where
  "query_conversation S cq =
     (if rq_conversations (cq_requirements cq)
      then ebind (resolve_conversation_keys S (cq_conversation_ids cq))
             (\<lambda>keys. Inr (sorted_conversation_keys keys))
      else Inr [])"

definition query_plan ::
  "lib \<Rightarrow> (rstr \<Rightarrow> rstr) \<Rightarrow> kq_store \<Rightarrow> compiled_query \<Rightarrow> status_key list \<Rightarrow> source_scan_plan" where
  "query_plan L J S cq conv = plan_source_scan L J S (cq_sources cq) (query_logins S cq) conv"

definition query_env ::
  "query_host \<Rightarrow> kq_store \<Rightarrow> compiled_query \<Rightarrow> query_budget \<Rightarrow> nat \<Rightarrow> nat \<Rightarrow> timeline_cursor option \<Rightarrow>
   entity_key option \<Rightarrow> source_scan_plan \<Rightarrow> status_key list \<Rightarrow> nat \<Rightarrow> scan_env" where
  "query_env H S cq budget requested_limit matches_to_skip stop_cursor stop_key plan conv n = \<lparr>
     se_lib = qh_lib H, se_sources = cq_sources cq, se_predicate = cq_predicate cq,
     se_requirements = cq_requirements cq, se_budget_rows = qb_max_scanned_rows budget,
     se_limit = requested_limit, se_skip = matches_to_skip, se_stop_key = stop_key,
     se_fetch = (\<lambda>cursor page_limit. if qh_page_fails H cursor then None
        else Some (page_statement (newest_rows (plan_rows S plan)) stop_cursor cursor page_limit)),
     se_hydrate = (\<lambda>rows. if qh_hydration_fails H rows then None else Some (page_contexts S conv rows)),
     se_cancelled = (\<lambda>k. qh_cancelled H (n + k)), se_expired = (\<lambda>k. qh_expired H (n + k))\<rparr>"

text \<open>Everything behind the compilation.\<close>

definition run_query ::
  "query_host \<Rightarrow> kq_store \<Rightarrow> compiled_query \<Rightarrow> int \<Rightarrow> int \<Rightarrow> entity_key option \<Rightarrow> entity_key option \<Rightarrow>
   nat \<Rightarrow> kq_timeline_error + db_status list" where
  "run_query H S cq row_limit offset stop_at start_after n =
     ebind (ensure_not_cancelled H n) (\<lambda>n.
     ebind (await_prepared H n (Inr (load_query_budget S))) (\<lambda>(budget, n).
     ebind (ensure_budget_remaining H n) (\<lambda>n.
       let requested_limit = nat (max row_limit 0);
           requested_offset = nat (max offset 0)
       in if requested_limit = 0 then Inr [] else
     ebind (if needs_login_accounts cq
            then await_prepared H n (Inr (load_login_account_identities S)) else Inr ([], n))
       (\<lambda>(login_accounts, n).
     ebind (if rq_conversations (cq_requirements cq)
            then await_prepared H n (query_conversation S cq) else Inr ([], n)) (\<lambda>(conv, n).
     ebind (await_prepared H n (Inr (plan_source_scan (qh_lib H) (qh_json_string H) S (cq_sources cq)
              login_accounts conv))) (\<lambda>(plan, n).
     ebind (await_prepared H n (Inr (resolve_cursor S stop_at))) (\<lambda>(stop_cursor, n).
     ebind (await_prepared H n (Inr (resolve_cursor S start_after))) (\<lambda>(cursor, n).
       scan_statuses
         (query_env H S cq budget requested_limit
            (if cursor = None then requested_offset else 0) stop_cursor
            (if stop_cursor = None then stop_at else None) plan conv n)
         cursor))))))))"

definition query_statuses ::
  "query_host \<Rightarrow> kq_store \<Rightarrow> query_cache \<Rightarrow> rstr \<Rightarrow> int \<Rightarrow> int \<Rightarrow> entity_key option \<Rightarrow>
   entity_key option \<Rightarrow> (kq_timeline_error + db_status list) \<times> query_cache" where
  "query_statuses H S entries query row_limit offset stop_at start_after =
     (case ensure_not_cancelled H 0 of
        Inl e \<Rightarrow> (Inl e, entries)
      | Inr n \<Rightarrow>
          (let (compiled, entries) = compile_query_cached (qh_lib H) query entries
           in (case compiled of
                 Done cq \<Rightarrow> run_query H S cq row_limit offset stop_at start_after n
               | Fail e \<Rightarrow> Inl (KtCompile e)
               | _ \<Rightarrow> Inl KtStuck, entries)))"

section \<open>The answer of a full scan\<close>

text \<open>The stored posts that match the query, judged one by one by their own contexts, newest first,
  older than the start and newer than the stop; of them the page that was asked for.\<close>

definition full_answer ::
  "lib \<Rightarrow> kq_store \<Rightarrow> compiled_query \<Rightarrow> status_key list \<Rightarrow> int \<Rightarrow> int \<Rightarrow> entity_key option \<Rightarrow>
   entity_key option \<Rightarrow> db_status list" where
  "full_answer L S cq conv row_limit offset stop_at start_after =
     (let stop = resolve_cursor S stop_at; cursor = resolve_cursor S start_after in
      take (nat row_limit) (drop (if cursor = None then nat offset else 0)
        (filter (\<lambda>r. satisfies row_after stop r \<and> satisfies row_before cursor r \<and>
             query_matches L (context_of S conv r) (cq_predicate cq) (cq_sources cq))
          (newest_rows (ks_statuses S)))))"

text \<open>The same over the rows that a plan lists.\<close>

definition plan_answer ::
  "lib \<Rightarrow> kq_store \<Rightarrow> compiled_query \<Rightarrow> source_scan_plan \<Rightarrow> status_key list \<Rightarrow> int \<Rightarrow> int \<Rightarrow>
   entity_key option \<Rightarrow> entity_key option \<Rightarrow> db_status list" where
  "plan_answer L S cq plan conv row_limit offset stop_at start_after =
     (let stop = resolve_cursor S stop_at; cursor = resolve_cursor S start_after in
      take (nat row_limit) (drop (if cursor = None then nat offset else 0)
        (filter (\<lambda>r. satisfies row_after stop r \<and> satisfies row_before cursor r \<and>
             query_matches L (context_of S conv r) (cq_predicate cq) (cq_sources cq))
          (newest_rows (plan_rows S plan)))))"

section \<open>Ordered rows\<close>

definition order_key :: "db_status \<Rightarrow> rstr \<times> rstr \<times> rstr" where
  "order_key s = (st_created_at s, st_server_domain s, st_id s)"

lemma listed_before_key: "listed_before a b \<longleftrightarrow> order_key b < order_key a"
  by (auto simp: listed_before_def row_before_def cursor_of_def order_key_def less_prod_simp)

lemma set_newest_rows [simp]: "set (newest_rows rows) = set rows"
  by (simp add: newest_rows_def)

lemma order_key_inj:
  assumes "store_keys_ok S"
  shows "inj_on order_key (set (ks_statuses S))"
proof (rule inj_onI)
  fix a b assume "a \<in> set (ks_statuses S)" "b \<in> set (ks_statuses S)" "order_key a = order_key b"
  then show "a = b" using unique_row[OF assms] by (simp add: order_key_def status_key_for_status_def)
qed

lemma newest_rows_sorted:
  assumes "store_keys_ok S" "distinct rows" "set rows \<subseteq> set (ks_statuses S)"
  shows "sorted_wrt listed_before (newest_rows rows)"
proof -
  define sorted_rows where "sorted_rows = sort_key order_key rows"
  have "inj_on order_key (set sorted_rows)"
    using order_key_inj[OF assms(1)] assms(3) by (auto simp: sorted_rows_def intro: inj_on_subset)
  then have "distinct (map order_key sorted_rows)"
    using assms(2) by (simp add: sorted_rows_def distinct_map)
  then have "sorted_wrt (<) (map order_key sorted_rows)"
    by (simp add: sorted_rows_def strict_sorted_iff)
  then have "sorted_wrt (\<lambda>a b. order_key a < order_key b) sorted_rows"
    by (simp add: sorted_wrt_map)
  moreover have "newest_rows rows = rev sorted_rows"
    by (simp add: newest_rows_def sorted_rows_def order_key_def[abs_def])
  ultimately show ?thesis
    by (simp add: sorted_wrt_rev listed_before_key)
qed

text \<open>A strictly ordered list is determined by its elements.\<close>

lemma listed_unique:
  "sorted_wrt listed_before xs \<Longrightarrow> sorted_wrt listed_before ys \<Longrightarrow> set xs = set ys \<Longrightarrow> xs = ys"
proof (induction xs arbitrary: ys)
  case (Cons x xs)
  then obtain y zs where ys: "ys = y # zs" by (cases ys) auto
  have head: "x = y"
  proof (rule ccontr)
    assume "x \<noteq> y"
    then have "listed_before x y" "listed_before y x" using Cons.prems ys by auto
    then show False by (simp add: listed_before_key)
  qed
  have fresh: "u \<notin> set us" if "sorted_wrt listed_before (u # us)" for u us
    using that by (auto simp: listed_before_key)
  have "set xs = set zs"
    using Cons.prems(3) fresh[OF Cons.prems(1)] fresh[OF Cons.prems(2)[unfolded ys]] ys head by auto
  then show ?case using Cons.IH[of zs] Cons.prems(1,2) ys head by simp
qed simp

lemma same_listing:
  assumes "store_keys_ok S" "distinct rows" "set rows \<subseteq> set (ks_statuses S)"
    and "\<And>r. r \<in> set (ks_statuses S) \<Longrightarrow> P r \<Longrightarrow> r \<in> set rows"
  shows "filter P (newest_rows rows) = filter P (newest_rows (ks_statuses S))"
proof (rule listed_unique)
  have "distinct (ks_statuses S)" using assms(1) by (simp add: store_keys_ok_def distinct_map)
  then show "sorted_wrt listed_before (filter P (newest_rows (ks_statuses S)))"
    using newest_rows_sorted[OF assms(1)] by (simp add: sorted_wrt_filter)
  show "sorted_wrt listed_before (filter P (newest_rows rows))"
    using newest_rows_sorted[OF assms(1-3)] by (simp add: sorted_wrt_filter)
  show "set (filter P (newest_rows rows)) = set (filter P (newest_rows (ks_statuses S)))"
    using assms(3,4) by auto
qed

section \<open>Conversation keys are keys of stored posts\<close>

lemma thread_rows_stored:
  assumes "s \<in> set (ks_statuses S)"
  shows "set (thread_ancestors S n path s) \<subseteq> set (ks_statuses S)"
    and "set (thread_descendants S n path s) \<subseteq> set (ks_statuses S)"
proof -
  show "set (thread_ancestors S n path s) \<subseteq> set (ks_statuses S)"
    using assms
  proof (induction n arbitrary: path s)
    case (Suc n)
    then show ?case
    proof (cases "parent_row S s")
      case (Some p)
      then have "set (thread_ancestors S n (path @ st_id p @ [unit_separator]) p) \<subseteq> set (ks_statuses S)"
        using parent_row_Some[OF Some] by (intro Suc.IH) blast
      then show ?thesis using Some Suc.prems by simp
    qed simp
  qed simp
  show "set (thread_descendants S n path s) \<subseteq> set (ks_statuses S)"
    using assms
  proof (induction n arbitrary: path s)
    case (Suc n)
    have "c \<in> set (ks_statuses S)" if "c \<in> set (child_rows S s)" for c
      using that by (simp add: child_rows_def)
    then show ?case using Suc.IH Suc.prems by (auto split: if_splits)
  qed simp
qed

lemma thread_ancestors_nonempty: "thread_ancestors S n path s \<noteq> []"
  by (cases n) auto

lemma thread_page_stored:
  assumes "query_thread_status_page S i domain n = Some page"
  shows "set page \<subseteq> set (ks_statuses S)"
proof -
  obtain s where s: "status_row S (i, domain) = Some s"
    using assms by (auto simp: query_thread_status_page_def Let_def split: option.splits)
  define m where "m = min (max n 1) 500"
  let ?A = "thread_ancestors S m (path_mark (st_id s)) s"
  have page: "page = take m (remdups (?A @
      thread_descendants S m (path_mark (st_id (last ?A))) (last ?A)))"
    using assms s by (simp add: query_thread_status_page_def Let_def m_def)
  have A: "set ?A \<subseteq> set (ks_statuses S)"
    using thread_rows_stored(1) status_row_Some[OF s] by blast
  then have "last ?A \<in> set (ks_statuses S)" using thread_ancestors_nonempty by (meson last_in_set subsetD)
  then have "set (?A @ thread_descendants S m (path_mark (st_id (last ?A))) (last ?A)) \<subseteq> set (ks_statuses S)"
    using A thread_rows_stored(2) by auto
  then show ?thesis
    unfolding page by (rule subset_trans[OF subset_trans[OF set_take_subset eq_refl[OF set_remdups]]])
qed

lemma conversation_statuses_stored:
  "conversation_statuses S roots keys = Inr keys' \<Longrightarrow>
   set keys' \<subseteq> set keys \<union> status_key_for_status ` set (ks_statuses S)"
proof (induction roots arbitrary: keys)
  case (Cons root roots)
  obtain i domain where r: "root = (i, domain)" by fastforce
  show ?case
  proof (cases "query_thread_status_page S i domain max_conversation_statuses_per_source")
    case None
    then show ?thesis using Cons by (simp add: r)
  next
    case (Some page)
    have "conversation_statuses S roots (fold add_key (map status_key_for_status page) keys) = Inr keys'"
      using Cons.prems Some by (auto simp: r Let_def split: if_splits)
    from Cons.IH[OF this] show ?thesis
      using thread_page_stored[OF Some] unfolding set_add_keys by auto
  qed
qed simp

lemma query_conversation_stored:
  assumes "query_conversation S cq = Inr conv"
  shows "stored_keys S conv"
proof (cases "rq_conversations (cq_requirements cq)")
  case True
  then obtain keys where keys: "resolve_conversation_keys S (cq_conversation_ids cq) = Inr keys"
    "conv = sorted_conversation_keys keys"
    using assms by (auto simp: query_conversation_def ebind_Inr)
  then have sub: "set keys \<subseteq> status_key_for_status ` set (ks_statuses S)"
    using conversation_statuses_stored[of S _ "[]" keys]
    by (force simp: resolve_conversation_keys_def ebind_Inr split: if_splits)
  show ?thesis unfolding stored_keys_def
  proof
    fix k assume "k \<in> set conv"
    then obtain i domain where k: "(i, domain) \<in> set keys" "k = \<lparr>sk_server_domain = domain, sk_id = i\<rparr>"
      by (auto simp: keys(2) sorted_conversation_keys_def)
    then obtain s where "s \<in> set (ks_statuses S)" "(i, domain) = status_key_for_status s" using sub by auto
    then show "\<exists>s \<in> set (ks_statuses S). k = status_key_of s"
      using k(2) by (auto simp: status_key_for_status_def status_key_of_def)
  qed
next
  case False
  then show ?thesis using assms by (simp add: query_conversation_def stored_keys_def)
qed

section \<open>A query answers as the full scan\<close>

lemma plan_rows_stored: "set (plan_rows S plan) \<subseteq> set (ks_statuses S)"
  by (auto simp: plan_rows_def candidate_rows_def probe_rows_def split: source_scan_mode.splits)

lemma query_plan_selects:
  assumes "store_written L J S" "query_conversation S cq = Inr conv" "r \<in> set (ks_statuses S)"
    and "query_matches L (context_of S conv r) (cq_predicate cq) (cq_sources cq)"
    and "SrcUser \<in> ss_kind ` set (cq_sources cq) \<Longrightarrow> author_ascii S r"
  shows "r \<in> set (plan_rows S (query_plan L J S cq conv))"
proof -
  obtain s where "s \<in> set (cq_sources cq)" "source_branches L s (context_of S conv r) \<noteq> []"
    using assms(4) unfolding query_matches_def by (metis empty_iff list.set(1))
  moreover have "sources_need_login_accounts (cq_sources cq) \<Longrightarrow>
      query_logins S cq = load_login_account_identities S"
    by (simp add: query_logins_def needs_login_accounts_def)
  moreover have "author_ascii S r" if "ss_kind s = SrcUser" "s \<in> set (cq_sources cq)" for s
    using assms(5) that by force
  ultimately show ?thesis
    unfolding query_plan_def plan_source_scan_def
    using plan_selects[OF assms(1) query_conversation_stored[OF assms(2)] assms(3)] by blast
qed

lemma query_env_answers:
  assumes "store_keys_ok S"
  shows "listed_answers (query_env H S cq budget k m stop stop_key plan conv n)
    (newest_rows (plan_rows S plan)) stop (context_of S conv)"
  unfolding listed_answers_def query_env_def
  using page_contexts_stored[OF assms] plan_rows_stored[of S plan]
  by (auto simp: split: if_splits)

lemma no_stop_row:
  assumes "resolve_cursor S stop_at = None \<Longrightarrow> stop_key = stop_at" "resolve_cursor S stop_at \<noteq> None \<Longrightarrow> stop_key = None"
    and "r \<in> set (ks_statuses S)"
  shows "\<not> is_stop_row (query_env H S cq budget k m stop stop_key plan conv n) r"
proof (cases "resolve_cursor S stop_at")
  case None
  have "status_row S k \<noteq> None" if "status_key_for_status r = k" for k
    using assms(3) that by (auto simp: status_row_def find_None_iff)
  then show ?thesis
    using None assms(1) by (auto simp: is_stop_row_def query_env_def resolve_cursor_def
        status_key_for_status_def split: option.splits)
next
  case (Some c)
  then show ?thesis using assms(2) by (simp add: is_stop_row_def query_env_def)
qed

lemma compiled_requirements:
  "compile_query L query = Done cq \<Longrightarrow>
   cq_requirements cq = query_requirements_of (cq_sources cq) (cq_predicate cq)"
  using compile_query_ok[of L default_limits query cq]
  by (simp add: compile_query_def query_ok_def)

lemma takeWhile_all: "(\<And>x. x \<in> set xs \<Longrightarrow> P x) \<Longrightarrow> takeWhile P xs = xs"
  by (induction xs) auto

lemma budget_page: "filter_page_size \<le> qb_max_scanned_rows (for_status_count n)"
  by (simp add: for_status_count_def filter_page_size_def min_scanned_rows_def Let_def
      absolute_max_scanned_rows_def)

text \<open>A plan may repeat rows if they fit on one page.\<close>

definition plan_listable :: "kq_store \<Rightarrow> source_scan_plan \<Rightarrow> bool" where
  "plan_listable S plan \<longleftrightarrow> distinct (plan_rows S plan) \<or> length (plan_rows S plan) < filter_page_size"

lemma scan_over_plan:
  assumes "store_keys_ok S" "plan_listable S plan" "budget = load_query_budget S"
    and "cq_requirements cq = query_requirements_of (cq_sources cq) (cq_predicate cq)"
    and "qh_lib H = L" "stop = resolve_cursor S stop_at" "stop_key = (if stop = None then stop_at else None)"
    and "scan_statuses (query_env H S cq budget k m stop stop_key plan conv n) cursor = Inr results"
  shows "results = take k (drop m (filter (\<lambda>r. satisfies row_after stop r \<and>
    satisfies row_before cursor r \<and>
    query_matches L (context_of S conv r) (cq_predicate cq) (cq_sources cq)) (newest_rows (plan_rows S plan))))"
proof -
  let ?E = "query_env H S cq budget k m stop stop_key plan conv n"
  let ?cands = "newest_rows (plan_rows S plan)"
  let ?M = "\<lambda>r. query_matches L (context_of S conv r) (cq_predicate cq) (cq_sources cq)"
  let ?In = "\<lambda>r. satisfies row_after stop r \<and> satisfies row_before cursor r"
  have sel: "se_lib ?E = L" "se_sources ?E = cq_sources cq" "se_predicate ?E = cq_predicate cq"
    "se_limit ?E = k" "se_skip ?E = m" "compiled_env ?E"
    using assms(4,5) by (simp_all add: query_env_def compiled_env_def)
  have "\<not> is_stop_row ?E r" if "r \<in> set (rows_behind ?cands stop cursor)" for r
    using that plan_rows_stored[of S plan] assms(6,7)
    by (intro no_stop_row[of S stop_at]) (auto simp: rows_behind_def)
  then have "visible_rows ?E ?cands stop cursor = rows_behind ?cands stop cursor"
    unfolding visible_rows_def by (intro takeWhile_all) simp
  moreover have "filter_page_size \<le> se_budget_rows ?E"
    using budget_page by (simp add: query_env_def assms(3) load_query_budget_def)
  then have "store_answers ?E ?cands stop (context_of S conv) \<or>
      listed_answers ?E ?cands stop (context_of S conv) \<and>
        length ?cands < min (se_budget_rows ?E) filter_page_size"
    using assms(2) query_env_answers[OF assms(1)] newest_rows_sorted[OF assms(1) _ plan_rows_stored]
    by (auto simp: plan_listable_def store_answers_def newest_rows_def)
  ultimately have "results = take k (drop m (filter ?M (filter ?In ?cands)))"
    using scan_statuses_listed[OF _ sel(6) assms(8)] sel(1-5) by (simp add: rows_behind_def)
  then show ?thesis by (simp add: conj_ac)
qed

lemma run_query_scans:
  assumes "run_query H S cq row_limit offset stop_at start_after n0 = Inr results"
  shows "nat row_limit = 0 \<and> results = [] \<or>
    (\<exists>conv n. query_conversation S cq = Inr conv \<and>
      scan_statuses (query_env H S cq (load_query_budget S) (nat row_limit)
        (if resolve_cursor S start_after = None then nat offset else 0) (resolve_cursor S stop_at)
        (if resolve_cursor S stop_at = None then stop_at else None)
        (query_plan (qh_lib H) (qh_json_string H) S cq conv) conv n) (resolve_cursor S start_after) =
      Inr results)"
proof -
  have prepared: "await_prepared H n r = Inr (x, n') \<longleftrightarrow>
      \<not> qh_cancelled H n \<and> \<not> qh_expired H n \<and> \<not> qh_fails H n \<and> r = Inr x \<and> n' = n + 1" for n r x n'
    by (auto simp: await_prepared_def ebind_Inr)
  have nats: "nat (max i 0) = nat i" for i :: int by simp
  show ?thesis
    using assms
    by (auto simp: run_query_def ebind_Inr Let_def nats prepared query_plan_def query_logins_def
        query_conversation_def split: if_splits)
qed

lemma query_plan_page:
  assumes "store_keys_ok S" "query_cache_ok (qh_lib H) entries"
    and "compile_query (qh_lib H) query = Done cq" "query_conversation S cq = Inr conv"
    and "plan_listable S (query_plan (qh_lib H) (qh_json_string H) S cq conv)"
    and "fst (query_statuses H S entries query row_limit offset stop_at start_after) = Inr results"
  shows "results = plan_answer (qh_lib H) S cq (query_plan (qh_lib H) (qh_json_string H) S cq conv) conv
    row_limit offset stop_at start_after"
proof -
  have compiled: "fst (compile_query_cached (qh_lib H) query entries) = Done cq"
  proof -
    obtain hit entries' where h: "(if byte_len query \<le> max_cached_query_bytes
        then cache_get query entries else (None, entries)) = (hit, entries')" by fastforce
    then have "\<And>cq'. hit = Some cq' \<Longrightarrow> compile_query (qh_lib H) query = Done cq'"
      using cache_get_ok[OF assms(2)] by (auto split: if_splits)
    then show ?thesis
      using assms(3) by (auto simp: compile_query_cached_def h split: option.splits)
  qed
  obtain n where "run_query H S cq row_limit offset stop_at start_after n = Inr results"
    using assms(6) compiled
    by (auto simp: query_statuses_def split: sum.splits prod.splits)
  from run_query_scans[OF this] show ?thesis
  proof
    assume "nat row_limit = 0 \<and> results = []"
    then show ?thesis by (simp add: plan_answer_def Let_def)
  next
    assume "\<exists>conv n. query_conversation S cq = Inr conv \<and>
      scan_statuses (query_env H S cq (load_query_budget S) (nat row_limit)
        (if resolve_cursor S start_after = None then nat offset else 0) (resolve_cursor S stop_at)
        (if resolve_cursor S stop_at = None then stop_at else None)
        (query_plan (qh_lib H) (qh_json_string H) S cq conv) conv n) (resolve_cursor S start_after) =
      Inr results"
    then obtain n where "scan_statuses (query_env H S cq (load_query_budget S) (nat row_limit)
        (if resolve_cursor S start_after = None then nat offset else 0) (resolve_cursor S stop_at)
        (if resolve_cursor S stop_at = None then stop_at else None)
        (query_plan (qh_lib H) (qh_json_string H) S cq conv) conv n) (resolve_cursor S start_after) =
      Inr results" using assms(4) by auto
    from scan_over_plan[OF assms(1,5) refl compiled_requirements[OF assms(3)] refl refl refl this]
    show ?thesis by (simp add: plan_answer_def Let_def)
  qed
qed

lemma plan_answers_fully:
  assumes "store_written L J S" "query_conversation S cq = Inr conv"
    and "distinct (plan_rows S (query_plan L J S cq conv))"
    and "SrcUser \<in> ss_kind ` set (cq_sources cq) \<Longrightarrow> \<forall>r \<in> set (ks_statuses S). author_ascii S r"
  shows "plan_answer L S cq (query_plan L J S cq conv) conv row_limit offset stop_at start_after =
    full_answer L S cq conv row_limit offset stop_at start_after"
proof -
  have same: "filter P (newest_rows (plan_rows S (query_plan L J S cq conv))) =
      filter P (newest_rows (ks_statuses S))"
    if "\<And>r. P r \<Longrightarrow> query_matches L (context_of S conv r) (cq_predicate cq) (cq_sources cq)" for P
    using query_plan_selects[OF assms(1,2) _ that] assms(4)
    by (intro same_listing[OF store_writtenD(1)[OF assms(1)] assms(3) plan_rows_stored]) blast
  show ?thesis unfolding plan_answer_def full_answer_def Let_def by (subst same) simp_all
qed

end
