(* ===== verification/KqQueryClaims.thy ===== *)
theory KqQueryClaims
imports KqQuery
begin

text \<open>
  The properties of planned queries and concrete stores on which they are evaluated: both scan
  statements select the same rows, a plan selects a superset of the matches, a query answers as a
  full scan would. Two theorems show where the code departs from this: a post in the home timelines of
  several accounts comes back once per timeline entry, and an author whose stored names fold beyond
  ASCII is missed.
\<close>

section \<open>Concrete stores\<close>

definition quiet_host :: "lib \<Rightarrow> query_host" where
  "quiet_host L = \<lparr>qh_lib = L, qh_json_string = (\<lambda>s. 34 # s @ [34]), qh_cancelled = (\<lambda>n. False),
     qh_expired = (\<lambda>n. False), qh_fails = (\<lambda>n. False), qh_page_fails = (\<lambda>k. False),
     qh_hydration_fails = (\<lambda>rows. False)\<rparr>"

definition login :: "string \<Rightarrow> login_account_identity" where
  "login name = \<lparr>la_acct = str (name @ ''@s''), la_server_domain = str ''s'', la_account_id = str name,
     la_display_name = str name, la_server_kind = str ''mastodon'', la_is_active = True\<rparr>"

definition home_entry :: "string \<Rightarrow> string \<Rightarrow> timeline_entry" where
  "home_entry i name = \<lparr>te_timeline_type = str ''home'', te_server_domain = str ''s'',
     te_status_id = str i, te_account_acct = str (name @ ''@s''), te_position_at = []\<rparr>"

text \<open>Two accounts on one server that have received the same post.\<close>

definition duo_store :: kq_store where
  "duo_store = thread_store\<lparr>
     ks_timeline_entries := [home_entry ''1'' ''alice'', home_entry ''1'' ''bob'', home_entry ''4'' ''bob''],
     ks_login_accounts := [login ''alice'', login ''bob'']\<rparr>"


text \<open>The conversation of the sample thread and the home timelines.\<close>

definition thread_query :: rstr where
  "thread_query = str ''from conversation:'' @ 34 # str ''2'' @ [34]"

definition home_query :: rstr where "home_query = str ''from home''"

definition compiled_of :: "rstr \<Rightarrow> compiled_query" where
  "compiled_of query = (case compile_query ascii_lib query of Done cq \<Rightarrow> cq)"

lemma queries_compile:
  "compile_query ascii_lib thread_query = Done (compiled_of thread_query)"
  "compile_query ascii_lib home_query = Done (compiled_of home_query)"
  by code_simp+



section \<open>Both scan statements select the same rows\<close>

text \<open>The statement that sorts collected candidates and the one that probes every row select the same
  rows, whatever the sources; the probe lists each row once, and so does the other one unless it is
  made of a single membership source.\<close>

theorem plans_agree:
  assumes "store_keys_ok S"
  shows "set (candidate_rows S rows effective) = set (probe_rows S rows effective) \<and>
    distinct (probe_rows S rows effective) \<and>
    (distinct (candidate_rows S rows effective) \<or>
     (\<exists>types accts. effective = [] \<and> rows = [Memberships types accts]))"
proof -
  have "distinct (ks_statuses S)" using assms by (simp add: store_keys_ok_def distinct_map)
  then have "distinct (probe_rows S rows effective)" by (simp add: probe_rows_def)
  moreover have "distinct (candidate_rows S rows effective)"
    if "\<nexists>types accts. effective = [] \<and> rows = [Memberships types accts]"
    by (rule distinct_candidate_rows[OF assms distinct_source_keys[OF assms that]])
  ultimately show ?thesis using plans_select_same[OF assms] by blast
qed

theorem plans_agree_witness:
  "set (candidate_rows thread_store [] [DirectVisibility, Keys [(str ''2'', str ''s'')]]) =
     set (probe_rows thread_store [] [DirectVisibility, Keys [(str ''2'', str ''s'')]]) \<and>
   candidate_rows thread_store [] [DirectVisibility, Keys [(str ''2'', str ''s'')]] =
     [thread_post ''2'' (Some (str ''1''))]"
proof
  show "set (candidate_rows thread_store [] [DirectVisibility, Keys [(str ''2'', str ''s'')]]) =
      set (probe_rows thread_store [] [DirectVisibility, Keys [(str ''2'', str ''s'')]])"
    using plans_agree[OF thread_store_ok(1)] by blast
  show "candidate_rows thread_store [] [DirectVisibility, Keys [(str ''2'', str ''s'')]] =
      [thread_post ''2'' (Some (str ''1''))]"
    by code_simp
qed

section \<open>A plan selects a superset\<close>



section \<open>A query answers as a full scan\<close>





lemma quiet_host_sel [simp]: "qh_lib (quiet_host L) = L" "qh_json_string (quiet_host L) = (\<lambda>s. 34 # s @ [34])"
  by (simp_all add: quiet_host_def)


section \<open>Where the plan departs from the full scan\<close>

text \<open>The timeline entries of a kind that the accounts of a source have.\<close>

definition received_entries :: "lib \<Rightarrow> kq_store \<Rightarrow> source_spec \<Rightarrow> rstr \<Rightarrow> timeline_entry list" where
  "received_entries L S s t = filter (\<lambda>te. te_timeline_type te = t \<and>
     te_account_acct te \<in> set (selected_accts L (ss_arguments s) (load_login_account_identities S)))
     (ks_timeline_entries S)"

lemma count_list_filter: "count_list (filter P xs) x = (if P x then count_list xs x else 0)"
  by (induction xs) auto

lemma count_sort: "count_list (sort_key f xs) x = count_list xs x"
proof -
  have "count_list (insort_key f y ys) x = count_list (y # ys) x" for y ys by (induction ys) auto
  then show ?thesis by (induction xs) auto
qed

lemma count_newest: "count_list (newest_rows rows) r = count_list rows r"
  by (simp add: newest_rows_def count_sort)

lemma filter_same: "distinct xs \<Longrightarrow> x \<in> set xs \<Longrightarrow> filter (\<lambda>y. y = x) xs = [x]"
  by (induction xs) (auto simp: filter_empty_conv)

lemma stored_once:
  assumes "store_keys_ok S" "r \<in> set (ks_statuses S)"
  shows "filter (\<lambda>s. status_key_for_status s = status_key_for_status r) (ks_statuses S) = [r]"
proof -
  have "filter (\<lambda>s. status_key_for_status s = status_key_for_status r) (ks_statuses S) =
      filter (\<lambda>s. s = r) (ks_statuses S)"
    using unique_row[OF assms(1) _ assms(2)] by (intro filter_cong) auto
  moreover have "distinct (ks_statuses S)" using assms(1) by (simp add: store_keys_ok_def distinct_map)
  then have "filter (\<lambda>s. s = r) (ks_statuses S) = [r]"
    using assms(2) by (rule filter_same)
  ultimately show ?thesis by simp
qed

lemma key_rows:
  assumes "store_keys_ok S" "r \<in> set (ks_statuses S)"
  shows "count_list (filter (\<lambda>s. status_key_for_status s = k) (ks_statuses S)) r =
      (if k = status_key_for_status r then 1 else 0)"
    and "length (filter (\<lambda>s. status_key_for_status s = k) (ks_statuses S)) \<le> 1"
proof -
  show "count_list (filter (\<lambda>s. status_key_for_status s = k) (ks_statuses S)) r =
      (if k = status_key_for_status r then 1 else 0)"
    using stored_once[OF assms] by (auto simp: count_list_0_iff)
  show "length (filter (\<lambda>s. status_key_for_status s = k) (ks_statuses S)) \<le> 1"
  proof (cases "filter (\<lambda>s. status_key_for_status s = k) (ks_statuses S)")
    case (Cons x xs)
    then have "x \<in> set (filter (\<lambda>s. status_key_for_status s = k) (ks_statuses S))" by simp
    then have "x \<in> set (ks_statuses S)" "status_key_for_status x = k" by auto
    then show ?thesis using stored_once[OF assms(1), of x] by simp
  qed simp
qed

lemma keyed_rows:
  assumes "store_keys_ok S" "r \<in> set (ks_statuses S)"
  shows "count_list (concat (map (\<lambda>k. filter (\<lambda>s. status_key_for_status s = k) (ks_statuses S)) ks)) r =
      count_list ks (status_key_for_status r)"
    and "length (concat (map (\<lambda>k. filter (\<lambda>s. status_key_for_status s = k) (ks_statuses S)) ks)) \<le> length ks"
proof -
  show "count_list (concat (map (\<lambda>k. filter (\<lambda>s. status_key_for_status s = k) (ks_statuses S)) ks)) r =
      count_list ks (status_key_for_status r)"
    using key_rows(1)[OF assms] by (induction ks) auto
  show "length (concat (map (\<lambda>k. filter (\<lambda>s. status_key_for_status s = k) (ks_statuses S)) ks)) \<le> length ks"
  proof (induction ks)
    case (Cons k ks)
    then show ?case using key_rows(2)[OF assms, of k] by simp
  qed simp
qed

definition membership_kinds :: "(source_kind \<times> rstr) set" where
  "membership_kinds =
     {(SrcHome, str ''home''), (SrcPublic, str ''public''), (SrcLocalPublic, str ''local'')}"

text \<open>The plan of one membership source lists a stored post once per entry.\<close>

lemma membership_plan_rows:
  assumes "store_keys_ok S" "cq_sources cq = [s]" "(ss_kind s, t) \<in> membership_kinds"
    and "length (received_entries L S s t) < filter_page_size" "r \<in> set (ks_statuses S)"
  shows "count_list (plan_rows S (query_plan L J S cq conv)) r =
      length (filter (\<lambda>te. entry_key te = status_key_for_status r) (received_entries L S s t))"
    and "length (plan_rows S (query_plan L J S cq conv)) \<le> length (received_entries L S s t)"
proof -
  let ?logins = "load_login_account_identities S"
  let ?accts = "selected_accts L (ss_arguments s) ?logins" and ?E = "received_entries L S s t"
  let ?rows = "if ?accts = [] then [] else [Memberships [t] (Some ?accts)]"
  have logins: "query_logins S cq = ?logins"
    using assms(2,3) by (auto simp: query_logins_def needs_login_accounts_def
        sources_need_login_accounts_def membership_kinds_def)
  have planned: "plan_sources L J S ?logins [s]
      \<lparr>pl_rows = [], pl_effective = [], pl_author_keys = [], pl_has_conversation = False\<rparr> =
      Some \<lparr>pl_rows = ?rows, pl_effective = [], pl_author_keys = [], pl_has_conversation = False\<rparr>"
    using assms(3) by (auto simp: membership_kinds_def plan_source_def push_membership_def push_unique_def Let_def)
  have keys: "row_source_keys S (Memberships [t] (Some ?accts)) = map entry_key ?E"
    by (simp add: row_source_keys_def received_entries_def)
  have listed: "plan_rows S (query_plan L J S cq conv) =
      concat (map (\<lambda>k. filter (\<lambda>x. status_key_for_status x = k) (ks_statuses S)) (map entry_key ?E))"
  proof (cases "?accts = []")
    case True
    then have "?E = []" by (simp add: received_entries_def)
    then show ?thesis
      using planned True
      by (simp add: query_plan_def plan_source_scan_def plan_source_scan_with_limit_def logins assms(2)
          empty_plan_def plan_rows_def)
  next
    case False
    have "estimate_source_rows S [Memberships [t] (Some ?accts)] [] max_sorted_candidates \<le> max_sorted_candidates"
      using assms(4) keys
      by (simp add: estimate_source_rows_def effective_keys_def max_sorted_candidates_def filter_page_size_def)
    then show ?thesis
      using planned False keys
      by (simp add: query_plan_def plan_source_scan_def plan_source_scan_with_limit_def logins assms(2)
          plan_rows_def candidate_rows_def source_keys_def sql_union_def Let_def)
  qed
  have "count_list (map entry_key es) k = length (filter (\<lambda>te. entry_key te = k) es)" for es k
    by (induction es) auto
  then show "count_list (plan_rows S (query_plan L J S cq conv)) r =
      length (filter (\<lambda>te. entry_key te = status_key_for_status r) ?E)"
    unfolding listed keyed_rows(1)[OF assms(1,5)] .
  show "length (plan_rows S (query_plan L J S cq conv)) \<le> length ?E"
    unfolding listed using keyed_rows(2)[OF assms(1,5), of "map entry_key ?E"] by simp
qed

lemma open_bounds [simp]: "resolve_cursor S None = None" "satisfies cond None r"
  by (simp_all add: resolve_cursor_def satisfies_def)
text \<open>C24: a query whose only source is the home timeline, or another timeline that accounts receive, returns a
  matching post once for every timeline entry that the selected accounts have for it: the candidate
  statement of a single membership source has no \<^verbatim>\<open>UNION\<close> to remove the others. A full scan returns the
  post once. This is stated for fewer entries than a page and at most as many as the limit.\<close>

theorem home_post_repeated:
  assumes "store_keys_ok S" and "query_cache_ok (qh_lib H) entries"
    and "compile_query (qh_lib H) query = Done cq" and "query_conversation S cq = Inr conv"
    and "cq_sources cq = [s]" and "(ss_kind s, t) \<in> membership_kinds"
    and "length (received_entries (qh_lib H) S s t) < filter_page_size"
    and "length (received_entries (qh_lib H) S s t) \<le> nat row_limit"
    and "length (ks_statuses S) \<le> nat row_limit"
    and "r \<in> set (ks_statuses S)"
    and "query_matches (qh_lib H) (context_of S conv r) (cq_predicate cq) (cq_sources cq)"
    and "fst (query_statuses H S entries query row_limit 0 None None) = Inr results"
  shows "count_list results r =
      length (filter (\<lambda>te. entry_key te = status_key_for_status r) (received_entries (qh_lib H) S s t)) \<and>
    count_list (full_answer (qh_lib H) S cq conv row_limit 0 None None) r = 1"
proof
  let ?plan = "query_plan (qh_lib H) (qh_json_string H) S cq conv"
  let ?M = "\<lambda>r. query_matches (qh_lib H) (context_of S conv r) (cq_predicate cq) (cq_sources cq)"
  note listed = membership_plan_rows[OF assms(1,5-7,10), of "qh_json_string H" conv]
  have "plan_listable S ?plan" using listed(2) assms(7) by (simp add: plan_listable_def)
  from query_plan_page[OF assms(1-4) this assms(12)]
  have "results = take (nat row_limit) (filter ?M (newest_rows (plan_rows S ?plan)))"
    by (simp add: plan_answer_def)
  moreover have "length (filter ?M (newest_rows (plan_rows S ?plan))) \<le> nat row_limit"
    using length_filter_le[of ?M "newest_rows (plan_rows S ?plan)"] listed(2) assms(8)
    by (simp add: newest_rows_def)
  ultimately have "results = filter ?M (newest_rows (plan_rows S ?plan))" by simp
  then show "count_list results r = length (filter (\<lambda>te. entry_key te = status_key_for_status r)
      (received_entries (qh_lib H) S s t))"
    using listed(1) assms(11) by (simp add: count_list_filter count_newest)
  have "length (filter ?M (newest_rows (ks_statuses S))) \<le> nat row_limit"
    using length_filter_le[of ?M "newest_rows (ks_statuses S)"] assms(9) by (simp add: newest_rows_def)
  then have "full_answer (qh_lib H) S cq conv row_limit 0 None None = filter ?M (newest_rows (ks_statuses S))"
    by (simp add: full_answer_def)
  moreover have "count_list (ks_statuses S) r = 1"
    using key_rows(1)[OF assms(1,10), of "status_key_for_status r"] by (simp add: count_list_filter)
  ultimately show "count_list (full_answer (qh_lib H) S cq conv row_limit 0 None None) r = 1"
    using assms(11) by (simp add: count_list_filter count_newest)
qed

lemma home_query_runs:
  "fst (query_statuses (quiet_host ascii_lib) duo_store [] home_query 40 0 None None) =
     Inr [thread_post ''4'' None, thread_post ''1'' None, thread_post ''1'' None]"
  by code_simp

theorem home_post_repeated_witness:
  "count_list [thread_post ''4'' None, thread_post ''1'' None, thread_post ''1'' None] (thread_post ''1'' None) =
     length (filter (\<lambda>te. entry_key te = (str ''1'', str ''s''))
       (received_entries ascii_lib duo_store (hd (cq_sources (compiled_of home_query))) (str ''home''))) \<and>
   count_list (full_answer ascii_lib duo_store (compiled_of home_query) [] 40 0 None None)
     (thread_post ''1'' None) = 1"
proof -
  let ?s = "hd (cq_sources (compiled_of home_query))"
  have run: "store_keys_ok duo_store" "query_conversation duo_store (compiled_of home_query) = Inr []"
    "cq_sources (compiled_of home_query) = [?s]"
    "length (received_entries ascii_lib duo_store ?s (str ''home'')) < filter_page_size"
    "length (received_entries ascii_lib duo_store ?s (str ''home'')) \<le> nat 40"
    "length (ks_statuses duo_store) \<le> nat 40"
    "query_matches ascii_lib (context_of duo_store [] (thread_post ''1'' None))
      (cq_predicate (compiled_of home_query)) (cq_sources (compiled_of home_query))"
    "status_key_for_status (thread_post ''1'' None) = (str ''1'', str ''s'')"
    "ss_kind ?s = SrcHome"
    by code_simp+
  have "thread_post ''1'' None \<in> set (ks_statuses duo_store)" "(ss_kind ?s, str ''home'') \<in> membership_kinds"
    by (simp_all add: duo_store_def thread_store_def membership_kinds_def run(9))
  then show ?thesis
    using home_post_repeated[of duo_store "quiet_host ascii_lib" "[]" home_query, OF run(1) _ _ run(2,3) _ _ _
        run(6) _ _ home_query_runs, of "str ''home''" "thread_post ''1'' None"] run(4,5,7,8) queries_compile(2)
    by (simp add: query_cache_ok_def)
qed

text \<open>An account whose stored name has a capital letter beyond ASCII, which folding takes to a small
  letter and \<^verbatim>\<open>NOCASE\<close> leaves alone.\<close>

definition umlaut_lib :: lib where
  "umlaut_lib = ascii_lib\<lparr>lib_fold_string := map (\<lambda>c. if c = 220 then 252 else to_ascii_lower_char c)\<rparr>"

definition umlaut_account :: db_account where
  "umlaut_account = \<lparr>ac_id = str ''7'', ac_server_domain = str ''s'', ac_username = 220 # str ''nal'',
     ac_acct = 220 # str ''nal'', ac_display_name = [], ac_note = [], ac_avatar = [], ac_avatar_static = [],
     ac_header = [], ac_locked = False, ac_bot = False, ac_followers_count = 0, ac_following_count = 0,
     ac_statuses_count = 0, ac_created_at = [], ac_fetched_at = [], ac_fields_json = None,
     ac_emojis_json = None\<rparr>"

definition umlaut_store :: kq_store where
  "umlaut_store = thread_store\<lparr>ks_statuses := [thread_post ''1'' None], ks_accounts := [umlaut_account]\<rparr>"

definition umlaut_query :: rstr where
  "umlaut_query = str ''from user:'' @ 34 # 252 # str ''nal'' @ [34]"

lemma kept_character:
  assumes "eq_ignore_ascii_case x y" "c \<in> set x" "128 \<le> c"
  shows "c \<in> set y"
proof -
  have "to_ascii_lower_char c \<in> set (to_ascii_lowercase x)" using assms(2) by (simp add: to_ascii_lowercase_def)
  then have "to_ascii_lower_char c \<in> set (to_ascii_lowercase y)"
    using assms(1) by (simp add: eq_ignore_ascii_case_def)
  then obtain d where "d \<in> set y" "to_ascii_lower_char d = to_ascii_lower_char c"
    by (auto simp: to_ascii_lowercase_def)
  then show ?thesis
    using assms(3) by (auto simp: to_ascii_lower_char_def is_ascii_uppercase_def split: if_splits)
qed

lemma set_before_at: "set (before_at x) \<subseteq> set x"
  unfolding before_at_takeWhile by (auto dest!: set_takeWhileD)

lemma set_clean_name: "set (clean_name x) \<subseteq> set x"
  by (auto simp: clean_name_def trim_start_matches_def trim_def trim_start_def trim_end_def
      dest!: set_dropWhileD)

text \<open>The lookup of the plan does not find an account whose names have a character beyond ASCII that
  folding removes.\<close>

lemma folded_author_unresolved:
  assumes "\<forall>a \<in> set (ks_accounts S). account_key a = k \<longrightarrow>
      c \<in> set (ac_acct a) \<and> c \<in> set (ac_username a) \<and> ac_id a \<noteq> without_marker selector"
    and "128 \<le> c" "\<forall>t. c \<notin> set (fold_text L t)" "c \<notin> set (without_marker selector)"
  shows "k \<notin> set (resolve_author_keys L S selector)"
proof
  let ?identity = "without_marker selector"
  let ?name = "trim_start_matches at_sign (trim ?identity)"
  assume "k \<in> set (resolve_author_keys L S selector)"
  then obtain a where a: "a \<in> set (ks_accounts S)" "account_key a = k" and found: "ac_id a = ?identity \<or>
      (\<exists>x \<in> {?name, fold_text L ?name, before_at ?name, before_at (fold_text L ?name)}.
        eq_ignore_ascii_case (ac_acct a) x \<or> eq_ignore_ascii_case (ac_username a) x)"
    by (auto simp: resolve_author_keys_def Let_def)
  have "c \<notin> set ?name" using set_clean_name[of ?identity] assms(4) by (auto simp: clean_name_def)
  then have "c \<notin> set x" if "x \<in> {?name, fold_text L ?name, before_at ?name, before_at (fold_text L ?name)}" for x
    using that assms(3) set_before_at by blast
  then show False using found assms(1) a kept_character[OF _ _ assms(2)] by blast
qed

lemma user_plan:
  assumes "store_keys_ok S" "r \<in> set (ks_statuses S)" "cq_sources cq = [s]" "ss_kind s = SrcUser"
    and "\<And>selector. selector \<in> set (ss_arguments s) \<Longrightarrow>
      author_key r \<notin> set (resolve_author_keys L S selector)"
  shows "r \<notin> set (plan_rows S (query_plan L J S cq conv))"
    and "\<not> lone_membership (query_plan L J S cq conv)"
proof -
  define keys where "keys = fold (push_authors L S) (ss_arguments s) []"
  have fresh: "author_key r \<notin> set keys" using assms(5) by (auto simp: keys_def set_source_folds)
  have plan: "query_plan L J S cq conv = (if keys = [] then empty_plan else
      \<lparr>sp_mode = (if estimate_source_rows S [Authors keys] [] max_sorted_candidates \<le> max_sorted_candidates
        then CandidatesMode else ProbeMode), sp_rows = [Authors keys], sp_effective = []\<rparr>)"
    using assms(3,4)
    by (simp add: query_plan_def plan_source_scan_def plan_source_scan_with_limit_def plan_source_def
        keys_def Let_def)
  show "r \<notin> set (plan_rows S (query_plan L J S cq conv))"
    using fresh plans_select_same[OF assms(1), of "[Authors keys]" "[]"] unfolding plan
    by (auto simp: plan_rows_def empty_plan_def probe_rows_def row_source_probe_def effective_keys_def
        boosts_key_def split: option.splits)
  show "\<not> lone_membership (query_plan L J S cq conv)"
    unfolding plan by (auto simp: lone_membership_def empty_plan_def)
qed

text \<open>C27: a query for the posts of a user never returns the posts of an account whose stored names have a
  capital letter beyond ASCII, unless the query spells that letter or names the account's
  identifier: folding makes the evaluator's comparison match and a full scan returns the post, but
  the plan looks the account up with an ASCII comparison.\<close>

theorem folded_author_missed:
  assumes "store_keys_ok S" and "query_cache_ok (qh_lib H) entries"
    and "compile_query (qh_lib H) query = Done cq" and "query_conversation S cq = Inr conv"
    and "cq_sources cq = [s]" and "ss_kind s = SrcUser"
    and "r \<in> set (ks_statuses S)" and "128 \<le> c" and "\<forall>t. c \<notin> set (fold_text (qh_lib H) t)"
    and "\<forall>a \<in> set (ks_accounts S). account_key a = author_key r \<longrightarrow>
      c \<in> set (ac_acct a) \<and> c \<in> set (ac_username a) \<and>
      (\<forall>selector \<in> set (ss_arguments s). ac_id a \<noteq> without_marker selector)"
    and "\<forall>selector \<in> set (ss_arguments s). c \<notin> set (without_marker selector)"
    and "query_matches (qh_lib H) (context_of S conv r) (cq_predicate cq) (cq_sources cq)"
    and "length (ks_statuses S) \<le> nat full_limit"
    and "fst (query_statuses H S entries query row_limit offset stop_at start_after) = Inr results"
  shows "r \<notin> set results \<and> r \<in> set (full_answer (qh_lib H) S cq conv full_limit 0 None None)"
proof
  let ?plan = "query_plan (qh_lib H) (qh_json_string H) S cq conv"
  have "author_key r \<notin> set (resolve_author_keys (qh_lib H) S selector)"
    if "selector \<in> set (ss_arguments s)" for selector
    using assms(10,11) that by (intro folded_author_unresolved[OF _ assms(8,9)]) blast+
  note plan = user_plan[OF assms(1,7,5,6) this, where J = "qh_json_string H" and conv = conv]
  have "plan_listable S ?plan"
    using distinct_plan_rows[OF assms(1) plan(2)] by (simp add: plan_listable_def)
  from query_plan_page[OF assms(1-4) this assms(14)] have "set results \<subseteq> set (plan_rows S ?plan)"
    by (auto simp: plan_answer_def Let_def dest!: in_set_takeD in_set_dropD)
  then show "r \<notin> set results" using plan(1) by blast
  let ?M = "\<lambda>r. query_matches (qh_lib H) (context_of S conv r) (cq_predicate cq) (cq_sources cq)"
  have "length (filter ?M (newest_rows (ks_statuses S))) \<le> nat full_limit"
    using length_filter_le[of ?M "newest_rows (ks_statuses S)"] assms(13) by (simp add: newest_rows_def)
  then have "full_answer (qh_lib H) S cq conv full_limit 0 None None = filter ?M (newest_rows (ks_statuses S))"
    by (simp add: full_answer_def)
  then show "r \<in> set (full_answer (qh_lib H) S cq conv full_limit 0 None None)" using assms(7,12) by simp
qed

definition umlaut_compiled :: compiled_query where
  "umlaut_compiled = (case compile_query umlaut_lib umlaut_query of Done cq \<Rightarrow> cq)"

lemma umlaut_query_runs:
  "compile_query umlaut_lib umlaut_query = Done umlaut_compiled"
  "fst (query_statuses (quiet_host umlaut_lib) umlaut_store [] umlaut_query 40 0 None None) = Inr []"
  by code_simp+

lemma umlaut_folded: "220 \<notin> set (fold_text umlaut_lib t)"
  by (auto simp: fold_text_def umlaut_lib_def ascii_lib_def to_ascii_lower_char_def
      is_ascii_uppercase_def split: if_splits)

theorem folded_author_missed_witness:
  "thread_post ''1'' None \<notin> set [] \<and>
   thread_post ''1'' None \<in> set (full_answer umlaut_lib umlaut_store umlaut_compiled [] 40 0 None None)"
proof -
  let ?s = "hd (cq_sources umlaut_compiled)"
  have run: "store_keys_ok umlaut_store" "query_conversation umlaut_store umlaut_compiled = Inr []"
    "cq_sources umlaut_compiled = [?s]" "ss_kind ?s = SrcUser"
    "\<forall>a \<in> set (ks_accounts umlaut_store). account_key a = author_key (thread_post ''1'' None) \<longrightarrow>
      220 \<in> set (ac_acct a) \<and> 220 \<in> set (ac_username a) \<and>
      (\<forall>selector \<in> set (ss_arguments ?s). ac_id a \<noteq> without_marker selector)"
    "\<forall>selector \<in> set (ss_arguments ?s). 220 \<notin> set (without_marker selector)"
    "query_matches umlaut_lib (context_of umlaut_store [] (thread_post ''1'' None))
      (cq_predicate umlaut_compiled) (cq_sources umlaut_compiled)"
    by code_simp+
  show ?thesis
    using folded_author_missed[of umlaut_store "quiet_host umlaut_lib" "[]" umlaut_query, OF run(1) _ _ run(2-4)
        _ _ _ run(5,6) _ _ umlaut_query_runs(2), of 40] run(7) umlaut_query_runs(1) umlaut_folded
    by (simp add: query_cache_ok_def umlaut_store_def)
qed

end
