(* ===== verification/StateMachines.thy ===== *)
theory StateMachines
imports RustPrelude
begin

text \<open>
  Shared by the state machines of the desktop application: reachable states of a step relation with
  the invariant rule, and times. An \<^verbatim>\<open>Instant\<close> and a \<^verbatim>\<open>Duration\<close> are numbers of nanoseconds, so
  that \<^verbatim>\<open>saturating_duration_since\<close> is the subtraction of natural numbers.
\<close>

section \<open>Reachable states\<close>

inductive reach :: "('s \<Rightarrow> bool) \<Rightarrow> ('s \<Rightarrow> 's \<Rightarrow> bool) \<Rightarrow> 's \<Rightarrow> bool" for I S where
  reach_init: "I s \<Longrightarrow> reach I S s"
| reach_step: "reach I S s \<Longrightarrow> S s s' \<Longrightarrow> reach I S s'"

lemma reach_invariant:
  assumes "reach I S s" and "\<And>s. I s \<Longrightarrow> P s" and "\<And>s s'. P s \<Longrightarrow> S s s' \<Longrightarrow> P s'"
  shows "P s"
  using assms(1) by (induction rule: reach.induct) (auto intro: assms(2,3))

text \<open>An invariant that is proved on top of another one.\<close>

lemma reach_invariant_with:
  assumes "reach I S s" and "\<And>s. reach I S s \<Longrightarrow> Q s" and "\<And>s. I s \<Longrightarrow> P s"
    and "\<And>s s'. Q s \<Longrightarrow> P s \<Longrightarrow> S s s' \<Longrightarrow> P s'"
  shows "P s"
  using assms(1) by (induction rule: reach.induct) (auto intro: assms(2-4))

section \<open>Times\<close>

definition secs :: "nat \<Rightarrow> nat" where
  "secs n = n * 1000000000"

definition millis :: "nat \<Rightarrow> nat" where
  "millis n = n * 1000000"

text \<open>\<^verbatim>\<open>Duration::as_secs\<close> rounds down.\<close>

definition as_secs :: "nat \<Rightarrow> nat" where
  "as_secs d = d div 1000000000"

lemma secs_mono [simp]: "secs m \<le> secs n \<longleftrightarrow> m \<le> n" "secs m < secs n \<longleftrightarrow> m < n"
  by (simp_all add: secs_def)

lemma secs_add: "secs (m + n) = secs m + secs n"
  by (simp add: secs_def distrib_right)

end
