(* ===== verification/WebviewHealth.thy ===== *)
theory WebviewHealth
imports StateMachines
begin

text \<open>
  The watchdog of the main web view (\<^verbatim>\<open>HealthState\<close> of
  \<^verbatim>\<open>src/src/application/desktop/webview_health.rs\<close>): the clocks that decide when a probe is sent,
  when a delay is reported and when a recovery or a recreation is requested. The monotonic clock is a
  natural number of nanoseconds, the wall clock an integer that may run backwards. Counters are
  natural numbers: \<open>hs_slow\<close> and \<open>pg_missed\<close> are proved to stay below four, and the 64-bit probe id
  grows once per poll.

  The theorems: a recovery is requested only when the clocks of the invariant justify it, and when a
  visible document stops to answer, one is requested by the polls of a minute and the distance of two
  polls, as soon as the cooldown is over and a poll allows it.
\<close>

section \<open>State\<close>

definition poll_interval :: nat where "poll_interval = secs 5"
definition grace_period :: nat where "grace_period = secs 15"
definition missed_check_interval :: nat where "missed_check_interval = secs 15"
definition recovery_timeout :: nat where "recovery_timeout = secs 45"
definition recovery_cooldown :: nat where "recovery_cooldown = secs 120"
definition recreation_timeout :: nat where "recreation_timeout = secs 60"
definition slow_probe_timeout :: nat where "slow_probe_timeout = secs 15"
definition consecutive_slow_probes :: nat where "consecutive_slow_probes = 3"

lemmas health_constants = poll_interval_def grace_period_def missed_check_interval_def
  recovery_timeout_def recovery_cooldown_def recreation_timeout_def slow_probe_timeout_def
  consecutive_slow_probes_def secs_def

datatype stall_reason = JavaScript | AnimationFrame | RepeatedSlowJavaScript

datatype health_action = Probe nat | MissedCheck stall_reason nat | Recover stall_reason | Recreate

record progress =
  pg_since :: nat
  pg_missed :: nat

definition progress_new :: "nat \<Rightarrow> progress" where
  "progress_new now = \<lparr>pg_since = now, pg_missed = 0\<rparr>"

definition elapsed :: "progress \<Rightarrow> nat \<Rightarrow> nat" where
  "elapsed p now = now - pg_since p"

definition missed_check :: "nat \<Rightarrow> progress \<Rightarrow> nat option \<times> progress" where
  "missed_check now p =
     (let checks = min (as_secs (elapsed p now) div as_secs missed_check_interval) 3 in
      if checks > pg_missed p then (Some checks, p\<lparr>pg_missed := checks\<rparr>) else (None, p))"

record pending_probe =
  pp_id :: nat
  pp_started_at :: nat

record frame_progress =
  fp_frame :: nat
  fp_progress :: progress

record health =
  hs_next_id :: nat
  hs_pending :: "pending_probe option"
  hs_slow :: nat
  hs_javascript :: "progress option"
  hs_frame :: "frame_progress option"
  hs_next_probe_at :: nat
  hs_last_tick_wall :: int
  hs_was_visible :: bool
  hs_cooldown_until :: "nat option"
  hs_awaiting :: bool
  hs_recreate_after :: "nat option"
  hs_stopped :: bool

record probe_response =
  pr_version :: nat
  pr_visible :: bool
  pr_frame :: nat

section \<open>Operations\<close>

definition health_new :: "nat \<Rightarrow> int \<Rightarrow> health" where
  "health_new now wall = \<lparr>
     hs_next_id = 0, hs_pending = None, hs_slow = 0, hs_javascript = None, hs_frame = None,
     hs_next_probe_at = now + grace_period, hs_last_tick_wall = wall, hs_was_visible = False,
     hs_cooldown_until = None, hs_awaiting = False, hs_recreate_after = None, hs_stopped = False\<rparr>"

definition navigation :: "nat \<Rightarrow> health \<Rightarrow> health" where
  "navigation now h = h\<lparr>hs_pending := None, hs_slow := 0, hs_javascript := None, hs_frame := None,
     hs_next_probe_at := now + grace_period\<rparr>"

definition pause :: "nat \<Rightarrow> health \<Rightarrow> health" where
  "pause now h = h\<lparr>
     hs_next_probe_at := now + grace_period,
     hs_slow := 0,
     hs_recreate_after :=
       (if hs_recreate_after h \<noteq> None then Some (now + grace_period + recreation_timeout) else None),
     hs_pending := map_option (\<lambda>p. p\<lparr>pp_started_at := now + grace_period\<rparr>) (hs_pending h),
     hs_javascript := map_option (\<lambda>_. progress_new (now + grace_period)) (hs_javascript h),
     hs_frame := map_option (\<lambda>f. f\<lparr>fp_progress := progress_new (now + grace_period)\<rparr>) (hs_frame h)\<rparr>"

definition begin_recovery :: "nat \<Rightarrow> health \<Rightarrow> health" where
  "begin_recovery now h = navigation now (h\<lparr>
     hs_cooldown_until := Some (now + recovery_cooldown), hs_awaiting := True,
     hs_recreate_after := Some (now + recreation_timeout)\<rparr>)"

definition begin_recreation :: "nat \<Rightarrow> health \<Rightarrow> health" where
  "begin_recreation now h = navigation now (h\<lparr>hs_recreate_after := None\<rparr>)"

text \<open>\<^verbatim>\<open>scheduling_gap\<close>: a wall clock that ran backwards counts as a gap.\<close>

definition scheduling_gap :: "int \<Rightarrow> health \<Rightarrow> bool" where
  "scheduling_gap wall h \<longleftrightarrow>
     wall < hs_last_tick_wall h \<or> wall - hs_last_tick_wall h > int grace_period"

definition pending_is_slow :: "nat \<Rightarrow> health \<Rightarrow> bool" where
  "pending_is_slow now h \<longleftrightarrow>
     (\<exists>p \<in> set_option (hs_pending h). now - pp_started_at p \<ge> slow_probe_timeout)"

definition stalled :: "nat \<Rightarrow> health \<Rightarrow> stall_reason option" where
  "stalled now h =
     (if \<exists>p \<in> set_option (hs_javascript h). elapsed p now \<ge> recovery_timeout then Some JavaScript
      else if \<exists>f \<in> set_option (hs_frame h). elapsed (fp_progress f) now \<ge> recovery_timeout
      then Some AnimationFrame
      else if hs_slow h + of_bool (pending_is_slow now h) \<ge> consecutive_slow_probes
      then Some RepeatedSlowJavaScript
      else None)"

definition cooldown_complete :: "nat \<Rightarrow> health \<Rightarrow> bool" where
  "cooldown_complete now h \<longleftrightarrow> (\<forall>until \<in> set_option (hs_cooldown_until h). now \<ge> until)"

text \<open>The end of \<^verbatim>\<open>tick\<close>: the delays of the two clocks, then the next probe.\<close>

definition send_probe :: "nat \<Rightarrow> health \<Rightarrow> health_action option \<times> health" where
  "send_probe now h =
     (if hs_pending h = None \<and> now \<ge> hs_next_probe_at h then
        (let i = hs_next_id h + 1 in
         (Some (Probe i), h\<lparr>hs_next_id := i, hs_pending := Some \<lparr>pp_id = i, pp_started_at = now\<rparr>,
            hs_javascript := (case hs_javascript h of
              None \<Rightarrow> Some (progress_new now) | Some p \<Rightarrow> Some p)\<rparr>))
      else (None, h))"

definition check_frame :: "nat \<Rightarrow> health \<Rightarrow> health_action option \<times> health" where
  "check_frame now h =
     (case hs_frame h of
        None \<Rightarrow> send_probe now h
      | Some f \<Rightarrow>
          (let (missed, p) = missed_check now (fp_progress f);
               h = h\<lparr>hs_frame := Some (f\<lparr>fp_progress := p\<rparr>)\<rparr>
           in case missed of
                Some checks \<Rightarrow> (Some (MissedCheck AnimationFrame checks), h)
              | None \<Rightarrow> send_probe now h))"

definition check_javascript :: "nat \<Rightarrow> health \<Rightarrow> health_action option \<times> health" where
  "check_javascript now h =
     (case hs_javascript h of
        None \<Rightarrow> check_frame now h
      | Some js \<Rightarrow>
          (let (missed, p) = missed_check now js; h = h\<lparr>hs_javascript := Some p\<rparr>
           in case missed of
                Some checks \<Rightarrow> (Some (MissedCheck JavaScript checks), h)
              | None \<Rightarrow> check_frame now h))"

definition tick_health ::
  "nat \<Rightarrow> int \<Rightarrow> bool \<Rightarrow> bool \<Rightarrow> health \<Rightarrow> health_action option \<times> health" where
  "tick_health now wall visible allowed h0 =
     (let gap = scheduling_gap wall h0; h = h0\<lparr>hs_last_tick_wall := wall\<rparr> in
      if hs_stopped h then (None, h)
      else if \<not> visible \<or> \<not> hs_was_visible h \<or> gap
      then (None, pause now (h\<lparr>hs_was_visible := visible\<rparr>))
      else if \<exists>deadline \<in> set_option (hs_recreate_after h). now \<ge> deadline then (Some Recreate, h)
      else
        (case (if allowed \<and> cooldown_complete now h then stalled now h else None) of
           Some reason \<Rightarrow> (Some (Recover reason), h)
         | None \<Rightarrow> check_javascript now h))"

text \<open>\<^verbatim>\<open>complete\<close>: the reply to a probe; whether it was accepted.\<close>

definition new_frame :: "nat \<Rightarrow> probe_response \<Rightarrow> bool \<Rightarrow> health \<Rightarrow> health" where
  "new_frame now r owns h =
     (if pr_visible r \<and> hs_was_visible h then
        (case hs_frame h of
           Some f \<Rightarrow>
             (if fp_frame f \<noteq> pr_frame r then
                (let h = h\<lparr>hs_frame := Some \<lparr>fp_frame = pr_frame r, fp_progress = progress_new now\<rparr>\<rparr>
                 in if owns then h\<lparr>hs_awaiting := False, hs_recreate_after := None\<rparr> else h)
              else h)
         | None \<Rightarrow> h\<lparr>hs_frame := Some \<lparr>fp_frame = pr_frame r, fp_progress = progress_new now\<rparr>\<rparr>)
      else h\<lparr>hs_frame := None\<rparr>)"

definition slow_reply :: "nat \<Rightarrow> pending_probe \<Rightarrow> probe_response \<Rightarrow> health \<Rightarrow> bool" where
  "slow_reply now p r h \<longleftrightarrow>
     pr_visible r \<and> hs_was_visible h \<and> now - pp_started_at p \<ge> slow_probe_timeout"

definition complete_probe ::
  "nat \<Rightarrow> nat \<Rightarrow> probe_response option \<Rightarrow> bool \<Rightarrow> health \<Rightarrow> bool \<times> health" where
  "complete_probe i now response owns h =
     (case hs_pending h of
        None \<Rightarrow> (False, h)
      | Some p \<Rightarrow>
          if pp_id p \<noteq> i then (False, h)
          else
            (let h = h\<lparr>hs_pending := None, hs_next_probe_at := now + poll_interval\<rparr> in
             case response of
               None \<Rightarrow> (True, h)
             | Some r \<Rightarrow>
                 if pr_version r \<noteq> 1 then (True, h)
                 else (True, new_frame now r owns (h\<lparr>
                   hs_slow := (if slow_reply now p r h
                     then min (hs_slow h + 1) consecutive_slow_probes else 0),
                   hs_javascript := Some (progress_new now)\<rparr>))))"

section \<open>The watchdog and its environment\<close>

text \<open>
  What the environment did, for the statements: the time, when the page last showed progress (a valid
  reply, a new frame; a navigation or a pause starts the clocks afresh), how many replies in a row
  were slow, and when a recovery last began.
\<close>

record observed =
  ob_clock :: nat
  ob_reply :: nat
  ob_frame :: nat
  ob_slow :: nat
  ob_recovered :: "nat option"

definition observe_restart :: "nat \<Rightarrow> observed \<Rightarrow> observed" where
  "observe_restart now ob = ob\<lparr>ob_clock := now, ob_reply := now, ob_frame := now, ob_slow := 0\<rparr>"

definition tick_pauses :: "int \<Rightarrow> bool \<Rightarrow> health \<Rightarrow> bool" where
  "tick_pauses wall visible h \<longleftrightarrow>
     \<not> hs_stopped h \<and> (\<not> visible \<or> \<not> hs_was_visible h \<or> scheduling_gap wall h)"

definition observe_tick :: "nat \<Rightarrow> int \<Rightarrow> bool \<Rightarrow> health \<Rightarrow> observed \<Rightarrow> observed" where
  "observe_tick now wall visible h ob =
     (if tick_pauses wall visible h then observe_restart now ob else ob\<lparr>ob_clock := now\<rparr>)"

definition frame_advances :: "probe_response \<Rightarrow> health \<Rightarrow> bool" where
  "frame_advances r h \<longleftrightarrow> \<not> (pr_visible r \<and> hs_was_visible h) \<or>
     (\<forall>f \<in> set_option (hs_frame h). fp_frame f \<noteq> pr_frame r)"

definition observe_reply :: "nat \<Rightarrow> nat \<Rightarrow> probe_response option \<Rightarrow> health \<Rightarrow> observed \<Rightarrow> observed" where
  "observe_reply i now response h ob =
     (case (hs_pending h, response) of
        (Some p, Some r) \<Rightarrow>
          if pp_id p = i \<and> pr_version r = 1 then
            ob\<lparr>ob_clock := now, ob_reply := now,
               ob_frame := (if frame_advances r h then now else ob_frame ob),
               ob_slow := (if slow_reply now p r h then ob_slow ob + 1 else 0)\<rparr>
          else ob\<lparr>ob_clock := now\<rparr>
      | _ \<Rightarrow> ob\<lparr>ob_clock := now\<rparr>)"

inductive health_step :: "health \<times> observed \<Rightarrow> health \<times> observed \<Rightarrow> bool" where
  step_tick: "ob_clock ob \<le> now \<Longrightarrow>
     health_step (h, ob) (snd (tick_health now wall visible allowed h), observe_tick now wall visible h ob)"
| step_reply: "ob_clock ob \<le> now \<Longrightarrow>
     health_step (h, ob) (snd (complete_probe i now response owns h), observe_reply i now response h ob)"
| step_navigation: "ob_clock ob \<le> now \<Longrightarrow>
     health_step (h, ob) (navigation now h, observe_restart now ob)"
| step_recovery: "ob_clock ob \<le> now \<Longrightarrow>
     health_step (h, ob) (begin_recovery now h, (observe_restart now ob)\<lparr>ob_recovered := Some now\<rparr>)"
| step_recreation: "ob_clock ob \<le> now \<Longrightarrow>
     health_step (h, ob) (begin_recreation now h, observe_restart now ob)"
| step_forget: "health_step (h, ob) (h\<lparr>hs_recreate_after := None\<rparr>, ob)"
| step_stop: "health_step (h, ob) (h\<lparr>hs_stopped := True\<rparr>, ob)"

inductive_cases health_stepE: "health_step (h, ob) (h', ob')"

definition health_init :: "health \<times> observed \<Rightarrow> bool" where
  "health_init s \<longleftrightarrow> (\<exists>now wall. s = (health_new now wall,
     \<lparr>ob_clock = now, ob_reply = now, ob_frame = now, ob_slow = 0, ob_recovered = None\<rparr>))"

abbreviation health_reach :: "health \<Rightarrow> observed \<Rightarrow> bool" where
  "health_reach h ob \<equiv> reach health_init health_step (h, ob)"

section \<open>The invariant of the clocks\<close>

definition progress_ok :: "nat \<Rightarrow> nat \<Rightarrow> progress \<Rightarrow> bool" where
  "progress_ok lo clock p \<longleftrightarrow>
     lo \<le> pg_since p \<and> pg_since p \<le> clock + grace_period \<and> pg_missed p \<le> 3"

definition health_ok :: "health \<Rightarrow> observed \<Rightarrow> bool" where
  "health_ok h ob \<longleftrightarrow>
     hs_slow h = min (ob_slow ob) consecutive_slow_probes \<and>
     (\<forall>p \<in> set_option (hs_pending h). pp_id p \<le> hs_next_id h \<and> hs_javascript h \<noteq> None) \<and>
     (hs_javascript h = None \<longrightarrow> hs_frame h = None) \<and>
     (\<forall>p \<in> set_option (hs_javascript h). progress_ok (ob_reply ob) (ob_clock ob) p) \<and>
     (\<forall>f \<in> set_option (hs_frame h). progress_ok (ob_frame ob) (ob_clock ob) (fp_progress f)) \<and>
     (hs_recreate_after h \<noteq> None \<longrightarrow> hs_awaiting h) \<and>
     hs_cooldown_until h = map_option (\<lambda>t. t + recovery_cooldown) (ob_recovered ob) \<and>
     hs_next_probe_at h \<le> ob_clock ob + grace_period \<and>
     ob_reply ob \<le> ob_clock ob \<and> ob_frame ob \<le> ob_clock ob"

lemma progress_new_ok: "lo \<le> now \<Longrightarrow> now \<le> clock + grace_period \<Longrightarrow> progress_ok lo clock (progress_new now)"
  by (simp add: progress_ok_def progress_new_def)

lemma missed_check_ok:
  "missed_check now p = (m, p') \<Longrightarrow> progress_ok lo clock p \<Longrightarrow> progress_ok lo clock p'"
  by (auto simp: missed_check_def progress_ok_def Let_def split: if_splits)

lemma missed_check_since: "missed_check now p = (m, p') \<Longrightarrow> pg_since p' = pg_since p"
  by (auto simp: missed_check_def Let_def split: if_splits)

lemma progress_ok_later: "progress_ok lo clock p \<Longrightarrow> clock \<le> clock' \<Longrightarrow> progress_ok lo clock' p"
  by (simp add: progress_ok_def)

lemma health_ok_later: "health_ok h ob \<Longrightarrow> ob_clock ob \<le> now \<Longrightarrow> health_ok h (ob\<lparr>ob_clock := now\<rparr>)"
  by (auto simp: health_ok_def intro: progress_ok_later)

lemma restart_ok:
  assumes "health_ok h ob" and "ob_clock ob \<le> now"
  shows "health_ok (navigation now h) (observe_restart now ob)"
    and "health_ok (pause now h) (observe_restart now ob)"
  using assms
  by (auto simp: health_ok_def navigation_def pause_def observe_restart_def progress_ok_def
      progress_new_def)

lemma send_probe_ok:
  assumes "health_ok h ob"
  shows "health_ok (snd (send_probe (ob_clock ob) h)) ob"
  using assms
  by (auto simp: health_ok_def send_probe_def Let_def intro: progress_new_ok split: option.splits)

lemma update_frame_ok:
  assumes "health_ok h ob" and "hs_frame h = Some f" and "missed_check now (fp_progress f) = (m, p)"
  shows "health_ok (h\<lparr>hs_frame := Some (f\<lparr>fp_progress := p\<rparr>)\<rparr>) ob"
  using assms missed_check_ok[OF assms(3)] by (auto simp: health_ok_def)

lemma check_frame_ok: "health_ok h ob \<Longrightarrow> health_ok (snd (check_frame (ob_clock ob) h)) ob"
  by (auto simp: check_frame_def Let_def send_probe_ok update_frame_ok
      split: option.splits prod.splits)

lemma update_javascript_ok:
  assumes "health_ok h ob" and "hs_javascript h = Some js" and "missed_check now js = (m, p)"
  shows "health_ok (h\<lparr>hs_javascript := Some p\<rparr>) ob"
  using assms missed_check_ok[OF assms(3)] by (auto simp: health_ok_def)

lemma check_javascript_ok: "health_ok h ob \<Longrightarrow> health_ok (snd (check_javascript (ob_clock ob) h)) ob"
  by (auto simp: check_javascript_def Let_def check_frame_ok update_javascript_ok
      split: option.splits prod.splits)

lemma wall_ok: "health_ok (h\<lparr>hs_last_tick_wall := w\<rparr>) ob = health_ok h ob"
    "health_ok (h\<lparr>hs_was_visible := v\<rparr>) ob = health_ok h ob"
    "health_ok (h\<lparr>hs_stopped := st\<rparr>) ob = health_ok h ob"
  by (simp_all add: health_ok_def)

lemma tick_ok:
  assumes "health_ok h ob" and "ob_clock ob \<le> now"
  shows "health_ok (snd (tick_health now wall visible allowed h)) (observe_tick now wall visible h ob)"
proof (cases "tick_pauses wall visible h")
  case True
  then have "snd (tick_health now wall visible allowed h) =
      pause now (h\<lparr>hs_last_tick_wall := wall, hs_was_visible := visible\<rparr>)"
    by (auto simp: tick_health_def tick_pauses_def Let_def)
  then show ?thesis
    using restart_ok(2)[of "h\<lparr>hs_last_tick_wall := wall, hs_was_visible := visible\<rparr>" ob now] assms True
    by (simp add: wall_ok observe_tick_def)
next
  case False
  have ok: "health_ok (h\<lparr>hs_last_tick_wall := wall\<rparr>) (ob\<lparr>ob_clock := now\<rparr>)"
    using health_ok_later[OF assms] by (simp add: wall_ok)
  have "snd (tick_health now wall visible allowed h) \<in> {h\<lparr>hs_last_tick_wall := wall\<rparr>,
      snd (check_javascript now (h\<lparr>hs_last_tick_wall := wall\<rparr>))}"
    using False by (auto simp: tick_health_def tick_pauses_def Let_def split: option.splits)
  then show ?thesis
    using ok check_javascript_ok[OF ok] False by (auto simp: observe_tick_def)
qed

lemma reply_ok:
  assumes "health_ok h ob" and "ob_clock ob \<le> now"
  shows "health_ok (snd (complete_probe i now response owns h)) (observe_reply i now response h ob)"
proof -
  have later: "health_ok h (ob\<lparr>ob_clock := now\<rparr>)" by (rule health_ok_later[OF assms])
  then have idle: "health_ok (h\<lparr>hs_pending := None, hs_next_probe_at := now + poll_interval\<rparr>)
      (ob\<lparr>ob_clock := now\<rparr>)"
    by (auto simp: health_ok_def health_constants)
  show ?thesis
  proof (cases "\<exists>p r. hs_pending h = Some p \<and> pp_id p = i \<and> response = Some r \<and> pr_version r = 1")
    case False
    then show ?thesis
      using later idle
      by (auto simp: complete_probe_def observe_reply_def Let_def split: option.splits)
  next
    case True
    then obtain p r where pr: "hs_pending h = Some p" "pp_id p = i" "response = Some r"
      "pr_version r = 1" by blast
    show ?thesis
      using later assms(2) pr
      by (auto simp: complete_probe_def observe_reply_def Let_def new_frame_def frame_advances_def
          slow_reply_def health_ok_def health_constants progress_ok_def progress_new_def
          split: option.splits)
  qed
qed

lemma begin_ok:
  assumes "health_ok h ob" and "ob_clock ob \<le> now"
  shows "health_ok (begin_recovery now h) ((observe_restart now ob)\<lparr>ob_recovered := Some now\<rparr>)"
    and "health_ok (begin_recreation now h) (observe_restart now ob)"
  using assms
  by (auto simp: health_ok_def begin_recovery_def begin_recreation_def navigation_def
      observe_restart_def)

lemma health_step_ok: "health_ok h ob \<Longrightarrow> health_step (h, ob) (h', ob') \<Longrightarrow> health_ok h' ob'"
  by (erule health_stepE) (simp_all add: tick_ok reply_ok restart_ok begin_ok wall_ok, simp add: health_ok_def)

lemma health_reach_ok: "health_reach h ob \<Longrightarrow> health_ok h ob"
proof -
  assume "health_reach h ob"
  then have "case (h, ob) of (h, ob) \<Rightarrow> health_ok h ob"
  proof (rule reach_invariant)
    show "case s of (h, ob) \<Rightarrow> health_ok h ob" if "health_init s" for s
      using that by (auto simp: health_init_def health_new_def health_ok_def health_constants)
    show "case s' of (h, ob) \<Rightarrow> health_ok h ob"
      if "case s of (h, ob) \<Rightarrow> health_ok h ob" "health_step s s'" for s s'
      using that health_step_ok by (cases s; cases s') auto
  qed
  then show ?thesis by simp
qed

section \<open>Recoveries are justified\<close>

lemma send_probe_no_recovery: "fst (send_probe now h) \<noteq> Some (Recover r)"
  by (simp add: send_probe_def Let_def)

lemma check_frame_no_recovery: "fst (check_frame now h) \<noteq> Some (Recover r)"
  by (simp add: check_frame_def Let_def send_probe_no_recovery split: option.splits prod.splits)

lemma check_javascript_no_recovery: "fst (check_javascript now h) \<noteq> Some (Recover r)"
  by (simp add: check_javascript_def Let_def check_frame_no_recovery split: option.splits prod.splits)

lemma tick_recovers:
  assumes "fst (tick_health now wall visible allowed h) = Some (Recover r)"
  shows "allowed" "\<not> hs_stopped h" "\<not> tick_pauses wall visible h" "cooldown_complete now h"
    "stalled now h = Some r"
proof -
  let ?h = "h\<lparr>hs_last_tick_wall := wall\<rparr>"
  have same: "cooldown_complete now ?h = cooldown_complete now h" "stalled now ?h = stalled now h"
    by (simp_all add: cooldown_complete_def stalled_def pending_is_slow_def)
  have "allowed \<and> \<not> hs_stopped h \<and> \<not> tick_pauses wall visible h \<and> cooldown_complete now ?h \<and>
      stalled now ?h = Some r"
    using assms check_javascript_no_recovery[of now ?h r]
    by (auto simp: tick_health_def tick_pauses_def Let_def split: if_splits option.splits)
  then show "allowed" "\<not> hs_stopped h" "\<not> tick_pauses wall visible h" "cooldown_complete now h"
    "stalled now h = Some r"
    unfolding same by simp_all
qed

definition stall_justified :: "nat \<Rightarrow> health \<Rightarrow> observed \<Rightarrow> stall_reason \<Rightarrow> bool" where
  "stall_justified now h ob r = (case r of
     JavaScript \<Rightarrow> now \<ge> ob_reply ob + recovery_timeout
   | AnimationFrame \<Rightarrow> now \<ge> ob_frame ob + recovery_timeout
   | RepeatedSlowJavaScript \<Rightarrow> ob_slow ob + of_bool (pending_is_slow now h) \<ge> consecutive_slow_probes)"

lemma stalled_justified:
  assumes "health_ok h ob" and "stalled now h = Some r"
  shows "stall_justified now h ob r"
proof (cases r)
  case JavaScript
  then obtain p where "hs_javascript h = Some p" "elapsed p now \<ge> recovery_timeout"
    using assms(2) by (auto simp: stalled_def split: if_splits)
  then show ?thesis
    using assms(1) JavaScript
    by (auto simp: stall_justified_def health_ok_def progress_ok_def elapsed_def health_constants)
next
  case AnimationFrame
  then obtain f where "hs_frame h = Some f" "elapsed (fp_progress f) now \<ge> recovery_timeout"
    using assms(2) by (auto simp: stalled_def split: if_splits)
  then show ?thesis
    using assms(1) AnimationFrame
    by (auto simp: stall_justified_def health_ok_def progress_ok_def elapsed_def health_constants)
next
  case RepeatedSlowJavaScript
  then have "hs_slow h + of_bool (pending_is_slow now h) \<ge> consecutive_slow_probes"
    using assms(2) by (auto simp: stalled_def split: if_splits)
  moreover have "hs_slow h \<le> ob_slow ob" using assms(1) by (simp add: health_ok_def)
  ultimately show ?thesis using RepeatedSlowJavaScript by (simp add: stall_justified_def)
qed

text \<open>The watchdog requests a recovery only of a page that was seen visible on this and the previous
  poll, that the frontend released, at least two minutes after the last recovery began, and that
  showed no valid reply for 45 seconds, no new frame for 45 seconds, or three slow replies in a
  row.\<close>

theorem recovery_justified:
  assumes "health_reach h ob"
    and "fst (tick_health now wall visible allowed h) = Some (Recover r)"
  shows "allowed \<and> visible \<and> hs_was_visible h \<and> \<not> scheduling_gap wall h \<and>
    stall_justified now h ob r \<and>
    (\<forall>t. ob_recovered ob = Some t \<longrightarrow> now \<ge> t + secs 120)"
  using tick_recovers[OF assms(2)] health_reach_ok[OF assms(1)]
    stalled_justified[OF health_reach_ok[OF assms(1)], of now r]
  by (auto simp: tick_pauses_def health_ok_def cooldown_complete_def recovery_cooldown_def)

definition sample_health :: health where
  "sample_health = (health_new 0 0)\<lparr>hs_next_id := 1,
     hs_pending := Some \<lparr>pp_id = 1, pp_started_at = secs 15\<rparr>,
     hs_javascript := Some \<lparr>pg_since = secs 15, pg_missed = 0\<rparr>,
     hs_last_tick_wall := int (secs 15), hs_was_visible := True\<rparr>"

definition sample_observed :: observed where
  "sample_observed = \<lparr>ob_clock = secs 15, ob_reply = 0, ob_frame = 0, ob_slow = 0, ob_recovered = None\<rparr>"

lemma sample_health_reach: "health_reach sample_health sample_observed"
proof -
  let ?ob = "\<lambda>t. \<lparr>ob_clock = t, ob_reply = 0, ob_frame = 0, ob_slow = 0, ob_recovered = None\<rparr>"
  let ?h = "(health_new 0 0)\<lparr>hs_was_visible := True\<rparr>"
  have "health_reach (health_new 0 0) (?ob 0)"
    by (rule reach_init) (auto simp: health_init_def)
  moreover have "health_step (health_new 0 0, ?ob 0) (?h, ?ob 0)"
    using step_tick[of "?ob 0" 0 "health_new 0 0" 0 True True]
    by (simp add: tick_health_def Let_def health_new_def pause_def observe_tick_def
        tick_pauses_def observe_restart_def)
  ultimately have "health_reach ?h (?ob 0)" by (rule reach_step)
  moreover have "health_step (?h, ?ob 0) (sample_health, sample_observed)"
    using step_tick[of "?ob 0" "secs 15" ?h "int (secs 15)" True True]
    by (simp add: tick_health_def Let_def health_new_def observe_tick_def tick_pauses_def
        scheduling_gap_def cooldown_complete_def stalled_def pending_is_slow_def
        check_javascript_def check_frame_def send_probe_def progress_new_def
        sample_health_def sample_observed_def health_constants)
  ultimately show ?thesis by (rule reach_step)
qed

theorem recovery_justified_witness:
  "stall_justified (secs 60) (sample_health\<lparr>hs_last_tick_wall := int (secs 60)\<rparr>) sample_observed JavaScript"
proof -
  let ?tick = "tick_health (secs 30) (int (secs 30)) True True sample_health"
  let ?tock = "\<lambda>h. tick_health (secs 45) (int (secs 45)) True True h"
  let ?h1 = "sample_health\<lparr>hs_last_tick_wall := int (secs 30),
      hs_javascript := Some \<lparr>pg_since = secs 15, pg_missed = 1\<rparr>\<rparr>"
  let ?h2 = "sample_health\<lparr>hs_last_tick_wall := int (secs 45),
      hs_javascript := Some \<lparr>pg_since = secs 15, pg_missed = 2\<rparr>\<rparr>"
  let ?ob = "\<lambda>t. sample_observed\<lparr>ob_clock := t\<rparr>"
  note defs = tick_health_def Let_def health_new_def observe_tick_def tick_pauses_def
    scheduling_gap_def cooldown_complete_def stalled_def pending_is_slow_def
    check_javascript_def missed_check_def elapsed_def as_secs_def sample_health_def
    sample_observed_def health_constants
  have "health_step (sample_health, sample_observed) (?h1, ?ob (secs 30))"
    using step_tick[of sample_observed "secs 30" sample_health "int (secs 30)" True True]
    by (simp add: defs)
  with sample_health_reach have "health_reach ?h1 (?ob (secs 30))" by (rule reach_step)
  moreover have "health_step (?h1, ?ob (secs 30)) (?h2, ?ob (secs 45))"
    using step_tick[of "?ob (secs 30)" "secs 45" ?h1 "int (secs 45)" True True]
    by (simp add: defs)
  ultimately have "health_reach ?h2 (?ob (secs 45))" by (rule reach_step)
  moreover have "fst (tick_health (secs 60) (int (secs 60)) True True ?h2) = Some (Recover JavaScript)"
    by (simp add: defs)
  ultimately have "stall_justified (secs 60) ?h2 (?ob (secs 45)) JavaScript"
    using recovery_justified by blast
  then show ?thesis by (simp add: stall_justified_def)
qed

section \<open>A page that stops to answer is recovered\<close>

text \<open>Polls of a page that stays visible and does not reply: the monotonic clock, the wall clock and
  whether the frontend allows a recovery, at each of them.\<close>

fun polls :: "(nat \<times> int \<times> bool) list \<Rightarrow> health \<Rightarrow> health_action option list" where
  "polls [] h = []"
| "polls ((now, wall, allowed) # ps) h =
     (let (a, h') = tick_health now wall True allowed h in a # polls ps h')"

definition requests :: "health_action option list \<Rightarrow> bool" where
  "requests actions \<longleftrightarrow> Some Recreate \<in> set actions \<or> (\<exists>r. Some (Recover r) \<in> set actions)"

lemma requests_Cons [simp]:
  "requests (a # as) \<longleftrightarrow> a = Some Recreate \<or> (\<exists>r. a = Some (Recover r)) \<or> requests as"
  by (auto simp: requests_def)

text \<open>Polls at most \<open>g\<close> apart, between which the process does not sleep.\<close>

fun steady :: "nat \<Rightarrow> nat \<Rightarrow> int \<Rightarrow> (nat \<times> int \<times> bool) list \<Rightarrow> bool" where
  "steady g now wall [] \<longleftrightarrow> True"
| "steady g now wall ((now', wall', allowed) # ps) \<longleftrightarrow>
     now \<le> now' \<and> now' \<le> now + g \<and> wall \<le> wall' \<and> wall' \<le> wall + int grace_period \<and> steady g now' wall' ps"

lemma send_probe_keeps:
  "send_probe now h = (a, h') \<Longrightarrow> hs_stopped h' = hs_stopped h \<and> hs_was_visible h' = hs_was_visible h \<and>
     hs_cooldown_until h' = hs_cooldown_until h \<and> hs_last_tick_wall h' = hs_last_tick_wall h \<and>
     (hs_javascript h \<noteq> None \<longrightarrow> hs_javascript h' = hs_javascript h)"
  by (auto simp: send_probe_def Let_def split: if_splits option.splits)

lemma check_frame_keeps:
  "check_frame now h = (a, h') \<Longrightarrow> hs_stopped h' = hs_stopped h \<and> hs_was_visible h' = hs_was_visible h \<and>
     hs_cooldown_until h' = hs_cooldown_until h \<and> hs_last_tick_wall h' = hs_last_tick_wall h \<and>
     (hs_javascript h \<noteq> None \<longrightarrow> hs_javascript h' = hs_javascript h)"
  by (auto simp: check_frame_def Let_def dest!: send_probe_keeps split: option.splits prod.splits)

lemma check_javascript_keeps:
  assumes "check_javascript now h = (a, h')" and "hs_javascript h = Some p"
  shows "hs_stopped h' = hs_stopped h \<and> hs_was_visible h' = hs_was_visible h \<and>
     hs_cooldown_until h' = hs_cooldown_until h \<and> hs_last_tick_wall h' = hs_last_tick_wall h \<and>
     (\<exists>p'. hs_javascript h' = Some p' \<and> pg_since p' = pg_since p)"
  using assms
  by (auto simp: check_javascript_def Let_def dest!: check_frame_keeps missed_check_since
      split: option.splits prod.splits)

lemma visible_tick:
  assumes "\<not> hs_stopped h" "hs_was_visible h" "\<not> scheduling_gap wall h"
    and "tick_health now wall True allowed h = (a, h')"
  shows "a = Some Recreate \<or> (\<exists>r. a = Some (Recover r)) \<or>
    (\<not> (allowed \<and> cooldown_complete now h \<and> stalled now h \<noteq> None) \<and>
     check_javascript now (h\<lparr>hs_last_tick_wall := wall\<rparr>) = (a, h'))"
proof -
  let ?h = "h\<lparr>hs_last_tick_wall := wall\<rparr>"
  have same: "cooldown_complete now ?h = cooldown_complete now h" "stalled now ?h = stalled now h"
    by (simp_all add: cooldown_complete_def stalled_def pending_is_slow_def)
  show ?thesis
    using assms unfolding tick_health_def Let_def same
    by (auto split: if_splits option.splits)
qed

text \<open>Without an answer, the clock of the replies runs since a time before \<open>due\<close>, or it will.\<close>

definition clock_runs :: "nat \<Rightarrow> nat \<Rightarrow> nat \<Rightarrow> health \<Rightarrow> bool" where
  "clock_runs g due now h \<longleftrightarrow>
     (case hs_javascript h of
        Some p \<Rightarrow> pg_since p \<le> due
      | None \<Rightarrow> hs_frame h = None \<and> hs_pending h = None \<and> max now (hs_next_probe_at h) + g \<le> due)"

lemma clock_runs_on:
  assumes "clock_runs g due now0 h" "now0 \<le> now" "now \<le> now0 + g"
    and "check_javascript now (h\<lparr>hs_last_tick_wall := wall\<rparr>) = (a, h')"
  shows "clock_runs g due now h' \<and> hs_stopped h' = hs_stopped h \<and> hs_was_visible h' = hs_was_visible h \<and>
    hs_cooldown_until h' = hs_cooldown_until h \<and> hs_last_tick_wall h' = wall"
proof (cases "hs_javascript h")
  case (Some p)
  then show ?thesis
    using check_javascript_keeps[OF assms(4), of p] assms(1) by (auto simp: clock_runs_def)
next
  case None
  then have "send_probe now (h\<lparr>hs_last_tick_wall := wall\<rparr>) = (a, h')"
    using assms(1,4) by (simp add: clock_runs_def check_javascript_def check_frame_def)
  then show ?thesis
    using assms(1-3) None
    by (auto simp: clock_runs_def send_probe_def Let_def progress_new_def split: if_splits)
qed

lemma polls_request:
  assumes "\<not> hs_stopped h" "hs_was_visible h" "clock_runs g due now0 h"
    and "steady g now0 (hs_last_tick_wall h) (ps @ [(now, wall, True)])"
    and "cooldown_complete now h" "due + recovery_timeout \<le> now"
  shows "requests (polls (ps @ [(now, wall, True)]) h)"
  using assms
proof (induction ps arbitrary: h now0)
  case Nil
  have no_gap: "\<not> scheduling_gap wall h" using Nil.prems(4) by (simp add: scheduling_gap_def)
  obtain p where "hs_javascript h = Some p" "pg_since p + recovery_timeout \<le> now"
    using Nil.prems(3,4,6) by (cases "hs_javascript h") (auto simp: clock_runs_def health_constants)
  then have "stalled now h = Some JavaScript" by (simp add: stalled_def elapsed_def)
  then show ?case
    using visible_tick[OF Nil.prems(1,2) no_gap, of now True] Nil.prems(5)
    by (cases "tick_health now wall True True h") auto
next
  case (Cons q ps)
  obtain now1 wall1 allowed where q: "q = (now1, wall1, allowed)" by (cases q)
  obtain a h' where t: "tick_health now1 wall1 True allowed h = (a, h')" by fastforce
  have next_poll: "now0 \<le> now1" "now1 \<le> now0 + g" "\<not> scheduling_gap wall1 h"
    "steady g now1 wall1 (ps @ [(now, wall, True)])"
    using Cons.prems(4) by (simp_all add: q scheduling_gap_def)
  show ?case
  proof (cases "a = Some Recreate \<or> (\<exists>r. a = Some (Recover r))")
    case True
    then show ?thesis by (auto simp: q t)
  next
    case False
    then have "check_javascript now1 (h\<lparr>hs_last_tick_wall := wall1\<rparr>) = (a, h')"
      using visible_tick[OF Cons.prems(1,2) next_poll(3) t] by blast
    note on = clock_runs_on[OF Cons.prems(3) next_poll(1,2) this]
    have "requests (polls (ps @ [(now, wall, True)]) h')"
      using on Cons.prems(1,2,5,6) next_poll(4)
      by (intro Cons.IH[of h' now1]) (simp_all add: cooldown_complete_def)
    then show ?thesis by (simp add: q t)
  qed
qed

text \<open>C36: a page that is seen visible and stops to answer is not left hanging: whatever state the watchdog
  has reached, let it be polled at most \<open>g\<close> apart, without a gap in the wall clock, until a minute and
  \<open>g\<close> later. If the last of these polls allows a recovery and the cooldown is over by then, one of them
  requests a recovery or the recreation. Polls before it that do not allow a recovery only defer it.\<close>

theorem hang_is_recovered:
  assumes "health_reach h ob" and "\<not> hs_stopped h" and "hs_was_visible h"
    and "steady g (ob_clock ob) (hs_last_tick_wall h) (ps @ [(now, wall, True)])"
    and "ob_clock ob + secs 60 + g \<le> now" and "cooldown_complete now h"
  shows "\<exists>a \<in> set (polls (ps @ [(now, wall, True)]) h). a = Some Recreate \<or> (\<exists>r. a = Some (Recover r))"
proof -
  note ok = health_reach_ok[OF assms(1), unfolded health_ok_def]
  have "clock_runs g (ob_clock ob + grace_period + g) (ob_clock ob) h"
    using ok by (cases "hs_javascript h") (auto simp: clock_runs_def progress_ok_def)
  moreover have "ob_clock ob + grace_period + g + recovery_timeout \<le> now"
    using assms(5) by (simp add: health_constants)
  ultimately have "requests (polls (ps @ [(now, wall, True)]) h)"
    using polls_request[OF assms(2,3) _ assms(4,6)] by blast
  then show ?thesis by (auto simp: requests_def)
qed

text \<open>Five seconds apart, with the frontend refusing until the last poll.\<close>

theorem hang_is_recovered_witness:
  "\<exists>a \<in> set (polls (map (\<lambda>k. (secs (15 + 5 * k), int (secs (15 + 5 * k)), False)) [1 ..< 13] @
       [(secs 80, int (secs 80), True)]) sample_health).
     a = Some Recreate \<or> (\<exists>r. a = Some (Recover r))"
  by (rule hang_is_recovered[OF sample_health_reach, where g = "secs 5"])
    (simp_all add: sample_observed_def sample_health_def cooldown_complete_def health_new_def
      health_constants upt_rec)

end
