(* ===== verification/FrontendRecovery.thy ===== *)
theory FrontendRecovery
imports StateMachines
begin

text \<open>
  The checkpoints of the frontend (\<^verbatim>\<open>src/src/application/frontend_recovery.rs\<close>): the draft that a
  document stores before the watchdog may reload it. A JSON value is of an arbitrary type \<open>'j\<close>, with
  \<open>jo_is_null\<close> and the size that \<^verbatim>\<open>serde_json::to_vec\<close> gives it (\<open>None\<close> when it fails). The
  generation that \<^verbatim>\<open>Uuid::new_v4\<close> draws is an argument of \<open>restore\<close>. The mutex is not poisoned: no
  operation panics while it holds the lock.

  The specification is the history of what the documents and the watchdog asked for; the functions
  \<open>owner\<close>, \<open>saved\<close>, \<open>blocked\<close> and \<open>permitted\<close> read the state off it.
\<close>

section \<open>The store\<close>

definition max_checkpoint_bytes :: nat where "max_checkpoint_bytes = 1024 * 1024"

datatype checkpoint_error = TooLarge | Unavailable | StaleDocument

record 'j json_ops =
  jo_is_null :: "'j \<Rightarrow> bool"
  jo_len :: "'j \<Rightarrow> nat option"

record 'j stored_checkpoint =
  sk_checkpoint :: "'j option"
  sk_generation :: "rstr option"
  sk_blocked :: bool
  sk_recreation_permitted :: bool

definition store_default :: "'j stored_checkpoint" where
  "store_default = \<lparr>sk_checkpoint = None, sk_generation = None, sk_blocked = True,
     sk_recreation_permitted = False\<rparr>"

definition submit_checkpoint ::
  "'j json_ops \<Rightarrow> 'j \<Rightarrow> bool \<Rightarrow> rstr \<Rightarrow> 'j stored_checkpoint \<Rightarrow>
   checkpoint_error option \<times> 'j stored_checkpoint" where
  "submit_checkpoint J v blocked_now g s =
     (if sk_generation s \<noteq> Some g then (Some StaleDocument, s)
      else
        (let s = s\<lparr>sk_blocked := True\<rparr> in
         case jo_len J v of
           None \<Rightarrow> (Some Unavailable, s)
         | Some n \<Rightarrow>
             if n > max_checkpoint_bytes then (Some TooLarge, s)
             else (None, s\<lparr>sk_checkpoint := (if jo_is_null J v then None else Some v),
                           sk_blocked := blocked_now\<rparr>)))"

definition restore_document :: "rstr \<Rightarrow> 'j stored_checkpoint \<Rightarrow> 'j option \<times> 'j stored_checkpoint" where
  "restore_document g s =
     (sk_checkpoint s,
      s\<lparr>sk_generation := Some g, sk_blocked := True, sk_recreation_permitted := False\<rparr>)"

definition recovery_allowed :: "'j stored_checkpoint \<Rightarrow> bool" where
  "recovery_allowed s \<longleftrightarrow> \<not> sk_blocked s"

definition frontend_owns_checkpoint :: "'j stored_checkpoint \<Rightarrow> bool" where
  "frontend_owns_checkpoint s \<longleftrightarrow> sk_generation s \<noteq> None"

definition try_begin_recovery :: "'j stored_checkpoint \<Rightarrow> bool \<times> 'j stored_checkpoint" where
  "try_begin_recovery s =
     (if sk_blocked s then (False, s)
      else (True, s\<lparr>sk_blocked := True, sk_generation := None, sk_recreation_permitted := True\<rparr>))"

definition try_begin_recreation :: "'j stored_checkpoint \<Rightarrow> bool \<times> 'j stored_checkpoint" where
  "try_begin_recreation s =
     (if \<not> sk_blocked s \<or> sk_generation s \<noteq> None \<or> \<not> sk_recreation_permitted s then (False, s)
      else (True, s\<lparr>sk_recreation_permitted := False\<rparr>))"

section \<open>The history\<close>

text \<open>Newest first. A submission carries its result, a restored document the draft it was handed.\<close>

datatype 'j event =
  Submitted 'j bool rstr "checkpoint_error option"
| Restored rstr "'j option"
| Reserved
| Reloaded nat
| RecreationReserved
| Recreated

fun owner :: "'j event list \<Rightarrow> rstr option" where
  "owner [] = None"
| "owner (Restored g c # l) = Some g"
| "owner (Reserved # l) = None"
| "owner (e # l) = owner l"

definition draft_of :: "'j json_ops \<Rightarrow> 'j \<Rightarrow> 'j option" where
  "draft_of J v = (if jo_is_null J v then None else Some v)"

fun saved :: "'j json_ops \<Rightarrow> 'j event list \<Rightarrow> 'j option" where
  "saved J [] = None"
| "saved J (Submitted v b g None # l) = draft_of J v"
| "saved J (e # l) = saved J l"

fun blocked :: "'j event list \<Rightarrow> bool" where
  "blocked [] = True"
| "blocked (Submitted v b g None # l) = b"
| "blocked (Submitted v b g (Some e) # l) = (e \<noteq> StaleDocument \<or> blocked l)"
| "blocked (Restored g c # l) = True"
| "blocked (Reserved # l) = True"
| "blocked (e # l) = blocked l"

fun permitted :: "'j event list \<Rightarrow> bool" where
  "permitted [] = False"
| "permitted (Restored g c # l) = False"
| "permitted (Reserved # l) = True"
| "permitted (RecreationReserved # l) = False"
| "permitted (e # l) = permitted l"

definition store_of :: "'j json_ops \<Rightarrow> 'j event list \<Rightarrow> 'j stored_checkpoint" where
  "store_of J l = \<lparr>sk_checkpoint = saved J l, sk_generation = owner l, sk_blocked = blocked l,
     sk_recreation_permitted = permitted l\<rparr>"

text \<open>What a submission is answered, from the history alone.\<close>

definition answer :: "'j json_ops \<Rightarrow> 'j \<Rightarrow> rstr \<Rightarrow> 'j event list \<Rightarrow> checkpoint_error option" where
  "answer J v g l =
     (if owner l \<noteq> Some g then Some StaleDocument
      else case jo_len J v of
        None \<Rightarrow> Some Unavailable
      | Some n \<Rightarrow> if n > max_checkpoint_bytes then Some TooLarge else None)"

text \<open>The store's operations compute what the history says.\<close>

lemma store_of_nil: "store_of J [] = store_default"
  by (simp add: store_of_def store_default_def)

lemma submit_refines:
  "submit_checkpoint J v b g (store_of J l) =
     (answer J v g l, store_of J (Submitted v b g (answer J v g l) # l))"
  by (auto simp: submit_checkpoint_def answer_def store_of_def draft_of_def Let_def split: option.splits)

lemma restore_refines:
  "restore_document g (store_of J l) = (saved J l, store_of J (Restored g (saved J l) # l))"
  by (simp add: restore_document_def store_of_def)

lemma reserve_refines:
  "try_begin_recovery (store_of J l) =
     (\<not> blocked l, if blocked l then store_of J l else store_of J (Reserved # l))"
  by (simp add: try_begin_recovery_def store_of_def)

lemma recreate_refines:
  "try_begin_recreation (store_of J l) =
     (if blocked l \<and> owner l = None \<and> permitted l
      then (True, store_of J (RecreationReserved # l)) else (False, store_of J l))"
  by (simp add: try_begin_recreation_def store_of_def)

lemma watchdog_events [simp]:
  "store_of J (Reloaded t # l) = store_of J l" "store_of J (Recreated # l) = store_of J l"
  by (simp_all add: store_of_def)

section \<open>Histories that happen\<close>

fun event_ok :: "'j json_ops \<Rightarrow> 'j event \<Rightarrow> 'j event list \<Rightarrow> bool" where
  "event_ok J (Submitted v b g r) l \<longleftrightarrow> r = answer J v g l"
| "event_ok J (Restored g c) l \<longleftrightarrow> c = saved J l \<and> (\<forall>c. Restored g c \<notin> set l)"
| "event_ok J Reserved l \<longleftrightarrow> \<not> blocked l"
| "event_ok J RecreationReserved l \<longleftrightarrow> blocked l \<and> owner l = None \<and> permitted l"
| "event_ok J e l \<longleftrightarrow> True"

fun history_ok :: "'j json_ops \<Rightarrow> 'j event list \<Rightarrow> bool" where
  "history_ok J [] \<longleftrightarrow> True"
| "history_ok J (e # l) \<longleftrightarrow> event_ok J e l \<and> history_ok J l"

lemma history_ok_suffix: "history_ok J (l @ l') \<Longrightarrow> history_ok J l'"
  by (induction l) auto

text \<open>Events that leave the newest word of the owning document as it was.\<close>

fun unheard :: "'j event \<Rightarrow> bool" where
  "unheard (Submitted v b g r) \<longleftrightarrow> r = Some StaleDocument"
| "unheard (Reloaded t) \<longleftrightarrow> True"
| "unheard Recreated \<longleftrightarrow> True"
| "unheard RecreationReserved \<longleftrightarrow> True"
| "unheard _ \<longleftrightarrow> False"

text \<open>The newest word of a document was the accepted submission of a draft that does not block.\<close>

definition released :: "'j event list \<Rightarrow> 'j \<Rightarrow> bool" where
  "released l v \<longleftrightarrow> (\<exists>mid g old. l = mid @ Submitted v False g None # old \<and> (\<forall>e \<in> set mid. unheard e))"

lemma released_now: "released (Submitted v False g None # l) v"
  unfolding released_def by (rule exI[of _ "[]"]) simp

lemma released_later: "released l v \<Longrightarrow> unheard e \<Longrightarrow> released (e # l) v"
  unfolding released_def by (metis append_Cons set_ConsD)

lemma unblocked_history: "\<not> blocked l \<Longrightarrow> \<exists>v. released l v \<and> saved J l = draft_of J v"
proof (induction l rule: blocked.induct)
  case (2 v b g l)
  then show ?case using released_now by fastforce
qed (auto, (metis released_later unheard.simps)+)

text \<open>While no document owns the checkpoint nothing changes the saved draft.\<close>

lemma unowned_saved:
  assumes "history_ok J (mid @ Reserved # l)" and "\<forall>g c. Restored g c \<notin> set mid"
  shows "saved J (mid @ Reserved # l) = saved J l \<and> owner (mid @ Reserved # l) = None"
  using assms
proof (induction mid)
  case (Cons e mid)
  then have IH: "saved J (mid @ Reserved # l) = saved J l" "owner (mid @ Reserved # l) = None" by auto
  then show ?case using Cons.prems by (cases e) (auto simp: answer_def)
qed simp

text \<open>A reservation that no document and no recreation has used up.\<close>

definition reservation_open :: "'j event list \<Rightarrow> bool" where
  "reservation_open l \<longleftrightarrow> (\<exists>mid old. l = mid @ Reserved # old \<and> RecreationReserved \<notin> set mid \<and>
     (\<forall>g c. Restored g c \<notin> set mid))"

lemma reservation_open_now: "reservation_open (Reserved # l)"
  unfolding reservation_open_def by (rule exI[of _ "[]"]) simp

lemma reservation_open_later:
  assumes "reservation_open l" and "e \<noteq> RecreationReserved" and "\<forall>g c. e \<noteq> Restored g c"
  shows "reservation_open (e # l)"
proof -
  obtain mid old where "l = mid @ Reserved # old" "RecreationReserved \<notin> set mid"
    "\<forall>g c. Restored g c \<notin> set mid"
    using assms(1) by (auto simp: reservation_open_def)
  then show ?thesis
    unfolding reservation_open_def using assms(2,3) by (intro exI[of _ "e # mid"] exI[of _ old]) auto
qed

lemma permitted_history: "permitted l \<Longrightarrow> reservation_open l"
  by (induction l rule: permitted.induct) (auto intro: reservation_open_now reservation_open_later)

end
