(* ===== verification/RecoverySystem.thy ===== *)
theory RecoverySystem
imports WebviewHealth FrontendRecovery
begin

text \<open>
  The watchdog's poll, the probe callbacks and the documents together
  (\<^verbatim>\<open>poll\<close> of \<^verbatim>\<open>src/src/application/desktop/webview_health.rs\<close> over
  \<^verbatim>\<open>src/src/application/frontend_recovery.rs\<close>). Every step holds one of the two locks once, and the
  steps of the poll, of the callbacks and of the documents interleave freely: \<open>sy_poll\<close> is where the
  poll stands (at most one is scheduled), \<open>sy_callbacks\<close> the callbacks that sampled the ownership of
  the checkpoint and have not yet completed. The history of \<open>FrontendRecovery\<close> is kept along, and a
  generation that \<^verbatim>\<open>Uuid::new_v4\<close> draws is new.

  The theorems: the store is what the history says; a reload never loses a draft; one reservation
  gives at most one recreation, of a document that has not begun to restore; reloads are two minutes
  apart.
\<close>

section \<open>Steps\<close>

datatype poll_state =
  PollIdle
| PollSampled bool
| PollRecover stall_reason
| PollReload
| PollRecreate
| PollForget
| PollRecreating

record 'j sys =
  sy_store :: "'j stored_checkpoint"
  sy_health :: health
  sy_observed :: observed
  sy_poll :: poll_state
  sy_callbacks :: "(nat \<times> probe_response option \<times> bool) list"
  sy_history :: "'j event list"

definition poll_of :: "health_action option \<Rightarrow> poll_state" where
  "poll_of a = (case a of
     Some (Recover r) \<Rightarrow> PollRecover r
   | Some Recreate \<Rightarrow> PollRecreate
   | _ \<Rightarrow> PollIdle)"

inductive sys_step :: "'j json_ops \<Rightarrow> 'j sys \<Rightarrow> 'j sys \<Rightarrow> bool" for J where
  sys_submit: "submit_checkpoint J v b g (sy_store s) = (r, st) \<Longrightarrow>
     sys_step J s (s\<lparr>sy_store := st, sy_history := Submitted v b g r # sy_history s\<rparr>)"
| sys_restore: "\<forall>c. Restored g c \<notin> set (sy_history s) \<Longrightarrow> restore_document g (sy_store s) = (c, st) \<Longrightarrow>
     sys_step J s (s\<lparr>sy_store := st, sy_history := Restored g c # sy_history s\<rparr>)"
| sys_navigation: "ob_clock (sy_observed s) \<le> now \<Longrightarrow>
     sys_step J s (s\<lparr>sy_health := navigation now (sy_health s),
       sy_observed := observe_restart now (sy_observed s)\<rparr>)"
| sys_sample: "sy_poll s = PollIdle \<Longrightarrow>
     sys_step J s (s\<lparr>sy_poll := PollSampled (recovery_allowed (sy_store s))\<rparr>)"
| sys_tick: "sy_poll s = PollSampled allowed \<Longrightarrow> ob_clock (sy_observed s) \<le> now \<Longrightarrow>
     tick_health now wall visible allowed (sy_health s) = (a, h) \<Longrightarrow>
     sys_step J s (s\<lparr>sy_poll := poll_of a, sy_health := h,
       sy_observed := observe_tick now wall visible (sy_health s) (sy_observed s)\<rparr>)"
| sys_reserve: "sy_poll s = PollRecover r \<Longrightarrow> try_begin_recovery (sy_store s) = (True, st) \<Longrightarrow>
     sys_step J s (s\<lparr>sy_poll := PollReload, sy_store := st, sy_history := Reserved # sy_history s\<rparr>)"
| sys_defer: "sy_poll s = PollRecover r \<Longrightarrow> try_begin_recovery (sy_store s) = (False, st) \<Longrightarrow>
     sys_step J s (s\<lparr>sy_poll := PollIdle\<rparr>)"
| sys_reload: "sy_poll s = PollReload \<Longrightarrow> ob_clock (sy_observed s) \<le> now \<Longrightarrow>
     sys_step J s (s\<lparr>sy_poll := PollIdle, sy_health := begin_recovery now (sy_health s),
       sy_observed := (observe_restart now (sy_observed s))\<lparr>ob_recovered := Some now\<rparr>,
       sy_history := Reloaded now # sy_history s\<rparr>)"
| sys_permit: "sy_poll s = PollRecreate \<Longrightarrow> try_begin_recreation (sy_store s) = (True, st) \<Longrightarrow>
     sys_step J s (s\<lparr>sy_poll := PollRecreating, sy_store := st,
       sy_history := RecreationReserved # sy_history s\<rparr>)"
| sys_refuse: "sy_poll s = PollRecreate \<Longrightarrow> try_begin_recreation (sy_store s) = (False, st) \<Longrightarrow>
     sys_step J s (s\<lparr>sy_poll := PollForget\<rparr>)"
| sys_forget: "sy_poll s = PollForget \<Longrightarrow>
     sys_step J s (s\<lparr>sy_poll := PollIdle, sy_health := (sy_health s)\<lparr>hs_recreate_after := None\<rparr>\<rparr>)"
| sys_recreate: "sy_poll s = PollRecreating \<Longrightarrow> ob_clock (sy_observed s) \<le> now \<Longrightarrow>
     sys_step J s (s\<lparr>sy_poll := PollIdle, sy_health := begin_recreation now (sy_health s),
       sy_observed := observe_restart now (sy_observed s), sy_history := Recreated # sy_history s\<rparr>)"
| sys_callback: "sys_step J s
     (s\<lparr>sy_callbacks := (i, response, frontend_owns_checkpoint (sy_store s)) # sy_callbacks s\<rparr>)"
| sys_complete: "(i, response, owns) \<in> set (sy_callbacks s) \<Longrightarrow> ob_clock (sy_observed s) \<le> now \<Longrightarrow>
     complete_probe i now response owns (sy_health s) = (accepted, h) \<Longrightarrow>
     sys_step J s (s\<lparr>sy_callbacks := remove1 (i, response, owns) (sy_callbacks s), sy_health := h,
       sy_observed := observe_reply i now response (sy_health s) (sy_observed s)\<rparr>)"
| sys_gone: "sy_poll s = PollIdle \<Longrightarrow>
     sys_step J s (s\<lparr>sy_health := (sy_health s)\<lparr>hs_stopped := True\<rparr>\<rparr>)"

definition sys_init :: "'j sys \<Rightarrow> bool" where
  "sys_init s \<longleftrightarrow> health_init (sy_health s, sy_observed s) \<and> sy_store s = store_default \<and>
     sy_poll s = PollIdle \<and> sy_callbacks s = [] \<and> sy_history s = []"

abbreviation sys_reach :: "'j json_ops \<Rightarrow> 'j sys \<Rightarrow> bool" where
  "sys_reach J \<equiv> reach sys_init (sys_step J)"

text \<open>\<^verbatim>\<open>poll\<close> as it runs when nothing interleaves.\<close>

definition poll_once :: "nat \<Rightarrow> int \<Rightarrow> bool \<Rightarrow> 'j sys \<Rightarrow> 'j sys" where
  "poll_once now wall visible s =
     (let (a, h) = tick_health now wall visible (recovery_allowed (sy_store s)) (sy_health s);
          s = s\<lparr>sy_poll := PollIdle, sy_health := h,
                sy_observed := observe_tick now wall visible (sy_health s) (sy_observed s)\<rparr>
      in case poll_of a of
        PollRecover r \<Rightarrow>
          (case try_begin_recovery (sy_store s) of
             (True, st) \<Rightarrow> s\<lparr>sy_store := st, sy_health := begin_recovery now h,
               sy_observed := (observe_restart now (sy_observed s))\<lparr>ob_recovered := Some now\<rparr>,
               sy_history := Reloaded now # Reserved # sy_history s\<rparr>
           | (False, _) \<Rightarrow> s)
      | PollRecreate \<Rightarrow>
          (case try_begin_recreation (sy_store s) of
             (True, st) \<Rightarrow> s\<lparr>sy_store := st, sy_health := begin_recreation now h,
               sy_observed := observe_restart now (sy_observed s),
               sy_history := Recreated # RecreationReserved # sy_history s\<rparr>
           | (False, _) \<Rightarrow> s\<lparr>sy_health := h\<lparr>hs_recreate_after := None\<rparr>\<rparr>)
      | _ \<Rightarrow> s)"

lemma poll_of_cases:
  "poll_of a = PollIdle \<or> (\<exists>r. poll_of a = PollRecover r) \<or> poll_of a = PollRecreate"
  by (simp add: poll_of_def split: option.splits health_action.splits)

lemma observe_clock [simp]:
  "ob_clock (observe_tick now wall v h ob) = now"
  "ob_clock (observe_reply i now r h ob) = now"
  "ob_clock (observe_restart now ob) = now"
  by (auto simp: observe_tick_def observe_reply_def observe_restart_def split: option.splits)

lemma poll_once_reach:
  assumes "sys_reach J s" and "sy_poll s = PollIdle" and "ob_clock (sy_observed s) \<le> now"
  shows "sys_reach J (poll_once now wall visible s) \<and> sy_poll (poll_once now wall visible s) = PollIdle"
proof -
  obtain a h where t: "tick_health now wall visible (recovery_allowed (sy_store s)) (sy_health s) = (a, h)"
    by fastforce
  let ?ob = "observe_tick now wall visible (sy_health s) (sy_observed s)"
  let ?s0 = "s\<lparr>sy_poll := PollSampled (recovery_allowed (sy_store s))\<rparr>"
  let ?s1 = "s\<lparr>sy_poll := poll_of a, sy_health := h, sy_observed := ?ob\<rparr>"
  have "sys_reach J ?s0" using assms(1) by (rule reach_step) (rule sys_sample[OF assms(2)])
  moreover have "sys_step J ?s0 ?s1"
    using sys_tick[of ?s0 "recovery_allowed (sy_store s)" now wall visible a h J] assms(3) t by simp
  ultimately have r1: "sys_reach J ?s1" by (rule reach_step)
  have unfold: "poll_once now wall visible s =
     (case poll_of a of
        PollRecover r \<Rightarrow>
          (case try_begin_recovery (sy_store s) of
             (True, st) \<Rightarrow> s\<lparr>sy_poll := PollIdle, sy_store := st, sy_health := begin_recovery now h,
               sy_observed := (observe_restart now ?ob)\<lparr>ob_recovered := Some now\<rparr>,
               sy_history := Reloaded now # Reserved # sy_history s\<rparr>
           | (False, _) \<Rightarrow> s\<lparr>sy_poll := PollIdle, sy_health := h, sy_observed := ?ob\<rparr>)
      | PollRecreate \<Rightarrow>
          (case try_begin_recreation (sy_store s) of
             (True, st) \<Rightarrow> s\<lparr>sy_poll := PollIdle, sy_store := st, sy_health := begin_recreation now h,
               sy_observed := observe_restart now ?ob,
               sy_history := Recreated # RecreationReserved # sy_history s\<rparr>
           | (False, _) \<Rightarrow> s\<lparr>sy_poll := PollIdle, sy_health := h\<lparr>hs_recreate_after := None\<rparr>, sy_observed := ?ob\<rparr>)
      | _ \<Rightarrow> s\<lparr>sy_poll := PollIdle, sy_health := h, sy_observed := ?ob\<rparr>)"
    unfolding poll_once_def t Let_def by (simp split: poll_state.splits prod.splits bool.splits)
  have idle_after: "sy_poll (poll_once now wall visible s) = PollIdle"
    unfolding unfold by (auto split: poll_state.splits prod.splits bool.splits)
  consider (idle) "poll_of a = PollIdle" | (recover) r where "poll_of a = PollRecover r"
    | (recreate) "poll_of a = PollRecreate" using poll_of_cases by blast
  then show ?thesis
  proof cases
    case idle
    then show ?thesis using r1 assms(2) unfold by simp
  next
    case (recover r)
    obtain ok st where b: "try_begin_recovery (sy_store s) = (ok, st)" by fastforce
    show ?thesis
    proof (cases ok)
      case True
      let ?s2 = "?s1\<lparr>sy_poll := PollReload, sy_store := st, sy_history := Reserved # sy_history s\<rparr>"
      have r2: "sys_reach J ?s2"
        using reach_step[OF r1] sys_reserve[of ?s1 r st J] recover b True by simp
      let ?s3 = "?s2\<lparr>sy_poll := PollIdle, sy_health := begin_recovery now h,
          sy_observed := (observe_restart now ?ob)\<lparr>ob_recovered := Some now\<rparr>,
          sy_history := Reloaded now # sy_history ?s2\<rparr>"
      have "sys_reach J ?s3" using reach_step[OF r2] sys_reload[of ?s2 now J] by simp
      moreover have "?s3 = poll_once now wall visible s"
        unfolding unfold by (rule sys.equality) (simp_all add: recover b True)
      ultimately show ?thesis using idle_after by simp
    next
      case False
      let ?s3 = "?s1\<lparr>sy_poll := PollIdle\<rparr>"
      have "sys_reach J ?s3" using reach_step[OF r1] sys_defer[of ?s1 r st J] recover b False by simp
      moreover have "?s3 = poll_once now wall visible s"
        unfolding unfold by (rule sys.equality) (simp_all add: recover b False)
      ultimately show ?thesis using idle_after by simp
    qed
  next
    case recreate
    obtain ok st where b: "try_begin_recreation (sy_store s) = (ok, st)" by fastforce
    show ?thesis
    proof (cases ok)
      case True
      let ?s2 = "?s1\<lparr>sy_poll := PollRecreating, sy_store := st,
          sy_history := RecreationReserved # sy_history s\<rparr>"
      have r2: "sys_reach J ?s2"
        using reach_step[OF r1] sys_permit[of ?s1 st J] recreate b True by simp
      let ?s3 = "?s2\<lparr>sy_poll := PollIdle, sy_health := begin_recreation now h,
          sy_observed := observe_restart now ?ob, sy_history := Recreated # sy_history ?s2\<rparr>"
      have "sys_reach J ?s3" using reach_step[OF r2] sys_recreate[of ?s2 now J] by simp
      moreover have "?s3 = poll_once now wall visible s"
        unfolding unfold by (rule sys.equality) (simp_all add: recreate b True)
      ultimately show ?thesis using idle_after by simp
    next
      case False
      let ?s2 = "?s1\<lparr>sy_poll := PollForget\<rparr>"
      have r2: "sys_reach J ?s2"
        using reach_step[OF r1] sys_refuse[of ?s1 st J] recreate b False by simp
      let ?s3 = "?s2\<lparr>sy_poll := PollIdle, sy_health := h\<lparr>hs_recreate_after := None\<rparr>\<rparr>"
      have "sys_reach J ?s3" using reach_step[OF r2] sys_forget[of ?s2 J] by simp
      moreover have "?s3 = poll_once now wall visible s"
        unfolding unfold by (rule sys.equality) (simp_all add: recreate b False)
      ultimately show ?thesis using idle_after by simp
    qed
  qed
qed

text \<open>A document's requests, and a concrete run: a document restores, releases its draft and stops to
  answer; the watchdog reloads it a minute later.\<close>

definition document_restores :: "rstr \<Rightarrow> 'j sys \<Rightarrow> 'j sys" where
  "document_restores g s =
     (let (c, st) = restore_document g (sy_store s)
      in s\<lparr>sy_store := st, sy_history := Restored g c # sy_history s\<rparr>)"

definition document_submits :: "'j json_ops \<Rightarrow> 'j \<Rightarrow> bool \<Rightarrow> rstr \<Rightarrow> 'j sys \<Rightarrow> 'j sys" where
  "document_submits J v b g s =
     (let (r, st) = submit_checkpoint J v b g (sy_store s)
      in s\<lparr>sy_store := st, sy_history := Submitted v b g r # sy_history s\<rparr>)"

lemma document_restores_reach:
  "sys_reach J s \<Longrightarrow> \<forall>c. Restored g c \<notin> set (sy_history s) \<Longrightarrow> sys_reach J (document_restores g s)"
  unfolding document_restores_def Let_def
  by (auto split: prod.splits intro: reach_step sys_restore)

lemma document_submits_reach: "sys_reach J s \<Longrightarrow> sys_reach J (document_submits J v b g s)"
  unfolding document_submits_def Let_def
  by (auto split: prod.splits intro: reach_step sys_submit)

fun poll_seconds :: "nat list \<Rightarrow> 'j sys \<Rightarrow> 'j sys" where
  "poll_seconds [] s = s"
| "poll_seconds (t # ts) s = poll_seconds ts (poll_once (secs t) (int (secs t)) True s)"

lemma poll_once_observes:
  "sy_poll s = PollIdle \<Longrightarrow> ob_clock (sy_observed (poll_once now wall v s)) = now"
  by (auto simp: poll_once_def Let_def split: prod.splits poll_state.splits bool.splits)

lemma poll_seconds_reach:
  "sys_reach J s \<Longrightarrow> sy_poll s = PollIdle \<Longrightarrow> sorted ts \<Longrightarrow>
   \<forall>t \<in> set ts. ob_clock (sy_observed s) \<le> secs t \<Longrightarrow>
   sys_reach J (poll_seconds ts s) \<and> sy_poll (poll_seconds ts s) = PollIdle"
proof (induction ts arbitrary: s)
  case (Cons t ts)
  have "sys_reach J (poll_once (secs t) (int (secs t)) True s)"
    "sy_poll (poll_once (secs t) (int (secs t)) True s) = PollIdle"
    using poll_once_reach[OF Cons.prems(1,2), of "secs t"] Cons.prems(4) by simp_all
  then show ?case
    using Cons.IH[of "poll_once (secs t) (int (secs t)) True s"] Cons.prems(2,3)
    by (simp add: poll_once_observes)
qed simp

definition sample_json :: "nat json_ops" where
  "sample_json = \<lparr>jo_is_null = (\<lambda>v. v = 0), jo_len = Some\<rparr>"

definition sample_start :: "nat sys" where
  "sample_start = \<lparr>sy_store = store_default, sy_health = health_new 0 0,
     sy_observed = \<lparr>ob_clock = 0, ob_reply = 0, ob_frame = 0, ob_slow = 0, ob_recovered = None\<rparr>,
     sy_poll = PollIdle, sy_callbacks = [], sy_history = []\<rparr>"

definition sample_released :: "nat sys" where
  "sample_released =
     document_submits sample_json 7 False (str ''a'') (document_restores (str ''a'') sample_start)"

definition sample_hung :: "nat sys" where
  "sample_hung = poll_seconds [0, 15, 30, 45, 60] sample_released"

lemma sample_released_reach: "sys_reach sample_json sample_released"
  unfolding sample_released_def
proof (intro document_submits_reach document_restores_reach)
  show "sys_reach sample_json sample_start"
    by (rule reach_init) (auto simp: sys_init_def sample_start_def health_init_def)
qed (simp add: sample_start_def)

lemma sample_released_idle: "sy_poll sample_released = PollIdle" "ob_clock (sy_observed sample_released) = 0"
  by (simp_all add: sample_released_def document_submits_def document_restores_def sample_start_def
      Let_def split: prod.splits)

lemma sample_hung_reach: "sys_reach sample_json sample_hung" "sy_poll sample_hung = PollIdle"
  unfolding sample_hung_def
  using poll_seconds_reach[OF sample_released_reach sample_released_idle(1), of "[0, 15, 30, 45, 60]"]
    sample_released_idle(2) by simp_all

lemma sample_hung_history:
  "sy_history sample_hung = [Reloaded (secs 60), Reserved, Submitted 7 False (str ''a'') None,
     Restored (str ''a'') None]"
  by code_simp

section \<open>The store refines the history\<close>

definition store_ok :: "'j json_ops \<Rightarrow> 'j sys \<Rightarrow> bool" where
  "store_ok J s \<longleftrightarrow> sy_store s = store_of J (sy_history s) \<and> history_ok J (sy_history s)"

lemma store_ok_step: "store_ok J s \<Longrightarrow> sys_step J s s' \<Longrightarrow> store_ok J s'"
  by (erule sys_step.cases)
    (auto simp: store_ok_def submit_refines restore_refines reserve_refines recreate_refines
      split: if_splits)

lemma sys_reach_store: "sys_reach J s \<Longrightarrow> store_ok J s"
proof (erule reach_invariant)
  show "sys_init s \<Longrightarrow> store_ok J s" for s :: "'a sys"
    by (simp add: sys_init_def store_ok_def store_of_nil)
qed (rule store_ok_step)

text \<open>C34: whatever the interleaving, the store is what the history of the documents' and the watchdog's
  requests says: who owns the checkpoint, which draft is kept, whether a recovery is blocked and
  whether a recreation is permitted; and every document was handed the draft kept at that time.\<close>

theorem store_refines_history:
  assumes "sys_reach J s"
  shows "sy_store s = store_of J (sy_history s) \<and> history_ok J (sy_history s)"
  using sys_reach_store[OF assms] by (simp add: store_ok_def)

theorem store_refines_history_witness:
  "sy_store sample_hung = store_of sample_json (sy_history sample_hung) \<and>
   history_ok sample_json (sy_history sample_hung)"
  by (rule store_refines_history[OF sample_hung_reach(1)])

section \<open>A reload loses no draft\<close>

text \<open>C35: no draft is lost by a reload: the document that restores after a reservation is handed exactly
  the draft of the newest submission before it that was heard, and that submission declared its
  state safe to reload; submissions of the replaced document that arrive in between change
  nothing.\<close>

theorem reload_keeps_draft:
  assumes "sys_reach J s"
    and "sy_history s = later @ Restored g c # mid @ Reserved # old"
    and "\<forall>g c. Restored g c \<notin> set mid"
  shows "\<exists>v. released old v \<and> c = draft_of J v"
proof -
  have ok: "history_ok J (Restored g c # mid @ Reserved # old)"
    using sys_reach_store[OF assms(1)] assms(2)
      history_ok_suffix[of J later "Restored g c # mid @ Reserved # old"]
    by (simp add: store_ok_def)
  then have "c = saved J old"
    using unowned_saved[of J mid old] assms(3) by simp
  moreover have "\<not> blocked old"
    using ok history_ok_suffix[of J mid "Reserved # old"] by simp
  ultimately show ?thesis using unblocked_history[of old J] by blast
qed

theorem reload_keeps_draft_witness:
  "\<exists>v. released [Submitted 7 False (str ''a'') None, Restored (str ''a'') None] v \<and>
     Some 7 = draft_of sample_json v"
proof (rule reload_keeps_draft)
  let ?s = "document_restores (str ''b'') sample_hung"
  show "sys_reach sample_json ?s"
    using sample_hung_reach(1) by (rule document_restores_reach) (simp add: sample_hung_history)
  have "sk_checkpoint (sy_store sample_hung) = Some 7" by code_simp
  then show "sy_history ?s = [] @ Restored (str ''b'') (Some 7) # [Reloaded (secs 60)] @
      Reserved # [Submitted 7 False (str ''a'') None, Restored (str ''a'') None]"
    by (simp add: document_restores_def restore_document_def sample_hung_history)
qed simp

text \<open>One reservation gives at most one recreation: a recreation is permitted only when the newest
  reservation was neither used up by another recreation nor answered by a document that restores.\<close>

theorem recreation_once:
  assumes "sys_reach J s" and "sy_history s = later @ RecreationReserved # old"
  shows "reservation_open old"
proof -
  have "history_ok J (RecreationReserved # old)"
    using sys_reach_store[OF assms(1)] assms(2)
      history_ok_suffix[of J later "RecreationReserved # old"]
    by (simp add: store_ok_def)
  then show ?thesis by (simp add: permitted_history)
qed

definition sample_recreated :: "nat sys" where
  "sample_recreated = poll_seconds [75, 90, 105, 120] sample_hung"

theorem recreation_once_witness:
  "reservation_open [Reloaded (secs 60), Reserved, Submitted (7::nat) False (str ''a'') None,
     Restored (str ''a'') None]"
proof (rule recreation_once)
  have "ob_clock (sy_observed sample_hung) = secs 60" by code_simp
  then show "sys_reach sample_json sample_recreated"
    using poll_seconds_reach[OF sample_hung_reach, of "[75, 90, 105, 120]"]
    by (simp add: sample_recreated_def)
  show "sy_history sample_recreated = [Recreated] @ RecreationReserved # [Reloaded (secs 60), Reserved,
      Submitted 7 False (str ''a'') None, Restored (str ''a'') None]"
    by code_simp
qed

section \<open>Reloads are apart\<close>

fun last_reload :: "'j event list \<Rightarrow> nat option" where
  "last_reload [] = None"
| "last_reload (Reloaded t # l) = Some t"
| "last_reload (e # l) = last_reload l"

definition cooled :: "'j sys \<Rightarrow> bool" where
  "cooled s \<longleftrightarrow> (\<forall>t \<in> set_option (ob_recovered (sy_observed s)).
     t + recovery_cooldown \<le> ob_clock (sy_observed s))"

fun reloads_spaced :: "'j event list \<Rightarrow> bool" where
  "reloads_spaced [] \<longleftrightarrow> True"
| "reloads_spaced (Reloaded t # l) \<longleftrightarrow>
     (\<forall>t' \<in> set_option (last_reload l). t' + recovery_cooldown \<le> t) \<and> reloads_spaced l"
| "reloads_spaced (e # l) \<longleftrightarrow> reloads_spaced l"

definition clocks_ok :: "'j sys \<Rightarrow> bool" where
  "clocks_ok s \<longleftrightarrow> health_ok (sy_health s) (sy_observed s) \<and>
     ob_recovered (sy_observed s) = last_reload (sy_history s) \<and> reloads_spaced (sy_history s) \<and>
     (sy_poll s = PollReload \<or> (\<exists>r. sy_poll s = PollRecover r) \<longrightarrow> cooled s)"

lemma observe_recovered [simp]:
  "ob_recovered (observe_tick now wall v h ob) = ob_recovered ob"
  "ob_recovered (observe_reply i now r h ob) = ob_recovered ob"
  "ob_recovered (observe_restart now ob) = ob_recovered ob"
  by (auto simp: observe_tick_def observe_reply_def observe_restart_def split: option.splits)

lemma forget_ok: "health_ok h ob \<Longrightarrow> health_ok (h\<lparr>hs_recreate_after := None\<rparr>) ob"
  by (simp add: health_ok_def)

lemma tick_cooled:
  assumes "health_ok h ob" and "tick_health now wall v allowed h = (a, h')"
    and "poll_of a = PollRecover r"
  shows "\<forall>t \<in> set_option (ob_recovered ob). t + recovery_cooldown \<le> now"
proof -
  have "fst (tick_health now wall v allowed h) = Some (Recover r)"
    using assms(2,3) by (auto simp: poll_of_def split: option.splits health_action.splits)
  then have "cooldown_complete now h" by (rule tick_recovers)
  then show ?thesis using assms(1) by (auto simp: cooldown_complete_def health_ok_def)
qed

lemma poll_of_not_reload [simp]: "poll_of a \<noteq> PollReload"
  by (simp add: poll_of_def split: option.splits health_action.splits)

lemma clocks_ok_step:
  assumes "clocks_ok s" and "sys_step J s s'"
  shows "clocks_ok s'"
  using assms(2)
proof cases
  case (sys_tick allowed now wall visible a h)
  have "health_ok h (observe_tick now wall visible (sy_health s) (sy_observed s))"
    using tick_ok[of "sy_health s" "sy_observed s" now wall visible allowed] assms(1) sys_tick
    by (simp add: clocks_ok_def)
  then show ?thesis
    using tick_cooled[of "sy_health s" "sy_observed s" now wall visible allowed a h] assms(1) sys_tick
    by (auto simp: clocks_ok_def cooled_def)
next
  case (sys_complete i response owns now accepted h)
  have "health_ok h (observe_reply i now response (sy_health s) (sy_observed s))"
    using reply_ok[of "sy_health s" "sy_observed s" now i response owns] assms(1) sys_complete
    by (simp add: clocks_ok_def)
  then show ?thesis
    using assms(1) sys_complete by (fastforce simp: clocks_ok_def cooled_def)
next
  case (sys_reload now)
  then show ?thesis
    using assms(1) begin_ok(1)[of "sy_health s" "sy_observed s" now]
    by (fastforce simp: clocks_ok_def cooled_def)
next
  case (sys_navigation now)
  then show ?thesis
    using assms(1) restart_ok(1)[of "sy_health s" "sy_observed s" now]
    by (fastforce simp: clocks_ok_def cooled_def)
next
  case (sys_recreate now)
  then show ?thesis
    using assms(1) begin_ok(2)[of "sy_health s" "sy_observed s" now]
    by (simp add: clocks_ok_def)
qed (use assms(1) in \<open>auto simp: clocks_ok_def cooled_def forget_ok wall_ok\<close>)

lemma sys_reach_clocks: "sys_reach J s \<Longrightarrow> clocks_ok s"
proof (erule reach_invariant)
  fix s :: "'a sys"
  assume init: "sys_init s"
  then have "health_reach (sy_health s) (sy_observed s)"
    by (intro reach_init) (simp add: sys_init_def)
  then show "clocks_ok s"
    using init health_reach_ok by (auto simp: clocks_ok_def sys_init_def health_init_def)
qed (rule clocks_ok_step)

lemma spaced_suffix: "reloads_spaced (l @ l') \<Longrightarrow> reloads_spaced l'"
  by (induction l rule: reloads_spaced.induct) auto

lemma spaced_before:
  "reloads_spaced (Reloaded t2 # mid @ Reloaded t1 # old) \<Longrightarrow> t1 + recovery_cooldown \<le> t2"
proof (induction "mid" arbitrary: t2)
  case (Cons e mid)
  then show ?case by (cases e) (fastforce+)
qed simp

text \<open>C37: the native reloads that the watchdog issues are at least two minutes apart, whatever the
  documents and the callbacks do in between.\<close>

theorem reloads_apart:
  assumes "sys_reach J s" and "sy_history s = later @ Reloaded t2 # mid @ Reloaded t1 # old"
  shows "t1 + secs 120 \<le> t2"
proof -
  have "reloads_spaced (Reloaded t2 # mid @ Reloaded t1 # old)"
    using sys_reach_clocks[OF assms(1)] assms(2) spaced_suffix
    by (fastforce simp: clocks_ok_def)
  then show ?thesis using spaced_before by (fastforce simp: recovery_cooldown_def)
qed

definition sample_resumed :: "nat sys" where
  "sample_resumed =
     document_submits sample_json 8 False (str ''b'') (document_restores (str ''b'') sample_hung)"

definition sample_twice :: "nat sys" where
  "sample_twice = poll_seconds [75, 90, 105, 120, 135, 150, 165, 180] sample_resumed"

theorem reloads_apart_witness: "secs 60 + secs 120 \<le> secs 180"
proof (rule reloads_apart)
  have "sys_reach sample_json sample_resumed"
    unfolding sample_resumed_def
    by (intro document_submits_reach document_restores_reach)
      (simp_all add: sample_hung_reach sample_hung_history)
  moreover have "sy_poll sample_resumed = PollIdle" "ob_clock (sy_observed sample_resumed) = secs 60"
    by code_simp+
  ultimately show "sys_reach sample_json sample_twice"
    using poll_seconds_reach[of sample_json sample_resumed "[75, 90, 105, 120, 135, 150, 165, 180]"]
    by (simp add: sample_twice_def)
  show "sy_history sample_twice = [] @ Reloaded (secs 180) # [Reserved, Submitted 8 False (str ''b'') None,
      Restored (str ''b'') (Some 7)] @ Reloaded (secs 60) # [Reserved,
      Submitted 7 False (str ''a'') None, Restored (str ''a'') None]"
    by code_simp
qed

end
