(* ===== verification/ServerSlots.thy ===== *)
theory ServerSlots
imports StateMachines "HOL-Library.Word"
begin

unbundle bit_operations_syntax

text \<open>
  What the reconnect budget and the retry budget share: the FNV-1a hash that spreads their delays,
  and the contract of a table of next free slots per server. A client asks for a slot not before a
  requested time and waits until it; the locale proves once that the slots granted to one server are
  a gap apart, from what a reservation promises. Callers read the clock before they lock the table, so
  the readings may be out of order, by no more than a slack that the delays exceed.
\<close>

section \<open>The hash\<close>

definition utf8 :: "rchar \<Rightarrow> nat list" where
  "utf8 c =
     (if c < 0x80 then [c]
      else if c < 0x800 then [0xC0 + c div 64, 0x80 + c mod 64]
      else if c < 0x10000 then [0xE0 + c div 4096, 0x80 + c div 64 mod 64, 0x80 + c mod 64]
      else [0xF0 + c div 262144, 0x80 + c div 4096 mod 64, 0x80 + c div 64 mod 64, 0x80 + c mod 64])"

definition bytes :: "rstr \<Rightarrow> nat list" where
  "bytes s = concat (map utf8 s)"

lemma length_utf8: "length (utf8 c) = len_utf8 c"
  by (simp add: utf8_def len_utf8_def)

lemma length_bytes: "length (bytes s) = byte_len s"
  by (induction s) (simp_all add: bytes_def length_utf8)

definition fnv1a :: "64 word \<Rightarrow> nat list \<Rightarrow> 64 word" where
  "fnv1a seed bs = foldl (\<lambda>h b. (h XOR of_nat b) * 0x100000001b3) (0xcbf29ce484222325 XOR seed) bs"

section \<open>Runs of reservations\<close>

text \<open>A request: the server, the time of the call and the delay that is asked for. A reservation
  returns how long to wait.\<close>

type_synonym slot_request = "rstr \<times> nat \<times> nat"

fun grants :: "(rstr \<Rightarrow> nat \<Rightarrow> nat \<Rightarrow> 's \<Rightarrow> nat \<times> 's) \<Rightarrow> 's \<Rightarrow> slot_request list \<Rightarrow> (rstr \<times> nat) list" where
  "grants reserve st [] = []"
| "grants reserve st ((k, now, d) # rs) =
     (let (w, st') = reserve k now d st in (k, now + w) # grants reserve st' rs)"

fun spaced :: "nat \<Rightarrow> (rstr \<times> nat) list \<Rightarrow> bool" where
  "spaced gap [] \<longleftrightarrow> True"
| "spaced gap ((k, t) # gs) \<longleftrightarrow> (\<forall>t'. (k, t') \<in> set gs \<longrightarrow> t + gap \<le> t') \<and> spaced gap gs"

definition in_time_order :: "slot_request list \<Rightarrow> bool" where
  "in_time_order rs \<longleftrightarrow> sorted (map (\<lambda>(k, now, d). now) rs)"

text \<open>No reading of the clock is further than \<open>slack\<close> behind an earlier one.\<close>

definition nearly_in_order :: "nat \<Rightarrow> slot_request list \<Rightarrow> bool" where
  "nearly_in_order slack rs \<longleftrightarrow> sorted_wrt (\<lambda>(_, now, _) (_, now', _). now \<le> now' + slack) rs"

definition servers_of :: "slot_request list \<Rightarrow> rstr set" where
  "servers_of rs = fst ` set rs"

locale server_slots =
  fixes reserve :: "rstr \<Rightarrow> nat \<Rightarrow> nat \<Rightarrow> 's \<Rightarrow> nat \<times> 's"
    and next_slot :: "'s \<Rightarrow> rstr \<Rightarrow> nat option"
    and gap :: nat
    and ok :: "'s \<Rightarrow> bool"
    and served :: "rstr set"
  assumes ok_reserve: "ok st \<Longrightarrow> k \<in> served \<Longrightarrow> reserve k now d st = (w, st') \<Longrightarrow> ok st'"
    and behind: "ok st \<Longrightarrow> k \<in> served \<Longrightarrow> reserve k now d st = (w, st') \<Longrightarrow>
      next_slot st k = Some n \<Longrightarrow> n \<le> now + w"
    and books: "ok st \<Longrightarrow> k \<in> served \<Longrightarrow> reserve k now d st = (w, st') \<Longrightarrow>
      next_slot st' k = Some (now + w + gap)"
    and keeps: "ok st \<Longrightarrow> k \<in> served \<Longrightarrow> reserve k now d st = (w, st') \<Longrightarrow> k' \<noteq> k \<Longrightarrow>
      next_slot st k' = Some n \<Longrightarrow> now < n \<Longrightarrow> next_slot st' k' = Some n"
begin

lemma grants_after_now:
  assumes "ok st" and "servers_of rs \<subseteq> served" and "\<forall>(k, now, d) \<in> set rs. lo \<le> now"
    and "(k, t) \<in> set (grants reserve st rs)"
  shows "lo \<le> t"
  using assms
proof (induction rs arbitrary: st)
  case (Cons r rs)
  obtain k1 now d w st' where r: "r = (k1, now, d)" "reserve k1 now d st = (w, st')"
    by (metis prod_cases3 surj_pair)
  then show ?case
    using Cons.IH[of st'] Cons.prems ok_reserve[OF Cons.prems(1) _ r(2)]
    by (auto simp: servers_of_def)
qed simp

lemma grants_behind:
  assumes "ok st" and "servers_of rs \<subseteq> served" and "in_time_order rs" and "next_slot st k = Some n"
    and "(k, t) \<in> set (grants reserve st rs)"
  shows "n \<le> t"
  using assms
proof (induction rs arbitrary: st n)
  case (Cons r rs)
  obtain k1 now d w st' where r: "r = (k1, now, d)" "reserve k1 now d st = (w, st')"
    by (metis prod_cases3 surj_pair)
  have k1: "k1 \<in> served" and rest: "servers_of rs \<subseteq> served" "in_time_order rs"
    using Cons.prems(2,3) r(1) by (auto simp: servers_of_def in_time_order_def)
  have ok': "ok st'" by (rule ok_reserve[OF Cons.prems(1) k1 r(2)])
  have later: "\<forall>(k, now', d) \<in> set rs. now \<le> now'"
    using Cons.prems(3) r(1) by (auto simp: in_time_order_def)
  have split: "(k, t) = (k1, now + w) \<or> (k, t) \<in> set (grants reserve st' rs)"
    using Cons.prems(5) r by simp
  show ?case
  proof (cases "k1 = k")
    case True
    have "n \<le> now + w" using behind[OF Cons.prems(1) k1 r(2)] Cons.prems(4) True by simp
    then show ?thesis
      using split Cons.IH[OF ok' rest, of "now + w + gap"] books[OF Cons.prems(1) k1 r(2)] True
      by fastforce
  next
    case False
    then have tail: "(k, t) \<in> set (grants reserve st' rs)" using split by simp
    show ?thesis
    proof (cases "now < n")
      case True
      then show ?thesis
        using Cons.IH[OF ok' rest _ tail] keeps[OF Cons.prems(1) k1 r(2) _ Cons.prems(4) True] False
        by simp
    next
      case early: False
      then show ?thesis using grants_after_now[OF ok' rest(1) later tail] by simp
    qed
  qed
qed simp

lemma grants_spaced:
  assumes "ok st" and "servers_of rs \<subseteq> served" and "in_time_order rs"
  shows "spaced gap (grants reserve st rs)"
  using assms
proof (induction rs arbitrary: st)
  case (Cons r rs)
  obtain k1 now d w st' where r: "r = (k1, now, d)" "reserve k1 now d st = (w, st')"
    by (metis prod_cases3 surj_pair)
  have k1: "k1 \<in> served" and rest: "servers_of rs \<subseteq> served" "in_time_order rs"
    using Cons.prems(2,3) r(1) by (auto simp: servers_of_def in_time_order_def)
  have ok': "ok st'" by (rule ok_reserve[OF Cons.prems(1) k1 r(2)])
  show ?case
    using Cons.IH[OF ok' rest] grants_behind[OF ok' rest books[OF Cons.prems(1) k1 r(2)]] r
    by auto
qed simp

end

text \<open>A table that also grants the delay that is asked for.\<close>

fun granted_delays :: "(rstr \<times> nat) list \<Rightarrow> slot_request list \<Rightarrow> bool" where
  "granted_delays [] [] \<longleftrightarrow> True"
| "granted_delays ((k', t) # gs) ((k, now, d) # rs) \<longleftrightarrow> k' = k \<and> now + d \<le> t \<and> granted_delays gs rs"
| "granted_delays _ _ \<longleftrightarrow> False"

locale delayed_slots = server_slots +
  assumes waits: "ok st \<Longrightarrow> k \<in> served \<Longrightarrow> reserve k now d st = (w, st') \<Longrightarrow> d \<le> w"
begin

lemma grants_delayed:
  assumes "ok st" and "servers_of rs \<subseteq> served"
  shows "granted_delays (grants reserve st rs) rs"
  using assms
proof (induction rs arbitrary: st)
  case (Cons r rs)
  obtain k1 now d w st' where r: "r = (k1, now, d)" "reserve k1 now d st = (w, st')"
    by (metis prod_cases3 surj_pair)
  then have "k1 \<in> served" "servers_of rs \<subseteq> served" using Cons.prems(2) by (auto simp: servers_of_def)
  then show ?case
    using Cons.IH[OF ok_reserve[OF Cons.prems(1) _ r(2)]] waits[OF Cons.prems(1) _ r(2)] r by simp
qed simp

text \<open>The clock is read before the table is locked, so the readings need not be in the order of the
  reservations. It is enough that they are out of order by no more than the delays that are asked for.\<close>

lemma grants_not_before:
  assumes "ok st" and "servers_of rs \<subseteq> served" and "\<forall>(k, now, d) \<in> set rs. lo \<le> now + d"
    and "(k, t) \<in> set (grants reserve st rs)"
  shows "lo \<le> t"
  using assms
proof (induction rs arbitrary: st)
  case (Cons r rs)
  obtain k1 now d w st' where r: "r = (k1, now, d)" "reserve k1 now d st = (w, st')"
    by (metis prod_cases3 surj_pair)
  then have "k1 \<in> served" "servers_of rs \<subseteq> served" using Cons.prems(2) by (auto simp: servers_of_def)
  then show ?case
    using Cons.IH[of st'] Cons.prems ok_reserve[OF Cons.prems(1) _ r(2)] waits[OF Cons.prems(1) _ r(2)] r
    by fastforce
qed simp

lemma delayed_grants_behind:
  assumes "ok st" and "servers_of rs \<subseteq> served" and "nearly_in_order slack rs"
    and "\<forall>(k, now, d) \<in> set rs. slack \<le> d" and "next_slot st k = Some n"
    and "(k, t) \<in> set (grants reserve st rs)"
  shows "n \<le> t"
  using assms
proof (induction rs arbitrary: st n)
  case (Cons r rs)
  obtain k1 now d w st' where r: "r = (k1, now, d)" "reserve k1 now d st = (w, st')"
    by (metis prod_cases3 surj_pair)
  have k1: "k1 \<in> served" and rest: "servers_of rs \<subseteq> served" "nearly_in_order slack rs"
    "\<forall>(k, now, d) \<in> set rs. slack \<le> d"
    using Cons.prems(2-4) r(1) by (auto simp: servers_of_def nearly_in_order_def)
  have ok': "ok st'" by (rule ok_reserve[OF Cons.prems(1) k1 r(2)])
  have later: "\<forall>(k, now', d') \<in> set rs. now \<le> now' + d'"
    using Cons.prems(3) rest(3) r(1) by (fastforce simp: nearly_in_order_def)
  have split: "(k, t) = (k1, now + w) \<or> (k, t) \<in> set (grants reserve st' rs)"
    using Cons.prems(6) r by simp
  show ?case
  proof (cases "k1 = k")
    case True
    have "n \<le> now + w" using behind[OF Cons.prems(1) k1 r(2)] Cons.prems(5) True by simp
    then show ?thesis
      using split Cons.IH[OF ok' rest, of "now + w + gap"] books[OF Cons.prems(1) k1 r(2)] True
      by fastforce
  next
    case False
    then have tail: "(k, t) \<in> set (grants reserve st' rs)" using split by simp
    show ?thesis
    proof (cases "now < n")
      case True
      then show ?thesis
        using Cons.IH[OF ok' rest _ tail] keeps[OF Cons.prems(1) k1 r(2) _ Cons.prems(5) True] False
        by simp
    next
      case early: False
      then show ?thesis using grants_not_before[OF ok' rest(1) later tail] by simp
    qed
  qed
qed simp

lemma delayed_grants_spaced:
  assumes "ok st" and "servers_of rs \<subseteq> served" and "nearly_in_order slack rs"
    and "\<forall>(k, now, d) \<in> set rs. slack \<le> d"
  shows "spaced gap (grants reserve st rs)"
  using assms
proof (induction rs arbitrary: st)
  case (Cons r rs)
  obtain k1 now d w st' where r: "r = (k1, now, d)" "reserve k1 now d st = (w, st')"
    by (metis prod_cases3 surj_pair)
  have k1: "k1 \<in> served" and rest: "servers_of rs \<subseteq> served" "nearly_in_order slack rs"
    "\<forall>(k, now, d) \<in> set rs. slack \<le> d"
    using Cons.prems(2-4) r(1) by (auto simp: servers_of_def nearly_in_order_def)
  have ok': "ok st'" by (rule ok_reserve[OF Cons.prems(1) k1 r(2)])
  show ?case
    using Cons.IH[OF ok' rest] delayed_grants_behind[OF ok' rest books[OF Cons.prems(1) k1 r(2)]] r
    by auto
qed simp

end

end
