(* ===== verification/Reconnect.thy ===== *)
theory Reconnect
imports ServerSlots
begin

text \<open>
  Reconnection of streaming sessions (\<^verbatim>\<open>src/src/services/reconnect_budget.rs\<close>): the exponential
  backoff of one session and the budget that staggers the attempts at one server. The table of slots
  is a map from servers to instants.
\<close>

section \<open>Backoff\<close>

definition max_reconnect_backoff_seconds :: nat where "max_reconnect_backoff_seconds = 60"
definition server_reconnect_gap :: nat where "server_reconnect_gap = millis 250"

record reconnect_backoff =
  rb_next_delay_seconds :: nat
  rb_attempt :: nat

definition backoff_default :: reconnect_backoff where
  "backoff_default = \<lparr>rb_next_delay_seconds = 1, rb_attempt = 0\<rparr>"

definition backoff_reset :: "reconnect_backoff \<Rightarrow> reconnect_backoff" where
  "backoff_reset b = b\<lparr>rb_next_delay_seconds := 1, rb_attempt := 0\<rparr>"

definition reconnect_delay :: "nat \<Rightarrow> rstr \<Rightarrow> nat \<Rightarrow> nat" where
  "reconnect_delay base_seconds server attempt =
     secs base_seconds + millis (unat (fnv1a (of_nat attempt) (bytes server)) mod 1000)"

definition next_delay :: "rstr \<Rightarrow> reconnect_backoff \<Rightarrow> nat \<times> reconnect_backoff" where
  "next_delay server b =
     (reconnect_delay (rb_next_delay_seconds b) server (rb_attempt b),
      b\<lparr>rb_attempt := min (rb_attempt b + 1) (2 ^ 64 - 1),
        rb_next_delay_seconds := min (rb_next_delay_seconds b * 2) max_reconnect_backoff_seconds\<rparr>)"

text \<open>The delays of consecutive failures.\<close>

fun delays :: "nat \<Rightarrow> rstr \<Rightarrow> reconnect_backoff \<Rightarrow> nat list" where
  "delays 0 server b = []"
| "delays (Suc n) server b = (let (d, b') = next_delay server b in d # delays n server b')"

lemma reconnect_delay_range: "secs base \<le> reconnect_delay base server a" "reconnect_delay base server a < secs (base + 1)"
  by (simp_all add: reconnect_delay_def secs_def millis_def)

lemma delays_nth:
  "i < n \<Longrightarrow> rb_next_delay_seconds b = min (2 ^ k) 60 \<Longrightarrow>
   secs (min (2 ^ (k + i)) 60) \<le> delays n server b ! i \<and>
   delays n server b ! i < secs (min (2 ^ (k + i)) 60 + 1)"
proof (induction n arbitrary: b i k)
  case (Suc n)
  obtain d b' where d: "next_delay server b = (d, b')" by fastforce
  then have b': "rb_next_delay_seconds b' = min (2 ^ Suc k) 60"
    using Suc.prems(2) by (auto simp: next_delay_def max_reconnect_backoff_seconds_def)
  show ?case
  proof (cases i)
    case 0
    then show ?thesis
      using d Suc.prems(2) reconnect_delay_range[of "rb_next_delay_seconds b" server "rb_attempt b"]
      by (auto simp: next_delay_def)
  next
    case (Suc j)
    then show ?thesis using Suc.IH[of j b' "Suc k"] Suc.prems(1) b' d by simp
  qed
qed simp

text \<open>After a reset the delay before the n-th consecutive attempt is two to the n-th seconds, at most
  a minute, plus less than a second of jitter.\<close>

theorem backoff_doubles:
  assumes "i < n"
  shows "secs (min (2 ^ i) 60) \<le> delays n server (backoff_reset b) ! i \<and>
    delays n server (backoff_reset b) ! i < secs (min (2 ^ i) 60 + 1)"
  using delays_nth[OF assms, of "backoff_reset b" 0 server] by (simp add: backoff_reset_def)

theorem backoff_doubles_witness:
  "secs 60 \<le> delays 9 (str ''a.example'') (backoff_reset backoff_default) ! 8 \<and>
   delays 9 (str ''a.example'') (backoff_reset backoff_default) ! 8 < secs 61"
  using backoff_doubles[of 8 9 "str ''a.example''" backoff_default] by simp

section \<open>The budget\<close>

type_synonym slot_table = "rstr \<Rightarrow> nat option"

definition live_slots :: "nat \<Rightarrow> slot_table \<Rightarrow> slot_table" where
  "live_slots now slots = (\<lambda>k. case slots k of None \<Rightarrow> None | Some n \<Rightarrow> if n > now then Some n else None)"

definition reserve_at :: "nat \<Rightarrow> rstr \<Rightarrow> nat \<Rightarrow> slot_table \<Rightarrow> nat \<times> slot_table" where
  "reserve_at gap server now slots0 =
     (let slots = live_slots now slots0;
          slot = max (case slots server of None \<Rightarrow> now | Some n \<Rightarrow> n) now
      in (slot - now, slots(server \<mapsto> slot + gap)))"

interpretation reconnect: server_slots
  "\<lambda>server now d slots. reserve_at gap server now slots" "\<lambda>slots. slots" gap "\<lambda>slots. True" UNIV
  for gap
  by unfold_locales (auto simp: reserve_at_def live_slots_def Let_def max_def split: option.splits if_splits)

text \<open>The attempts of a run of calls at non-decreasing times, and when each of them connects.\<close>

definition reconnect_grants :: "nat \<Rightarrow> slot_table \<Rightarrow> slot_request list \<Rightarrow> (rstr \<times> nat) list" where
  "reconnect_grants gap = grants (\<lambda>server now d slots. reserve_at gap server now slots)"

text \<open>Connection attempts at one server are at least a quarter of a second apart, however many
  sessions ask and whatever other servers are asked for in between.\<close>

theorem reconnects_spaced:
  assumes "in_time_order rs"
  shows "spaced (millis 250) (reconnect_grants server_reconnect_gap slots rs)"
  unfolding reconnect_grants_def server_reconnect_gap_def
  using assms by (rule reconnect.grants_spaced[OF TrueI subset_UNIV])

theorem reconnects_spaced_witness:
  "spaced (millis 250) (reconnect_grants server_reconnect_gap (\<lambda>_. None)
     [(str ''a.example'', 5, 0), (str ''b.example'', 6, 0), (str ''a.example'', 7, 0)])"
  by (rule reconnects_spaced) (simp add: in_time_order_def)

end
