(* ===== verification/StartupGate.thy ===== *)
theory StartupGate
imports StateMachines
begin

text \<open>
  The gate of the background initialisation (\<^verbatim>\<open>src/src/application/startup_gate.rs\<close>) with its callers
  (\<^verbatim>\<open>start_runtime_initialization\<close>, \<^verbatim>\<open>retry_runtime_initialization\<close> and the worker of
  \<^verbatim>\<open>src/src/application/runtime.rs\<close>). The control is changed under its mutex; \<open>sg_published\<close> is the
  value of the watch channel, which \<^verbatim>\<open>wait_until_ready\<close> reads. A step is one call; a worker ends
  with one call of \<^verbatim>\<open>mark_ready\<close> or \<^verbatim>\<open>mark_failed\<close>.
\<close>

section \<open>The gate\<close>

datatype startup_state = Initializing | Ready | StartupFailed rstr

record startup_gate =
  sg_state :: startup_state
  sg_worker_running :: bool
  sg_published :: startup_state

datatype retry_start_error = AlreadyRunning | NotFailed

definition gate_new :: startup_gate where
  "gate_new = \<lparr>sg_state = Initializing, sg_worker_running = False, sg_published = Initializing\<rparr>"

definition begin_initialization :: "startup_gate \<Rightarrow> bool \<times> startup_gate" where
  "begin_initialization g =
     (if sg_worker_running g \<or> sg_state g \<noteq> Initializing then (False, g)
      else (True, g\<lparr>sg_worker_running := True\<rparr>))"

definition begin_retry :: "startup_gate \<Rightarrow> (retry_start_error + unit) \<times> startup_gate" where
  "begin_retry g =
     (if sg_worker_running g then (Inl AlreadyRunning, g)
      else (case sg_state g of
        StartupFailed _ \<Rightarrow> (Inr (), g\<lparr>sg_state := Initializing, sg_worker_running := True,
           sg_published := Initializing\<rparr>)
      | _ \<Rightarrow> (Inl NotFailed, g)))"

definition finish_startup :: "startup_state \<Rightarrow> startup_gate \<Rightarrow> startup_gate" where
  "finish_startup st g = g\<lparr>sg_state := st, sg_worker_running := False, sg_published := st\<rparr>"

definition mark_ready :: "startup_gate \<Rightarrow> startup_gate" where
  "mark_ready = finish_startup Ready"

definition mark_failed :: "rstr \<Rightarrow> startup_gate \<Rightarrow> startup_gate" where
  "mark_failed message = finish_startup (StartupFailed message)"

text \<open>What \<^verbatim>\<open>wait_until_ready\<close> does with the value it borrows; \<open>None\<close> is to wait for a change.\<close>

definition borrow_outcome :: "startup_state \<Rightarrow> (rstr + unit) option" where
  "borrow_outcome st = (case st of
     Initializing \<Rightarrow> None
   | Ready \<Rightarrow> Some (Inr ())
   | StartupFailed message \<Rightarrow> Some (Inl message))"

section \<open>Calls and workers\<close>

text \<open>\<open>gs_workers\<close> counts the workers that were spawned and have not yet ended; \<open>gs_waits\<close> collects what
  the waiters were told, newest first, with the calls between them.\<close>

datatype gate_event = Spawned | Ended startup_state | Told "rstr + unit"

record gate_sys =
  gs_gate :: startup_gate
  gs_workers :: nat
  gs_events :: "gate_event list"

inductive gate_step :: "gate_sys \<Rightarrow> gate_sys \<Rightarrow> bool" where
  gate_start: "begin_initialization (gs_gate s) = (True, g) \<Longrightarrow>
     gate_step s \<lparr>gs_gate = g, gs_workers = gs_workers s + 1, gs_events = Spawned # gs_events s\<rparr>"
| gate_start_again: "begin_initialization (gs_gate s) = (False, g) \<Longrightarrow> gate_step s (s\<lparr>gs_gate := g\<rparr>)"
| gate_retry: "begin_retry (gs_gate s) = (Inr (), g) \<Longrightarrow>
     gate_step s \<lparr>gs_gate = g, gs_workers = gs_workers s + 1, gs_events = Spawned # gs_events s\<rparr>"
| gate_retry_refused: "begin_retry (gs_gate s) = (Inl e, g) \<Longrightarrow> gate_step s (s\<lparr>gs_gate := g\<rparr>)"
| gate_ready: "0 < gs_workers s \<Longrightarrow>
     gate_step s \<lparr>gs_gate = mark_ready (gs_gate s), gs_workers = gs_workers s - 1,
       gs_events = Ended Ready # gs_events s\<rparr>"
| gate_failed: "0 < gs_workers s \<Longrightarrow>
     gate_step s \<lparr>gs_gate = mark_failed message (gs_gate s), gs_workers = gs_workers s - 1,
       gs_events = Ended (StartupFailed message) # gs_events s\<rparr>"
| gate_told: "borrow_outcome (sg_published (gs_gate s)) = Some r \<Longrightarrow>
     gate_step s (s\<lparr>gs_events := Told r # gs_events s\<rparr>)"

definition gate_init :: "gate_sys \<Rightarrow> bool" where
  "gate_init s \<longleftrightarrow> s = \<lparr>gs_gate = gate_new, gs_workers = 0, gs_events = []\<rparr>"

abbreviation gate_reach :: "gate_sys \<Rightarrow> bool" where
  "gate_reach \<equiv> reach gate_init gate_step"

section \<open>One worker at a time\<close>

text \<open>The last word of the workers.\<close>

fun last_end :: "gate_event list \<Rightarrow> startup_state" where
  "last_end [] = Initializing"
| "last_end (Ended st # l) = st"
| "last_end (Spawned # l) = Initializing"
| "last_end (Told r # l) = last_end l"

fun told_ok :: "gate_event list \<Rightarrow> bool" where
  "told_ok [] \<longleftrightarrow> True"
| "told_ok (Told r # l) \<longleftrightarrow> borrow_outcome (last_end l) = Some r \<and> told_ok l"
| "told_ok (Spawned # l) \<longleftrightarrow> last_end l \<noteq> Ready \<and> told_ok l"
| "told_ok (Ended st # l) \<longleftrightarrow> last_end l = Initializing \<and> told_ok l"

definition gate_ok :: "gate_sys \<Rightarrow> bool" where
  "gate_ok s \<longleftrightarrow>
     gs_workers s = of_bool (sg_worker_running (gs_gate s)) \<and>
     sg_published (gs_gate s) = sg_state (gs_gate s) \<and>
     sg_state (gs_gate s) = last_end (gs_events s) \<and>
     (sg_worker_running (gs_gate s) \<longrightarrow> sg_state (gs_gate s) = Initializing) \<and>
     told_ok (gs_events s)"

lemma gate_step_ok: "gate_ok s \<Longrightarrow> gate_step s s' \<Longrightarrow> gate_ok s'"
  by (erule gate_step.cases)
    (auto simp: gate_ok_def begin_initialization_def begin_retry_def mark_ready_def mark_failed_def
      finish_startup_def split: if_splits startup_state.splits)

lemma gate_reach_ok: "gate_reach s \<Longrightarrow> gate_ok s"
proof (erule reach_invariant)
  show "gate_init s \<Longrightarrow> gate_ok s" for s by (simp add: gate_init_def gate_ok_def gate_new_def)
qed (rule gate_step_ok)

text \<open>C38: whatever the frontend asks for, at most one initialisation worker runs at a time, it runs exactly
  while the gate says so, and the channel shows the state of the gate.\<close>

theorem single_worker:
  assumes "gate_reach s"
  shows "gs_workers s \<le> 1 \<and> (gs_workers s = 1 \<longleftrightarrow> sg_worker_running (gs_gate s)) \<and>
    (gs_workers s = 1 \<longrightarrow> sg_state (gs_gate s) = Initializing) \<and>
    sg_published (gs_gate s) = sg_state (gs_gate s)"
  using gate_reach_ok[OF assms] by (auto simp: gate_ok_def)

lemma told_ok_suffix: "told_ok (l @ l') \<Longrightarrow> told_ok l'"
  by (induction l rule: told_ok.induct) auto

lemma ready_is_final:
  "told_ok (mid @ l) \<Longrightarrow> last_end l = Ready \<Longrightarrow>
   last_end (mid @ l) = Ready \<and> Spawned \<notin> set mid"
proof (induction "mid")
  case (Cons e "mid")
  then show ?case by (cases e) auto
qed simp

definition sample_gate :: gate_sys where
  "sample_gate = \<lparr>gs_gate = (gate_new\<lparr>sg_worker_running := True\<rparr>), gs_workers = 1, gs_events = [Spawned]\<rparr>"

lemma sample_gate_reach: "gate_reach sample_gate"
proof -
  have "gate_reach \<lparr>gs_gate = gate_new, gs_workers = 0, gs_events = []\<rparr>"
    by (rule reach_init) (simp add: gate_init_def)
  then show ?thesis
    by (rule reach_step)
      (use gate_start[of "\<lparr>gs_gate = gate_new, gs_workers = 0, gs_events = []\<rparr>"] in
        \<open>simp add: begin_initialization_def gate_new_def sample_gate_def\<close>)
qed

theorem single_worker_witness: "sg_worker_running (gs_gate sample_gate) \<and> gs_workers sample_gate \<le> 1"
  using single_worker[OF sample_gate_reach] by (simp add: sample_gate_def)

text \<open>A waiter is told what the last worker to end reported: success only after a worker was ready, and
  then no worker is ever spawned again; a message only from the failure it belongs to, and not once a
  retry has begun.\<close>

theorem waiters_told_truth:
  assumes "gate_reach s" and "gs_events s = later @ Told r # earlier"
  shows "(case r of Inr _ \<Rightarrow> last_end earlier = Ready \<and> Spawned \<notin> set later
    | Inl message \<Rightarrow> last_end earlier = StartupFailed message)"
proof -
  have ok: "told_ok (later @ Told r # earlier)"
    using gate_reach_ok[OF assms(1)] assms(2) by (simp add: gate_ok_def)
  then have r: "borrow_outcome (last_end earlier) = Some r"
    by (auto dest: told_ok_suffix)
  show ?thesis
  proof (cases "last_end earlier")
    case Ready
    with ready_is_final[OF ok] r show ?thesis by (auto simp: borrow_outcome_def)
  qed (use r in \<open>auto simp: borrow_outcome_def\<close>)
qed

theorem waiters_told_truth_witness:
  "last_end [Ended Ready, Spawned] = Ready \<and> Spawned \<notin> set ([] :: gate_event list)"
proof -
  let ?s = "\<lparr>gs_gate = mark_ready (gs_gate sample_gate), gs_workers = 0,
      gs_events = [Ended Ready, Spawned]\<rparr>"
  have "gate_step sample_gate ?s"
    using gate_ready[of sample_gate] by (simp add: sample_gate_def)
  with sample_gate_reach have "gate_reach ?s" by (rule reach_step)
  moreover have "gate_step ?s (?s\<lparr>gs_events := Told (Inr ()) # gs_events ?s\<rparr>)"
    by (rule gate_told) (simp add: mark_ready_def finish_startup_def borrow_outcome_def)
  ultimately have r: "gate_reach (?s\<lparr>gs_events := Told (Inr ()) # gs_events ?s\<rparr>)" by (rule reach_step)
  show ?thesis
    using waiters_told_truth[OF r, of "[]" "Inr ()" "[Ended Ready, Spawned]"] by simp
qed

end
