(* ===== verification/Retry.thy ===== *)
theory Retry
imports ServerSlots
begin

text \<open>
  Retries of idempotent requests (\<^verbatim>\<open>src/src/api/retry.rs\<close> over
  \<^verbatim>\<open>src/src/domain/adapter_error.rs\<close>): which failures are retried and after which delay, the table
  that spaces the retries at one server, and the loop. The hash map is the list of its entries in
  iteration order, which the standard library leaves open and no theorem depends on. The lower-case
  mapping of Unicode is the argument \<open>lower\<close>; the answers to the requests and the times of the calls
  are functions of the attempt.
\<close>

section \<open>Failures\<close>

datatype adapter_source = ActivityPubAdapter | MisskeyAdapter | AtProtoAdapter

datatype adapter_error_code =
  Unauthorized | RateLimited | Timeout | Unsupported | InvalidResponse | Transport | Internal

record adapter_error =
  ae_code :: adapter_error_code
  ae_source :: adapter_source
  ae_retry_after_seconds :: "nat option"

section \<open>Delays\<close>

definition max_attempts :: nat where "max_attempts = 3"
definition base_delay :: nat where "base_delay = millis 250"
definition max_delay :: nat where "max_delay = secs 60"
definition server_retry_spacing :: nat where "server_retry_spacing = millis 250"
definition max_tracked_servers :: nat where "max_tracked_servers = 256"

definition as_millis :: "nat \<Rightarrow> nat" where
  "as_millis d = d div 1000000"

definition stable_hash :: "nat list \<Rightarrow> nat \<Rightarrow> nat" where
  "stable_hash bs attempt = unat (fnv1a (of_nat attempt) bs)"

definition retryable :: "adapter_error \<Rightarrow> bool" where
  "retryable e \<longleftrightarrow> ae_code e \<in> {RateLimited, Timeout, Transport}"

definition retry_delay :: "adapter_error \<Rightarrow> rstr \<Rightarrow> nat \<Rightarrow> nat option" where
  "retry_delay e operation attempt =
     (if \<not> retryable e then None
      else
        (let exponential = min (base_delay * 2 ^ min (attempt - 1) 8) max_delay;
             header_delay = min (case ae_retry_after_seconds e of None \<Rightarrow> 0 | Some s \<Rightarrow> secs s) max_delay;
             jitter_window_ms = min (as_millis exponential) 250;
             jitter = millis (stable_hash (bytes operation) attempt mod (jitter_window_ms + 1))
         in Some (min (max exponential header_delay + jitter) max_delay)))"

lemma padded_max: "lo \<le> x \<or> lo \<le> h \<Longrightarrow> lo \<le> m \<Longrightarrow> lo \<le> min (max x h + j) (m :: nat)"
  by linarith

text \<open>Exactly rate limits, timeouts and transport failures are retried; the delay grows from a quarter
  of a second by doubling, is never shorter than a server's request to wait, and never longer than a
  minute.\<close>

theorem retry_delay_bounds:
  "(retry_delay e operation attempt = None \<longleftrightarrow> ae_code e \<notin> {RateLimited, Timeout, Transport}) \<and>
   (\<forall>d. retry_delay e operation attempt = Some d \<longrightarrow>
      d \<le> secs 60 \<and> millis 250 * 2 ^ min (attempt - 1) 7 \<le> d \<and>
      (\<forall>s. ae_retry_after_seconds e = Some s \<longrightarrow> min (secs s) (secs 60) \<le> d))"
proof (cases "retryable e")
  case True
  let ?x = "min (base_delay * 2 ^ min (attempt - 1) 8) max_delay"
  let ?h = "min (case ae_retry_after_seconds e of None \<Rightarrow> 0 | Some s \<Rightarrow> secs s) max_delay"
  obtain j where d: "retry_delay e operation attempt = Some (min (max ?x ?h + j) max_delay)"
    by (atomize_elim, rule exI, unfold retry_delay_def Let_def, simp only: True not_True_eq_False if_False)
  have "(2::nat) ^ min (attempt - 1) 7 \<le> 2 ^ 7" by (rule power_increasing) auto
  then have small: "millis 250 * 2 ^ min (attempt - 1) 7 \<le> max_delay"
    by (simp add: max_delay_def millis_def secs_def)
  have "millis 250 * 2 ^ min (attempt - 1) 7 \<le> base_delay * 2 ^ min (attempt - 1) 8"
    unfolding base_delay_def by (intro mult_le_mono2 power_increasing) auto
  with small have grows: "millis 250 * 2 ^ min (attempt - 1) 7 \<le> min (max ?x ?h + j) max_delay"
    by (intro padded_max) simp_all
  have asked: "min (secs s) (secs 60) \<le> min (max ?x ?h + j) max_delay"
    if "ae_retry_after_seconds e = Some s" for s
    using that by (intro padded_max) (simp_all add: max_delay_def)
  have "min (max ?x ?h + j) max_delay \<le> secs 60" by (simp add: max_delay_def)
  then show ?thesis
    using True grows asked unfolding d retryable_def by blast
qed (simp add: retry_delay_def retryable_def)

theorem retry_delay_bounds_witness:
  "\<exists>d. retry_delay \<lparr>ae_code = RateLimited, ae_source = MisskeyAdapter,
       ae_retry_after_seconds = Some 7\<rparr> (str ''home'') 2 = Some d \<and> secs 7 \<le> d \<and> d \<le> secs 60"
  using retry_delay_bounds[of "\<lparr>ae_code = RateLimited, ae_source = MisskeyAdapter,
      ae_retry_after_seconds = Some 7\<rparr>" "str ''home''" 2]
  by (cases "retry_delay \<lparr>ae_code = RateLimited, ae_source = MisskeyAdapter,
      ae_retry_after_seconds = Some 7\<rparr> (str ''home'') 2") (simp_all add: secs_def)

section \<open>The table\<close>

type_synonym retry_budgets = "(rstr \<times> nat) list"

text \<open>\<^verbatim>\<open>min_by_key\<close>: the first entry with the least key.\<close>

fun oldest :: "retry_budgets \<Rightarrow> rstr option" where
  "oldest [] = None"
| "oldest ((k, n) # entries) =
     Some (if \<forall>(_, m) \<in> set entries. n \<le> m then k else the (oldest entries))"

fun set_entry :: "rstr \<Rightarrow> nat \<Rightarrow> retry_budgets \<Rightarrow> retry_budgets" where
  "set_entry k n [] = [(k, n)]"
| "set_entry k n ((k', n') # entries) =
     (if k' = k then (k, n) # entries else (k', n') # set_entry k n entries)"

definition reserve_server_retry ::
  "(rstr \<Rightarrow> rstr) \<Rightarrow> rstr \<Rightarrow> nat \<Rightarrow> nat \<Rightarrow> retry_budgets \<Rightarrow> nat \<times> retry_budgets" where
  "reserve_server_retry lower server now requested_delay budgets =
     (let server = lower server;
          budgets = filter (\<lambda>(_, n). n > now) budgets;
          budgets = (if length budgets \<ge> max_tracked_servers \<and> map_of budgets server = None
            then (case oldest budgets of
                    None \<Rightarrow> budgets | Some k \<Rightarrow> filter (\<lambda>(k', _). k' \<noteq> k) budgets)
            else budgets);
          requested_at = now + requested_delay;
          reserved_at = max (case map_of budgets server of None \<Rightarrow> now | Some n \<Rightarrow> n) requested_at
      in (reserved_at - now, set_entry server (reserved_at + server_retry_spacing) budgets))"

lemma map_of_set_entry: "map_of (set_entry k n entries) = (map_of entries)(k \<mapsto> n)"
  by (induction k n entries rule: set_entry.induct) auto

lemma keys_set_entry: "fst ` set (set_entry k n entries) = insert k (fst ` set entries)"
  by (induction k n entries rule: set_entry.induct) auto

lemma distinct_set_entry:
  "distinct (map fst entries) \<Longrightarrow> distinct (map fst (set_entry k n entries))"
  by (induction k n entries rule: set_entry.induct)
    (auto simp: keys_set_entry)

lemma map_of_filter_later:
  "distinct (map fst entries) \<Longrightarrow>
   map_of (filter (\<lambda>(_, n). n > now) entries) k =
     (case map_of entries k of None \<Rightarrow> None | Some n \<Rightarrow> if n > now then Some n else None)"
  by (induction entries) (auto split: option.splits simp: map_of_eq_None_iff rev_image_eqI
      dest: map_of_SomeD)

text \<open>A table over at most 256 servers never evicts.\<close>

definition tracked :: "rstr set \<Rightarrow> retry_budgets \<Rightarrow> bool" where
  "tracked K entries \<longleftrightarrow> finite K \<and> card K \<le> max_tracked_servers \<and> distinct (map fst entries) \<and>
     fst ` set entries \<subseteq> K"

lemma no_eviction:
  assumes "tracked K entries" and "k \<in> K" and "length entries \<ge> max_tracked_servers"
  shows "map_of entries k \<noteq> None"
proof -
  have "card (fst ` set entries) = length entries"
    using assms(1) by (simp add: tracked_def distinct_card flip: set_map)
  then have "fst ` set entries = K"
    using assms(1,3) card_subset_eq[of K "fst ` set entries"] card_mono[of K "fst ` set entries"]
    by (simp add: tracked_def)
  then show ?thesis using assms(2) by (simp add: map_of_eq_None_iff)
qed

lemma tracked_filter: "tracked K entries \<Longrightarrow> tracked K (filter P entries)"
  by (auto simp: tracked_def distinct_map_filter)

lemma reserve_tracked:
  assumes "tracked K entries" and "lower server \<in> K"
  shows "reserve_server_retry lower server now d entries =
    (let live = filter (\<lambda>(_, n). n > now) entries;
         slot = max (case map_of live (lower server) of None \<Rightarrow> now | Some n \<Rightarrow> n) (now + d)
     in (slot - now, set_entry (lower server) (slot + server_retry_spacing) live))"
  using no_eviction[OF tracked_filter[OF assms(1)] assms(2), of "\<lambda>(_, n). n > now"]
  by (auto simp: reserve_server_retry_def Let_def)

text \<open>The requests of a run name the servers as the table does.\<close>

interpretation retry: delayed_slots
  "reserve_server_retry (\<lambda>k. k)" "map_of" server_retry_spacing "tracked K" K
  for K
proof unfold_locales
  fix st :: retry_budgets and k k' :: rstr and now d w n :: nat and st' :: retry_budgets
  assume ok: "tracked K st" and k: "k \<in> K"
    and r: "reserve_server_retry (\<lambda>k. k) k now d st = (w, st')"
  let ?live = "filter (\<lambda>(_, n). n > now) st"
  let ?slot = "max (case map_of ?live k of None \<Rightarrow> now | Some n \<Rightarrow> n) (now + d)"
  have w: "w = ?slot - now" and st': "st' = set_entry k (?slot + server_retry_spacing) ?live"
    using r reserve_tracked[of K st "\<lambda>k. k" k now d] ok k by (simp_all add: Let_def)
  have live: "tracked K ?live" using ok by (rule tracked_filter)
  have entry: "map_of ?live j =
      (case map_of st j of None \<Rightarrow> None | Some n \<Rightarrow> if n > now then Some n else None)" for j
    using ok by (intro map_of_filter_later) (simp add: tracked_def)
  show "tracked K st'"
    using live k unfolding st' by (simp add: tracked_def keys_set_entry distinct_set_entry)
  show "map_of st' k = Some (now + w + server_retry_spacing)"
    unfolding st' w by (simp add: map_of_set_entry)
  show "d \<le> w" unfolding w by simp
  show "n \<le> now + w" if "map_of st k = Some n"
    using that unfolding w entry by (auto split: option.splits)
  show "map_of st' k' = Some n" if "k' \<noteq> k" "map_of st k' = Some n" "now < n"
    using that unfolding st' by (simp add: map_of_set_entry entry)
qed

lemma grants_lower:
  "map (\<lambda>(k, t). (lower k, t)) (grants (reserve_server_retry lower) st rs) =
   grants (reserve_server_retry (\<lambda>k. k)) st (map (\<lambda>(k, now, d). (lower k, now, d)) rs)"
proof (induction rs arbitrary: st)
  case (Cons r rs)
  have "reserve_server_retry lower k now d st = reserve_server_retry (\<lambda>k. k) (lower k) now d st" for k now d
    by (simp add: reserve_server_retry_def)
  then show ?case using Cons by (auto simp: Let_def split: prod.splits)
qed simp

text \<open>C39: in a run that names at most 256 servers, the retries at one server are at least a quarter of a
  second apart and none of them happens before its own delay has passed; the names of servers are
  compared in lower case. Concurrent callers read the clock before they lock the table: their readings
  may be out of order by as much as the shortest delay that is asked for, which is at least a quarter
  of a second (\<open>retry_delay_bounds\<close>).\<close>

theorem retries_spaced:
  assumes "nearly_in_order slack rs" and "\<forall>(k, now, d) \<in> set rs. slack \<le> d"
    and "card (lower ` servers_of rs) \<le> 256"
  shows "spaced (millis 250) (map (\<lambda>(k, t). (lower k, t)) (grants (reserve_server_retry lower) [] rs)) \<and>
    granted_delays (map (\<lambda>(k, t). (lower k, t)) (grants (reserve_server_retry lower) [] rs))
      (map (\<lambda>(k, now, d). (lower k, now, d)) rs)"
proof -
  let ?rs = "map (\<lambda>(k, now, d). (lower k, now, d)) rs" and ?K = "lower ` servers_of rs"
  have start: "tracked ?K []"
    using assms(3) by (simp add: tracked_def max_tracked_servers_def servers_of_def)
  have names: "servers_of ?rs \<subseteq> ?K" by (force simp: servers_of_def)
  have "nearly_in_order slack ?rs" "\<forall>(k, now, d) \<in> set ?rs. slack \<le> d"
    using assms(1,2) by (auto simp: nearly_in_order_def sorted_wrt_map case_prod_unfold)
  from retry.delayed_grants_spaced[OF start names this] retry.grants_delayed[OF start names]
  show ?thesis unfolding grants_lower server_retry_spacing_def by simp
qed

lemma servers_card: "card (lower ` servers_of rs) \<le> length rs"
  unfolding servers_of_def by (metis card_length image_image length_map set_map)

theorem retries_spaced_witness:
  "spaced (millis 250) (map (\<lambda>(k, t). (to_ascii_lowercase k, t))
     (grants (reserve_server_retry to_ascii_lowercase) []
       [(str ''A.example'', millis 900, millis 500), (str ''b.example'', millis 800, millis 250),
        (str ''a.example'', millis 700, millis 250)]))"
proof -
  let ?rs = "[(str ''A.example'', millis 900, millis 500), (str ''b.example'', millis 800, millis 250),
      (str ''a.example'', millis 700, millis 250)] :: slot_request list"
  have "card (to_ascii_lowercase ` servers_of ?rs) \<le> 256"
    using servers_card[of to_ascii_lowercase ?rs] by simp
  from retries_spaced[OF _ _ this, of "millis 250"] show ?thesis
    by (simp add: nearly_in_order_def millis_def)
qed

section \<open>The loop\<close>

text \<open>\<open>request n\<close> is the answer to the n-th request and \<open>now n\<close> the time at which it failed. The result
  carries the waits between the requests.\<close>

function idempotent ::
  "(rstr \<Rightarrow> rstr) \<Rightarrow> rstr \<Rightarrow> rstr \<Rightarrow> (nat \<Rightarrow> adapter_error + 'a) \<Rightarrow> (nat \<Rightarrow> nat) \<Rightarrow> nat \<Rightarrow> retry_budgets \<Rightarrow>
   (adapter_error + 'a) \<times> nat list \<times> retry_budgets" where
  "idempotent lower server operation request now attempt st =
     (case request attempt of
        Inr v \<Rightarrow> (Inr v, [], st)
      | Inl e \<Rightarrow>
          (case retry_delay e operation attempt of
             None \<Rightarrow> (Inl e, [], st)
           | Some delay \<Rightarrow>
               if attempt \<ge> max_attempts then (Inl e, [], st)
               else
                 (let (w, st) = reserve_server_retry lower server (now attempt) delay st;
                      (r, ws, st) = idempotent lower server operation request now (attempt + 1) st
                  in (r, w # ws, st))))"
  by pat_completeness auto
termination
  by (relation "measure (\<lambda>(lower, server, operation, request, now, attempt, st). max_attempts - attempt)")
    (auto simp: not_le)

declare idempotent.simps [simp del]

definition fails_retryably :: "adapter_error + 'a \<Rightarrow> bool" where
  "fails_retryably r \<longleftrightarrow> (case r of Inl e \<Rightarrow> retryable e | Inr _ \<Rightarrow> False)"

lemma retry_delay_None: "retry_delay e operation attempt = None \<longleftrightarrow> \<not> retryable e"
  by (simp add: retry_delay_def Let_def)

lemma idempotent_stops:
  assumes "\<not> (fails_retryably (request attempt) \<and> attempt < max_attempts)"
  shows "idempotent lower server operation request now attempt st = (request attempt, [], st)"
proof (cases "request attempt")
  case (Inl e)
  then show ?thesis
    using assms retry_delay_None[of e operation attempt]
    by (cases "retry_delay e operation attempt")
      (simp_all add: idempotent.simps[of lower server operation request now attempt st]
        fails_retryably_def)
qed (simp add: idempotent.simps[of lower server operation request now attempt st])

lemma idempotent_from:
  assumes "idempotent lower server operation request now attempt st = (r, ws, st')"
    and "attempt \<le> max_attempts"
  shows "attempt + length ws \<le> max_attempts \<and> r = request (attempt + length ws) \<and>
    (\<forall>i < length ws. fails_retryably (request (attempt + i))) \<and>
    (fails_retryably r \<longrightarrow> attempt + length ws = max_attempts)"
  using assms
proof (induction "max_attempts - attempt" arbitrary: attempt st r ws st' rule: less_induct)
  case less
  show ?case
  proof (cases "fails_retryably (request attempt) \<and> attempt < max_attempts")
    case False
    then have "r = request attempt \<and> ws = []"
      using less.prems(1) idempotent_stops[of request attempt, OF False] by simp
    then show ?thesis using False less.prems(2) by auto
  next
    case True
    then obtain e where e: "request attempt = Inl e" "retryable e" "attempt < max_attempts"
      by (auto simp: fails_retryably_def split: sum.splits)
    then obtain delay where delay: "retry_delay e operation attempt = Some delay"
      by (simp add: retry_delay_def Let_def)
    obtain w st1 where w: "reserve_server_retry lower server (now attempt) delay st = (w, st1)"
      by fastforce
    obtain r2 ws2 st2 where rest:
      "idempotent lower server operation request now (attempt + 1) st1 = (r2, ws2, st2)"
      by (cases "idempotent lower server operation request now (attempt + 1) st1") blast
    have eqs: "r = r2" "ws = w # ws2"
      using less.prems(1) e delay w rest
      by (simp_all add: idempotent.simps[of lower server operation request now attempt st])
    have IH: "attempt + 1 + length ws2 \<le> max_attempts \<and> r2 = request (attempt + 1 + length ws2) \<and>
        (\<forall>i < length ws2. fails_retryably (request (attempt + 1 + i))) \<and>
        (fails_retryably r2 \<longrightarrow> attempt + 1 + length ws2 = max_attempts)"
      by (rule less.hyps[OF _ rest]) (use e(3) in simp_all)
    have "fails_retryably (request (attempt + i))" if "i < length ws" for i
      using that IH True eqs(2) by (cases i) auto
    then show ?thesis using IH eqs by simp
  qed
qed

text \<open>A read is requested at most three times: the answer is the first one that is no retryable
  failure, or the third one.\<close>

theorem idempotent_bounded:
  assumes "idempotent lower server operation request now 1 st = (r, ws, st')"
  shows "length ws \<le> 2 \<and> r = request (1 + length ws) \<and>
    (\<forall>i < length ws. fails_retryably (request (1 + i))) \<and>
    (fails_retryably r \<longrightarrow> length ws = 2)"
proof -
  have "1 \<le> max_attempts" by (simp add: max_attempts_def)
  note run = idempotent_from[OF assms this]
  then have "1 + length ws \<le> max_attempts" "fails_retryably r \<longrightarrow> 1 + length ws = max_attempts"
    by blast+
  then have "length ws \<le> 2" "fails_retryably r \<longrightarrow> length ws = 2"
    by (simp_all add: max_attempts_def)
  with run show ?thesis by blast
qed

definition sample_request :: "nat \<Rightarrow> adapter_error + nat" where
  "sample_request n = (if n < 2 then Inl \<lparr>ae_code = Timeout, ae_source = AtProtoAdapter,
     ae_retry_after_seconds = None\<rparr> else Inr 7)"

theorem idempotent_bounded_witness:
  "\<exists>r ws st'. idempotent to_ascii_lowercase (str ''a.example'') (str ''home'') sample_request (\<lambda>n. n) 1 [] =
     (r, ws, st') \<and> r = Inr 7 \<and> length ws = 1"
proof -
  obtain r ws st' where run: "idempotent to_ascii_lowercase (str ''a.example'') (str ''home'')
      sample_request (\<lambda>n. n) 1 [] = (r, ws, st')"
    by (cases "idempotent to_ascii_lowercase (str ''a.example'') (str ''home'')
      sample_request (\<lambda>n. n) 1 []") blast
  note b = idempotent_bounded[OF run]
  have first: "fails_retryably (sample_request 1)" and second: "\<not> fails_retryably (sample_request 2)"
    by (simp_all add: sample_request_def fails_retryably_def retryable_def)
  have "length ws \<le> 2" using b by blast
  then consider "length ws = 0" | "length ws = 1" | "length ws = 2" by linarith
  then show ?thesis
  proof cases
    case 1
    then have "r = sample_request 1" using b by simp
    then have "fails_retryably r" using first by metis
    then show ?thesis using b 1 by linarith
  next
    case 2
    then have "r = sample_request 2" using b by (simp add: numeral_2_eq_2)
    then show ?thesis using run 2 by (simp add: sample_request_def)
  next
    case 3
    then have "(1::nat) < length ws" by simp
    then have "fails_retryably (sample_request (1 + 1))" using b by blast
    then show ?thesis using second by (simp add: numeral_2_eq_2)
  qed
qed

end
