(* ===== verification/AppErrors.thy ===== *)
theory AppErrors
imports Retry
begin

text \<open>
  The errors that cross the boundary to the frontend (\<^verbatim>\<open>src/src/ipc/error.rs\<close>) and what they are made
  from: an adapter's error (\<^verbatim>\<open>src/src/domain/adapter_error.rs\<close>, \<^verbatim>\<open>src/src/api/ports.rs\<close>), a database
  error or the text of an error. Of the safe details only the delay that a server asks for is kept,
  since no other is read; the log line is not modelled.
\<close>

section \<open>Codes\<close>

datatype app_error_code =
  AuthenticationExpired | RateLimited | Timeout | Validation | DatabaseBusy | CapabilityUnsupported
| Cancelled | IpcResponseLost | Internal

definition error_code_as_str :: "app_error_code \<Rightarrow> rstr" where
  "error_code_as_str c = (case c of
     AuthenticationExpired \<Rightarrow> str ''authentication_expired''
   | RateLimited \<Rightarrow> str ''rate_limited''
   | Timeout \<Rightarrow> str ''timeout''
   | Validation \<Rightarrow> str ''validation''
   | DatabaseBusy \<Rightarrow> str ''database_busy''
   | CapabilityUnsupported \<Rightarrow> str ''capability_unsupported''
   | Cancelled \<Rightarrow> str ''cancelled''
   | IpcResponseLost \<Rightarrow> str ''ipc_response_lost''
   | Internal \<Rightarrow> str ''internal'')"

definition error_message_key :: "app_error_code \<Rightarrow> rstr" where
  "error_message_key c = (case c of
     AuthenticationExpired \<Rightarrow> str ''errors.authentication_expired''
   | RateLimited \<Rightarrow> str ''errors.rate_limited''
   | Timeout \<Rightarrow> str ''errors.timeout''
   | Validation \<Rightarrow> str ''errors.validation''
   | DatabaseBusy \<Rightarrow> str ''errors.database_busy''
   | CapabilityUnsupported \<Rightarrow> str ''errors.capability_unsupported''
   | Cancelled \<Rightarrow> str ''errors.cancelled''
   | IpcResponseLost \<Rightarrow> str ''errors.ipc_response_lost''
   | Internal \<Rightarrow> str ''errors.internal'')"

definition error_code_retryable :: "app_error_code \<Rightarrow> bool" where
  "error_code_retryable c \<longleftrightarrow> c \<in> {RateLimited, Timeout, DatabaseBusy, IpcResponseLost}"

record app_error =
  er_code :: app_error_code
  er_message_key :: rstr
  er_retry_after :: "rstr option"
  er_retryable :: bool
  er_request_id :: rstr

definition app_error_new :: "app_error_code \<Rightarrow> rstr \<Rightarrow> app_error" where
  "app_error_new c request_id = \<lparr>er_code = c, er_message_key = error_message_key c, er_retry_after = None,
     er_retryable = error_code_retryable c, er_request_id = request_id\<rparr>"

section \<open>From an adapter's error\<close>

definition code_of_adapter :: "adapter_error_code \<Rightarrow> app_error_code" where
  "code_of_adapter c = (case c of
     adapter_error_code.Unauthorized \<Rightarrow> AuthenticationExpired
   | adapter_error_code.RateLimited \<Rightarrow> RateLimited
   | adapter_error_code.Timeout \<Rightarrow> Timeout
   | adapter_error_code.Unsupported \<Rightarrow> CapabilityUnsupported
   | _ \<Rightarrow> Internal)"

definition from_adapter :: "adapter_error \<Rightarrow> rstr \<Rightarrow> app_error" where
  "from_adapter source request_id =
     (app_error_new (code_of_adapter (ae_code source)) request_id)
       \<lparr>er_retry_after := map_option nat_digits (ae_retry_after_seconds source)\<rparr>"

text \<open>The text of an adapter's error: the names of its source and code.\<close>

definition adapter_source_debug :: "adapter_source \<Rightarrow> rstr" where
  "adapter_source_debug s = (case s of
     ActivityPubAdapter \<Rightarrow> str ''ActivityPub''
   | MisskeyAdapter \<Rightarrow> str ''Misskey''
   | AtProtoAdapter \<Rightarrow> str ''AtProto'')"

definition adapter_code_debug :: "adapter_error_code \<Rightarrow> rstr" where
  "adapter_code_debug c = (case c of
     adapter_error_code.Unauthorized \<Rightarrow> str ''Unauthorized''
   | adapter_error_code.RateLimited \<Rightarrow> str ''RateLimited''
   | adapter_error_code.Timeout \<Rightarrow> str ''Timeout''
   | Unsupported \<Rightarrow> str ''Unsupported''
   | InvalidResponse \<Rightarrow> str ''InvalidResponse''
   | Transport \<Rightarrow> str ''Transport''
   | adapter_error_code.Internal \<Rightarrow> str ''Internal'')"

definition adapter_error_display :: "adapter_error \<Rightarrow> rstr" where
  "adapter_error_display e =
     adapter_source_debug (ae_source e) @ str '' adapter error: '' @ adapter_code_debug (ae_code e)"

section \<open>From a text\<close>

definition classify_source_error :: "rstr \<Rightarrow> app_error_code" where
  "classify_source_error raw =
     (let normalized = to_ascii_lowercase raw; has = (\<lambda>s. str_contains normalized (str s)) in
      if has ''rate limit'' \<or> has ''http 429'' then RateLimited
      else if has ''timed out'' \<or> has ''timeout'' then Timeout
      else if has ''database is locked'' \<or> has ''database busy'' \<or> has ''sqlite_busy'' then DatabaseBusy
      else if has ''unauthorized'' \<or> has ''http 401'' \<or> has ''token expired'' \<or>
        has ''session not found'' \<or> has ''not signed in'' then AuthenticationExpired
      else if has ''not supported'' \<or> has ''unsupported capability'' then CapabilityUnsupported
      else if has ''cancelled'' \<or> has ''canceled'' then Cancelled
      else if has ''invalid'' \<or> has ''is required'' \<or> has ''is empty'' \<or> has ''must '' \<or>
        has ''duplicate '' then Validation
      else Internal)"

definition from_source :: "rstr \<Rightarrow> rstr \<Rightarrow> app_error" where
  "from_source raw request_id = app_error_new (classify_source_error raw) request_id"

section \<open>From a database error\<close>

text \<open>\<^verbatim>\<open>parse::<u32>\<close> and \<^verbatim>\<open>parse::<u64>\<close>: digits after an optional plus sign, within the range.\<close>

definition parse_unsigned :: "nat \<Rightarrow> rstr \<Rightarrow> nat option" where
  "parse_unsigned bits s =
     (let digits = strip_prefix_or (str ''+'') s in
      if digits \<noteq> [] \<and> list_all is_ascii_digit digits \<and> digits_value digits < 2 ^ bits
      then Some (digits_value digits) else None)"

definition sqlite_code_is_busy :: "rstr option \<Rightarrow> bool" where
  "sqlite_code_is_busy c = (case c of
     None \<Rightarrow> False
   | Some code \<Rightarrow>
       if code = str ''SQLITE_BUSY'' \<or> code = str ''SQLITE_LOCKED'' then True
       else (case parse_unsigned 32 code of
               None \<Rightarrow> False | Some extended \<Rightarrow> extended mod 256 = 5 \<or> extended mod 256 = 6))"

datatype sqlx_error = SqlxDatabase "rstr option" | SqlxPoolTimedOut | SqlxPoolClosed | SqlxRowNotFound | SqlxOther

definition from_database :: "sqlx_error \<Rightarrow> rstr \<Rightarrow> app_error" where
  "from_database source request_id =
     app_error_new (case source of
         SqlxDatabase code \<Rightarrow> if sqlite_code_is_busy code then DatabaseBusy else Internal
       | SqlxPoolTimedOut \<Rightarrow> DatabaseBusy
       | SqlxPoolClosed \<Rightarrow> DatabaseBusy
       | _ \<Rightarrow> Internal) request_id"

lemma parse_unsigned_digits:
  assumes "n < 2 ^ bits"
  shows "parse_unsigned bits (nat_digits n) = Some n"
proof -
  have "hd (nat_digits n) \<noteq> 43"
    using nat_digits_ascii[of n] hd_in_set[OF nat_digits_nonempty, of n]
    by (fastforce simp: is_ascii_digit_def)
  then have "strip_prefix_or (str ''+'') (nat_digits n) = nat_digits n"
    by (cases "nat_digits n") (simp_all add: strip_prefix_or_def)
  then show ?thesis
    using assms nat_digits_ascii[of n] by (simp add: parse_unsigned_def list_all_iff)
qed

lemma adapter_text_code:
  "classify_source_error (adapter_source_debug s @ str '' adapter error: '' @ adapter_code_debug c) =
     (case c of
        adapter_error_code.Unauthorized \<Rightarrow> AuthenticationExpired
      | adapter_error_code.Timeout \<Rightarrow> Timeout
      | InvalidResponse \<Rightarrow> Validation
      | _ \<Rightarrow> Internal)"
  by (induct s; induct c; code_simp)

text \<open>Going through the text of an adapter's error loses its code exactly for a rate limit, for an
  unsupported operation and for an invalid response.\<close>

theorem adapter_text_classified:
  "classify_source_error (adapter_error_display e) = code_of_adapter (ae_code e) \<longleftrightarrow>
   ae_code e \<notin> {adapter_error_code.RateLimited, Unsupported, InvalidResponse}"
  unfolding adapter_error_display_def adapter_text_code
  by (cases "ae_code e") (simp_all add: code_of_adapter_def)

end
