(* ===== verification/OutboxQueue.thy ===== *)
theory OutboxQueue
imports StateMachines
begin

text \<open>
  The table of the compose outbox and its statements (\<^verbatim>\<open>src/src/db/queries/compose_outbox.rs\<close> over
  \<^verbatim>\<open>src/migrations/036_create_compose_outbox.sql\<close>). The table is the list of its rows in the order of
  \<^verbatim>\<open>rowid\<close>, which SQLite counts up from the largest one. A time stands for the text that \<^verbatim>\<open>now\<close> of
  \<^verbatim>\<open>src/src/services/compose_outbox.rs\<close> prints, whose fixed width makes the comparison of texts the
  comparison of times. A statement runs alone: the writer holds the database.
\<close>

section \<open>Rows\<close>

datatype outbox_state = Queued | Sending | Retrying | Failed | Uncertain | Succeeded | Cancelled

record outbox_row =
  cr_rowid :: nat
  cr_id :: rstr
  cr_kind :: rstr
  cr_acct :: rstr
  cr_payload :: rstr
  cr_state :: outbox_state
  cr_attempts :: nat
  cr_last_error :: "rstr option"
  cr_next_attempt_at :: nat
  cr_created_at :: nat
  cr_updated_at :: nat
  cr_completed_at :: "nat option"
  cr_status_id :: "rstr option"
  cr_server_domain :: "rstr option"

type_synonym outbox_table = "outbox_row list"

definition waiting_state :: "outbox_state \<Rightarrow> bool" where
  "waiting_state st \<longleftrightarrow> st = Queued \<or> st = Retrying"

definition active_state :: "outbox_state \<Rightarrow> bool" where
  "active_state st \<longleftrightarrow> st = Queued \<or> st = Sending \<or> st = Retrying"

definition retryable_state :: "outbox_state \<Rightarrow> bool" where
  "retryable_state st \<longleftrightarrow> st = Failed \<or> st = Uncertain \<or> st = Cancelled"

definition cancellable_state :: "outbox_state \<Rightarrow> bool" where
  "cancellable_state st \<longleftrightarrow> st = Queued \<or> st = Retrying \<or> st = Failed \<or> st = Uncertain"

lemmas outbox_states = waiting_state_def active_state_def retryable_state_def cancellable_state_def

section \<open>Statements\<close>

text \<open>\<^verbatim>\<open>INSERT\<close>: the checks of the schema are the primary key, the kinds and the account.\<close>

definition next_rowid :: "outbox_table \<Rightarrow> nat" where
  "next_rowid rows = fold max (map cr_rowid rows) 0 + 1"

definition enqueue_on ::
  "rstr list \<Rightarrow> rstr \<Rightarrow> rstr \<Rightarrow> rstr \<Rightarrow> rstr \<Rightarrow> nat \<Rightarrow> outbox_table \<Rightarrow> outbox_row option \<times> outbox_table" where
  "enqueue_on accounts i kind acct payload now rows =
     (if i \<in> set (map cr_id rows) \<or> (kind \<noteq> str ''post'' \<and> kind \<noteq> str ''edit'') \<or> acct \<notin> set accounts
      then (None, rows)
      else
        (let r = \<lparr>cr_rowid = next_rowid rows, cr_id = i, cr_kind = kind, cr_acct = acct,
                  cr_payload = payload, cr_state = Queued, cr_attempts = 0, cr_last_error = None,
                  cr_next_attempt_at = now, cr_created_at = now, cr_updated_at = now,
                  cr_completed_at = None, cr_status_id = None, cr_server_domain = None\<rparr>
         in (Some r, rows @ [r])))"

definition outbox_get :: "rstr \<Rightarrow> outbox_table \<Rightarrow> outbox_row option" where
  "outbox_get i rows = find (\<lambda>r. cr_id r = i) rows"

definition state_rank :: "outbox_state \<Rightarrow> nat" where
  "state_rank st = (case st of
     Sending \<Rightarrow> 0 | Queued \<Rightarrow> 1 | Retrying \<Rightarrow> 2 | Failed \<Rightarrow> 3 | Uncertain \<Rightarrow> 3 | _ \<Rightarrow> 4)"

text \<open>Rows that agree in both keys come in some order, here that of the table.\<close>

definition outbox_list :: "outbox_table \<Rightarrow> outbox_row list" where
  "outbox_list rows = take 100
     (sort_key (\<lambda>r. state_rank (cr_state r)) (sort_key (\<lambda>r. - int (cr_created_at r)) rows))"

text \<open>\<^verbatim>\<open>UPDATE ... WHERE id = ? AND state IN (...)\<close>, with \<^verbatim>\<open>rows_affected\<close>.\<close>

definition update_where ::
  "(outbox_row \<Rightarrow> bool) \<Rightarrow> (outbox_row \<Rightarrow> outbox_row) \<Rightarrow> outbox_table \<Rightarrow> nat \<times> outbox_table" where
  "update_where P f rows = (length (filter P rows), map (\<lambda>r. if P r then f r else r) rows)"

definition interrupt_row :: "nat \<Rightarrow> outbox_row \<Rightarrow> outbox_row" where
  "interrupt_row now r = r\<lparr>cr_state := Uncertain, cr_last_error := Some (str ''errors.delivery_uncertain''),
     cr_updated_at := now\<rparr>"

definition recover_interrupted :: "nat \<Rightarrow> outbox_table \<Rightarrow> nat \<times> outbox_table" where
  "recover_interrupted now rows = update_where (\<lambda>r. cr_state r = Sending) (interrupt_row now) rows"

text \<open>The subquery of \<^verbatim>\<open>has_due\<close> and \<^verbatim>\<open>claim_next\<close>.\<close>

definition older :: "outbox_row \<Rightarrow> outbox_row \<Rightarrow> bool" where
  "older a b \<longleftrightarrow> cr_created_at a < cr_created_at b \<or>
     cr_created_at a = cr_created_at b \<and> cr_rowid a < cr_rowid b"

definition due :: "nat \<Rightarrow> outbox_table \<Rightarrow> outbox_row \<Rightarrow> bool" where
  "due now rows c \<longleftrightarrow> waiting_state (cr_state c) \<and> cr_next_attempt_at c \<le> now \<and>
     \<not> list_ex (\<lambda>r. cr_acct r = cr_acct c \<and> older r c \<and> active_state (cr_state r)) rows"

definition has_due :: "nat \<Rightarrow> outbox_table \<Rightarrow> bool" where
  "has_due now rows \<longleftrightarrow> list_ex (due now rows) rows"

definition oldest_row :: "outbox_row list \<Rightarrow> outbox_row option" where
  "oldest_row cs = (case cs of
     [] \<Rightarrow> None
   | c # cs \<Rightarrow> Some (fold (\<lambda>r best. if older r best then r else best) cs c))"

definition claim_row :: "nat \<Rightarrow> outbox_row \<Rightarrow> outbox_row" where
  "claim_row now r = r\<lparr>cr_state := Sending, cr_attempts := cr_attempts r + 1, cr_updated_at := now\<rparr>"

definition claim_next :: "nat \<Rightarrow> outbox_table \<Rightarrow> outbox_row option \<times> outbox_table" where
  "claim_next now rows =
     (case oldest_row (filter (due now rows) rows) of
        None \<Rightarrow> (None, rows)
      | Some c \<Rightarrow>
          (case update_where (\<lambda>r. cr_id r = cr_id c \<and> waiting_state (cr_state r)) (claim_row now) rows of
             (changed, rows') \<Rightarrow>
               if changed = 0 then (None, rows)
               else (find (\<lambda>r. cr_id r = cr_id c \<and> cr_state r = Sending) rows', rows')))"

text \<open>The updates answer the row as it then is; \<open>None\<close> is \<^verbatim>\<open>RowNotFound\<close> for the first two and a refusal for
  the last two.\<close>

definition mark_succeeded ::
  "rstr \<Rightarrow> rstr \<Rightarrow> rstr \<Rightarrow> nat \<Rightarrow> outbox_table \<Rightarrow> outbox_row option \<times> outbox_table" where
  "mark_succeeded i status_id server_domain now rows =
     (let rows = snd (update_where (\<lambda>r. cr_id r = i \<and> cr_state r = Sending)
        (\<lambda>r. r\<lparr>cr_state := Succeeded, cr_last_error := None, cr_completed_at := Some now,
               cr_status_id := Some status_id, cr_server_domain := Some server_domain,
               cr_updated_at := now\<rparr>) rows)
      in (outbox_get i rows, rows))"

definition update_failure ::
  "rstr \<Rightarrow> outbox_state \<Rightarrow> rstr \<Rightarrow> nat \<Rightarrow> nat \<Rightarrow> outbox_table \<Rightarrow> outbox_row option \<times> outbox_table" where
  "update_failure i st error next_attempt_at now rows =
     (let rows = snd (update_where (\<lambda>r. cr_id r = i \<and> cr_state r = Sending)
        (\<lambda>r. r\<lparr>cr_state := st, cr_last_error := Some error, cr_next_attempt_at := next_attempt_at,
               cr_updated_at := now\<rparr>) rows)
      in (outbox_get i rows, rows))"

definition mark_retrying :: "rstr \<Rightarrow> rstr \<Rightarrow> nat \<Rightarrow> nat \<Rightarrow> outbox_table \<Rightarrow> outbox_row option \<times> outbox_table" where
  "mark_retrying i error next_attempt_at now rows = update_failure i Retrying error next_attempt_at now rows"

definition mark_outbox_failed :: "rstr \<Rightarrow> rstr \<Rightarrow> nat \<Rightarrow> outbox_table \<Rightarrow> outbox_row option \<times> outbox_table" where
  "mark_outbox_failed i error now rows = update_failure i Failed error now now rows"

definition mark_uncertain :: "rstr \<Rightarrow> rstr \<Rightarrow> nat \<Rightarrow> outbox_table \<Rightarrow> outbox_row option \<times> outbox_table" where
  "mark_uncertain i error now rows = update_failure i Uncertain error now now rows"

definition retry_row :: "nat \<Rightarrow> outbox_row \<Rightarrow> outbox_row" where
  "retry_row now r = r\<lparr>cr_state := Queued, cr_last_error := None, cr_next_attempt_at := now,
     cr_completed_at := None, cr_updated_at := now\<rparr>"

definition outbox_retry :: "rstr \<Rightarrow> nat \<Rightarrow> outbox_table \<Rightarrow> outbox_row option \<times> outbox_table" where
  "outbox_retry i now rows =
     (case update_where (\<lambda>r. cr_id r = i \<and> retryable_state (cr_state r)) (retry_row now) rows of
        (changed, rows) \<Rightarrow> (if changed = 0 then None else outbox_get i rows, rows))"

definition cancel_row :: "nat \<Rightarrow> outbox_row \<Rightarrow> outbox_row" where
  "cancel_row now r = r\<lparr>cr_state := Cancelled, cr_completed_at := Some now, cr_updated_at := now\<rparr>"

definition outbox_cancel :: "rstr \<Rightarrow> nat \<Rightarrow> outbox_table \<Rightarrow> outbox_row option \<times> outbox_table" where
  "outbox_cancel i now rows =
     (case update_where (\<lambda>r. cr_id r = i \<and> cancellable_state (cr_state r)) (cancel_row now) rows of
        (changed, rows) \<Rightarrow> (if changed = 0 then None else outbox_get i rows, rows))"

text \<open>\<^verbatim>\<open>ON DELETE CASCADE\<close> of the account.\<close>

definition forget_account :: "rstr \<Rightarrow> outbox_table \<Rightarrow> outbox_table" where
  "forget_account acct rows = filter (\<lambda>r. cr_acct r \<noteq> acct) rows"

section \<open>Tables\<close>

definition table_ok :: "outbox_table \<Rightarrow> bool" where
  "table_ok rows \<longleftrightarrow> distinct (map cr_id rows) \<and> distinct (map cr_rowid rows)"

lemma older_irrefl [simp]: "\<not> older a a"
  by (simp add: older_def)

lemma older_trans: "older a b \<Longrightarrow> older b c \<Longrightarrow> older a c"
  by (auto simp: older_def)

lemma older_total: "cr_rowid a \<noteq> cr_rowid b \<Longrightarrow> older a b \<or> older b a"
  by (auto simp: older_def)

lemma fold_max_start: "n \<le> fold max ns (n::nat)"
proof (induction ns arbitrary: n)
  case (Cons m ns)
  have "n \<le> max m n" by simp
  also have "\<dots> \<le> fold max ns (max m n)" by (rule Cons.IH)
  finally show ?case by simp
qed simp

lemma fold_max_ge: "m \<in> set ns \<Longrightarrow> m \<le> fold max ns (n::nat)"
proof (induction ns arbitrary: n)
  case (Cons k ns)
  then show ?case using fold_max_start[of "max k n" ns] by auto
qed simp

lemma rowid_less_next: "r \<in> set rows \<Longrightarrow> cr_rowid r < next_rowid rows"
  using fold_max_ge[of "cr_rowid r" "map cr_rowid rows" 0] by (simp add: next_rowid_def)

lemma table_unique: "table_ok rows \<Longrightarrow> a \<in> set rows \<Longrightarrow> b \<in> set rows \<Longrightarrow> cr_id a = cr_id b \<Longrightarrow> a = b"
  by (metis table_ok_def distinct_map inj_onD)

lemma find_SomeD: "find P xs = Some x \<Longrightarrow> x \<in> set xs \<and> P x"
  by (auto simp: find_Some_iff)

lemma get_Some: "outbox_get i rows = Some r \<Longrightarrow> r \<in> set rows \<and> cr_id r = i"
  by (auto simp: outbox_get_def find_Some_iff)

lemma get_None: "outbox_get i rows = None \<longleftrightarrow> i \<notin> cr_id ` set rows"
  by (auto simp: outbox_get_def find_None_iff)

lemma get_member: "table_ok rows \<Longrightarrow> r \<in> set rows \<Longrightarrow> outbox_get (cr_id r) rows = Some r"
  by (metis get_None get_Some imageI not_None_eq table_unique)

text \<open>An update that keeps the keys and the place of the rows.\<close>

definition keeps_keys :: "(outbox_row \<Rightarrow> outbox_row) \<Rightarrow> bool" where
  "keeps_keys f \<longleftrightarrow> (\<forall>r. cr_id (f r) = cr_id r \<and> cr_rowid (f r) = cr_rowid r \<and> cr_acct (f r) = cr_acct r \<and>
     cr_created_at (f r) = cr_created_at r)"

lemma update_table_ok:
  assumes "table_ok rows" and "keeps_keys f"
  shows "table_ok (snd (update_where P f rows))"
proof -
  have "map cr_id (snd (update_where P f rows)) = map cr_id rows"
    "map cr_rowid (snd (update_where P f rows)) = map cr_rowid rows"
    using assms(2) by (auto simp: update_where_def keeps_keys_def)
  then show ?thesis using assms(1) by (simp add: table_ok_def)
qed

lemma enqueue_table_ok:
  assumes "table_ok rows" and "enqueue_on accounts i kind acct payload now rows = (r, rows')"
  shows "table_ok rows'"
  using assms rowid_less_next[of _ rows]
  by (fastforce simp: enqueue_on_def table_ok_def Let_def split: if_splits)

lemma forget_table_ok: "table_ok rows \<Longrightarrow> table_ok (forget_account acct rows)"
  by (simp add: table_ok_def forget_account_def distinct_map_filter)

section \<open>Claims\<close>

lemma fold_oldest:
  "\<forall>a \<in> insert c (set cs). \<forall>b \<in> insert c (set cs). a = b \<or> older a b \<or> older b a \<Longrightarrow>
   (let best = fold (\<lambda>r best. if older r best then r else best) cs c in
    best \<in> insert c (set cs) \<and> (\<forall>r \<in> insert c (set cs). r = best \<or> older best r))"
proof (induction cs arbitrary: c)
  case (Cons r cs)
  let ?c = "if older r c then r else c"
  have "insert ?c (set cs) \<subseteq> insert c (set (r # cs))" by auto
  with Cons.prems have "\<forall>a \<in> insert ?c (set cs). \<forall>b \<in> insert ?c (set cs). a = b \<or> older a b \<or> older b a"
    by (meson subsetD)
  from Cons.IH[OF this] have IH: "let best = fold (\<lambda>r best. if older r best then r else best) cs ?c in
      best \<in> insert ?c (set cs) \<and> (\<forall>r \<in> insert ?c (set cs). r = best \<or> older best r)" .
  have "c = ?c \<or> older ?c c" "r = ?c \<or> older ?c r"
    using Cons.prems by auto
  with IH show ?case by (auto simp: Let_def dest: older_trans)
qed simp

lemma oldest_row_Some:
  assumes "oldest_row cs = Some b" and "\<forall>a \<in> set cs. \<forall>b \<in> set cs. a = b \<or> older a b \<or> older b a"
  shows "b \<in> set cs \<and> (\<forall>r \<in> set cs. r = b \<or> older b r)"
  using assms fold_oldest[of "hd cs" "tl cs"]
  by (cases cs) (auto simp: oldest_row_def Let_def)

lemma table_total: "table_ok rows \<Longrightarrow> a \<in> set rows \<Longrightarrow> b \<in> set rows \<Longrightarrow> a = b \<or> older a b \<or> older b a"
  by (metis table_ok_def distinct_map inj_onD older_total)

text \<open>The claimed row is the oldest one that is due; the table changes in this row only.\<close>

lemma claim_next_cases:
  assumes "table_ok rows"
  obtains (none) "\<not> has_due now rows" "claim_next now rows = (None, rows)"
  | (some) c where "c \<in> set rows" "due now rows c" "\<forall>r \<in> set rows. due now rows r \<longrightarrow> r = c \<or> older c r"
      "claim_next now rows =
         (Some (claim_row now c), map (\<lambda>r. if r = c then claim_row now c else r) rows)"
proof (cases "oldest_row (filter (due now rows) rows)")
  case None
  then have empty: "filter (due now rows) rows = []"
    by (cases "filter (due now rows) rows") (simp_all add: oldest_row_def)
  then have "\<not> has_due now rows"
    by (metis filter_empty_conv has_due_def list_ex_iff)
  then show ?thesis using none None by (simp add: claim_next_def)
next
  case (Some c)
  then have "c \<in> set (filter (due now rows) rows) \<and> (\<forall>r \<in> set (filter (due now rows) rows). r = c \<or> older c r)"
    using table_total[OF assms] by (intro oldest_row_Some) auto
  then have c: "c \<in> set rows" "due now rows c" "\<forall>r \<in> set rows. due now rows r \<longrightarrow> r = c \<or> older c r"
    by auto
  let ?P = "\<lambda>r. cr_id r = cr_id c \<and> waiting_state (cr_state r)"
  let ?rows = "map (\<lambda>r. if r = c then claim_row now c else r) rows"
  have w: "waiting_state (cr_state c)" using c(2) by (simp add: due_def)
  have "?P r \<longleftrightarrow> r = c" if "r \<in> set rows" for r
    using table_unique[OF assms that c(1)] w by auto
  then have up: "snd (update_where ?P (claim_row now) rows) = ?rows" "fst (update_where ?P (claim_row now) rows) \<noteq> 0"
    using c(1) by (auto simp: update_where_def filter_empty_conv w)
  have "table_ok ?rows"
    using update_table_ok[OF assms, of "claim_row now" ?P] up(1)
    by (simp add: keeps_keys_def claim_row_def)
  have claimed: "claim_row now c \<in> set ?rows" using c(1) by force
  moreover have "cr_id (claim_row now c) = cr_id c \<and> cr_state (claim_row now c) = Sending"
    by (simp add: claim_row_def)
  ultimately have "find (\<lambda>r. cr_id r = cr_id c \<and> cr_state r = Sending) ?rows \<noteq> None"
    unfolding find_None_iff by blast
  then obtain f where f: "find (\<lambda>r. cr_id r = cr_id c \<and> cr_state r = Sending) ?rows = Some f" by blast
  then have "f \<in> set ?rows" "cr_id f = cr_id c" by (blast dest: find_SomeD)+
  then have "f = claim_row now c"
    using table_unique[OF \<open>table_ok ?rows\<close> _ claimed] by (simp add: claim_row_def)
  then have "claim_next now rows = (Some (claim_row now c), ?rows)"
    using Some f up by (simp add: claim_next_def case_prod_unfold)
  then show ?thesis using some c by blast
qed

lemma claim_found:
  assumes "table_ok rows" and "claim_next now rows = (Some r, rows')"
  obtains c where "c \<in> set rows" "due now rows c" "r = claim_row now c"
    "rows' = map (\<lambda>r. if r = c then claim_row now c else r) rows"
proof (cases rule: claim_next_cases[OF assms(1), of now])
  case 1
  then show ?thesis using assms(2) by simp
next
  case (2 c)
  have "(Some r, rows') = (Some (claim_row now c), map (\<lambda>r. if r = c then claim_row now c else r) rows)"
    using 2(4) assms(2) by argo
  then show ?thesis using 2(1,2) that by blast
qed

text \<open>C30: a claim takes the oldest due row and no other: nothing is claimed exactly if nothing is due, the
  claimed row was waiting, its time had come and no older row of its account was waiting or being sent;
  the table then differs in this row alone, which is being sent for one more attempt.\<close>

theorem claim_is_oldest_due:
  assumes "table_ok rows"
  shows "case claim_next now rows of
      (None, rows') \<Rightarrow> \<not> has_due now rows \<and> rows' = rows
    | (Some r, rows') \<Rightarrow> (\<exists>c \<in> set rows. r = claim_row now c \<and> due now rows c \<and>
        (\<forall>d \<in> set rows. due now rows d \<longrightarrow> d = c \<or> older c d) \<and>
        rows' = map (\<lambda>d. if d = c then r else d) rows)"
  using assms by (rule claim_next_cases[where now = now]) auto

definition sample_rows :: outbox_table where
  "sample_rows =
     (let row = \<lambda>n i a st t. \<lparr>cr_rowid = n, cr_id = str i, cr_kind = str ''post'', cr_acct = str a,
        cr_payload = str ''{}'', cr_state = st, cr_attempts = 0, cr_last_error = None,
        cr_next_attempt_at = t, cr_created_at = n, cr_updated_at = n, cr_completed_at = None,
        cr_status_id = None, cr_server_domain = None\<rparr>
      in [row 1 ''a1'' ''alice'' Retrying 90, row 2 ''a2'' ''alice'' Queued 2, row 3 ''b1'' ''bob'' Queued 3])"

theorem claim_is_oldest_due_witness:
  "\<exists>r rows'. claim_next 60 sample_rows = (Some r, rows') \<and> cr_id r = str ''b1'' \<and>
     rows' = map (\<lambda>d. if d = sample_rows ! 2 then r else d) sample_rows"
proof -
  have "table_ok sample_rows" by code_simp
  note claim = claim_is_oldest_due[OF this, of 60]
  have "\<not> due 60 sample_rows (sample_rows ! 0)" "\<not> due 60 sample_rows (sample_rows ! 1)"
    "has_due 60 sample_rows" by code_simp+
  moreover have "set sample_rows = {sample_rows ! 0, sample_rows ! 1, sample_rows ! 2}"
    by (simp add: sample_rows_def Let_def)
  moreover have "cr_id (sample_rows ! 2) = str ''b1''" by code_simp
  ultimately show ?thesis
    using claim by (auto split: prod.splits option.splits simp: claim_row_def)
qed

end
