(* ===== verification/ComposeOutbox.thy ===== *)
theory ComposeOutbox
imports AppErrors OutboxQueue
begin

text \<open>
  The worker of the compose outbox (\<^verbatim>\<open>src/src/services/compose_outbox.rs\<close>) over its table: what
  follows from the answer of a provider, the recovery at the start, and the actions of the worker, of
  its delivery tasks and of the user, one database statement or one answer each, in any order. What
  the provider answers and how a payload is parsed are arguments; \<open>K\<close> is the kind of the server of an
  account, and the session that \<^verbatim>\<open>acting_session\<close> finds is one of that kind or none. An operation id is
  a new UUID of the frontend.

  The history of the actions is kept along; \<open>item_state\<close>, \<open>attempts_of\<close>, \<open>account_of\<close> and \<open>heard\<close> read off
  it what the table must hold. The theorems: the table refines the history; no item is sent a second
  time without a definite refusal or a wish of the user, unless its provider recognises repetitions;
  attempts are bounded; deliveries of one account overlap only after a retry of the older one.
\<close>

section \<open>One delivery\<close>

definition max_automatic_attempts :: nat where "max_automatic_attempts = 6"
definition max_concurrent_deliveries :: nat where "max_concurrent_deliveries = 4"

datatype server_kind = Mastodon | Paon | Misskey | Bluesky

text \<open>The session of the acting account, if there is one.\<close>

definition idempotent_provider :: "server_kind option \<Rightarrow> bool" where
  "idempotent_provider session = (case session of
     None \<Rightarrow> False | Some kind \<Rightarrow> kind = Mastodon \<or> kind = Paon \<or> kind = Bluesky)"

type_synonym delivered = "app_error + rstr \<times> rstr"

text \<open>For each kind the parser of its payload and the delivery, which is handed the id of the item.\<close>

record delivery_env =
  de_post :: "rstr \<Rightarrow> rstr + (rstr \<Rightarrow> delivered)"
  de_edit :: "rstr \<Rightarrow> rstr + (rstr \<Rightarrow> delivered)"

definition delivery_result :: "delivery_env \<Rightarrow> outbox_row \<Rightarrow> delivered" where
  "delivery_result E r =
     (if cr_kind r = str ''post'' then
        (case de_post E (cr_payload r) of
           Inl error \<Rightarrow> Inl (from_source error (cr_id r)) | Inr deliver \<Rightarrow> deliver (cr_id r))
      else if cr_kind r = str ''edit'' then
        (case de_edit E (cr_payload r) of
           Inl error \<Rightarrow> Inl (from_source error (cr_id r)) | Inr deliver \<Rightarrow> deliver (cr_id r))
      else Inl (app_error_new Validation (cr_id r)))"

definition outbox_retry_delay :: "nat \<Rightarrow> app_error \<Rightarrow> nat" where
  "outbox_retry_delay attempts e =
     (case Option.bind (er_retry_after e) (parse_unsigned 64) of
        Some n \<Rightarrow> secs (max 1 (min n 3600))
      | None \<Rightarrow> secs (if attempts \<le> 1 then 5 else if attempts = 2 then 15 else if attempts = 3 then 45
                      else if attempts = 4 then 120 else 300))"

datatype outcome = MarkSucceeded rstr rstr | MarkRetrying rstr nat | MarkUncertain rstr | MarkFailed rstr

definition retry_is_unambiguous :: "app_error \<Rightarrow> bool" where
  "retry_is_unambiguous e \<longleftrightarrow> er_code e = RateLimited \<or> er_code e = DatabaseBusy"

definition delivery_may_be_ambiguous :: "app_error \<Rightarrow> bool" where
  "delivery_may_be_ambiguous e \<longleftrightarrow> er_code e = Timeout \<or> er_code e = Internal"

definition delivery_outcome :: "server_kind option \<Rightarrow> nat \<Rightarrow> delivered \<Rightarrow> outcome" where
  "delivery_outcome session attempts result =
     (case result of
        Inr (status_id, server_domain) \<Rightarrow> MarkSucceeded status_id server_domain
      | Inl e \<Rightarrow>
          if attempts < max_automatic_attempts \<and>
            (retry_is_unambiguous e \<or> idempotent_provider session \<and> delivery_may_be_ambiguous e)
          then MarkRetrying (er_message_key e) (outbox_retry_delay attempts e)
          else if delivery_may_be_ambiguous e \<and> \<not> idempotent_provider session
          then MarkUncertain (str ''errors.delivery_uncertain'')
          else MarkFailed (er_message_key e))"

text \<open>\<open>later\<close> is the second reading of the clock, for the time of the next attempt.\<close>

definition record_outcome ::
  "outcome \<Rightarrow> rstr \<Rightarrow> nat \<Rightarrow> nat \<Rightarrow> outbox_table \<Rightarrow> outbox_row option \<times> outbox_table" where
  "record_outcome out i now later rows = (case out of
     MarkSucceeded status_id server_domain \<Rightarrow> mark_succeeded i status_id server_domain now rows
   | MarkRetrying key delay \<Rightarrow> mark_retrying i key (later + delay) now rows
   | MarkUncertain key \<Rightarrow> mark_uncertain i key now rows
   | MarkFailed key \<Rightarrow> mark_outbox_failed i key now rows)"

text \<open>What the frontend is shown: \<open>status_text\<close> is the text of a parsed payload, by kind.\<close>

record outbox_item_view =
  iv_id :: rstr
  iv_kind :: rstr
  iv_acct :: rstr
  iv_preview :: rstr
  iv_state :: outbox_state
  iv_attempts :: nat
  iv_last_error :: "rstr option"
  iv_next_attempt_at :: nat
  iv_created_at :: nat
  iv_updated_at :: nat
  iv_completed_at :: "nat option"
  iv_status_id :: "rstr option"
  iv_server_domain :: "rstr option"

definition truncate_preview :: "rstr \<Rightarrow> nat \<Rightarrow> rstr" where
  "truncate_preview s maximum = (if length s > maximum then take maximum s @ [0x2026] else s)"

definition row_to_view :: "(rstr \<Rightarrow> rstr \<Rightarrow> rstr option) \<Rightarrow> outbox_row \<Rightarrow> outbox_item_view" where
  "row_to_view status_text r =
     (let content = (if cr_kind r = str ''post'' \<or> cr_kind r = str ''edit''
        then (case status_text (cr_kind r) (cr_payload r) of None \<Rightarrow> [] | Some s \<Rightarrow> s) else [])
      in \<lparr>iv_id = cr_id r, iv_kind = cr_kind r, iv_acct = cr_acct r,
          iv_preview = truncate_preview (trim content) 160, iv_state = cr_state r,
          iv_attempts = cr_attempts r, iv_last_error = cr_last_error r,
          iv_next_attempt_at = cr_next_attempt_at r, iv_created_at = cr_created_at r,
          iv_updated_at = cr_updated_at r, iv_completed_at = cr_completed_at r,
          iv_status_id = cr_status_id r, iv_server_domain = cr_server_domain r\<rparr>)"

lemma preview_short: "length (iv_preview (row_to_view status_text r)) \<le> 161"
  by (simp add: row_to_view_def truncate_preview_def Let_def)

section \<open>The actions\<close>

datatype outbox_event =
  Enqueued rstr rstr
| Requested rstr
| Revoked rstr
| Resumed rstr
| Claimed rstr
| Answered rstr "server_kind option" delivered
| Recorded rstr outcome
| Interrupted

datatype worker_state = WorkerOff | WorkerListing | WorkerResuming "outbox_row list" | WorkerOn

datatype delivery_task = TaskSending outbox_row | TaskAnswered outbox_row outcome | TaskEnded

record outbox_sys =
  ox_accounts :: "rstr list"
  ox_rows :: outbox_table
  ox_worker :: worker_state
  ox_tasks :: "delivery_task list"
  ox_history :: "outbox_event list"

definition fresh_item :: "rstr \<Rightarrow> outbox_event list \<Rightarrow> bool" where
  "fresh_item i l \<longleftrightarrow> \<not> list_ex (\<lambda>e. case e of Enqueued j _ \<Rightarrow> j = i | _ \<Rightarrow> False) l"

definition session_of :: "(rstr \<Rightarrow> server_kind) \<Rightarrow> rstr \<Rightarrow> bool \<Rightarrow> server_kind option" where
  "session_of K acct found = (if found then Some (K acct) else None)"

text \<open>What the recovery at the start resumes.\<close>

definition interrupted_items :: "outbox_table \<Rightarrow> outbox_row list" where
  "interrupted_items rows = filter (\<lambda>r. cr_state r = Uncertain \<and>
     cr_last_error r = Some (str ''errors.delivery_uncertain'')) (outbox_list rows)"

datatype outbox_action =
  Login rstr
| Logout rstr
| Enqueue rstr rstr rstr rstr nat
| Retry rstr nat
| Cancel rstr nat
| Start nat bool
| ListInterrupted bool
| Resume bool bool nat
| Ready
| Claim nat
| Answer nat bool delivery_env
| Record nat nat nat
| Lose nat
| Join nat
| Stop

fun outbox_act :: "(rstr \<Rightarrow> server_kind) \<Rightarrow> outbox_action \<Rightarrow> outbox_sys \<Rightarrow> outbox_sys option" where
  "outbox_act K (Login acct) s = Some (s\<lparr>ox_accounts := acct # ox_accounts s\<rparr>)"
| "outbox_act K (Logout acct) s = Some (s\<lparr>ox_accounts := filter (\<lambda>a. a \<noteq> acct) (ox_accounts s),
     ox_rows := forget_account acct (ox_rows s)\<rparr>)"
| "outbox_act K (Enqueue i kind acct payload now) s =
     (case enqueue_on (ox_accounts s) i kind acct payload now (ox_rows s) of
        (Some _, rows) \<Rightarrow>
          if fresh_item i (ox_history s)
          then Some (s\<lparr>ox_rows := rows, ox_history := Enqueued i acct # ox_history s\<rparr>) else None
      | (None, _) \<Rightarrow> None)"
| "outbox_act K (Retry i now) s =
     (case outbox_retry i now (ox_rows s) of
        (Some _, rows) \<Rightarrow> Some (s\<lparr>ox_rows := rows, ox_history := Requested i # ox_history s\<rparr>)
      | (None, _) \<Rightarrow> None)"
| "outbox_act K (Cancel i now) s =
     (case outbox_cancel i now (ox_rows s) of
        (Some _, rows) \<Rightarrow> Some (s\<lparr>ox_rows := rows, ox_history := Revoked i # ox_history s\<rparr>)
      | (None, _) \<Rightarrow> None)"
| "outbox_act K (Start now stored) s =
     (if ox_worker s \<noteq> WorkerOff then None
      else if stored
      then Some (s\<lparr>ox_worker := WorkerListing, ox_rows := snd (recover_interrupted now (ox_rows s)),
             ox_history := Interrupted # ox_history s\<rparr>)
      else Some (s\<lparr>ox_worker := WorkerListing\<rparr>))"
| "outbox_act K (ListInterrupted answered) s =
     (if ox_worker s \<noteq> WorkerListing then None
      else if answered then Some (s\<lparr>ox_worker := WorkerResuming (interrupted_items (ox_rows s))\<rparr>)
      else Some (s\<lparr>ox_worker := WorkerOn\<rparr>))"
| "outbox_act K (Resume found stored now) s =
     (case ox_worker s of
        WorkerResuming (r # rs) \<Rightarrow>
          (let s = s\<lparr>ox_worker := WorkerResuming rs\<rparr> in
           if idempotent_provider (session_of K (cr_acct r) found) \<and> stored
           then (case outbox_retry (cr_id r) now (ox_rows s) of
                   (Some _, rows) \<Rightarrow>
                     Some (s\<lparr>ox_rows := rows, ox_history := Resumed (cr_id r) # ox_history s\<rparr>)
                 | (None, _) \<Rightarrow> Some s)
           else Some s)
      | _ \<Rightarrow> None)"
| "outbox_act K Ready s =
     (if ox_worker s = WorkerResuming [] then Some (s\<lparr>ox_worker := WorkerOn\<rparr>) else None)"
| "outbox_act K (Claim now) s =
     (if ox_worker s = WorkerOn \<and> length (ox_tasks s) < max_concurrent_deliveries
      then (case claim_next now (ox_rows s) of
              (Some r, rows) \<Rightarrow> Some (s\<lparr>ox_rows := rows, ox_tasks := ox_tasks s @ [TaskSending r],
                 ox_history := Claimed (cr_id r) # ox_history s\<rparr>)
            | (None, _) \<Rightarrow> None)
      else None)"
| "outbox_act K (Answer n found E) s =
     (case drop n (ox_tasks s) of
        TaskSending r # ts \<Rightarrow>
          (let session = session_of K (cr_acct r) found; result = delivery_result E r in
           Some (s\<lparr>ox_tasks := take n (ox_tasks s) @
               TaskAnswered r (delivery_outcome session (cr_attempts r) result) # ts,
             ox_history := Answered (cr_id r) session result # ox_history s\<rparr>))
      | _ \<Rightarrow> None)"
| "outbox_act K (Record n now later) s =
     (case drop n (ox_tasks s) of
        TaskAnswered r out # ts \<Rightarrow>
          (let s = s\<lparr>ox_tasks := take n (ox_tasks s) @ TaskEnded # ts\<rparr> in
           case record_outcome out (cr_id r) now later (ox_rows s) of
             (Some _, rows) \<Rightarrow>
               Some (s\<lparr>ox_rows := rows, ox_history := Recorded (cr_id r) out # ox_history s\<rparr>)
           | (None, _) \<Rightarrow> Some s)
      | _ \<Rightarrow> None)"
| "outbox_act K (Lose n) s =
     (case drop n (ox_tasks s) of
        t # ts \<Rightarrow> Some (s\<lparr>ox_tasks := take n (ox_tasks s) @ TaskEnded # ts\<rparr>)
      | [] \<Rightarrow> None)"
| "outbox_act K (Join n) s =
     (case drop n (ox_tasks s) of
        TaskEnded # ts \<Rightarrow> Some (s\<lparr>ox_tasks := take n (ox_tasks s) @ ts\<rparr>)
      | _ \<Rightarrow> None)"
| "outbox_act K Stop s = Some (s\<lparr>ox_worker := WorkerOff, ox_tasks := []\<rparr>)"

definition outbox_step :: "(rstr \<Rightarrow> server_kind) \<Rightarrow> outbox_sys \<Rightarrow> outbox_sys \<Rightarrow> bool" where
  "outbox_step K s s' \<longleftrightarrow> (\<exists>a. outbox_act K a s = Some s')"

definition outbox_init :: "outbox_sys \<Rightarrow> bool" where
  "outbox_init s \<longleftrightarrow>
     s = \<lparr>ox_accounts = [], ox_rows = [], ox_worker = WorkerOff, ox_tasks = [], ox_history = []\<rparr>"

abbreviation outbox_reach :: "(rstr \<Rightarrow> server_kind) \<Rightarrow> outbox_sys \<Rightarrow> bool" where
  "outbox_reach K \<equiv> reach outbox_init (outbox_step K)"

fun outbox_run :: "(rstr \<Rightarrow> server_kind) \<Rightarrow> outbox_action list \<Rightarrow> outbox_sys \<Rightarrow> outbox_sys option" where
  "outbox_run K [] s = Some s"
| "outbox_run K (a # as) s = Option.bind (outbox_act K a s) (outbox_run K as)"

lemma outbox_run_reach: "outbox_run K as s = Some s' \<Longrightarrow> outbox_reach K s \<Longrightarrow> outbox_reach K s'"
proof (induction "as" arbitrary: s)
  case (Cons a "as")
  then obtain s1 where "outbox_act K a s = Some s1" "outbox_run K as s1 = Some s'"
    by (auto simp: bind_eq_Some_conv)
  with Cons show ?case by (metis outbox_step_def reach_step)
qed simp

end
