(* ===== verification/OutboxHistory.thy ===== *)
theory OutboxHistory
imports ComposeOutbox
begin

text \<open>
  The abstract specification of the compose outbox: what the history of its actions says of an item,
  which histories happen, and the proof that the table and the tasks of \<open>ComposeOutbox\<close> refine it.
\<close>

section \<open>What a history says\<close>

definition state_after :: "outcome \<Rightarrow> outbox_state" where
  "state_after out = (case out of
     MarkSucceeded _ _ \<Rightarrow> Succeeded | MarkRetrying _ _ \<Rightarrow> Retrying | MarkUncertain _ \<Rightarrow> Uncertain
   | MarkFailed _ \<Rightarrow> Failed)"

fun item_state :: "rstr \<Rightarrow> outbox_event list \<Rightarrow> outbox_state option" where
  "item_state i [] = None"
| "item_state i (Enqueued j _ # l) = (if j = i then Some Queued else item_state i l)"
| "item_state i (Requested j # l) = (if j = i then Some Queued else item_state i l)"
| "item_state i (Resumed j # l) = (if j = i then Some Queued else item_state i l)"
| "item_state i (Claimed j # l) = (if j = i then Some Sending else item_state i l)"
| "item_state i (Recorded j out # l) = (if j = i then Some (state_after out) else item_state i l)"
| "item_state i (Revoked j # l) = (if j = i then Some Cancelled else item_state i l)"
| "item_state i (Interrupted # l) =
     (if item_state i l = Some Sending then Some Uncertain else item_state i l)"
| "item_state i (Answered _ _ _ # l) = item_state i l"

fun account_of :: "rstr \<Rightarrow> outbox_event list \<Rightarrow> rstr option" where
  "account_of i [] = None"
| "account_of i (Enqueued j acct # l) = (if j = i then Some acct else account_of i l)"
| "account_of i (e # l) = account_of i l"

fun attempts_of :: "rstr \<Rightarrow> outbox_event list \<Rightarrow> nat" where
  "attempts_of i [] = 0"
| "attempts_of i (Claimed j # l) = (if j = i then 1 else 0) + attempts_of i l"
| "attempts_of i (e # l) = attempts_of i l"

text \<open>The answer to the newest sending of an item.\<close>

fun heard :: "rstr \<Rightarrow> outbox_event list \<Rightarrow> (server_kind option \<times> delivered) option" where
  "heard i [] = None"
| "heard i (Claimed j # l) = (if j = i then None else heard i l)"
| "heard i (Answered j session result # l) = (if j = i then Some (session, result) else heard i l)"
| "heard i (e # l) = heard i l"

definition allowed_state :: "(outbox_state \<Rightarrow> bool) \<Rightarrow> rstr \<Rightarrow> outbox_event list \<Rightarrow> bool" where
  "allowed_state P i l \<longleftrightarrow> (\<exists>st. item_state i l = Some st \<and> P st)"

definition owned_session :: "(rstr \<Rightarrow> server_kind) \<Rightarrow> rstr \<Rightarrow> outbox_event list \<Rightarrow> server_kind option \<Rightarrow> bool" where
  "owned_session K i l session \<longleftrightarrow>
     (\<exists>acct found. account_of i l = Some acct \<and> session = session_of K acct found)"

fun event_fits :: "(rstr \<Rightarrow> server_kind) \<Rightarrow> outbox_event \<Rightarrow> outbox_event list \<Rightarrow> bool" where
  "event_fits K (Enqueued i acct) l \<longleftrightarrow> item_state i l = None"
| "event_fits K (Requested i) l \<longleftrightarrow> allowed_state retryable_state i l"
| "event_fits K (Revoked i) l \<longleftrightarrow> allowed_state cancellable_state i l"
| "event_fits K (Resumed i) l \<longleftrightarrow> allowed_state retryable_state i l \<and>
     (\<exists>acct. account_of i l = Some acct \<and> idempotent_provider (Some (K acct)))"
| "event_fits K (Claimed i) l \<longleftrightarrow> allowed_state waiting_state i l"
| "event_fits K (Answered i session result) l \<longleftrightarrow> item_state i l = Some Sending \<and> heard i l = None \<and>
     owned_session K i l session"
| "event_fits K (Recorded i out) l \<longleftrightarrow> item_state i l = Some Sending \<and>
     (\<exists>session result. heard i l = Some (session, result) \<and>
        out = delivery_outcome session (attempts_of i l) result)"
| "event_fits K Interrupted l \<longleftrightarrow> True"

fun outbox_history_ok :: "(rstr \<Rightarrow> server_kind) \<Rightarrow> outbox_event list \<Rightarrow> bool" where
  "outbox_history_ok K [] \<longleftrightarrow> True"
| "outbox_history_ok K (e # l) \<longleftrightarrow> event_fits K e l \<and> outbox_history_ok K l"

lemma outbox_history_suffix: "outbox_history_ok K (l @ l') \<Longrightarrow> outbox_history_ok K l'"
  by (induction l) auto

text \<open>The item that an event is about.\<close>

fun about :: "outbox_event \<Rightarrow> rstr option" where
  "about (Enqueued i _) = Some i"
| "about (Requested i) = Some i"
| "about (Revoked i) = Some i"
| "about (Resumed i) = Some i"
| "about (Claimed i) = Some i"
| "about (Answered i _ _) = Some i"
| "about (Recorded i _) = Some i"
| "about Interrupted = None"

lemma elsewhere [simp]:
  "about e = Some j \<Longrightarrow> j \<noteq> i \<Longrightarrow> item_state i (e # l) = item_state i l"
  "about e \<noteq> Some i \<Longrightarrow> account_of i (e # l) = account_of i l"
  "about e \<noteq> Some i \<Longrightarrow> attempts_of i (e # l) = attempts_of i l"
  "about e \<noteq> Some i \<Longrightarrow> heard i (e # l) = heard i l"
  by (cases e; simp)+

lemma account_known: "outbox_history_ok K l \<Longrightarrow> item_state i l = None \<longleftrightarrow> account_of i l = None"
proof (induction l)
  case (Cons e l)
  then show ?case
    by (cases e) (auto simp: allowed_state_def)
qed simp

lemma fresh_unknown: "outbox_history_ok K l \<Longrightarrow> fresh_item i l \<Longrightarrow> item_state i l = None"
proof (induction l)
  case (Cons e l)
  then show ?case
    by (cases e) (auto simp: allowed_state_def fresh_item_def)
qed simp

lemma attempts_unknown: "outbox_history_ok K l \<Longrightarrow> item_state i l = None \<Longrightarrow> attempts_of i l = 0"
proof (induction l)
  case (Cons e l)
  then show ?case
    by (cases e) (auto simp: allowed_state_def split: if_splits)
qed simp

section \<open>The invariant\<close>

definition row_fits :: "outbox_event list \<Rightarrow> outbox_row \<Rightarrow> bool" where
  "row_fits l r \<longleftrightarrow> item_state (cr_id r) l = Some (cr_state r) \<and> attempts_of (cr_id r) l = cr_attempts r \<and>
     account_of (cr_id r) l = Some (cr_acct r)"

definition sent_row :: "outbox_event list \<Rightarrow> outbox_row \<Rightarrow> bool" where
  "sent_row l r \<longleftrightarrow> item_state (cr_id r) l = Some Sending \<and> attempts_of (cr_id r) l = cr_attempts r \<and>
     account_of (cr_id r) l = Some (cr_acct r)"

fun task_fits :: "outbox_event list \<Rightarrow> delivery_task \<Rightarrow> bool" where
  "task_fits l (TaskSending r) \<longleftrightarrow> sent_row l r \<and> heard (cr_id r) l = None"
| "task_fits l (TaskAnswered r out) \<longleftrightarrow> sent_row l r \<and> (\<exists>session result.
     heard (cr_id r) l = Some (session, result) \<and> out = delivery_outcome session (cr_attempts r) result)"
| "task_fits l TaskEnded \<longleftrightarrow> True"

fun task_items :: "delivery_task list \<Rightarrow> rstr list" where
  "task_items [] = []"
| "task_items (TaskSending r # ts) = cr_id r # task_items ts"
| "task_items (TaskAnswered r _ # ts) = cr_id r # task_items ts"
| "task_items (TaskEnded # ts) = task_items ts"

definition worker_fits :: "outbox_event list \<Rightarrow> worker_state \<Rightarrow> bool" where
  "worker_fits l w \<longleftrightarrow> (case w of
     WorkerResuming rs \<Rightarrow> (\<forall>r \<in> set rs. account_of (cr_id r) l = Some (cr_acct r)) | _ \<Rightarrow> True)"

definition outbox_ok :: "(rstr \<Rightarrow> server_kind) \<Rightarrow> outbox_sys \<Rightarrow> bool" where
  "outbox_ok K s \<longleftrightarrow> table_ok (ox_rows s) \<and> outbox_history_ok K (ox_history s) \<and>
     (\<forall>r \<in> set (ox_rows s). row_fits (ox_history s) r) \<and>
     (\<forall>t \<in> set (ox_tasks s). task_fits (ox_history s) t) \<and> distinct (task_items (ox_tasks s)) \<and>
     worker_fits (ox_history s) (ox_worker s) \<and> (ox_worker s \<noteq> WorkerOn \<longrightarrow> ox_tasks s = [])"

lemma task_items_append [simp]: "task_items (ts @ us) = task_items ts @ task_items us"
  by (induction ts rule: task_items.induct) auto

lemma task_item_sending:
  "i \<in> set (task_items ts) \<Longrightarrow> \<forall>t \<in> set ts. task_fits l t \<Longrightarrow> item_state i l = Some Sending"
  by (induction ts rule: task_items.induct) (auto simp: sent_row_def)

text \<open>An event about another item, or one that keeps what a task rests on, disturbs no task.\<close>

lemma task_undisturbed:
  assumes "task_fits l t" and "about e = Some i" and "i \<notin> set (task_items [t])"
  shows "task_fits (e # l) t"
proof -
  have same: "item_state j (e # l) = item_state j l \<and> attempts_of j (e # l) = attempts_of j l \<and>
      account_of j (e # l) = account_of j l \<and> heard j (e # l) = heard j l"
    if "j \<in> set (task_items [t])" for j
  proof -
    have "i \<noteq> j" using that assms(3) by blast
    then show ?thesis using assms(2) elsewhere(1)[OF assms(2)] by simp
  qed
  show ?thesis
  proof (cases t)
    case (TaskSending r)
    then show ?thesis using assms(1) same[of "cr_id r"] by (simp add: sent_row_def)
  next
    case (TaskAnswered r out)
    then show ?thesis using assms(1) same[of "cr_id r"] by (simp add: sent_row_def)
  qed simp
qed

lemma tasks_undisturbed:
  assumes "\<forall>t \<in> set ts. task_fits l t" and "about e = Some i" and "i \<notin> set (task_items ts)"
  shows "\<forall>t \<in> set ts. task_fits (e # l) t"
proof
  fix t assume t: "t \<in> set ts"
  then obtain us vs where "ts = us @ [t] @ vs" by (metis append_Cons append_Nil split_list)
  then have "task_items ts = task_items us @ task_items [t] @ task_items vs"
    by (simp only: task_items_append)
  then have "i \<notin> set (task_items [t])" using assms(3) by simp
  then show "task_fits (e # l) t" using assms(1,2) t task_undisturbed by blast
qed

lemma worker_later: "worker_fits l w \<Longrightarrow> \<forall>i acct. e \<noteq> Enqueued i acct \<Longrightarrow> worker_fits (e # l) w"
  by (cases e) (auto simp: worker_fits_def split: worker_state.splits)

text \<open>An update of one row, found by its id.\<close>

lemma update_cases:
  assumes "table_ok rows" and "update_where (\<lambda>r. cr_id r = i \<and> P (cr_state r)) f rows = (n, rows')"
  shows "(\<exists>c \<in> set rows. cr_id c = i \<and> P (cr_state c) \<and> n \<noteq> 0 \<and>
      rows' = map (\<lambda>r. if r = c then f c else r) rows) \<or> (n = 0 \<and> rows' = rows)"
proof (cases "\<exists>c \<in> set rows. cr_id c = i \<and> P (cr_state c)")
  case True
  then obtain c where c: "c \<in> set rows" "cr_id c = i" "P (cr_state c)" by blast
  have one: "(cr_id r = i \<and> P (cr_state r)) \<longleftrightarrow> r = c" if "r \<in> set rows" for r
    using table_unique[OF assms(1) that c(1)] c by auto
  then have "rows' = map (\<lambda>r. if r = c then f c else r) rows"
    using assms(2) by (auto simp: update_where_def)
  moreover have "n \<noteq> 0"
    using assms(2) c by (auto simp: update_where_def filter_empty_conv)
  ultimately show ?thesis using c by blast
next
  case False
  have "map (\<lambda>r. if cr_id r = i \<and> P (cr_state r) then f r else r) rows = rows"
    by (rule map_idI) (use False in auto)
  then have "rows' = rows \<and> n = 0"
    using assms(2) False by (auto simp: update_where_def)
  then show ?thesis by blast
qed

lemma row_undisturbed:
  assumes "row_fits l r" and "about e = Some i" and "cr_id r \<noteq> i"
  shows "row_fits (e # l) r"
proof -
  have "about e \<noteq> Some (cr_id r)" using assms(2,3) by simp
  then show ?thesis using assms elsewhere(1)[OF assms(2), of "cr_id r"] by (simp add: row_fits_def)
qed

lemma rows_fit_update:
  assumes "table_ok rows" and "\<forall>r \<in> set rows. row_fits l r" and "c \<in> set rows"
    and "about e = Some (cr_id c)" and "row_fits (e # l) (f c)" and "cr_id (f c) = cr_id c"
  shows "\<forall>r \<in> set (map (\<lambda>r. if r = c then f c else r) rows). row_fits (e # l) r"
proof -
  have "row_fits (e # l) r" if "r \<in> set rows" "r \<noteq> c" for r
    using row_undisturbed[OF _ assms(4)] table_unique[OF assms(1) that(1) assms(3)] assms(2) that
    by blast
  then show ?thesis using assms(5) by auto
qed

section \<open>Every action keeps it\<close>

lemma changed_ok:
  assumes ok: "outbox_ok K s" and c: "c \<in> set (ox_rows s)" and f: "keeps_keys f"
    and e: "about e = Some (cr_id c)" "event_fits K e (ox_history s)" "\<forall>i acct. e \<noteq> Enqueued i acct"
    and fits: "row_fits (e # ox_history s) (f c)"
    and tasks: "\<forall>t \<in> set ts. task_fits (e # ox_history s) t" "distinct (task_items ts)"
    and w: "w \<noteq> WorkerOn \<longrightarrow> ts = []" "worker_fits (ox_history s) w"
  shows "outbox_ok K (s\<lparr>ox_rows := map (\<lambda>r. if r = c then f c else r) (ox_rows s), ox_tasks := ts,
    ox_worker := w, ox_history := e # ox_history s\<rparr>)"
proof -
  let ?rows = "map (\<lambda>r. if r = c then f c else r) (ox_rows s)"
  have "?rows = snd (update_where (\<lambda>r. r = c) f (ox_rows s))" by (auto simp: update_where_def)
  then have "table_ok ?rows"
    using update_table_ok[of "ox_rows s" f "\<lambda>r. r = c"] ok f by (simp only: outbox_ok_def)
  moreover have "\<forall>r \<in> set ?rows. row_fits (e # ox_history s) r"
    using ok c e(1) fits f by (intro rows_fit_update) (auto simp: outbox_ok_def keeps_keys_def)
  ultimately show ?thesis
    using ok e(2,3) tasks w by (auto simp: outbox_ok_def intro!: worker_later)
qed

lemma idle_changed_ok:
  assumes ok: "outbox_ok K s" and c: "c \<in> set (ox_rows s)" "cr_state c \<noteq> Sending" and f: "keeps_keys f"
    and e: "about e = Some (cr_id c)" "event_fits K e (ox_history s)" "\<forall>i acct. e \<noteq> Enqueued i acct"
    and fits: "row_fits (e # ox_history s) (f c)"
  shows "outbox_ok K (s\<lparr>ox_rows := map (\<lambda>r. if r = c then f c else r) (ox_rows s),
    ox_history := e # ox_history s\<rparr>)"
proof -
  have "item_state (cr_id c) (ox_history s) \<noteq> Some Sending"
    using ok c by (auto simp: outbox_ok_def row_fits_def)
  then have "cr_id c \<notin> set (task_items (ox_tasks s))"
    using ok task_item_sending by (auto simp: outbox_ok_def)
  then have "\<forall>t \<in> set (ox_tasks s). task_fits (e # ox_history s) t"
    using ok e(1) by (intro tasks_undisturbed) (auto simp: outbox_ok_def)
  from changed_ok[OF ok c(1) f e fits this, of "ox_worker s"] show ?thesis
    using ok by (simp add: outbox_ok_def)
qed

lemma retry_found:
  assumes "table_ok rows" and "outbox_retry i now rows = (Some r, rows')"
  obtains c where "c \<in> set rows" "cr_id c = i" "retryable_state (cr_state c)"
    "rows' = map (\<lambda>r. if r = c then retry_row now c else r) rows"
proof -
  obtain n rows1 where up:
    "update_where (\<lambda>r. cr_id r = i \<and> retryable_state (cr_state r)) (retry_row now) rows = (n, rows1)"
    by fastforce
  then have "n \<noteq> 0" "rows' = rows1" using assms(2) by (auto simp: outbox_retry_def split: if_splits)
  then show ?thesis using update_cases[OF assms(1) up] that by blast
qed

lemma cancel_found:
  assumes "table_ok rows" and "outbox_cancel i now rows = (Some r, rows')"
  obtains c where "c \<in> set rows" "cr_id c = i" "cancellable_state (cr_state c)"
    "rows' = map (\<lambda>r. if r = c then cancel_row now c else r) rows"
proof -
  obtain n rows1 where up:
    "update_where (\<lambda>r. cr_id r = i \<and> cancellable_state (cr_state r)) (cancel_row now) rows = (n, rows1)"
    by fastforce
  then have "n \<noteq> 0" "rows' = rows1" using assms(2) by (auto simp: outbox_cancel_def split: if_splits)
  then show ?thesis using update_cases[OF assms(1) up] that by blast
qed

lemma retried_ok:
  assumes ok: "outbox_ok K s" and found: "outbox_retry i now (ox_rows s) = (Some r, rows)"
    and e: "e = Requested i \<or> e = Resumed i \<and> (\<exists>acct. account_of i (ox_history s) = Some acct \<and>
      idempotent_provider (Some (K acct)))"
  shows "outbox_ok K (s\<lparr>ox_rows := rows, ox_history := e # ox_history s\<rparr>)"
proof -
  have t: "table_ok (ox_rows s)" using ok by (simp add: outbox_ok_def)
  from t found obtain c where c: "c \<in> set (ox_rows s)" "cr_id c = i" "retryable_state (cr_state c)"
    "rows = map (\<lambda>r. if r = c then retry_row now c else r) (ox_rows s)"
    by (rule retry_found)
  have "row_fits (ox_history s) c" using ok c(1) by (simp add: outbox_ok_def)
  then show ?thesis
    unfolding c(4) using e c(2,3)
    by (intro idle_changed_ok[OF ok c(1)])
      (auto simp: row_fits_def retry_row_def keeps_keys_def allowed_state_def retryable_state_def)
qed

lemma revoked_ok:
  assumes ok: "outbox_ok K s" and found: "outbox_cancel i now (ox_rows s) = (Some r, rows)"
  shows "outbox_ok K (s\<lparr>ox_rows := rows, ox_history := Revoked i # ox_history s\<rparr>)"
proof -
  have t: "table_ok (ox_rows s)" using ok by (simp add: outbox_ok_def)
  from t found obtain c where c: "c \<in> set (ox_rows s)" "cr_id c = i" "cancellable_state (cr_state c)"
    "rows = map (\<lambda>r. if r = c then cancel_row now c else r) (ox_rows s)"
    by (rule cancel_found)
  have "row_fits (ox_history s) c" using ok c(1) by (simp add: outbox_ok_def)
  then show ?thesis
    unfolding c(4) using c(2,3)
    by (intro idle_changed_ok[OF ok c(1)])
      (auto simp: row_fits_def cancel_row_def keeps_keys_def allowed_state_def cancellable_state_def)
qed

lemma enqueued_ok:
  assumes ok: "outbox_ok K s" and fresh: "fresh_item i (ox_history s)"
    and row: "enqueue_on (ox_accounts s) i kind acct payload now (ox_rows s) = (Some r, rows)"
  shows "outbox_ok K (s\<lparr>ox_rows := rows, ox_history := Enqueued i acct # ox_history s\<rparr>)"
proof -
  have h: "outbox_history_ok K (ox_history s)" using ok by (simp add: outbox_ok_def)
  then have new: "item_state i (ox_history s) = None" "account_of i (ox_history s) = None"
    using fresh_unknown[OF h fresh] account_known[OF h] by auto
  have r: "rows = ox_rows s @ [r]" "cr_id r = i" "cr_state r = Queued" "cr_attempts r = 0" "cr_acct r = acct"
    using row by (auto simp: enqueue_on_def Let_def split: if_splits)
  have others: "cr_id r' \<noteq> i" if "r' \<in> set (ox_rows s)" for r'
    using ok that new(1) by (auto simp: outbox_ok_def row_fits_def)
  have "i \<notin> set (task_items (ox_tasks s))"
    using ok new(1) task_item_sending by (fastforce simp: outbox_ok_def)
  then have "\<forall>t \<in> set (ox_tasks s). task_fits (Enqueued i acct # ox_history s) t"
    using ok by (intro tasks_undisturbed) (auto simp: outbox_ok_def)
  moreover have "worker_fits (Enqueued i acct # ox_history s) (ox_worker s)"
    using ok new(2) by (auto simp: outbox_ok_def worker_fits_def split: worker_state.splits)
  moreover have "\<forall>r' \<in> set rows. row_fits (Enqueued i acct # ox_history s) r'"
  proof
    fix r' assume "r' \<in> set rows"
    then consider "r' = r" | "r' \<in> set (ox_rows s)" using r(1) by auto
    then show "row_fits (Enqueued i acct # ox_history s) r'"
    proof cases
      case 1
      then show ?thesis using r attempts_unknown[OF h new(1)] by (simp add: row_fits_def)
    next
      case 2
      then show ?thesis using ok others by (intro row_undisturbed) (auto simp: outbox_ok_def)
    qed
  qed
  moreover have "table_ok rows" using ok row by (auto simp: outbox_ok_def intro: enqueue_table_ok)
  ultimately show ?thesis using ok new(1) by (simp add: outbox_ok_def)
qed

lemma claimed_ok:
  assumes ok: "outbox_ok K s" and on: "ox_worker s = WorkerOn"
    and claim: "claim_next now (ox_rows s) = (Some r, rows)"
  shows "outbox_ok K (s\<lparr>ox_rows := rows, ox_tasks := ox_tasks s @ [TaskSending r],
    ox_history := Claimed (cr_id r) # ox_history s\<rparr>)"
proof -
  have t: "table_ok (ox_rows s)" using ok by (simp add: outbox_ok_def)
  from t obtain c where c: "c \<in> set (ox_rows s)" "due now (ox_rows s) c" "r = claim_row now c"
    "rows = map (\<lambda>r. if r = c then claim_row now c else r) (ox_rows s)"
    using claim by (rule claim_found)
  have w: "waiting_state (cr_state c)" and fits: "row_fits (ox_history s) c"
    using ok c by (simp_all add: outbox_ok_def due_def)
  have i: "cr_id r = cr_id c" by (simp add: c(3) claim_row_def)
  have "item_state (cr_id c) (ox_history s) \<noteq> Some Sending"
    using w fits by (auto simp: row_fits_def waiting_state_def)
  then have idle: "cr_id c \<notin> set (task_items (ox_tasks s))"
    using ok task_item_sending by (auto simp: outbox_ok_def)
  then have "\<forall>t \<in> set (ox_tasks s). task_fits (Claimed (cr_id c) # ox_history s) t"
    using ok by (intro tasks_undisturbed) (auto simp: outbox_ok_def)
  moreover have "task_fits (Claimed (cr_id c) # ox_history s) (TaskSending r)"
    using fits by (simp add: sent_row_def row_fits_def c(3) claim_row_def)
  ultimately have tasks:
    "\<forall>t \<in> set (ox_tasks s @ [TaskSending r]). task_fits (Claimed (cr_id c) # ox_history s) t" by simp
  have "distinct (task_items (ox_tasks s @ [TaskSending r]))"
    using ok idle i by (simp add: outbox_ok_def)
  from changed_ok[OF ok c(1) _ _ _ _ _ tasks this, of "claim_row now" WorkerOn] show ?thesis
    using fits w ok on unfolding c(4) i
    by (simp add: keeps_keys_def claim_row_def row_fits_def allowed_state_def outbox_ok_def)
qed

lemma tasks_replaced:
  assumes "drop n ts = t # us" and "distinct (task_items ts)" and "task_items [t'] = task_items [t]"
    and "\<forall>t \<in> set ts. task_fits l t"
    and "about e = Some i" and "task_items [t] = [i]" and "task_fits (e # l) t'"
  shows "(\<forall>t \<in> set (take n ts @ t' # us). task_fits (e # l) t) \<and> distinct (task_items (take n ts @ t' # us))"
proof -
  have split: "ts = take n ts @ [t] @ us"
    using assms(1) by (metis append_Cons append_Nil append_take_drop_id)
  let ?vs = "take n ts"
  have items: "task_items ts = task_items ?vs @ task_items [t] @ task_items us"
    using split by (metis task_items_append)
  have "task_items (?vs @ t' # us) = task_items ?vs @ task_items [t'] @ task_items us"
    by (metis append_Cons append_Nil task_items_append)
  then have d: "distinct (task_items (?vs @ t' # us))" using assms(2,3) items by simp
  have away: "i \<notin> set (task_items ?vs)" "i \<notin> set (task_items us)"
    using assms(2,6) items by auto
  have old: "\<forall>t \<in> set ?vs. task_fits l t" "\<forall>t \<in> set us. task_fits l t"
    using assms(4) split by (metis Un_iff set_append)+
  have "\<forall>t \<in> set ?vs. task_fits (e # l) t" "\<forall>t \<in> set us. task_fits (e # l) t"
    using tasks_undisturbed[OF old(1) assms(5) away(1)] tasks_undisturbed[OF old(2) assms(5) away(2)]
    by blast+
  then show ?thesis using d assms(7) by auto
qed

lemma answered_ok:
  assumes ok: "outbox_ok K s" and task: "drop n (ox_tasks s) = TaskSending r # ts"
    and session: "session = session_of K (cr_acct r) found"
  shows "outbox_ok K (s\<lparr>ox_tasks := take n (ox_tasks s) @
      TaskAnswered r (delivery_outcome session (cr_attempts r) result) # ts,
    ox_history := Answered (cr_id r) session result # ox_history s\<rparr>)"
proof -
  let ?e = "Answered (cr_id r) session result"
  have "TaskSending r \<in> set (ox_tasks s)" using task by (metis in_set_dropD list.set_intros(1))
  then have r: "sent_row (ox_history s) r" "heard (cr_id r) (ox_history s) = None"
    using ok by (auto simp: outbox_ok_def)
  then have "task_fits (?e # ox_history s) (TaskAnswered r (delivery_outcome session (cr_attempts r) result))"
    by (simp add: sent_row_def)
  then have tasks: "(\<forall>t \<in> set (take n (ox_tasks s) @
        TaskAnswered r (delivery_outcome session (cr_attempts r) result) # ts). task_fits (?e # ox_history s) t) \<and>
      distinct (task_items (take n (ox_tasks s) @
        TaskAnswered r (delivery_outcome session (cr_attempts r) result) # ts))"
    using ok by (intro tasks_replaced[OF task]) (auto simp: outbox_ok_def)
  have "worker_fits (?e # ox_history s) (ox_worker s)"
    using ok by (intro worker_later) (auto simp: outbox_ok_def)
  moreover have "ox_worker s = WorkerOn" using ok task by (cases "ox_worker s = WorkerOn") (auto simp: outbox_ok_def)
  moreover have "event_fits K ?e (ox_history s)"
    using r session by (auto simp: sent_row_def owned_session_def)
  ultimately show ?thesis
    using ok tasks by (simp add: outbox_ok_def row_fits_def)
qed

lemma ended_ok:
  assumes ok: "outbox_ok K s" and task: "drop n (ox_tasks s) = t # ts" and new: "us = [] \<or> us = [TaskEnded]"
  shows "outbox_ok K (s\<lparr>ox_tasks := take n (ox_tasks s) @ us @ ts\<rparr>)"
proof -
  have split: "ox_tasks s = take n (ox_tasks s) @ [t] @ ts"
    using task by (metis append_Cons append_Nil append_take_drop_id)
  then have "task_items (ox_tasks s) = task_items (take n (ox_tasks s)) @ task_items [t] @ task_items ts"
    by (metis task_items_append)
  then have d: "distinct (task_items (take n (ox_tasks s)) @ task_items ts)"
    using ok by (simp add: outbox_ok_def) blast
  have "set (take n (ox_tasks s)) \<union> set ts \<subseteq> set (ox_tasks s)"
    using split by (metis Un_subset_iff set_append sup_ge1 sup_ge2)
  then have "\<forall>t \<in> set (take n (ox_tasks s) @ us @ ts). task_fits (ox_history s) t"
    using ok new by (auto simp: outbox_ok_def)
  moreover have "ox_worker s = WorkerOn" using ok task by (cases "ox_worker s = WorkerOn") (auto simp: outbox_ok_def)
  ultimately show ?thesis using ok d new by (auto simp: outbox_ok_def)
qed

text \<open>The four updates that end a delivery are one update of a row that is being sent.\<close>

definition record_row :: "outcome \<Rightarrow> nat \<Rightarrow> nat \<Rightarrow> outbox_row \<Rightarrow> outbox_row" where
  "record_row out now later r = (case out of
     MarkSucceeded status_id server_domain \<Rightarrow> r\<lparr>cr_state := Succeeded, cr_last_error := None,
       cr_completed_at := Some now, cr_status_id := Some status_id,
       cr_server_domain := Some server_domain, cr_updated_at := now\<rparr>
   | MarkRetrying key delay \<Rightarrow> r\<lparr>cr_state := Retrying, cr_last_error := Some key,
       cr_next_attempt_at := later + delay, cr_updated_at := now\<rparr>
   | MarkUncertain key \<Rightarrow> r\<lparr>cr_state := Uncertain, cr_last_error := Some key,
       cr_next_attempt_at := now, cr_updated_at := now\<rparr>
   | MarkFailed key \<Rightarrow> r\<lparr>cr_state := Failed, cr_last_error := Some key,
       cr_next_attempt_at := now, cr_updated_at := now\<rparr>)"

lemma record_outcome_update:
  "record_outcome out i now later rows =
     (let rows' = snd (update_where (\<lambda>r. cr_id r = i \<and> cr_state r = Sending) (record_row out now later) rows)
      in (outbox_get i rows', rows'))"
  by (cases out) (simp_all add: record_outcome_def record_row_def[abs_def] mark_succeeded_def
      mark_retrying_def mark_uncertain_def mark_outbox_failed_def update_failure_def)

lemma record_row_sel:
  "cr_state (record_row out now later r) = state_after out"
  "cr_id (record_row out now later r) = cr_id r"
  "cr_acct (record_row out now later r) = cr_acct r"
  "cr_attempts (record_row out now later r) = cr_attempts r"
  "keeps_keys (record_row out now later)"
  by (simp_all add: record_row_def state_after_def keeps_keys_def split: outcome.splits)

lemma record_found:
  assumes "table_ok rows" and "record_outcome out i now later rows = (Some r, rows')"
    and "\<forall>r \<in> set rows. cr_id r = i \<longrightarrow> cr_state r = Sending"
  obtains c where "c \<in> set rows" "cr_id c = i" "cr_state c = Sending"
    "rows' = map (\<lambda>r. if r = c then record_row out now later c else r) rows"
proof -
  obtain n rows1 where up:
    "update_where (\<lambda>r. cr_id r = i \<and> cr_state r = Sending) (record_row out now later) rows = (n, rows1)"
    by fastforce
  have "(outbox_get i rows1, rows1) = (Some r, rows')"
    using assms(2) unfolding record_outcome_update up Let_def by (simp only: snd_conv)
  then have rows1: "rows' = rows1" "outbox_get i rows1 = Some r" by (metis Pair_inject)+
  have "n = length (filter (\<lambda>r. cr_id r = i \<and> cr_state r = Sending) rows)" and
    "map cr_id rows1 = map cr_id rows"
    using up by (auto simp: update_where_def record_row_sel(2))
  then have n: "n = length (filter (\<lambda>r. cr_id r = i \<and> cr_state r = Sending) rows)" and
    ids: "cr_id ` set rows1 = cr_id ` set rows" by (simp, metis list.set_map)
  obtain d where "d \<in> set rows" "cr_id d = i"
    using get_Some[OF rows1(2)] imageI[of r "set rows1" cr_id] unfolding ids by auto
  then have "d \<in> set (filter (\<lambda>r. cr_id r = i \<and> cr_state r = Sending) rows)"
    using assms(3) by simp
  then have "n \<noteq> 0" unfolding n by (metis length_0_conv empty_iff list.set(1))
  then show ?thesis
    using update_cases[OF assms(1), where P = "\<lambda>st. st = Sending", OF up] that rows1(1) by blast
qed

lemma recorded_ok:
  assumes ok: "outbox_ok K s" and task: "drop n (ox_tasks s) = TaskAnswered r out # ts"
    and rec: "record_outcome out (cr_id r) now later (ox_rows s) = (Some r', rows)"
  shows "outbox_ok K (s\<lparr>ox_tasks := take n (ox_tasks s) @ TaskEnded # ts, ox_rows := rows,
    ox_history := Recorded (cr_id r) out # ox_history s\<rparr>)"
proof -
  let ?e = "Recorded (cr_id r) out" and ?ts = "take n (ox_tasks s) @ TaskEnded # ts"
  have t: "table_ok (ox_rows s)" using ok by (simp add: outbox_ok_def)
  have "TaskAnswered r out \<in> set (ox_tasks s)" using task by (metis in_set_dropD list.set_intros(1))
  then have "task_fits (ox_history s) (TaskAnswered r out)" using ok unfolding outbox_ok_def by blast
  then obtain session result where r: "sent_row (ox_history s) r"
    "heard (cr_id r) (ox_history s) = Some (session, result)"
    "out = delivery_outcome session (cr_attempts r) result" by auto
  have sending: "\<forall>c \<in> set (ox_rows s). cr_id c = cr_id r \<longrightarrow> cr_state c = Sending"
    using ok r(1) by (auto simp: outbox_ok_def row_fits_def sent_row_def)
  from t rec sending obtain c where c: "c \<in> set (ox_rows s)" "cr_id c = cr_id r" "cr_state c = Sending"
    "rows = map (\<lambda>r. if r = c then record_row out now later c else r) (ox_rows s)"
    by (rule record_found)
  have fits: "row_fits (ox_history s) c" using ok c(1) by (simp add: outbox_ok_def)
  have split: "ox_tasks s = take n (ox_tasks s) @ [TaskAnswered r out] @ ts"
    using task by (metis append_Cons append_Nil append_take_drop_id)
  then have items: "task_items (ox_tasks s) = task_items (take n (ox_tasks s)) @ [cr_id r] @ task_items ts"
    by (metis task_items.simps(1,3) task_items_append)
  have d: "distinct (task_items ?ts)" "cr_id r \<notin> set (task_items ?ts)"
    using ok items by (auto simp: outbox_ok_def)
  have "outbox_ok K (s\<lparr>ox_tasks := take n (ox_tasks s) @ [TaskEnded] @ ts\<rparr>)"
    by (rule ended_ok[OF ok task]) simp
  then have ended: "\<forall>t \<in> set ?ts. task_fits (ox_history s) t" "ox_worker s \<noteq> WorkerOn \<longrightarrow> ?ts = []"
    by (simp_all add: outbox_ok_def)
  then have tasks: "\<forall>t \<in> set ?ts. task_fits (?e # ox_history s) t"
    using d(2) by (intro tasks_undisturbed) auto
  have e: "event_fits K ?e (ox_history s)"
    using r by (auto simp: sent_row_def)
  have f: "row_fits (?e # ox_history s) (record_row out now later c)"
    using fits c(2) by (simp add: row_fits_def record_row_sel)
  have "worker_fits (ox_history s) (ox_worker s)" using ok by (simp add: outbox_ok_def)
  from changed_ok[OF ok c(1) record_row_sel(5) _ e _ f tasks d(1) ended(2) this] show ?thesis
    using c(2) unfolding c(4) by (auto simp: outbox_ok_def)
qed

lemma started_ok:
  assumes ok: "outbox_ok K s" and off: "ox_worker s = WorkerOff"
  shows "outbox_ok K (s\<lparr>ox_worker := WorkerListing, ox_rows := snd (recover_interrupted now (ox_rows s)),
    ox_history := Interrupted # ox_history s\<rparr>)"
proof -
  have "table_ok (snd (recover_interrupted now (ox_rows s)))"
    unfolding recover_interrupted_def
    using ok by (intro update_table_ok) (simp_all add: outbox_ok_def keeps_keys_def interrupt_row_def)
  moreover have "\<forall>r \<in> set (snd (recover_interrupted now (ox_rows s))). row_fits (Interrupted # ox_history s) r"
    using ok by (auto simp: recover_interrupted_def update_where_def outbox_ok_def row_fits_def
        interrupt_row_def)
  ultimately show ?thesis
    using ok off by (simp add: outbox_ok_def worker_fits_def)
qed

lemma interrupted_items_subset: "set (interrupted_items rows) \<subseteq> set rows"
proof -
  have "set (outbox_list rows) \<subseteq> set rows"
    unfolding outbox_list_def by (metis (no_types) set_sort set_take_subset)
  then show ?thesis by (auto simp: interrupted_items_def)
qed

lemma outbox_act_ok:
  assumes ok: "outbox_ok K s" and act: "outbox_act K a s = Some s'"
  shows "outbox_ok K s'"
proof (cases a)
  case (Login acct)
  then show ?thesis using act ok by (auto simp: outbox_ok_def)
next
  case (Logout acct)
  then show ?thesis
    using act ok by (auto simp: outbox_ok_def forget_table_ok) (auto simp: forget_account_def)
next
  case (Enqueue i kind acct payload now)
  then show ?thesis using act enqueued_ok[OF ok] by (auto split: prod.splits option.splits if_splits)
next
  case (Retry i now)
  then show ?thesis using act retried_ok[OF ok] by (auto split: prod.splits option.splits)
next
  case (Cancel i now)
  then show ?thesis using act revoked_ok[OF ok] by (auto split: prod.splits option.splits)
next
  case (Start now stored)
  then show ?thesis using act ok started_ok[OF ok]
    by (auto simp: outbox_ok_def worker_fits_def split: if_splits)
next
  case (ListInterrupted answered)
  then show ?thesis
    using act ok
    by (auto simp: outbox_ok_def worker_fits_def row_fits_def split: if_splits
        dest!: subsetD[OF interrupted_items_subset])
next
  case (Claim now)
  then show ?thesis using act claimed_ok[OF ok] by (auto split: prod.splits option.splits if_splits)
next
  case (Answer n found E)
  then show ?thesis
    using act answered_ok[OF ok] by (auto simp: Let_def split: list.splits delivery_task.splits)
next
  case (Lose n)
  then show ?thesis using act ended_ok[OF ok, where us = "[TaskEnded]"] by (auto split: list.splits)
next
  case (Join n)
  then show ?thesis
    using act ended_ok[OF ok, where us = "[]"] by (auto split: list.splits delivery_task.splits)
next
  case (Record n now later)
  then obtain r out ts where task: "drop n (ox_tasks s) = TaskAnswered r out # ts"
    using act by (auto split: list.splits delivery_task.splits)
  obtain got rows where rec: "record_outcome out (cr_id r) now later (ox_rows s) = (got, rows)" by fastforce
  show ?thesis
  proof (cases got)
    case None
    have "s' = s\<lparr>ox_tasks := take n (ox_tasks s) @ [TaskEnded] @ ts\<rparr>"
      using act Record task rec None by simp
    then show ?thesis using ended_ok[OF ok task, of "[TaskEnded]"] by simp
  next
    case (Some r')
    have "s' = s\<lparr>ox_tasks := take n (ox_tasks s) @ TaskEnded # ts, ox_rows := rows,
        ox_history := Recorded (cr_id r) out # ox_history s\<rparr>"
      using act Record task rec Some by simp
    then show ?thesis using recorded_ok[OF ok task] rec Some by simp
  qed
next
  case (Resume found stored now)
  then obtain r rs where w: "ox_worker s = WorkerResuming (r # rs)"
    using act by (auto split: worker_state.splits list.splits)
  let ?s = "s\<lparr>ox_worker := WorkerResuming rs\<rparr>"
  have rest: "outbox_ok K ?s" using ok w by (auto simp: outbox_ok_def worker_fits_def)
  have acct: "account_of (cr_id r) (ox_history s) = Some (cr_acct r)"
    using ok w by (simp add: outbox_ok_def worker_fits_def)
  obtain got rows where retry: "outbox_retry (cr_id r) now (ox_rows ?s) = (got, rows)" by fastforce
  show ?thesis
  proof (cases "idempotent_provider (session_of K (cr_acct r) found) \<and> stored \<and> got \<noteq> None")
    case True
    then have "idempotent_provider (Some (K (cr_acct r)))"
      by (cases found) (simp_all add: session_of_def idempotent_provider_def)
    moreover obtain y where "got = Some y" using True by blast
    ultimately have "outbox_ok K (?s\<lparr>ox_rows := rows, ox_history := Resumed (cr_id r) # ox_history ?s\<rparr>)"
      using retried_ok[OF rest, of "cr_id r" now y rows "Resumed (cr_id r)"] acct retry by simp
    moreover have "s' = ?s\<lparr>ox_rows := rows, ox_history := Resumed (cr_id r) # ox_history ?s\<rparr>"
      using act Resume w True retry by (auto simp: Let_def)
    ultimately show ?thesis by simp
  next
    case False
    then have "s' = ?s" using act Resume w retry by (auto simp: Let_def split: if_splits)
    then show ?thesis using rest by simp
  qed
qed (use act ok in \<open>auto simp: outbox_ok_def worker_fits_def split: if_splits\<close>)

lemma outbox_reach_ok: "outbox_reach K s \<Longrightarrow> outbox_ok K s"
proof (erule reach_invariant)
  show "outbox_init s \<Longrightarrow> outbox_ok K s" for s
    by (simp add: outbox_init_def outbox_ok_def table_ok_def worker_fits_def)
  show "outbox_ok K s \<Longrightarrow> outbox_step K s s' \<Longrightarrow> outbox_ok K s'" for s s'
    using outbox_act_ok by (auto simp: outbox_step_def)
qed

end
