(* ===== verification/OutboxClaims.thy ===== *)
theory OutboxClaims
imports OutboxHistory
begin

text \<open>
  What users rely on: the table is what happened, nothing is posted twice behind their back, attempts
  are bounded, and when deliveries of one account overlap. Two findings are runs of the model.
\<close>

section \<open>Refinement\<close>

text \<open>C29: whatever the worker, the delivery tasks, the user and restarts do, and in whatever order, each
  row of the table is in the state that the history says, with as many attempts as it was claimed, and
  the history is one of the permitted ones.\<close>

theorem outbox_refines_history:
  assumes "outbox_reach K s"
  shows "outbox_history_ok K (ox_history s) \<and>
    (\<forall>r \<in> set (ox_rows s). item_state (cr_id r) (ox_history s) = Some (cr_state r) \<and>
       attempts_of (cr_id r) (ox_history s) = cr_attempts r \<and>
       account_of (cr_id r) (ox_history s) = Some (cr_acct r))"
  using outbox_reach_ok[OF assms] by (simp add: outbox_ok_def row_fits_def)

section \<open>No second sending\<close>

definition answers :: "rstr \<Rightarrow> outbox_event \<Rightarrow> bool" where
  "answers i e \<longleftrightarrow> (case e of Answered j _ _ \<Rightarrow> j = i | _ \<Rightarrow> False)"

definition retries :: "rstr \<Rightarrow> outbox_event \<Rightarrow> bool" where
  "retries i e \<longleftrightarrow> (case e of Recorded j (MarkRetrying _ _) \<Rightarrow> j = i | _ \<Rightarrow> False)"

lemma history_at: "outbox_history_ok K (m1 @ e # m2) \<Longrightarrow> event_fits K e m2 \<and> outbox_history_ok K m2"
  using outbox_history_suffix[of K m1 "e # m2"] by simp

lemma account_stays:
  "outbox_history_ok K (mid @ l) \<Longrightarrow> account_of i l = Some acct \<Longrightarrow> account_of i (mid @ l) = Some acct"
proof (induction "mid")
  case (Cons e "mid")
  then have "item_state i (mid @ l) \<noteq> None" using account_known[of K "mid @ l" i] by auto
  then show ?case using Cons by (cases e) auto
qed simp

lemma heard_answers:
  "outbox_history_ok K (mid @ Claimed i # old) \<Longrightarrow> Claimed i \<notin> set mid \<Longrightarrow>
   filter (answers i) mid = (case heard i (mid @ Claimed i # old) of
     None \<Rightarrow> [] | Some (session, result) \<Rightarrow> [Answered i session result])"
proof (induction "mid")
  case (Cons e "mid")
  then show ?case by (cases e) (auto simp: answers_def)
qed simp

lemma stays_halted:
  assumes "outbox_history_ok K (mid @ Claimed i # old)" and "Claimed i \<notin> set mid"
    and "Requested i \<notin> set mid" and "Resumed i \<notin> set mid"
    and "\<forall>e \<in> set mid. \<not> retries i e"
  shows "\<exists>st. item_state i (mid @ Claimed i # old) = Some st \<and> \<not> waiting_state st"
  using assms
proof (induction "mid")
  case (Cons e "mid")
  then obtain st where "item_state i (mid @ Claimed i # old) = Some st" "\<not> waiting_state st" by auto
  then show ?case
    using Cons.prems
    by (cases e) (auto simp: waiting_state_def state_after_def retries_def split: outcome.splits)
qed (simp add: waiting_state_def)

lemma retried_outcome:
  "delivery_outcome session n result = MarkRetrying key delay \<Longrightarrow>
   \<exists>e. result = Inl e \<and> n < max_automatic_attempts \<and>
     (retry_is_unambiguous e \<or> idempotent_provider session \<and> delivery_may_be_ambiguous e)"
  by (auto simp: delivery_outcome_def split: sum.splits if_splits)

lemma answered_session:
  assumes "outbox_history_ok K (m2 @ Claimed i # old)" and "Answered i session result \<in> set m2"
    and "account_of i old = Some acct"
  shows "\<exists>found. session = session_of K acct found"
proof -
  obtain m3 m4 where m2: "m2 = m3 @ Answered i session result # m4"
    using assms(2) by (metis split_list)
  from assms(1) have
    "event_fits K (Answered i session result) (m4 @ Claimed i # old) \<and> outbox_history_ok K (m4 @ Claimed i # old)"
    unfolding m2 by (intro history_at[of K m3]) simp
  then have ok: "owned_session K i (m4 @ Claimed i # old) session"
    "outbox_history_ok K (m4 @ Claimed i # old)" by simp_all
  have "account_of i (m4 @ Claimed i # old) = Some acct"
    using assms(3) by (intro account_stays[OF ok(2)]) simp
  then show ?thesis using ok(1) by (simp add: owned_session_def)
qed

lemma resend_needs_reason:
  assumes h: "outbox_history_ok K (Claimed i # mid @ Claimed i # old)"
    and m: "Claimed i \<notin> set mid" "Requested i \<notin> set mid"
    and acct: "account_of i old = Some acct" and K: "\<not> idempotent_provider (Some (K acct))"
  shows "\<exists>session e. filter (answers i) mid = [Answered i session (Inl e)] \<and> retry_is_unambiguous e"
proof -
  have ok: "outbox_history_ok K (mid @ Claimed i # old)"
    and waiting: "allowed_state waiting_state i (mid @ Claimed i # old)" using h by simp_all
  have "Resumed i \<notin> set mid"
  proof
    assume "Resumed i \<in> set mid"
    then obtain m1 m2 where "mid": "mid = m1 @ Resumed i # m2" by (metis split_list)
    then have fits: "event_fits K (Resumed i) (m2 @ Claimed i # old) \<and> outbox_history_ok K (m2 @ Claimed i # old)"
      using ok by (intro history_at[of K m1]) simp
    then have "account_of i (m2 @ Claimed i # old) = Some acct"
      using acct by (intro account_stays[of K]) simp_all
    then show False using fits K by simp
  qed
  then have "\<exists>e \<in> set mid. retries i e"
    using stays_halted[OF ok m] waiting unfolding allowed_state_def by (metis option.inject)
  then obtain e where e: "e \<in> set mid" "retries i e" by blast
  then obtain key delay where "Recorded i (MarkRetrying key delay) \<in> set mid"
    by (auto simp: retries_def split: outbox_event.splits outcome.splits)
  then obtain m1 m2 where "mid": "mid = m1 @ Recorded i (MarkRetrying key delay) # m2"
    by (metis split_list)
  then have rec: "event_fits K (Recorded i (MarkRetrying key delay)) (m2 @ Claimed i # old) \<and>
      outbox_history_ok K (m2 @ Claimed i # old)"
    using ok by (intro history_at[of K m1]) simp
  then obtain session result where heard: "heard i (m2 @ Claimed i # old) = Some (session, result)"
    and out: "delivery_outcome session (attempts_of i (m2 @ Claimed i # old)) result = MarkRetrying key delay"
    by (metis event_fits.simps(7))
  have ok2: "outbox_history_ok K (m2 @ Claimed i # old)" using rec by simp
  have ans: "filter (answers i) m2 = [Answered i session result]"
    using heard_answers[OF ok2] heard m(1) "mid" by simp
  then have "Answered i session result \<in> set m2" by (metis filter_is_subset list.set_intros(1) subsetD)
  from answered_session[OF ok2 this acct] obtain found where s: "session = session_of K acct found" by blast
  then have "\<not> idempotent_provider session"
    using K by (cases found) (simp_all add: session_of_def idempotent_provider_def)
  with retried_outcome[OF out] obtain e where e: "result = Inl e" "retry_is_unambiguous e" by blast
  have "length (filter (answers i) mid) \<le> 1"
    using heard_answers[OF ok m(1)] by (simp split: option.splits)
  then have "filter (answers i) mid = [Answered i session result]"
    using ans "mid" by (simp add: answers_def)
  then show ?thesis using e by blast
qed

text \<open>C28: nothing is posted twice behind the user's back: when the server of the account does not
  recognise repeated requests, an item is sent again only if the user asked for it in between, or if
  the one answer to the sending before was a refusal that certainly did nothing, a rate limit or a
  busy database. In particular an accepted, a timed out and an interrupted delivery are not repeated.\<close>

theorem no_silent_resend:
  assumes "outbox_reach K s"
    and "ox_history s = later @ Claimed i # mid @ Claimed i # old" and "Claimed i \<notin> set mid"
    and "account_of i old = Some acct" and "K acct = Misskey"
  shows "Requested i \<in> set mid \<or> (\<exists>session e. filter (answers i) mid = [Answered i session (Inl e)] \<and>
    (er_code e = RateLimited \<or> er_code e = DatabaseBusy))"
proof (cases "Requested i \<in> set mid")
  case False
  have "outbox_history_ok K (later @ Claimed i # mid @ Claimed i # old)"
    using outbox_reach_ok[OF assms(1)] assms(2) by (simp add: outbox_ok_def)
  then have "outbox_history_ok K (Claimed i # mid @ Claimed i # old)"
    by (rule outbox_history_suffix)
  from resend_needs_reason[OF this assms(3) False assms(4)] show ?thesis
    using assms(5) by (auto simp: idempotent_provider_def retry_is_unambiguous_def)
qed simp

section \<open>Bounded attempts\<close>

lemma attempts_count: "attempts_of i l = count_list l (Claimed i)"
  by (induction i l rule: attempts_of.induct) auto

lemma attempts_bound:
  "outbox_history_ok K l \<Longrightarrow>
   attempts_of i l + of_bool (allowed_state waiting_state i l) \<le>
     max_automatic_attempts + count_list l (Requested i) + count_list l (Resumed i)"
proof (induction l)
  case (Cons e l)
  then have IH: "attempts_of i l + of_bool (allowed_state waiting_state i l) \<le>
     max_automatic_attempts + count_list l (Requested i) + count_list l (Resumed i)" by simp
  have h: "outbox_history_ok K l" using Cons.prems by simp
  show ?case
  proof (cases e)
    case (Enqueued j acct)
    then show ?thesis
      using Cons.prems IH attempts_unknown[OF h, of i]
      by (auto simp: allowed_state_def max_automatic_attempts_def)
  next
    case (Recorded j out)
    show ?thesis
    proof (cases "j = i \<and> (\<exists>key delay. out = MarkRetrying key delay)")
      case True
      then obtain key delay session result where
        "MarkRetrying key delay = delivery_outcome session (attempts_of i l) result"
        using Cons.prems Recorded by auto
      from retried_outcome[OF this[symmetric]] show ?thesis
        using Recorded by (auto simp: of_bool_def)
    next
      case False
      then have "\<not> waiting_state (state_after out) \<or> j \<noteq> i"
        by (auto simp: waiting_state_def state_after_def split: outcome.splits)
      then show ?thesis using Recorded IH by (auto simp: allowed_state_def of_bool_def split: if_splits)
    qed
  next
    case (Claimed j)
    then show ?thesis
      using Cons.prems IH by (auto simp: allowed_state_def waiting_state_def)
  qed (use IH Cons.prems in \<open>auto simp: allowed_state_def waiting_state_def of_bool_def split: if_splits\<close>)
qed (simp add: allowed_state_def)

text \<open>C32: an item is attempted at most six times, plus once for each time the user or the recovery at
  the start asked for it again, and the number in its row counts the attempts.\<close>

theorem outbox_attempts_bounded:
  assumes "outbox_reach K s" and "r \<in> set (ox_rows s)"
  shows "cr_attempts r = count_list (ox_history s) (Claimed (cr_id r)) \<and>
    cr_attempts r \<le> 6 + count_list (ox_history s) (Requested (cr_id r)) +
      count_list (ox_history s) (Resumed (cr_id r))"
proof -
  have ok: "outbox_history_ok K (ox_history s)" "attempts_of (cr_id r) (ox_history s) = cr_attempts r"
    using outbox_reach_ok[OF assms(1)] assms(2) by (auto simp: outbox_ok_def row_fits_def)
  show ?thesis
    using attempts_bound[OF ok(1), of "cr_id r"] ok(2) attempts_count[of "cr_id r" "ox_history s"]
    by (simp add: max_automatic_attempts_def)
qed

section \<open>Overlapping deliveries\<close>

definition reactivates :: "rstr \<Rightarrow> outbox_event \<Rightarrow> bool" where
  "reactivates i e \<longleftrightarrow> (case e of Enqueued j _ \<Rightarrow> j = i | Requested j \<Rightarrow> j = i | Resumed j \<Rightarrow> j = i | _ \<Rightarrow> False)"

text \<open>\<open>a\<close> became active again since \<open>b\<close> was claimed.\<close>

definition reactivated_since :: "rstr \<Rightarrow> rstr \<Rightarrow> outbox_event list \<Rightarrow> bool" where
  "reactivated_since a b l \<longleftrightarrow> (\<exists>e \<in> set (takeWhile (\<lambda>e. e \<noteq> Claimed b) l). reactivates a e)"

definition overlap_ok :: "outbox_event list \<Rightarrow> outbox_table \<Rightarrow> bool" where
  "overlap_ok l rows \<longleftrightarrow> (\<forall>a \<in> set rows. \<forall>b \<in> set rows. cr_acct a = cr_acct b \<and> older a b \<and>
     cr_state b = Sending \<and> active_state (cr_state a) \<longrightarrow> reactivated_since (cr_id a) (cr_id b) l)"

lemma reactivated_later: "reactivated_since a b l \<Longrightarrow> e \<noteq> Claimed b \<Longrightarrow> reactivated_since a b (e # l)"
  by (simp add: reactivated_since_def)

lemma reactivated_now: "reactivates a e \<Longrightarrow> reactivated_since a b (e # l)"
  by (auto simp: reactivated_since_def reactivates_def)

lemma older_keys: "keeps_keys f \<Longrightarrow> older (f a) b \<longleftrightarrow> older a b" "keeps_keys f \<Longrightarrow> older a (f b) \<longleftrightarrow> older a b"
  by (simp_all add: older_def keeps_keys_def)

text \<open>A change of one row that starts no sending: if it makes the row active, the event says so.\<close>

lemma overlap_changed:
  assumes "overlap_ok l rows" and "keeps_keys f" and "cr_state (f c) \<noteq> Sending" and "\<forall>i. e \<noteq> Claimed i"
    and "active_state (cr_state (f c)) \<Longrightarrow> reactivates (cr_id c) e \<or> active_state (cr_state c)"
    and "c \<in> set rows"
  shows "overlap_ok (e # l) (map (\<lambda>r. if r = c then f c else r) rows)"
  unfolding overlap_ok_def
proof (intro ballI impI, elim conjE)
  fix a b
  assume ab: "a \<in> set (map (\<lambda>r. if r = c then f c else r) rows)"
    "b \<in> set (map (\<lambda>r. if r = c then f c else r) rows)"
    "cr_acct a = cr_acct b" "older a b" "cr_state b = Sending" "active_state (cr_state a)"
  then have b: "b \<in> set rows" using assms(3) by auto
  from ab(1) obtain a0 where a0: "a0 \<in> set rows" "a = (if a0 = c then f c else a0)" by auto
  have keys: "cr_id a = cr_id a0" "cr_acct a0 = cr_acct b" "older a0 b"
    using a0(2) ab(3,4) assms(2) older_keys(1)[OF assms(2)] by (auto simp: keeps_keys_def split: if_splits)
  show "reactivated_since (cr_id a) (cr_id b) (e # l)"
  proof (cases "reactivates (cr_id a) e")
    case True
    then show ?thesis by (rule reactivated_now)
  next
    case False
    then have "active_state (cr_state a0)"
      using a0(2) ab(6) assms(5) keys(1) by (auto split: if_splits)
    then have "reactivated_since (cr_id a) (cr_id b) l"
      using assms(1) a0(1) b keys ab(5) by (auto simp: overlap_ok_def)
    then show ?thesis using assms(4) by (intro reactivated_later) simp_all
  qed
qed

lemma overlap_claimed:
  assumes "overlap_ok l rows" and "table_ok rows" and "c \<in> set rows" and "due now rows c"
  shows "overlap_ok (Claimed (cr_id c) # l) (map (\<lambda>r. if r = c then claim_row now c else r) rows)"
  unfolding overlap_ok_def
proof (intro ballI impI, elim conjE)
  fix a b
  let ?rows = "map (\<lambda>r. if r = c then claim_row now c else r) rows"
  assume ab: "a \<in> set ?rows" "b \<in> set ?rows"
    "cr_acct a = cr_acct b" "older a b" "cr_state b = Sending" "active_state (cr_state a)"
  from ab(1) obtain a0 where a0: "a0 \<in> set rows" "a = (if a0 = c then claim_row now c else a0)" by auto
  from ab(2) obtain b0 where b0: "b0 \<in> set rows" "b = (if b0 = c then claim_row now c else b0)" by auto
  have f: "keeps_keys (claim_row now)" by (simp add: keeps_keys_def claim_row_def)
  have a: "cr_id a = cr_id a0" "cr_acct a = cr_acct a0" "cr_created_at a = cr_created_at a0"
    "cr_rowid a = cr_rowid a0"
    using f by (simp_all add: keeps_keys_def a0(2))
  have b: "cr_id b = cr_id b0" "cr_acct b = cr_acct b0" "cr_created_at b = cr_created_at b0"
    "cr_rowid b = cr_rowid b0"
    using f by (simp_all add: keeps_keys_def b0(2))
  have keys: "cr_id a = cr_id a0" "cr_id b = cr_id b0" "cr_acct a0 = cr_acct b0" "older a0 b0"
    using ab(3,4) a b by (simp_all add: older_def)
  show "reactivated_since (cr_id a) (cr_id b) (Claimed (cr_id c) # l)"
  proof (cases "b0 = c")
    case True
    then have "a0 \<noteq> c" using keys(4) by auto
    then have "active_state (cr_state a0)" using a0(2) ab(6) by simp
    then have "\<not> due now rows c"
      using a0(1) keys(3,4) True by (auto simp: due_def list_ex_iff)
    then show ?thesis using assms(4) by simp
  next
    case False
    then have id: "cr_id b \<noteq> cr_id c" using table_unique[OF assms(2) b0(1) assms(3)] keys(2) by auto
    have "active_state (cr_state a0)"
      using a0(2) ab(6) assms(4) by (auto simp: due_def waiting_state_def active_state_def split: if_splits)
    then have "reactivated_since (cr_id a) (cr_id b) l"
      using assms(1) a0(1) b0 keys ab(5) False by (auto simp: overlap_ok_def)
    then show ?thesis using id by (intro reactivated_later) simp_all
  qed
qed

lemma overlap_event: "overlap_ok l rows \<Longrightarrow> \<forall>i. e \<noteq> Claimed i \<Longrightarrow> overlap_ok (e # l) rows"
  by (simp add: overlap_ok_def reactivated_later)

lemma overlap_enqueued:
  assumes "overlap_ok l rows" and "enqueue_on accounts i kind acct payload now rows = (Some r, rows')"
  shows "overlap_ok (Enqueued i acct # l) rows'"
proof -
  have r: "rows' = rows @ [r]" "cr_id r = i" "cr_state r = Queued"
    using assms(2) by (auto simp: enqueue_on_def Let_def split: if_splits)
  have "overlap_ok (Enqueued i acct # l) rows" using assms(1) by (rule overlap_event) simp
  then show ?thesis
    unfolding r(1) overlap_ok_def using r(2,3) reactivated_now[of i "Enqueued i acct"]
    by (auto simp: reactivates_def)
qed

lemma overlap_retried:
  assumes "overlap_ok l rows" and "table_ok rows" and "outbox_retry i now rows = (Some r, rows')"
    and "e = Requested i \<or> e = Resumed i"
  shows "overlap_ok (e # l) rows'"
proof -
  from assms(2,3) obtain c where c: "c \<in> set rows" "cr_id c = i"
    "rows' = map (\<lambda>r. if r = c then retry_row now c else r) rows" by (rule retry_found)
  show ?thesis
    unfolding c(3) using assms(1,4) c(1,2)
    by (intro overlap_changed) (auto simp: keeps_keys_def retry_row_def reactivates_def)
qed

lemma overlap_cancelled:
  assumes "overlap_ok l rows" and "table_ok rows" and "outbox_cancel i now rows = (Some r, rows')"
  shows "overlap_ok (Revoked i # l) rows'"
proof -
  from assms(2,3) obtain c where c: "c \<in> set rows"
    "rows' = map (\<lambda>r. if r = c then cancel_row now c else r) rows" by (rule cancel_found)
  show ?thesis
    unfolding c(2) using assms(1) c(1)
    by (intro overlap_changed) (auto simp: keeps_keys_def cancel_row_def active_state_def)
qed

lemma overlap_recorded:
  assumes "overlap_ok l rows" and "table_ok rows" and "record_outcome out i now later rows = (Some r, rows')"
    and "\<forall>c \<in> set rows. cr_id c = i \<longrightarrow> cr_state c = Sending"
  shows "overlap_ok (Recorded i out # l) rows'"
proof -
  from assms(2,3,4) obtain c where c: "c \<in> set rows" "cr_state c = Sending"
    "rows' = map (\<lambda>r. if r = c then record_row out now later c else r) rows" by (rule record_found)
  have "cr_state (record_row out now later c) \<noteq> Sending"
    by (simp add: record_row_sel state_after_def split: outcome.splits)
  then show ?thesis
    unfolding c(3) using assms(1) c(1,2)
    by (intro overlap_changed) (simp_all add: record_row_sel active_state_def)
qed

lemma answered_row_sending:
  assumes "outbox_ok K s" and "drop n (ox_tasks s) = TaskAnswered r out # ts"
  shows "\<forall>c \<in> set (ox_rows s). cr_id c = cr_id r \<longrightarrow> cr_state c = Sending"
proof -
  have "TaskAnswered r out \<in> set (ox_tasks s)" using assms(2) by (metis in_set_dropD list.set_intros(1))
  then have "task_fits (ox_history s) (TaskAnswered r out)" using assms(1) unfolding outbox_ok_def by blast
  then have "item_state (cr_id r) (ox_history s) = Some Sending" by (auto simp: sent_row_def)
  then show ?thesis using assms(1) by (auto simp: outbox_ok_def row_fits_def)
qed

lemma overlap_act:
  assumes ok: "outbox_ok K s" and ov: "overlap_ok (ox_history s) (ox_rows s)"
    and act: "outbox_act K a s = Some s'"
  shows "overlap_ok (ox_history s') (ox_rows s')"
proof -
  have t: "table_ok (ox_rows s)" using ok by (simp add: outbox_ok_def)
  show ?thesis
  proof (cases a)
    case (Logout acct)
    then show ?thesis using act ov by (auto simp: overlap_ok_def forget_account_def)
  next
    case (Enqueue i kind acct payload now)
    then show ?thesis
      using act overlap_enqueued[OF ov] by (auto split: prod.splits option.splits if_splits)
  next
    case (Retry i now)
    then show ?thesis using act overlap_retried[OF ov t] by (auto split: prod.splits option.splits)
  next
    case (Cancel i now)
    then show ?thesis using act overlap_cancelled[OF ov t] by (auto split: prod.splits option.splits)
  next
    case (Start now stored)
    have "overlap_ok l (snd (recover_interrupted now (ox_rows s)))" for l
      by (auto simp: overlap_ok_def recover_interrupted_def update_where_def interrupt_row_def)
    then show ?thesis using Start act ov by (auto split: if_splits)
  next
    case (Resume found stored now)
    then show ?thesis
      using act ov overlap_retried[OF ov t]
      by (auto simp: Let_def split: worker_state.splits list.splits if_splits prod.splits option.splits)
  next
    case (Claim now)
    then obtain r rows where claim: "claim_next now (ox_rows s) = (Some r, rows)"
      "s' = s\<lparr>ox_rows := rows, ox_tasks := ox_tasks s @ [TaskSending r],
         ox_history := Claimed (cr_id r) # ox_history s\<rparr>"
      using act by (auto split: if_splits prod.splits option.splits)
    from t claim(1) obtain c where c: "c \<in> set (ox_rows s)" "due now (ox_rows s) c" "r = claim_row now c"
      "rows = map (\<lambda>r. if r = c then claim_row now c else r) (ox_rows s)" by (rule claim_found)
    have "cr_id r = cr_id c" by (simp add: c(3) claim_row_def)
    then show ?thesis using overlap_claimed[OF ov t c(1,2)] claim(2) c(4) by simp
  next
    case (Answer n found E)
    then show ?thesis
      using act ov by (auto simp: Let_def intro: overlap_event split: list.splits delivery_task.splits)
  next
    case (Record n now later)
    then obtain r out ts where task: "drop n (ox_tasks s) = TaskAnswered r out # ts"
      using act by (auto split: list.splits delivery_task.splits)
    then show ?thesis
      using Record act ov overlap_recorded[OF ov t _ answered_row_sending[OF ok task]]
      by (auto simp: Let_def split: prod.splits option.splits)
  qed (use act ov in \<open>auto split: if_splits list.splits delivery_task.splits\<close>)
qed

lemma outbox_reach_overlap: "outbox_reach K s \<Longrightarrow> overlap_ok (ox_history s) (ox_rows s)"
proof (erule reach_invariant_with[where Q = "outbox_ok K"])
  show "outbox_reach K s \<Longrightarrow> outbox_ok K s" for s by (rule outbox_reach_ok)
  show "outbox_init s \<Longrightarrow> overlap_ok (ox_history s) (ox_rows s)" for s
    by (simp add: outbox_init_def overlap_ok_def)
  show "overlap_ok (ox_history s') (ox_rows s')"
    if "outbox_ok K s" "overlap_ok (ox_history s) (ox_rows s)" "outbox_step K s s'" for s s'
    using that overlap_act by (auto simp: outbox_step_def)
qed

lemma sending_claimed: "item_state i l = Some Sending \<Longrightarrow> Claimed i \<in> set l"
  by (induction i l rule: item_state.induct) (auto split: if_splits simp: state_after_def split: outcome.splits)

text \<open>C31: the items of an account are sent one after the other, the older one first: when two of them are
  being sent at the same time, the older one became active after the younger one had been claimed, because
  the user asked for it again, because it was resumed at a start, or because it was enqueued only then,
  with an earlier time of creation by a clock that had gone backwards.\<close>

theorem deliveries_overlap:
  assumes "outbox_reach K s" and "a \<in> set (ox_rows s)" and "b \<in> set (ox_rows s)"
    and "cr_acct a = cr_acct b" and "older a b" and "cr_state a = Sending" and "cr_state b = Sending"
  shows "\<exists>later old. ox_history s = later @ Claimed (cr_id b) # old \<and>
    (\<exists>e \<in> set later. reactivates (cr_id a) e)"
proof -
  let ?p = "\<lambda>e. e \<noteq> Claimed (cr_id b)"
  have "reactivated_since (cr_id a) (cr_id b) (ox_history s)"
    using outbox_reach_overlap[OF assms(1)] assms(2-7) by (auto simp: overlap_ok_def active_state_def)
  then have r: "\<exists>e \<in> set (takeWhile ?p (ox_history s)). reactivates (cr_id a) e"
    by (simp add: reactivated_since_def)
  have "item_state (cr_id b) (ox_history s) = Some Sending"
    using outbox_reach_ok[OF assms(1)] assms(3,7) by (auto simp: outbox_ok_def row_fits_def)
  then have "Claimed (cr_id b) \<in> set (ox_history s)" by (rule sending_claimed)
  then have "dropWhile ?p (ox_history s) \<noteq> []" by (simp add: dropWhile_eq_Nil_conv)
  then obtain x old where d: "dropWhile ?p (ox_history s) = x # old" by (cases "dropWhile ?p (ox_history s)") auto
  have "\<not> ?p (hd (dropWhile ?p (ox_history s)))" by (rule hd_dropWhile) fact
  then have "x = Claimed (cr_id b)" using d by simp
  then have "ox_history s = takeWhile ?p (ox_history s) @ Claimed (cr_id b) # old"
    using takeWhile_dropWhile_id[of ?p "ox_history s"] d by simp
  then show ?thesis using r by blast
qed

section \<open>Runs\<close>

text \<open>A delivery that fails with the given code, or is accepted; every account is at a server that does not
  recognise repetitions, except for the last run.\<close>

definition sample_delivery :: "app_error_code option \<Rightarrow> delivery_env" where
  "sample_delivery failure =
     (let deliver = (\<lambda>_. Inr (\<lambda>i. case failure of
        None \<Rightarrow> Inr (str ''1'', str ''social.example'') | Some c \<Rightarrow> Inl (app_error_new c i)))
      in \<lparr>de_post = deliver, de_edit = deliver\<rparr>)"

definition outbox_start :: outbox_sys where
  "outbox_start = \<lparr>ox_accounts = [], ox_rows = [], ox_worker = WorkerOff, ox_tasks = [], ox_history = []\<rparr>"

definition after_run :: "(rstr \<Rightarrow> server_kind) \<Rightarrow> outbox_action list \<Rightarrow> outbox_sys" where
  "after_run K actions = the (outbox_run K actions outbox_start)"

lemma after_run_reach: "outbox_run K actions outbox_start \<noteq> None \<Longrightarrow> outbox_reach K (after_run K actions)"
proof -
  assume "outbox_run K actions outbox_start \<noteq> None"
  then obtain s where s: "outbox_run K actions outbox_start = Some s" by blast
  have "outbox_reach K outbox_start" by (rule reach_init) (simp add: outbox_init_def outbox_start_def)
  with s show ?thesis unfolding after_run_def using outbox_run_reach by fastforce
qed

definition all_misskey :: "rstr \<Rightarrow> server_kind" where "all_misskey acct = Misskey"
definition all_paon :: "rstr \<Rightarrow> server_kind" where "all_paon acct = Paon"

definition two_queued :: "outbox_action list" where
  "two_queued = [Login (str ''a''), Enqueue (str ''x1'') (str ''post'') (str ''a'') (str ''{}'') 1,
     Enqueue (str ''x2'') (str ''post'') (str ''a'') (str ''{}'') 2, Start 3 True, ListInterrupted True,
     Ready, Claim 4]"

text \<open>The first item meets a rate limit and is sent again later.\<close>

definition resent_actions :: "outbox_action list" where
  "resent_actions = two_queued @ [Answer 0 True (sample_delivery (Some RateLimited)), Record 0 5 5,
     Claim (secs 9)]"

text \<open>The first item fails, the user retries it while the second one is being sent.\<close>

definition overlap_actions :: "outbox_action list" where
  "overlap_actions = two_queued @ [Answer 0 True (sample_delivery (Some Validation)), Record 0 5 5, Claim 6,
     Retry (str ''x1'') 7, Claim 8]"

text \<open>The application ends during a delivery; after its restart the user cancels the item between the
  listing of the interrupted items and the recovery.\<close>

definition cancelled_actions :: "outbox_action list" where
  "cancelled_actions = two_queued @ [Stop, Start 5 True, ListInterrupted True, Cancel (str ''x1'') 6,
     Resume True True 7]"

theorem outbox_refines_history_witness:
  "outbox_history_ok all_misskey (ox_history (after_run all_misskey overlap_actions))"
proof -
  have "outbox_run all_misskey overlap_actions outbox_start \<noteq> None" by code_simp
  from outbox_refines_history[OF after_run_reach[OF this]] show ?thesis by blast
qed

theorem no_silent_resend_witness:
  "\<exists>session e. filter (answers (str ''x1''))
     [Recorded (str ''x1'') (MarkRetrying (str ''errors.rate_limited'') (secs 5)),
      Answered (str ''x1'') (Some Misskey) (Inl (app_error_new RateLimited (str ''x1'')))] =
     [Answered (str ''x1'') session (Inl e)] \<and> (er_code e = RateLimited \<or> er_code e = DatabaseBusy)"
proof -
  let ?mid = "[Recorded (str ''x1'') (MarkRetrying (str ''errors.rate_limited'') (secs 5)),
      Answered (str ''x1'') (Some Misskey) (Inl (app_error_new RateLimited (str ''x1'')))]"
  let ?old = "[Interrupted, Enqueued (str ''x2'') (str ''a''), Enqueued (str ''x1'') (str ''a'')]"
  have "outbox_run all_misskey resent_actions outbox_start \<noteq> None" by code_simp
  then have r: "outbox_reach all_misskey (after_run all_misskey resent_actions)" by (rule after_run_reach)
  have h: "ox_history (after_run all_misskey resent_actions) =
      [] @ Claimed (str ''x1'') # ?mid @ Claimed (str ''x1'') # ?old"
    by code_simp
  have "Requested (str ''x1'') \<in> set ?mid \<or> (\<exists>session e. filter (answers (str ''x1'')) ?mid =
      [Answered (str ''x1'') session (Inl e)] \<and> (er_code e = RateLimited \<or> er_code e = DatabaseBusy))"
    by (rule no_silent_resend[OF r h]) (simp_all add: all_misskey_def)
  then show ?thesis by simp
qed

theorem outbox_attempts_bounded_witness:
  "\<exists>r \<in> set (ox_rows (after_run all_misskey overlap_actions)). cr_attempts r = 2 \<and> cr_attempts r \<le> 7"
proof -
  let ?s = "after_run all_misskey overlap_actions"
  have "outbox_run all_misskey overlap_actions outbox_start \<noteq> None" by code_simp
  then have reach: "outbox_reach all_misskey ?s" by (rule after_run_reach)
  have "ox_rows ?s \<noteq> [] \<and> cr_id (hd (ox_rows ?s)) = str ''x1'' \<and>
      count_list (ox_history ?s) (Claimed (str ''x1'')) = 2 \<and>
      count_list (ox_history ?s) (Requested (str ''x1'')) = 1 \<and>
      count_list (ox_history ?s) (Resumed (str ''x1'')) = 0" by code_simp
  then have "hd (ox_rows ?s) \<in> set (ox_rows ?s)" and
    n: "cr_id (hd (ox_rows ?s)) = str ''x1''" "count_list (ox_history ?s) (Claimed (str ''x1'')) = 2"
      "count_list (ox_history ?s) (Requested (str ''x1'')) = 1"
      "count_list (ox_history ?s) (Resumed (str ''x1'')) = 0" by simp_all
  from outbox_attempts_bounded[OF reach this(1)] show ?thesis
    using n \<open>hd (ox_rows ?s) \<in> set (ox_rows ?s)\<close> by (intro bexI[of _ "hd (ox_rows ?s)"]) simp_all
qed

theorem deliveries_overlap_witness:
  "\<exists>later old. ox_history (after_run all_misskey overlap_actions) = later @ Claimed (str ''x2'') # old \<and>
    (\<exists>e \<in> set later. reactivates (str ''x1'') e)"
proof -
  let ?s = "after_run all_misskey overlap_actions"
  let ?a = "ox_rows ?s ! 0" and ?b = "ox_rows ?s ! 1"
  have "outbox_run all_misskey overlap_actions outbox_start \<noteq> None" by code_simp
  then have r: "outbox_reach all_misskey ?s" by (rule after_run_reach)
  have len: "length (ox_rows ?s) = 2" by code_simp
  have ab: "?a \<in> set (ox_rows ?s)" "?b \<in> set (ox_rows ?s)" using len by simp_all
  have same: "cr_acct ?a = cr_acct ?b" and old: "older ?a ?b"
    and sending: "cr_state ?a = Sending" "cr_state ?b = Sending"
    and ids: "cr_id ?a = str ''x1''" "cr_id ?b = str ''x2''" by code_simp+
  show ?thesis
    using deliveries_overlap[OF r ab same old sending] by (simp only: ids)
qed

text \<open>C33: an item that the user cancelled can be sent nevertheless: the recovery at the start resumes the
  items it listed without looking at their state again, and a retry accepts a cancelled item.\<close>

theorem cancelled_item_resumed:
  "\<exists>K s i old. outbox_reach K s \<and> ox_history s = Resumed i # Revoked i # old \<and>
     (\<exists>r \<in> set (ox_rows s). cr_id r = i \<and> cr_state r = Queued)"
proof (intro exI conjI)
  let ?s = "after_run all_paon cancelled_actions"
  have "outbox_run all_paon cancelled_actions outbox_start \<noteq> None" by code_simp
  then show "outbox_reach all_paon ?s" by (rule after_run_reach)
  show "ox_history ?s = Resumed (str ''x1'') # Revoked (str ''x1'') # [Interrupted, Claimed (str ''x1''),
      Interrupted, Enqueued (str ''x2'') (str ''a''), Enqueued (str ''x1'') (str ''a'')]" by code_simp
  have "list_ex (\<lambda>r. cr_id r = str ''x1'' \<and> cr_state r = Queued) (ox_rows ?s)" by code_simp
  then show "\<exists>r \<in> set (ox_rows ?s). cr_id r = str ''x1'' \<and> cr_state r = Queued"
    by (simp add: list_ex_iff)
qed

end
