(* ===== verification/SearchTokens.thy ===== *)
theory SearchTokens
imports RustPrelude
begin

text \<open>
  The tokens of the search index, \<^verbatim>\<open>src/db/icu_search.rs\<close>.

  The segmenter, the normaliser and the case folder are the ICU4X crates, which are not part of the
  repository: they are the three functions of the record \<open>icu\<close>. The index writes each normalised
  word as \<^verbatim>\<open>x\<close> followed by the hexadecimal digits of its UTF-8 bytes, so that the tokenizer of
  FTS5 never splits it, and searches by prefixes of these tokens. The lemmas show that the encoding
  neither loses nor invents prefix matches, hence that a search of the index answers as the direct
  match of the texts does, which \<^verbatim>\<open>search.rs\<close> uses for the rows that are not indexed yet.
\<close>

section \<open>UTF-8\<close>

definition scalar :: "rchar \<Rightarrow> bool" where
  "scalar c \<longleftrightarrow> c < 0x110000"

text \<open>\<^verbatim>\<open>str::as_bytes\<close>, one char.\<close>

definition utf8_char :: "rchar \<Rightarrow> nat list" where
  "utf8_char c =
     (if c < 0x80 then [c]
      else if c < 0x800 then [0xC0 + c div 64, 0x80 + c mod 64]
      else if c < 0x10000 then [0xE0 + c div 4096, 0x80 + c div 64 mod 64, 0x80 + c mod 64]
      else [0xF0 + c div 262144, 0x80 + c div 4096 mod 64, 0x80 + c div 64 mod 64, 0x80 + c mod 64])"

definition as_bytes :: "rstr \<Rightarrow> nat list" where
  "as_bytes s = concat (map utf8_char s)"

lemma as_bytes_simps [simp]:
  "as_bytes [] = []"
  "as_bytes (c # s) = utf8_char c @ as_bytes s"
  by (simp_all add: as_bytes_def)

lemma length_utf8_char: "length (utf8_char c) = len_utf8 c"
  by (simp add: utf8_char_def len_utf8_def)

lemma length_as_bytes: "length (as_bytes s) = byte_len s"
  by (induction s) (simp_all add: length_utf8_char)

lemma utf8_char_byte: "scalar c \<Longrightarrow> b \<in> set (utf8_char c) \<Longrightarrow> b < 256"
  by (auto simp: utf8_char_def scalar_def split: if_splits)

lemma as_bytes_byte: "list_all scalar s \<Longrightarrow> b \<in> set (as_bytes s) \<Longrightarrow> b < 256"
  by (induction s) (auto dest: utf8_char_byte)

text \<open>The first byte of a char tells how many follow, and the bytes determine the char.\<close>

lemma utf8_char_Cons: "\<exists>b bs. utf8_char c = b # bs"
  by (simp add: utf8_char_def)

definition lead_width :: "nat \<Rightarrow> nat" where
  "lead_width b = (if b < 0x80 then 1 else if b < 0xE0 then 2 else if b < 0xF0 then 3 else 4)"

lemma lead_width: "utf8_char c = b # bs \<Longrightarrow> lead_width b = length (b # bs)"
  by (auto simp: utf8_char_def lead_width_def split: if_splits)

lemma sextets: "m div 64 = n div 64 \<Longrightarrow> m mod 64 = n mod 64 \<Longrightarrow> m = n" for m n :: nat
  by (metis div_mult_mod_eq)

lemma div_4096: "n div 4096 = n div 64 div 64" for n :: nat
  by (simp add: div_mult2_eq [symmetric])

lemma div_262144: "n div 262144 = n div 64 div 64 div 64" for n :: nat
  by (simp add: div_mult2_eq [symmetric])

lemma utf8_char_inject: "utf8_char c = utf8_char d \<Longrightarrow> c = d"
  unfolding utf8_char_def div_4096 div_262144 by (auto split: if_splits dest: sextets intro!: sextets)

lemma utf8_char_append:
  assumes "utf8_char c @ xs = utf8_char d @ ys"
  shows "c = d \<and> xs = ys"
proof -
  obtain b bs b' bs' where b: "utf8_char c = b # bs" "utf8_char d = b' # bs'"
    using utf8_char_Cons by metis
  then have "b = b'" using assms by simp
  then have "length (utf8_char c) = length (utf8_char d)"
    using lead_width[OF b(1)] lead_width[OF b(2)] b by simp
  then show ?thesis using assms utf8_char_inject by (metis append_eq_append_conv)
qed

lemma as_bytes_prefix: "(\<exists>r. as_bytes s = as_bytes p @ r) \<longleftrightarrow> starts_with s p"
proof (induction p arbitrary: s)
  case Nil
  then show ?case by (simp add: starts_with_iff)
next
  case (Cons c p)
  show ?case
  proof (cases s)
    case Nil
    moreover obtain b bs where "utf8_char c = b # bs" using utf8_char_Cons by blast
    ultimately show ?thesis by (simp add: starts_with_iff)
  next
    case (Cons d s')
    have "(\<exists>r. as_bytes s = as_bytes (c # p) @ r) \<longleftrightarrow> d = c \<and> (\<exists>r. as_bytes s' = as_bytes p @ r)"
      using utf8_char_append[of d "as_bytes s'" c] by (fastforce simp: Cons)
    then show ?thesis
      using Cons.IH[of s'] by (auto simp: Cons starts_with_def)
  qed
qed

section \<open>Tokens\<close>

record icu =
  nfkc :: "rstr \<Rightarrow> rstr"
  fold_string :: "rstr \<Rightarrow> rstr"
  word_breaks :: "rstr \<Rightarrow> nat list"

text \<open>The slice \<^verbatim>\<open>&s[a..b]\<close> at char boundaries.\<close>

fun drop_bytes :: "rstr \<Rightarrow> nat \<Rightarrow> rstr" where
  "drop_bytes [] n = []"
| "drop_bytes (c # cs) n = (if n = 0 then c # cs else drop_bytes cs (n - len_utf8 c))"

definition byte_slice :: "rstr \<Rightarrow> nat \<Rightarrow> nat \<Rightarrow> rstr" where
  "byte_slice s a b = drop_bytes (take_bytes s b) a"

definition normalize_and_fold :: "icu \<Rightarrow> rstr \<Rightarrow> rstr" where
  "normalize_and_fold I s = nfkc I (fold_string I (nfkc I s))"

fun segments :: "rstr \<Rightarrow> nat \<Rightarrow> nat list \<Rightarrow> rstr list" where
  "segments folded start_at [] = []"
| "segments folded start_at (e # bounds) =
     (if start_at < e
      then let token = trim (byte_slice folded start_at e)
           in if token \<noteq> [] then token # segments folded e bounds else segments folded e bounds
      else segments folded e bounds)"

definition tokenize_with_segmenter :: "icu \<Rightarrow> rstr \<Rightarrow> rstr list" where
  "tokenize_with_segmenter I s =
     (let folded = normalize_and_fold I s in
      case word_breaks I folded of [] \<Rightarrow> [] | b # bounds \<Rightarrow> segments folded b bounds)"

text \<open>\<^verbatim>\<open>{byte:02x}\<close>.\<close>

definition hex_char :: "nat \<Rightarrow> rchar" where
  "hex_char n = (if n < 10 then 48 + n else 87 + n)"

definition hex_byte :: "nat \<Rightarrow> rstr" where
  "hex_byte b = [hex_char (b div 16), hex_char (b mod 16)]"

definition encode_fts_token :: "rstr \<Rightarrow> rstr" where
  "encode_fts_token token = chr CHR ''x'' # concat (map hex_byte (as_bytes token))"

fun join :: "rstr \<Rightarrow> rstr list \<Rightarrow> rstr" where
  "join sep [] = []"
| "join sep [s] = s"
| "join sep (s # ss) = s @ sep @ join sep ss"

definition index_text :: "icu \<Rightarrow> rstr list \<Rightarrow> rstr" where
  "index_text I texts =
     join (str '' '')
       (map encode_fts_token
         (dedup_by (\<lambda>t. t) [] (concat (map (tokenize_with_segmenter I) texts))))"

definition match_phrase :: "rstr \<Rightarrow> rstr" where
  "match_phrase token = str [CHR 34] @ encode_fts_token token @ str [CHR 34, CHR 42]"

definition match_expression :: "icu \<Rightarrow> rstr \<Rightarrow> rstr option" where
  "match_expression I term =
     (let tokens = map match_phrase (dedup_by (\<lambda>t. t) [] (tokenize_with_segmenter I term)) in
      if tokens \<noteq> [] then Some (join (str '' AND '') tokens) else None)"

definition requires_contiguous_match :: "icu \<Rightarrow> rstr \<Rightarrow> bool" where
  "requires_contiguous_match I term \<longleftrightarrow> 1 < length (tokenize_with_segmenter I term)"

definition contains_term :: "icu \<Rightarrow> rstr \<Rightarrow> rstr list \<Rightarrow> bool" where
  "contains_term I term texts \<longleftrightarrow>
     (let term = normalize_and_fold I term in
      term \<noteq> [] \<and> (\<exists>field \<in> set texts. str_contains (normalize_and_fold I field) term))"

definition matches_fields :: "icu \<Rightarrow> rstr \<Rightarrow> rstr list \<Rightarrow> bool" where
  "matches_fields I term texts \<longleftrightarrow>
     (let query_tokens = tokenize_with_segmenter I term in
      if query_tokens = [] then False
      else let field_tokens = concat (map (tokenize_with_segmenter I) texts)
           in \<forall>query \<in> set query_tokens. \<exists>token \<in> set field_tokens. starts_with token query)"

text \<open>\<^verbatim>\<open>str::split_whitespace\<close>.\<close>

function split_whitespace :: "rstr \<Rightarrow> rstr list" where
  "split_whitespace s =
     (let t = dropWhile is_whitespace s in
      if t = [] then []
      else takeWhile (\<lambda>c. \<not> is_whitespace c) t #
           split_whitespace (dropWhile (\<lambda>c. \<not> is_whitespace c) t))"
  by pat_completeness auto
termination
proof (relation "measure length")
  fix s t :: rstr
  assume t: "t = dropWhile is_whitespace s" "t \<noteq> []"
  then have "\<not> is_whitespace (hd t)" by (metis hd_dropWhile)
  then have "length (dropWhile (\<lambda>c. \<not> is_whitespace c) t) < length t"
    using t(2) by (cases t) (simp_all add: less_Suc_eq_le length_dropWhile_le)
  also have "length t \<le> length s" using t(1) by (simp add: length_dropWhile_le)
  finally show "(dropWhile (\<lambda>c. \<not> is_whitespace c) t, s) \<in> measure length" by simp
qed simp

declare split_whitespace.simps [simp del]

definition matches_index_text :: "rstr \<Rightarrow> rstr list \<Rightarrow> bool" where
  "matches_index_text query_token_text indexed_fields \<longleftrightarrow>
     (let query_tokens = split_whitespace query_token_text in
      if query_tokens = [] then False
      else \<forall>query \<in> set query_tokens. \<exists>field \<in> set indexed_fields.
             \<exists>indexed \<in> set (split_whitespace field). starts_with indexed query)"

section \<open>The encoding keeps prefixes\<close>

lemma hex_char_inject: "m < 16 \<Longrightarrow> n < 16 \<Longrightarrow> hex_char m = hex_char n \<longleftrightarrow> m = n"
  by (auto simp: hex_char_def split: if_splits)

lemma hex_byte_inject:
  assumes "a < 256" "b < 256"
  shows "hex_byte a = hex_byte b \<longleftrightarrow> a = b"
proof
  assume e: "hex_byte a = hex_byte b"
  have "a div 16 = b div 16 \<and> a mod 16 = b mod 16"
    using e assms hex_char_inject[of "a div 16" "b div 16"] hex_char_inject[of "a mod 16" "b mod 16"]
    by (simp add: hex_byte_def)
  then show "a = b" by (metis div_mult_mod_eq)
qed simp

lemma hex_prefix:
  "list_all (\<lambda>b. b < 256) xs \<Longrightarrow> list_all (\<lambda>b. b < 256) ys \<Longrightarrow>
   (\<exists>r. concat (map hex_byte xs) = concat (map hex_byte ys) @ r) \<longleftrightarrow> (\<exists>r. xs = ys @ r)"
proof (induction ys arbitrary: xs)
  case (Cons y ys)
  show ?case
  proof (cases xs)
    case (Cons x xs')
    have h: "hex_byte x = hex_byte y \<longleftrightarrow> x = y"
      using Cons.prems Cons by (intro hex_byte_inject) auto
    have "(\<exists>r. concat (map hex_byte xs) = concat (map hex_byte (y # ys)) @ r) \<longleftrightarrow>
        hex_byte x = hex_byte y \<and> (\<exists>r. concat (map hex_byte xs') = concat (map hex_byte ys) @ r)"
      by (auto simp: Cons hex_byte_def)
    then show ?thesis using Cons.IH[of xs'] Cons.prems Cons h by auto
  qed (simp add: hex_byte_def)
qed simp

lemma encode_fts_token_prefix:
  assumes "list_all scalar token" "list_all scalar query"
  shows "starts_with (encode_fts_token token) (encode_fts_token query) \<longleftrightarrow> starts_with token query"
proof -
  have b: "list_all (\<lambda>b. b < 256) (as_bytes token)" "list_all (\<lambda>b. b < 256) (as_bytes query)"
    using assms as_bytes_byte by (auto simp: list_all_iff)
  show ?thesis
    using hex_prefix[OF b] as_bytes_prefix[of token query]
    by (simp add: starts_with_iff encode_fts_token_def)
qed

text \<open>An encoded token is a word of ASCII letters and digits.\<close>

lemma hex_char_word: "n < 16 \<Longrightarrow> is_ascii_alphanumeric (hex_char n)"
  by (simp add: hex_char_def ascii_class_defs)

lemma encode_fts_token_word:
  assumes "list_all scalar token"
  shows "encode_fts_token token \<noteq> []" "list_all is_ascii_alphanumeric (encode_fts_token token)"
proof -
  show "encode_fts_token token \<noteq> []" by (simp add: encode_fts_token_def)
  have "is_ascii_alphanumeric c" if "b \<in> set (as_bytes token)" "c \<in> set (hex_byte b)" for b c
    using that as_bytes_byte[OF assms that(1)] hex_char_word[of "b div 16"] hex_char_word[of "b mod 16"]
    by (auto simp: hex_byte_def)
  then show "list_all is_ascii_alphanumeric (encode_fts_token token)"
    by (auto simp: encode_fts_token_def list_all_iff ascii_class_defs)
qed

lemma alphanumeric_not_whitespace: "is_ascii_alphanumeric c \<Longrightarrow> \<not> is_whitespace c"
  by (auto simp: ascii_class_defs is_whitespace_def)

definition plain_word :: "rstr \<Rightarrow> bool" where
  "plain_word w \<longleftrightarrow> w \<noteq> [] \<and> list_all (\<lambda>c. \<not> is_whitespace c) w"

lemma encode_plain_word: "list_all scalar token \<Longrightarrow> plain_word (encode_fts_token token)"
  using encode_fts_token_word[of token] alphanumeric_not_whitespace
  by (auto simp: plain_word_def list_all_iff)

lemma split_whitespace_word:
  assumes "plain_word w" "rest = [] \<or> is_whitespace (hd rest)"
  shows "split_whitespace (w @ rest) = w # split_whitespace rest"
proof -
  have ws: "w \<noteq> []" "\<forall>c\<in>set w. \<not> is_whitespace c"
    using assms(1) by (auto simp: plain_word_def list_all_iff)
  then have d: "dropWhile is_whitespace (w @ rest) = w @ rest"
    by (cases w) auto
  have t: "takeWhile (\<lambda>c. \<not> is_whitespace c) (w @ rest) = w"
    "dropWhile (\<lambda>c. \<not> is_whitespace c) (w @ rest) = rest"
    using ws assms(2) by (cases rest; simp add: takeWhile_append dropWhile_append)+
  show ?thesis
    using ws(1) by (subst split_whitespace.simps) (simp add: d t Let_def)
qed

lemma split_whitespace_space [simp]:
  "split_whitespace [] = []"
  "is_whitespace c \<Longrightarrow> split_whitespace (c # s) = split_whitespace s"
  by (subst split_whitespace.simps, simp) (subst (1 2) split_whitespace.simps, simp)

lemma split_whitespace_join:
  "list_all plain_word ws \<Longrightarrow> split_whitespace (join (str '' '') ws) = ws"
proof (induction ws)
  case (Cons w ws)
  have "is_whitespace 32" by (simp add: is_whitespace_def)
  then show ?case
    using Cons split_whitespace_word[of w "32 # join [32] ws"] split_whitespace_word[of w "[]"]
    by (cases ws) simp_all
qed simp

section \<open>The index answers as the fields do\<close>

text \<open>ICU returns Unicode text.\<close>

definition unicode_icu :: "icu \<Rightarrow> bool" where
  "unicode_icu I \<longleftrightarrow> (\<forall>s. list_all scalar (nfkc I s))"

lemma list_all_dropWhile: "list_all P xs \<Longrightarrow> list_all P (dropWhile Q xs)"
  by (metis list_all_iff set_dropWhileD)

lemma trim_scalar: "list_all P s \<Longrightarrow> list_all P (trim s)"
  by (simp add: trim_def trim_end_def trim_start_def list_all_dropWhile)

lemma take_bytes_all: "list_all P s \<Longrightarrow> list_all P (take_bytes s n)"
  by (induction s n rule: take_bytes.induct) auto

lemma drop_bytes_all: "list_all P s \<Longrightarrow> list_all P (drop_bytes s n)"
  by (induction s n rule: drop_bytes.induct) auto

lemma segments_all: "list_all P folded \<Longrightarrow> list_all (list_all P) (segments folded b bounds)"
  by (induction folded b bounds rule: segments.induct)
     (auto simp: Let_def byte_slice_def intro: trim_scalar take_bytes_all drop_bytes_all)

lemma tokenize_scalar:
  "unicode_icu I \<Longrightarrow> list_all (list_all scalar) (tokenize_with_segmenter I s)"
  by (auto simp: tokenize_with_segmenter_def unicode_icu_def normalize_and_fold_def Let_def
      intro: segments_all split: list.splits)

definition index_tokens :: "icu \<Rightarrow> rstr list \<Rightarrow> rstr list" where
  "index_tokens I texts = dedup_by (\<lambda>t. t) [] (concat (map (tokenize_with_segmenter I) texts))"

lemma set_index_tokens:
  "set (index_tokens I texts) = (\<Union>f \<in> set texts. set (tokenize_with_segmenter I f))"
  using set_dedup_by[of "\<lambda>t. t" "[]" "concat (map (tokenize_with_segmenter I) texts)"]
  by (simp add: index_tokens_def)

lemma split_index_text:
  assumes "unicode_icu I"
  shows "split_whitespace (index_text I texts) = map encode_fts_token (index_tokens I texts)"
proof -
  have "list_all scalar t" if "t \<in> set (index_tokens I texts)" for t
    using that tokenize_scalar[OF assms] by (auto simp: set_index_tokens list_all_iff)
  then have "list_all plain_word (map encode_fts_token (index_tokens I texts))"
    using encode_plain_word by (auto simp: list_all_iff)
  then show ?thesis
    using split_whitespace_join by (simp add: index_text_def index_tokens_def)
qed

lemma encoded_prefix:
  assumes "unicode_icu I" "q \<in> set (tokenize_with_segmenter I s)" "t \<in> set (tokenize_with_segmenter I s')"
  shows "starts_with (encode_fts_token t) (encode_fts_token q) \<longleftrightarrow> starts_with t q"
  using assms tokenize_scalar[OF assms(1)] by (intro encode_fts_token_prefix) (auto simp: list_all_iff)

lemma indexed_match:
  assumes "unicode_icu I"
  shows "matches_index_text (index_text I [term]) (map (index_text I) groups) \<longleftrightarrow>
    matches_fields I term (concat groups)"
proof -
  let ?q = "index_tokens I [term]"
  have q: "set ?q = set (tokenize_with_segmenter I term)" by (simp add: set_index_tokens)
  have empty: "?q = [] \<longleftrightarrow> tokenize_with_segmenter I term = []"
    using q by (metis set_empty)
  have found: "(\<exists>field \<in> set (map (index_text I) groups). \<exists>indexed \<in> set (split_whitespace field).
        starts_with indexed (encode_fts_token query)) \<longleftrightarrow>
      (\<exists>token \<in> set (concat (map (tokenize_with_segmenter I) (concat groups))). starts_with token query)"
    if "query \<in> set (tokenize_with_segmenter I term)" for query
  proof -
    have "(\<exists>indexed \<in> set (split_whitespace (index_text I g)). starts_with indexed (encode_fts_token query)) \<longleftrightarrow>
        (\<exists>f \<in> set g. \<exists>token \<in> set (tokenize_with_segmenter I f). starts_with token query)" for g
      using encoded_prefix[OF assms that]
      by (auto simp: split_index_text[OF assms] set_index_tokens)
    then show ?thesis by auto
  qed
  show ?thesis
    unfolding matches_index_text_def matches_fields_def Let_def split_index_text[OF assms]
    using found by (auto simp: empty q)
qed

end
