(* ===== verification/SearchIndex.thy ===== *)
theory SearchIndex
imports SearchTokens "HOL-Library.AList" "HOL-Library.List_Lexorder" "HOL-Library.Product_Lexorder"
begin

text \<open>
  The asynchronous search index, \<^verbatim>\<open>src/services/search_indexer.rs\<close>, with the triggers of
  \<^verbatim>\<open>src/migrations/032\<close> to \<^verbatim>\<open>037\<close> that feed it and the cache clearing of
  \<^verbatim>\<open>src/db/queries/settings.rs\<close>.

  Statuses and accounts are indexed in the same way, each by a queue of changed keys and a backfill
  cursor over the rows that are older than the index. A \<open>side\<close> is the tables of one of the two:
  the rows with the two texts that are indexed, the queue, the stored token streams, the full-text
  postings that the triggers derive from them, the backfill state, the cached row counter and the
  merge flag. A \<open>doc_format\<close> says how a token stream is stored and which stored streams have
  postings: those of statuses carry the version of their text scope (migration 037).

  The worker reads without a lock, segments, and commits later; other processes that share the
  database run workers of their own, and the program writes rows at any time. A worker is therefore
  a state machine whose steps are its reads and commits, and a run is a list of events: single row
  changes, cache clearings, segment merges, worker steps, and abandoned worker turns (a busy writer, an error, the end
  of the process). A row change carries the generation that SQLite draws for the queue entry; 16
  random bytes are taken not to repeat, which is the hypothesis \<open>distinct\<close> of the theorems.
\<close>

section \<open>Tables\<close>

type_synonym key = "rstr \<times> rstr"
type_synonym texts = "rstr \<times> rstr"

datatype job_action = JobUpsert | JobDelete

record job =
  action :: job_action
  generation :: nat
  queued_at :: nat

record 'd doc_format =
  mk_doc :: "rstr \<Rightarrow> 'd"
  posting :: "'d \<Rightarrow> rstr option"

record 'd side =
  entries :: "(key \<times> texts) list"
  jobs :: "(key \<times> job) list"
  docs :: "(key \<times> 'd) list"
  postings :: "key \<Rightarrow> rstr option"
  postings_ok :: bool
  cursor :: "key option"
  processed :: int
  total :: int
  completed :: bool
  counter :: int
  merge_debt :: bool

definition status_text_scope_version :: int where "status_text_scope_version = 2"

type_synonym status_doc = "rstr \<times> int"

definition status_format :: "status_doc doc_format" where
  "status_format = \<lparr>mk_doc = (\<lambda>t. (t, status_text_scope_version)),
     posting = (\<lambda>(t, v). if v = status_text_scope_version then Some t else None)\<rparr>"

definition account_format :: "rstr doc_format" where
  "account_format = \<lparr>mk_doc = (\<lambda>t. t), posting = Some\<rparr>"

record search_db =
  status_side :: "status_doc side"
  account_side :: "rstr side"
  updates_enabled :: bool

section \<open>Triggers\<close>

text \<open>The full-text table keeps its content elsewhere: a deletion must name the text that was
  inserted, and a row is inserted once. \<open>postings_ok\<close> records whether the triggers comply.\<close>

definition fts_insert :: "key \<Rightarrow> rstr \<Rightarrow> 'd side \<Rightarrow> 'd side" where
  "fts_insert k t s =
     s\<lparr>postings := (postings s)(k \<mapsto> t), postings_ok := (postings_ok s \<and> postings s k = None)\<rparr>"

definition fts_delete :: "key \<Rightarrow> rstr \<Rightarrow> 'd side \<Rightarrow> 'd side" where
  "fts_delete k t s =
     s\<lparr>postings := (postings s)(k := None), postings_ok := (postings_ok s \<and> postings s k = Some t)\<rparr>"

definition content_inserted :: "'d doc_format \<Rightarrow> key \<Rightarrow> 'd \<Rightarrow> 'd side \<Rightarrow> 'd side" where
  "content_inserted F k d s = (case posting F d of None \<Rightarrow> s | Some t \<Rightarrow> fts_insert k t s)"

definition content_deleted :: "'d doc_format \<Rightarrow> key \<Rightarrow> 'd \<Rightarrow> 'd side \<Rightarrow> 'd side" where
  "content_deleted F k d s = (case posting F d of None \<Rightarrow> s | Some t \<Rightarrow> fts_delete k t s)"

definition content_updated :: "'d doc_format \<Rightarrow> key \<Rightarrow> 'd \<Rightarrow> 'd \<Rightarrow> 'd side \<Rightarrow> 'd side" where
  "content_updated F k old_doc new_doc s =
     (if old_doc = new_doc then s
      else content_inserted F k new_doc (content_deleted F k old_doc s))"

definition upsert_index_content :: "'d doc_format \<Rightarrow> bool \<Rightarrow> key \<Rightarrow> rstr \<Rightarrow> 'd side \<Rightarrow> 'd side" where
  "upsert_index_content F enabled k token_text s =
     (let d = mk_doc F token_text; s' = s\<lparr>docs := AList.update k d (docs s)\<rparr> in
      if \<not> enabled then s'
      else case map_of (docs s) k of
          None \<Rightarrow> content_inserted F k d s'
        | Some old_doc \<Rightarrow> content_updated F k old_doc d s')"

definition delete_index_content :: "'d doc_format \<Rightarrow> bool \<Rightarrow> key \<Rightarrow> 'd side \<Rightarrow> 'd side" where
  "delete_index_content F enabled k s =
     (let s' = s\<lparr>docs := AList.delete k (docs s)\<rparr> in
      case map_of (docs s) k of
        None \<Rightarrow> s'
      | Some old_doc \<Rightarrow> if enabled then content_deleted F k old_doc s' else s')"

definition enqueue_job :: "key \<Rightarrow> job_action \<Rightarrow> nat \<Rightarrow> nat \<Rightarrow> 'd side \<Rightarrow> 'd side" where
  "enqueue_job k a g now s =
     s\<lparr>jobs := AList.update k \<lparr>action = a, generation = g, queued_at = now\<rparr> (jobs s)\<rparr>"

section \<open>Row changes\<close>

text \<open>The generations and the time of each event are those the triggers would store. An insertion
  of a key that exists, or a change to one that does, breaks the primary key and changes nothing.\<close>

datatype row_event =
    InsertRow key texts nat nat
  | UpdateRow key texts nat nat
  | RekeyRow key key texts nat nat nat
  | DeleteRow key nat nat

fun row_event_generations :: "row_event \<Rightarrow> nat list" where
  "row_event_generations (InsertRow k x g now) = [g]"
| "row_event_generations (UpdateRow k x g now) = [g]"
| "row_event_generations (RekeyRow k k' x g g' now) = [g, g']"
| "row_event_generations (DeleteRow k g now) = [g]"

fun change_row :: "bool \<Rightarrow> row_event \<Rightarrow> 'd side \<Rightarrow> 'd side" where
  "change_row enabled (InsertRow k x g now) s =
     (if map_of (entries s) k \<noteq> None then s
      else let s' = s\<lparr>entries := (k, x) # entries s\<rparr> in
           if enabled then enqueue_job k JobUpsert g now (s'\<lparr>counter := counter s + 1\<rparr>) else s')"
| "change_row enabled (UpdateRow k x g now) s =
     (case map_of (entries s) k of
        None \<Rightarrow> s
      | Some old_texts \<Rightarrow>
          let s' = s\<lparr>entries := AList.update k x (entries s)\<rparr> in
          if enabled \<and> old_texts \<noteq> x then enqueue_job k JobUpsert g now s' else s')"
| "change_row enabled (RekeyRow k k' x g g' now) s =
     (if map_of (entries s) k = None \<or> map_of (entries s) k' \<noteq> None then s
      else let s' = s\<lparr>entries := (k', x) # AList.delete k (entries s)\<rparr> in
           if enabled then enqueue_job k' JobUpsert g' now (enqueue_job k JobDelete g now s') else s')"
| "change_row enabled (DeleteRow k g now) s =
     (if map_of (entries s) k = None then s
      else let s' = s\<lparr>entries := AList.delete k (entries s)\<rparr> in
           if enabled then enqueue_job k JobDelete g now (s'\<lparr>counter := max 0 (counter s - 1)\<rparr>) else s')"

text \<open>\<^verbatim>\<open>clear_status_cache\<close>: one transaction that switches the triggers off, empties the index and the
  tables, and resets the counters and the backfill states. The tables of the two older indexes,
  which nothing reads, are left out.\<close>

definition clear_index :: "'d side \<Rightarrow> 'd side" where
  "clear_index s = s\<lparr>postings := (\<lambda>_. None), postings_ok := True, docs := [], jobs := []\<rparr>"

definition clear_rows :: "'d side \<Rightarrow> 'd side" where
  "clear_rows s = s\<lparr>entries := [], counter := 0\<rparr>"

definition reset_backfill :: "'d side \<Rightarrow> 'd side" where
  "reset_backfill s = s\<lparr>cursor := None, processed := 0, total := 0, completed := True\<rparr>"

definition clear_side :: "'d side \<Rightarrow> 'd side" where
  "clear_side s = (reset_backfill (clear_rows (clear_index s)))\<lparr>merge_debt := False\<rparr>"

definition clear_status_cache :: "search_db \<Rightarrow> search_db" where
  "clear_status_cache db =
     db\<lparr>status_side := clear_side (status_side db), account_side := clear_side (account_side db),
        updates_enabled := True\<rparr>"

section \<open>The worker\<close>

definition queue_chunk_size :: nat where "queue_chunk_size = 8"
definition backfill_chunk_size :: nat where "backfill_chunk_size = 32"

record prepared_row =
  row_key :: key
  row_action :: job_action
  row_generation :: nat
  row_tokens :: "rstr option"

record backfill_state =
  bs_cursor :: "key option"
  bs_processed :: int
  bs_total :: int
  bs_completed :: bool

record backfill_row =
  bf_key :: key
  bf_texts :: texts
  bf_tokens :: rstr

record backfill_commit =
  state_updated :: bool
  commit_processed :: int
  commit_total :: int
  commit_completed :: bool

definition tokens_of :: "icu \<Rightarrow> texts \<Rightarrow> rstr" where
  "tokens_of I x = index_text I [fst x, snd x]"

definition load_queue_batch :: "'d side \<Rightarrow> (key \<times> job \<times> texts option) list" where
  "load_queue_batch s =
     map (\<lambda>(k, j). (k, j, map_of (entries s) k))
       (take queue_chunk_size (sort_key (\<lambda>(k, j). (queued_at j, k)) (jobs s)))"

definition prepare_queue_row :: "icu \<Rightarrow> key \<times> job \<times> texts option \<Rightarrow> prepared_row" where
  "prepare_queue_row I = (\<lambda>(k, j, x).
     \<lparr>row_key = k, row_action = action j, row_generation = generation j,
      row_tokens = (if action j = JobUpsert then map_option (tokens_of I) x else None)\<rparr>)"

definition apply_prepared_row ::
  "'d doc_format \<Rightarrow> bool \<Rightarrow> prepared_row \<Rightarrow> 'd side \<Rightarrow> 'd side \<times> bool" where
  "apply_prepared_row F enabled row s =
     (let k = row_key row;
          still_current = (case map_of (jobs s) k of
              None \<Rightarrow> False
            | Some j \<Rightarrow> action j = row_action row \<and> generation j = row_generation row)
      in if \<not> still_current then (s, False)
         else let s' = (case row_tokens row of
                Some token_text \<Rightarrow> upsert_index_content F enabled k token_text s
              | None \<Rightarrow> delete_index_content F enabled k s)
              in (s'\<lparr>jobs := AList.delete k (jobs s')\<rparr>, True))"

fun apply_prepared_rows ::
  "'d doc_format \<Rightarrow> bool \<Rightarrow> prepared_row list \<Rightarrow> 'd side \<Rightarrow> 'd side \<times> bool" where
  "apply_prepared_rows F enabled [] s = (s, False)"
| "apply_prepared_rows F enabled (row # rows) s =
     (let (s1, c1) = apply_prepared_row F enabled row s;
          (s2, c2) = apply_prepared_rows F enabled rows s1
      in (s2, c1 \<or> c2))"

definition record_merge_debt :: "'d side \<Rightarrow> 'd side" where
  "record_merge_debt s = s\<lparr>merge_debt := True\<rparr>"

definition commit_prepared_queue ::
  "'d doc_format \<Rightarrow> bool \<Rightarrow> prepared_row list \<Rightarrow> 'd side \<Rightarrow> 'd side" where
  "commit_prepared_queue F enabled rows s =
     (let (s', changed) = apply_prepared_rows F enabled rows s in
      if changed then record_merge_debt s' else s')"

definition commit_prepared_status_queue :: "prepared_row list \<Rightarrow> search_db \<Rightarrow> search_db" where
  "commit_prepared_status_queue rows db =
     db\<lparr>status_side := commit_prepared_queue status_format (updates_enabled db) rows (status_side db)\<rparr>"

definition status_queue_has_work :: "search_db \<Rightarrow> bool" where
  "status_queue_has_work db \<longleftrightarrow> jobs (status_side db) \<noteq> []"

definition commit_prepared_account_queue ::
  "prepared_row list \<Rightarrow> search_db \<Rightarrow> search_db \<times> bool" where
  "commit_prepared_account_queue rows db =
     (if status_queue_has_work db then (db, False)
      else (db\<lparr>account_side :=
              commit_prepared_queue account_format (updates_enabled db) rows (account_side db)\<rparr>, True))"

definition load_backfill_state :: "'d side \<Rightarrow> backfill_state" where
  "load_backfill_state s =
     \<lparr>bs_cursor = cursor s, bs_processed = processed s, bs_total = total s, bs_completed = completed s\<rparr>"

definition below_cursor :: "key option \<Rightarrow> key \<Rightarrow> bool" where
  "below_cursor c k \<longleftrightarrow> (case c of None \<Rightarrow> True | Some c \<Rightarrow> k < c)"

definition load_backfill_batch :: "icu \<Rightarrow> backfill_state \<Rightarrow> 'd side \<Rightarrow> backfill_row list" where
  "load_backfill_batch I st s =
     map (\<lambda>(k, x). \<lparr>bf_key = k, bf_texts = x, bf_tokens = tokens_of I x\<rparr>)
       (take backfill_chunk_size
         (rev (sort_key fst (filter (\<lambda>(k, x). below_cursor (bs_cursor st) k) (entries s)))))"

definition upsert_backfill_content_if_current ::
  "'d doc_format \<Rightarrow> bool \<Rightarrow> backfill_row \<Rightarrow> 'd side \<Rightarrow> 'd side" where
  "upsert_backfill_content_if_current F enabled row s =
     (if map_of (entries s) (bf_key row) = Some (bf_texts row)
      then upsert_index_content F enabled (bf_key row) (bf_tokens row) s else s)"

definition i64_saturating_add :: "int \<Rightarrow> int \<Rightarrow> int" where
  "i64_saturating_add a b = max i64_min (min i64_max (a + b))"

definition stale_backfill_commit :: "int \<Rightarrow> int \<Rightarrow> backfill_commit" where
  "stale_backfill_commit processed_count total_count =
     \<lparr>state_updated = False, commit_processed = processed_count, commit_total = total_count,
      commit_completed = False\<rparr>"

definition commit_prepared_backfill ::
  "'d doc_format \<Rightarrow> bool \<Rightarrow> bool \<Rightarrow> backfill_state \<Rightarrow> backfill_row list \<Rightarrow> 'd side \<Rightarrow>
   'd side \<times> backfill_commit" where
  "commit_prepared_backfill F enabled higher_priority_work st prepared s =
     (if higher_priority_work then (s, stale_backfill_commit (bs_processed st) (bs_total st))
      else
        let s1 = fold (upsert_backfill_content_if_current F enabled) prepared s;
            s2 = (if prepared \<noteq> [] then record_merge_debt s1 else s1);
            done_now = length prepared < backfill_chunk_size;
            processed_count = i64_saturating_add (bs_processed st) (int (length prepared));
            observed_total = counter s;
            total_count =
              (if done_now then observed_total
               else max (max (bs_total st) observed_total) processed_count);
            last_key = (if prepared = [] then None else Some (bf_key (last prepared)))
        in if \<not> completed s \<and> cursor s = bs_cursor st \<and> processed s = bs_processed st
           then (s2\<lparr>cursor := (case last_key of None \<Rightarrow> cursor s | Some k \<Rightarrow> Some k),
                    processed := max 0 (if done_now then total_count else processed_count),
                    total := max 0 total_count, completed := done_now\<rparr>,
                 \<lparr>state_updated = True, commit_processed = processed_count,
                  commit_total = total_count, commit_completed = done_now\<rparr>)
           else (s, \<lparr>state_updated = False, commit_processed = processed_count,
                    commit_total = total_count, commit_completed = done_now\<rparr>))"

definition commit_prepared_status_backfill ::
  "backfill_state \<Rightarrow> backfill_row list \<Rightarrow> search_db \<Rightarrow> search_db \<times> backfill_commit" where
  "commit_prepared_status_backfill st prepared db =
     (let higher_priority_work =
            (jobs (status_side db) \<noteq> [] \<or> jobs (account_side db) \<noteq> [] \<or>
             \<not> completed (account_side db));
          (s, commit) = commit_prepared_backfill status_format (updates_enabled db)
            higher_priority_work st prepared (status_side db)
      in (db\<lparr>status_side := s\<rparr>, commit))"

definition commit_prepared_account_backfill ::
  "backfill_state \<Rightarrow> backfill_row list \<Rightarrow> search_db \<Rightarrow> search_db \<times> backfill_commit" where
  "commit_prepared_account_backfill st prepared db =
     (let live_work = (jobs (status_side db) \<noteq> [] \<or> jobs (account_side db) \<noteq> []);
          (s, commit) = commit_prepared_backfill account_format (updates_enabled db)
            live_work st prepared (account_side db)
      in (db\<lparr>account_side := s\<rparr>, commit))"

text \<open>The steps of a worker between two reads or commits, \<^verbatim>\<open>run_index_step\<close> with its interleaving
  points.\<close>

datatype worker =
    AtStart
  | StatusQueueLoaded "prepared_row list"
  | StatusQueueEmpty
  | AccountQueueLoaded "prepared_row list"
  | AccountQueueEmpty
  | AccountStateLoaded backfill_state
  | AccountBatchLoaded backfill_state "backfill_row list"
  | AccountsComplete
  | StatusStateLoaded backfill_state
  | StatusBatchLoaded backfill_state "backfill_row list"

fun worker_step :: "icu \<Rightarrow> search_db \<Rightarrow> worker \<Rightarrow> search_db \<times> worker" where
  "worker_step I db AtStart =
     (let queue = load_queue_batch (status_side db) in
      (db, if queue \<noteq> [] then StatusQueueLoaded (map (prepare_queue_row I) queue)
           else StatusQueueEmpty))"
| "worker_step I db (StatusQueueLoaded prepared) = (commit_prepared_status_queue prepared db, AtStart)"
| "worker_step I db StatusQueueEmpty =
     (let queue = load_queue_batch (account_side db) in
      (db, if queue \<noteq> [] then AccountQueueLoaded (map (prepare_queue_row I) queue)
           else AccountQueueEmpty))"
| "worker_step I db (AccountQueueLoaded prepared) =
     (fst (commit_prepared_account_queue prepared db), AtStart)"
| "worker_step I db AccountQueueEmpty =
     (let st = load_backfill_state (account_side db) in
      (db, if \<not> bs_completed st then AccountStateLoaded st else AccountsComplete))"
| "worker_step I db (AccountStateLoaded st) =
     (db, AccountBatchLoaded st (load_backfill_batch I st (account_side db)))"
| "worker_step I db (AccountBatchLoaded st prepared) =
     (fst (commit_prepared_account_backfill st prepared db), AtStart)"
| "worker_step I db AccountsComplete =
     (let st = load_backfill_state (status_side db) in
      (db, if bs_completed st then AtStart else StatusStateLoaded st))"
| "worker_step I db (StatusStateLoaded st) =
     (db, StatusBatchLoaded st (load_backfill_batch I st (status_side db)))"
| "worker_step I db (StatusBatchLoaded st prepared) =
     (fst (commit_prepared_status_backfill st prepared db), AtStart)"

text \<open>The same function when nothing interrupts it, with the result it returns. \<open>WriterBusy\<close>, its
  other result, is an abandoned turn.\<close>

definition u64_max :: nat where "u64_max = 2 ^ 64 - 1"

definition non_negative_u64 :: "int \<Rightarrow> nat" where
  "non_negative_u64 n = nat (max n 0)"

record search_progress =
  processed_count :: nat
  total_count :: nat
  all_completed :: bool
  pending_count :: nat

datatype index_step =
    QueueStep nat
  | BackfillStep search_progress
  | IdleStep search_progress

definition pending_jobs :: "search_db \<Rightarrow> nat" where
  "pending_jobs db =
     non_negative_u64 (int (length (jobs (status_side db))) + int (length (jobs (account_side db))))"

definition index_progress ::
  "search_db \<Rightarrow> backfill_state \<Rightarrow> backfill_state \<Rightarrow> search_progress" where
  "index_progress db status_state account_state =
     \<lparr>processed_count = min u64_max
        (non_negative_u64 (bs_processed status_state) + non_negative_u64 (bs_processed account_state)),
      total_count = min u64_max
        (non_negative_u64 (bs_total status_state) + non_negative_u64 (bs_total account_state)),
      all_completed = (bs_completed status_state \<and> bs_completed account_state),
      pending_count = pending_jobs db\<rparr>"

definition committed_state ::
  "backfill_state \<Rightarrow> backfill_row list \<Rightarrow> backfill_commit \<Rightarrow> backfill_state \<Rightarrow> backfill_state" where
  "committed_state st prepared commit reloaded =
     (if state_updated commit
      then \<lparr>bs_cursor = (if prepared = [] then bs_cursor st else Some (bf_key (last prepared))),
            bs_processed = (if commit_completed commit then commit_total commit
              else commit_processed commit),
            bs_total = commit_total commit, bs_completed = commit_completed commit\<rparr>
      else reloaded)"

definition run_index_step :: "icu \<Rightarrow> search_db \<Rightarrow> search_db \<times> index_step" where
  "run_index_step I db =
     (let queue = load_queue_batch (status_side db) in
      if queue \<noteq> [] then
        let prepared = map (prepare_queue_row I) queue
        in (commit_prepared_status_queue prepared db, QueueStep (length prepared))
      else
      let account_queue = load_queue_batch (account_side db) in
      if account_queue \<noteq> [] then
        let prepared = map (prepare_queue_row I) account_queue;
            (db', committed) = commit_prepared_account_queue prepared db
        in (db', QueueStep (if committed then length prepared else 0))
      else
      let account_state = load_backfill_state (account_side db) in
      if \<not> bs_completed account_state then
        let prepared = load_backfill_batch I account_state (account_side db);
            (db', commit) = commit_prepared_account_backfill account_state prepared db;
            account_state' = committed_state account_state prepared commit
              (load_backfill_state (account_side db'));
            status_state = load_backfill_state (status_side db')
        in (db', BackfillStep (index_progress db' status_state account_state'))
      else
      let status_state = load_backfill_state (status_side db) in
      if bs_completed status_state then (db, IdleStep (index_progress db status_state account_state))
      else
        let prepared = load_backfill_batch I status_state (status_side db);
            (db', commit) = commit_prepared_status_backfill status_state prepared db;
            status_state' = committed_state status_state prepared commit
              (load_backfill_state (status_side db'))
        in (db', BackfillStep (index_progress db' status_state' account_state)))"

subsection \<open>Bounded merges\<close>

text \<open>A merge of FTS5 segments rewrites the postings without changing them. The statement reports
  whether it copied pages, and whether it failed; the flag of the index stays set while it did copy.\<close>

datatype merge_target = MergeStatus | MergeAccount

fun other_target :: "merge_target \<Rightarrow> merge_target" where
  "other_target MergeStatus = MergeAccount"
| "other_target MergeAccount = MergeStatus"

datatype merge_outcome = MergeBusy | MergeWorked | MergeNoop | MergeFailed

definition update_merge_debt_after_attempt :: "merge_target \<Rightarrow> bool \<Rightarrow> search_db \<Rightarrow> search_db" where
  "update_merge_debt_after_attempt target worked db =
     (case target of
        MergeStatus \<Rightarrow> db\<lparr>status_side := (status_side db)\<lparr>merge_debt := worked\<rparr>\<rparr>
      | MergeAccount \<Rightarrow> db\<lparr>account_side := (account_side db)\<lparr>merge_debt := worked\<rparr>\<rparr>)"

definition commit_bounded_merge :: "merge_target \<Rightarrow> merge_outcome \<Rightarrow> search_db \<Rightarrow> search_db" where
  "commit_bounded_merge target outcome db =
     (case outcome of
        MergeBusy \<Rightarrow> db
      | MergeFailed \<Rightarrow> update_merge_debt_after_attempt target False db
      | MergeWorked \<Rightarrow> update_merge_debt_after_attempt target True db
      | MergeNoop \<Rightarrow> update_merge_debt_after_attempt target False db)"

section \<open>Runs\<close>

record search_system =
  database :: search_db
  workers :: "nat \<Rightarrow> worker"

datatype search_event =
    StatusChange row_event
  | AccountChange row_event
  | ClearCache
  | WorkerStep nat
  | WorkerAbandon nat
  | BoundedMerge merge_target merge_outcome

fun event_generations :: "search_event \<Rightarrow> nat list" where
  "event_generations (StatusChange e) = row_event_generations e"
| "event_generations (AccountChange e) = row_event_generations e"
| "event_generations _ = []"

fun search_exec :: "icu \<Rightarrow> search_event \<Rightarrow> search_system \<Rightarrow> search_system" where
  "search_exec I (StatusChange e) sys =
     (let db = database sys in
      sys\<lparr>database := db\<lparr>status_side := change_row (updates_enabled db) e (status_side db)\<rparr>\<rparr>)"
| "search_exec I (AccountChange e) sys =
     (let db = database sys in
      sys\<lparr>database := db\<lparr>account_side := change_row (updates_enabled db) e (account_side db)\<rparr>\<rparr>)"
| "search_exec I ClearCache sys = sys\<lparr>database := clear_status_cache (database sys)\<rparr>"
| "search_exec I (WorkerStep w) sys =
     (let (db, state) = worker_step I (database sys) (workers sys w) in
      sys\<lparr>database := db, workers := (workers sys)(w := state)\<rparr>)"
| "search_exec I (WorkerAbandon w) sys = sys\<lparr>workers := (workers sys)(w := AtStart)\<rparr>"
| "search_exec I (BoundedMerge target outcome) sys =
     sys\<lparr>database := commit_bounded_merge target outcome (database sys)\<rparr>"

definition search_run :: "icu \<Rightarrow> search_event list \<Rightarrow> search_system \<Rightarrow> search_system" where
  "search_run I evs sys = fold (search_exec I) evs sys"

end
