(* ===== verification/SearchInvariant.thy ===== *)
theory SearchInvariant
imports SearchIndex
begin

text \<open>
  The invariant of the search index under every interleaving of row changes, cache clearings and
  workers.

  A key without a queue entry has no postings but those of its present texts, and has them when the
  backfill has passed it; a prepared queue row that is still current, and a prepared backfill batch at
  every key that no newer event has touched, hold the tokens of the present texts. The laws of
  \<open>doc_format\<close> are the locale \<open>doc_store\<close>, in which the lemmas on one side are proved once; it is
  interpreted for statuses and for accounts.
\<close>

section \<open>Lists of tables\<close>

declare split_paired_All [simp del] split_paired_Ex [simp del]

named_theorems side_simps \<open>how the operations on a side change its tables\<close>

lemma map_of_update [simp]: "map_of (AList.update k v al) k' = (if k' = k then Some v else map_of al k')"
  by (simp add: AList.update_conv')

lemma map_of_delete [simp]: "map_of (AList.delete k al) k' = (if k' = k then None else map_of al k')"
  by (simp add: AList.delete_conv')

lemma empty_if_no_key: "(\<forall>k. map_of al k = None) \<longleftrightarrow> al = []"
proof (cases al)
  case (Cons a as)
  then have "map_of al (fst a) \<noteq> None" by (cases a) simp
  then show ?thesis by (metis list.distinct(1) Cons)
qed simp

lemma map_of_in: "distinct (map fst al) \<Longrightarrow> map_of al k = Some x \<longleftrightarrow> (k, x) \<in> set al"
  by (simp add: map_of_eq_Some_iff)

section \<open>What the index promises\<close>

definition index_ok :: "'d doc_format \<Rightarrow> (texts \<Rightarrow> rstr) \<Rightarrow> 'd side \<Rightarrow> key \<Rightarrow> bool" where
  "index_ok F tok s k \<longleftrightarrow> map_of (docs s) k = map_option (mk_doc F \<circ> tok) (map_of (entries s) k)"

definition backfilled :: "'d side \<Rightarrow> key \<Rightarrow> bool" where
  "backfilled s k \<longleftrightarrow> completed s \<or> \<not> below_cursor (cursor s) k"

definition fresh_doc :: "'d doc_format \<Rightarrow> (texts \<Rightarrow> rstr) \<Rightarrow> 'd side \<Rightarrow> key \<Rightarrow> bool" where
  "fresh_doc F tok s k \<longleftrightarrow>
     (case map_of (docs s) k of
        None \<Rightarrow> True
      | Some d \<Rightarrow> \<exists>x. map_of (entries s) k = Some x \<and> (\<forall>t. posting F d = Some t \<longrightarrow> t = tok x))"

definition key_inv :: "'d doc_format \<Rightarrow> (texts \<Rightarrow> rstr) \<Rightarrow> nat set \<Rightarrow> 'd side \<Rightarrow> key \<Rightarrow> bool" where
  "key_inv F tok spent s k \<longleftrightarrow>
     (case map_of (jobs s) k of
        Some j \<Rightarrow> (action j = JobUpsert \<longleftrightarrow> map_of (entries s) k \<noteq> None) \<and> generation j \<in> spent
      | None \<Rightarrow> fresh_doc F tok s k \<and> (backfilled s k \<longrightarrow> index_ok F tok s k))"

definition tables_ok :: "'d doc_format \<Rightarrow> 'd side \<Rightarrow> bool" where
  "tables_ok F s \<longleftrightarrow>
     distinct (map fst (entries s)) \<and> distinct (map fst (jobs s)) \<and> distinct (map fst (docs s)) \<and>
     postings_ok s \<and> (\<forall>k. postings s k = Option.bind (map_of (docs s) k) (posting F)) \<and>
     counter s = int (length (entries s)) \<and> 0 \<le> processed s \<and> processed s \<le> total s"

definition side_inv :: "'d doc_format \<Rightarrow> (texts \<Rightarrow> rstr) \<Rightarrow> nat set \<Rightarrow> 'd side \<Rightarrow> bool" where
  "side_inv F tok spent s \<longleftrightarrow> tables_ok F s \<and> (\<forall>k. key_inv F tok spent s k)"

text \<open>What one step does to a key, as far as prepared work is concerned.\<close>

definition key_step :: "'d doc_format \<Rightarrow> (texts \<Rightarrow> rstr) \<Rightarrow> nat set \<Rightarrow> 'd side \<Rightarrow> 'd side \<Rightarrow> bool" where
  "key_step F tok spent s s' \<longleftrightarrow>
     (\<forall>k. (map_of (jobs s') k = map_of (jobs s) k \<and> map_of (entries s') k = map_of (entries s) k \<and>
            (index_ok F tok s k \<longrightarrow> index_ok F tok s' k)) \<or>
          (\<exists>j. map_of (jobs s') k = Some j \<and> generation j \<notin> spent) \<or>
          (map_of (jobs s') k = None \<and> index_ok F tok s' k))"

definition queue_row_ok :: "(texts \<Rightarrow> rstr) \<Rightarrow> nat set \<Rightarrow> 'd side \<Rightarrow> prepared_row \<Rightarrow> bool" where
  "queue_row_ok tok spent s r \<longleftrightarrow>
     row_generation r \<in> spent \<and>
     (\<forall>j. map_of (jobs s) (row_key r) = Some j \<longrightarrow> action j = row_action r \<longrightarrow>
        generation j = row_generation r \<longrightarrow>
        row_tokens r = map_option tok (map_of (entries s) (row_key r)))"

definition reached :: "backfill_row list \<Rightarrow> key \<Rightarrow> bool" where
  "reached rows k \<longleftrightarrow> length rows < backfill_chunk_size \<or> bf_key (last rows) \<le> k"

definition batch_row :: "(texts \<Rightarrow> rstr) \<Rightarrow> key \<Rightarrow> texts \<Rightarrow> backfill_row" where
  "batch_row tok k x = \<lparr>bf_key = k, bf_texts = x, bf_tokens = tok x\<rparr>"

definition batch_ok ::
  "'d doc_format \<Rightarrow> (texts \<Rightarrow> rstr) \<Rightarrow> 'd side \<Rightarrow> backfill_state \<Rightarrow> backfill_row list \<Rightarrow> bool" where
  "batch_ok F tok s st rows \<longleftrightarrow>
     (\<forall>r \<in> set rows. bf_tokens r = tok (bf_texts r)) \<and>
     (\<forall>k. below_cursor (bs_cursor st) k \<longrightarrow> reached rows k \<longrightarrow>
        map_of (jobs s) k \<noteq> None \<or> index_ok F tok s k \<or>
        (\<exists>x. map_of (entries s) k = Some x \<and> batch_row tok k x \<in> set rows))"

lemma key_inv_spent: "key_inv F tok spent s k \<Longrightarrow> spent \<subseteq> spent' \<Longrightarrow> key_inv F tok spent' s k"
  by (auto simp: key_inv_def split: option.splits)

lemma side_inv_spent: "side_inv F tok spent s \<Longrightarrow> spent \<subseteq> spent' \<Longrightarrow> side_inv F tok spent' s"
  by (auto simp: side_inv_def intro: key_inv_spent)

lemma key_inv_cong:
  assumes "map_of (jobs s') k = map_of (jobs s) k" "map_of (entries s') k = map_of (entries s) k"
    "map_of (docs s') k = map_of (docs s) k" "backfilled s' k \<longrightarrow> backfilled s k"
  shows "key_inv F tok spent s k \<Longrightarrow> key_inv F tok spent s' k"
  using assms by (auto simp: key_inv_def fresh_doc_def index_ok_def split: option.splits)

lemma key_step_refl: "key_step F tok spent s s"
  by (simp add: key_step_def)

lemma key_step_trans:
  assumes "key_step F tok spent s s1" "key_step F tok spent s1 s2"
  shows "key_step F tok spent s s2"
  unfolding key_step_def
proof
  fix k
  note steps = assms[unfolded key_step_def, rule_format, of k]
  show "(map_of (jobs s2) k = map_of (jobs s) k \<and> map_of (entries s2) k = map_of (entries s) k \<and>
          (index_ok F tok s k \<longrightarrow> index_ok F tok s2 k)) \<or>
        (\<exists>j. map_of (jobs s2) k = Some j \<and> generation j \<notin> spent) \<or>
        (map_of (jobs s2) k = None \<and> index_ok F tok s2 k)"
    using steps(2)
  proof (elim disjE conjE)
    assume same: "map_of (jobs s2) k = map_of (jobs s1) k" "map_of (entries s2) k = map_of (entries s1) k"
      "index_ok F tok s1 k \<longrightarrow> index_ok F tok s2 k"
    show ?thesis using steps(1) unfolding same(1,2) using same(3) by blast
  qed blast+
qed

lemma queue_row_ok_step:
  "queue_row_ok tok spent s r \<Longrightarrow> key_step F tok spent s s' \<Longrightarrow> queue_row_ok tok spent s' r"
  unfolding queue_row_ok_def key_step_def by (metis option.distinct(1) option.inject)

lemma queue_row_ok_spent: "queue_row_ok tok spent s r \<Longrightarrow> spent \<subseteq> spent' \<Longrightarrow> queue_row_ok tok spent' s r"
  by (auto simp: queue_row_ok_def)

lemma batch_ok_step:
  assumes b: "batch_ok F tok s st rows" and step: "key_step F tok spent s s'"
  shows "batch_ok F tok s' st rows"
proof -
  have "map_of (jobs s') k \<noteq> None \<or> index_ok F tok s' k \<or>
      (\<exists>x. map_of (entries s') k = Some x \<and> batch_row tok k x \<in> set rows)"
    if "below_cursor (bs_cursor st) k" "reached rows k" for k
  proof -
    have old: "map_of (jobs s) k \<noteq> None \<or> index_ok F tok s k \<or>
      (\<exists>x. map_of (entries s) k = Some x \<and> batch_row tok k x \<in> set rows)"
      using b that by (simp add: batch_ok_def)
    have "(map_of (jobs s') k = map_of (jobs s) k \<and> map_of (entries s') k = map_of (entries s) k \<and>
            (index_ok F tok s k \<longrightarrow> index_ok F tok s' k)) \<or>
          map_of (jobs s') k \<noteq> None \<or> index_ok F tok s' k"
      using step unfolding key_step_def by blast
    then show ?thesis using old by metis
  qed
  then show ?thesis using b by (simp add: batch_ok_def)
qed

section \<open>One side\<close>

locale doc_store =
  fixes F :: "'d doc_format"
  assumes posting_law: "posting F d = Some t \<longleftrightarrow> d = mk_doc F t"
begin

lemma posting_mk_doc [simp]: "posting F (mk_doc F t) = Some t"
  by (simp add: posting_law)

lemma mk_doc_inject [simp]: "mk_doc F t = mk_doc F u \<longleftrightarrow> t = u"
  by (metis posting_mk_doc option.inject)

lemma index_ok_fresh: "index_ok F tok s k \<Longrightarrow> fresh_doc F tok s k"
  by (auto simp: index_ok_def fresh_doc_def split: option.splits)

lemma key_invI: "map_of (jobs s) k = None \<Longrightarrow> index_ok F tok s k \<Longrightarrow> key_inv F tok spent s k"
  by (simp add: key_inv_def index_ok_fresh)

end

text \<open>The fields that the operations leave alone.\<close>

lemma fts_frame [side_simps]:
  "entries (fts_insert k t s) = entries s" "entries (fts_delete k t s) = entries s"
  "jobs (fts_insert k t s) = jobs s" "jobs (fts_delete k t s) = jobs s"
  "docs (fts_insert k t s) = docs s" "docs (fts_delete k t s) = docs s"
  "cursor (fts_insert k t s) = cursor s" "cursor (fts_delete k t s) = cursor s"
  "completed (fts_insert k t s) = completed s" "completed (fts_delete k t s) = completed s"
  "counter (fts_insert k t s) = counter s" "counter (fts_delete k t s) = counter s"
  "processed (fts_insert k t s) = processed s" "processed (fts_delete k t s) = processed s"
  "total (fts_insert k t s) = total s" "total (fts_delete k t s) = total s"
  by (simp_all add: fts_insert_def fts_delete_def)

lemma content_frame [side_simps]:
  "entries (content_inserted F k d s) = entries s" "entries (content_deleted F k d s) = entries s"
  "jobs (content_inserted F k d s) = jobs s" "jobs (content_deleted F k d s) = jobs s"
  "docs (content_inserted F k d s) = docs s" "docs (content_deleted F k d s) = docs s"
  "cursor (content_inserted F k d s) = cursor s" "cursor (content_deleted F k d s) = cursor s"
  "completed (content_inserted F k d s) = completed s" "completed (content_deleted F k d s) = completed s"
  "counter (content_inserted F k d s) = counter s" "counter (content_deleted F k d s) = counter s"
  "processed (content_inserted F k d s) = processed s" "processed (content_deleted F k d s) = processed s"
  "total (content_inserted F k d s) = total s" "total (content_deleted F k d s) = total s"
  by (simp_all add: content_inserted_def content_deleted_def side_simps split: option.split)

lemma updated_frame [side_simps]:
  "entries (content_updated F k d d' s) = entries s"
  "jobs (content_updated F k d d' s) = jobs s"
  "docs (content_updated F k d d' s) = docs s"
  "cursor (content_updated F k d d' s) = cursor s"
  "completed (content_updated F k d d' s) = completed s"
  "counter (content_updated F k d d' s) = counter s"
  "processed (content_updated F k d d' s) = processed s"
  "total (content_updated F k d d' s) = total s"
  by (simp_all add: content_updated_def side_simps)

lemma upsert_frame [side_simps]:
  "entries (upsert_index_content F en k t s) = entries s"
  "jobs (upsert_index_content F en k t s) = jobs s"
  "docs (upsert_index_content F en k t s) = AList.update k (mk_doc F t) (docs s)"
  "cursor (upsert_index_content F en k t s) = cursor s"
  "completed (upsert_index_content F en k t s) = completed s"
  "counter (upsert_index_content F en k t s) = counter s"
  "processed (upsert_index_content F en k t s) = processed s"
  "total (upsert_index_content F en k t s) = total s"
  by (simp_all add: upsert_index_content_def side_simps Let_def split: option.split)

lemma delete_frame [side_simps]:
  "entries (delete_index_content F en k s) = entries s"
  "jobs (delete_index_content F en k s) = jobs s"
  "docs (delete_index_content F en k s) = AList.delete k (docs s)"
  "cursor (delete_index_content F en k s) = cursor s"
  "completed (delete_index_content F en k s) = completed s"
  "counter (delete_index_content F en k s) = counter s"
  "processed (delete_index_content F en k s) = processed s"
  "total (delete_index_content F en k s) = total s"
  by (simp_all add: delete_index_content_def side_simps Let_def split: option.split)

lemmas index_ok_simps = index_ok_def side_simps

context doc_store
begin

text \<open>The triggers keep the postings in step with the stored token streams, and name in every
  deletion the text that is there.\<close>

lemma tables_ok_upsert:
  assumes "tables_ok F s"
  shows "tables_ok F (upsert_index_content F True k t s)"
proof -
  have p: "postings s k = Option.bind (map_of (docs s) k) (posting F)" "postings_ok s"
    using assms by (simp_all add: tables_ok_def)
  have "postings (upsert_index_content F True k t s) = (postings s)(k \<mapsto> t) \<and>
      postings_ok (upsert_index_content F True k t s)"
    using p by (cases "map_of (docs s) k"; cases "posting F (the (map_of (docs s) k))")
      (auto simp: upsert_index_content_def content_updated_def content_inserted_def
        content_deleted_def fts_insert_def fts_delete_def Let_def posting_law fun_upd_idem)
  then show ?thesis
    using assms by (simp add: tables_ok_def side_simps distinct_update)
qed

lemma tables_ok_delete:
  assumes "tables_ok F s"
  shows "tables_ok F (delete_index_content F True k s)"
proof -
  have p: "postings s k = Option.bind (map_of (docs s) k) (posting F)" "postings_ok s"
    using assms by (simp_all add: tables_ok_def)
  have "postings (delete_index_content F True k s) = (postings s)(k := None) \<and>
      postings_ok (delete_index_content F True k s)"
    using p by (cases "map_of (docs s) k"; cases "posting F (the (map_of (docs s) k))")
      (auto simp: delete_index_content_def content_deleted_def fts_delete_def Let_def)
  then show ?thesis
    using assms by (simp add: tables_ok_def side_simps distinct_delete)
qed

lemma tables_ok_jobs: "tables_ok F s \<Longrightarrow> distinct (map fst js) \<Longrightarrow> tables_ok F (s\<lparr>jobs := js\<rparr>)"
  by (simp add: tables_ok_def)

lemma tables_ok_debt: "tables_ok F (s\<lparr>merge_debt := b\<rparr>) \<longleftrightarrow> tables_ok F s"
  by (simp add: tables_ok_def)

subsection \<open>Row changes\<close>

lemma change_row_lookups:
  assumes "set (row_event_generations e) \<inter> spent = {}"
  shows "(\<forall>k. (map_of (jobs (change_row True e s)) k = map_of (jobs s) k \<and>
             map_of (entries (change_row True e s)) k = map_of (entries s) k \<and>
             map_of (docs (change_row True e s)) k = map_of (docs s) k) \<or>
           (\<exists>j. map_of (jobs (change_row True e s)) k = Some j \<and>
             generation j \<in> set (row_event_generations e) \<and>
             (action j = JobUpsert \<longleftrightarrow> map_of (entries (change_row True e s)) k \<noteq> None)))"
proof (cases e)
  case (UpdateRow k x g now)
  then show ?thesis
    by (cases "map_of (entries s) k") (auto simp: enqueue_job_def Let_def)
next
  case (RekeyRow k k' x g g' now)
  then show ?thesis
    by (auto simp: enqueue_job_def Let_def)
qed (auto simp: enqueue_job_def Let_def)

lemma change_row_frame:
  "docs (change_row en e s) = docs s" "cursor (change_row en e s) = cursor s"
  "completed (change_row en e s) = completed s" "postings (change_row en e s) = postings s"
  "postings_ok (change_row en e s) = postings_ok s" "processed (change_row en e s) = processed s"
  "total (change_row en e s) = total s"
  by (cases e; auto simp: enqueue_job_def Let_def split: option.split)+

lemma length_update_entry: "map_of al k \<noteq> None \<Longrightarrow> length (AList.update k v al) = length al"
proof -
  assume "map_of al k \<noteq> None"
  then have "map fst (AList.update k v al) = map fst al"
    by (simp add: AList.update_keys map_of_eq_None_iff)
  then show ?thesis by (metis length_map)
qed

lemma length_delete_entry:
  assumes "distinct (map fst al)" "map_of al k \<noteq> None"
  shows "Suc (length (AList.delete k al)) = length al"
proof -
  have "map fst (AList.delete k al) = remove1 k (map fst al)"
    using assms(1) by (simp add: AList.delete_keys distinct_remove1_removeAll)
  moreover have "k \<in> set (map fst al)" using assms(2) by (simp add: map_of_eq_None_iff)
  ultimately show ?thesis by (metis One_nat_def Suc_pred length_map length_pos_if_in_set length_remove1)
qed

lemma change_row_tables:
  assumes t: "tables_ok F s"
  shows "tables_ok F (change_row True e s)"
proof -
  have d: "distinct (map fst (entries s))" "distinct (map fst (jobs s))"
    and c: "counter s = int (length (entries s))"
    using t by (simp_all add: tables_ok_def)
  have keys: "map_of (entries s) k = None \<longleftrightarrow> k \<notin> set (map fst (entries s))" for k
    by (simp add: map_of_eq_None_iff)
  have "distinct (map fst (entries (change_row True e s))) \<and>
      distinct (map fst (jobs (change_row True e s))) \<and>
      counter (change_row True e s) = int (length (entries (change_row True e s)))"
  proof (cases e)
    case (InsertRow k x g now)
    then show ?thesis
      using d c by (auto simp: enqueue_job_def Let_def distinct_update keys)
  next
    case (UpdateRow k x g now)
    then show ?thesis
      using d c length_update_entry[of "entries s" k x]
      by (cases "map_of (entries s) k") (auto simp: enqueue_job_def Let_def distinct_update)
  next
    case (RekeyRow k k' x g g' now)
    then show ?thesis
      using d c length_delete_entry[of "entries s" k]
      by (auto simp: enqueue_job_def Let_def distinct_update distinct_delete keys AList.delete_keys distinct_removeAll
          simp del: delete_conv)
  next
    case (DeleteRow k g now)
    then show ?thesis
      using d c length_delete_entry[of "entries s" k]
      by (cases "map_of (entries s) k") (simp_all add: enqueue_job_def Let_def distinct_update distinct_delete)
  qed
  then show ?thesis using t by (simp add: tables_ok_def change_row_frame)
qed

lemma change_row_inv:
  assumes inv: "side_inv F tok spent s" and fresh: "set (row_event_generations e) \<inter> spent = {}"
  shows "side_inv F tok (spent \<union> set (row_event_generations e)) (change_row True e s)"
    and "key_step F tok spent s (change_row True e s)"
proof -
  let ?s = "change_row True e s" and ?g = "set (row_event_generations e)"
  have key: "key_inv F tok (spent \<union> ?g) ?s k \<and>
      ((map_of (jobs ?s) k = map_of (jobs s) k \<and> map_of (entries ?s) k = map_of (entries s) k \<and>
        (index_ok F tok s k \<longrightarrow> index_ok F tok ?s k)) \<or>
       (\<exists>j. map_of (jobs ?s) k = Some j \<and> generation j \<notin> spent))" for k
  proof -
    consider (same) "map_of (jobs ?s) k = map_of (jobs s) k" "map_of (entries ?s) k = map_of (entries s) k"
        "map_of (docs ?s) k = map_of (docs s) k"
      | (queued) j where "map_of (jobs ?s) k = Some j" "generation j \<in> ?g"
        "action j = JobUpsert \<longleftrightarrow> map_of (entries ?s) k \<noteq> None"
      using change_row_lookups[OF fresh, of s] by blast
    then show ?thesis
    proof cases
      case same
      have "key_inv F tok spent s k" using inv by (simp add: side_inv_def)
      then have "key_inv F tok spent ?s k"
        using same by (intro key_inv_cong[of ?s k s]) (simp_all add: backfilled_def change_row_frame)
      then show ?thesis using same key_inv_spent[of F tok spent ?s k] by (simp add: index_ok_def)
    next
      case queued
      then show ?thesis using fresh by (auto simp: key_inv_def)
    qed
  qed
  show "side_inv F tok (spent \<union> ?g) ?s"
    using inv key change_row_tables by (simp add: side_inv_def)
  show "key_step F tok spent s ?s"
    using key unfolding key_step_def by blast
qed

subsection \<open>Queue commits\<close>

lemma apply_prepared_row_inv:
  assumes inv: "side_inv F tok spent s" and row: "queue_row_ok tok spent s r"
  shows "side_inv F tok spent (fst (apply_prepared_row F True r s))"
    and "key_step F tok spent s (fst (apply_prepared_row F True r s))"
proof -
  let ?k = "row_key r" and ?s = "fst (apply_prepared_row F True r s)"
  have "side_inv F tok spent ?s \<and> key_step F tok spent s ?s"
  proof (cases "snd (apply_prepared_row F True r s)")
    case False
    then have "?s = s" by (auto simp: apply_prepared_row_def Let_def split: if_splits option.splits)
    then show ?thesis using inv key_step_refl by metis
  next
    case True
    then obtain j where j: "map_of (jobs s) ?k = Some j" "action j = row_action r"
        "generation j = row_generation r"
      by (auto simp: apply_prepared_row_def Let_def split: if_splits option.splits)
    define s1 where "s1 = (case row_tokens r of Some t \<Rightarrow> upsert_index_content F True ?k t s
      | None \<Rightarrow> delete_index_content F True ?k s)"
    have s: "?s = s1\<lparr>jobs := AList.delete ?k (jobs s1)\<rparr>"
      using j by (simp add: apply_prepared_row_def s1_def Let_def split: option.split)
    have tokens: "row_tokens r = map_option tok (map_of (entries s) ?k)"
      using row j by (simp add: queue_row_ok_def)
    have t: "tables_ok F s" using inv by (simp add: side_inv_def)
    then have t1: "tables_ok F s1"
      using tables_ok_upsert tables_ok_delete by (simp add: s1_def split: option.split)
    then have "tables_ok F ?s"
      unfolding s by (intro tables_ok_jobs) (simp_all add: tables_ok_def distinct_delete)
    moreover have frame: "entries ?s = entries s" "cursor ?s = cursor s" "completed ?s = completed s"
        "map_of (jobs ?s) k = (if k = ?k then None else map_of (jobs s) k)"
        "map_of (docs ?s) k = (if k = ?k then map_option (mk_doc F) (row_tokens r) else map_of (docs s) k)"
      for k by (auto simp: s s1_def side_simps split: option.split)
    have ok: "map_of (jobs ?s) ?k = None" "index_ok F tok ?s ?k"
      using frame(4,5)[of ?k] by (auto simp: index_ok_def frame(1) tokens option.map_comp)
    have "key_inv F tok spent ?s k" for k
    proof (cases "k = ?k")
      case True
      then show ?thesis using ok key_invI by simp
    next
      case False
      have "key_inv F tok spent s k" using inv by (simp add: side_inv_def)
      then show ?thesis
        using frame False by (intro key_inv_cong[of ?s k s]) (simp_all add: backfilled_def)
    qed
    moreover have "key_step F tok spent s ?s"
      unfolding key_step_def
    proof
      fix k
      show "(map_of (jobs ?s) k = map_of (jobs s) k \<and> map_of (entries ?s) k = map_of (entries s) k \<and>
            (index_ok F tok s k \<longrightarrow> index_ok F tok ?s k)) \<or>
          (\<exists>j. map_of (jobs ?s) k = Some j \<and> generation j \<notin> spent) \<or>
          (map_of (jobs ?s) k = None \<and> index_ok F tok ?s k)"
        using ok frame by (cases "k = ?k") (simp_all add: index_ok_def)
    qed
    ultimately show ?thesis by (simp add: side_inv_def)
  qed
  then show "side_inv F tok spent ?s" "key_step F tok spent s ?s" by simp_all
qed

lemma apply_prepared_rows_inv:
  "side_inv F tok spent s \<Longrightarrow> \<forall>r \<in> set rows. queue_row_ok tok spent s r \<Longrightarrow>
   side_inv F tok spent (fst (apply_prepared_rows F True rows s)) \<and>
   key_step F tok spent s (fst (apply_prepared_rows F True rows s))"
proof (induction rows arbitrary: s)
  case Nil
  then show ?case by (simp add: key_step_refl)
next
  case (Cons r rows)
  let ?s1 = "fst (apply_prepared_row F True r s)"
  have r: "side_inv F tok spent ?s1" "key_step F tok spent s ?s1"
    using Cons.prems apply_prepared_row_inv by simp_all
  then have "\<forall>r \<in> set rows. queue_row_ok tok spent ?s1 r"
    using Cons.prems queue_row_ok_step by (metis list.set_intros(2))
  from Cons.IH[OF r(1) this] show ?case
    using key_step_trans[OF r(2)] by (simp add: case_prod_beta Let_def)
qed

lemma debt_views:
  "fresh_doc F tok (s\<lparr>merge_debt := b\<rparr>) = fresh_doc F tok s"
  "index_ok F tok (s\<lparr>merge_debt := b\<rparr>) = index_ok F tok s"
  "backfilled (s\<lparr>merge_debt := b\<rparr>) = backfilled s"
  "key_inv F tok spent (s\<lparr>merge_debt := b\<rparr>) = key_inv F tok spent s"
  by (simp_all add: fun_eq_iff fresh_doc_def index_ok_def backfilled_def key_inv_def cong: option.case_cong)

lemma debt_inv:
  "side_inv F tok spent (s\<lparr>merge_debt := b\<rparr>) \<longleftrightarrow> side_inv F tok spent s"
  "key_step F tok spent s (s'\<lparr>merge_debt := b\<rparr>) \<longleftrightarrow> key_step F tok spent s s'"
  by (simp_all add: side_inv_def tables_ok_debt key_step_def debt_views)

lemma commit_prepared_queue_inv:
  assumes "side_inv F tok spent s" "\<forall>r \<in> set rows. queue_row_ok tok spent s r"
  shows "side_inv F tok spent (commit_prepared_queue F True rows s) \<and>
    key_step F tok spent s (commit_prepared_queue F True rows s)"
  using apply_prepared_rows_inv[OF assms]
  by (simp add: commit_prepared_queue_def record_merge_debt_def case_prod_beta Let_def debt_inv)

subsection \<open>Backfill commits\<close>

lemma if_current_frame [side_simps]:
  "entries (upsert_backfill_content_if_current F en r s) = entries s"
  "jobs (upsert_backfill_content_if_current F en r s) = jobs s"
  "cursor (upsert_backfill_content_if_current F en r s) = cursor s"
  "completed (upsert_backfill_content_if_current F en r s) = completed s"
  "counter (upsert_backfill_content_if_current F en r s) = counter s"
  "processed (upsert_backfill_content_if_current F en r s) = processed s"
  "total (upsert_backfill_content_if_current F en r s) = total s"
  by (simp_all add: upsert_backfill_content_if_current_def side_simps)

lemma if_current_index_ok:
  assumes "bf_tokens r = tok (bf_texts r)"
  shows "index_ok F tok s k \<Longrightarrow> index_ok F tok (upsert_backfill_content_if_current F True r s) k"
    and "map_of (entries s) (bf_key r) = Some (bf_texts r) \<Longrightarrow>
      index_ok F tok (upsert_backfill_content_if_current F True r s) (bf_key r)"
  using assms by (auto simp: upsert_backfill_content_if_current_def index_ok_simps)

lemma if_current_docs:
  "k \<noteq> bf_key r \<or> map_of (entries s) (bf_key r) \<noteq> Some (bf_texts r) \<Longrightarrow>
   map_of (docs (upsert_backfill_content_if_current F en r s)) k = map_of (docs s) k"
  by (auto simp: upsert_backfill_content_if_current_def side_simps)

lemma if_current_inv:
  assumes inv: "side_inv F tok spent s" and row: "bf_tokens r = tok (bf_texts r)"
  shows "side_inv F tok spent (upsert_backfill_content_if_current F True r s)"
proof -
  let ?s = "upsert_backfill_content_if_current F True r s"
  have "tables_ok F ?s"
    using inv tables_ok_upsert by (simp add: side_inv_def upsert_backfill_content_if_current_def)
  moreover have "key_inv F tok spent ?s k" for k
  proof (cases "k = bf_key r \<and> map_of (entries s) (bf_key r) = Some (bf_texts r)")
    case True
    then have "index_ok F tok ?s k" using if_current_index_ok(2)[where tok = tok, OF row] by simp
    moreover have "key_inv F tok spent s k" using inv by (simp add: side_inv_def)
    ultimately show ?thesis
      using key_invI[of ?s k tok spent] by (cases "map_of (jobs s) k") (auto simp: key_inv_def side_simps)
  next
    case False
    have "key_inv F tok spent s k" using inv by (simp add: side_inv_def)
    then show ?thesis
      using False if_current_docs[of k r s True]
      by (intro key_inv_cong[of ?s k s]) (auto simp: side_simps backfilled_def)
  qed
  ultimately show ?thesis by (simp add: side_inv_def)
qed

lemma fold_current:
  assumes "\<forall>r \<in> set rows. bf_tokens r = tok (bf_texts r)" "side_inv F tok spent s"
  shows "side_inv F tok spent (fold (upsert_backfill_content_if_current F True) rows s) \<and>
    entries (fold (upsert_backfill_content_if_current F True) rows s) = entries s \<and>
    jobs (fold (upsert_backfill_content_if_current F True) rows s) = jobs s \<and>
    cursor (fold (upsert_backfill_content_if_current F True) rows s) = cursor s \<and>
    completed (fold (upsert_backfill_content_if_current F True) rows s) = completed s \<and>
    counter (fold (upsert_backfill_content_if_current F True) rows s) = counter s \<and>
    processed (fold (upsert_backfill_content_if_current F True) rows s) = processed s \<and>
    total (fold (upsert_backfill_content_if_current F True) rows s) = total s \<and>
    (\<forall>k. index_ok F tok s k \<longrightarrow> index_ok F tok (fold (upsert_backfill_content_if_current F True) rows s) k) \<and>
    (\<forall>r \<in> set rows. map_of (entries s) (bf_key r) = Some (bf_texts r) \<longrightarrow>
       index_ok F tok (fold (upsert_backfill_content_if_current F True) rows s) (bf_key r))"
  using assms
proof (induction rows arbitrary: s)
  case (Cons r rows)
  let ?s1 = "upsert_backfill_content_if_current F True r s"
  have r: "bf_tokens r = tok (bf_texts r)" and rs: "\<forall>r \<in> set rows. bf_tokens r = tok (bf_texts r)"
    using Cons.prems by simp_all
  note one = if_current_index_ok[where tok = tok and s = s, OF r] and IH = Cons.IH[OF rs if_current_inv[OF Cons.prems(2) r]]
  show ?case
    using IH one by (auto simp: side_simps)
qed simp

lemma commit_prepared_backfill_inv:
  assumes inv: "side_inv F tok spent s" and batch: "batch_ok F tok s st rows"
    and idle: "\<not> higher \<Longrightarrow> jobs s = []"
  shows "side_inv F tok spent (fst (commit_prepared_backfill F True higher st rows s)) \<and>
    key_step F tok spent s (fst (commit_prepared_backfill F True higher st rows s))"
proof (cases "fst (commit_prepared_backfill F True higher st rows s) = s")
  case True
  then show ?thesis using inv key_step_refl by metis
next
  case False
  then have commit: "\<not> higher" "\<not> completed s" "cursor s = bs_cursor st" "processed s = bs_processed st"
    by (auto simp: commit_prepared_backfill_def Let_def split: if_splits)
  let ?n = "length rows" and ?s = "fst (commit_prepared_backfill F True higher st rows s)"
  let ?f = "fold (upsert_backfill_content_if_current F True) rows s"
  have tok: "\<forall>r \<in> set rows. bf_tokens r = tok (bf_texts r)" using batch by (simp add: batch_ok_def)
  note f = fold_current[OF tok inv]
  have frame: "entries ?s = entries s" "jobs ?s = []" "docs ?s = docs ?f" "counter ?s = counter s"
      "postings ?s = postings ?f" "postings_ok ?s = postings_ok ?f"
      "completed ?s = (?n < backfill_chunk_size)"
      "cursor ?s = (if rows = [] then cursor s else Some (bf_key (last rows)))"
    using f commit idle
    by (auto simp: commit_prepared_backfill_def record_merge_debt_def Let_def)
  have counts: "0 \<le> processed ?s \<and> processed ?s \<le> total ?s"
    using commit by (auto simp: commit_prepared_backfill_def Let_def)
  have ft: "tables_ok F ?f" and fk: "\<And>k. key_inv F tok spent ?f k"
    using f by (simp_all add: side_inv_def)
  have ok: "index_ok F tok ?f k \<longleftrightarrow> index_ok F tok ?s k" for k
    using f frame by (simp add: index_ok_def)
  have passed: "index_ok F tok ?s k" if "backfilled ?s k" for k
  proof (cases "below_cursor (cursor s) k")
    case False
    then have "index_ok F tok s k"
      using inv idle commit by (auto simp: side_inv_def key_inv_def backfilled_def)
    then show ?thesis using f ok by simp
  next
    case True
    have "reached rows k"
      using that by (auto simp: backfilled_def reached_def frame backfill_chunk_size_def below_cursor_def
          split: if_splits)
    then have "index_ok F tok s k \<or>
        (\<exists>x. map_of (entries s) k = Some x \<and> batch_row tok k x \<in> set rows)"
      using batch True commit idle by (auto simp: batch_ok_def)
    then show ?thesis using f ok by (fastforce simp: batch_row_def)
  qed
  have key: "key_inv F tok spent ?s k" for k
  proof -
    have "fresh_doc F tok ?s k = fresh_doc F tok ?f k"
      using f frame by (simp add: fresh_doc_def cong: option.case_cong)
    moreover have "fresh_doc F tok ?f k"
      using fk[of k] f idle commit by (simp add: key_inv_def)
    ultimately show ?thesis using passed[of k] by (simp add: key_inv_def frame)
  qed
  have "tables_ok F ?s"
    using ft f frame counts by (simp add: tables_ok_def)
  moreover have "key_step F tok spent s ?s"
  proof -
    have "jobs ?s = jobs s" using frame(2) idle commit(1) by simp
    moreover have "index_ok F tok s k \<Longrightarrow> index_ok F tok ?s k" for k
      using f ok by blast
    ultimately show ?thesis using frame(1) by (simp add: key_step_def)
  qed
  ultimately show ?thesis using key by (simp add: side_inv_def)
qed

end

end
