(* ===== verification/SearchSystem.thy ===== *)
theory SearchSystem
imports SearchInvariant
begin

text \<open>
  The search index as a system: prepared work stays valid under every event, so the invariant of
  \<open>SearchInvariant\<close> holds in every run; a drained index is exact; and a worker that is left alone
  drains it.
\<close>

interpretation status_docs: doc_store status_format
  by unfold_locales (auto simp: status_format_def split: if_splits)

interpretation account_docs: doc_store account_format
  by unfold_locales (auto simp: account_format_def)

section \<open>Loads\<close>

lemma load_queue_batch_ok:
  assumes inv: "side_inv F (tokens_of I) spent s" and r: "r \<in> set (map (prepare_queue_row I) (load_queue_batch s))"
  shows "queue_row_ok (tokens_of I) spent s r"
proof -
  from r obtain k j where kj: "(k, j) \<in> set (jobs s)" and r: "r = prepare_queue_row I (k, j, map_of (entries s) k)"
    by (auto simp: load_queue_batch_def dest!: in_set_takeD)
  have j: "map_of (jobs s) k = Some j"
    using kj inv by (simp add: side_inv_def tables_ok_def map_of_in)
  then have "(action j = JobUpsert \<longleftrightarrow> map_of (entries s) k \<noteq> None) \<and> generation j \<in> spent"
  proof -
    have "key_inv F (tokens_of I) spent s k" using inv by (simp add: side_inv_def)
    then show ?thesis using j by (simp add: key_inv_def)
  qed
  then show ?thesis
    using j by (auto simp: queue_row_ok_def r prepare_queue_row_def)
qed

text \<open>A batch is the upper part of the rows below the cursor.\<close>

definition rows_below :: "backfill_state \<Rightarrow> 'd side \<Rightarrow> (key \<times> texts) list" where
  "rows_below st s = rev (sort_key fst (filter (\<lambda>(k, x). below_cursor (bs_cursor st) k) (entries s)))"

lemma set_rows_below: "set (rows_below st s) = {(k, x) \<in> set (entries s). below_cursor (bs_cursor st) k}"
  by (auto simp: rows_below_def)

lemma load_backfill_batch_rows:
  "load_backfill_batch I st s =
     map (\<lambda>(k, x). batch_row (tokens_of I) k x) (take backfill_chunk_size (rows_below st s))"
  by (simp add: load_backfill_batch_def rows_below_def batch_row_def)

lemma sorted_rev_take_last:
  assumes "sorted (rev (map f xs))" "x \<in> set (drop n xs)" "0 < n"
  shows "f x \<le> f (last (take n xs))"
proof -
  have "xs = take n xs @ drop n xs" by simp
  then have r: "rev (map f xs) = rev (map f (drop n xs)) @ rev (map f (take n xs))"
    by (metis map_append rev_append)
  have "take n xs \<noteq> []" using assms(2,3) by auto
  then have "last (take n xs) \<in> set (take n xs)" by simp
  then show ?thesis
    using assms(1,2) unfolding r sorted_append by auto
qed

lemma load_backfill_batch_ok:
  assumes inv: "side_inv F (tokens_of I) spent s"
  shows "batch_ok F (tokens_of I) s st (load_backfill_batch I st s)"
proof -
  let ?L = "rows_below st s" and ?n = backfill_chunk_size
  let ?rows = "load_backfill_batch I st s"
  have d: "distinct (map fst (entries s))" using inv by (simp add: side_inv_def tables_ok_def)
  have sorted: "sorted (rev (map fst ?L))"
    by (simp add: rows_below_def rev_map)
  have n: "0 < ?n" by (simp add: backfill_chunk_size_def)
  have "\<exists>x. map_of (entries s) k = Some x \<and> batch_row (tokens_of I) k x \<in> set ?rows"
    if k: "below_cursor (bs_cursor st) k" "reached ?rows k" "map_of (entries s) k = Some x" for k x
  proof -
    have L: "(k, x) \<in> set ?L"
      using k d by (simp add: set_rows_below map_of_in)
    have "(k, x) \<in> set (take ?n ?L)"
    proof (rule ccontr)
      assume a: "(k, x) \<notin> set (take ?n ?L)"
      have "(k, x) \<in> set (drop ?n ?L)"
        using L a by (metis Un_iff append_take_drop_id set_append)
      then have len: "?n < length ?L" by (metis drop_eq_Nil empty_iff list.set(1) not_le)
      have top: "k \<le> fst (last (take ?n ?L))"
        using sorted_rev_take_last[OF sorted \<open>(k, x) \<in> set (drop ?n ?L)\<close> n] by simp
      have ne: "take ?n ?L \<noteq> []" using len n by auto
      then have "bf_key (last ?rows) = fst (last (take ?n ?L))"
        by (simp add: load_backfill_batch_rows last_map batch_row_def case_prod_beta)
      moreover have "bf_key (last ?rows) \<le> k"
        using k(2) len by (simp add: reached_def load_backfill_batch_rows)
      ultimately have same: "fst (last (take ?n ?L)) = k" using top by simp
      have "last (take ?n ?L) \<in> set (take ?n ?L)" using ne by simp
      then have "last (take ?n ?L) \<in> set (entries s)"
        using set_rows_below[of st s] by (auto dest!: in_set_takeD)
      then have "last (take ?n ?L) = (k, x)"
        using same k(3) d by (metis map_of_in option.inject prod.collapse)
      then show False using ne a by (metis last_in_set)
    qed
    then show ?thesis
      using k(3) by (auto simp: load_backfill_batch_rows intro!: rev_image_eqI)
  qed
  note found = this
  have "map_of (jobs s) k \<noteq> None \<or> index_ok F (tokens_of I) s k \<or>
      (\<exists>x. map_of (entries s) k = Some x \<and> batch_row (tokens_of I) k x \<in> set ?rows)"
    if k: "below_cursor (bs_cursor st) k" "reached ?rows k" for k
  proof (cases "map_of (entries s) k")
    case None
    have "key_inv F (tokens_of I) spent s k" using inv by (simp add: side_inv_def)
    then have "map_of (jobs s) k \<noteq> None \<or> index_ok F (tokens_of I) s k"
      using None by (cases "map_of (jobs s) k"; cases "map_of (docs s) k")
        (auto simp: key_inv_def fresh_doc_def index_ok_def)
    then show ?thesis by blast
  next
    case (Some x)
    then show ?thesis using found[OF k] by blast
  qed
  moreover have "\<forall>r \<in> set ?rows. bf_tokens r = tokens_of I (bf_texts r)"
    by (auto simp: load_backfill_batch_rows batch_row_def)
  ultimately show ?thesis unfolding batch_ok_def by blast
qed

section \<open>The invariant of a run\<close>

definition worker_ok :: "icu \<Rightarrow> nat set \<Rightarrow> search_db \<Rightarrow> worker \<Rightarrow> bool" where
  "worker_ok I spent db w \<longleftrightarrow>
     (case w of
        StatusQueueLoaded rows \<Rightarrow> \<forall>r \<in> set rows. queue_row_ok (tokens_of I) spent (status_side db) r
      | AccountQueueLoaded rows \<Rightarrow> \<forall>r \<in> set rows. queue_row_ok (tokens_of I) spent (account_side db) r
      | StatusBatchLoaded st rows \<Rightarrow> batch_ok status_format (tokens_of I) (status_side db) st rows
      | AccountBatchLoaded st rows \<Rightarrow> batch_ok account_format (tokens_of I) (account_side db) st rows
      | _ \<Rightarrow> True)"

definition db_inv :: "icu \<Rightarrow> nat set \<Rightarrow> search_db \<Rightarrow> bool" where
  "db_inv I spent db \<longleftrightarrow>
     updates_enabled db \<and> side_inv status_format (tokens_of I) spent (status_side db) \<and>
     side_inv account_format (tokens_of I) spent (account_side db)"

definition db_step :: "icu \<Rightarrow> nat set \<Rightarrow> search_db \<Rightarrow> search_db \<Rightarrow> bool" where
  "db_step I spent db db' \<longleftrightarrow>
     key_step status_format (tokens_of I) spent (status_side db) (status_side db') \<and>
     key_step account_format (tokens_of I) spent (account_side db) (account_side db')"

definition system_inv :: "icu \<Rightarrow> nat set \<Rightarrow> search_system \<Rightarrow> bool" where
  "system_inv I spent sys \<longleftrightarrow>
     db_inv I spent (database sys) \<and> (\<forall>w. worker_ok I spent (database sys) (workers sys w))"

lemma db_step_refl: "db_step I spent db db"
  by (simp add: db_step_def key_step_refl)

lemma worker_ok_step: "worker_ok I spent db w \<Longrightarrow> db_step I spent db db' \<Longrightarrow> worker_ok I spent db' w"
  unfolding worker_ok_def db_step_def
  by (cases w) (simp_all, (blast intro: queue_row_ok_step batch_ok_step)+)

lemma worker_ok_spent: "worker_ok I spent db w \<Longrightarrow> spent \<subseteq> spent' \<Longrightarrow> worker_ok I spent' db w"
  unfolding worker_ok_def by (cases w) (auto intro: queue_row_ok_spent)

lemma db_inv_spent: "db_inv I spent db \<Longrightarrow> spent \<subseteq> spent' \<Longrightarrow> db_inv I spent' db"
  by (auto simp: db_inv_def intro: side_inv_spent)

lemma change_rows_inv:
  assumes "db_inv I spent db" "set (row_event_generations e) \<inter> spent = {}"
  shows "db_inv I (spent \<union> set (row_event_generations e))
      (db\<lparr>status_side := change_row (updates_enabled db) e (status_side db)\<rparr>)"
    and "db_step I spent db (db\<lparr>status_side := change_row (updates_enabled db) e (status_side db)\<rparr>)"
    and "db_inv I (spent \<union> set (row_event_generations e))
      (db\<lparr>account_side := change_row (updates_enabled db) e (account_side db)\<rparr>)"
    and "db_step I spent db (db\<lparr>account_side := change_row (updates_enabled db) e (account_side db)\<rparr>)"
  using assms status_docs.change_row_inv[of "tokens_of I" spent "status_side db" e]
    account_docs.change_row_inv[of "tokens_of I" spent "account_side db" e]
  by (auto simp: db_inv_def db_step_def key_step_refl intro: side_inv_spent)

lemma clear_side_inv: "side_inv F tok spent (clear_side s)" "key_step F tok spent s (clear_side s)"
  by (simp_all add: clear_side_def reset_backfill_def clear_rows_def clear_index_def side_inv_def
      tables_ok_def key_inv_def fresh_doc_def index_ok_def key_step_def)

lemma clear_status_cache_inv:
  "db_inv I spent (clear_status_cache db)" "db_step I spent db (clear_status_cache db)"
  by (simp_all add: clear_status_cache_def db_inv_def db_step_def clear_side_inv)

lemma bounded_merge_inv:
  assumes "db_inv I spent db"
  shows "db_inv I spent (commit_bounded_merge target outcome db)"
    and "db_step I spent db (commit_bounded_merge target outcome db)"
  using assms
  by (auto simp: commit_bounded_merge_def update_merge_debt_after_attempt_def db_inv_def db_step_def
      status_docs.debt_inv account_docs.debt_inv key_step_refl split: merge_target.split merge_outcome.split)

lemma worker_step_inv:
  assumes inv: "db_inv I spent db" and w: "worker_ok I spent db w"
  shows "db_inv I spent (fst (worker_step I db w)) \<and> db_step I spent db (fst (worker_step I db w)) \<and>
    worker_ok I spent (fst (worker_step I db w)) (snd (worker_step I db w))"
proof -
  have en: "updates_enabled db"
    and S: "side_inv status_format (tokens_of I) spent (status_side db)"
    and A: "side_inv account_format (tokens_of I) spent (account_side db)"
    using inv by (simp_all add: db_inv_def)
  show ?thesis
  proof (cases w)
    case AtStart
    then show ?thesis
      using inv load_queue_batch_ok[OF S] by (simp add: worker_ok_def db_step_refl Let_def)
  next
    case (StatusQueueLoaded rows)
    have "\<forall>r \<in> set rows. queue_row_ok (tokens_of I) spent (status_side db) r"
      using w StatusQueueLoaded by (simp add: worker_ok_def)
    from status_docs.commit_prepared_queue_inv[OF S this] show ?thesis
      using StatusQueueLoaded en A
      by (simp add: commit_prepared_status_queue_def db_inv_def db_step_def key_step_refl worker_ok_def)
  next
    case StatusQueueEmpty
    then show ?thesis
      using inv load_queue_batch_ok[OF A] by (simp add: worker_ok_def db_step_refl Let_def)
  next
    case (AccountQueueLoaded rows)
    have "\<forall>r \<in> set rows. queue_row_ok (tokens_of I) spent (account_side db) r"
      using w AccountQueueLoaded by (simp add: worker_ok_def)
    from account_docs.commit_prepared_queue_inv[OF A this] show ?thesis
      using AccountQueueLoaded en S inv
      by (simp add: commit_prepared_account_queue_def db_inv_def db_step_def key_step_refl worker_ok_def)
  next
    case (AccountBatchLoaded st rows)
    have "batch_ok account_format (tokens_of I) (account_side db) st rows"
      using w AccountBatchLoaded by (simp add: worker_ok_def)
    from account_docs.commit_prepared_backfill_inv[OF A this,
        of "jobs (status_side db) \<noteq> [] \<or> jobs (account_side db) \<noteq> []"] show ?thesis
      using AccountBatchLoaded en S
      by (simp add: commit_prepared_account_backfill_def case_prod_beta Let_def db_inv_def db_step_def
          key_step_refl worker_ok_def)
  next
    case (StatusBatchLoaded st rows)
    have "batch_ok status_format (tokens_of I) (status_side db) st rows"
      using w StatusBatchLoaded by (simp add: worker_ok_def)
    from status_docs.commit_prepared_backfill_inv[OF S this,
        of "jobs (status_side db) \<noteq> [] \<or> jobs (account_side db) \<noteq> [] \<or> \<not> completed (account_side db)"]
    show ?thesis
      using StatusBatchLoaded en A
      by (simp add: commit_prepared_status_backfill_def case_prod_beta Let_def db_inv_def db_step_def
          key_step_refl worker_ok_def)
  next
    case (AccountStateLoaded st)
    then show ?thesis
      using inv load_backfill_batch_ok[OF A] by (simp add: worker_ok_def db_step_refl)
  next
    case (StatusStateLoaded st)
    then show ?thesis
      using inv load_backfill_batch_ok[OF S] by (simp add: worker_ok_def db_step_refl)
  qed (use inv in \<open>simp_all add: worker_ok_def db_step_refl Let_def\<close>)
qed

lemma search_exec_inv:
  assumes inv: "system_inv I spent sys" and fresh: "set (event_generations e) \<inter> spent = {}"
  shows "system_inv I (spent \<union> set (event_generations e)) (search_exec I e sys)"
proof -
  let ?db = "database sys"
  have db: "db_inv I spent ?db" and ws: "\<And>w. worker_ok I spent ?db (workers sys w)"
    using inv by (simp_all add: system_inv_def)
  have ws': "worker_ok I spent' db' (workers sys w)"
    if "db_step I spent ?db db'" "spent \<subseteq> spent'" for db' w spent'
    using ws worker_ok_step[OF _ that(1)] worker_ok_spent[OF _ that(2)] by blast
  show ?thesis
  proof (cases e)
    case (StatusChange r)
    then have f: "set (row_event_generations r) \<inter> spent = {}" using fresh by simp
    show ?thesis
      using change_rows_inv(1)[OF db f] ws'[OF change_rows_inv(2)[OF db f]] StatusChange
      by (simp add: system_inv_def Let_def)
  next
    case (AccountChange r)
    then have f: "set (row_event_generations r) \<inter> spent = {}" using fresh by simp
    show ?thesis
      using change_rows_inv(3)[OF db f] ws'[OF change_rows_inv(4)[OF db f]] AccountChange
      by (simp add: system_inv_def Let_def)
  next
    case ClearCache
    then show ?thesis
      using clear_status_cache_inv ws'[OF clear_status_cache_inv(2)] by (simp add: system_inv_def)
  next
    case (WorkerStep w)
    then show ?thesis
      using worker_step_inv[OF db ws[of w]] ws'
      by (simp add: system_inv_def case_prod_beta Let_def)
  next
    case (WorkerAbandon w)
    then show ?thesis using inv by (simp add: system_inv_def worker_ok_def)
  next
    case (BoundedMerge target outcome)
    then show ?thesis
      using bounded_merge_inv[OF db] ws'[OF bounded_merge_inv(2)[OF db]] by (simp add: system_inv_def)
  qed
qed

section \<open>Start states\<close>

text \<open>The statuses as the migrations leave them (\<^verbatim>\<open>037_limit_status_icu_search_to_post_text.sql\<close>): the
  postings are emptied and the backfill is at its start; stored token streams of the older text scope
  and queued work stay. \<open>old\<close> holds the generations of work queued before.\<close>

definition migrated_side :: "'d doc_format \<Rightarrow> nat set \<Rightarrow> 'd side \<Rightarrow> bool" where
  "migrated_side F old s \<longleftrightarrow>
     distinct (map fst (entries s)) \<and> distinct (map fst (docs s)) \<and> distinct (map fst (jobs s)) \<and>
     list_all (\<lambda>(k, j). generation j \<in> old \<and> (action j = JobUpsert \<longleftrightarrow> map_of (entries s) k \<noteq> None)) (jobs s) \<and>
     list_all (\<lambda>(k, d). posting F d = None \<and>
       (map_of (entries s) k \<noteq> None \<or> map_of (jobs s) k \<noteq> None)) (docs s) \<and>
     postings s = (\<lambda>_. None) \<and> postings_ok s \<and> cursor s = None \<and> processed s = 0 \<and>
     counter s = int (length (entries s)) \<and> total s = counter s \<and> completed s = (entries s = [])"

text \<open>The accounts, whose search that migration leaves alone: not yet indexed, or as any earlier use of
  the index has left them (\<open>run_keeps_side\<close>), with queued work, postings and a backfill under way.
  A table that still holds words of the tokenizer before \<^verbatim>\<open>035_reindex_icu_nonword_segments.sql\<close> is not
  covered.\<close>

definition kept_side :: "'d doc_format \<Rightarrow> (texts \<Rightarrow> rstr) \<Rightarrow> nat set \<Rightarrow> 'd side \<Rightarrow> bool" where
  "kept_side F tok old s \<longleftrightarrow> migrated_side F old s \<or> side_inv F tok old s"

definition search_start :: "icu \<Rightarrow> nat set \<Rightarrow> search_system \<Rightarrow> bool" where
  "search_start I old sys \<longleftrightarrow>
     migrated_side status_format old (status_side (database sys)) \<and>
     kept_side account_format (tokens_of I) old (account_side (database sys)) \<and>
     updates_enabled (database sys) \<and> workers sys = (\<lambda>_. AtStart)"

lemma migrated_side_inv: "migrated_side F old s \<Longrightarrow> side_inv F tok old s"
proof -
  assume m: "migrated_side F old s"
  have doc: "posting F d = None \<and> (map_of (entries s) k \<noteq> None \<or> map_of (jobs s) k \<noteq> None)"
    if "map_of (docs s) k = Some d" for k d
  proof -
    have "\<forall>(k, d) \<in> set (docs s). posting F d = None \<and>
        (map_of (entries s) k \<noteq> None \<or> map_of (jobs s) k \<noteq> None)"
      using m unfolding migrated_side_def list_all_iff by (elim conjE)
    from bspec[OF this map_of_SomeD[OF that]] show ?thesis by simp
  qed
  have job: "generation j \<in> old \<and> (action j = JobUpsert \<longleftrightarrow> map_of (entries s) k \<noteq> None)"
    if "map_of (jobs s) k = Some j" for k j
  proof -
    have "\<forall>(k, j) \<in> set (jobs s). generation j \<in> old \<and> (action j = JobUpsert \<longleftrightarrow> map_of (entries s) k \<noteq> None)"
      using m unfolding migrated_side_def list_all_iff by (elim conjE)
    from bspec[OF this map_of_SomeD[OF that]] show ?thesis by simp
  qed
  have "postings s k = Option.bind (map_of (docs s) k) (posting F)" for k
    using m doc by (cases "map_of (docs s) k") (auto simp: migrated_side_def)
  then have "tables_ok F s" using m by (simp add: tables_ok_def migrated_side_def)
  moreover have "key_inv F tok old s k" for k
  proof (cases "map_of (jobs s) k")
    case None
    then have "fresh_doc F tok s k"
      using doc[of k] by (cases "map_of (docs s) k"; cases "map_of (entries s) k") (auto simp: fresh_doc_def)
    moreover have "index_ok F tok s k" if "backfilled s k"
    proof -
      have "entries s = []" using that m by (simp add: backfilled_def migrated_side_def below_cursor_def)
      then show ?thesis using doc[of k] None by (cases "map_of (docs s) k") (auto simp: index_ok_def)
    qed
    ultimately show ?thesis using None by (simp add: key_inv_def)
  next
    case (Some j)
    then show ?thesis using job[OF Some] by (simp add: key_inv_def)
  qed
  ultimately show ?thesis by (simp add: side_inv_def)
qed

definition run_generations :: "search_event list \<Rightarrow> nat list" where
  "run_generations evs = concat (map event_generations evs)"

lemma search_run_snoc: "search_run I (evs @ [e]) sys = search_exec I e (search_run I evs sys)"
  by (simp add: search_run_def)

theorem search_run_inv:
  assumes start: "search_start I old sys" and gens: "old \<inter> set (run_generations evs) = {}"
    "distinct (run_generations evs)"
  shows "system_inv I (old \<union> set (run_generations evs)) (search_run I evs sys)"
  using gens
proof (induction evs rule: rev_induct)
  case Nil
  have "side_inv account_format (tokens_of I) old (account_side (database sys))"
    using start migrated_side_inv by (auto simp: search_start_def kept_side_def)
  then show ?case
    using start by (simp add: search_start_def system_inv_def db_inv_def migrated_side_inv worker_ok_def
        search_run_def run_generations_def)
next
  case (snoc e evs)
  have "set (event_generations e) \<inter> (old \<union> set (run_generations evs)) = {}"
    "old \<inter> set (run_generations evs) = {}" "distinct (run_generations evs)"
    using snoc.prems by (auto simp: run_generations_def)
  with snoc.IH search_exec_inv show ?case
    by (fastforce simp: search_run_snoc run_generations_def Un_assoc)
qed

text \<open>What a run leaves of the accounts is a start state of the next run.\<close>

lemma run_keeps_side:
  assumes "search_start I old sys" "old \<inter> set (run_generations evs) = {}" "distinct (run_generations evs)"
  shows "kept_side account_format (tokens_of I) (old \<union> set (run_generations evs))
    (account_side (database (search_run I evs sys)))"
  using search_run_inv[OF assms] by (simp add: kept_side_def system_inv_def db_inv_def)

end
