(* ===== verification/SearchDrain.thy ===== *)
theory SearchDrain
imports SearchSystem
begin

text \<open>
  What the search index guarantees: the properties of runs, and the worker that is left alone. An
  uninterrupted turn is a sequence of worker steps, so it keeps the invariant; it either finds the
  index drained or has less work left, which bounds the number of turns until the index is exact.
\<close>

section \<open>Exactness\<close>

definition index_drained :: "search_db \<Rightarrow> bool" where
  "index_drained db \<longleftrightarrow>
     jobs (status_side db) = [] \<and> jobs (account_side db) = [] \<and>
     completed (status_side db) \<and> completed (account_side db)"

definition side_exact :: "icu \<Rightarrow> 'd side \<Rightarrow> bool" where
  "side_exact I s \<longleftrightarrow>
     postings_ok s \<and> (\<forall>k. postings s k = map_option (tokens_of I) (map_of (entries s) k))"

definition index_exact :: "icu \<Rightarrow> search_db \<Rightarrow> bool" where
  "index_exact I db \<longleftrightarrow> side_exact I (status_side db) \<and> side_exact I (account_side db)"

definition side_never_stale :: "icu \<Rightarrow> 'd side \<Rightarrow> bool" where
  "side_never_stale I s \<longleftrightarrow>
     (\<forall>k t. map_of (jobs s) k = None \<longrightarrow> postings s k = Some t \<longrightarrow>
        (\<exists>x. map_of (entries s) k = Some x \<and> t = tokens_of I x))"

context doc_store
begin

lemma drained_side_exact:
  assumes inv: "side_inv F (tokens_of I) spent s" and drained: "jobs s = []" "completed s"
  shows "side_exact I s"
proof -
  have "postings s k = map_option (tokens_of I) (map_of (entries s) k)" for k
  proof -
    have "index_ok F (tokens_of I) s k"
      using inv drained by (auto simp: side_inv_def key_inv_def backfilled_def)
    moreover have "postings s k = Option.bind (map_of (docs s) k) (posting F)"
      using inv by (simp add: side_inv_def tables_ok_def)
    ultimately show ?thesis by (cases "map_of (entries s) k") (simp_all add: index_ok_def)
  qed
  then show ?thesis using inv by (simp add: side_exact_def side_inv_def tables_ok_def)
qed

lemma side_inv_never_stale:
  assumes inv: "side_inv F (tokens_of I) spent s"
  shows "side_never_stale I s"
proof -
  have "\<exists>x. map_of (entries s) k = Some x \<and> t = tokens_of I x"
    if "map_of (jobs s) k = None" "postings s k = Some t" for k t
  proof -
    have "key_inv F (tokens_of I) spent s k" "postings s k = Option.bind (map_of (docs s) k) (posting F)"
      using inv by (simp_all add: side_inv_def tables_ok_def)
    then show ?thesis
      using that by (cases "map_of (docs s) k") (auto simp: key_inv_def fresh_doc_def)
  qed
  then show ?thesis unfolding side_never_stale_def by blast
qed

end

lemma drained_exact: "db_inv I spent db \<Longrightarrow> index_drained db \<Longrightarrow> index_exact I db"
  by (auto simp: db_inv_def index_drained_def index_exact_def
      intro: status_docs.drained_side_exact account_docs.drained_side_exact)

lemma run_db_inv:
  assumes "search_start I old sys" "old \<inter> set (run_generations evs) = {}" "distinct (run_generations evs)"
  shows "db_inv I (old \<union> set (run_generations evs)) (database (search_run I evs sys))"
  using search_run_inv[OF assms] by (simp add: system_inv_def)

section \<open>A worker that is left alone\<close>

definition turn :: "icu \<Rightarrow> search_db \<times> worker \<Rightarrow> search_db \<times> worker" where
  "turn I = (\<lambda>(db, w). worker_step I db w)"

lemma run_index_step_turn:
  "\<exists>n. (turn I ^^ n) (db, AtStart) = (fst (run_index_step I db), AtStart)"
proof -
  note steps = turn_def run_index_step_def Let_def funpow.simps eval_nat_numeral case_prod_beta
  show ?thesis
  proof (cases "load_queue_batch (status_side db) = []")
    case False
    then have "(turn I ^^ 2) (db, AtStart) = (fst (run_index_step I db), AtStart)"
      by (simp add: steps)
    then show ?thesis ..
  next
    case sq: True
    show ?thesis
    proof (cases "load_queue_batch (account_side db) = []")
      case False
      then have "(turn I ^^ 3) (db, AtStart) = (fst (run_index_step I db), AtStart)"
        using sq by (simp add: steps)
      then show ?thesis ..
    next
      case aq: True
      show ?thesis
      proof (cases "completed (account_side db)")
        case False
        then have "(turn I ^^ 5) (db, AtStart) = (fst (run_index_step I db), AtStart)"
          using sq aq by (simp add: steps load_backfill_state_def)
        then show ?thesis ..
      next
        case ac: True
        show ?thesis
        proof (cases "completed (status_side db)")
          case False
          then have "(turn I ^^ 6) (db, AtStart) = (fst (run_index_step I db), AtStart)"
            using sq aq ac by (simp add: steps load_backfill_state_def)
          then show ?thesis ..
        next
          case True
          then have "(turn I ^^ 4) (db, AtStart) = (fst (run_index_step I db), AtStart)"
            using sq aq ac by (simp add: steps load_backfill_state_def)
          then show ?thesis ..
        qed
      qed
    qed
  qed
qed

lemma turn_inv:
  "db_inv I spent (fst c) \<Longrightarrow> worker_ok I spent (fst c) (snd c) \<Longrightarrow>
   db_inv I spent (fst ((turn I ^^ n) c)) \<and>
   worker_ok I spent (fst ((turn I ^^ n) c)) (snd ((turn I ^^ n) c))"
  by (induction n) (auto simp: turn_def case_prod_beta worker_step_inv)

lemma run_index_step_inv: "db_inv I spent db \<Longrightarrow> db_inv I spent (fst (run_index_step I db))"
  using run_index_step_turn[of I db] turn_inv[of I spent "(db, AtStart)"]
  by (auto simp: worker_ok_def) (metis fst_conv)

subsection \<open>The work that is left\<close>

definition backfill_left :: "'d side \<Rightarrow> nat" where
  "backfill_left s =
     (if completed s then 0 else Suc (length (filter (\<lambda>(k, x). below_cursor (cursor s) k) (entries s))))"

definition work_left :: "search_db \<Rightarrow> nat" where
  "work_left db =
     length (jobs (status_side db)) + length (jobs (account_side db)) +
     backfill_left (account_side db) + backfill_left (status_side db)"

lemma sort_key_empty: "sort_key f xs = [] \<longleftrightarrow> xs = []"
  by (metis length_0_conv length_sort)

lemma load_queue_batch_empty [simp]: "load_queue_batch s = [] \<longleftrightarrow> jobs s = []"
  by (simp add: load_queue_batch_def queue_chunk_size_def sort_key_empty)

lemma apply_row_frame:
  "entries (fst (apply_prepared_row F en r s)) = entries s"
  "cursor (fst (apply_prepared_row F en r s)) = cursor s"
  "completed (fst (apply_prepared_row F en r s)) = completed s"
  "length (jobs (fst (apply_prepared_row F en r s))) \<le> length (jobs s)"
  by (auto simp: apply_prepared_row_def side_simps Let_def length_delete_le split: option.split)

lemma apply_row_current:
  assumes "map_of (jobs s) (row_key r) = Some j" "action j = row_action r" "generation j = row_generation r"
  shows "length (jobs (fst (apply_prepared_row F en r s))) < length (jobs s)"
proof -
  have "jobs (fst (apply_prepared_row F en r s)) = AList.delete (row_key r) (jobs s)"
    using assms by (simp add: apply_prepared_row_def side_simps Let_def split: option.split)
  moreover have "length (AList.delete (row_key r) al) < length al" if "row_key r \<in> fst ` set al"
    for al :: "(key \<times> job) list"
    using that length_filter_less[of _ al "\<lambda>(k', v). row_key r \<noteq> k'"]
    by (auto simp: AList.delete_eq)
  moreover have "row_key r \<in> fst ` set (jobs s)"
    using assms(1) by (metis map_of_eq_None_iff option.distinct(1))
  ultimately show ?thesis by simp
qed

lemma apply_rows_frame:
  "entries (fst (apply_prepared_rows F en rows s)) = entries s \<and>
   cursor (fst (apply_prepared_rows F en rows s)) = cursor s \<and>
   completed (fst (apply_prepared_rows F en rows s)) = completed s \<and>
   length (jobs (fst (apply_prepared_rows F en rows s))) \<le> length (jobs s)"
proof (induction rows arbitrary: s)
  case (Cons r rows)
  show ?case
    using Cons.IH[of "fst (apply_prepared_row F en r s)"] apply_row_frame[of F en r s]
    by (simp add: case_prod_beta Let_def)
qed simp

lemma commit_queue_progress:
  assumes d: "distinct (map fst (jobs s))" and ne: "load_queue_batch s \<noteq> []"
  shows "entries (commit_prepared_queue F en (map (prepare_queue_row I) (load_queue_batch s)) s) = entries s"
    and "backfill_left (commit_prepared_queue F en (map (prepare_queue_row I) (load_queue_batch s)) s) =
      backfill_left s"
    and "length (jobs (commit_prepared_queue F en (map (prepare_queue_row I) (load_queue_batch s)) s)) <
      length (jobs s)"
proof -
  let ?rows = "map (prepare_queue_row I) (load_queue_batch s)"
  let ?c = "commit_prepared_queue F en ?rows s"
  have frame: "entries ?c = entries s \<and> cursor ?c = cursor s \<and> completed ?c = completed s \<and>
      jobs ?c = jobs (fst (apply_prepared_rows F en ?rows s))"
    using apply_rows_frame[of F en ?rows s]
    by (simp add: commit_prepared_queue_def record_merge_debt_def case_prod_beta Let_def)
  then show "entries ?c = entries s" "backfill_left ?c = backfill_left s"
    by (simp_all add: backfill_left_def)
  obtain e rest where e: "load_queue_batch s = e # rest" using ne by (cases "load_queue_batch s") auto
  then have "e \<in> set (load_queue_batch s)" by simp
  then obtain k j where kj: "(k, j) \<in> set (jobs s)" "e = (k, j, map_of (entries s) k)"
    by (auto simp: load_queue_batch_def dest!: in_set_takeD)
  have "map_of (jobs s) k = Some j" using kj(1) d by (simp add: map_of_in)
  then have "length (jobs (fst (apply_prepared_row F en (prepare_queue_row I e) s))) < length (jobs s)"
    by (intro apply_row_current) (simp_all add: kj(2) prepare_queue_row_def)
  then show "length (jobs ?c) < length (jobs s)"
    using frame apply_rows_frame[of F en "map (prepare_queue_row I) rest"
        "fst (apply_prepared_row F en (prepare_queue_row I e) s)"]
    by (simp add: e case_prod_beta Let_def)
qed

lemma length_filter_strict:
  assumes "\<And>x. x \<in> set xs \<Longrightarrow> P x \<Longrightarrow> Q x" "y \<in> set xs" "Q y" "\<not> P y"
  shows "length (filter P xs) < length (filter Q xs)"
proof -
  have "filter P xs = filter P (filter Q xs)"
    using assms(1) by (auto intro: filter_cong)
  moreover have "y \<in> set (filter Q xs)" using assms by simp
  ultimately show ?thesis using length_filter_less[of y "filter Q xs" P] assms(4) by metis
qed

lemma fold_current_frame:
  "entries (fold (upsert_backfill_content_if_current F en) rows s) = entries s \<and>
   jobs (fold (upsert_backfill_content_if_current F en) rows s) = jobs s"
  by (induction rows arbitrary: s) (simp_all add: upsert_backfill_content_if_current_def side_simps)

lemma below_cursor_less:
  assumes "below_cursor c k" "k' < k"
  shows "below_cursor c k'"
proof (cases c)
  case (Some c')
  then have "k < c'" using assms(1) by (simp add: below_cursor_def)
  with assms(2) have "k' < c'" by (rule less_trans)
  then show ?thesis using Some by (simp add: below_cursor_def)
qed (simp add: below_cursor_def)

lemma commit_backfill_progress:
  fixes I :: icu and s :: "'d side"
  assumes open_state: "\<not> completed s"
  defines "st \<equiv> load_backfill_state s"
  defines "rows \<equiv> load_backfill_batch I st s"
  shows "entries (fst (commit_prepared_backfill F en False st rows s)) = entries s"
    and "jobs (fst (commit_prepared_backfill F en False st rows s)) = jobs s"
    and "backfill_left (fst (commit_prepared_backfill F en False st rows s)) < backfill_left s"
proof -
  let ?c = "fst (commit_prepared_backfill F en False st rows s)"
  have c: "entries ?c = entries s \<and> jobs ?c = jobs s \<and> completed ?c = (length rows < backfill_chunk_size) \<and>
      cursor ?c = (if rows = [] then cursor s else Some (bf_key (last rows)))"
    using open_state fold_current_frame[of F en rows s]
    by (simp add: commit_prepared_backfill_def st_def load_backfill_state_def record_merge_debt_def Let_def)
  then show "entries ?c = entries s" "jobs ?c = jobs s" by simp_all
  show "backfill_left ?c < backfill_left s"
  proof (cases "length rows < backfill_chunk_size")
    case True
    then show ?thesis using c open_state by (simp add: backfill_left_def)
  next
    case False
    then have ne: "rows \<noteq> []" by (auto simp: backfill_chunk_size_def)
    obtain k x where kx: "last (take backfill_chunk_size (rows_below st s)) = (k, x)" by (cases rule: prod.exhaust)
    have ne': "take backfill_chunk_size (rows_below st s) \<noteq> []"
      using ne by (simp add: rows_def load_backfill_batch_rows)
    then have last_key: "bf_key (last rows) = k"
      by (simp add: rows_def load_backfill_batch_rows last_map kx batch_row_def)
    have "(k, x) \<in> set (rows_below st s)"
      using last_in_set[OF ne'] kx by (auto dest: in_set_takeD)
    then have mem: "(k, x) \<in> set (entries s)" "below_cursor (cursor s) k"
      by (auto simp: set_rows_below st_def load_backfill_state_def)
    have "length (filter (\<lambda>(k', x). below_cursor (Some k) k') (entries s)) <
        length (filter (\<lambda>(k', x). below_cursor (cursor s) k') (entries s))"
    proof (rule length_filter_strict[of _ _ _ "(k, x)"])
      fix e assume "case e of (k', x) \<Rightarrow> below_cursor (Some k) k'"
      then have "fst e < k" by (simp add: below_cursor_def case_prod_beta)
      then show "case e of (k', x) \<Rightarrow> below_cursor (cursor s) k'"
        using below_cursor_less[OF mem(2)] by (simp add: case_prod_beta)
    qed (use mem in \<open>simp_all add: below_cursor_def\<close>)
    then show ?thesis using c ne False last_key open_state by (simp add: backfill_left_def)
  qed
qed

lemma run_index_step_progress:
  assumes inv: "db_inv I spent db"
  shows "(index_drained db \<and> fst (run_index_step I db) = db) \<or>
    (work_left (fst (run_index_step I db)) < work_left db)"
    and "entries (status_side (fst (run_index_step I db))) = entries (status_side db)"
    and "entries (account_side (fst (run_index_step I db))) = entries (account_side db)"
proof -
  have d: "distinct (map fst (jobs (status_side db)))" "distinct (map fst (jobs (account_side db)))"
    using inv by (simp_all add: db_inv_def side_inv_def tables_ok_def)
  let ?db = "fst (run_index_step I db)"
  consider (sq) "jobs (status_side db) \<noteq> []"
    | (aq) "jobs (status_side db) = []" "jobs (account_side db) \<noteq> []"
    | (ab) "jobs (status_side db) = []" "jobs (account_side db) = []" "\<not> completed (account_side db)"
    | (sb) "jobs (status_side db) = []" "jobs (account_side db) = []" "completed (account_side db)"
        "\<not> completed (status_side db)"
    | (idle) "index_drained db"
    by (auto simp: index_drained_def)
  then have "((index_drained db \<and> ?db = db) \<or> work_left ?db < work_left db) \<and>
      entries (status_side ?db) = entries (status_side db) \<and>
      entries (account_side ?db) = entries (account_side db)"
  proof cases
    case sq
    then have "load_queue_batch (status_side db) \<noteq> []" by simp
    note p = commit_queue_progress[OF d(1) this, of status_format "updates_enabled db" I]
    have "?db = db\<lparr>status_side := commit_prepared_queue status_format (updates_enabled db)
        (map (prepare_queue_row I) (load_queue_batch (status_side db))) (status_side db)\<rparr>"
      using sq by (simp add: run_index_step_def commit_prepared_status_queue_def Let_def)
    then show ?thesis using p by (simp add: work_left_def)
  next
    case aq
    then have "load_queue_batch (account_side db) \<noteq> []" by simp
    note p = commit_queue_progress[OF d(2) this, of account_format "updates_enabled db" I]
    have "?db = db\<lparr>account_side := commit_prepared_queue account_format (updates_enabled db)
        (map (prepare_queue_row I) (load_queue_batch (account_side db))) (account_side db)\<rparr>"
      using aq by (simp add: run_index_step_def commit_prepared_account_queue_def status_queue_has_work_def
          case_prod_beta Let_def)
    then show ?thesis using p by (simp add: work_left_def)
  next
    case ab
    note p = commit_backfill_progress[OF ab(3), of account_format "updates_enabled db" I]
    have "?db = db\<lparr>account_side := fst (commit_prepared_backfill account_format (updates_enabled db) False
        (load_backfill_state (account_side db))
        (load_backfill_batch I (load_backfill_state (account_side db)) (account_side db)) (account_side db))\<rparr>"
      using ab by (simp add: run_index_step_def commit_prepared_account_backfill_def
          case_prod_beta Let_def load_backfill_state_def)
    then show ?thesis using p by (simp add: work_left_def)
  next
    case sb
    note p = commit_backfill_progress[OF sb(4), of status_format "updates_enabled db" I]
    have "?db = db\<lparr>status_side := fst (commit_prepared_backfill status_format (updates_enabled db) False
        (load_backfill_state (status_side db))
        (load_backfill_batch I (load_backfill_state (status_side db)) (status_side db)) (status_side db))\<rparr>"
      using sb by (simp add: run_index_step_def commit_prepared_status_backfill_def
          case_prod_beta Let_def load_backfill_state_def)
    then show ?thesis using p by (simp add: work_left_def)
  next
    case idle
    then show ?thesis
      by (simp add: run_index_step_def index_drained_def load_backfill_state_def Let_def)
  qed
  then show "(index_drained db \<and> ?db = db) \<or> work_left ?db < work_left db"
    "entries (status_side ?db) = entries (status_side db)"
    "entries (account_side ?db) = entries (account_side db)" by simp_all
qed

definition run_turns :: "icu \<Rightarrow> nat \<Rightarrow> search_db \<Rightarrow> search_db" where
  "run_turns I n = (\<lambda>db. fst (run_index_step I db)) ^^ n"

lemma run_turns_drain:
  "db_inv I spent db \<Longrightarrow> work_left db \<le> n \<Longrightarrow>
   db_inv I spent (run_turns I n db) \<and> index_drained (run_turns I n db) \<and>
   entries (status_side (run_turns I n db)) = entries (status_side db) \<and>
   entries (account_side (run_turns I n db)) = entries (account_side db)"
proof (induction n arbitrary: db)
  case 0
  then show ?case
    using run_index_step_progress(1)[OF 0(1)] by (simp add: run_turns_def)
next
  case (Suc n)
  let ?db = "fst (run_index_step I db)"
  have unfold: "run_turns I (Suc n) db = run_turns I n ?db"
    by (simp add: run_turns_def funpow_Suc_right del: funpow.simps)
  have inv: "db_inv I spent ?db" using Suc.prems run_index_step_inv by blast
  note frame = run_index_step_progress(2,3)[OF Suc.prems(1)]
  have "work_left ?db \<le> n \<or> (index_drained db \<and> ?db = db)"
    using run_index_step_progress(1)[OF Suc.prems(1)] Suc.prems(2) by auto
  then have "work_left ?db \<le> n"
    by (auto simp: work_left_def index_drained_def backfill_left_def)
  from Suc.IH[OF inv this] show ?case unfolding unfold frame .
qed

end
