(* ===== verification/SearchQuery.thy ===== *)
theory SearchQuery
imports SearchDrain Models KqText
begin

text \<open>
  Searching the index, \<^verbatim>\<open>src/db/queries/search.rs\<close>, with the SQL functions that
  \<^verbatim>\<open>src/db/short_search_tokenizer.rs\<close> registers for it and the display filter of
  \<^verbatim>\<open>src/db/queries/timeline_views.rs\<close>.

  The statement is one common table expression after the other; each is a definition here, over the
  cached statuses and accounts and the index of \<open>SearchIndex\<close>. SQLite leaves the order of a
  \<^verbatim>\<open>LIMIT\<close> without \<^verbatim>\<open>ORDER BY\<close> open; the model takes the rows in the order of their table. FTS5
  is not part of the repository: whether an expression matches a stored text is the argument
  \<open>fts5\<close>, and \<open>fts5_prefix_query\<close> states what its manual says of a conjunction of
  quoted prefixes over ASCII words, whose case the tokenizer \<^verbatim>\<open>unicode61\<close> ignores.
\<close>

section \<open>Tables\<close>

record search_store =
  sx_index :: search_db
  sx_statuses :: "db_status list"
  sx_accounts :: "db_account list"

definition search_status_key :: "db_status \<Rightarrow> key" where
  "search_status_key s = (st_id s, st_server_domain s)"

definition search_author_key :: "db_status \<Rightarrow> key" where
  "search_author_key s = (st_account_id s, st_server_domain s)"

definition search_account_key :: "db_account \<Rightarrow> key" where
  "search_account_key a = (ac_id a, ac_server_domain a)"

lemmas search_keys = search_status_key_def search_author_key_def search_account_key_def

definition search_status_row :: "search_store \<Rightarrow> key \<Rightarrow> db_status option" where
  "search_status_row S k = find (\<lambda>s. search_status_key s = k) (sx_statuses S)"

definition search_account_row :: "search_store \<Rightarrow> key \<Rightarrow> db_account option" where
  "search_account_row S k = find (\<lambda>a. search_account_key a = k) (sx_accounts S)"

definition status_texts :: "db_status \<Rightarrow> texts" where
  "status_texts s = (st_content s, st_spoiler_text s)"

definition account_texts :: "db_account \<Rightarrow> texts" where
  "account_texts a = (ac_acct a, ac_display_name a)"

section \<open>Limits and errors\<close>

definition max_search_bytes :: nat where "max_search_bytes = 4096"
definition max_search_terms :: nat where "max_search_terms = 8"
definition candidate_count_cap :: nat where "candidate_count_cap = 10000"
definition pending_status_scan_limit :: nat where "pending_status_scan_limit = 256"
definition pending_account_scan_limit :: nat where "pending_account_scan_limit = 256"
definition status_gap_scan_limit :: nat where "status_gap_scan_limit = 256"
definition account_gap_scan_limit :: nat where "account_gap_scan_limit = 256"
definition recent_index_scan_limit :: nat where "recent_index_scan_limit = 10000"

datatype search_error =
    SearchCancelled
  | InputBudgetExceeded
  | TooManyTerms
  | ExecutionBudgetExceeded
  | SearchDatabase

record status_display_filter =
  exclude_boosts :: bool
  exclude_media :: bool
  include_media :: bool

record search_query =
  sq_query :: rstr
  sq_limit :: int
  sq_offset :: int
  sq_display_filter :: status_display_filter
  sq_start_after :: "key option"

section \<open>SQL functions\<close>

definition icu_match_status :: "icu \<Rightarrow> rstr \<Rightarrow> db_status \<Rightarrow> bool" where
  "icu_match_status I term s \<longleftrightarrow> matches_fields I term [st_content s, st_spoiler_text s]"

definition icu_match_account :: "icu \<Rightarrow> rstr \<Rightarrow> db_account \<Rightarrow> bool" where
  "icu_match_account I term a \<longleftrightarrow> matches_fields I term [ac_acct a, ac_display_name a]"

text \<open>A missing author reads as empty texts.\<close>

definition icu_contains :: "icu \<Rightarrow> rstr \<Rightarrow> db_status \<Rightarrow> db_account option \<Rightarrow> bool" where
  "icu_contains I term s author \<longleftrightarrow>
     contains_term I term
       [html_to_plain_text (st_content s), st_spoiler_text s,
        (case author of None \<Rightarrow> [] | Some a \<Rightarrow> ac_acct a),
        (case author of None \<Rightarrow> [] | Some a \<Rightarrow> ac_display_name a)]"

definition has_media_json :: "db_status \<Rightarrow> bool" where
  "has_media_json s \<longleftrightarrow>
     (case st_media_attachments_json s of None \<Rightarrow> False | Some json \<Rightarrow> json \<noteq> str ''[]'')"

definition shows_media :: "search_store \<Rightarrow> db_status \<Rightarrow> bool" where
  "shows_media S s \<longleftrightarrow>
     has_media_json s \<or>
     (case st_reblog_of_id s of
        None \<Rightarrow> False
      | Some i \<Rightarrow> \<exists>original \<in> set (sx_statuses S).
          st_id original = i \<and> st_server_domain original = st_server_domain s \<and> has_media_json original)"

definition display_filter_ok :: "search_store \<Rightarrow> status_display_filter \<Rightarrow> db_status \<Rightarrow> bool" where
  "display_filter_ok S f s \<longleftrightarrow>
     (exclude_boosts f \<longrightarrow> st_reblog_of_id s = None) \<and>
     (exclude_media f \<longrightarrow> \<not> shows_media S s) \<and>
     (include_media f \<longrightarrow> shows_media S s)"

section \<open>Common table expressions\<close>

definition newest_first :: "db_status list \<Rightarrow> db_status list" where
  "newest_first rows = rev (sort_key (\<lambda>s. (st_created_at s, st_server_domain s, st_id s)) rows)"

definition newest_jobs :: "'d side \<Rightarrow> (key \<times> job) list" where
  "newest_jobs s = rev (sort_key (\<lambda>(k, j). (queued_at j, k)) (jobs s))"

definition pending_status_rows :: "search_store \<Rightarrow> db_status list" where
  "pending_status_rows S =
     take pending_status_scan_limit
       (List.map_filter (\<lambda>(k, j). if action j = JobUpsert then search_status_row S k else None)
         (newest_jobs (status_side (sx_index S))))"

definition pending_account_rows :: "search_store \<Rightarrow> db_account list" where
  "pending_account_rows S =
     take pending_account_scan_limit
       (List.map_filter (\<lambda>(k, j). if action j = JobUpsert then search_account_row S k else None)
         (newest_jobs (account_side (sx_index S))))"

definition pending_status_keys :: "search_store \<Rightarrow> key set" where
  "pending_status_keys S = search_status_key ` set (pending_status_rows S)"

definition pending_account_keys :: "search_store \<Rightarrow> key set" where
  "pending_account_keys S = search_account_key ` set (pending_account_rows S)"

definition status_token_text :: "search_store \<Rightarrow> key \<Rightarrow> rstr" where
  "status_token_text S k =
     (case map_of (docs (status_side (sx_index S))) k of
        Some (t, v) \<Rightarrow> if v = status_text_scope_version then t else []
      | None \<Rightarrow> [])"

definition account_token_text :: "search_store \<Rightarrow> key \<Rightarrow> rstr" where
  "account_token_text S k =
     (case map_of (docs (account_side (sx_index S))) k of Some t \<Rightarrow> t | None \<Rightarrow> [])"

definition recent_index_rows :: "search_store \<Rightarrow> (db_status \<times> rstr \<times> rstr) list" where
  "recent_index_rows S =
     map (\<lambda>s. (s, status_token_text S (search_status_key s), account_token_text S (search_author_key s)))
       (take recent_index_scan_limit (newest_first (sx_statuses S)))"

definition unindexed_status_rows :: "search_store \<Rightarrow> db_status list" where
  "unindexed_status_rows S =
     filter (\<lambda>s.
         (case map_of (docs (status_side (sx_index S))) (search_status_key s) of
            Some (t, v) \<Rightarrow> v \<noteq> status_text_scope_version
          | None \<Rightarrow> True) \<and>
         search_status_key s \<notin> pending_status_keys S)
       (take status_gap_scan_limit (newest_first (sx_statuses S)))"

definition unindexed_account_rows :: "search_store \<Rightarrow> db_account list" where
  "unindexed_account_rows S =
     filter (\<lambda>a. map_of (docs (account_side (sx_index S))) (search_account_key a) = None \<and>
         search_account_key a \<notin> pending_account_keys S)
       (take account_gap_scan_limit
         (rev (sort_key search_account_key
           (filter (\<lambda>a. below_cursor (cursor (account_side (sx_index S))) (search_account_key a))
             (sx_accounts S)))))"

definition indexed_status_candidate ::
  "(rstr \<Rightarrow> rstr \<Rightarrow> bool) \<Rightarrow> search_store \<Rightarrow> rstr \<Rightarrow> key list" where
  "indexed_status_candidate fts5 S match_query =
     take candidate_count_cap
       (filter (\<lambda>k.
           (case postings (status_side (sx_index S)) k of
              Some token_text \<Rightarrow> fts5 match_query token_text | None \<Rightarrow> False) \<and>
           k \<notin> pending_status_keys S)
         (map fst (docs (status_side (sx_index S)))))"

definition indexed_account_keys ::
  "(rstr \<Rightarrow> rstr \<Rightarrow> bool) \<Rightarrow> search_store \<Rightarrow> rstr \<Rightarrow> key list" where
  "indexed_account_keys fts5 S match_query =
     take candidate_count_cap
       (filter (\<lambda>k.
           (case postings (account_side (sx_index S)) k of
              Some token_text \<Rightarrow> fts5 match_query token_text | None \<Rightarrow> False) \<and>
           k \<notin> pending_account_keys S)
         (map fst (docs (account_side (sx_index S)))))"

definition statuses_by :: "search_store \<Rightarrow> key set \<Rightarrow> key list" where
  "statuses_by S authors =
     take candidate_count_cap
       (map search_status_key (filter (\<lambda>s. search_author_key s \<in> authors) (sx_statuses S)))"

definition indexed_account_candidate ::
  "(rstr \<Rightarrow> rstr \<Rightarrow> bool) \<Rightarrow> search_store \<Rightarrow> rstr \<Rightarrow> key list" where
  "indexed_account_candidate fts5 S match_query =
     statuses_by S (set (indexed_account_keys fts5 S match_query))"

definition pending_status_candidate :: "icu \<Rightarrow> search_store \<Rightarrow> rstr \<Rightarrow> key list" where
  "pending_status_candidate I S term =
     map search_status_key (filter (icu_match_status I term) (pending_status_rows S))"

definition pending_account_candidate :: "icu \<Rightarrow> search_store \<Rightarrow> rstr \<Rightarrow> key list" where
  "pending_account_candidate I S term =
     statuses_by S (search_account_key ` set (filter (icu_match_account I term) (pending_account_rows S)))"

definition recent_index_candidate :: "search_store \<Rightarrow> rstr \<Rightarrow> key list" where
  "recent_index_candidate S query_token_text =
     map (\<lambda>(s, _). search_status_key s)
       (filter (\<lambda>(s, status_tokens, account_tokens).
           matches_index_text query_token_text [status_tokens, account_tokens] \<and>
           search_status_key s \<notin> pending_status_keys S \<and>
           search_author_key s \<notin> pending_account_keys S)
         (recent_index_rows S))"

definition unindexed_status_candidate :: "icu \<Rightarrow> search_store \<Rightarrow> rstr \<Rightarrow> key list" where
  "unindexed_status_candidate I S term =
     (if completed (status_side (sx_index S)) then []
      else map search_status_key (filter (icu_match_status I term) (unindexed_status_rows S)))"

definition unindexed_account_candidate :: "icu \<Rightarrow> search_store \<Rightarrow> rstr \<Rightarrow> key list" where
  "unindexed_account_candidate I S term =
     (if completed (account_side (sx_index S)) then []
      else statuses_by S
        (search_account_key ` set (filter (icu_match_account I term) (unindexed_account_rows S))))"

record indexed_term =
  match_query :: rstr
  query_token_text :: rstr
  search_term :: rstr
  contiguous :: bool

definition search_candidate ::
  "icu \<Rightarrow> (rstr \<Rightarrow> rstr \<Rightarrow> bool) \<Rightarrow> search_store \<Rightarrow> indexed_term \<Rightarrow> key list" where
  "search_candidate I fts5 S t =
     (let combined = indexed_status_candidate fts5 S (match_query t) @
            indexed_account_candidate fts5 S (match_query t) @
            pending_status_candidate I S (search_term t) @
            pending_account_candidate I S (search_term t) @
            recent_index_candidate S (query_token_text t) @
            unindexed_status_candidate I S (search_term t) @
            unindexed_account_candidate I S (search_term t)
      in map search_status_key
        (take candidate_count_cap
          (newest_first
            (filter (\<lambda>s. search_status_key s \<in> set combined \<and>
                (contiguous t \<longrightarrow>
                   icu_contains I (search_term t) s (search_account_row S (search_author_key s))))
              (sx_statuses S)))))"

section \<open>The query\<close>

definition normalize_terms :: "rstr \<Rightarrow> rstr list" where
  "normalize_terms query = filter (\<lambda>term. term \<noteq> []) (split_whitespace query)"

text \<open>The loop over the terms: \<open>None\<close> is its early return of an empty result.\<close>

fun candidate_terms :: "icu \<Rightarrow> rstr list \<Rightarrow> rstr list \<Rightarrow> indexed_term list option" where
  "candidate_terms I seen_match_queries [] = Some []"
| "candidate_terms I seen_match_queries (term # terms) =
     (case match_expression I term of
        None \<Rightarrow> None
      | Some expression \<Rightarrow>
          if expression \<in> set seen_match_queries then candidate_terms I seen_match_queries terms
          else map_option (Cons \<lparr>match_query = expression, query_token_text = index_text I [term],
                 search_term = term, contiguous = requires_contiguous_match I term\<rparr>)
               (candidate_terms I (expression # seen_match_queries) terms))"

definition capped_candidate_count ::
  "(rstr \<Rightarrow> rstr \<Rightarrow> bool) \<Rightarrow> search_store \<Rightarrow> indexed_term \<Rightarrow> nat" where
  "capped_candidate_count fts5 S candidate =
     (let count = (\<lambda>texts. length (filter (\<lambda>t. case t of None \<Rightarrow> False
              | Some token_text \<Rightarrow> fts5 (match_query candidate) token_text) texts));
          fts_count = min candidate_count_cap
            (count (map (\<lambda>(k, d). postings (status_side (sx_index S)) k) (docs (status_side (sx_index S)))))
      in if candidate_count_cap \<le> fts_count then candidate_count_cap
         else fts_count + min (candidate_count_cap - fts_count)
            (count (map (\<lambda>(k, d). postings (account_side (sx_index S)) k) (docs (account_side (sx_index S))))))"

definition search_cursor_ok :: "(rstr \<times> rstr \<times> rstr) option \<Rightarrow> db_status \<Rightarrow> bool" where
  "search_cursor_ok c s \<longleftrightarrow>
     (case c of
        None \<Rightarrow> True
      | Some (created_at, server_domain, i) \<Rightarrow>
          st_created_at s < created_at \<or>
          (st_created_at s = created_at \<and>
           (st_server_domain s < server_domain \<or>
            (st_server_domain s = server_domain \<and> st_id s < i))))"

definition resolve_search_cursor :: "search_store \<Rightarrow> key option \<Rightarrow> (rstr \<times> rstr \<times> rstr) option" where
  "resolve_search_cursor S start_after =
     Option.bind start_after (\<lambda>k.
       map_option (\<lambda>s. (st_created_at s, st_server_domain s, st_id s)) (search_status_row S k))"

definition query_statuses_on_connection ::
  "icu \<Rightarrow> (rstr \<Rightarrow> rstr \<Rightarrow> bool) \<Rightarrow> search_store \<Rightarrow> search_query \<Rightarrow> search_error + db_status list" where
  "query_statuses_on_connection I fts5 S q =
     (let terms = normalize_terms (sq_query q) in
      if terms = [] then Inr []
      else if max_search_terms < length terms then Inl TooManyTerms
      else
        let cursor = resolve_search_cursor S (sq_start_after q) in
        case candidate_terms I [] terms of
          None \<Rightarrow> Inr []
        | Some candidates \<Rightarrow>
            let indexed_terms = sort_key (capped_candidate_count fts5 S) candidates;
                rows = newest_first
                  (filter (\<lambda>s.
                      (\<forall>t \<in> set indexed_terms. search_status_key s \<in> set (search_candidate I fts5 S t)) \<and>
                      display_filter_ok S (sq_display_filter q) s \<and>
                      search_cursor_ok cursor s)
                    (sx_statuses S))
            in Inr (take (nat (max 0 (sq_limit q)))
                 (drop (nat (if cursor \<noteq> None then 0 else max 0 (sq_offset q))) rows)))"

text \<open>\<open>interrupted\<close> is the error of a progress handler that stopped the statement, when it did.\<close>

definition query_statuses_with_cancellation ::
  "icu \<Rightarrow> (rstr \<Rightarrow> rstr \<Rightarrow> bool) \<Rightarrow> bool \<Rightarrow> search_error option \<Rightarrow> search_store \<Rightarrow> search_query \<Rightarrow>
   search_error + db_status list" where
  "query_statuses_with_cancellation I fts5 cancelled interrupted S q =
     (if cancelled then Inl SearchCancelled
      else if max_search_bytes < byte_len (sq_query q) then Inl InputBudgetExceeded
      else if split_whitespace (sq_query q) = [] then Inr []
      else case interrupted of
          Some e \<Rightarrow> Inl e
        | None \<Rightarrow> query_statuses_on_connection I fts5 S q)"

section \<open>FTS5\<close>

definition quoted_prefix :: "rstr \<Rightarrow> rstr" where
  "quoted_prefix word = str [CHR 34] @ word @ str [CHR 34, CHR 42]"

text \<open>What the manual of FTS5 says of a conjunction of quoted prefixes, for the tokenizer
  \<^verbatim>\<open>unicode61\<close>, over words of ASCII letters and digits: each prefix is the prefix of a word of the
  document, without regard to case, which the tokenizer folds.\<close>

definition fts5_prefix_query :: "(rstr \<Rightarrow> rstr \<Rightarrow> bool) \<Rightarrow> bool" where
  "fts5_prefix_query fts5 \<longleftrightarrow>
     (\<forall>ws doc. ws \<noteq> [] \<longrightarrow> list_all (\<lambda>w. w \<noteq> [] \<and> list_all is_ascii_alphanumeric w) ws \<longrightarrow>
        list_all (list_all is_ascii_alphanumeric) (split_whitespace doc) \<longrightarrow>
        fts5 (join (str '' AND '') (map quoted_prefix ws)) doc =
          (\<forall>w \<in> set ws. \<exists>indexed \<in> set (split_whitespace doc).
             starts_with (to_ascii_lowercase indexed) (to_ascii_lowercase w)))"

end
