(* ===== verification/SearchResults.thy ===== *)
theory SearchResults
imports SearchQuery
begin

text \<open>
  What a search returns. The specification judges every cached status by its texts and its author's
  names; the lemmas show what each common table expression contributes when the backfill is complete
  and the database is small enough for the windows of the statement, with any interleaving of row
  changes and index workers before it: the statuses that wait in the queue are matched directly, and
  the others by postings that the invariant of \<open>SearchInvariant\<close> keeps at their present texts.
\<close>

declare split_paired_All [simp del] split_paired_Ex [simp del]

section \<open>Specification\<close>

definition term_matches :: "icu \<Rightarrow> search_store \<Rightarrow> rstr \<Rightarrow> db_status \<Rightarrow> bool" where
  "term_matches I S term s \<longleftrightarrow>
     (icu_match_status I term s \<or>
      (case search_account_row S (search_author_key s) of
         None \<Rightarrow> False | Some a \<Rightarrow> icu_match_account I term a)) \<and>
     (requires_contiguous_match I term \<longrightarrow>
        icu_contains I term s (search_account_row S (search_author_key s)))"

definition search_spec :: "icu \<Rightarrow> search_store \<Rightarrow> search_query \<Rightarrow> db_status list" where
  "search_spec I S q =
     (let terms = normalize_terms (sq_query q); cursor = resolve_search_cursor S (sq_start_after q) in
      if terms = [] then []
      else take (nat (max 0 (sq_limit q)))
        (drop (nat (if cursor \<noteq> None then 0 else max 0 (sq_offset q)))
          (newest_first (filter (\<lambda>s.
              (\<forall>term \<in> set terms. term_matches I S term s) \<and>
              display_filter_ok S (sq_display_filter q) s \<and>
              search_cursor_ok cursor s)
            (sx_statuses S)))))"

text \<open>The tables of the index hold the texts of the cached rows, keys are unique, and every status
  has its author, as the schema demands.\<close>

definition search_store_linked :: "search_store \<Rightarrow> bool" where
  "search_store_linked S \<longleftrightarrow>
     distinct (map search_status_key (sx_statuses S)) \<and>
     distinct (map search_account_key (sx_accounts S)) \<and>
     (\<forall>k. map_of (entries (status_side (sx_index S))) k = map_option status_texts (search_status_row S k)) \<and>
     (\<forall>k. map_of (entries (account_side (sx_index S))) k = map_option account_texts (search_account_row S k)) \<and>
     list_all (\<lambda>s. search_account_row S (search_author_key s) \<noteq> None) (sx_statuses S)"

definition within_windows :: "search_store \<Rightarrow> bool" where
  "within_windows S \<longleftrightarrow>
     length (sx_statuses S) \<le> candidate_count_cap \<and>
     length (docs (status_side (sx_index S))) \<le> candidate_count_cap \<and>
     length (docs (account_side (sx_index S))) \<le> candidate_count_cap \<and>
     length (jobs (status_side (sx_index S))) \<le> pending_status_scan_limit \<and>
     length (jobs (account_side (sx_index S))) \<le> pending_account_scan_limit"

definition backfill_complete :: "search_store \<Rightarrow> bool" where
  "backfill_complete S \<longleftrightarrow> completed (status_side (sx_index S)) \<and> completed (account_side (sx_index S))"

section \<open>Rows and lists\<close>

lemma row_by_key:
  assumes "distinct (map f xs)" "x \<in> set xs"
  shows "find (\<lambda>y. f y = f x) xs = Some x"
  using assms by (induction xs) auto

lemma row_found: "find P xs = Some x \<Longrightarrow> x \<in> set xs \<and> P x"
  by (auto simp: find_Some_iff)

lemma status_rowD: "search_status_row S k = Some s \<Longrightarrow> s \<in> set (sx_statuses S) \<and> search_status_key s = k"
  unfolding search_status_row_def by (drule row_found)

lemma account_rowD: "search_account_row S k = Some a \<Longrightarrow> a \<in> set (sx_accounts S) \<and> search_account_key a = k"
  unfolding search_account_row_def by (drule row_found)

lemma status_row_of:
  "search_store_linked S \<Longrightarrow> s \<in> set (sx_statuses S) \<Longrightarrow>
   search_status_row S (search_status_key s) = Some s"
  by (simp add: search_store_linked_def search_status_row_def row_by_key)

lemma same_status_key:
  "search_store_linked S \<Longrightarrow> s \<in> set (sx_statuses S) \<Longrightarrow> s' \<in> set (sx_statuses S) \<Longrightarrow>
   search_status_key s = search_status_key s' \<Longrightarrow> s = s'"
  by (metis status_row_of option.inject)

lemma author_row_of:
  assumes "search_store_linked S" "s \<in> set (sx_statuses S)"
  obtains a where "search_account_row S (search_author_key s) = Some a"
    "search_account_key a = search_author_key s"
  using assms row_found
  by (fastforce simp: search_store_linked_def list_all_iff search_account_row_def)

lemma newest_first_set [simp]: "set (newest_first rows) = set rows"
  by (simp add: newest_first_def)

lemma newest_first_length [simp]: "length (newest_first rows) = length rows"
  by (simp add: newest_first_def)

lemma set_map_filter: "set (List.map_filter f xs) = {y. \<exists>x \<in> set xs. f x = Some y}"
  by (induction xs) (auto simp: List.map_filter_def split: option.splits)

lemma length_map_filter: "length (List.map_filter f xs) \<le> length xs"
  by (simp add: List.map_filter_def)

lemma take_map_filter:
  assumes "length xs \<le> n"
  shows "set (take n (List.map_filter f xs)) = {y. \<exists>x \<in> set xs. f x = Some y}"
proof -
  have "length (List.map_filter f xs) \<le> n" using assms length_map_filter[of f xs] by simp
  then show ?thesis by (simp add: set_map_filter)
qed

lemma upserted_rows:
  "{y. \<exists>x \<in> J. (case x of (k, j) \<Rightarrow> if action j = JobUpsert then row k else None) = Some y} =
   {y. \<exists>k j. (k, j) \<in> J \<and> action j = JobUpsert \<and> row k = Some y}"
proof (intro Collect_cong iffI)
  fix y assume "\<exists>k j. (k, j) \<in> J \<and> action j = JobUpsert \<and> row k = Some y"
  then obtain k j where "(k, j) \<in> J" "action j = JobUpsert" "row k = Some y" by blast
  then show "\<exists>x \<in> J. (case x of (k, j) \<Rightarrow> if action j = JobUpsert then row k else None) = Some y"
    by (intro bexI[of _ "(k, j)"]) simp_all
next
  fix y assume "\<exists>x \<in> J. (case x of (k, j) \<Rightarrow> if action j = JobUpsert then row k else None) = Some y"
  then obtain k j where "(k, j) \<in> J" "(if action j = JobUpsert then row k else None) = Some y"
    by auto
  then show "\<exists>k j. (k, j) \<in> J \<and> action j = JobUpsert \<and> row k = Some y"
    by (cases "action j = JobUpsert") auto
qed

section \<open>Pending rows\<close>

lemma set_newest_jobs [simp]: "set (newest_jobs s) = set (jobs s)"
  by (simp add: newest_jobs_def)

lemma length_newest_jobs [simp]: "length (newest_jobs s) = length (jobs s)"
  by (simp add: newest_jobs_def)

lemma pending_status_rows_set:
  assumes "length (jobs (status_side (sx_index S))) \<le> pending_status_scan_limit"
  shows "set (pending_status_rows S) =
    {s. \<exists>k j. (k, j) \<in> set (jobs (status_side (sx_index S))) \<and> action j = JobUpsert \<and>
       search_status_row S k = Some s}"
  using assms by (simp add: pending_status_rows_def take_map_filter upserted_rows)

lemma pending_account_rows_set:
  assumes "length (jobs (account_side (sx_index S))) \<le> pending_account_scan_limit"
  shows "set (pending_account_rows S) =
    {a. \<exists>k j. (k, j) \<in> set (jobs (account_side (sx_index S))) \<and> action j = JobUpsert \<and>
       search_account_row S k = Some a}"
  using assms by (simp add: pending_account_rows_def take_map_filter upserted_rows)

text \<open>A row is pending exactly when its key is queued.\<close>

definition status_queued :: "search_store \<Rightarrow> db_status \<Rightarrow> bool" where
  "status_queued S s \<longleftrightarrow> map_of (jobs (status_side (sx_index S))) (search_status_key s) \<noteq> None"

definition author_queued :: "search_store \<Rightarrow> db_status \<Rightarrow> bool" where
  "author_queued S s \<longleftrightarrow> map_of (jobs (account_side (sx_index S))) (search_author_key s) \<noteq> None"


section \<open>A complete index\<close>

text \<open>The hypotheses that the lemmas share: a run has led to the index, its backfill is complete, and
  the windows hold.\<close>

definition index_serves :: "icu \<Rightarrow> nat set \<Rightarrow> search_store \<Rightarrow> bool" where
  "index_serves I spent S \<longleftrightarrow>
     unicode_icu I \<and> db_inv I spent (sx_index S) \<and> search_store_linked S \<and> within_windows S \<and>
     backfill_complete S"

abbreviation statuses_index :: "search_store \<Rightarrow> status_doc side" where
  "statuses_index S \<equiv> status_side (sx_index S)"

abbreviation accounts_index :: "search_store \<Rightarrow> rstr side" where
  "accounts_index S \<equiv> account_side (sx_index S)"

lemma servesD:
  assumes "index_serves I spent S"
  shows "unicode_icu I" "db_inv I spent (sx_index S)" "search_store_linked S" "within_windows S"
    "backfill_complete S"
  using assms by (simp_all add: index_serves_def)

lemma sides:
  assumes serves: "index_serves I spent S"
  shows "side_inv status_format (tokens_of I) spent (statuses_index S)"
  "side_inv account_format (tokens_of I) spent (accounts_index S)"
  using servesD(2)[OF serves] by (simp_all add: db_inv_def)

lemma entry_of_status:
  assumes serves: "index_serves I spent S"
  shows "s \<in> set (sx_statuses S) \<Longrightarrow> map_of (entries (statuses_index S)) (search_status_key s) = Some (status_texts s)"
  using servesD(3)[OF serves] status_row_of by (simp add: search_store_linked_def)

lemma entry_of_author:
  assumes serves: "index_serves I spent S"
  shows "search_account_row S k = Some a \<Longrightarrow> map_of (entries (accounts_index S)) k = Some (account_texts a)"
  using servesD(3)[OF serves] by (simp add: search_store_linked_def)

lemma job_in:
  assumes serves: "index_serves I spent S"
  shows "map_of (jobs (statuses_index S)) k = Some j \<longleftrightarrow> (k, j) \<in> set (jobs (statuses_index S))"
  "map_of (jobs (accounts_index S)) k = Some j' \<longleftrightarrow> (k, j') \<in> set (jobs (accounts_index S))"
  using sides[OF serves] by (simp_all add: side_inv_def tables_ok_def map_of_in)

lemma queued_action:
  assumes serves: "index_serves I spent S"
  shows "map_of (jobs (statuses_index S)) k = Some j \<Longrightarrow> map_of (entries (statuses_index S)) k \<noteq> None \<Longrightarrow> action j = JobUpsert"
  "map_of (jobs (accounts_index S)) k = Some j \<Longrightarrow> map_of (entries (accounts_index S)) k \<noteq> None \<Longrightarrow> action j = JobUpsert"
proof -
  have "key_inv status_format (tokens_of I) spent (statuses_index S) k"
    "key_inv account_format (tokens_of I) spent (accounts_index S) k"
    using sides[OF serves] by (simp_all add: side_inv_def)
  then show "map_of (jobs (statuses_index S)) k = Some j \<Longrightarrow> map_of (entries (statuses_index S)) k \<noteq> None \<Longrightarrow> action j = JobUpsert"
    "map_of (jobs (accounts_index S)) k = Some j \<Longrightarrow> map_of (entries (accounts_index S)) k \<noteq> None \<Longrightarrow> action j = JobUpsert"
    by (simp_all add: key_inv_def)
qed

lemma pending_status_rows_queued:
  assumes serves: "index_serves I spent S" and mem: "s \<in> set (sx_statuses S)"
  shows "s \<in> set (pending_status_rows S) \<longleftrightarrow> status_queued S s"
proof
  have w: "length (jobs (statuses_index S)) \<le> pending_status_scan_limit"
    using servesD(4)[OF serves] by (simp add: within_windows_def)
  note rows = pending_status_rows_set[OF w]
  {
    assume "s \<in> set (pending_status_rows S)"
    then obtain k j where "map_of (jobs (statuses_index S)) k = Some j" "search_status_row S k = Some s"
      by (auto simp: rows job_in[OF serves])
    moreover then have "k = search_status_key s"
      using status_rowD by blast
    ultimately show "status_queued S s" by (simp add: status_queued_def)
  }
  assume "status_queued S s"
  then obtain j where j: "map_of (jobs (statuses_index S)) (search_status_key s) = Some j"
    by (auto simp: status_queued_def)
  then have "action j = JobUpsert" using queued_action(1)[OF serves] entry_of_status[OF serves mem] by simp
  then show "s \<in> set (pending_status_rows S)"
    using j status_row_of[OF servesD(3)[OF serves] mem] by (auto simp: rows job_in[OF serves])
qed

lemma pending_status_keys_queued:
  assumes serves: "index_serves I spent S" and mem: "s \<in> set (sx_statuses S)"
  shows "search_status_key s \<in> pending_status_keys S \<longleftrightarrow> status_queued S s"
proof -
  have w: "length (jobs (statuses_index S)) \<le> pending_status_scan_limit"
    using servesD(4)[OF serves] by (simp add: within_windows_def)
  have "s' \<in> set (sx_statuses S)" if "s' \<in> set (pending_status_rows S)" for s'
    using that pending_status_rows_set[OF w] status_rowD by blast
  then show ?thesis
    using pending_status_rows_queued[OF serves mem] same_status_key[OF servesD(3)[OF serves] mem]
    by (auto simp: pending_status_keys_def)
qed

lemma pending_account_rows_queued:
  assumes serves: "index_serves I spent S" and a: "search_account_row S k = Some a"
  shows "a \<in> set (pending_account_rows S) \<longleftrightarrow> map_of (jobs (accounts_index S)) k \<noteq> None"
proof
  have w: "length (jobs (accounts_index S)) \<le> pending_account_scan_limit"
    using servesD(4)[OF serves] by (simp add: within_windows_def)
  note rows = pending_account_rows_set[OF w]
  have k: "search_account_key a = k"
    using a account_rowD by blast
  {
    assume "a \<in> set (pending_account_rows S)"
    then obtain k' j where "map_of (jobs (accounts_index S)) k' = Some j" "search_account_row S k' = Some a"
      by (auto simp: rows job_in[OF serves])
    moreover then have "k' = k"
      using k account_rowD by blast
    ultimately show "map_of (jobs (accounts_index S)) k \<noteq> None" by simp
  }
  assume "map_of (jobs (accounts_index S)) k \<noteq> None"
  then obtain j where j: "map_of (jobs (accounts_index S)) k = Some j" by blast
  then have "action j = JobUpsert" using queued_action(2)[OF serves] entry_of_author[OF serves a] by simp
  then show "a \<in> set (pending_account_rows S)"
    using j a by (auto simp: rows job_in[OF serves])
qed

lemma pending_account_keys_queued:
  assumes serves: "index_serves I spent S" and a: "search_account_row S k = Some a"
  shows "k \<in> pending_account_keys S \<longleftrightarrow> map_of (jobs (accounts_index S)) k \<noteq> None"
proof -
  have k: "search_account_key a = k"
    using a account_rowD by blast
  have w: "length (jobs (accounts_index S)) \<le> pending_account_scan_limit"
    using servesD(4)[OF serves] by (simp add: within_windows_def)
  have "a' = a" if "a' \<in> set (pending_account_rows S)" "search_account_key a' = k" for a'
  proof -
    from that(1) obtain k' where k': "search_account_row S k' = Some a'"
      unfolding pending_account_rows_set[OF w] by blast
    then have "k' = k" using account_rowD[OF k'] that(2) by simp
    then show ?thesis using k' a by simp
  qed
  then show ?thesis
    using pending_account_rows_queued[OF serves a] k unfolding pending_account_keys_def by blast
qed

lemma unqueued_index_ok:
  "side_inv F tok spent s \<Longrightarrow> completed s \<Longrightarrow> map_of (jobs s) k = None \<Longrightarrow> index_ok F tok s k"
proof -
  assume "side_inv F tok spent s" "completed s" "map_of (jobs s) k = None"
  moreover from this have "key_inv F tok spent s k" by (simp add: side_inv_def)
  ultimately show "index_ok F tok s k" by (simp add: key_inv_def backfilled_def)
qed

text \<open>What is not queued has the postings and the stored tokens of its present texts.\<close>

lemma unqueued_status:
  assumes serves: "index_serves I spent S" and mem: "s \<in> set (sx_statuses S)" and unq: "\<not> status_queued S s"
  shows "map_of (docs (statuses_index S)) (search_status_key s) =
      Some (tokens_of I (status_texts s), status_text_scope_version)"
    and "postings (statuses_index S) (search_status_key s) = Some (tokens_of I (status_texts s))"
proof -
  have "index_ok status_format (tokens_of I) (statuses_index S) (search_status_key s)"
    using unqueued_index_ok[OF sides(1)[OF serves]] unq servesD(5)[OF serves]
    by (simp add: status_queued_def backfill_complete_def)
  then show d: "map_of (docs (statuses_index S)) (search_status_key s) =
      Some (tokens_of I (status_texts s), status_text_scope_version)"
    using entry_of_status[OF serves mem] by (simp add: index_ok_def status_format_def)
  have "postings (statuses_index S) (search_status_key s) =
      Option.bind (map_of (docs (statuses_index S)) (search_status_key s)) (posting status_format)"
    using sides(1)[OF serves] by (simp add: side_inv_def tables_ok_def)
  then show "postings (statuses_index S) (search_status_key s) = Some (tokens_of I (status_texts s))"
    using d by (simp add: status_format_def)
qed

lemma unqueued_account:
  assumes serves: "index_serves I spent S" and mem: "search_account_row S k = Some a" and unq: "map_of (jobs (accounts_index S)) k = None"
  shows "map_of (docs (accounts_index S)) k = Some (tokens_of I (account_texts a))"
    and "postings (accounts_index S) k = Some (tokens_of I (account_texts a))"
proof -
  have "index_ok account_format (tokens_of I) (accounts_index S) k"
    using unqueued_index_ok[OF sides(2)[OF serves]] unq servesD(5)[OF serves]
    by (simp add: backfill_complete_def)
  then show d: "map_of (docs (accounts_index S)) k = Some (tokens_of I (account_texts a))"
    using entry_of_author[OF serves mem] by (simp add: index_ok_def account_format_def)
  have "postings (accounts_index S) k = Option.bind (map_of (docs (accounts_index S)) k) (posting account_format)"
    using sides(2)[OF serves] by (simp add: side_inv_def tables_ok_def)
  then show "postings (accounts_index S) k = Some (tokens_of I (account_texts a))"
    using d by (simp add: account_format_def)
qed

section \<open>Candidates\<close>

text \<open>The words of the index are in lower case, so folding changes none of them.\<close>

lemma encode_fts_token_lower:
  assumes "list_all scalar token"
  shows "to_ascii_lowercase (encode_fts_token token) = encode_fts_token token"
proof -
  have hex: "to_ascii_lower_char (hex_char n) = hex_char n" if "n < 16" for n
    using that by (auto simp: hex_char_def to_ascii_lower_char_def is_ascii_uppercase_def)
  have "to_ascii_lower_char c = c" if "b \<in> set (as_bytes token)" "c \<in> set (hex_byte b)" for b c
    using that as_bytes_byte[OF assms that(1)] hex[of "b div 16"] hex[of "b mod 16"]
    by (auto simp: hex_byte_def)
  moreover have "to_ascii_lower_char (chr CHR ''x'') = chr CHR ''x''"
    by (simp add: to_ascii_lower_char_def is_ascii_uppercase_def)
  ultimately show ?thesis
    by (auto simp: encode_fts_token_def to_ascii_lowercase_def intro!: map_idI)
qed

lemma fts5_index_text:
  assumes fts5: "fts5_prefix_query fts5" and I: "unicode_icu I" and e: "match_expression I term = Some e"
  shows "fts5 e (index_text I texts) \<longleftrightarrow> matches_fields I term texts"
proof -
  let ?ws = "map encode_fts_token (index_tokens I [term])"
  have tok: "list_all scalar w" if "w \<in> set (index_tokens I ts)" for w ts
    using tokenize_scalar[OF I] that by (auto simp: list_all_iff set_index_tokens)
  have words: "list_all (\<lambda>w. w \<noteq> [] \<and> list_all is_ascii_alphanumeric w) (map encode_fts_token (index_tokens I ts))"
    and lower: "\<forall>w \<in> set (map encode_fts_token (index_tokens I ts)). to_ascii_lowercase w = w" for ts
    using encode_fts_token_word[OF tok[of _ ts]] encode_fts_token_lower[OF tok[of _ ts]]
    by (auto simp: list_all_iff)
  have indexed: "list_all (list_all is_ascii_alphanumeric) (split_whitespace (index_text I texts))"
    "\<forall>w \<in> set (split_whitespace (index_text I texts)). to_ascii_lowercase w = w"
    using words[of texts] lower[of texts] unfolding split_index_text[OF I] by (simp_all add: list_all_iff)
  have same: "starts_with (to_ascii_lowercase i) (to_ascii_lowercase w) = starts_with i w"
    if "w \<in> set ?ws" "i \<in> set (split_whitespace (index_text I texts))" for w i
    by (simp only: bspec[OF lower that(1)] bspec[OF indexed(2) that(2)])
  have "match_phrase = quoted_prefix \<circ> encode_fts_token"
    by (simp add: fun_eq_iff match_phrase_def quoted_prefix_def)
  then have ws: "e = join (str '' AND '') (map quoted_prefix ?ws)" "?ws \<noteq> []"
    using e by (auto simp: match_expression_def Let_def index_tokens_def split: if_splits)
  have "fts5 e (index_text I texts) \<longleftrightarrow>
      (\<forall>w \<in> set ?ws. \<exists>indexed \<in> set (split_whitespace (index_text I texts)).
        starts_with (to_ascii_lowercase indexed) (to_ascii_lowercase w))"
    unfolding ws(1) using fts5[unfolded fts5_prefix_query_def, rule_format, OF ws(2) words indexed(1)] .
  also have "\<dots> \<longleftrightarrow>
      (\<forall>w \<in> set ?ws. \<exists>indexed \<in> set (split_whitespace (index_text I texts)). starts_with indexed w)"
    using same by blast
  also have "\<dots> \<longleftrightarrow> matches_index_text (index_text I [term]) [index_text I texts]"
    using \<open>?ws \<noteq> []\<close> by (simp add: matches_index_text_def split_index_text[OF I])
  also have "\<dots> \<longleftrightarrow> matches_fields I term texts"
    using indexed_match[OF I, of "term" "[texts]"] by simp
  finally show ?thesis .
qed

lemma set_take_filter:
  assumes "length xs \<le> n"
  shows "set (take n (filter P xs)) = {x \<in> set xs. P x}"
proof -
  have "length (filter P xs) \<le> n" using length_filter_le[of P xs] assms by linarith
  then show ?thesis by simp
qed

lemma indexed_status_candidate_iff:
  assumes serves: "index_serves I spent S" and mem: "s \<in> set (sx_statuses S)"
    and fts5: "fts5_prefix_query fts5" and e: "match_expression I term = Some e"
  shows "search_status_key s \<in> set (indexed_status_candidate fts5 S e) \<longleftrightarrow>
    \<not> status_queued S s \<and> icu_match_status I term s"
proof -
  have "length (map fst (docs (statuses_index S))) \<le> candidate_count_cap"
    using servesD(4)[OF serves] by (simp add: within_windows_def)
  note members = set_take_filter[OF this]
  show ?thesis
  proof (cases "status_queued S s")
    case True
    then show ?thesis
      using pending_status_keys_queued[OF serves mem] by (simp add: indexed_status_candidate_def members)
  next
    case False
    note u = unqueued_status[OF serves mem False]
    have "search_status_key s \<in> fst ` set (docs (statuses_index S))"
      using map_of_SomeD[OF u(1)] by (metis fst_conv image_eqI)
    then show ?thesis
      using False u pending_status_keys_queued[OF serves mem]
        fts5_index_text[OF fts5 servesD(1)[OF serves] e]
      by (simp add: indexed_status_candidate_def members tokens_of_def status_texts_def icu_match_status_def)
  qed
qed

lemma statuses_by_iff:
  assumes serves: "index_serves I spent S" and mem: "s \<in> set (sx_statuses S)"
  shows "search_status_key s \<in> set (statuses_by S A) \<longleftrightarrow> search_author_key s \<in> A"
proof -
  have "length (sx_statuses S) \<le> candidate_count_cap"
    using servesD(4)[OF serves] by (simp add: within_windows_def)
  then have "set (statuses_by S A) = search_status_key ` {s \<in> set (sx_statuses S). search_author_key s \<in> A}"
    by (simp add: statuses_by_def take_map set_take_filter)
  then show ?thesis
    using mem same_status_key[OF servesD(3)[OF serves] mem] by auto
qed

lemma indexed_account_candidate_iff:
  assumes serves: "index_serves I spent S" and mem: "s \<in> set (sx_statuses S)"
    and fts5: "fts5_prefix_query fts5" and e: "match_expression I term = Some e"
    and a: "search_account_row S (search_author_key s) = Some a"
  shows "search_status_key s \<in> set (indexed_account_candidate fts5 S e) \<longleftrightarrow>
    \<not> author_queued S s \<and> icu_match_account I term a"
proof -
  have "length (map fst (docs (accounts_index S))) \<le> candidate_count_cap"
    using servesD(4)[OF serves] by (simp add: within_windows_def)
  note members = set_take_filter[OF this]
  have "search_author_key s \<in> set (indexed_account_keys fts5 S e) \<longleftrightarrow>
      \<not> author_queued S s \<and> icu_match_account I term a"
  proof (cases "author_queued S s")
    case True
    then show ?thesis
      using pending_account_keys_queued[OF serves a]
      by (simp add: indexed_account_keys_def members author_queued_def)
  next
    case False
    then have q: "map_of (jobs (accounts_index S)) (search_author_key s) = None"
      by (simp add: author_queued_def)
    note u = unqueued_account[OF serves a q]
    have "search_author_key s \<in> fst ` set (docs (accounts_index S))"
      using map_of_SomeD[OF u(1)] by (metis fst_conv image_eqI)
    then show ?thesis
      using False q u pending_account_keys_queued[OF serves a]
        fts5_index_text[OF fts5 servesD(1)[OF serves] e]
      by (simp add: indexed_account_keys_def members tokens_of_def account_texts_def icu_match_account_def)
  qed
  then show ?thesis
    by (simp add: indexed_account_candidate_def statuses_by_iff[OF serves mem])
qed

lemma pending_status_candidate_iff:
  assumes serves: "index_serves I spent S" and mem: "s \<in> set (sx_statuses S)"
  shows "search_status_key s \<in> set (pending_status_candidate I S term) \<longleftrightarrow>
    status_queued S s \<and> icu_match_status I term s"
proof -
  have w: "length (jobs (statuses_index S)) \<le> pending_status_scan_limit"
    using servesD(4)[OF serves] by (simp add: within_windows_def)
  have "s' = s" if "s' \<in> set (pending_status_rows S)" "search_status_key s' = search_status_key s" for s'
  proof -
    from that(1) obtain k where "search_status_row S k = Some s'"
      unfolding pending_status_rows_set[OF w] by blast
    then have "s' \<in> set (sx_statuses S)" using status_rowD by simp
    then show ?thesis using same_status_key[OF servesD(3)[OF serves]] that(2) mem by simp
  qed
  then have "search_status_key s \<in> set (pending_status_candidate I S term) \<longleftrightarrow>
      s \<in> set (pending_status_rows S) \<and> icu_match_status I term s"
    by (auto simp: pending_status_candidate_def)
  then show ?thesis using pending_status_rows_queued[OF serves mem] by simp
qed

lemma pending_account_candidate_iff:
  assumes serves: "index_serves I spent S" and mem: "s \<in> set (sx_statuses S)"
    and a: "search_account_row S (search_author_key s) = Some a"
  shows "search_status_key s \<in> set (pending_account_candidate I S term) \<longleftrightarrow>
    author_queued S s \<and> icu_match_account I term a"
proof -
  have w: "length (jobs (accounts_index S)) \<le> pending_account_scan_limit"
    using servesD(4)[OF serves] by (simp add: within_windows_def)
  have k: "search_account_key a = search_author_key s" using account_rowD[OF a] by simp
  have "a' = a" if "a' \<in> set (pending_account_rows S)" "search_account_key a' = search_author_key s" for a'
  proof -
    from that(1) obtain k' where k': "search_account_row S k' = Some a'"
      unfolding pending_account_rows_set[OF w] by blast
    then have "k' = search_author_key s" using account_rowD[OF k'] that(2) by simp
    then show ?thesis using k' a by simp
  qed
  then have "search_author_key s \<in> search_account_key ` set (filter (icu_match_account I term) (pending_account_rows S))
      \<longleftrightarrow> a \<in> set (pending_account_rows S) \<and> icu_match_account I term a" (is "?key \<in> ?f ` ?A \<longleftrightarrow> ?R")
  proof (intro iffI)
    assume one: "\<And>a'. a' \<in> set (pending_account_rows S) \<Longrightarrow> search_account_key a' = ?key \<Longrightarrow> a' = a"
    assume "?key \<in> ?f ` ?A"
    then obtain a' where "a' \<in> ?A" "?f a' = ?key" by (metis imageE)
    then show ?R using one[of a'] by simp
  next
    assume ?R
    then have "a \<in> ?A" by simp
    then show "?key \<in> ?f ` ?A" using k by (metis imageI)
  qed
  then show ?thesis
    using pending_account_rows_queued[OF serves a]
    by (simp add: pending_account_candidate_def statuses_by_iff[OF serves mem] author_queued_def)
qed

lemma recent_index_candidate_iff:
  assumes serves: "index_serves I spent S" and mem: "s \<in> set (sx_statuses S)"
    and a: "search_account_row S (search_author_key s) = Some a"
  shows "search_status_key s \<in> set (recent_index_candidate S (index_text I [term])) \<longleftrightarrow>
    \<not> status_queued S s \<and> \<not> author_queued S s \<and>
    matches_fields I term [st_content s, st_spoiler_text s, ac_acct a, ac_display_name a]"
proof -
  have "length (sx_statuses S) \<le> recent_index_scan_limit"
    using servesD(4)[OF serves]
    by (simp add: within_windows_def candidate_count_cap_def recent_index_scan_limit_def)
  then have window: "take recent_index_scan_limit (newest_first (sx_statuses S)) = newest_first (sx_statuses S)"
    by simp
  let ?m = "\<lambda>s. matches_index_text (index_text I [term])
      [status_token_text S (search_status_key s), account_token_text S (search_author_key s)] \<and>
    search_status_key s \<notin> pending_status_keys S \<and> search_author_key s \<notin> pending_account_keys S"
  have "set (recent_index_candidate S (index_text I [term])) =
      search_status_key ` {s \<in> set (sx_statuses S). ?m s}"
    by (auto simp: recent_index_candidate_def recent_index_rows_def window intro: rev_image_eqI)
  then have "search_status_key s \<in> set (recent_index_candidate S (index_text I [term])) \<longleftrightarrow> ?m s"
    using mem same_status_key[OF servesD(3)[OF serves] mem] by auto
  moreover have "search_author_key s \<in> pending_account_keys S \<longleftrightarrow> author_queued S s"
    using pending_account_keys_queued[OF serves a] by (simp add: author_queued_def)
  moreover have "matches_index_text (index_text I [term])
      [status_token_text S (search_status_key s), account_token_text S (search_author_key s)] \<longleftrightarrow>
      matches_fields I term [st_content s, st_spoiler_text s, ac_acct a, ac_display_name a]"
    if "\<not> status_queued S s" "\<not> author_queued S s"
  proof -
    have "map_of (jobs (accounts_index S)) (search_author_key s) = None"
      using that(2) by (simp add: author_queued_def)
    then have "status_token_text S (search_status_key s) = index_text I [st_content s, st_spoiler_text s]"
      "account_token_text S (search_author_key s) = index_text I [ac_acct a, ac_display_name a]"
      using unqueued_status(1)[OF serves mem that(1)] unqueued_account(1)[OF serves a]
      by (simp_all add: status_token_text_def account_token_text_def tokens_of_def status_texts_def
          account_texts_def)
    then show ?thesis
      using indexed_match[OF servesD(1)[OF serves], of "term"
          "[[st_content s, st_spoiler_text s], [ac_acct a, ac_display_name a]]"] by simp
  qed
  ultimately show ?thesis using pending_status_keys_queued[OF serves mem] by blast
qed

section \<open>The answer\<close>

text \<open>The terms for which the branches agree on what a match is: those of one segment.\<close>

lemma single_segment_match:
  assumes "\<not> requires_contiguous_match I term"
  shows "matches_fields I term (xs @ ys) \<longleftrightarrow> matches_fields I term xs \<or> matches_fields I term ys"
proof -
  have "length (tokenize_with_segmenter I term) \<le> 1"
    using assms by (simp add: requires_contiguous_match_def)
  then consider "tokenize_with_segmenter I term = []" | t where "tokenize_with_segmenter I term = [t]"
    by (cases "tokenize_with_segmenter I term") auto
  then show ?thesis by cases (auto simp: matches_fields_def Let_def)
qed

definition indexed_term_of :: "icu \<Rightarrow> rstr \<Rightarrow> rstr \<Rightarrow> indexed_term" where
  "indexed_term_of I term e =
     \<lparr>match_query = e, query_token_text = index_text I [term], search_term = term,
      contiguous = requires_contiguous_match I term\<rparr>"

text \<open>The candidates of a term, between the statuses that match in their own texts or in their
  author's names, and those that match in the two together.\<close>

lemma search_candidate_bounds:
  assumes serves: "index_serves I spent S" and mem: "s \<in> set (sx_statuses S)"
    and fts5: "fts5_prefix_query fts5" and e: "match_expression I term = Some e"
    and a: "search_account_row S (search_author_key s) = Some a"
  defines "text_match \<equiv> icu_match_status I term s \<or> icu_match_account I term a"
    and "joint_match \<equiv>
      matches_fields I term [st_content s, st_spoiler_text s, ac_acct a, ac_display_name a]"
    and "in_one_text \<equiv> requires_contiguous_match I term \<longrightarrow> icu_contains I term s (Some a)"
  shows "text_match \<and> in_one_text \<Longrightarrow>
      search_status_key s \<in> set (search_candidate I fts5 S (indexed_term_of I term e))"
    and "search_status_key s \<in> set (search_candidate I fts5 S (indexed_term_of I term e)) \<Longrightarrow>
      (text_match \<or> joint_match) \<and> in_one_text"
proof -
  let ?t = "indexed_term_of I term e"
  note branches = indexed_status_candidate_iff[OF serves mem fts5 e]
    indexed_account_candidate_iff[OF serves mem fts5 e a] pending_status_candidate_iff[OF serves mem]
    pending_account_candidate_iff[OF serves mem a] recent_index_candidate_iff[OF serves mem a]
  have done_flags: "completed (statuses_index S)" "completed (accounts_index S)"
    using servesD(5)[OF serves] by (simp_all add: backfill_complete_def)
  let ?combined = "indexed_status_candidate fts5 S e @ indexed_account_candidate fts5 S e @
    pending_status_candidate I S term @ pending_account_candidate I S term @
    recent_index_candidate S (index_text I [term]) @ unindexed_status_candidate I S term @
    unindexed_account_candidate I S term"
  have union: "search_status_key s \<in> set ?combined \<longleftrightarrow> text_match \<or>
      (\<not> status_queued S s \<and> \<not> author_queued S s \<and> joint_match)"
    by (auto simp: branches unindexed_status_candidate_def unindexed_account_candidate_def done_flags
        text_match_def joint_match_def)
  let ?P = "\<lambda>s. search_status_key s \<in> set ?combined \<and>
      (requires_contiguous_match I term \<longrightarrow>
        icu_contains I term s (search_account_row S (search_author_key s)))"
  have "length (filter ?P (sx_statuses S)) \<le> candidate_count_cap"
    by (rule le_trans[OF length_filter_le]) (use servesD(4)[OF serves] in \<open>simp add: within_windows_def\<close>)
  then have "set (search_candidate I fts5 S ?t) = search_status_key ` {s \<in> set (sx_statuses S). ?P s}"
    by (simp add: search_candidate_def indexed_term_of_def Let_def)
  then have "search_status_key s \<in> set (search_candidate I fts5 S ?t) \<longleftrightarrow> ?P s"
    using mem same_status_key[OF servesD(3)[OF serves] mem] by auto
  then have final: "search_status_key s \<in> set (search_candidate I fts5 S ?t) \<longleftrightarrow>
      (text_match \<or> (\<not> status_queued S s \<and> \<not> author_queued S s \<and> joint_match)) \<and> in_one_text"
    unfolding union a in_one_text_def by simp
  then show "text_match \<and> in_one_text \<Longrightarrow> search_status_key s \<in> set (search_candidate I fts5 S ?t)"
    "search_status_key s \<in> set (search_candidate I fts5 S ?t) \<Longrightarrow> (text_match \<or> joint_match) \<and> in_one_text"
    by blast+
qed

lemma search_candidate_single:
  assumes serves: "index_serves I spent S" and mem: "s \<in> set (sx_statuses S)"
    and fts5: "fts5_prefix_query fts5" and e: "match_expression I term = Some e"
    and single: "\<not> requires_contiguous_match I term"
  shows "search_status_key s \<in> set (search_candidate I fts5 S (indexed_term_of I term e)) \<longleftrightarrow>
    term_matches I S term s"
proof -
  obtain a where a: "search_account_row S (search_author_key s) = Some a"
    using author_row_of[OF servesD(3)[OF serves] mem] by blast
  show ?thesis
    using search_candidate_bounds[OF serves mem fts5 e a] single
      single_segment_match[OF single, of "[st_content s, st_spoiler_text s]" "[ac_acct a, ac_display_name a]"]
    by (auto simp: term_matches_def a icu_match_status_def icu_match_account_def)
qed

text \<open>Terms with one expression are kept once; for terms of one segment that loses nothing.\<close>

lemma candidate_terms_Some:
  "candidate_terms I seen terms = Some cs \<Longrightarrow>
   (\<forall>c \<in> set cs. \<exists>t \<in> set terms. \<exists>e. match_expression I t = Some e \<and> c = indexed_term_of I t e) \<and>
   (\<forall>t \<in> set terms. \<exists>e. match_expression I t = Some e \<and>
      (e \<in> set seen \<or> (\<exists>t' \<in> set terms. match_expression I t' = Some e \<and> indexed_term_of I t' e \<in> set cs)))"
proof (induction I seen terms arbitrary: cs rule: candidate_terms.induct)
  case (2 I seen t ts)
  from "2.prems" obtain e where e: "match_expression I t = Some e" by (auto split: option.splits)
  show ?case
  proof (cases "e \<in> set seen")
    case True
    then have "candidate_terms I seen ts = Some cs" using "2.prems" e by simp
    note IH = "2.IH"(1)[OF e True this]
    show ?thesis using IH e True by (auto, blast+)
  next
    case False
    then obtain cs' where cs': "candidate_terms I (e # seen) ts = Some cs'"
        "cs = indexed_term_of I t e # cs'"
      using "2.prems" e by (auto simp: indexed_term_of_def)
    note IH = "2.IH"(2)[OF e False cs'(1)]
    have "\<exists>e'. match_expression I u = Some e' \<and>
        (e' \<in> set seen \<or> (\<exists>t' \<in> set (t # ts). match_expression I t' = Some e' \<and> indexed_term_of I t' e' \<in> set cs))"
      if member: "u \<in> set (t # ts)" for u
    proof (cases "u = t")
      case True
      then show ?thesis using e cs'(2) by auto
    next
      case False
      then have "u \<in> set ts" using member by simp
      then obtain e' where "match_expression I u = Some e'"
        "e' \<in> set (e # seen) \<or> (\<exists>t' \<in> set ts. match_expression I t' = Some e' \<and> indexed_term_of I t' e' \<in> set cs')"
        using IH by (metis)
      then show ?thesis using e cs'(2) by auto
    qed
    then show ?thesis using IH e cs'(2) by auto
  qed
qed simp

lemma candidate_terms_None:
  "candidate_terms I seen terms = None \<Longrightarrow> \<exists>t \<in> set terms. match_expression I t = None"
  by (induction I seen terms rule: candidate_terms.induct) (auto split: option.splits if_splits)

lemma no_expression_no_match:
  assumes "match_expression I t = None"
  shows "\<not> term_matches I S t s"
proof -
  have "index_tokens I [t] = []"
    using assms by (simp add: match_expression_def index_tokens_def Let_def split: if_splits)
  then have "tokenize_with_segmenter I t = []"
    using set_index_tokens[of I "[t]"] by simp
  then show ?thesis
    by (auto simp: term_matches_def icu_match_status_def icu_match_account_def matches_fields_def
        split: option.splits)
qed

lemma encode_inject:
  assumes "list_all scalar a" "list_all scalar b" "encode_fts_token a = encode_fts_token b"
  shows "a = b"
proof -
  have "starts_with a b" "starts_with b a"
    using encode_fts_token_prefix[OF assms(1,2)] encode_fts_token_prefix[OF assms(2,1)] assms(3)
    by (auto simp: starts_with_iff)
  then show ?thesis by (auto simp: starts_with_iff)
qed

lemma single_same_expression:
  assumes I: "unicode_icu I" and e: "match_expression I t = Some e" "match_expression I u = Some e"
    and single: "\<not> requires_contiguous_match I t" "\<not> requires_contiguous_match I u"
  shows "term_matches I S t s \<longleftrightarrow> term_matches I S u s"
proof -
  have one: "\<exists>w. tokenize_with_segmenter I x = [w] \<and> e = match_phrase w"
    if "match_expression I x = Some e" "\<not> requires_contiguous_match I x" for x
    using that by (cases "tokenize_with_segmenter I x")
      (auto simp: match_expression_def requires_contiguous_match_def Let_def split: if_splits)
  obtain v w where v: "tokenize_with_segmenter I t = [v]" "tokenize_with_segmenter I u = [w]"
      "match_phrase v = match_phrase w"
    using one[OF e(1) single(1)] one[OF e(2) single(2)] by auto
  have "list_all scalar v" "list_all scalar w"
    using tokenize_scalar[OF I, of t] tokenize_scalar[OF I, of u] v by simp_all
  then have "v = w" using v(3) encode_inject by (simp add: match_phrase_def)
  then have "matches_fields I t = matches_fields I u" using v by (simp add: fun_eq_iff matches_fields_def)
  then show ?thesis
    using single by (simp add: term_matches_def icu_match_status_def icu_match_account_def
        split: option.split)
qed

lemma query_answers_spec:
  assumes serves: "index_serves I spent S" and fts5: "fts5_prefix_query fts5"
    and terms: "length (normalize_terms (sq_query q)) \<le> max_search_terms"
    and single: "\<forall>t \<in> set (normalize_terms (sq_query q)). \<not> requires_contiguous_match I t"
  shows "query_statuses_on_connection I fts5 S q = Inr (search_spec I S q)"
proof (cases "candidate_terms I [] (normalize_terms (sq_query q))")
  case None
  then obtain t where t: "t \<in> set (normalize_terms (sq_query q))" "match_expression I t = None"
    using candidate_terms_None by blast
  then have "filter (\<lambda>s. (\<forall>t \<in> set (normalize_terms (sq_query q)). term_matches I S t s) \<and> R s)
      (sx_statuses S) = []" for R
    unfolding filter_empty_conv using no_expression_no_match by blast
  moreover have "newest_first [] = []" by (simp add: newest_first_def)
  ultimately have "search_spec I S q = []" by (simp add: search_spec_def Let_def)
  then show ?thesis
    using terms None t(1) by (auto simp: query_statuses_on_connection_def Let_def)
next
  case (Some cs)
  let ?terms = "normalize_terms (sq_query q)"
  note cs = candidate_terms_Some[OF Some]
  have match: "(\<forall>c \<in> set cs. search_status_key s \<in> set (search_candidate I fts5 S c)) \<longleftrightarrow>
      (\<forall>t \<in> set ?terms. term_matches I S t s)" if mem: "s \<in> set (sx_statuses S)" for s
  proof
    assume all: "\<forall>c \<in> set cs. search_status_key s \<in> set (search_candidate I fts5 S c)"
    show "\<forall>t \<in> set ?terms. term_matches I S t s"
    proof
      fix t assume t: "t \<in> set ?terms"
      then obtain e t' where e: "match_expression I t = Some e" "t' \<in> set ?terms"
          "match_expression I t' = Some e" "indexed_term_of I t' e \<in> set cs"
        using cs by fastforce
      then have "term_matches I S t' s"
        using all search_candidate_single[OF serves mem fts5 e(3)] single by blast
      then show "term_matches I S t s"
        using single_same_expression[OF servesD(1)[OF serves] e(1,3)] single t e(2) by blast
    qed
  next
    assume all: "\<forall>t \<in> set ?terms. term_matches I S t s"
    show "\<forall>c \<in> set cs. search_status_key s \<in> set (search_candidate I fts5 S c)"
    proof
      fix c assume "c \<in> set cs"
      then obtain t e where "t \<in> set ?terms" "match_expression I t = Some e" "c = indexed_term_of I t e"
        using cs by blast
      then show "search_status_key s \<in> set (search_candidate I fts5 S c)"
        using all search_candidate_single[OF serves mem fts5] single by blast
    qed
  qed
  have "filter (\<lambda>s. (\<forall>c \<in> set cs. search_status_key s \<in> set (search_candidate I fts5 S c)) \<and> R s) (sx_statuses S) =
      filter (\<lambda>s. (\<forall>t \<in> set ?terms. term_matches I S t s) \<and> R s) (sx_statuses S)" for R
    using match by (intro filter_cong) auto
  then show ?thesis
    using terms Some by (simp add: query_statuses_on_connection_def search_spec_def Let_def)
qed

end
