(* ===== verification/SearchClaims.thy ===== *)
theory SearchClaims
imports SearchResults KqContext
begin

text \<open>
  The properties of the search, and concrete runs. The concrete segmenter breaks a text wherever a
  char that is not an ASCII letter or digit stands on either side; the concrete FTS5 reads the quoted
  words of the expression back.
\<close>

section \<open>A concrete segmenter and full-text engine\<close>

fun plain_breaks :: "nat \<Rightarrow> rstr \<Rightarrow> nat list" where
  "plain_breaks p [] = []"
| "plain_breaks p [c] = [p + len_utf8 c]"
| "plain_breaks p (c # d # cs) =
     (if is_ascii_alphanumeric c \<and> is_ascii_alphanumeric d then plain_breaks (p + len_utf8 c) (d # cs)
      else (p + len_utf8 c) # plain_breaks (p + len_utf8 c) (d # cs))"

definition plain_icu :: icu where
  "plain_icu = \<lparr>nfkc = filter scalar, fold_string = to_ascii_lowercase,
     word_breaks = (\<lambda>s. if s = [] then [] else 0 # plain_breaks 0 s)\<rparr>"

lemma unicode_plain_icu: "unicode_icu plain_icu"
  by (simp add: unicode_icu_def plain_icu_def list_all_iff)

fun quoted_words :: "bool \<Rightarrow> rstr \<Rightarrow> rstr \<Rightarrow> rstr list" where
  "quoted_words inside acc [] = []"
| "quoted_words inside acc (c # cs) =
     (if c = 34 then (if inside then rev acc # quoted_words False [] cs else quoted_words True [] cs)
      else quoted_words inside (if inside then c # acc else acc) cs)"

definition plain_fts5 :: "rstr \<Rightarrow> rstr \<Rightarrow> bool" where
  "plain_fts5 expression doc \<longleftrightarrow>
     (\<forall>w \<in> set (quoted_words False [] expression).
        \<exists>indexed \<in> set (split_whitespace doc).
          starts_with (to_ascii_lowercase indexed) (to_ascii_lowercase w))"

lemma quoted_words_word:
  "34 \<notin> set w \<Longrightarrow> quoted_words True acc (w @ 34 # rest) = (rev acc @ w) # quoted_words False [] rest"
  by (induction w arbitrary: acc) auto

lemma quoted_words_between: "34 \<notin> set w \<Longrightarrow> quoted_words False [] (w @ rest) = quoted_words False [] rest"
  by (induction w) auto

lemma quoted_words_join:
  "\<forall>w \<in> set ws. 34 \<notin> set w \<Longrightarrow>
   quoted_words False [] (join (str '' AND '') (map quoted_prefix ws)) = ws"
proof (induction ws)
  case (Cons w ws)
  have one: "quoted_words False [] (quoted_prefix w @ rest) = w # quoted_words False [] rest" for rest
    using Cons.prems quoted_words_word[of w "[]" "42 # rest"] by (simp add: quoted_prefix_def)
  show ?case
  proof (cases ws)
    case Nil
    then show ?thesis using one[of "[]"] by simp
  next
    case (Cons v vs)
    have "34 \<notin> set (str '' AND '')" by simp
    note skip = quoted_words_between[OF this]
    have "join (str '' AND '') (map quoted_prefix (w # ws)) =
        quoted_prefix w @ str '' AND '' @ join (str '' AND '') (map quoted_prefix ws)"
      unfolding Cons by (simp only: list.map join.simps)
    then show ?thesis
      using Cons.IH Cons.prems by (simp only: one skip) simp
  qed
qed simp

lemma fts5_plain: "fts5_prefix_query plain_fts5"
proof -
  have "34 \<notin> set w" if "list_all is_ascii_alphanumeric w" for w
    using that by (auto simp: list_all_iff ascii_class_defs)
  then have "quoted_words False [] (join (str '' AND '') (map quoted_prefix ws)) = ws"
    if "list_all (\<lambda>w. w \<noteq> [] \<and> list_all is_ascii_alphanumeric w) ws" for ws
    using that quoted_words_join by (simp add: list_all_iff)
  then show ?thesis unfolding fts5_prefix_query_def plain_fts5_def by simp
qed

section \<open>Tokens\<close>

text \<open>A search term matches the stored token streams of some texts exactly when it matches the
  texts themselves: the hexadecimal encoding and the removal of repeated tokens neither lose a prefix
  match nor invent one, so the branches of the search that read the index and those that read rows not
  yet indexed give the same answers.\<close>

theorem index_answers_as_texts:
  assumes "unicode_icu I"
  shows "matches_index_text (index_text I [search]) (map (index_text I) groups) \<longleftrightarrow>
    matches_fields I search (concat groups)"
  using assms by (rule indexed_match)

theorem index_answers_as_texts_witness:
  "matches_index_text (index_text plain_icu [str ''Wor'']) (map (index_text plain_icu) [[str ''hello''], [str ''big world'']]) \<longleftrightarrow>
    matches_fields plain_icu (str ''Wor'') (concat [[str ''hello''], [str ''big world'']])"
  by (rule index_answers_as_texts[OF unicode_plain_icu])

section \<open>Runs of the index\<close>


text \<open>C12: After any such run the index is exact as soon as it is drained (both queues empty, both
  backfills complete): every row has the postings of its present texts, no other key has any, and the
  triggers never deleted a posting under a text other than the one they had inserted.\<close>

theorem drained_index_exact:
  assumes "search_start I old sys" "old \<inter> set (run_generations evs) = {}" "distinct (run_generations evs)"
    and "index_drained (database (search_run I evs sys))"
  shows "index_exact I (database (search_run I evs sys))"
  using run_db_inv[OF assms(1-3)] assms(4) by (rule drained_exact)

text \<open>C13: From every state that a run can reach, a worker that is left alone drains the index: after as
  many turns as there are queued keys and rows below the two cursors, and two for closing the
  backfills, the index is drained and exact, and the rows are those it started with.\<close>

theorem index_worker_drains:
  fixes I :: icu
  assumes "search_start I old sys" "old \<inter> set (run_generations evs) = {}" "distinct (run_generations evs)"
  defines "db \<equiv> database (search_run I evs sys)"
  shows "index_drained (run_turns I (work_left db) db) \<and> index_exact I (run_turns I (work_left db) db) \<and>
    entries (status_side (run_turns I (work_left db) db)) = entries (status_side db) \<and>
    entries (account_side (run_turns I (work_left db) db)) = entries (account_side db)"
  using run_turns_drain[OF run_db_inv[OF assms(1-3), folded db_def] order_refl] drained_exact
  by blast

section \<open>Answers\<close>

text \<open>C10: A search that is neither cancelled nor interrupted, over a cache within the windows of the
  statement, after any run of the index that has completed the backfills, answers as a scan of all
  cached statuses that judges each by its texts and its author's names, newest first, after the
  display filter, the cursor, the offset and the limit: rows whose index entries are still queued
  included. The query is within the limits on its bytes and terms, and its terms are of one segment
  each; terms of several segments are bounded on both sides by \<open>search_candidate_bounds\<close>.\<close>

theorem search_answers_scan:
  assumes "unicode_icu I" "fts5_prefix_query fts5"
    and "search_start I old sys" "old \<inter> set (run_generations evs) = {}" "distinct (run_generations evs)" "sx_index S = database (search_run I evs sys)"
    and "search_store_linked S" "within_windows S" "backfill_complete S"
    and "byte_len (sq_query q) \<le> max_search_bytes" "length (normalize_terms (sq_query q)) \<le> max_search_terms"
    and "\<forall>t \<in> set (normalize_terms (sq_query q)). \<not> requires_contiguous_match I t"
  shows "query_statuses_with_cancellation I fts5 False None S q = Inr (search_spec I S q)"
proof -
  have serves: "index_serves I (old \<union> set (run_generations evs)) S"
    using assms run_db_inv[OF assms(3-5)] by (simp add: index_serves_def)
  show ?thesis
  proof (cases "split_whitespace (sq_query q) = []")
    case True
    then show ?thesis
      using assms(10) by (simp add: query_statuses_with_cancellation_def search_spec_def normalize_terms_def Let_def)
  next
    case False
    then show ?thesis
      using assms(10) query_answers_spec[OF serves assms(2,11,12)]
      by (simp add: query_statuses_with_cancellation_def)
  qed
qed

section \<open>A concrete run\<close>

text \<open>An account and two statuses arrive, two workers load the queue, one commits, a status is edited,
  and the other worker commits its stale batch. The edited status and the account stay queued.\<close>

definition empty_side :: "'d side" where
  "empty_side = \<lparr>entries = [], jobs = [], docs = [], postings = (\<lambda>_. None), postings_ok = True,
     cursor = None, processed = 0, total = 0, completed = True, counter = 0, merge_debt = False\<rparr>"

definition empty_system :: search_system where
  "empty_system =
     \<lparr>database = \<lparr>status_side = empty_side, account_side = empty_side, updates_enabled = True\<rparr>,
      workers = (\<lambda>_. AtStart)\<rparr>"

definition demo_key :: "string \<Rightarrow> key" where
  "demo_key i = (str i, str ''s'')"

definition demo_events :: "search_event list" where
  "demo_events =
     [AccountChange (InsertRow (demo_key ''a'') (str ''ann'', str ''Ann'') 1 1),
      StatusChange (InsertRow (demo_key ''p1'') (str ''hello world'', []) 2 2),
      StatusChange (InsertRow (demo_key ''p2'') (str ''good bye'', []) 3 3),
      WorkerStep 0, WorkerStep 1, WorkerStep 0,
      StatusChange (UpdateRow (demo_key ''p2'') (str ''Hello again'', []) 4 4),
      WorkerStep 1, WorkerAbandon 0]"

lemma demo_hypotheses:
  "search_start I {} empty_system" "{} \<inter> set (run_generations demo_events) = {}"
  "distinct (run_generations demo_events)"
proof -
  show "search_start I {} empty_system"
    by (simp add: search_start_def empty_system_def empty_side_def migrated_side_def kept_side_def)
  show "{} \<inter> set (run_generations demo_events) = {}" by simp
  show "distinct (run_generations demo_events)"
    by (simp add: run_generations_def demo_events_def)
qed


theorem index_worker_drains_witness:
  "work_left (database (search_run plain_icu demo_events empty_system)) = 2 \<and>
   index_exact plain_icu (run_turns plain_icu
     (work_left (database (search_run plain_icu demo_events empty_system)))
     (database (search_run plain_icu demo_events empty_system)))"
proof
  show "work_left (database (search_run plain_icu demo_events empty_system)) = 2" by code_simp
qed (use index_worker_drains[OF demo_hypotheses] in blast)

definition drained_events :: "search_event list" where
  "drained_events = demo_events @ replicate 5 (WorkerStep 0)"

theorem drained_index_exact_witness:
  "index_exact plain_icu (database (search_run plain_icu drained_events empty_system))"
proof (rule drained_index_exact[OF demo_hypotheses(1)])
  show "{} \<inter> set (run_generations drained_events) = {}" by simp
  show "distinct (run_generations drained_events)"
    by (simp add: run_generations_def drained_events_def demo_events_def numeral_eq_Suc)
  show "index_drained (database (search_run plain_icu drained_events empty_system))" by code_simp
qed

section \<open>Concrete searches\<close>

definition demo_account :: db_account where
  "demo_account = \<lparr>ac_id = str ''a'', ac_server_domain = str ''s'', ac_username = str ''ann'',
     ac_acct = str ''ann'', ac_display_name = str ''Ann'', ac_note = [], ac_avatar = [],
     ac_avatar_static = [], ac_header = [], ac_locked = False, ac_bot = False, ac_followers_count = 0,
     ac_following_count = 0, ac_statuses_count = 0, ac_created_at = [], ac_fetched_at = [],
     ac_fields_json = None, ac_emojis_json = None\<rparr>"

definition demo_status :: "string \<Rightarrow> string \<Rightarrow> db_status" where
  "demo_status i content = sample_status\<lparr>st_id := str i, st_server_domain := str ''s'',
     st_account_id := str ''a'', st_created_at := str i, st_content := str content,
     st_spoiler_text := []\<rparr>"

definition demo_store :: search_store where
  "demo_store = \<lparr>sx_index = database (search_run plain_icu demo_events empty_system),
     sx_statuses = [demo_status ''p1'' ''hello world'', demo_status ''p2'' ''Hello again''],
     sx_accounts = [demo_account]\<rparr>"

definition demo_query :: "string \<Rightarrow> search_query" where
  "demo_query q = \<lparr>sq_query = str q, sq_limit = 10, sq_offset = 0,
     sq_display_filter = \<lparr>exclude_boosts = False, exclude_media = False, include_media = False\<rparr>,
     sq_start_after = None\<rparr>"

lemma demo_tables:
  "entries (status_side (sx_index demo_store)) =
     [(demo_key ''p2'', str ''Hello again'', []), (demo_key ''p1'', str ''hello world'', [])]"
  "entries (account_side (sx_index demo_store)) = [(demo_key ''a'', str ''ann'', str ''Ann'')]"
  by code_simp+

lemma demo_linked: "search_store_linked demo_store"
proof -
  have keys: "map search_status_key (sx_statuses demo_store) = [demo_key ''p1'', demo_key ''p2'']"
    "map search_account_key (sx_accounts demo_store) = [demo_key ''a'']"
    by (simp_all add: demo_store_def demo_status_def demo_account_def search_keys demo_key_def)
  have "demo_key ''p1'' \<noteq> demo_key ''p2''" by (simp add: demo_key_def)
  moreover have "map_of (entries (status_side (sx_index demo_store))) k =
      map_option status_texts (search_status_row demo_store k)" for k
    unfolding demo_tables search_status_row_def
    by (simp add: demo_store_def demo_status_def search_keys demo_key_def status_texts_def)
  moreover have "map_of (entries (account_side (sx_index demo_store))) k =
      map_option account_texts (search_account_row demo_store k)" for k
    unfolding demo_tables search_account_row_def
    by (simp add: demo_store_def demo_account_def search_keys demo_key_def account_texts_def)
  moreover have "list_all (\<lambda>s. search_account_row demo_store (search_author_key s) \<noteq> None)
      (sx_statuses demo_store)"
    by (simp add: demo_store_def demo_status_def demo_account_def search_keys search_account_row_def)
  ultimately show ?thesis by (simp add: search_store_linked_def keys)
qed

theorem search_answers_scan_witness:
  "query_statuses_with_cancellation plain_icu plain_fts5 False None demo_store (demo_query ''hello'') =
     Inr (search_spec plain_icu demo_store (demo_query ''hello'')) \<and>
   map st_id (search_spec plain_icu demo_store (demo_query ''hello'')) = [str ''p2'', str ''p1'']"
proof
  show "query_statuses_with_cancellation plain_icu plain_fts5 False None demo_store (demo_query ''hello'') =
     Inr (search_spec plain_icu demo_store (demo_query ''hello''))"
  proof (rule search_answers_scan[OF unicode_plain_icu fts5_plain demo_hypotheses _ demo_linked])
    show "sx_index demo_store = database (search_run plain_icu demo_events empty_system)"
      by (simp add: demo_store_def)
    show "within_windows demo_store" by code_simp
    show "backfill_complete demo_store" by code_simp
    show "byte_len (sq_query (demo_query ''hello'')) \<le> max_search_bytes" by code_simp
    show "length (normalize_terms (sq_query (demo_query ''hello''))) \<le> max_search_terms" by code_simp
    show "\<forall>t \<in> set (normalize_terms (sq_query (demo_query ''hello''))). \<not> requires_contiguous_match plain_icu t"
      by code_simp
  qed
  show "map st_id (search_spec plain_icu demo_store (demo_query ''hello'')) = [str ''p2'', str ''p1'']"
    by code_simp
qed

section \<open>Deviations\<close>

text \<open>A store with one status, indexed by a worker.\<close>

definition one_events :: "string \<Rightarrow> search_event list" where
  "one_events content =
     [AccountChange (InsertRow (demo_key ''a'') (str ''ann'', str ''Ann'') 1 1),
      StatusChange (InsertRow (demo_key ''p'') (str content, []) 2 2)] @ replicate 5 (WorkerStep 0)"

definition one_store :: "string \<Rightarrow> search_store" where
  "one_store content = \<lparr>sx_index = database (search_run plain_icu (one_events content) empty_system),
     sx_statuses = [demo_status ''p'' content], sx_accounts = [demo_account]\<rparr>"

definition found :: "string \<Rightarrow> string \<Rightarrow> bool" where
  "found content q \<longleftrightarrow>
     (case query_statuses_with_cancellation plain_icu plain_fts5 False None (one_store content) (demo_query q) of
        Inl _ \<Rightarrow> False | Inr rows \<Rightarrow> rows \<noteq> [])"

text \<open>The index holds the HTML of a status, not its text: the name of a tag finds the status, and a
  char that the provider escapes does not. Only terms of several segments are compared with the text
  as displayed, and only after the index has named the status.\<close>

lemma markup_is_searched:
  "html_to_plain_text (str ''<p>one &amp; two &#39;</p>'') = str ''one & two '' @ [39]"
  "found ''<p>one &amp; two &#39;</p>'' ''p''"
  "found ''<p>one &amp; two &#39;</p>'' ''amp''"
  "\<not> found ''<p>one &amp; two &#39;</p>'' [CHR 39]"
  by code_simp+

text \<open>Two terms with the same set of segments are one candidate, and only the first is checked to
  occur as written: the second is dropped.\<close>

lemma repeated_segments_dropped:
  "found ''xx-yy'' ''xx-yy xx-yy-xx''" "\<not> found ''xx-yy'' ''xx-yy-xx xx-yy''"
  by code_simp+

end
