(* ===== verification/SearchLoop.thy ===== *)
theory SearchLoop
imports SearchDrain
begin

text \<open>
  The loop around the index worker, \<^verbatim>\<open>run\<close> in \<^verbatim>\<open>src/services/search_indexer.rs\<close>: when it merges
  segments of the full-text tables, when it may write the index, how long it rests, and when it
  reports. Times are milliseconds; the clock, the segment counts and the outcomes of a merge and of an
  index step are arguments. FTS5 refuses to write beyond 2000 segments, so a table at the high-water
  mark is merged, and nothing is written, until the merge has nothing left to do.
\<close>

definition busy_retry_delay :: nat where "busy_retry_delay = 250"
definition idle_poll_delay :: nat where "idle_poll_delay = 1000"
definition min_yield_delay :: nat where "min_yield_delay = 5"
definition merge_interval :: nat where "merge_interval = 1000"
definition segment_pressure_high_water :: int where "segment_pressure_high_water = 1900"
definition progress_emit_interval :: nat where "progress_emit_interval = 1000"

record merge_state =
  ms_debt :: int
  ms_account_debt :: int
  ms_status_segments :: int
  ms_account_segments :: int

definition load_merge_state :: "search_db \<Rightarrow> int \<Rightarrow> int \<Rightarrow> merge_state" where
  "load_merge_state db status_segments account_segments =
     \<lparr>ms_debt = (if merge_debt (status_side db) then 1 else 0),
      ms_account_debt = (if merge_debt (account_side db) then 1 else 0),
      ms_status_segments = status_segments, ms_account_segments = account_segments\<rparr>"

definition select_pressure_target :: "merge_state \<Rightarrow> merge_target \<Rightarrow> merge_target option" where
  "select_pressure_target m preferred =
     (let status_pressure = segment_pressure_high_water \<le> ms_status_segments m;
          account_pressure = segment_pressure_high_water \<le> ms_account_segments m
      in if status_pressure \<and> account_pressure then
           (if ms_status_segments m > ms_account_segments m then Some MergeStatus
            else if ms_account_segments m > ms_status_segments m then Some MergeAccount
            else Some preferred)
         else if status_pressure then Some MergeStatus
         else if account_pressure then Some MergeAccount
         else None)"

definition select_dirty_merge_target :: "merge_state \<Rightarrow> merge_target \<Rightarrow> merge_target option" where
  "select_dirty_merge_target m preferred =
     (if ms_debt m > 0 \<and> ms_account_debt m > 0 then Some preferred
      else if ms_debt m > 0 then Some MergeStatus
      else if ms_account_debt m > 0 then Some MergeAccount
      else None)"

record merge_loop =
  last_merge :: int
  next_merge_target :: merge_target
  active_merge_target :: "merge_target option"

definition merge_loop_start :: "int \<Rightarrow> merge_loop" where
  "merge_loop_start now =
     \<lparr>last_merge = now - int merge_interval, next_merge_target = MergeStatus, active_merge_target = None\<rparr>"

text \<open>The merge phase of a turn. \<open>loaded\<close> is the state it reads first, \<open>reloaded\<close> the one it reads
  after a merge that found nothing to do. The result is \<open>None\<close> when the loop ends with the error of the
  merge, otherwise whether the index step is deferred and whether the writer was busy.\<close>

definition merge_choice :: "merge_state \<Rightarrow> merge_loop \<Rightarrow> merge_target option \<times> bool" where
  "merge_choice loaded l =
     (case active_merge_target l of
        Some target \<Rightarrow> (Some target, True)
      | None \<Rightarrow>
          (case select_pressure_target loaded (next_merge_target l) of
             Some target \<Rightarrow> (Some target, True)
           | None \<Rightarrow> (select_dirty_merge_target loaded (next_merge_target l), False)))"

definition merge_due :: "int \<Rightarrow> merge_loop \<Rightarrow> bool" where
  "merge_due now l \<longleftrightarrow> int merge_interval \<le> now - last_merge l \<or> active_merge_target l \<noteq> None"

definition merge_phase ::
  "int \<Rightarrow> merge_state \<Rightarrow> merge_state \<Rightarrow> merge_outcome \<Rightarrow> merge_loop \<Rightarrow> merge_loop \<times> (bool \<times> bool) option"
where
  "merge_phase now loaded reloaded outcome l =
     (if \<not> merge_due now l then (l, Some (False, False))
      else case merge_choice loaded l of
        (None, _) \<Rightarrow> (l, Some (False, False))
      | (Some target, protected_merge) \<Rightarrow>
          (case outcome of
             MergeWorked \<Rightarrow>
               (l\<lparr>active_merge_target := Some target, last_merge := now - int merge_interval\<rparr>,
                Some (True, False))
           | MergeNoop \<Rightarrow>
               (let l' = l\<lparr>active_merge_target := None, next_merge_target := other_target target\<rparr> in
                case select_pressure_target reloaded (next_merge_target l') of
                  Some pressure_target \<Rightarrow>
                    (l'\<lparr>active_merge_target := Some pressure_target,
                        last_merge := now - int merge_interval\<rparr>, Some (True, False))
                | None \<Rightarrow> (l'\<lparr>last_merge := now\<rparr>, Some (False, False)))
           | MergeBusy \<Rightarrow>
               (if protected_merge then (l\<lparr>active_merge_target := Some target\<rparr>, Some (True, True))
                else (l, Some (False, True)))
           | MergeFailed \<Rightarrow>
               (if protected_merge then (l, None)
                else (l\<lparr>active_merge_target := None, next_merge_target := other_target target,
                        last_merge := now\<rparr>, Some (False, False)))))"

text \<open>What the turn did: nothing, an index step that found the writer busy, or one that ended.\<close>

datatype turn_step = StepDeferred | StepWriterBusy | StepEnded index_step

definition turn_delay :: "turn_step \<Rightarrow> bool \<Rightarrow> nat \<Rightarrow> nat" where
  "turn_delay step merge_writer_busy elapsed =
     (case step of
        StepDeferred \<Rightarrow> if merge_writer_busy then max busy_retry_delay (3 * elapsed)
          else max (3 * elapsed) min_yield_delay
      | StepWriterBusy \<Rightarrow> max busy_retry_delay (3 * elapsed)
      | StepEnded result \<Rightarrow>
          if merge_writer_busy then max busy_retry_delay (3 * elapsed)
          else (case result of IdleStep _ \<Rightarrow> idle_poll_delay | _ \<Rightarrow> max (3 * elapsed) min_yield_delay))"

record progress_emitter =
  last_emitted_progress :: "search_progress option"
  last_progress_emit :: int

definition reported_progress :: "turn_step \<Rightarrow> search_progress option" where
  "reported_progress step =
     (case step of
        StepEnded (BackfillStep progress) \<Rightarrow> Some progress
      | StepEnded (IdleStep progress) \<Rightarrow> Some progress
      | _ \<Rightarrow> None)"

text \<open>\<open>accepted\<close> says whether the channel takes the report.\<close>

definition emit_progress ::
  "int \<Rightarrow> bool \<Rightarrow> turn_step \<Rightarrow> progress_emitter \<Rightarrow> progress_emitter \<times> search_progress option" where
  "emit_progress now accepted step m =
     (case reported_progress step of
        None \<Rightarrow> (m, None)
      | Some progress \<Rightarrow>
          (let changed = last_emitted_progress m \<noteq> Some progress;
               completion_transition = (all_completed progress \<and>
                 (case last_emitted_progress m of
                    None \<Rightarrow> True | Some previous \<Rightarrow> \<not> all_completed previous))
           in if changed \<and>
                 (completion_transition \<or> int progress_emit_interval \<le> now - last_progress_emit m) \<and> accepted
              then (\<lparr>last_emitted_progress = Some progress, last_progress_emit = now\<rparr>, Some progress)
              else (m, None)))"

section \<open>Properties\<close>

lemma select_pressure_target_None:
  "select_pressure_target m preferred = None \<longleftrightarrow>
     ms_status_segments m < segment_pressure_high_water \<and> ms_account_segments m < segment_pressure_high_water"
  by (auto simp: select_pressure_target_def Let_def)

text \<open>The table that is merged under pressure is one with the most segments.\<close>

lemma select_pressure_target_worst:
  "select_pressure_target m preferred = Some MergeStatus \<Longrightarrow>
     segment_pressure_high_water \<le> ms_status_segments m \<and> ms_account_segments m \<le> ms_status_segments m"
  "select_pressure_target m preferred = Some MergeAccount \<Longrightarrow>
     segment_pressure_high_water \<le> ms_account_segments m \<and> ms_status_segments m \<le> ms_account_segments m"
  by (auto simp: select_pressure_target_def Let_def split: if_splits)

lemma merge_guards_writes:
  assumes "active_merge_target l \<noteq> None \<or>
      (int merge_interval \<le> now - last_merge l \<and> select_pressure_target loaded (next_merge_target l) \<noteq> None)"
    and "merge_phase now loaded reloaded outcome l = (l', Some (False, busy))"
  shows "outcome = MergeNoop \<and> active_merge_target l' = None \<and>
    ms_status_segments reloaded < segment_pressure_high_water \<and>
    ms_account_segments reloaded < segment_pressure_high_water"
proof -
  obtain target where choice: "merge_choice loaded l = (Some target, True)"
    using assms(1)
    by (cases "active_merge_target l"; cases "select_pressure_target loaded (next_merge_target l)")
      (auto simp: merge_choice_def)
  have due: "merge_due now l" using assms(1) by (auto simp: merge_due_def)
  have phase: "outcome = MergeNoop \<and> active_merge_target l' = None \<and>
      select_pressure_target reloaded (other_target target) = None"
    using assms(2) choice due
    by (cases outcome; cases "select_pressure_target reloaded (other_target target)")
      (auto simp: merge_phase_def Let_def)
  then show ?thesis using select_pressure_target_None[of reloaded "other_target target"] by blast
qed

text \<open>A merge that is under way keeps its target until it has nothing left to do.\<close>

lemma active_merge_kept:
  assumes "active_merge_target l = Some target" "merge_phase now loaded reloaded outcome l = (l', r)"
    and "outcome \<noteq> MergeNoop"
  shows "active_merge_target l' = Some target"
  using assms by (cases outcome) (auto simp: merge_phase_def merge_due_def merge_choice_def)

text \<open>The loop rests at least three times as long as a working turn took: it works at most a quarter of
  the time, and it never spins.\<close>

lemma turn_delay_rest:
  assumes "\<And>p. step \<noteq> StepEnded (IdleStep p)"
  shows "3 * elapsed \<le> turn_delay step busy elapsed" "min_yield_delay \<le> turn_delay step busy elapsed"
proof -
  have "3 * elapsed \<le> turn_delay step busy elapsed \<and> min_yield_delay \<le> turn_delay step busy elapsed"
    using assms by (cases step) (auto simp: turn_delay_def busy_retry_delay_def min_yield_delay_def
        split: index_step.split)
  then show "3 * elapsed \<le> turn_delay step busy elapsed" "min_yield_delay \<le> turn_delay step busy elapsed"
    by simp_all
qed

text \<open>Reports are a second apart unless one announces completion, and no report repeats the last.\<close>

lemma emit_progress_spaced:
  assumes "emit_progress now accepted step m = (m', Some progress)"
  shows "last_emitted_progress m \<noteq> Some progress"
    and "int progress_emit_interval \<le> now - last_progress_emit m \<or>
      (all_completed progress \<and> (\<forall>previous. last_emitted_progress m = Some previous \<longrightarrow> \<not> all_completed previous))"
    and "m' = \<lparr>last_emitted_progress = Some progress, last_progress_emit = now\<rparr>"
  using assms by (auto simp: emit_progress_def Let_def split: option.splits if_splits)

end
