(* ===== verification/TableWrites.thy ===== *)
theory TableWrites
imports RustPrelude
begin

text \<open>
  Tables with a primary key, as lists of rows in the order of their insertion, and the statement
  \<^verbatim>\<open>INSERT .. ON CONFLICT\<close>: a new key is appended, a known key is merged in place. The locale
  \<open>keyed_table\<close> states what a merge must satisfy (it keeps the key, and only the oldest row can
  stick) and shows once what a sequence of writes leaves behind and that writing a prefix of a
  sequence before the whole sequence changes nothing. Every table of the status cache interprets it.
\<close>

section \<open>Statements that can fail\<close>

fun and_then :: "'e + 'a \<Rightarrow> ('a \<Rightarrow> 'e + 'b) \<Rightarrow> 'e + 'b" where
  "and_then (Inl e) f = Inl e"
| "and_then (Inr a) f = f a"

fun try_fold :: "('a \<Rightarrow> 's \<Rightarrow> 'e + 's) \<Rightarrow> 'a list \<Rightarrow> 's \<Rightarrow> 'e + 's" where
  "try_fold f [] s = Inr s"
| "try_fold f (x # xs) s = and_then (f x s) (try_fold f xs)"

lemma and_then_assoc: "and_then (and_then r f) g = and_then r (\<lambda>a. and_then (f a) g)"
  by (cases r) simp_all

lemma and_then_Inr: "and_then r f = Inr b \<longleftrightarrow> (\<exists>a. r = Inr a \<and> f a = Inr b)"
  by (cases r) simp_all

lemma and_then_right: "and_then r Inr = r"
  by (cases r) simp_all

lemma try_fold_Nil: "try_fold f [] = Inr"
  by (rule ext) simp

lemma try_fold_single [simp]: "try_fold f [x] = f x"
  by (rule ext) (simp add: try_fold_Nil and_then_right)

lemma try_fold_append: "try_fold f (xs @ ys) s = and_then (try_fold f xs s) (try_fold f ys)"
proof (induction xs arbitrary: s)
  case (Cons x xs)
  then show ?case by (cases "f x s") simp_all
qed simp

lemma try_fold_invariant:
  assumes "\<And>x s s'. x \<in> set xs \<Longrightarrow> P s \<Longrightarrow> f x s = Inr s' \<Longrightarrow> P s'"
    and "P s" and "try_fold f xs s = Inr s'"
  shows "P s'"
  using assms by (induction xs arbitrary: s) (auto simp: and_then_Inr)

section \<open>Keyed tables\<close>

definition upsert :: "('r \<Rightarrow> 'k) \<Rightarrow> ('r \<Rightarrow> 'r \<Rightarrow> 'r) \<Rightarrow> 'r \<Rightarrow> 'r list \<Rightarrow> 'r list" where
  "upsert key merge row rows =
     (if key row \<in> key ` set rows
      then map (\<lambda>r. if key r = key row then merge r row else r) rows
      else rows @ [row])"

definition upserts :: "('r \<Rightarrow> 'k) \<Rightarrow> ('r \<Rightarrow> 'r \<Rightarrow> 'r) \<Rightarrow> 'r list \<Rightarrow> 'r list \<Rightarrow> 'r list" where
  "upserts key merge ws rows = fold (upsert key merge) ws rows"

definition row_of :: "('r \<Rightarrow> 'k) \<Rightarrow> 'k \<Rightarrow> 'r list \<Rightarrow> 'r option" where
  "row_of key k rows = find (\<lambda>r. key r = k) rows"

lemma upserts_simps [simp]:
  "upserts key merge [] rows = rows"
  "upserts key merge (w # ws) rows = upserts key merge ws (upsert key merge w rows)"
  by (simp_all add: upserts_def)

lemma upserts_append:
  "upserts key merge (ws @ ws') rows = upserts key merge ws' (upserts key merge ws rows)"
  by (simp add: upserts_def)

lemma row_of_simps [simp]:
  "row_of key k [] = None"
  "row_of key k (r # rows) = (if key r = k then Some r else row_of key k rows)"
  by (simp_all add: row_of_def)

lemma row_of_append: "row_of key k (xs @ ys) = (case row_of key k xs of None \<Rightarrow> row_of key k ys | r \<Rightarrow> r)"
  by (induction xs) simp_all

lemma row_of_None: "row_of key k rows = None \<longleftrightarrow> k \<notin> key ` set rows"
  by (induction rows) auto

lemma row_of_Some: "row_of key k rows = Some r \<Longrightarrow> r \<in> set rows \<and> key r = k"
  by (induction rows) (auto split: if_splits)

lemma row_of_in:
  "distinct (map key rows) \<Longrightarrow> r \<in> set rows \<Longrightarrow> row_of key (key r) rows = Some r"
  by (induction rows) auto

lemma rows_eqI:
  assumes "distinct (map key rows)" "map key rows = map key rows'"
    and "\<And>k. row_of key k rows = row_of key k rows'"
  shows "rows = rows'"
proof (rule nth_equalityI)
  show len: "length rows = length rows'" using assms(2) by (metis length_map)
  fix i assume i: "i < length rows"
  have "key (rows ! i) = key (rows' ! i)" using assms(2) i len by (metis nth_map)
  moreover have "row_of key (key (rows ! i)) rows = Some (rows ! i)"
    using assms(1) i by (simp add: row_of_in)
  moreover have "row_of key (key (rows' ! i)) rows' = Some (rows' ! i)"
    using assms(1,2) i len by (simp add: row_of_in)
  ultimately show "rows ! i = rows' ! i" using assms(3) by (metis option.inject)
qed

text \<open>The keys of a table after a sequence of writes.\<close>

fun insert_keys :: "'k list \<Rightarrow> 'k list \<Rightarrow> 'k list" where
  "insert_keys [] ks = ks"
| "insert_keys (w # ws) ks = insert_keys ws (if w \<in> set ks then ks else ks @ [w])"

lemma insert_keys_set: "set (insert_keys ws ks) = set ws \<union> set ks"
  by (induction ws arbitrary: ks) auto

lemma insert_keys_distinct: "distinct ks \<Longrightarrow> distinct (insert_keys ws ks)"
  by (induction ws arbitrary: ks) auto

lemma insert_keys_append: "insert_keys (ws @ ws') ks = insert_keys ws' (insert_keys ws ks)"
  by (induction ws arbitrary: ks) auto

lemma insert_keys_id: "set ws \<subseteq> set ks \<Longrightarrow> insert_keys ws ks = ks"
  by (induction ws) auto

text \<open>Two writes that a conflict cannot tell apart afterwards.\<close>

definition same_write :: "('r \<Rightarrow> 'k) \<Rightarrow> ('r \<Rightarrow> 'r \<Rightarrow> 'r) \<Rightarrow> 'r \<Rightarrow> 'r \<Rightarrow> bool" where
  "same_write key merge a b \<longleftrightarrow> key a = key b \<and> merge a = merge b \<and> merge a b = b"

locale keyed_table =
  fixes key :: "'r \<Rightarrow> 'k" and merge :: "'r \<Rightarrow> 'r \<Rightarrow> 'r"
  assumes key_merge: "key new = key old \<Longrightarrow> key (merge old new) = key old"
    and merge_merge: "merge (merge a b) c = merge a c"
begin

lemma keys_upsert: "map key (upsert key merge w rows) = insert_keys [key w] (map key rows)"
  by (auto simp: upsert_def key_merge image_iff)

lemma keys_upserts: "map key (upserts key merge ws rows) = insert_keys (map key ws) (map key rows)"
  by (induction ws arbitrary: rows) (simp_all add: keys_upsert)

lemma key_set_upserts: "key ` set (upserts key merge ws rows) = key ` set ws \<union> key ` set rows"
  using arg_cong[OF keys_upserts, of set] by (simp add: insert_keys_set)

lemma distinct_upserts:
  "distinct (map key rows) \<Longrightarrow> distinct (map key (upserts key merge ws rows))"
  by (simp add: keys_upserts insert_keys_distinct)

lemma upserts_all:
  assumes "\<And>r. r \<in> set rows \<Longrightarrow> P r" "\<And>w. w \<in> set ws \<Longrightarrow> P w"
    and "\<And>old w. P old \<Longrightarrow> P w \<Longrightarrow> key old = key w \<Longrightarrow> P (merge old w)"
    and "r \<in> set (upserts key merge ws rows)"
  shows "P r"
  using assms
proof (induction ws arbitrary: rows)
  case (Cons w ws)
  have "P r'" if "r' \<in> set (upsert key merge w rows)" for r'
    using that Cons.prems(1-3) by (auto simp: upsert_def split: if_splits)
  then show ?case using Cons.IH[of "upsert key merge w rows"] Cons.prems(2-4) by simp
qed simp

lemma length_upserts: "length rows \<le> length (upserts key merge ws rows)"
proof (induction ws arbitrary: rows)
  case (Cons w ws)
  have "length rows \<le> length (upsert key merge w rows)" by (simp add: upsert_def)
  then show ?case using Cons.IH[of "upsert key merge w rows"] by simp
qed simp

lemma row_of_map:
  "row_of key k (map (\<lambda>r. if key r = key w then merge r w else r) rows) =
     map_option (\<lambda>r. if key r = key w then merge r w else r) (row_of key k rows)"
  by (induction rows) (auto simp: key_merge)

lemma row_of_upsert:
  "row_of key k (upsert key merge w rows) =
     (if k = key w then Some (case row_of key k rows of None \<Rightarrow> w | Some old \<Rightarrow> merge old w)
      else row_of key k rows)"
proof (cases "key w \<in> key ` set rows")
  case True
  then obtain old where old: "row_of key (key w) rows = Some old" by (metis not_None_eq row_of_None)
  show ?thesis
  proof (cases "k = key w")
    case eq: True
    then show ?thesis
      using True old row_of_Some[OF old] by (simp add: upsert_def row_of_map)
  next
    case False
    then have "map_option (\<lambda>r. if key r = key w then merge r w else r) (row_of key k rows) = row_of key k rows"
      using row_of_Some[of key k rows] by (cases "row_of key k rows") auto
    then show ?thesis using True False by (simp add: upsert_def row_of_map)
  qed
next
  case False
  then have "row_of key (key w) rows = None" by (simp add: row_of_None)
  moreover have "row_of key k (rows @ [w]) = (if k = key w then Some w else row_of key k rows)"
    using calculation by (auto simp: row_of_append split: option.split)
  ultimately show ?thesis using False by (simp add: upsert_def)
qed

text \<open>What is left of the writes to a key: the oldest row, merged with the last write.\<close>

fun leave :: "'r option \<Rightarrow> 'r list \<Rightarrow> 'r option" where
  "leave old [] = old"
| "leave None (w # ws) = leave (Some w) ws"
| "leave (Some old) (w # ws) = leave (Some (merge old w)) ws"

lemma row_of_upserts:
  "row_of key k (upserts key merge ws rows) = leave (row_of key k rows) (filter (\<lambda>w. key w = k) ws)"
proof (induction ws arbitrary: rows)
  case (Cons w ws)
  then show ?case
    by (cases "row_of key k rows") (auto simp: row_of_upsert)
qed simp

lemma leave_Some: "leave (Some old) ws = Some (if ws = [] then old else merge old (last ws))"
  by (induction ws arbitrary: old) (auto simp: merge_merge)

lemma leave_None:
  "leave None ws = (case ws of [] \<Rightarrow> None | w # ws' \<Rightarrow> Some (if ws' = [] then w else merge w (last ws')))"
  by (cases ws) (simp_all add: leave_Some)

lemma leave_absorb:
  assumes "list_all2 (same_write key merge) p p'"
  shows "leave (leave old p) (p' @ q) = leave old (p' @ q)"
proof (cases p)
  case Nil
  then show ?thesis by simp
next
  case (Cons a as)
  then obtain b bs where p': "p' = b # bs" and ab: "same_write key merge a b"
    and tails: "list_all2 (same_write key merge) as bs"
    using assms by (metis list_all2_Cons1)
  have m: "merge a = merge b" "merge a b = b" using ab unfolding same_write_def by blast+
  have bb: "merge b b = b" using m(2) by (simp only: m(1))
  show ?thesis
  proof (cases old)
    case (Some r)
    then show ?thesis by (simp add: Cons p' leave_Some merge_merge)
  next
    case None
    have "leave None p = Some (if as = [] then a else merge a (last as))"
      by (simp add: Cons leave_None)
    then have "leave (leave None p) (p' @ q) = Some (merge b (last (p' @ q)))"
      using m by (auto simp: p' leave_Some merge_merge)
    moreover have "leave None (p' @ q) = Some (merge b (last (p' @ q)))"
      by (simp add: p' leave_None bb)
    ultimately show ?thesis by (simp add: None)
  qed
qed

lemma list_all2_filter_key:
  "list_all2 (same_write key merge) p p' \<Longrightarrow>
   list_all2 (same_write key merge) (filter (\<lambda>w. key w = k) p) (filter (\<lambda>w. key w = k) p')"
  by (induction rule: list_all2_induct) (auto simp: same_write_def)

lemma same_keys: "list_all2 (same_write key merge) p p' \<Longrightarrow> map key p = map key p'"
  by (induction rule: list_all2_induct) (auto simp: same_write_def)

text \<open>A prefix that was written before leaves no trace.\<close>

lemma upserts_absorb:
  assumes "distinct (map key rows)" "list_all2 (same_write key merge) p p'"
  shows "upserts key merge (p' @ q) (upserts key merge p rows) = upserts key merge (p' @ q) rows"
proof (rule rows_eqI[where key = key])
  let ?rows = "upserts key merge p rows"
  show "distinct (map key (upserts key merge (p' @ q) ?rows))"
    using assms(1) by (intro distinct_upserts)
  have "insert_keys (map key p') (insert_keys (map key p) (map key rows)) =
      insert_keys (map key p') (map key rows)"
    unfolding same_keys[OF assms(2)] by (rule insert_keys_id) (simp add: insert_keys_set)
  then show "map key (upserts key merge (p' @ q) ?rows) = map key (upserts key merge (p' @ q) rows)"
    by (simp add: keys_upserts insert_keys_append)
  show "row_of key k (upserts key merge (p' @ q) ?rows) = row_of key k (upserts key merge (p' @ q) rows)" for k
    by (simp add: row_of_upserts leave_absorb[OF list_all2_filter_key[OF assms(2)]])
qed

end

end
