(* ===== verification/StatusWrites.thy ===== *)
theory StatusWrites
imports KqStore TableWrites
begin

text \<open>
  The write side of the status cache: the payloads of a provider
  (\<^verbatim>\<open>src/src/mastodon/types\<close>), their conversion to rows (\<^verbatim>\<open>src/src/db/models.rs\<close>), the statements of
  \<^verbatim>\<open>src/src/db/queries\<close> (\<^verbatim>\<open>statuses.rs\<close>, \<^verbatim>\<open>accounts.rs\<close>, \<^verbatim>\<open>timeline.rs\<close>, \<^verbatim>\<open>tags.rs\<close>, \<^verbatim>\<open>servers.rs\<close>) with the foreign keys and
  cascades of the schema, and \<^verbatim>\<open>persist_status_graph\<close> of \<^verbatim>\<open>src/src/services/timeline_service.rs\<close>.

  The tables that the query language reads are those of \<open>kq_store\<close>; the others are kept beside them.
  The encoders of serde are an argument (\<open>codec\<close>), and so is the text of the current time.
\<close>

section \<open>Payloads\<close>

record account_field =
  af_name :: rstr
  af_value :: rstr
  af_verified_at :: "datetime option"

record custom_emoji =
  ce_shortcode :: rstr
  ce_url :: rstr
  ce_static_url :: rstr
  ce_visible_in_picker :: bool
  ce_category :: "rstr option"

record api_account =
  aa_id :: rstr
  aa_username :: rstr
  aa_acct :: rstr
  aa_display_name :: rstr
  aa_note :: rstr
  aa_avatar :: rstr
  aa_avatar_static :: rstr
  aa_header :: rstr
  aa_locked :: bool
  aa_bot :: bool
  aa_created_at :: datetime
  aa_followers_count :: int
  aa_following_count :: int
  aa_statuses_count :: int
  aa_fields :: "account_field list"
  aa_emojis :: "custom_emoji list"

record status_payload =
  sp_id :: rstr
  sp_uri :: rstr
  sp_url :: "rstr option"
  sp_created_at :: datetime
  sp_edited_at :: "datetime option"
  sp_account :: api_account
  sp_content :: rstr
  sp_visibility :: rstr
  sp_sensitive :: bool
  sp_spoiler_text :: rstr
  sp_media_attachments :: "media_attachment list"
  sp_mentions :: "mention list"
  sp_tags :: "tag list"
  sp_emojis :: "custom_emoji list"
  sp_reblogs_count :: int
  sp_favourites_count :: int
  sp_replies_count :: int
  sp_in_reply_to_id :: "rstr option"
  sp_in_reply_to_account_id :: "rstr option"
  sp_language :: "rstr option"
  sp_pinned :: "bool option"
  sp_favourited :: "bool option"
  sp_reblogged :: "bool option"
  sp_muted :: "bool option"
  sp_bookmarked :: "bool option"
  sp_poll :: "poll option"
  sp_card :: "card option"
  sp_application :: "status_application option"
  sp_quote_id :: "rstr option"
  sp_quote_original_url :: "rstr option"

text \<open>A status carries its reblogged and its quoted status as payloads.\<close>

datatype api_status =
  ApiStatus (payload: status_payload) (reblog: "api_status option") (quoted: "api_status option")

record codec =
  cd_to_rfc3339 :: "datetime \<Rightarrow> rstr"
  cd_fields_json :: "account_field list \<Rightarrow> rstr option"
  cd_emojis_json :: "custom_emoji list \<Rightarrow> rstr option"
  cd_poll_json :: "poll \<Rightarrow> rstr option"
  cd_card_json :: "card \<Rightarrow> rstr option"
  cd_application_json :: "status_application \<Rightarrow> rstr option"
  cd_mentions_json :: "mention list \<Rightarrow> rstr option"
  cd_tags_json :: "tag list \<Rightarrow> rstr option"
  cd_media_json :: "media_attachment list \<Rightarrow> rstr option"

definition unless_empty :: "('a list \<Rightarrow> rstr option) \<Rightarrow> 'a list \<Rightarrow> rstr option" where
  "unless_empty encode xs = (if xs = [] then None else encode xs)"

definition account_from_api :: "codec \<Rightarrow> rstr \<Rightarrow> api_account \<Rightarrow> rstr \<Rightarrow> db_account" where
  "account_from_api C now a domain =
     \<lparr>ac_id = aa_id a, ac_server_domain = domain, ac_username = aa_username a, ac_acct = aa_acct a,
      ac_display_name = aa_display_name a, ac_note = aa_note a, ac_avatar = aa_avatar a,
      ac_avatar_static = aa_avatar_static a, ac_header = aa_header a, ac_locked = aa_locked a,
      ac_bot = aa_bot a, ac_followers_count = aa_followers_count a,
      ac_following_count = aa_following_count a, ac_statuses_count = aa_statuses_count a,
      ac_created_at = cd_to_rfc3339 C (aa_created_at a), ac_fetched_at = now,
      ac_fields_json = unless_empty (cd_fields_json C) (aa_fields a),
      ac_emojis_json = unless_empty (cd_emojis_json C) (aa_emojis a)\<rparr>"

definition status_from_api :: "codec \<Rightarrow> rstr \<Rightarrow> api_status \<Rightarrow> rstr \<Rightarrow> db_status" where
  "status_from_api C now s domain =
     (let p = payload s in
      \<lparr>st_id = sp_id p, st_server_domain = domain, st_uri = sp_uri p, st_url = sp_url p,
       st_created_at = cd_to_rfc3339 C (sp_created_at p),
       st_edited_at = map_option (cd_to_rfc3339 C) (sp_edited_at p),
       st_account_id = aa_id (sp_account p), st_content = sp_content p, st_visibility = sp_visibility p,
       st_sensitive = sp_sensitive p, st_spoiler_text = sp_spoiler_text p,
       st_reblogs_count = sp_reblogs_count p, st_favourites_count = sp_favourites_count p,
       st_replies_count = sp_replies_count p, st_in_reply_to_id = sp_in_reply_to_id p,
       st_in_reply_to_account_id = sp_in_reply_to_account_id p,
       st_reblog_of_id = map_option (\<lambda>r. sp_id (payload r)) (reblog s),
       st_language = sp_language p, st_pinned = sp_pinned p, st_favourited = sp_favourited p,
       st_reblogged = sp_reblogged p, st_muted = sp_muted p, st_bookmarked = sp_bookmarked p,
       st_poll_json = Option.bind (sp_poll p) (cd_poll_json C),
       st_card_json = Option.bind (sp_card p) (cd_card_json C),
       st_application_json = Option.bind (sp_application p) (cd_application_json C),
       st_mentions_json = unless_empty (cd_mentions_json C) (sp_mentions p),
       st_tags_json = unless_empty (cd_tags_json C) (sp_tags p),
       st_emojis_json = unless_empty (cd_emojis_json C) (sp_emojis p),
       st_media_attachments_json = unless_empty (cd_media_json C) (sp_media_attachments p),
       st_fetched_at = now, st_quote_id = sp_quote_id p,
       st_quote_original_url = sp_quote_original_url p\<rparr>)"

section \<open>Identities\<close>

datatype federation_protocol = ActivityPub | AtProto

record status_identity =
  si_protocol :: federation_protocol
  si_server_domain :: rstr
  si_canonical_uri :: rstr
  si_remote_id :: rstr

definition identity_new :: "federation_protocol \<Rightarrow> rstr \<Rightarrow> rstr \<Rightarrow> rstr \<Rightarrow> status_identity" where
  "identity_new protocol domain uri remote_id =
     \<lparr>si_protocol = protocol, si_server_domain = to_ascii_lowercase (trim domain),
      si_canonical_uri = trim uri, si_remote_id = trim remote_id\<rparr>"

definition identity_inferred :: "rstr \<Rightarrow> rstr \<Rightarrow> rstr \<Rightarrow> status_identity" where
  "identity_inferred domain uri remote_id =
     identity_new (if starts_with (trim uri) (str ''at://'') then AtProto else ActivityPub) domain uri remote_id"

section \<open>Tables\<close>

text \<open>\<open>ws_status_tags\<close> lists, for each status, the tags of its rows; it is empty for the others.\<close>

text \<open>The columns of the user interface are bound to a login account or to none.\<close>

record column_config =
  cc_id :: rstr
  cc_account_acct :: "rstr option"
  cc_column_type :: rstr
  cc_column_param :: "rstr option"
  cc_position :: int
  cc_width :: "int option"
  cc_name :: "rstr option"
  cc_max_statuses :: "int option"
  cc_pane_index :: "int option"
  cc_desktop_notifications :: bool
  cc_notification_sound :: "rstr option"

record write_store =
  ws_cache :: kq_store
  ws_servers :: "(rstr \<times> rstr) list"
  ws_tags :: "(rstr \<times> rstr) list"
  ws_status_tags :: "entity_key \<Rightarrow> rstr list"
  ws_identities :: "(entity_key \<times> status_identity) list"
  ws_columns :: "column_config list"

datatype sql_failure = PoolTimedOut | DatabaseFailure rstr | OtherSqlFailure

definition foreign_key_failed :: sql_failure where
  "foreign_key_failed = DatabaseFailure (str ''FOREIGN KEY constraint failed'')"

definition logged_in :: "write_store \<Rightarrow> rstr \<Rightarrow> bool" where
  "logged_in W acct \<longleftrightarrow> acct \<in> la_acct ` set (ks_login_accounts (ws_cache W))"

text \<open>What each statement does to the row that is in its way.\<close>

definition status_conflict :: "db_status \<Rightarrow> db_status \<Rightarrow> db_status" where
  "status_conflict old new =
     new\<lparr>st_created_at := st_created_at old, st_account_id := st_account_id old,
         st_favourited := st_favourited old, st_reblogged := st_reblogged old,
         st_muted := st_muted old, st_bookmarked := st_bookmarked old\<rparr>"

definition account_conflict :: "db_account \<Rightarrow> db_account \<Rightarrow> db_account" where
  "account_conflict old new = new\<lparr>ac_created_at := ac_created_at old\<rparr>"

definition replaced :: "'r \<Rightarrow> 'r \<Rightarrow> 'r" where
  "replaced old new = new"

definition ignored :: "'r \<Rightarrow> 'r \<Rightarrow> 'r" where
  "ignored old new = old"

definition entry_row_key :: "timeline_entry \<Rightarrow> rstr \<times> entity_key \<times> rstr" where
  "entry_row_key e = (te_timeline_type e, entry_key e, te_account_acct e)"

definition state_row_key :: "db_status_viewer_state \<Rightarrow> rstr \<times> entity_key" where
  "state_row_key v = (vs_login_account_acct v, state_key v)"

interpretation statuses_table: keyed_table status_key_for_status status_conflict
  by unfold_locales (simp_all add: status_conflict_def status_key_for_status_def)

interpretation accounts_table: keyed_table account_key account_conflict
  by unfold_locales (simp_all add: account_conflict_def account_key_def)

interpretation entries_table: keyed_table entry_row_key ignored
  by unfold_locales (simp_all add: ignored_def)

interpretation states_table: keyed_table state_row_key replaced
  by unfold_locales (simp_all add: replaced_def)

interpretation identities_table: keyed_table "fst :: entity_key \<times> status_identity \<Rightarrow> entity_key" replaced
  by unfold_locales (simp_all add: replaced_def)

interpretation tags_table: keyed_table "\<lambda>t :: rstr \<times> rstr. t" ignored
  by unfold_locales (simp_all add: ignored_def)

interpretation servers_table: keyed_table "fst :: rstr \<times> rstr \<Rightarrow> rstr" ignored
  by unfold_locales (simp_all add: ignored_def)

section \<open>Statements\<close>

definition upsert_server_on :: "rstr \<Rightarrow> rstr \<Rightarrow> write_store \<Rightarrow> write_store" where
  "upsert_server_on domain streaming_url W =
     W\<lparr>ws_servers := upsert fst ignored (domain, streaming_url) (ws_servers W)\<rparr>"

definition upsert_account_on :: "db_account \<Rightarrow> write_store \<Rightarrow> write_store" where
  "upsert_account_on a W =
     W\<lparr>ws_cache := (ws_cache W)\<lparr>ks_accounts :=
        upsert account_key account_conflict a (ks_accounts (ws_cache W))\<rparr>\<rparr>"

text \<open>The columns of the viewer stay empty, and a trigger counts the rows.\<close>

definition stored_status :: "db_status \<Rightarrow> db_status" where
  "stored_status s = s\<lparr>st_favourited := None, st_reblogged := None, st_muted := None, st_bookmarked := None\<rparr>"

definition identity_of :: "db_status \<Rightarrow> entity_key \<times> status_identity" where
  "identity_of s = (status_key_for_status s, identity_inferred (st_server_domain s) (st_uri s) (st_id s))"

definition upsert_status_on :: "db_status \<Rightarrow> write_store \<Rightarrow> sql_failure + write_store" where
  "upsert_status_on s W =
     (let cache = ws_cache W;
          known = status_key_for_status s \<in> status_key_for_status ` set (ks_statuses cache)
      in if \<not> known \<and> author_key s \<notin> account_key ` set (ks_accounts cache) then Inl foreign_key_failed
         else Inr (W\<lparr>ws_cache := cache\<lparr>
                  ks_statuses := upsert status_key_for_status status_conflict (stored_status s) (ks_statuses cache),
                  ks_status_counter :=
                    (if known then ks_status_counter cache else map_option (\<lambda>n. n + 1) (ks_status_counter cache))\<rparr>,
                ws_identities := upsert fst replaced (identity_of s) (ws_identities W)\<rparr>))"

definition viewer_state_of :: "rstr \<Rightarrow> db_status \<Rightarrow> db_status_viewer_state" where
  "viewer_state_of acct s =
     \<lparr>vs_login_account_acct = acct, vs_status_id = st_id s, vs_server_domain = st_server_domain s,
      vs_favourited = st_favourited s, vs_reblogged = st_reblogged s, vs_muted = st_muted s,
      vs_bookmarked = st_bookmarked s, vs_pinned = st_pinned s, vs_updated_at = st_fetched_at s\<rparr>"

definition upsert_status_viewer_state_on ::
  "db_status \<Rightarrow> rstr \<Rightarrow> write_store \<Rightarrow> sql_failure + write_store" where
  "upsert_status_viewer_state_on s acct W =
     (if \<not> logged_in W acct then Inl foreign_key_failed
      else Inr (W\<lparr>ws_cache := (ws_cache W)\<lparr>ks_viewer_states :=
             upsert state_row_key replaced (viewer_state_of acct s) (ks_viewer_states (ws_cache W))\<rparr>\<rparr>))"

definition upsert_tag_on :: "rstr \<Rightarrow> rstr \<Rightarrow> write_store \<Rightarrow> write_store" where
  "upsert_tag_on name domain W = W\<lparr>ws_tags := upsert (\<lambda>t. t) ignored (name, domain) (ws_tags W)\<rparr>"

definition replace_status_tags_on :: "entity_key \<Rightarrow> rstr list \<Rightarrow> write_store \<Rightarrow> write_store" where
  "replace_status_tags_on k names W =
     W\<lparr>ws_tags := upserts (\<lambda>t. t) ignored (map (\<lambda>n. (n, snd k)) names) (ws_tags W),
       ws_status_tags := (ws_status_tags W)(k := upserts (\<lambda>t. t) ignored names [])\<rparr>"

definition insert_timeline_entry_on :: "timeline_entry \<Rightarrow> write_store \<Rightarrow> sql_failure + write_store" where
  "insert_timeline_entry_on e W =
     (let cache = ws_cache W in
      if entry_row_key e \<in> entry_row_key ` set (ks_timeline_entries cache) then Inr W
      else if \<not> logged_in W (te_account_acct e) \<or>
              entry_key e \<notin> status_key_for_status ` set (ks_statuses cache) then Inl foreign_key_failed
      else Inr (W\<lparr>ws_cache := cache\<lparr>ks_timeline_entries :=
             upsert entry_row_key ignored e (ks_timeline_entries cache)\<rparr>\<rparr>))"

text \<open>Deleting statuses cascades to all that refer to them.\<close>

definition delete_statuses_where :: "(db_status \<Rightarrow> bool) \<Rightarrow> write_store \<Rightarrow> write_store" where
  "delete_statuses_where P W =
     (let cache = ws_cache W;
          gone = status_key_for_status ` set (filter P (ks_statuses cache))
      in W\<lparr>ws_cache := cache\<lparr>
             ks_statuses := filter (\<lambda>s. \<not> P s) (ks_statuses cache),
             ks_timeline_entries := filter (\<lambda>e. entry_key e \<notin> gone) (ks_timeline_entries cache),
             ks_viewer_states := filter (\<lambda>v. state_key v \<notin> gone) (ks_viewer_states cache),
             ks_status_counter := map_option
               (\<lambda>n. fold (\<lambda>_ n. max 0 (n - 1)) (filter P (ks_statuses cache)) n) (ks_status_counter cache)\<rparr>,
           ws_status_tags := (\<lambda>k. if k \<in> gone then [] else ws_status_tags W k),
           ws_identities := filter (\<lambda>(k, _). k \<notin> gone) (ws_identities W)\<rparr>)"

definition delete_status_and_references :: "rstr \<Rightarrow> rstr \<Rightarrow> write_store \<Rightarrow> write_store \<times> nat" where
  "delete_status_and_references i domain W =
     (let is_reblog = (\<lambda>s. st_reblog_of_id s = Some i \<and> st_server_domain s = domain);
          is_original = (\<lambda>s. st_id s = i \<and> st_server_domain s = domain);
          W1 = delete_statuses_where is_reblog W;
          W2 = delete_statuses_where is_original W1
      in (W2, length (filter is_reblog (ks_statuses (ws_cache W))) +
              length (filter is_original (ks_statuses (ws_cache W1)))))"

section \<open>Saving a status with what it refers to\<close>

text \<open>The accounts written so far are known by the text \<^verbatim>\<open>{server_domain}\0{id}\<close>.\<close>

type_synonym persist_state = "write_store \<times> rstr list \<times> rstr list"

definition upsert_account_once ::
  "codec \<Rightarrow> rstr \<Rightarrow> api_status \<Rightarrow> rstr \<Rightarrow> write_store \<times> rstr list \<Rightarrow> write_store \<times> rstr list" where
  "upsert_account_once C now s domain = (\<lambda>(W, account_keys).
     let key = domain @ [0] @ aa_id (sp_account (payload s)) in
     if key \<in> set account_keys then (W, account_keys)
     else (upsert_account_on (account_from_api C now (sp_account (payload s)) domain) W, account_keys @ [key]))"

definition persist_row ::
  "codec \<Rightarrow> rstr \<Rightarrow> rstr \<Rightarrow> rstr option \<Rightarrow> api_status \<Rightarrow> persist_state \<Rightarrow> sql_failure + persist_state" where
  "persist_row C now domain viewer_acct s = (\<lambda>(W, account_keys, tag_names).
     let (W1, account_keys') = upsert_account_once C now s domain (W, account_keys);
         db_status = status_from_api C now s domain;
         names = map tg_name (sp_tags (payload s))
     in and_then (upsert_status_on db_status W1) (\<lambda>W2.
        and_then (case viewer_acct of None \<Rightarrow> Inr W2
                  | Some acct \<Rightarrow> upsert_status_viewer_state_on db_status acct W2) (\<lambda>W3.
          Inr (replace_status_tags_on (sp_id (payload s), domain) names W3, account_keys', tag_names @ names))))"

definition related :: "api_status \<Rightarrow> api_status list" where
  "related s =
     (case reblog s of None \<Rightarrow> [] | Some r \<Rightarrow> [r]) @ (case quoted s of None \<Rightarrow> [] | Some q \<Rightarrow> [q])"

definition persist_status_graph ::
  "codec \<Rightarrow> rstr \<Rightarrow> rstr \<Rightarrow> rstr option \<Rightarrow> api_status \<Rightarrow> persist_state \<Rightarrow> sql_failure + persist_state" where
  "persist_status_graph C now domain viewer_acct s st =
     and_then (try_fold (persist_row C now domain viewer_acct) (related s) st)
       (persist_row C now domain viewer_acct s)"

end
