(* ===== verification/StatusSaves.thy ===== *)
theory StatusSaves
imports StatusWrites
begin

text \<open>
  Saving pages of statuses, \<^verbatim>\<open>save_status_items\<close> and its retries in
  \<^verbatim>\<open>src/src/services/timeline_service.rs\<close>: transactions of at most 64 statuses and 40 ms, each
  committed with its timeline entries, repeated as a whole when a database error is transient. How
  many statuses fit the time of a transaction, which statement fails before a commit and what the
  clock says are given by a host for each attempt.

  \<open>written\<close> is what a list of items writes, table by table. A transaction writes it, transactions
  compose, and what a failed attempt left behind is absorbed by the next one.
\<close>

section \<open>Items and transactions\<close>

record batch_timeline =
  bt_timeline_type :: rstr
  bt_account_acct :: rstr

record batch_item =
  bi_status :: api_status
  bi_timeline :: "batch_timeline option"
  bi_viewer_acct :: "rstr option"

definition db_write_max_attempts :: nat where "db_write_max_attempts = 5"
definition db_write_retry_delays_ms :: "nat list" where "db_write_retry_delays_ms = [200, 500, 1000, 2000]"
definition db_batch_max_statuses :: nat where "db_batch_max_statuses = 64"

definition entry_of :: "codec \<Rightarrow> rstr \<Rightarrow> batch_timeline \<Rightarrow> api_status \<Rightarrow> timeline_entry" where
  "entry_of C domain b s =
     \<lparr>te_timeline_type = bt_timeline_type b, te_server_domain = domain, te_status_id = sp_id (payload s),
      te_account_acct = bt_account_acct b, te_position_at = cd_to_rfc3339 C (sp_created_at (payload s))\<rparr>"

definition persist_item ::
  "codec \<Rightarrow> rstr \<Rightarrow> rstr \<Rightarrow> batch_item \<Rightarrow> persist_state \<Rightarrow> sql_failure + persist_state" where
  "persist_item C now domain item st =
     and_then (persist_status_graph C now domain (bi_viewer_acct item) (bi_status item) st)
       (\<lambda>(W, account_keys, tag_names).
          case bi_timeline item of
            None \<Rightarrow> Inr (W, account_keys, tag_names)
          | Some b \<Rightarrow> and_then (insert_timeline_entry_on (entry_of C domain b (bi_status item)) W)
                       (\<lambda>W'. Inr (W', account_keys, tag_names)))"

record attempt_host =
  ah_now :: rstr
  ah_fits :: "nat \<Rightarrow> nat"
  ah_failure :: "nat \<Rightarrow> sql_failure option"

definition transaction_size :: "attempt_host \<Rightarrow> nat \<Rightarrow> nat" where
  "transaction_size H i = max 1 (min db_batch_max_statuses (ah_fits H i))"

text \<open>One transaction: \<open>None\<close> for a rollback.\<close>

definition run_transaction ::
  "codec \<Rightarrow> rstr \<Rightarrow> attempt_host \<Rightarrow> nat \<Rightarrow> batch_item list \<Rightarrow> rstr list \<times> rstr list \<Rightarrow> write_store \<Rightarrow>
   sql_failure + persist_state" where
  "run_transaction C domain H i batch persisted W =
     and_then
       (try_fold (persist_item C (ah_now H) domain) batch
         (upsert_server_on domain (str ''wss://'' @ domain) W, fst persisted, []))
       (\<lambda>(W', account_keys, tag_names).
          let fresh = filter (\<lambda>n. n \<notin> set (snd persisted)) tag_names;
              W'' = fold (\<lambda>n. upsert_tag_on n domain) fresh W'
          in case ah_failure H i of Some e \<Rightarrow> Inl e | None \<Rightarrow> Inr (W'', account_keys, snd persisted @ fresh))"

function save_transactions ::
  "codec \<Rightarrow> rstr \<Rightarrow> attempt_host \<Rightarrow> nat \<Rightarrow> batch_item list \<Rightarrow> rstr list \<times> rstr list \<Rightarrow> write_store \<Rightarrow>
   write_store \<times> (sql_failure + unit)" where
  "save_transactions C domain H i items persisted W =
     (if items = [] then (W, Inr ())
      else
        let n = transaction_size H i in
        case run_transaction C domain H i (take n items) persisted W of
          Inl e \<Rightarrow> (W, Inl e)
        | Inr (W', account_keys, tag_names) \<Rightarrow>
            save_transactions C domain H (i + 1) (drop n items) (account_keys, tag_names) W')"
  by pat_completeness auto
termination
  by (relation "measure (\<lambda>(C, domain, H, i, items, persisted, W). length items)")
    (auto simp: transaction_size_def)

declare save_transactions.simps [simp del]

definition save_status_items ::
  "codec \<Rightarrow> attempt_host \<Rightarrow> rstr \<Rightarrow> batch_item list \<Rightarrow> write_store \<Rightarrow> write_store \<times> (sql_failure + unit)" where
  "save_status_items C H domain items W = save_transactions C domain H 0 items ([], []) W"

definition batch_items :: "batch_timeline option \<Rightarrow> api_status list \<Rightarrow> batch_item list" where
  "batch_items timeline_context page =
     map (\<lambda>s. \<lparr>bi_status = s, bi_timeline = timeline_context,
                bi_viewer_acct = map_option bt_account_acct timeline_context\<rparr>) page"

definition save_status_batch ::
  "codec \<Rightarrow> attempt_host \<Rightarrow> rstr \<Rightarrow> api_status list \<Rightarrow> batch_timeline option \<Rightarrow> write_store \<Rightarrow>
   write_store \<times> (sql_failure + unit)" where
  "save_status_batch C H domain page timeline_context W =
     save_status_items C H domain (batch_items timeline_context page) W"

section \<open>Retries\<close>

definition should_retry_sqlx_error :: "sql_failure \<Rightarrow> bool" where
  "should_retry_sqlx_error e =
     (case e of
        PoolTimedOut \<Rightarrow> True
      | DatabaseFailure message \<Rightarrow>
          (let message = to_ascii_lowercase message in
           str_contains message (str ''database is locked'') \<or> str_contains message (str ''database is busy''))
      | OtherSqlFailure \<Rightarrow> False)"

text \<open>The loop over the attempts, with the delays it sleeps.\<close>

function retry_db_write ::
  "(nat \<Rightarrow> 's \<Rightarrow> 's \<times> (sql_failure + 'r)) \<Rightarrow> nat \<Rightarrow> 's \<Rightarrow> 's \<times> (sql_failure + 'r) \<times> nat list" where
  "retry_db_write op attempt s =
     (case op attempt s of
        (s', Inr r) \<Rightarrow> (s', Inr r, [])
      | (s', Inl e) \<Rightarrow>
          if should_retry_sqlx_error e \<and> attempt < db_write_max_attempts
          then let (s'', r, delays) = retry_db_write op (attempt + 1) s'
               in (s'', r, db_write_retry_delays_ms ! (attempt - 1) # delays)
          else (s', Inl e, []))"
  by pat_completeness auto
termination
  by (relation "measure (\<lambda>(op, attempt, s). db_write_max_attempts - attempt)") auto

declare retry_db_write.simps [simp del]

definition save_status_items_with_retry ::
  "codec \<Rightarrow> (nat \<Rightarrow> attempt_host) \<Rightarrow> rstr \<Rightarrow> batch_item list \<Rightarrow> write_store \<Rightarrow>
   write_store \<times> (sql_failure + unit) \<times> nat list" where
  "save_status_items_with_retry C hosts domain items W =
     retry_db_write (\<lambda>attempt. save_status_items C (hosts attempt) domain items) 1 W"

definition save_status_batch_with_retry ::
  "codec \<Rightarrow> (nat \<Rightarrow> attempt_host) \<Rightarrow> rstr \<Rightarrow> api_status list \<Rightarrow> batch_timeline option \<Rightarrow> write_store \<Rightarrow>
   write_store \<times> (sql_failure + unit) \<times> nat list" where
  "save_status_batch_with_retry C hosts domain page timeline_context W =
     retry_db_write (\<lambda>attempt. save_status_batch C (hosts attempt) domain page timeline_context) 1 W"

section \<open>What a list of items writes\<close>

definition item_rows :: "batch_item \<Rightarrow> (api_status \<times> rstr option) list" where
  "item_rows item = map (\<lambda>s. (s, bi_viewer_acct item)) (related (bi_status item) @ [bi_status item])"

definition batch_rows :: "batch_item list \<Rightarrow> (api_status \<times> rstr option) list" where
  "batch_rows items = concat (map item_rows items)"

definition item_entries :: "codec \<Rightarrow> rstr \<Rightarrow> batch_item \<Rightarrow> timeline_entry list" where
  "item_entries C domain item =
     (case bi_timeline item of None \<Rightarrow> [] | Some b \<Rightarrow> [entry_of C domain b (bi_status item)])"

definition batch_entries :: "codec \<Rightarrow> rstr \<Rightarrow> batch_item list \<Rightarrow> timeline_entry list" where
  "batch_entries C domain items = concat (map (item_entries C domain) items)"

definition account_text :: "rstr \<Rightarrow> api_status \<Rightarrow> rstr" where
  "account_text domain s = domain @ [0] @ aa_id (sp_account (payload s))"

definition row_status :: "codec \<Rightarrow> rstr \<Rightarrow> rstr \<Rightarrow> api_status \<Rightarrow> db_status" where
  "row_status C now domain s = stored_status (status_from_api C now s domain)"

definition row_states :: "codec \<Rightarrow> rstr \<Rightarrow> rstr \<Rightarrow> api_status \<times> rstr option \<Rightarrow> db_status_viewer_state list" where
  "row_states C now domain = (\<lambda>(s, viewer). case viewer of None \<Rightarrow> []
     | Some acct \<Rightarrow> [viewer_state_of acct (status_from_api C now s domain)])"

definition row_tags :: "api_status \<Rightarrow> rstr list" where
  "row_tags s = map tg_name (sp_tags (payload s))"

definition set_tags :: "rstr \<Rightarrow> api_status \<Rightarrow> (entity_key \<Rightarrow> rstr list) \<Rightarrow> entity_key \<Rightarrow> rstr list" where
  "set_tags domain s f = f((sp_id (payload s), domain) := upserts (\<lambda>t. t) ignored (row_tags s) [])"

definition new_accounts :: "rstr \<Rightarrow> rstr list \<Rightarrow> api_status list \<Rightarrow> api_status list" where
  "new_accounts domain account_keys ss = dedup_by (account_text domain) account_keys ss"

text \<open>The effect of rows and entries on the tables.\<close>

definition put ::
  "codec \<Rightarrow> rstr \<Rightarrow> rstr \<Rightarrow> rstr list \<Rightarrow> (api_status \<times> rstr option) list \<Rightarrow> timeline_entry list \<Rightarrow>
   write_store \<Rightarrow> write_store" where
  "put C now domain account_keys rows es W =
     (let cache = ws_cache W; ss = map fst rows;
          statuses = upserts status_key_for_status status_conflict (map (row_status C now domain) ss)
            (ks_statuses cache)
      in W\<lparr>ws_cache := cache\<lparr>
             ks_statuses := statuses,
             ks_accounts := upserts account_key account_conflict
               (map (\<lambda>s. account_from_api C now (sp_account (payload s)) domain)
                 (new_accounts domain account_keys ss)) (ks_accounts cache),
             ks_timeline_entries := upserts entry_row_key ignored es (ks_timeline_entries cache),
             ks_viewer_states := upserts state_row_key replaced
               (concat (map (row_states C now domain) rows)) (ks_viewer_states cache),
             ks_status_counter := map_option
               (\<lambda>n. n + (int (length statuses) - int (length (ks_statuses cache)))) (ks_status_counter cache)\<rparr>,
           ws_tags := upserts (\<lambda>t. t) ignored
             (concat (map (\<lambda>s. map (\<lambda>n. (n, domain)) (row_tags s)) ss)) (ws_tags W),
           ws_status_tags := fold (set_tags domain) ss (ws_status_tags W),
           ws_identities := upserts fst replaced (map (\<lambda>s. identity_of (row_status C now domain s)) ss)
             (ws_identities W)\<rparr>)"

definition written :: "codec \<Rightarrow> rstr \<Rightarrow> rstr \<Rightarrow> rstr list \<Rightarrow> batch_item list \<Rightarrow> write_store \<Rightarrow> write_store" where
  "written C now domain account_keys items W =
     put C now domain account_keys (batch_rows items) (batch_entries C domain items) W"

definition known_accounts :: "rstr \<Rightarrow> rstr list \<Rightarrow> api_status list \<Rightarrow> rstr list" where
  "known_accounts domain account_keys ss =
     account_keys @ map (account_text domain) (new_accounts domain account_keys ss)"

lemma dedup_by_cong: "set seen = set seen' \<Longrightarrow> dedup_by f seen xs = dedup_by f seen' xs"
proof (induction xs arbitrary: seen seen')
  case (Cons x xs)
  have "dedup_by f (f x # seen) xs = dedup_by f (f x # seen') xs"
    using Cons.prems by (intro Cons.IH) simp
  then show ?case using Cons.IH[OF Cons.prems] Cons.prems by simp
qed simp

lemma dedup_by_append:
  "dedup_by f seen (xs @ ys) = dedup_by f seen xs @ dedup_by f (seen @ map f (dedup_by f seen xs)) ys"
proof (induction xs arbitrary: seen)
  case (Cons x xs)
  have "dedup_by f (f x # seen @ map f (dedup_by f (f x # seen) xs)) ys =
      dedup_by f (seen @ f x # map f (dedup_by f (f x # seen) xs)) ys"
    by (rule dedup_by_cong) auto
  then show ?case using Cons.IH[of "f x # seen"] Cons.IH[of seen] by simp
qed simp

lemma new_accounts_append:
  "new_accounts domain ks (ss @ ss') = new_accounts domain ks ss @ new_accounts domain (known_accounts domain ks ss) ss'"
  by (simp add: new_accounts_def known_accounts_def dedup_by_append)

lemma known_accounts_append:
  "known_accounts domain ks (ss @ ss') = known_accounts domain (known_accounts domain ks ss) ss'"
  by (simp add: known_accounts_def new_accounts_append)

text \<open>Effects compose.\<close>

lemma put_fields [simp]:
  "ks_statuses (ws_cache (put C now domain ks rows es W)) =
     upserts status_key_for_status status_conflict (map (row_status C now domain) (map fst rows))
       (ks_statuses (ws_cache W))"
  "ks_accounts (ws_cache (put C now domain ks rows es W)) =
     upserts account_key account_conflict
       (map (\<lambda>s. account_from_api C now (sp_account (payload s)) domain)
         (new_accounts domain ks (map fst rows))) (ks_accounts (ws_cache W))"
  "ks_timeline_entries (ws_cache (put C now domain ks rows es W)) =
     upserts entry_row_key ignored es (ks_timeline_entries (ws_cache W))"
  "ks_viewer_states (ws_cache (put C now domain ks rows es W)) =
     upserts state_row_key replaced (concat (map (row_states C now domain) rows))
       (ks_viewer_states (ws_cache W))"
  "ks_login_accounts (ws_cache (put C now domain ks rows es W)) = ks_login_accounts (ws_cache W)"
  "ks_status_counter (ws_cache (put C now domain ks rows es W)) = map_option
     (\<lambda>n. n + (int (length (upserts status_key_for_status status_conflict
          (map (row_status C now domain) (map fst rows)) (ks_statuses (ws_cache W)))) -
        int (length (ks_statuses (ws_cache W))))) (ks_status_counter (ws_cache W))"
  "ws_servers (put C now domain ks rows es W) = ws_servers W"
  "ws_columns (put C now domain ks rows es W) = ws_columns W"
  "ws_tags (put C now domain ks rows es W) = upserts (\<lambda>t. t) ignored
     (concat (map (\<lambda>s. map (\<lambda>n. (n, domain)) (row_tags s)) (map fst rows))) (ws_tags W)"
  "ws_status_tags (put C now domain ks rows es W) =
     fold (set_tags domain) (map fst rows) (ws_status_tags W)"
  "ws_identities (put C now domain ks rows es W) = upserts fst replaced
     (map (\<lambda>s. identity_of (row_status C now domain s)) (map fst rows)) (ws_identities W)"
  unfolding put_def Let_def by simp_all

lemma store_eqI:
  assumes "ks_statuses (ws_cache W) = ks_statuses (ws_cache W')"
    and "ks_accounts (ws_cache W) = ks_accounts (ws_cache W')"
    and "ks_timeline_entries (ws_cache W) = ks_timeline_entries (ws_cache W')"
    and "ks_viewer_states (ws_cache W) = ks_viewer_states (ws_cache W')"
    and "ks_login_accounts (ws_cache W) = ks_login_accounts (ws_cache W')"
    and "ks_status_counter (ws_cache W) = ks_status_counter (ws_cache W')"
    and "ws_servers W = ws_servers W'" and "ws_tags W = ws_tags W'"
    and "ws_status_tags W = ws_status_tags W'" and "ws_identities W = ws_identities W'"
    and "ws_columns W = ws_columns W'"
  shows "W = (W' :: write_store)"
  using assms by (intro write_store.equality kq_store.equality) simp_all

lemma put_put:
  "put C now domain (known_accounts domain ks (map fst rows)) rows' es' (put C now domain ks rows es W) =
   put C now domain ks (rows @ rows') (es @ es') W"
  by (rule store_eqI) (simp_all add: upserts_append new_accounts_append option.map_comp o_def)

lemma put_Nil: "put C now domain ks [] [] W = W"
  by (rule store_eqI) (simp_all add: new_accounts_def option.map_ident)

end
