(* ===== verification/StatusEffects.thy ===== *)
theory StatusEffects
imports StatusSaves
begin

text \<open>
  What saving does: a transaction of items has the effect \<open>written\<close> or fails on a foreign key, a run of
  transactions has the effect of its items in one, and a failed attempt that is repeated leaves no
  trace. The invariant of the tables is \<open>store_intact\<close>.
\<close>

section \<open>One transaction\<close>

definition accounts_known :: "rstr \<Rightarrow> rstr list \<Rightarrow> write_store \<Rightarrow> bool" where
  "accounts_known domain ks W \<longleftrightarrow>
     (\<forall>s. account_text domain s \<in> set ks \<longrightarrow>
        (aa_id (sp_account (payload s)), domain) \<in> account_key ` set (ks_accounts (ws_cache W)))"

lemma account_text_eq:
  "account_text domain s = account_text domain s' \<longleftrightarrow> aa_id (sp_account (payload s)) = aa_id (sp_account (payload s'))"
  by (simp add: account_text_def)

lemma account_from_api_key: "account_key (account_from_api C now a domain) = (aa_id a, domain)"
  by (simp add: account_key_def account_from_api_def)

lemma accounts_known_put:
  assumes "accounts_known domain ks W"
  shows "accounts_known domain (known_accounts domain ks (map fst rows)) (put C now domain ks rows es W)"
  using assms
  by (fastforce simp: accounts_known_def known_accounts_def accounts_table.key_set_upserts
      account_from_api_key image_image account_text_eq)

lemma upsert_account_once_put:
  "upsert_account_once C now s domain (W, ks) =
     (W\<lparr>ws_cache := (ws_cache W)\<lparr>ks_accounts := upserts account_key account_conflict
        (map (\<lambda>s. account_from_api C now (sp_account (payload s)) domain) (new_accounts domain ks [s]))
        (ks_accounts (ws_cache W))\<rparr>\<rparr>, known_accounts domain ks [s])"
  by (simp add: upsert_account_once_def Let_def new_accounts_def known_accounts_def upsert_account_on_def
      account_text_def)

definition may_save :: "write_store \<Rightarrow> rstr option \<Rightarrow> bool" where
  "may_save W viewer \<longleftrightarrow> (case viewer of None \<Rightarrow> True | Some acct \<Rightarrow> logged_in W acct)"

lemma row_status_key [simp]:
  "status_key_for_status (row_status C now domain s) = (sp_id (payload s), domain)"
  "status_key_for_status (status_from_api C now s domain) = (sp_id (payload s), domain)"
  by (simp_all add: row_status_def stored_status_def status_from_api_def status_key_for_status_def Let_def)

lemma row_status_author:
  "author_key (status_from_api C now s domain) = (aa_id (sp_account (payload s)), domain)"
  by (simp add: author_key_def status_from_api_def Let_def)

lemma identity_of_stored: "identity_of (stored_status s) = identity_of s"
  by (simp add: identity_of_def stored_status_def status_key_for_status_def)

lemma length_upsert:
  "length (upsert key merge r rows) = (if key r \<in> key ` set rows then length rows else length rows + 1)"
  by (simp add: upsert_def)

lemma persist_row_put:
  assumes "accounts_known domain ks W"
  shows "persist_row C now domain viewer s (W, ks, ts) =
    (if may_save W viewer
     then Inr (put C now domain ks [(s, viewer)] [] W, known_accounts domain ks [s], ts @ row_tags s)
     else Inl foreign_key_failed)"
proof -
  let ?d = "status_from_api C now s domain" and ?cache = "ws_cache W"
  define accounts' where "accounts' = upserts account_key account_conflict
      (map (\<lambda>s. account_from_api C now (sp_account (payload s)) domain) (new_accounts domain ks [s]))
      (ks_accounts ?cache)"
  define statuses' where "statuses' = upsert status_key_for_status status_conflict (stored_status ?d)
      (ks_statuses ?cache)"
  define counter' where "counter' = map_option
      (\<lambda>n. n + (int (length statuses') - int (length (ks_statuses ?cache)))) (ks_status_counter ?cache)"
  define identities' where "identities' = upsert fst replaced (identity_of ?d) (ws_identities W)"
  let ?W1 = "W\<lparr>ws_cache := ?cache\<lparr>ks_accounts := accounts'\<rparr>\<rparr>"
  let ?W2 = "W\<lparr>ws_cache := ?cache\<lparr>ks_statuses := statuses', ks_accounts := accounts',
      ks_status_counter := counter'\<rparr>, ws_identities := identities'\<rparr>"
  have once: "upsert_account_once C now s domain (W, ks) = (?W1, known_accounts domain ks [s])"
    by (simp add: upsert_account_once_put accounts'_def)
  have author: "author_key ?d \<in> account_key ` set accounts'"
    using assms
    by (auto simp: row_status_author accounts'_def accounts_table.key_set_upserts
        account_from_api_key image_image new_accounts_def accounts_known_def)
  have counter: "(if status_key_for_status ?d \<in> status_key_for_status ` set (ks_statuses ?cache)
      then ks_status_counter ?cache else map_option (\<lambda>n. n + 1) (ks_status_counter ?cache)) = counter'"
    by (simp add: counter'_def statuses'_def length_upsert option.map_ident
        stored_status_def status_key_for_status_def)
  have W2: "upsert_status_on ?d ?W1 = Inr ?W2"
  proof -
    have "upsert_status_on ?d ?W1 = Inr (?W1\<lparr>ws_cache := (ws_cache ?W1)\<lparr>ks_statuses := statuses',
        ks_status_counter := (if status_key_for_status ?d \<in> status_key_for_status ` set (ks_statuses ?cache)
          then ks_status_counter ?cache else map_option (\<lambda>n. n + 1) (ks_status_counter ?cache))\<rparr>,
        ws_identities := identities'\<rparr>)"
      using author unfolding upsert_status_on_def Let_def statuses'_def identities'_def
      by (simp del: row_status_key)
    then show ?thesis unfolding counter by simp
  qed
  define states' where "states' = upserts state_row_key replaced (row_states C now domain (s, viewer))
      (ks_viewer_states ?cache)"
  let ?W3 = "W\<lparr>ws_cache := ?cache\<lparr>ks_statuses := statuses', ks_accounts := accounts',
      ks_viewer_states := states', ks_status_counter := counter'\<rparr>, ws_identities := identities'\<rparr>"
  have viewer: "(case viewer of None \<Rightarrow> Inr ?W2 | Some acct \<Rightarrow> upsert_status_viewer_state_on ?d acct ?W2) =
      (if may_save W viewer then Inr ?W3 else Inl foreign_key_failed)"
    by (cases viewer) (simp_all add: may_save_def upsert_status_viewer_state_on_def logged_in_def
        row_states_def states'_def)
  have tags: "replace_status_tags_on (sp_id (payload s), domain) (row_tags s) ?W3 =
      put C now domain ks [(s, viewer)] [] W"
  proof (rule store_eqI)
    show "ks_statuses (ws_cache (replace_status_tags_on (sp_id (payload s), domain) (row_tags s) ?W3)) =
        ks_statuses (ws_cache (put C now domain ks [(s, viewer)] [] W))"
      by (simp add: replace_status_tags_on_def statuses'_def row_status_def)
    show "ks_status_counter (ws_cache (replace_status_tags_on (sp_id (payload s), domain) (row_tags s) ?W3)) =
        ks_status_counter (ws_cache (put C now domain ks [(s, viewer)] [] W))"
      by (simp add: replace_status_tags_on_def counter'_def statuses'_def row_status_def)
  qed (simp_all add: replace_status_tags_on_def accounts'_def states'_def identities'_def
      row_status_def identity_of_stored set_tags_def)
  show ?thesis
    using W2 viewer tags by (simp add: persist_row_def once Let_def row_tags_def)
qed

lemma may_save_put [simp]: "may_save (put C now domain ks rows es W) = may_save W"
  by (auto simp: fun_eq_iff may_save_def logged_in_def split: option.splits)

lemma persist_rows_put:
  assumes "accounts_known domain ks W"
  shows "try_fold (persist_row C now domain viewer) ss (W, ks, ts) =
    (if ss = [] \<or> may_save W viewer
     then Inr (put C now domain ks (map (\<lambda>s. (s, viewer)) ss) [] W, known_accounts domain ks ss,
       ts @ concat (map row_tags ss))
     else Inl foreign_key_failed)"
  using assms
proof (induction ss arbitrary: W ks ts)
  case Nil
  then show ?case by (simp add: put_Nil known_accounts_def new_accounts_def)
next
  case (Cons s ss)
  have known: "accounts_known domain (known_accounts domain ks [s]) (put C now domain ks [(s, viewer)] [] W)"
    using accounts_known_put[OF Cons.prems, of "[(s, viewer)]" C now "[]"] by simp
  have both: "put C now domain (known_accounts domain ks [s]) (map (\<lambda>s. (s, viewer)) ss) []
      (put C now domain ks [(s, viewer)] [] W) = put C now domain ks (map (\<lambda>s. (s, viewer)) (s # ss)) [] W"
    using put_put[of C now domain ks "[(s, viewer)]" "map (\<lambda>s. (s, viewer)) ss" "[]" "[]" W] by simp
  show ?case
    using Cons.IH[OF known] known_accounts_append[of domain ks "[s]" ss]
    by (auto simp: persist_row_put[OF Cons.prems] both)
qed

definition may_save_item :: "write_store \<Rightarrow> batch_item \<Rightarrow> bool" where
  "may_save_item W item \<longleftrightarrow> may_save W (bi_viewer_acct item) \<and>
     may_save W (map_option bt_account_acct (bi_timeline item))"

lemma related_rows: "related s @ [s] \<noteq> []" by simp

lemma batch_simps [simp]:
  "batch_rows [] = []" "batch_rows (i # is) = item_rows i @ batch_rows is"
  "batch_entries C domain [] = []"
  "batch_entries C domain (i # is) = item_entries C domain i @ batch_entries C domain is"
  "map fst (item_rows i) = related (bi_status i) @ [bi_status i]"
  by (simp_all add: batch_rows_def batch_entries_def item_rows_def o_def)

lemma batch_append:
  "batch_rows (is @ js) = batch_rows is @ batch_rows js"
  "batch_entries C domain (is @ js) = batch_entries C domain is @ batch_entries C domain js"
  by (simp_all add: batch_rows_def batch_entries_def)

definition entries_owned :: "write_store \<Rightarrow> bool" where
  "entries_owned W \<longleftrightarrow> (\<forall>e \<in> set (ks_timeline_entries (ws_cache W)). logged_in W (te_account_acct e))"

lemma persist_graph_put:
  assumes "accounts_known domain ks W"
  shows "persist_status_graph C now domain viewer s (W, ks, ts) =
    (if may_save W viewer
     then Inr (put C now domain ks (map (\<lambda>s. (s, viewer)) (related s @ [s])) [] W,
       known_accounts domain ks (related s @ [s]), ts @ concat (map row_tags (related s @ [s])))
     else Inl foreign_key_failed)"
proof -
  have "persist_status_graph C now domain viewer s (W, ks, ts) =
      try_fold (persist_row C now domain viewer) (related s @ [s]) (W, ks, ts)"
    by (simp add: persist_status_graph_def try_fold_append and_then_right)
  then show ?thesis using persist_rows_put[OF assms, of C now viewer "related s @ [s]" ts] by simp
qed

lemma insert_entry_put:
  assumes "entries_owned W" "entry_key e \<in> status_key_for_status ` set (ks_statuses (ws_cache W))"
  shows "insert_timeline_entry_on e W =
    (if logged_in W (te_account_acct e) then Inr (put C now domain ks [] [e] W) else Inl foreign_key_failed)"
proof (cases "entry_row_key e \<in> entry_row_key ` set (ks_timeline_entries (ws_cache W))")
  case True
  then obtain e' where e': "e' \<in> set (ks_timeline_entries (ws_cache W))" "entry_row_key e = entry_row_key e'"
    by blast
  then have "logged_in W (te_account_acct e)"
    using assms(1) by (auto simp: entries_owned_def entry_row_key_def)
  moreover have "upsert entry_row_key ignored e (ks_timeline_entries (ws_cache W)) = ks_timeline_entries (ws_cache W)"
    using True by (simp add: upsert_def ignored_def cong: if_cong)
  then have "put C now domain ks [] [e] W = W"
    by (intro store_eqI) (simp_all add: new_accounts_def option.map_ident)
  ultimately show ?thesis using True by (simp add: insert_timeline_entry_on_def Let_def)
next
  case False
  have "put C now domain ks [] [e] W = W\<lparr>ws_cache := (ws_cache W)\<lparr>ks_timeline_entries :=
      upsert entry_row_key ignored e (ks_timeline_entries (ws_cache W))\<rparr>\<rparr>"
    by (rule store_eqI) (simp_all add: new_accounts_def option.map_ident)
  then show ?thesis
    using False assms(2) by (simp add: insert_timeline_entry_on_def Let_def)
qed

lemma put_statuses_keys:
  "status_key_for_status ` set (ks_statuses (ws_cache (put C now domain ks rows es W))) =
   (\<lambda>r. (sp_id (payload (fst r)), domain)) ` set rows \<union> status_key_for_status ` set (ks_statuses (ws_cache W))"
  by (simp add: statuses_table.key_set_upserts image_image)

lemma logged_in_put [simp]: "logged_in (put C now domain ks rows es W) = logged_in W"
  by (simp add: fun_eq_iff logged_in_def)

lemma entries_owned_put:
  "entries_owned W \<Longrightarrow> (\<And>e. e \<in> set es \<Longrightarrow> logged_in W (te_account_acct e)) \<Longrightarrow>
   entries_owned (put C now domain ks rows es W)"
proof -
  assume W: "entries_owned W" and es: "\<And>e. e \<in> set es \<Longrightarrow> logged_in W (te_account_acct e)"
  have "te_account_acct e \<in> te_account_acct ` (set es \<union> set (ks_timeline_entries (ws_cache W)))"
    if "e \<in> set (upserts entry_row_key ignored es (ks_timeline_entries (ws_cache W)))" for e
  proof -
    have "entry_row_key e \<in> entry_row_key ` set es \<union> entry_row_key ` set (ks_timeline_entries (ws_cache W))"
      using that entries_table.key_set_upserts[of es "ks_timeline_entries (ws_cache W)"] by blast
    then show ?thesis by (auto simp: entry_row_key_def image_iff)
  qed
  then show ?thesis
    using W es by (fastforce simp: entries_owned_def)
qed

lemma persist_item_put:
  assumes "accounts_known domain ks W" "entries_owned W"
  shows "persist_item C now domain item (W, ks, ts) =
    (if may_save_item W item
     then Inr (written C now domain ks [item] W, known_accounts domain ks (map fst (item_rows item)),
       ts @ concat (map row_tags (map fst (item_rows item))))
     else Inl foreign_key_failed)"
proof -
  let ?s = "bi_status item" and ?v = "bi_viewer_acct item"
  let ?ss = "related ?s @ [?s]"
  let ?W' = "put C now domain ks (item_rows item) [] W"
  have rows: "map (\<lambda>s. (s, ?v)) ?ss = item_rows item" by (simp add: item_rows_def)
  note graph = persist_graph_put[OF assms(1), of C now ?v ?s ts, unfolded rows]
  show ?thesis
  proof (cases "bi_timeline item")
    case None
    have "written C now domain ks [item] W = ?W'"
      by (simp add: written_def None item_entries_def)
    then show ?thesis
      using graph None by (simp add: persist_item_def may_save_item_def may_save_def)
  next
    case (Some b)
    let ?e = "entry_of C domain b ?s"
    have "entry_key ?e \<in> status_key_for_status ` set (ks_statuses (ws_cache ?W'))"
      unfolding put_statuses_keys by (simp add: entry_key_def entry_of_def item_rows_def)
    then have insert: "insert_timeline_entry_on ?e ?W' = (if logged_in W (bt_account_acct b)
        then Inr (put C now domain (known_accounts domain ks (map fst (item_rows item))) [] [?e] ?W')
        else Inl foreign_key_failed)"
      using insert_entry_put[OF entries_owned_put[OF assms(2)], of "[]" ?e C now domain ks "item_rows item" C now domain
          "known_accounts domain ks (map fst (item_rows item))"]
      by (simp add: entry_of_def)
    have "written C now domain ks [item] W =
        put C now domain (known_accounts domain ks (map fst (item_rows item))) [] [?e] ?W'"
      unfolding put_put by (simp add: written_def Some item_entries_def)
    then show ?thesis
      using graph insert Some by (simp add: persist_item_def may_save_item_def may_save_def)
  qed
qed

lemma may_save_item_put [simp]: "may_save_item (put C now domain ks rows es W) = may_save_item W"
  by (simp add: fun_eq_iff may_save_item_def)

lemma may_save_item_entry:
  "may_save_item W item \<Longrightarrow> e \<in> set (item_entries C domain item) \<Longrightarrow> logged_in W (te_account_acct e)"
  by (auto simp: may_save_item_def item_entries_def may_save_def entry_of_def split: option.splits)

lemma written_written:
  "written C now domain (known_accounts domain ks (map fst (batch_rows is))) js (written C now domain ks is W) =
   written C now domain ks (is @ js) W"
  by (simp add: written_def put_put batch_append)

lemma written_keeps:
  assumes "accounts_known domain ks W" "entries_owned W" "\<forall>i \<in> set is. may_save_item W i"
  shows "accounts_known domain (known_accounts domain ks (map fst (batch_rows is))) (written C now domain ks is W)"
    "entries_owned (written C now domain ks is W)"
proof -
  show "accounts_known domain (known_accounts domain ks (map fst (batch_rows is))) (written C now domain ks is W)"
    unfolding written_def by (rule accounts_known_put[OF assms(1)])
  show "entries_owned (written C now domain ks is W)"
    unfolding written_def
    using assms(2,3) may_save_item_entry
    by (intro entries_owned_put) (auto simp: batch_entries_def)
qed

lemma persist_items_put:
  assumes "accounts_known domain ks W" "entries_owned W"
  shows "try_fold (persist_item C now domain) is (W, ks, ts) =
    (if \<forall>i \<in> set is. may_save_item W i
     then Inr (written C now domain ks is W, known_accounts domain ks (map fst (batch_rows is)),
       ts @ concat (map row_tags (map fst (batch_rows is))))
     else Inl foreign_key_failed)"
  using assms
proof (induction "is" arbitrary: W ks ts)
  case Nil
  then show ?case by (simp add: written_def put_Nil known_accounts_def new_accounts_def)
next
  case (Cons i "is")
  show ?case
  proof (cases "may_save_item W i")
    case False
    then show ?thesis by (simp add: persist_item_put[OF Cons.prems])
  next
    case True
    let ?W = "written C now domain ks [i] W" and ?ks = "known_accounts domain ks (map fst (item_rows i))"
    have known: "accounts_known domain ?ks ?W" "entries_owned ?W"
      using written_keeps[OF Cons.prems, of "[i]" C now] True by simp_all
    have may: "may_save_item ?W = may_save_item W" by (simp add: written_def)
    have joined: "written C now domain ?ks is ?W = written C now domain ks (i # is) W"
      using written_written[of C now domain ks "[i]" "is" W] by simp
    have accounts: "known_accounts domain ?ks (map fst (batch_rows is)) =
        known_accounts domain ks (map fst (batch_rows (i # is)))"
      unfolding batch_simps(2) map_append known_accounts_append ..
    have step: "try_fold (persist_item C now domain) (i # is) (W, ks, ts) =
        try_fold (persist_item C now domain) is (?W, ?ks, ts @ concat (map row_tags (map fst (item_rows i))))"
      using True by (simp only: try_fold.simps persist_item_put[OF Cons.prems] if_True and_then.simps)
    show ?thesis
      unfolding step Cons.IH[OF known] joined accounts may
      using True by (simp add: batch_rows_def)
  qed
qed

section \<open>Transactions\<close>

lemma upsert_tags_known:
  assumes "\<forall>n \<in> set names. (n, domain) \<in> set (ws_tags W)"
  shows "fold (\<lambda>n. upsert_tag_on n domain) names W = W"
  using assms
proof (induction names)
  case (Cons n names)
  have "upsert (\<lambda>t. t) ignored (n, domain) (ws_tags W) = ws_tags W"
    using Cons.prems by (simp add: upsert_def ignored_def cong: if_cong)
  then show ?case using Cons by (simp add: upsert_tag_on_def)
qed simp

definition server_known :: "rstr \<Rightarrow> write_store \<Rightarrow> write_store" where
  "server_known domain W = upsert_server_on domain (str ''wss://'' @ domain) W"

lemma server_known_simps [simp]:
  "ws_cache (server_known domain W) = ws_cache W"
  "may_save_item (server_known domain W) = may_save_item W"
  "entries_owned (server_known domain W) = entries_owned W"
  "accounts_known domain' ks (server_known domain W) = accounts_known domain' ks W"
  "server_known domain (server_known domain W) = server_known domain W"
  "server_known domain (put C now domain ks rows es W) = put C now domain ks rows es (server_known domain W)"
proof -
  show cache: "ws_cache (server_known domain W) = ws_cache W" for W
    by (simp add: server_known_def upsert_server_on_def)
  then show "may_save_item (server_known domain W) = may_save_item W"
    "entries_owned (server_known domain W) = entries_owned W"
    "accounts_known domain' ks (server_known domain W) = accounts_known domain' ks W"
    by (auto simp: fun_eq_iff may_save_item_def may_save_def logged_in_def entries_owned_def
        accounts_known_def split: option.splits)
  let ?u = "upsert fst ignored (domain, str ''wss://'' @ domain) (ws_servers W)"
  have "domain \<in> fst ` set ?u"
    using servers_table.key_set_upserts[of "[(domain, str ''wss://'' @ domain)]" "ws_servers W"] by simp
  then have "upsert fst ignored (domain, str ''wss://'' @ domain) ?u = ?u"
    unfolding upsert_def[of fst ignored "(domain, str ''wss://'' @ domain)" ?u]
    by (simp add: ignored_def cong: if_cong)
  then show "server_known domain (server_known domain W) = server_known domain W"
    by (simp add: server_known_def upsert_server_on_def)
  show "server_known domain (put C now domain ks rows es W) = put C now domain ks rows es (server_known domain W)"
    by (rule store_eqI) (simp_all add: server_known_def upsert_server_on_def)
qed

lemma server_known_written [simp]:
  "server_known domain (written C now domain ks is W) = written C now domain ks is (server_known domain W)"
  by (simp add: written_def)

lemma run_transaction_put:
  assumes "accounts_known domain ks W" "entries_owned W"
  shows "run_transaction C domain H i batch (ks, persisted_tags) W =
    (if \<not> (\<forall>b \<in> set batch. may_save_item W b) then Inl foreign_key_failed
     else case ah_failure H i of Some e \<Rightarrow> Inl e
       | None \<Rightarrow> Inr (written C (ah_now H) domain ks batch (server_known domain W),
           known_accounts domain ks (map fst (batch_rows batch)),
           persisted_tags @ filter (\<lambda>n. n \<notin> set persisted_tags)
             (concat (map row_tags (map fst (batch_rows batch))))))"
proof -
  let ?W = "written C (ah_now H) domain ks batch (server_known domain W)"
  let ?tags = "concat (map row_tags (map fst (batch_rows batch)))"
  have tags: "fold (\<lambda>n. upsert_tag_on n domain) (filter (\<lambda>n. n \<notin> set persisted_tags) ?tags) ?W = ?W"
  proof (rule upsert_tags_known)
    show "\<forall>n \<in> set (filter (\<lambda>n. n \<notin> set persisted_tags) ?tags). (n, domain) \<in> set (ws_tags ?W)"
      using tags_table.key_set_upserts[of
          "concat (map (\<lambda>s. map (\<lambda>n. (n, domain)) (row_tags s)) (map fst (batch_rows batch)))"
          "ws_tags (server_known domain W)"]
      by (auto simp: written_def)
  qed
  have persist: "try_fold (persist_item C (ah_now H) domain) batch (server_known domain W, ks, []) =
    (if \<forall>b \<in> set batch. may_save_item W b
     then Inr (?W, known_accounts domain ks (map fst (batch_rows batch)), ?tags)
     else Inl foreign_key_failed)"
    using persist_items_put[of domain ks "server_known domain W" C "ah_now H" batch "[]"] assms
    by simp
  show ?thesis
    unfolding run_transaction_def fst_conv snd_conv server_known_def[symmetric] persist
    by (cases "\<forall>b \<in> set batch. may_save_item W b"; cases "ah_failure H i")
      (auto simp: tags Let_def simp del: map_map)
qed

lemma save_transactions_effect:
  assumes "accounts_known domain ks W" "entries_owned W"
  shows "\<exists>m \<le> length items.
    fst (save_transactions C domain H i items (ks, tags) W) =
      (if m = 0 then W else written C (ah_now H) domain ks (take m items) (server_known domain W)) \<and>
    (\<forall>j \<in> set (take m items). may_save_item W j) \<and>
    (snd (save_transactions C domain H i items (ks, tags) W) = Inr () \<longrightarrow> m = length items)"
  using assms
proof (induction "length items" arbitrary: items i ks tags W rule: less_induct)
  case less
  let ?now = "ah_now H"
  show ?case
  proof (cases "items = []")
    case True
    then show ?thesis by (simp add: save_transactions.simps)
  next
    case False
    let ?n = "transaction_size H i"
    let ?b = "take ?n items" and ?rest = "drop ?n items"
    have n: "0 < ?n" by (simp add: transaction_size_def)
    show ?thesis
    proof (cases "run_transaction C domain H i ?b (ks, tags) W")
      case (Inl e)
      then have "save_transactions C domain H i items (ks, tags) W = (W, Inl e)"
        using False by (simp add: save_transactions.simps[of C domain H i items])
      then show ?thesis by (intro exI[of _ 0]) simp
    next
      case (Inr r)
      obtain W' ks' tags' where r: "r = (W', ks', tags')" by (cases r) auto
      have may: "\<forall>b \<in> set ?b. may_save_item W b"
        and W': "W' = written C ?now domain ks ?b (server_known domain W)"
        and ks': "ks' = known_accounts domain ks (map fst (batch_rows ?b))"
        using Inr run_transaction_put[OF less.prems, of C H i ?b tags]
        by (auto simp: r split: if_splits option.splits)
      have run: "save_transactions C domain H i items (ks, tags) W =
          save_transactions C domain H (i + 1) ?rest (ks', tags') W'"
        using False Inr r by (simp add: save_transactions.simps[of C domain H i items] Let_def)
      have known: "accounts_known domain ks' W'" "entries_owned W'"
        unfolding W' ks' using less.prems may by (auto intro!: written_keeps)
      have shorter: "length ?rest < length items" using False n by simp
      obtain m where m: "m \<le> length ?rest"
        "fst (save_transactions C domain H (i + 1) ?rest (ks', tags') W') =
          (if m = 0 then W' else written C ?now domain ks' (take m ?rest) (server_known domain W'))"
        "\<forall>j \<in> set (take m ?rest). may_save_item W' j"
        "snd (save_transactions C domain H (i + 1) ?rest (ks', tags') W') = Inr () \<longrightarrow> m = length ?rest"
        using less.hyps[OF shorter known, of "i + 1" tags'] by blast
      have taken: "take (length ?b + m) items = ?b @ take m ?rest"
        by (metis append_take_drop_id take_add length_take min.absorb2 take_append
            add_diff_cancel_left' le_add1 take_all_iff)
      have may': "may_save_item W' = may_save_item W" by (simp add: W' written_def)
      define M where "M = length ?b + m"
      have pos: "M \<noteq> 0" using False n by (simp add: M_def)
      have "fst (save_transactions C domain H (i + 1) ?rest (ks', tags') W') =
          written C ?now domain ks (take M items) (server_known domain W)"
        unfolding m(2) taken M_def by (simp add: W' ks' written_written)
      moreover have "\<forall>j \<in> set (take M items). may_save_item W j"
        unfolding M_def taken set_append using m(3) may unfolding may' by blast
      moreover have "M \<le> length items" "m = length ?rest \<Longrightarrow> M = length items"
        using m(1) by (simp_all add: M_def)
      ultimately show ?thesis
        using m(4) pos unfolding run by (intro exI[of _ M]) simp
    qed
  qed
qed

text \<open>With every account logged in, a save fails only as its host makes it fail.\<close>

definition host_failures :: "attempt_host \<Rightarrow> sql_failure set" where
  "host_failures H = {e. \<exists>i. ah_failure H i = Some e}"

lemma save_transactions_failures:
  assumes "accounts_known domain ks W" "entries_owned W" "\<forall>j \<in> set items. may_save_item W j"
  shows "snd (save_transactions C domain H i items (ks, tags) W) \<in> insert (Inr ()) (Inl ` host_failures H)"
  using assms
proof (induction "length items" arbitrary: items i ks tags W rule: less_induct)
  case less
  show ?case
  proof (cases "items = []")
    case False
    let ?n = "transaction_size H i"
    let ?b = "take ?n items" and ?rest = "drop ?n items"
    let ?W' = "written C (ah_now H) domain ks ?b (server_known domain W)"
    let ?ks' = "known_accounts domain ks (map fst (batch_rows ?b))"
    have n: "0 < ?n" by (simp add: transaction_size_def)
    have may: "\<forall>b \<in> set ?b. may_save_item W b" using less.prems(3) by (auto dest: in_set_takeD)
    have known: "accounts_known domain ?ks' ?W'" "entries_owned ?W'"
      using less.prems may by (auto intro!: written_keeps)
    have rest: "\<forall>j \<in> set ?rest. may_save_item ?W' j"
      using less.prems(3) by (auto simp: written_def dest: in_set_dropD)
    show ?thesis
    proof (cases "ah_failure H i")
      case None
      then obtain tags' where run: "run_transaction C domain H i ?b (ks, tags) W = Inr (?W', ?ks', tags')"
        using run_transaction_put[OF less.prems(1,2), of C H i ?b tags] may by simp
      have "snd (save_transactions C domain H (i + 1) ?rest (?ks', tags') ?W') \<in>
          insert (Inr ()) (Inl ` host_failures H)"
        using False n by (intro less.hyps known rest) simp
      then show ?thesis
        using False run by (simp add: save_transactions.simps[of C domain H i items] Let_def)
    next
      case (Some e)
      then have "run_transaction C domain H i ?b (ks, tags) W = Inl e"
        using run_transaction_put[OF less.prems(1,2), of C H i ?b tags] may by simp
      then show ?thesis
        using False Some by (auto simp: save_transactions.simps[of C domain H i items] Let_def host_failures_def)
    qed
  qed (simp add: save_transactions.simps)
qed

section \<open>Repeated writes\<close>

definition tables_distinct :: "write_store \<Rightarrow> bool" where
  "tables_distinct W \<longleftrightarrow>
     distinct (map status_key_for_status (ks_statuses (ws_cache W))) \<and>
     distinct (map account_key (ks_accounts (ws_cache W))) \<and>
     distinct (map entry_row_key (ks_timeline_entries (ws_cache W))) \<and>
     distinct (map state_row_key (ks_viewer_states (ws_cache W))) \<and>
     distinct (ws_tags W) \<and> distinct (map fst (ws_identities W))"

lemma set_tags_rows:
  "fold (set_tags domain) ss f k =
     (case row_of (\<lambda>s. (sp_id (payload s), domain)) k (rev ss) of
        None \<Rightarrow> f k | Some s \<Rightarrow> upserts (\<lambda>t. t) ignored (row_tags s) [])"
  by (induction ss arbitrary: f) (auto simp: row_of_append set_tags_def split: option.split)

lemma set_tags_absorb:
  "fold (set_tags domain) (p @ q) (fold (set_tags domain) p f) = fold (set_tags domain) (p @ q) f"
proof
  fix k
  show "fold (set_tags domain) (p @ q) (fold (set_tags domain) p f) k = fold (set_tags domain) (p @ q) f k"
    by (simp only: set_tags_rows rev_append row_of_append) (simp split: option.split)
qed

lemma row_status_same_write:
  "same_write status_key_for_status status_conflict (row_status C now domain s) (row_status C now' domain s)"
  by (simp add: same_write_def fun_eq_iff status_conflict_def row_status_def stored_status_def
      status_from_api_def status_key_for_status_def Let_def)

lemma account_same_write:
  "same_write account_key account_conflict (account_from_api C now a domain) (account_from_api C now' a domain)"
  by (simp add: same_write_def fun_eq_iff account_conflict_def account_from_api_def account_key_def)

lemma states_same_write:
  "list_all2 (same_write state_row_key replaced) (row_states C now domain r) (row_states C now' domain r)"
  by (auto simp: row_states_def same_write_def fun_eq_iff replaced_def state_row_key_def state_key_def
      viewer_state_of_def status_from_api_def Let_def split: option.split prod.split)

lemma same_write_refl_ignored: "list_all2 (same_write key ignored) xs xs"
  by (rule list_all2_refl) (simp add: same_write_def ignored_def)

lemma identity_same_write:
  "same_write fst replaced (identity_of (row_status C now domain s)) (identity_of (row_status C now' domain s))"
  by (simp add: same_write_def fun_eq_iff replaced_def identity_of_def row_status_def stored_status_def
      status_from_api_def status_key_for_status_def Let_def)

lemma list_all2_concat:
  "(\<And>x. list_all2 P (f x) (g x)) \<Longrightarrow> list_all2 P (concat (map f xs)) (concat (map g xs))"
  by (induction xs) (simp_all add: list_all2_appendI)

text \<open>What a failed attempt has written is absorbed by the next one.\<close>

lemma put_absorb:
  assumes "tables_distinct W"
  shows "put C now' domain [] (p @ q) (es @ es') (put C now domain [] p es W) =
    put C now' domain [] (p @ q) (es @ es') W"
proof (rule store_eqI)
  let ?W = "put C now domain [] p es W"
  note d = assms[unfolded tables_distinct_def]
  have statuses: "ks_statuses (ws_cache (put C now' domain [] (p @ q) (es @ es') ?W)) =
      ks_statuses (ws_cache (put C now' domain [] (p @ q) (es @ es') W))"
    using d statuses_table.upserts_absorb[of "ks_statuses (ws_cache W)"
        "map (row_status C now domain) (map fst p)" "map (row_status C now' domain) (map fst p)"
        "map (row_status C now' domain) (map fst q)"]
    by (simp add: list_all2_map1 list_all2_map2 list_all2_refl row_status_same_write)
  then show "ks_statuses (ws_cache (put C now' domain [] (p @ q) (es @ es') ?W)) =
      ks_statuses (ws_cache (put C now' domain [] (p @ q) (es @ es') W))" .
  show "ks_accounts (ws_cache (put C now' domain [] (p @ q) (es @ es') ?W)) =
      ks_accounts (ws_cache (put C now' domain [] (p @ q) (es @ es') W))"
    using d accounts_table.upserts_absorb[of "ks_accounts (ws_cache W)"
        "map (\<lambda>s. account_from_api C now (sp_account (payload s)) domain) (new_accounts domain [] (map fst p))"
        "map (\<lambda>s. account_from_api C now' (sp_account (payload s)) domain) (new_accounts domain [] (map fst p))"]
    by (simp add: new_accounts_append list_all2_map1 list_all2_map2 list_all2_refl account_same_write)
  show "ks_timeline_entries (ws_cache (put C now' domain [] (p @ q) (es @ es') ?W)) =
      ks_timeline_entries (ws_cache (put C now' domain [] (p @ q) (es @ es') W))"
    using d entries_table.upserts_absorb[OF _ same_write_refl_ignored] by simp
  have states: "list_all2 (same_write state_row_key replaced)
      (concat (map (row_states C now domain) p)) (concat (map (row_states C now' domain) p))"
    by (rule list_all2_concat) (rule states_same_write)
  show "ks_viewer_states (ws_cache (put C now' domain [] (p @ q) (es @ es') ?W)) =
      ks_viewer_states (ws_cache (put C now' domain [] (p @ q) (es @ es') W))"
    using d states_table.upserts_absorb[of "ks_viewer_states (ws_cache W)", OF _ states] by simp
  show "ks_status_counter (ws_cache (put C now' domain [] (p @ q) (es @ es') ?W)) =
      ks_status_counter (ws_cache (put C now' domain [] (p @ q) (es @ es') W))"
    using statuses by (simp add: option.map_comp o_def)
  show "ws_tags (put C now' domain [] (p @ q) (es @ es') ?W) =
      ws_tags (put C now' domain [] (p @ q) (es @ es') W)"
    using d tags_table.upserts_absorb[OF _ same_write_refl_ignored] by simp
  show "ws_status_tags (put C now' domain [] (p @ q) (es @ es') ?W) =
      ws_status_tags (put C now' domain [] (p @ q) (es @ es') W)"
    using set_tags_absorb[of domain "map fst p" "map fst q"] by simp
  show "ws_identities (put C now' domain [] (p @ q) (es @ es') ?W) =
      ws_identities (put C now' domain [] (p @ q) (es @ es') W)"
    using d identities_table.upserts_absorb[of "ws_identities W"
        "map (\<lambda>s. identity_of (row_status C now domain s)) (map fst p)"
        "map (\<lambda>s. identity_of (row_status C now' domain s)) (map fst p)"]
    by (simp add: list_all2_map1 list_all2_map2 list_all2_refl identity_same_write)
qed simp_all

end
