(* ===== verification/StoreIntact.thy ===== *)
theory StoreIntact
imports StatusEffects
begin

text \<open>
  The other writers of the store (login accounts and columns, single accounts, timeline entries and
  polls, the deletion of a status and the clearing of the cache) and the invariant of all of them:
  primary keys are unique, what a row refers to exists, the cached counter counts the statuses, and one
  login account is active while there is one. A run is a list of events; a save is one event with its
  transactions and retries, whatever fails in it.
\<close>

section \<open>Login accounts and columns\<close>

definition login_conflict :: "login_account_identity \<Rightarrow> login_account_identity \<Rightarrow> login_account_identity" where
  "login_conflict old new = new\<lparr>la_is_active := la_is_active old\<rparr>"

interpretation logins_table: keyed_table la_acct login_conflict
  by unfold_locales (simp_all add: login_conflict_def)

definition activate :: "rstr \<Rightarrow> login_account_identity list \<Rightarrow> login_account_identity list" where
  "activate acct las = map (\<lambda>la. la\<lparr>la_is_active := (la_acct la = acct)\<rparr>) las"

definition set_logins :: "login_account_identity list \<Rightarrow> write_store \<Rightarrow> write_store" where
  "set_logins las W = W\<lparr>ws_cache := (ws_cache W)\<lparr>ks_login_accounts := las\<rparr>\<rparr>"

text \<open>\<^verbatim>\<open>RowNotFound\<close> is \<open>OtherSqlFailure\<close>.\<close>

definition set_active_account :: "rstr \<Rightarrow> write_store \<Rightarrow> write_store \<times> (sql_failure + unit)" where
  "set_active_account acct W =
     (if \<not> logged_in W acct then (W, Inl OtherSqlFailure)
      else (set_logins (activate acct (ks_login_accounts (ws_cache W))) W, Inr ()))"

text \<open>\<^verbatim>\<open>UPDATE login_accounts SET is_active = (acct = ?)\<close> visits the rows in the order of their rowids, and
  each of its changes is checked against the partial unique index over the active rows at once.\<close>

fun activate_rows ::
  "rstr \<Rightarrow> login_account_identity list \<Rightarrow> login_account_identity list \<Rightarrow> login_account_identity list option" where
  "activate_rows acct updated [] = Some updated"
| "activate_rows acct updated (la # las) =
     (if la_acct la = acct \<and> (\<exists>other \<in> set (updated @ las). la_is_active other) then None
      else activate_rows acct (updated @ [la\<lparr>la_is_active := (la_acct la = acct)\<rparr>]) las)"

definition active_not_unique :: sql_failure where
  "active_not_unique = DatabaseFailure (str ''UNIQUE constraint failed: login_accounts.is_active'')"

definition upsert_and_activate_login_account ::
  "login_account_identity \<Rightarrow> write_store \<Rightarrow> write_store \<times> (sql_failure + unit)" where
  "upsert_and_activate_login_account la W =
     (case activate_rows (la_acct la) []
         (upsert la_acct login_conflict (la\<lparr>la_is_active := False\<rparr>) (ks_login_accounts (ws_cache W))) of
        None \<Rightarrow> (W, Inl active_not_unique)
      | Some las \<Rightarrow> (set_logins las W, Inr ()))"

definition fallback_account :: "rstr \<Rightarrow> write_store \<Rightarrow> rstr option" where
  "fallback_account acct W =
     (case filter (\<lambda>la. la_acct la \<noteq> acct) (load_login_account_identities (ws_cache W)) of
        [] \<Rightarrow> None | la # _ \<Rightarrow> Some (la_acct la))"

definition rebind_columns :: "rstr \<Rightarrow> rstr option \<Rightarrow> column_config list \<Rightarrow> column_config list" where
  "rebind_columns acct fallback columns =
     (case fallback of
        Some fallback_acct \<Rightarrow> map (\<lambda>c. if cc_account_acct c = Some acct
          then c\<lparr>cc_account_acct := Some fallback_acct\<rparr> else c) columns
      | None \<Rightarrow> filter (\<lambda>c. cc_account_acct c \<noteq> Some acct) columns)"

definition remove_login_account_and_reassign ::
  "rstr \<Rightarrow> write_store \<Rightarrow> write_store \<times> (sql_failure + rstr option)" where
  "remove_login_account_and_reassign acct W =
     (if \<not> logged_in W acct then (W, Inl OtherSqlFailure)
      else let cache = ws_cache W; fallback = fallback_account acct W;
               remaining = filter (\<lambda>la. la_acct la \<noteq> acct) (ks_login_accounts cache);
               inactive = map (\<lambda>la. la\<lparr>la_is_active := False\<rparr>) remaining
           in (W\<lparr>ws_cache := cache\<lparr>
                   ks_login_accounts := (case fallback of None \<Rightarrow> inactive
                     | Some fallback_acct \<Rightarrow> activate fallback_acct inactive),
                   ks_timeline_entries := filter (\<lambda>e. te_account_acct e \<noteq> acct) (ks_timeline_entries cache),
                   ks_viewer_states := filter (\<lambda>v. vs_login_account_acct v \<noteq> acct) (ks_viewer_states cache)\<rparr>,
                 ws_columns := rebind_columns acct fallback (ws_columns W)\<rparr>, Inr fallback))"

text \<open>A column whose id is taken or whose account is unknown rolls the replacement back.\<close>

definition insert_column :: "column_config \<Rightarrow> write_store \<Rightarrow> sql_failure + write_store" where
  "insert_column c W =
     (if cc_id c \<in> cc_id ` set (ws_columns W)
      then Inl (DatabaseFailure (str ''UNIQUE constraint failed: column_configs.id''))
      else if \<not> may_save W (cc_account_acct c) then Inl foreign_key_failed
      else Inr (W\<lparr>ws_columns := ws_columns W @ [c]\<rparr>))"

definition replace_all_column_configs ::
  "column_config list \<Rightarrow> write_store \<Rightarrow> write_store \<times> (sql_failure + unit)" where
  "replace_all_column_configs configs W =
     (case try_fold insert_column configs (W\<lparr>ws_columns := []\<rparr>) of
        Inl e \<Rightarrow> (W, Inl e) | Inr W' \<Rightarrow> (W', Inr ()))"

text \<open>The part of \<^verbatim>\<open>clear_status_cache\<close> that concerns these tables.\<close>

definition clear_cached_rows :: "write_store \<Rightarrow> write_store" where
  "clear_cached_rows W =
     (let W' = delete_statuses_where (\<lambda>_. True) W
      in W'\<lparr>ws_cache := (ws_cache W')\<lparr>ks_timeline_entries := [], ks_accounts := [],
              ks_status_counter := map_option (\<lambda>_. 0) (ks_status_counter (ws_cache W'))\<rparr>\<rparr>)"

section \<open>Single rows\<close>

text \<open>A provider's account on its own; accounts refer to the servers.\<close>

definition upsert_account :: "db_account \<Rightarrow> write_store \<Rightarrow> write_store \<times> (sql_failure + unit)" where
  "upsert_account a W =
     (if ac_server_domain a \<notin> fst ` set (ws_servers W) then (W, Inl foreign_key_failed)
      else (upsert_account_on a W, Inr ()))"

text \<open>A favourite or bookmark of the user adds an entry to that timeline, taking it back deletes the entry.
  \<open>failures\<close> gives the failure of the database in each attempt.\<close>

definition insert_timeline_entry ::
  "sql_failure option \<Rightarrow> timeline_entry \<Rightarrow> write_store \<Rightarrow> write_store \<times> (sql_failure + unit)" where
  "insert_timeline_entry failure e W =
     (case failure of
        Some error \<Rightarrow> (W, Inl error)
      | None \<Rightarrow> (case insert_timeline_entry_on e W of Inl error \<Rightarrow> (W, Inl error) | Inr W' \<Rightarrow> (W', Inr ())))"

definition insert_timeline_entry_with_retry ::
  "(nat \<Rightarrow> sql_failure option) \<Rightarrow> timeline_entry \<Rightarrow> write_store \<Rightarrow>
   write_store \<times> (sql_failure + unit) \<times> nat list" where
  "insert_timeline_entry_with_retry failures e W =
     retry_db_write (\<lambda>attempt. insert_timeline_entry (failures attempt) e) 1 W"

definition delete_timeline_entry :: "rstr \<Rightarrow> rstr \<Rightarrow> rstr \<Rightarrow> rstr \<Rightarrow> write_store \<Rightarrow> write_store" where
  "delete_timeline_entry timeline_type i domain acct W =
     W\<lparr>ws_cache := (ws_cache W)\<lparr>ks_timeline_entries :=
        filter (\<lambda>e. \<not> (te_timeline_type e = timeline_type \<and> te_status_id e = i \<and>
            te_server_domain e = domain \<and> te_account_acct e = acct))
          (ks_timeline_entries (ws_cache W))\<rparr>\<rparr>"

definition delete_status_from_db_with_retry ::
  "(nat \<Rightarrow> sql_failure option) \<Rightarrow> rstr \<Rightarrow> rstr \<Rightarrow> write_store \<Rightarrow> write_store \<times> (sql_failure + nat) \<times> nat list" where
  "delete_status_from_db_with_retry failures i domain W =
     retry_db_write (\<lambda>attempt W. case failures attempt of
         Some error \<Rightarrow> (W, Inl error)
       | None \<Rightarrow> (let (W', rows) = delete_status_and_references i domain W in (W', Inr rows))) 1 W"

definition update_cached_status_poll :: "rstr \<Rightarrow> rstr \<Rightarrow> rstr \<Rightarrow> write_store \<Rightarrow> write_store" where
  "update_cached_status_poll i domain poll_json W =
     W\<lparr>ws_cache := (ws_cache W)\<lparr>ks_statuses :=
        map (\<lambda>s. if st_id s = i \<and> st_server_domain s = domain then s\<lparr>st_poll_json := Some poll_json\<rparr> else s)
          (ks_statuses (ws_cache W))\<rparr>\<rparr>"

section \<open>The invariant\<close>

definition refers_ok :: "write_store \<Rightarrow> bool" where
  "refers_ok W \<longleftrightarrow>
     (let cache = ws_cache W; keys = status_key_for_status ` set (ks_statuses cache) in
      (\<forall>s \<in> set (ks_statuses cache). author_key s \<in> account_key ` set (ks_accounts cache)) \<and>
      (\<forall>e \<in> set (ks_timeline_entries cache). logged_in W (te_account_acct e) \<and> entry_key e \<in> keys) \<and>
      (\<forall>v \<in> set (ks_viewer_states cache). logged_in W (vs_login_account_acct v) \<and> state_key v \<in> keys) \<and>
      (\<forall>i \<in> set (ws_identities W). fst i \<in> keys) \<and>
      (\<forall>k. k \<notin> keys \<longrightarrow> ws_status_tags W k = []) \<and>
      (\<forall>c \<in> set (ws_columns W). may_save W (cc_account_acct c)))"

definition logins_ok :: "login_account_identity list \<Rightarrow> bool" where
  "logins_ok las \<longleftrightarrow> distinct (map la_acct las) \<and>
     (las \<noteq> [] \<longrightarrow> length (filter la_is_active las) = 1)"

definition counter_ok :: "kq_store \<Rightarrow> bool" where
  "counter_ok cache \<longleftrightarrow> (\<forall>n. ks_status_counter cache = Some n \<longrightarrow> n = int (length (ks_statuses cache)))"

definition store_intact :: "write_store \<Rightarrow> bool" where
  "store_intact W \<longleftrightarrow> tables_distinct W \<and> refers_ok W \<and> logins_ok (ks_login_accounts (ws_cache W)) \<and>
     counter_ok (ws_cache W) \<and> distinct (map cc_id (ws_columns W))"

section \<open>Saves keep it\<close>

lemma tables_distinct_put: "tables_distinct W \<Longrightarrow> tables_distinct (put C now domain ks rows es W)"
proof -
  assume "tables_distinct W"
  moreover have "distinct (ws_tags W) \<Longrightarrow> distinct (upserts (\<lambda>t. t) ignored ws (ws_tags W))" for ws
    using tags_table.distinct_upserts[of "ws_tags W" ws] by simp
  ultimately show ?thesis
    by (simp add: tables_distinct_def statuses_table.distinct_upserts accounts_table.distinct_upserts
        entries_table.distinct_upserts states_table.distinct_upserts identities_table.distinct_upserts)
qed

lemma row_status_author_key:
  "author_key (row_status C now domain s) = (aa_id (sp_account (payload s)), domain)"
  by (simp add: author_key_def row_status_def stored_status_def status_from_api_def Let_def)

lemma written_accounts_known:
  assumes "accounts_known domain ks W" "s \<in> set ss"
  shows "(aa_id (sp_account (payload s)), domain) \<in> account_key ` set (upserts account_key account_conflict
    (map (\<lambda>s. account_from_api C now (sp_account (payload s)) domain) (new_accounts domain ks ss))
    (ks_accounts (ws_cache W)))"
proof -
  have "account_text domain s \<in> account_text domain ` set (new_accounts domain ks ss) \<union> set ks"
    using assms(2) set_dedup_by[of "account_text domain" ks ss] by (auto simp: new_accounts_def)
  then show ?thesis
    using assms(1) unfolding accounts_table.key_set_upserts
    by (auto simp: account_from_api_key image_image account_text_eq accounts_known_def)
qed

lemma row_states_key:
  "v \<in> set (row_states C now domain r) \<Longrightarrow>
   snd r = Some (vs_login_account_acct v) \<and> state_key v = (sp_id (payload (fst r)), domain)"
  by (auto simp: row_states_def viewer_state_of_def state_key_def status_from_api_def Let_def
      split: option.splits prod.splits)

lemma may_save_entry: "may_save (put C now domain ks rows es W) = may_save W"
  by simp

lemma refers_ok_put:
  assumes ok: "refers_ok W" and known: "accounts_known domain ks W"
    and rows: "\<And>r. r \<in> set rows \<Longrightarrow> may_save W (snd r)"
    and es: "\<And>e. e \<in> set es \<Longrightarrow> logged_in W (te_account_acct e) \<and>
      entry_key e \<in> (\<lambda>r. (sp_id (payload (fst r)), domain)) ` set rows"
  shows "refers_ok (put C now domain ks rows es W)" (is "refers_ok ?W")
proof -
  let ?c = "ws_cache W" and ?new = "(\<lambda>r. (sp_id (payload (fst r)), domain)) ` set rows"
  let ?keys = "status_key_for_status ` set (ks_statuses ?c)"
  let ?accounts = "account_key ` set (ks_accounts (ws_cache ?W))"
  note old = ok[unfolded refers_ok_def Let_def]
  have keys: "status_key_for_status ` set (ks_statuses (ws_cache ?W)) = ?new \<union> ?keys"
    by (rule put_statuses_keys)
  have grown: "account_key ` set (ks_accounts ?c) \<subseteq> ?accounts"
    by (simp add: accounts_table.key_set_upserts)
  have "author_key s \<in> ?accounts" if "s \<in> set (ks_statuses (ws_cache ?W))" for s
  proof (rule statuses_table.upserts_all[where P = "\<lambda>s. author_key s \<in> ?accounts"])
    show "s \<in> set (upserts status_key_for_status status_conflict (map (row_status C now domain) (map fst rows))
        (ks_statuses ?c))"
      using that by simp
    show "author_key r \<in> ?accounts" if "r \<in> set (ks_statuses ?c)" for r
      using that old grown by blast
    show "author_key w \<in> ?accounts" if w: "w \<in> set (map (row_status C now domain) (map fst rows))" for w
    proof -
      obtain s where s: "s \<in> set (map fst rows)" "w = row_status C now domain s"
        using w unfolding set_map[of "row_status C now domain"] by blast
      show ?thesis
        unfolding s(2) row_status_author_key put_fields by (rule written_accounts_known[OF known s(1)])
    qed
    show "author_key (status_conflict s w) \<in> ?accounts"
      if "author_key s \<in> ?accounts" "author_key w \<in> ?accounts" "status_key_for_status s = status_key_for_status w"
      for s w
      using that by (simp add: status_conflict_def author_key_def status_key_for_status_def)
  qed
  moreover have "logged_in W (te_account_acct e) \<and> entry_key e \<in> ?new \<union> ?keys"
    if "e \<in> set (ks_timeline_entries (ws_cache ?W))" for e
  proof (rule entries_table.upserts_all[where P = "\<lambda>e. logged_in W (te_account_acct e) \<and> entry_key e \<in> ?new \<union> ?keys"])
    show "e \<in> set (upserts entry_row_key ignored es (ks_timeline_entries ?c))" using that by simp
    show "logged_in W (te_account_acct w) \<and> entry_key w \<in> ?new \<union> ?keys" if "w \<in> set es" for w
      using es[OF that] by blast
  qed (use old in \<open>auto simp: ignored_def\<close>)
  moreover have "logged_in W (vs_login_account_acct v) \<and> state_key v \<in> ?new \<union> ?keys"
    if "v \<in> set (ks_viewer_states (ws_cache ?W))" for v
  proof (rule states_table.upserts_all[where P = "\<lambda>v. logged_in W (vs_login_account_acct v) \<and> state_key v \<in> ?new \<union> ?keys"])
    show "v \<in> set (upserts state_row_key replaced (concat (map (row_states C now domain) rows)) (ks_viewer_states ?c))"
      using that by simp
    show "logged_in W (vs_login_account_acct w) \<and> state_key w \<in> ?new \<union> ?keys"
      if w: "w \<in> set (concat (map (row_states C now domain) rows))" for w
    proof -
      obtain r where r: "r \<in> set rows" "w \<in> set (row_states C now domain r)" using w by auto
      show ?thesis using row_states_key[OF r(2)] rows[OF r(1)] r(1) by (auto simp: may_save_def)
    qed
  qed (use old in \<open>auto simp: replaced_def\<close>)
  moreover have "fst i \<in> ?new \<union> ?keys" if "i \<in> set (ws_identities ?W)" for i
  proof (rule identities_table.upserts_all[where P = "\<lambda>i. fst i \<in> ?new \<union> ?keys"])
    show "i \<in> set (upserts fst replaced (map (\<lambda>s. identity_of (row_status C now domain s)) (map fst rows)) (ws_identities W))"
      using that by simp
    show "fst w \<in> ?new \<union> ?keys" if w: "w \<in> set (map (\<lambda>s. identity_of (row_status C now domain s)) (map fst rows))" for w
    proof -
      obtain r where r: "r \<in> set rows" "w = identity_of (row_status C now domain (fst r))" using w by auto
      have "fst w = (sp_id (payload (fst r)), domain)"
        unfolding r(2) by (simp add: identity_of_def row_status_key)
      then show ?thesis using r(1) by blast
    qed
  qed (use old in \<open>auto simp: replaced_def\<close>)
  moreover have "ws_status_tags ?W k = []" if "k \<notin> ?new \<union> ?keys" for k
  proof -
    have "row_of (\<lambda>s. (sp_id (payload s), domain)) k (rev (map fst rows)) = None"
      using that by (auto simp: row_of_None)
    then have "fold (set_tags domain) (map fst rows) (ws_status_tags W) k = ws_status_tags W k"
      unfolding set_tags_rows by simp
    moreover have "ws_status_tags W k = []" using that old by blast
    ultimately show ?thesis by simp
  qed
  moreover have "\<forall>c \<in> set (ws_columns ?W). may_save ?W (cc_account_acct c)"
    using old by simp
  ultimately show ?thesis
    unfolding refers_ok_def Let_def keys logged_in_put by blast
qed

lemma store_intact_put:
  assumes "store_intact W" "accounts_known domain ks W"
    and "\<And>r. r \<in> set rows \<Longrightarrow> may_save W (snd r)"
    and "\<And>e. e \<in> set es \<Longrightarrow> logged_in W (te_account_acct e) \<and>
      entry_key e \<in> (\<lambda>r. (sp_id (payload (fst r)), domain)) ` set rows"
  shows "store_intact (put C now domain ks rows es W)"
proof -
  have "counter_ok (ws_cache (put C now domain ks rows es W))"
    using assms(1) by (auto simp: store_intact_def counter_ok_def)
  then show ?thesis
    using assms(1) tables_distinct_put refers_ok_put[OF _ assms(2,3,4)]
    by (simp add: store_intact_def)
qed

lemma store_intact_written:
  assumes "store_intact W" "accounts_known domain ks W" "\<forall>i \<in> set items. may_save_item W i"
  shows "store_intact (written C now domain ks items W)"
  unfolding written_def
proof (rule store_intact_put[OF assms(1,2)])
  show "may_save W (snd r)" if "r \<in> set (batch_rows items)" for r
    using that assms(3) by (auto simp: batch_rows_def item_rows_def may_save_item_def)
  show "logged_in W (te_account_acct e) \<and>
      entry_key e \<in> (\<lambda>r. (sp_id (payload (fst r)), domain)) ` set (batch_rows items)"
    if "e \<in> set (batch_entries C domain items)" for e
  proof -
    obtain i where i: "i \<in> set items" "e \<in> set (item_entries C domain i)"
      using \<open>e \<in> set (batch_entries C domain items)\<close> by (auto simp: batch_entries_def)
    then have "entry_key e = (sp_id (payload (bi_status i)), domain)"
      by (auto simp: item_entries_def entry_of_def entry_key_def split: option.splits)
    moreover have "(bi_status i, bi_viewer_acct i) \<in> set (batch_rows items)"
      using i(1) by (auto simp: batch_rows_def item_rows_def)
    ultimately show ?thesis
      using may_save_item_entry[OF _ i(2)] assms(3) i(1) by (auto simp: image_iff intro!: bexI)
  qed
qed

lemma store_intact_owned: "store_intact W \<Longrightarrow> entries_owned W"
  by (simp add: store_intact_def refers_ok_def entries_owned_def Let_def)

lemma store_intact_server [simp]: "store_intact (server_known domain W) = store_intact W"
proof -
  have "ws_tags (server_known domain W) = ws_tags W" "ws_status_tags (server_known domain W) = ws_status_tags W"
    "ws_identities (server_known domain W) = ws_identities W" "ws_columns (server_known domain W) = ws_columns W"
    by (simp_all add: server_known_def upsert_server_on_def)
  then show ?thesis
    by (simp add: store_intact_def tables_distinct_def refers_ok_def logged_in_def may_save_def Let_def
        cong: option.case_cong)
qed

lemma accounts_known_Nil [simp]: "accounts_known domain [] W"
  by (simp add: accounts_known_def)

lemma store_intact_save:
  assumes "store_intact W"
  shows "store_intact (fst (save_status_items C H domain items W))"
proof -
  obtain m where m: "fst (save_status_items C H domain items W) =
      (if m = 0 then W else written C (ah_now H) domain [] (take m items) (server_known domain W))"
    "\<forall>j \<in> set (take m items). may_save_item W j"
    using save_transactions_effect[OF accounts_known_Nil store_intact_owned[OF assms],
      where domain = domain and items = items and C = C and H = H and i = 0 and tags = "[]"]
    unfolding save_status_items_def by blast
  then show ?thesis
    using assms store_intact_written[of "server_known domain W" domain "[]" "take m items" C "ah_now H"] by simp
qed

end
