(* ===== verification/StoreRuns.thy ===== *)
theory StoreRuns
imports StoreIntact
begin

text \<open>
  Runs of the writers of the store: each event keeps the invariant, whatever fails in it, and a save
  that succeeds after failed attempts leaves the store of one uninterrupted save.
\<close>

section \<open>The other writers keep the invariant\<close>

lemma distinct_map_filter_rows: "distinct (map f xs) \<Longrightarrow> distinct (map f (filter P xs))"
  by (rule distinct_map_filter)

lemma countdown: "0 \<le> n \<Longrightarrow> fold (\<lambda>_ n. max 0 (n - 1)) xs n = max 0 (n - int (length xs))"
  by (induction xs arbitrary: n) auto

lemma length_filter_both: "length (filter P xs) + length (filter (\<lambda>x. \<not> P x) xs) = length xs"
  by (rule sum_length_filter_compl)

lemma tables_distinct_delete: "tables_distinct W \<Longrightarrow> tables_distinct (delete_statuses_where P W)"
  unfolding tables_distinct_def delete_statuses_where_def Let_def
  by (simp add: distinct_map_filter_rows)

lemma counter_ok_delete:
  assumes "counter_ok (ws_cache W)"
  shows "counter_ok (ws_cache (delete_statuses_where P W))"
proof -
  let ?xs = "ks_statuses (ws_cache W)"
  have "fold (\<lambda>_ n. max 0 (n - 1)) (filter P ?xs) (int (length ?xs)) = int (length (filter (\<lambda>s. \<not> P s) ?xs))"
    using length_filter_both[of P ?xs] by (subst countdown) auto
  then show ?thesis
    using assms by (auto simp: counter_ok_def delete_statuses_where_def Let_def)
qed

lemma refers_ok_delete:
  assumes ok: "refers_ok W"
  shows "refers_ok (delete_statuses_where P W)" (is "refers_ok ?W")
proof -
  let ?c = "ws_cache W"
  define keys where "keys = status_key_for_status ` set (ks_statuses ?c)"
  define gone where "gone = status_key_for_status ` set (filter P (ks_statuses ?c))"
  define left where "left = status_key_for_status ` set (ks_statuses (ws_cache ?W))"
  note old = ok[unfolded refers_ok_def Let_def, folded keys_def]
  have left: "left = status_key_for_status ` set (filter (\<lambda>s. \<not> P s) (ks_statuses ?c))"
    by (simp add: left_def delete_statuses_where_def Let_def)
  have kept: "k \<in> left" if "k \<in> keys" "k \<notin> gone" for k
    using that by (auto simp: left keys_def gone_def)
  have logged: "logged_in ?W = logged_in W"
    by (simp add: fun_eq_iff logged_in_def delete_statuses_where_def Let_def)
  have savers: "may_save ?W = may_save W"
    by (simp add: fun_eq_iff may_save_def logged split: option.split)
  have fields: "ks_accounts (ws_cache ?W) = ks_accounts ?c" "ws_columns ?W = ws_columns W"
    "set (ks_statuses (ws_cache ?W)) \<subseteq> set (ks_statuses ?c)"
    "set (ks_timeline_entries (ws_cache ?W)) = {e \<in> set (ks_timeline_entries ?c). entry_key e \<notin> gone}"
    "set (ks_viewer_states (ws_cache ?W)) = {v \<in> set (ks_viewer_states ?c). state_key v \<notin> gone}"
    "set (ws_identities ?W) = {i \<in> set (ws_identities W). fst i \<notin> gone}"
    "ws_status_tags ?W = (\<lambda>k. if k \<in> gone then [] else ws_status_tags W k)"
    by (auto simp: delete_statuses_where_def Let_def gone_def split_def)
  have "ws_status_tags ?W k = []" if "k \<notin> left" for k
  proof (cases "k \<in> keys")
    case True
    then have "k \<in> gone" using kept that by blast
    then show ?thesis by (simp add: fields)
  next
    case False
    then have "ws_status_tags W k = []" using old by blast
    then show ?thesis by (simp add: fields)
  qed
  then show ?thesis
    unfolding refers_ok_def Let_def left_def[symmetric] logged savers fields(1,2,4,5,6)
    using old kept fields(3) by blast
qed

lemma store_intact_delete: "store_intact W \<Longrightarrow> store_intact (delete_statuses_where P W)"
proof -
  have "ks_login_accounts (ws_cache (delete_statuses_where P W)) = ks_login_accounts (ws_cache W)"
    "ws_columns (delete_statuses_where P W) = ws_columns W"
    by (simp_all add: delete_statuses_where_def Let_def)
  then show "store_intact W \<Longrightarrow> store_intact (delete_statuses_where P W)"
    by (simp add: store_intact_def tables_distinct_delete counter_ok_delete refers_ok_delete)
qed

lemma store_intact_delete_references:
  "store_intact W \<Longrightarrow> store_intact (fst (delete_status_and_references i domain W))"
  by (simp add: delete_status_and_references_def Let_def store_intact_delete)

lemma store_intact_clear:
  assumes "store_intact W"
  shows "store_intact (clear_cached_rows W)"
proof -
  define D where "D = delete_statuses_where (\<lambda>_. True) W"
  have D: "store_intact D" using assms by (simp add: D_def store_intact_delete)
  have none: "ks_statuses (ws_cache D) = []"
    by (simp add: D_def delete_statuses_where_def Let_def)
  have c: "clear_cached_rows W = D\<lparr>ws_cache := (ws_cache D)\<lparr>ks_timeline_entries := [], ks_accounts := [],
      ks_status_counter := map_option (\<lambda>_. 0) (ks_status_counter (ws_cache D))\<rparr>\<rparr>"
    by (simp add: clear_cached_rows_def D_def Let_def)
  show ?thesis
    using D none unfolding c
    by (auto simp: store_intact_def tables_distinct_def refers_ok_def counter_ok_def logged_in_def may_save_def
        Let_def split: option.splits)
qed

section \<open>Login accounts\<close>

lemma activate_accts [simp]: "map la_acct (activate acct las) = map la_acct las"
  by (simp add: activate_def o_def)

lemma activate_one:
  "distinct (map la_acct las) \<Longrightarrow> acct \<in> la_acct ` set las \<Longrightarrow> length (filter la_is_active (activate acct las)) = 1"
proof (induction las)
  case (Cons la las)
  have "filter la_is_active (activate acct las) = []" if "acct \<notin> la_acct ` set las"
    using that by (auto simp: activate_def filter_empty_conv)
  moreover have "activate acct (la # las) = la\<lparr>la_is_active := (la_acct la = acct)\<rparr> # activate acct las"
    by (simp add: activate_def)
  ultimately show ?case using Cons by auto
qed simp

lemma logins_ok_activate:
  "distinct (map la_acct las) \<Longrightarrow> acct \<in> la_acct ` set las \<Longrightarrow> logins_ok (activate acct las)"
  by (simp add: logins_ok_def activate_one)

lemma set_logins_intact:
  assumes "store_intact W" "logins_ok las" "la_acct ` set (ks_login_accounts (ws_cache W)) \<subseteq> la_acct ` set las"
  shows "store_intact (set_logins las W)"
proof -
  have grown: "logged_in W acct \<Longrightarrow> logged_in (set_logins las W) acct" for acct
    using assms(3) by (auto simp: logged_in_def set_logins_def)
  then have "may_save W viewer \<Longrightarrow> may_save (set_logins las W) viewer" for viewer
    by (cases viewer) (simp_all add: may_save_def)
  moreover have "ks_statuses (ws_cache (set_logins las W)) = ks_statuses (ws_cache W)"
    "ks_accounts (ws_cache (set_logins las W)) = ks_accounts (ws_cache W)"
    "ks_timeline_entries (ws_cache (set_logins las W)) = ks_timeline_entries (ws_cache W)"
    "ks_viewer_states (ws_cache (set_logins las W)) = ks_viewer_states (ws_cache W)"
    "ks_status_counter (ws_cache (set_logins las W)) = ks_status_counter (ws_cache W)"
    "ks_login_accounts (ws_cache (set_logins las W)) = las"
    "ws_tags (set_logins las W) = ws_tags W" "ws_status_tags (set_logins las W) = ws_status_tags W"
    "ws_identities (set_logins las W) = ws_identities W" "ws_columns (set_logins las W) = ws_columns W"
    by (simp_all add: set_logins_def)
  ultimately show ?thesis
    using assms(1,2) grown
    by (simp add: store_intact_def tables_distinct_def refers_ok_def counter_ok_def Let_def)
qed

lemma image_activate: "la_acct ` set (activate acct las) = la_acct ` set las"
  by (simp add: activate_def image_image)

lemma store_intact_set_active:
  "store_intact W \<Longrightarrow> store_intact (fst (set_active_account acct W))"
  unfolding set_active_account_def
  by (auto intro!: set_logins_intact logins_ok_activate simp: image_activate logged_in_def)
    (simp_all add: store_intact_def logins_ok_def)

lemma activate_rows_Some:
  "activate_rows acct updated las = Some las' \<Longrightarrow> las' = updated @ activate acct las"
  by (induction acct updated las rule: activate_rows.induct) (auto simp: activate_def split: if_splits)

lemma store_intact_login:
  assumes "store_intact W"
  shows "store_intact (fst (upsert_and_activate_login_account la W))"
proof -
  let ?las = "upsert la_acct login_conflict (la\<lparr>la_is_active := False\<rparr>) (ks_login_accounts (ws_cache W))"
  have keys: "la_acct ` set ?las = insert (la_acct la) (la_acct ` set (ks_login_accounts (ws_cache W)))"
    using logins_table.key_set_upserts[of "[la\<lparr>la_is_active := False\<rparr>]"] by auto
  have "distinct (map la_acct ?las)"
    using logins_table.distinct_upserts[of "ks_login_accounts (ws_cache W)" "[la\<lparr>la_is_active := False\<rparr>]"] assms
    by (simp add: store_intact_def logins_ok_def)
  then have "store_intact (set_logins (activate (la_acct la) ?las) W)"
    by (intro set_logins_intact assms logins_ok_activate) (auto simp: keys image_activate)
  then show ?thesis
    using assms activate_rows_Some[of "la_acct la" "[]" ?las]
    by (auto simp: upsert_and_activate_login_account_def split: option.split)
qed

text \<open>Signing in again with an account that is stored before the active one fails and changes nothing;
  in every other case signing in succeeds.\<close>

lemma activate_rows_Some_iff:
  assumes "distinct (map la_acct las)" "\<forall>la \<in> set updated. \<not> la_is_active la"
  shows "activate_rows acct updated las = None \<longleftrightarrow>
    (\<exists>xs a ys. las = xs @ a # ys \<and> la_acct a = acct \<and> (\<exists>b \<in> set ys. la_is_active b))"
  using assms
proof (induction acct updated las rule: activate_rows.induct)
  case (2 acct updated la las)
  show ?case
  proof (cases "la_acct la = acct")
    case True
    then have fresh: "acct \<notin> la_acct ` set las" using "2.prems"(1) by auto
    have rest: "activate_rows acct u las \<noteq> None" for u
      using fresh by (induction las arbitrary: u) auto
    have "(\<exists>xs a ys. la # las = xs @ a # ys \<and> la_acct a = acct \<and> (\<exists>b \<in> set ys. la_is_active b)) \<longleftrightarrow>
        (\<exists>b \<in> set las. la_is_active b)"
      using True fresh by (auto simp: Cons_eq_append_conv)
    then show ?thesis using True rest "2.prems"(2) by auto
  next
    case False
    have "\<forall>x \<in> set (updated @ [la\<lparr>la_is_active := (la_acct la = acct)\<rparr>]). \<not> la_is_active x"
      using "2.prems"(2) False by auto
    moreover have "(\<exists>xs a ys. la # las = xs @ a # ys \<and> la_acct a = acct \<and> (\<exists>b \<in> set ys. la_is_active b)) \<longleftrightarrow>
        (\<exists>xs a ys. las = xs @ a # ys \<and> la_acct a = acct \<and> (\<exists>b \<in> set ys. la_is_active b))"
      using False by (auto simp: Cons_eq_append_conv)
    ultimately show ?thesis using "2.IH" "2.prems"(1) False by simp
  qed
qed simp

lemma sign_in_fails_iff:
  assumes "store_intact W"
  defines "logins \<equiv> ks_login_accounts (ws_cache W)"
  shows "upsert_and_activate_login_account la W = (W, Inl active_not_unique) \<longleftrightarrow>
    (\<exists>xs a ys. logins = xs @ a # ys \<and> la_acct a = la_acct la \<and> (\<exists>b \<in> set ys. la_is_active b))"
proof -
  let ?las = "upsert la_acct login_conflict (la\<lparr>la_is_active := False\<rparr>) logins"
  have d: "distinct (map la_acct logins)" using assms by (simp add: store_intact_def logins_ok_def)
  have "distinct (map la_acct ?las)"
    using logins_table.distinct_upserts[OF d, of "[la\<lparr>la_is_active := False\<rparr>]"] by simp
  then have "activate_rows (la_acct la) [] ?las = None \<longleftrightarrow>
      (\<exists>xs a ys. ?las = xs @ a # ys \<and> la_acct a = la_acct la \<and> (\<exists>b \<in> set ys. la_is_active b))"
    by (rule activate_rows_Some_iff) simp
  also have "\<dots> \<longleftrightarrow> (\<exists>xs a ys. logins = xs @ a # ys \<and> la_acct a = la_acct la \<and> (\<exists>b \<in> set ys. la_is_active b))"
  proof (cases "la_acct la \<in> la_acct ` set logins")
    case False
    then have "?las = logins @ [la\<lparr>la_is_active := False\<rparr>]" by (simp add: upsert_def)
    moreover have "ys = []" if "logins @ [x] = xs @ a # ys" "la_acct a = la_acct la" for x xs a ys
    proof (cases ys rule: rev_cases)
      case (snoc zs z)
      then have "logins = xs @ a # zs" using that(1) by simp
      then have "a \<in> set logins" by simp
      then show ?thesis using False imageI[of a "set logins" la_acct] that(2) by simp
    qed simp
    moreover have "a \<in> set logins" if "logins = xs @ a # ys" for xs a ys using that by simp
    ultimately show ?thesis using False by (metis image_eqI empty_iff list.set(1))
  next
    case True
    define f where "f x = (if la_acct x = la_acct la then login_conflict x (la\<lparr>la_is_active := False\<rparr>) else x)" for x
    have las: "?las = map f logins" using True by (simp add: upsert_def f_def)
    have f: "la_acct (f x) = la_acct x" "la_is_active (f x) = la_is_active x" for x
      by (auto simp: f_def login_conflict_def)
    show ?thesis
      unfolding las
    proof (intro iffI; elim exE conjE bexE)
      fix xs a ys b assume "map f logins = xs @ a # ys" "la_acct a = la_acct la" "b \<in> set ys" "la_is_active b"
      moreover from this obtain us z zs where "logins = us @ z # zs" "a = f z" "ys = map f zs"
        by (auto simp: map_eq_append_conv)
      ultimately show "\<exists>xs a ys. logins = xs @ a # ys \<and> la_acct a = la_acct la \<and> (\<exists>b \<in> set ys. la_is_active b)"
        by (intro exI[of _ us] exI[of _ z] exI[of _ zs]) (auto simp: f)
    next
      fix xs a ys b assume "logins = xs @ a # ys" "la_acct a = la_acct la" "b \<in> set ys" "la_is_active b"
      then show "\<exists>xs a ys. map f logins = xs @ a # ys \<and> la_acct a = la_acct la \<and> (\<exists>b \<in> set ys. la_is_active b)"
        by (intro exI[of _ "map f xs"] exI[of _ "f a"] exI[of _ "map f ys"]) (auto simp: f)
    qed
  qed
  finally show ?thesis
    by (auto simp: upsert_and_activate_login_account_def logins_def split: option.split)
qed

text \<open>Signing out moves the columns to the fallback account and removes what the account owned.\<close>

lemma fallback_account_Some:
  assumes "fallback_account acct W = Some fb"
  shows "logged_in W fb \<and> fb \<noteq> acct"
proof -
  obtain la las where "filter (\<lambda>la. la_acct la \<noteq> acct) (load_login_account_identities (ws_cache W)) = la # las"
    "fb = la_acct la"
    using assms by (auto simp: fallback_account_def split: list.splits)
  then have "la \<in> set (filter (\<lambda>la. la_acct la \<noteq> acct) (load_login_account_identities (ws_cache W)))" by simp
  then show ?thesis using \<open>fb = la_acct la\<close> by (auto simp: logged_in_def)
qed

lemma fallback_account_None:
  "fallback_account acct W = None \<Longrightarrow> logged_in W a \<Longrightarrow> a = acct"
  by (auto simp: fallback_account_def logged_in_def filter_empty_conv split: list.splits)

lemma rebind_columns_ids: "distinct (map cc_id columns) \<Longrightarrow> distinct (map cc_id (rebind_columns acct fb columns))"
proof (cases fb)
  case (Some a)
  have "map cc_id (map (\<lambda>c. if cc_account_acct c = Some acct then c\<lparr>cc_account_acct := Some a\<rparr> else c) columns) =
      map cc_id columns"
    by (auto simp: comp_def)
  then show "distinct (map cc_id columns) \<Longrightarrow> distinct (map cc_id (rebind_columns acct fb columns))"
    using Some by (simp add: rebind_columns_def del: map_map)
qed (simp add: rebind_columns_def distinct_map_filter)

lemma rebind_columns_bound:
  "c \<in> set (rebind_columns acct fb columns) \<Longrightarrow>
   (\<exists>c' \<in> set columns. cc_account_acct c' = cc_account_acct c \<and> cc_account_acct c \<noteq> Some acct) \<or>
   (\<exists>a. fb = Some a \<and> cc_account_acct c = Some a)"
  by (auto simp: rebind_columns_def split: option.splits if_splits)

lemma store_intact_remove_login:
  assumes ok: "store_intact W"
  shows "store_intact (fst (remove_login_account_and_reassign acct W))"
proof (cases "logged_in W acct")
  case True
  let ?c = "ws_cache W"
  define fb where "fb = fallback_account acct W"
  define las where "las = (case fb of
      None \<Rightarrow> map (\<lambda>la. la\<lparr>la_is_active := False\<rparr>) (filter (\<lambda>la. la_acct la \<noteq> acct) (ks_login_accounts ?c))
    | Some f \<Rightarrow> activate f (map (\<lambda>la. la\<lparr>la_is_active := False\<rparr>) (filter (\<lambda>la. la_acct la \<noteq> acct) (ks_login_accounts ?c))))"
  define W' where "W' = fst (remove_login_account_and_reassign acct W)"
  have W': "ks_statuses (ws_cache W') = ks_statuses ?c" "ks_accounts (ws_cache W') = ks_accounts ?c"
    "ks_timeline_entries (ws_cache W') = filter (\<lambda>e. te_account_acct e \<noteq> acct) (ks_timeline_entries ?c)"
    "ks_viewer_states (ws_cache W') = filter (\<lambda>v. vs_login_account_acct v \<noteq> acct) (ks_viewer_states ?c)"
    "ks_login_accounts (ws_cache W') = las" "ks_status_counter (ws_cache W') = ks_status_counter ?c"
    "ws_tags W' = ws_tags W" "ws_status_tags W' = ws_status_tags W" "ws_identities W' = ws_identities W"
    "ws_columns W' = rebind_columns acct fb (ws_columns W)"
    using True by (simp_all add: W'_def remove_login_account_and_reassign_def Let_def las_def fb_def)
  have accts: "map la_acct las = map la_acct (filter (\<lambda>la. la_acct la \<noteq> acct) (ks_login_accounts ?c))"
    by (simp add: las_def comp_def activate_def split: option.split)
  have "la_acct ` set las = {a. logged_in W a \<and> a \<noteq> acct}"
    using arg_cong[OF accts, of set] by (auto simp: logged_in_def)
  then have logged: "logged_in W' a \<longleftrightarrow> logged_in W a \<and> a \<noteq> acct" for a
    unfolding logged_in_def W' by blast
  have d: "distinct (map la_acct (ks_login_accounts ?c))"
    using ok by (simp add: store_intact_def logins_ok_def)
  have logins: "logins_ok las"
  proof (cases fb)
    case None
    then have "filter (\<lambda>la. la_acct la \<noteq> acct) (ks_login_accounts ?c) = []"
      using fallback_account_None[of acct W] by (auto simp: fb_def filter_empty_conv logged_in_def)
    then show ?thesis using None by (simp add: las_def logins_ok_def)
  next
    case (Some f)
    then have "logged_in W f" "f \<noteq> acct" using fallback_account_Some by (auto simp: fb_def)
    then have "f \<in> la_acct ` set (filter (\<lambda>la. la_acct la \<noteq> acct) (ks_login_accounts ?c))"
      by (auto simp: logged_in_def)
    then show ?thesis
      unfolding las_def Some option.case
      by (intro logins_ok_activate) (auto simp: d comp_def distinct_map_filter image_image)
  qed
  have "may_save W' (cc_account_acct c)" if "c \<in> set (ws_columns W')" for c
    using rebind_columns_bound[OF that[unfolded W']]
  proof (elim disjE bexE exE conjE)
    fix c' assume c': "c' \<in> set (ws_columns W)" "cc_account_acct c' = cc_account_acct c" "cc_account_acct c \<noteq> Some acct"
    have "may_save W (cc_account_acct c)"
      using ok c'(1) unfolding store_intact_def refers_ok_def Let_def c'(2)[symmetric] by blast
    then show ?thesis using c'(3) by (simp add: may_save_def logged split: option.splits)
  next
    fix a assume "fb = Some a" "cc_account_acct c = Some a"
    then show ?thesis using fallback_account_Some[of acct W a] by (simp add: may_save_def logged fb_def)
  qed
  then show ?thesis
    using ok logins unfolding W'_def[symmetric] store_intact_def tables_distinct_def refers_ok_def counter_ok_def Let_def
    by (auto simp: W'(1-9) logged distinct_map_filter) (simp add: W' rebind_columns_ids)
qed (simp add: remove_login_account_and_reassign_def ok)

section \<open>Columns\<close>

definition columns_ok :: "write_store \<Rightarrow> write_store \<Rightarrow> bool" where
  "columns_ok W W' \<longleftrightarrow> (\<exists>columns. W' = W\<lparr>ws_columns := columns\<rparr> \<and> distinct (map cc_id columns) \<and>
     (\<forall>c \<in> set columns. may_save W (cc_account_acct c)))"

lemma may_save_columns: "may_save (W\<lparr>ws_columns := columns\<rparr>) = may_save W"
  by (simp add: may_save_def logged_in_def fun_eq_iff split: option.split)

lemma store_intact_columns:
  assumes "store_intact W" "columns_ok W W'"
  shows "store_intact W'"
proof -
  obtain columns where c: "W' = W\<lparr>ws_columns := columns\<rparr>" "distinct (map cc_id columns)"
      "\<forall>c \<in> set columns. may_save W (cc_account_acct c)"
    using assms(2) by (auto simp: columns_ok_def)
  have "logged_in (W\<lparr>ws_columns := columns\<rparr>) = logged_in W"
    by (simp add: logged_in_def fun_eq_iff)
  then show ?thesis
    using assms(1) c(2,3) unfolding c(1)
    by (simp add: store_intact_def tables_distinct_def refers_ok_def Let_def may_save_columns)
qed

lemma insert_column_ok:
  "columns_ok W W' \<Longrightarrow> insert_column c W' = Inr W'' \<Longrightarrow> columns_ok W W''"
  unfolding columns_ok_def insert_column_def
  by (auto simp: may_save_columns split: if_splits) (rule_tac x = "columns @ [c]" in exI, simp)

lemma store_intact_replace_columns:
  assumes "store_intact W"
  shows "store_intact (fst (replace_all_column_configs configs W))"
proof (cases "try_fold insert_column configs (W\<lparr>ws_columns := []\<rparr>)")
  case (Inr W')
  have "columns_ok W W'"
    by (rule try_fold_invariant[where P = "columns_ok W", OF _ _ Inr])
      (erule insert_column_ok, assumption, auto simp: columns_ok_def)
  then show ?thesis
    using store_intact_columns[OF assms] by (simp add: replace_all_column_configs_def Inr)
qed (simp add: replace_all_column_configs_def assms)

section \<open>Attempts and events\<close>

lemma retry_db_write_keeps:
  assumes "\<And>n s. P s \<Longrightarrow> P (fst (op n s))" and "P s"
  shows "P (fst (retry_db_write op n s))"
  using assms(2)
proof (induction "db_write_max_attempts - n" arbitrary: n s rule: less_induct)
  case less
  obtain s' r where op: "op n s = (s', r)" by (cases "op n s")
  have P: "P s'" using assms(1)[OF less.prems, of n] by (simp add: op)
  show ?case
    using less.hyps[of "n + 1" s'] P
    by (cases r) (auto simp: retry_db_write.simps[of op n s] op split_def Let_def)
qed

text \<open>A success is that of the last attempt, on a store that the failed attempts have touched.\<close>

lemma retry_db_write_success:
  assumes "\<And>n s. P s \<Longrightarrow> P (fst (op n s))" and "P s" and "retry_db_write op n s = (s', Inr r, delays)"
  shows "\<exists>s0. P s0 \<and> op (n + length delays) s0 = (s', Inr r)"
    and "n + length delays \<le> max n db_write_max_attempts"
    and "delays = map (\<lambda>i. db_write_retry_delays_ms ! (i - 1)) [n ..< n + length delays]"
  using assms(2,3)
proof (atomize (full), induction "db_write_max_attempts - n" arbitrary: n s delays rule: less_induct)
  case less
  obtain s1 r1 where op: "op n s = (s1, r1)" by (cases "op n s")
  have P: "P s1" using assms(1)[OF less.prems(1), of n] by (simp add: op)
  show ?case
  proof (cases r1)
    case (Inr x)
    then show ?thesis using less.prems by (auto simp: retry_db_write.simps[of op n s] op)
  next
    case (Inl e)
    then have again: "should_retry_sqlx_error e" "n < db_write_max_attempts"
      using less.prems(2) by (auto simp: retry_db_write.simps[of op n s] op split: if_splits)
    obtain s2 r2 ds where rest: "retry_db_write op (n + 1) s1 = (s2, r2, ds)" by (metis prod_cases3)
    have eqs: "s2 = s'" "r2 = Inr r" "delays = db_write_retry_delays_ms ! (n - 1) # ds"
      using less.prems(2) rest again Inl by (simp_all add: retry_db_write.simps[of op n s] op)
    have upt: "[n ..< n + length delays] = n # [n + 1 ..< n + 1 + length ds]"
      by (simp add: eqs(3) upt_rec[of n] del: upt_Suc)
    have "(\<exists>s0. P s0 \<and> op (n + 1 + length ds) s0 = (s', Inr r)) \<and>
        n + 1 + length ds \<le> max (n + 1) db_write_max_attempts \<and>
        ds = map (\<lambda>i. db_write_retry_delays_ms ! (i - 1)) [n + 1 ..< n + 1 + length ds]"
      using rest again(2) by (intro less.hyps[OF _ P]) (simp_all add: eqs)
    then show ?thesis
      unfolding upt using again(2) by (simp add: eqs(3) del: upt_Suc)
  qed
qed

lemma retry_db_write_succeeds:
  assumes "\<And>n s. P s \<Longrightarrow> P (fst (op n s))" and "\<And>s. P s \<Longrightarrow> \<exists>r. snd (op k s) = Inr r"
    and "\<And>n s e. P s \<Longrightarrow> n < k \<Longrightarrow> snd (op n s) = Inl e \<Longrightarrow> should_retry_sqlx_error e"
    and "n \<le> k" "k \<le> db_write_max_attempts" "P s"
  shows "\<exists>r. fst (snd (retry_db_write op n s)) = Inr r"
  using assms(4,6)
proof (induction "k - n" arbitrary: n s rule: less_induct)
  case less
  obtain s1 r1 where op: "op n s = (s1, r1)" by (cases "op n s")
  have P: "P s1" using assms(1)[OF less.prems(2), of n] by (simp add: op)
  show ?case
  proof (cases r1)
    case (Inl e)
    then have "n \<noteq> k" using assms(2)[OF less.prems(2)] op by auto
    then have n: "n < k" using less.prems(1) by simp
    then have "should_retry_sqlx_error e" using assms(3)[OF less.prems(2)] op Inl by simp
    then show ?thesis
      using less.hyps[of "n + 1" s1] n P assms(5) Inl
      by (auto simp: retry_db_write.simps[of op n s] op split_def Let_def)
  qed (simp add: retry_db_write.simps[of op n s] op)
qed

lemma written_absorbs:
  assumes "tables_distinct W"
  shows "written C now' domain [] items (written C now domain [] (take m items) W) = written C now' domain [] items W"
proof -
  have "batch_rows items = batch_rows (take m items) @ batch_rows (drop m items)"
    "batch_entries C domain items = batch_entries C domain (take m items) @ batch_entries C domain (drop m items)"
    using batch_append(1)[of "take m items" "drop m items"]
      batch_append(2)[of C domain "take m items" "drop m items"] by simp_all
  then show ?thesis unfolding written_def using put_absorb[OF assms] by simp
qed

lemma tables_distinct_server: "tables_distinct (server_known domain W) = tables_distinct W"
proof -
  have "ws_tags (server_known domain W) = ws_tags W" "ws_identities (server_known domain W) = ws_identities W"
    by (simp_all add: server_known_def upsert_server_on_def)
  then show ?thesis by (simp add: tables_distinct_def)
qed

text \<open>What an attempt to save \<open>items\<close> in \<open>W\<close> can leave for the next one.\<close>

definition touched :: "codec \<Rightarrow> rstr \<Rightarrow> batch_item list \<Rightarrow> write_store \<Rightarrow> write_store \<Rightarrow> bool" where
  "touched C domain items W W' \<longleftrightarrow> store_intact W' \<and> may_save_item W' = may_save_item W \<and>
     (\<forall>now. written C now domain [] items (server_known domain W') =
            written C now domain [] items (server_known domain W)) \<and>
     (items = [] \<longrightarrow> W' = W)"

lemma touched_save:
  assumes "touched C domain items W V"
  shows "touched C domain items W (fst (save_status_items C H domain items V))"
proof -
  have V: "store_intact V" using assms by (simp add: touched_def)
  obtain m where m: "m \<le> length items" "fst (save_status_items C H domain items V) =
      (if m = 0 then V else written C (ah_now H) domain [] (take m items) (server_known domain V))"
    using save_transactions_effect[OF accounts_known_Nil store_intact_owned[OF V],
      where domain = domain and items = items and C = C and H = H and i = 0 and tags = "[]"]
    unfolding save_status_items_def by blast
  have "tables_distinct V" using V by (simp add: store_intact_def)
  then have "written C now domain [] items (server_known domain (fst (save_status_items C H domain items V))) =
      written C now domain [] items (server_known domain V)" for now
    unfolding m(2) by (simp add: written_absorbs tables_distinct_server)
  moreover have "may_save_item (fst (save_status_items C H domain items V)) = may_save_item V"
    unfolding m(2) by (simp add: written_def)
  ultimately show ?thesis
    using assms store_intact_save[OF V, of C H domain items] m
    by (cases "items = []") (simp_all add: touched_def)
qed

lemma save_success:
  assumes "touched C domain items W V" "save_status_items C H domain items V = (V', Inr ())"
  shows "V' = (if items = [] then W else written C (ah_now H) domain [] items (server_known domain W))"
proof -
  have V: "store_intact V" using assms(1) by (simp add: touched_def)
  obtain m where "fst (save_status_items C H domain items V) =
      (if m = 0 then V else written C (ah_now H) domain [] (take m items) (server_known domain V))"
    "m = length items"
    using save_transactions_effect[OF accounts_known_Nil store_intact_owned[OF V],
      where domain = domain and items = items and C = C and H = H and i = 0 and tags = "[]"] assms(2)
    unfolding save_status_items_def by auto
  then show ?thesis using assms by (simp add: touched_def)
qed

section \<open>Statements keep the invariant\<close>

text \<open>A transaction that starts with account keys of an older store keeps it as well.\<close>

lemma upsert_one: "upsert key merge r rows = upserts key merge [r] rows"
  by simp

lemma keys_of_status:
  "status_key_for_status ` set (upsert status_key_for_status status_conflict s rows) =
   insert (status_key_for_status s) (status_key_for_status ` set rows)"
  unfolding upsert_one statuses_table.key_set_upserts by simp

lemma length_upsert_keys:
  "length (upsert key merge r rows) = (if key r \<in> key ` set rows then length rows else Suc (length rows))"
  by (simp add: upsert_def)

lemma store_intact_account:
  assumes "store_intact W"
  shows "store_intact (upsert_account_on a W)"
proof -
  let ?W = "upsert_account_on a W"
  have "distinct (map account_key (upsert account_key account_conflict a (ks_accounts (ws_cache W))))"
    unfolding upsert_one using assms
    by (intro accounts_table.distinct_upserts) (simp add: store_intact_def tables_distinct_def)
  moreover have "account_key ` set (ks_accounts (ws_cache W)) \<subseteq> account_key ` set (ks_accounts (ws_cache ?W))"
    by (auto simp: upsert_account_on_def upsert_one accounts_table.key_set_upserts simp del: upserts_simps)
  moreover have "logged_in ?W = logged_in W" "may_save ?W = may_save W"
    by (simp_all add: upsert_account_on_def logged_in_def may_save_def fun_eq_iff split: option.split)
  ultimately show ?thesis
    using assms unfolding store_intact_def tables_distinct_def refers_ok_def counter_ok_def Let_def
    by (auto simp: upsert_account_on_def)
qed

lemma store_intact_status:
  assumes "store_intact W" "upsert_status_on s W = Inr W'"
  shows "store_intact W'"
proof -
  let ?c = "ws_cache W" and ?s = "stored_status s"
  let ?rows = "upsert status_key_for_status status_conflict ?s (ks_statuses ?c)"
  let ?ids = "upsert fst replaced (identity_of s) (ws_identities W)"
  have key: "status_key_for_status ?s = status_key_for_status s" "author_key ?s = author_key s"
    by (simp_all add: stored_status_def status_key_for_status_def author_key_def)
  have W': "ks_statuses (ws_cache W') = ?rows" "ws_identities W' = ?ids"
    "ks_accounts (ws_cache W') = ks_accounts ?c" "ks_timeline_entries (ws_cache W') = ks_timeline_entries ?c"
    "ks_viewer_states (ws_cache W') = ks_viewer_states ?c" "ks_login_accounts (ws_cache W') = ks_login_accounts ?c"
    "ws_tags W' = ws_tags W" "ws_status_tags W' = ws_status_tags W" "ws_columns W' = ws_columns W"
    "ks_status_counter (ws_cache W') = (if status_key_for_status s \<in> status_key_for_status ` set (ks_statuses ?c)
       then ks_status_counter ?c else map_option (\<lambda>n. n + 1) (ks_status_counter ?c))"
    and author: "status_key_for_status s \<in> status_key_for_status ` set (ks_statuses ?c) \<or>
      author_key s \<in> account_key ` set (ks_accounts ?c)"
    using assms(2) by (auto simp: upsert_status_on_def Let_def split: if_splits)
  have logged: "logged_in W' = logged_in W" "may_save W' = may_save W"
    by (simp_all add: W' logged_in_def may_save_def fun_eq_iff split: option.split)
  have d: "distinct (map status_key_for_status ?rows)" "distinct (map fst ?ids)"
    using assms(1) unfolding upsert_one
    by (simp_all add: statuses_table.distinct_upserts identities_table.distinct_upserts store_intact_def
        tables_distinct_def del: upserts_simps)
  have ids: "fst ` set ?ids = insert (status_key_for_status s) (fst ` set (ws_identities W))"
    unfolding upsert_one identities_table.key_set_upserts by (simp add: identity_of_def)
  have keys: "status_key_for_status ` set ?rows =
      insert (status_key_for_status s) (status_key_for_status ` set (ks_statuses ?c))"
    unfolding keys_of_status key ..
  have "author_key r \<in> account_key ` set (ks_accounts ?c)" if "r \<in> set ?rows" for r
  proof -
    have conflict: "author_key (status_conflict old ?s) = author_key old" if "status_key_for_status old = status_key_for_status s" for old
      using that by (simp add: status_conflict_def author_key_def status_key_for_status_def stored_status_def)
    have old: "author_key o' \<in> account_key ` set (ks_accounts ?c)" if "o' \<in> set (ks_statuses ?c)" for o'
      using assms(1) that by (simp add: store_intact_def refers_ok_def Let_def)
    show ?thesis
      using that author old conflict by (auto simp: upsert_def key split: if_splits)
  qed
  moreover have "fst i \<in> insert (status_key_for_status s) (status_key_for_status ` set (ks_statuses ?c))"
    if "i \<in> set ?ids" for i
    using imageI[OF that, of fst] assms(1) unfolding ids
    by (auto simp: store_intact_def refers_ok_def Let_def)
  moreover have "counter_ok (ws_cache W')"
    using assms(1) by (auto simp: store_intact_def counter_ok_def W' length_upsert_keys key)
  ultimately show ?thesis
    using assms(1) d unfolding store_intact_def tables_distinct_def refers_ok_def Let_def W' logged keys by blast
qed

lemma store_intact_viewer_state:
  assumes "store_intact W" "upsert_status_viewer_state_on s acct W = Inr W'"
    and "status_key_for_status s \<in> status_key_for_status ` set (ks_statuses (ws_cache W))"
  shows "store_intact W'"
proof -
  let ?states = "upsert state_row_key replaced (viewer_state_of acct s) (ks_viewer_states (ws_cache W))"
  have W': "W' = W\<lparr>ws_cache := (ws_cache W)\<lparr>ks_viewer_states := ?states\<rparr>\<rparr>" "logged_in W acct"
    using assms(2) by (simp_all add: upsert_status_viewer_state_on_def split: if_splits)
  have logged: "logged_in W' = logged_in W" "may_save W' = may_save W"
    by (simp_all add: W' logged_in_def may_save_def fun_eq_iff split: option.split)
  have "distinct (map state_row_key ?states)"
    using assms(1) unfolding upsert_one
    by (intro states_table.distinct_upserts) (simp add: store_intact_def tables_distinct_def)
  moreover have "logged_in W (vs_login_account_acct v) \<and>
      state_key v \<in> status_key_for_status ` set (ks_statuses (ws_cache W))" if "v \<in> set ?states" for v
  proof (cases "v = viewer_state_of acct s")
    case True
    then show ?thesis
      using W'(2) assms(3) by (simp add: viewer_state_of_def state_key_def status_key_for_status_def)
  next
    case False
    then have "v \<in> set (ks_viewer_states (ws_cache W))"
      using that by (auto simp: upsert_def replaced_def split: if_splits)
    then show ?thesis using assms(1) by (simp add: store_intact_def refers_ok_def Let_def)
  qed
  ultimately show ?thesis
    using assms(1) unfolding store_intact_def tables_distinct_def refers_ok_def counter_ok_def Let_def logged
    by (simp add: W')
qed

lemma store_intact_tags:
  assumes "store_intact W" "k \<in> status_key_for_status ` set (ks_statuses (ws_cache W))"
  shows "store_intact (replace_status_tags_on k names W)"
proof -
  let ?W = "replace_status_tags_on k names W"
  have "distinct (ws_tags ?W)"
    using assms(1) tables_distinct_def tags_table.distinct_upserts[of "ws_tags W" "map (\<lambda>n. (n, snd k)) names"]
    by (simp add: store_intact_def replace_status_tags_on_def)
  moreover have "logged_in ?W = logged_in W" "may_save ?W = may_save W"
    by (simp_all add: replace_status_tags_on_def logged_in_def may_save_def fun_eq_iff split: option.split)
  ultimately show ?thesis
    using assms unfolding store_intact_def tables_distinct_def refers_ok_def counter_ok_def Let_def
    by (auto simp: replace_status_tags_on_def)
qed

lemma store_intact_entry:
  assumes "store_intact W" "insert_timeline_entry_on e W = Inr W'"
  shows "store_intact W'"
proof (cases "W' = W")
  case False
  let ?es = "upsert entry_row_key ignored e (ks_timeline_entries (ws_cache W))"
  have W': "W' = W\<lparr>ws_cache := (ws_cache W)\<lparr>ks_timeline_entries := ?es\<rparr>\<rparr>"
    and e: "logged_in W (te_account_acct e)" "entry_key e \<in> status_key_for_status ` set (ks_statuses (ws_cache W))"
    using assms(2) False by (auto simp: insert_timeline_entry_on_def Let_def split: if_splits)
  have logged: "logged_in W' = logged_in W" "may_save W' = may_save W"
    by (simp_all add: W' logged_in_def may_save_def fun_eq_iff split: option.split)
  have "distinct (map entry_row_key ?es)"
    using assms(1) unfolding upsert_one
    by (intro entries_table.distinct_upserts) (simp add: store_intact_def tables_distinct_def)
  moreover have "x \<in> insert e (set (ks_timeline_entries (ws_cache W)))" if "x \<in> set ?es" for x
    using that by (auto simp: upsert_def ignored_def split: if_splits)
  ultimately show ?thesis
    using assms(1) e unfolding store_intact_def tables_distinct_def refers_ok_def counter_ok_def Let_def logged
    by (auto simp: W')
qed (use assms in simp)

lemma store_intact_row:
  assumes "store_intact W" "persist_row C now domain viewer s (W, ks, ts) = Inr (W', ks', ts')"
  shows "store_intact W'"
proof -
  let ?s = "status_from_api C now s domain"
  obtain W1 ks1 where once: "upsert_account_once C now s domain (W, ks) = (W1, ks1)" by (cases "upsert_account_once C now s domain (W, ks)")
  have W1: "store_intact W1"
    using once assms(1) store_intact_account by (auto simp: upsert_account_once_def Let_def split: if_splits)
  obtain W2 W3 where W2: "upsert_status_on ?s W1 = Inr W2"
    and W3: "(case viewer of None \<Rightarrow> Inr W2 | Some acct \<Rightarrow> upsert_status_viewer_state_on ?s acct W2) = Inr W3"
    and W': "W' = replace_status_tags_on (sp_id (payload s), domain) (map tg_name (sp_tags (payload s))) W3"
    using assms(2) by (auto simp: persist_row_def once Let_def and_then_Inr)
  have key: "status_key_for_status ?s = (sp_id (payload s), domain)"
    by (simp add: status_key_for_status_def status_from_api_def Let_def)
  have "status_key_for_status (stored_status ?s) = (sp_id (payload s), domain)"
    using key by (simp add: stored_status_def status_key_for_status_def)
  then have stored: "(sp_id (payload s), domain) \<in> status_key_for_status ` set (ks_statuses (ws_cache W2))"
    using W2 by (auto simp: upsert_status_on_def Let_def keys_of_status split: if_splits)
  have "store_intact W2" by (rule store_intact_status[OF W1 W2])
  moreover have "store_intact W3 \<and> ks_statuses (ws_cache W3) = ks_statuses (ws_cache W2)"
    using W3 calculation stored store_intact_viewer_state[of W2 ?s _ W3]
    by (auto simp: key upsert_status_viewer_state_on_def split: option.splits if_splits)
  ultimately show ?thesis
    unfolding W' using stored by (intro store_intact_tags) simp_all
qed

lemma store_intact_transaction:
  assumes "store_intact W" "run_transaction C domain H i batch persisted W = Inr (W', ks', ts')"
  shows "store_intact W'"
proof -
  have row: "store_intact (fst st')" if "persist_row C now domain viewer s st = Inr st'" "store_intact (fst st)"
    for now viewer s st st'
    using store_intact_row that by (metis prod.collapse)
  have graph: "store_intact (fst st')" if g: "persist_status_graph C now domain viewer s st = Inr st'" "store_intact (fst st)"
    for now viewer s st st'
  proof -
    obtain st1 where "try_fold (persist_row C now domain viewer) (related s) st = Inr st1"
      "persist_row C now domain viewer s st1 = Inr st'"
      using g(1) by (auto simp: persist_status_graph_def and_then_Inr)
    then show ?thesis
      using row g(2) try_fold_invariant[where P = "\<lambda>st. store_intact (fst st)"] by metis
  qed
  have item: "store_intact (fst st')" if it: "persist_item C now domain j st = Inr st'" "store_intact (fst st)"
    for now j st st'
  proof -
    obtain V ks ts where g: "persist_status_graph C now domain (bi_viewer_acct j) (bi_status j) st = Inr (V, ks, ts)"
      using it(1) by (auto simp: persist_item_def and_then_Inr)
    have V: "store_intact V" using graph[OF g it(2)] by simp
    show ?thesis
      using it(1) V store_intact_entry[OF V]
      by (auto simp: persist_item_def g and_then_Inr split: option.splits)
  qed
  obtain V ks ts where V: "try_fold (persist_item C (ah_now H) domain) batch
      (server_known domain W, fst persisted, []) = Inr (V, ks, ts)"
      "W' = fold (\<lambda>n. upsert_tag_on n domain) (filter (\<lambda>n. n \<notin> set (snd persisted)) ts) V"
    using assms(2) unfolding run_transaction_def server_known_def[symmetric]
    by (auto simp: and_then_Inr Let_def split: option.splits)
  have "store_intact V"
    using try_fold_invariant[where P = "\<lambda>st. store_intact (fst st)", OF _ _ V(1)] item assms(1) by fastforce
  moreover have "store_intact (upsert_tag_on n domain X)" if "store_intact X" for n X
  proof -
    have "logged_in (upsert_tag_on n domain X) = logged_in X" "may_save (upsert_tag_on n domain X) = may_save X"
      by (simp_all add: upsert_tag_on_def logged_in_def may_save_def fun_eq_iff split: option.split)
    then show ?thesis
      using that tags_table.distinct_upserts[of "ws_tags X" "[(n, domain)]"]
      unfolding store_intact_def tables_distinct_def refers_ok_def counter_ok_def Let_def
      by (auto simp: upsert_tag_on_def)
  qed
  then have "store_intact (fold (\<lambda>n. upsert_tag_on n domain) ns X)" if "store_intact X" for ns X
    using that by (induction ns arbitrary: X) simp_all
  ultimately show ?thesis by (simp add: V(2))
qed

text \<open>
  The writers as events. A save is one event, with what its attempts meet, or the transactions of it
  are events of their own, between which other writers run; a transaction then has the account keys
  and tags that the save remembers.
\<close>

datatype store_event =
    Transaction attempt_host rstr nat "batch_item list" "rstr list \<times> rstr list"
  | SaveItems "nat \<Rightarrow> attempt_host" rstr "batch_item list"
  | InsertEntry "nat \<Rightarrow> sql_failure option" timeline_entry
  | DeleteEntry rstr rstr rstr rstr
  | UpsertAccount db_account
  | UpdatePoll rstr rstr rstr
  | DeleteStatus "nat \<Rightarrow> sql_failure option" rstr rstr
  | ClearCache
  | SetActive rstr
  | SignIn login_account_identity
  | SignOut rstr
  | ReplaceColumns "column_config list"

primrec store_step :: "codec \<Rightarrow> store_event \<Rightarrow> write_store \<Rightarrow> write_store" where
  "store_step C (Transaction H domain i batch persisted) W =
     (case run_transaction C domain H i batch persisted W of Inl _ \<Rightarrow> W | Inr (W', _, _) \<Rightarrow> W')"
| "store_step C (SaveItems hosts domain items) W = fst (save_status_items_with_retry C hosts domain items W)"
| "store_step C (InsertEntry failures e) W = fst (insert_timeline_entry_with_retry failures e W)"
| "store_step C (DeleteEntry timeline_type i domain acct) W = delete_timeline_entry timeline_type i domain acct W"
| "store_step C (UpsertAccount a) W = fst (upsert_account a W)"
| "store_step C (UpdatePoll i domain poll_json) W = update_cached_status_poll i domain poll_json W"
| "store_step C (DeleteStatus failures i domain) W = fst (delete_status_from_db_with_retry failures i domain W)"
| "store_step C ClearCache W = clear_cached_rows W"
| "store_step C (SetActive acct) W = fst (set_active_account acct W)"
| "store_step C (SignIn la) W = fst (upsert_and_activate_login_account la W)"
| "store_step C (SignOut acct) W = fst (remove_login_account_and_reassign acct W)"
| "store_step C (ReplaceColumns configs) W = fst (replace_all_column_configs configs W)"

definition empty_write_store :: write_store where
  "empty_write_store =
     \<lparr>ws_cache = \<lparr>ks_statuses = [], ks_accounts = [], ks_timeline_entries = [], ks_viewer_states = [],
        ks_login_accounts = [], ks_status_counter = Some 0\<rparr>,
      ws_servers = [], ws_tags = [], ws_status_tags = (\<lambda>_. []), ws_identities = [], ws_columns = []\<rparr>"

lemma store_intact_insert_entry:
  "store_intact W \<Longrightarrow> store_intact (fst (insert_timeline_entry_with_retry failures e W))"
  unfolding insert_timeline_entry_with_retry_def
  by (rule retry_db_write_keeps)
    (auto simp: insert_timeline_entry_def store_intact_entry split: option.split sum.split)

lemma store_intact_delete_entry:
  "store_intact W \<Longrightarrow> store_intact (delete_timeline_entry timeline_type i domain acct W)"
proof -
  let ?W = "delete_timeline_entry timeline_type i domain acct W"
  have "logged_in ?W = logged_in W" "may_save ?W = may_save W"
    by (simp_all add: delete_timeline_entry_def logged_in_def may_save_def fun_eq_iff split: option.split)
  then show "store_intact W \<Longrightarrow> store_intact ?W"
    unfolding store_intact_def tables_distinct_def refers_ok_def counter_ok_def Let_def
    by (auto simp: delete_timeline_entry_def distinct_map_filter)
qed

lemma store_intact_delete_retry:
  "store_intact W \<Longrightarrow> store_intact (fst (delete_status_from_db_with_retry failures i domain W))"
  unfolding delete_status_from_db_with_retry_def
  by (rule retry_db_write_keeps)
    (auto simp: Let_def split_def store_intact_delete_references split: option.split)

lemma store_intact_poll:
  "store_intact W \<Longrightarrow> store_intact (update_cached_status_poll i domain poll_json W)"
proof -
  let ?W = "update_cached_status_poll i domain poll_json W"
  let ?f = "\<lambda>s. if st_id s = i \<and> st_server_domain s = domain then s\<lparr>st_poll_json := Some poll_json\<rparr> else s"
  have keys: "status_key_for_status (?f s) = status_key_for_status s" "author_key (?f s) = author_key s" for s
    by (simp_all add: status_key_for_status_def author_key_def)
  have maps: "map status_key_for_status (map ?f ss) = map status_key_for_status ss" for ss by (simp add: keys)
  have image: "status_key_for_status ` set (map ?f ss) = status_key_for_status ` set ss" for ss
    using arg_cong[OF maps, of set ss] by (simp only: set_map)
  have stored: "ws_cache ?W = (ws_cache W)\<lparr>ks_statuses := map ?f (ks_statuses (ws_cache W))\<rparr>"
    "ws_identities ?W = ws_identities W" "ws_tags ?W = ws_tags W" "ws_status_tags ?W = ws_status_tags W"
    "ws_columns ?W = ws_columns W"
    by (simp_all add: update_cached_status_poll_def)
  have logged: "logged_in ?W = logged_in W" "may_save ?W = may_save W"
    by (simp_all add: stored logged_in_def may_save_def fun_eq_iff split: option.split)
  have authors: "\<forall>s \<in> set (map ?f ss). author_key s \<in> A" if "\<forall>s \<in> set ss. author_key s \<in> A" for ss A
  proof
    fix s assume "s \<in> set (map ?f ss)"
    then obtain r where "r \<in> set ss" "s = ?f r" unfolding set_map by blast
    then show "author_key s \<in> A" using that by (simp only: keys(2))
  qed
  have fields: "ks_statuses (ws_cache ?W) = map ?f (ks_statuses (ws_cache W))"
    "ks_accounts (ws_cache ?W) = ks_accounts (ws_cache W)"
    "ks_timeline_entries (ws_cache ?W) = ks_timeline_entries (ws_cache W)"
    "ks_viewer_states (ws_cache ?W) = ks_viewer_states (ws_cache W)"
    "ks_login_accounts (ws_cache ?W) = ks_login_accounts (ws_cache W)"
    "ks_status_counter (ws_cache ?W) = ks_status_counter (ws_cache W)"
    by (simp_all add: stored(1))
  assume ok: "store_intact W"
  then have "\<forall>s \<in> set (map ?f (ks_statuses (ws_cache W))). author_key s \<in> account_key ` set (ks_accounts (ws_cache W))"
    by (intro authors) (simp add: store_intact_def refers_ok_def Let_def)
  with ok show "store_intact ?W"
    unfolding store_intact_def tables_distinct_def refers_ok_def counter_ok_def Let_def stored(2-) fields
      logged image maps length_map
    by (elim conjE) (intro conjI; assumption)
qed

lemma store_intact_step: "store_intact W \<Longrightarrow> store_intact (store_step C e W)"
  by (cases e)
    (auto simp: store_intact_transaction store_intact_delete_retry store_intact_insert_entry
      store_intact_delete_entry store_intact_poll store_intact_account upsert_account_def store_intact_clear store_intact_set_active store_intact_login
      store_intact_remove_login store_intact_replace_columns save_status_items_with_retry_def
      retry_db_write_keeps[where P = store_intact] store_intact_save split: sum.split)

lemma store_intact_run: "store_intact W \<Longrightarrow> store_intact (fold (store_step C) es W)"
  by (induction es arbitrary: W) (simp_all add: store_intact_step)

lemma store_intact_empty: "store_intact empty_write_store"
  by (simp add: store_intact_def empty_write_store_def tables_distinct_def refers_ok_def logins_ok_def counter_ok_def)

lemma store_intact_keys: "store_intact W \<Longrightarrow> store_keys_ok (ws_cache W)"
  by (simp add: store_intact_def tables_distinct_def refers_ok_def store_keys_ok_def logged_in_def Let_def)

end
