(* ===== verification/StoreClaims.thy ===== *)
theory StoreClaims
imports StoreRuns
begin

text \<open>
  The properties of the write side of the status cache, with a concrete server, status and runs.
\<close>

section \<open>Concrete payloads\<close>

definition plain_codec :: codec where
  "plain_codec = \<lparr>cd_to_rfc3339 = (\<lambda>t. []), cd_fields_json = (\<lambda>_. None), cd_emojis_json = (\<lambda>_. None),
     cd_poll_json = (\<lambda>_. None), cd_card_json = (\<lambda>_. None), cd_application_json = (\<lambda>_. None),
     cd_mentions_json = (\<lambda>_. None), cd_tags_json = (\<lambda>_. None), cd_media_json = (\<lambda>_. None)\<rparr>"

definition a_person :: api_account where
  "a_person = \<lparr>aa_id = [55], aa_username = [97], aa_acct = [97], aa_display_name = [], aa_note = [],
     aa_avatar = [], aa_avatar_static = [], aa_header = [], aa_locked = False, aa_bot = False,
     aa_created_at = 0, aa_followers_count = 0, aa_following_count = 0, aa_statuses_count = 0,
     aa_fields = [], aa_emojis = []\<rparr>"

definition a_status :: "rstr \<Rightarrow> bool option \<Rightarrow> api_status" where
  "a_status i bookmarked =
     ApiStatus \<lparr>sp_id = i, sp_uri = i, sp_url = None, sp_created_at = 0, sp_edited_at = None,
       sp_account = a_person, sp_content = [104, 105], sp_visibility = [], sp_sensitive = False,
       sp_spoiler_text = [], sp_media_attachments = [], sp_mentions = [], sp_tags = [], sp_emojis = [],
       sp_reblogs_count = 0, sp_favourites_count = 0, sp_replies_count = 0, sp_in_reply_to_id = None,
       sp_in_reply_to_account_id = None, sp_language = None, sp_pinned = None, sp_favourited = None,
       sp_reblogged = None, sp_muted = None, sp_bookmarked = bookmarked, sp_poll = None, sp_card = None,
       sp_application = None, sp_quote_id = None, sp_quote_original_url = None\<rparr> None None"

definition a_login :: login_account_identity where
  "a_login = \<lparr>la_acct = [117], la_server_domain = [109], la_account_id = [49], la_display_name = [],
     la_server_kind = [], la_is_active = False\<rparr>"

definition home :: batch_timeline where
  "home = \<lparr>bt_timeline_type = str ''home'', bt_account_acct = [117]\<rparr>"

definition uninterrupted :: "rstr \<Rightarrow> (nat \<Rightarrow> nat) \<Rightarrow> attempt_host" where
  "uninterrupted now fits = \<lparr>ah_now = now, ah_fits = fits, ah_failure = (\<lambda>_. None)\<rparr>"

definition signed_in :: write_store where
  "signed_in = fst (upsert_and_activate_login_account a_login empty_write_store)"

definition locked :: sql_failure where
  "locked = DatabaseFailure (str ''database is locked'')"

definition failing_once :: "nat \<Rightarrow> attempt_host" where
  "failing_once n = (uninterrupted [48 + n] (\<lambda>_. 1))\<lparr>ah_failure :=
     (\<lambda>i. if n = 1 \<and> i = 1 then Some locked else None)\<rparr>"

lemma uninterrupted_fails_not [simp]: "ah_failure (uninterrupted now fits) i = None" "ah_now (uninterrupted now fits) = now"
  by (simp_all add: uninterrupted_def)

lemma uninterrupted_save:
  assumes "store_intact W" "\<forall>j \<in> set items. may_save_item W j"
  shows "save_status_items C (uninterrupted now fits) domain items W =
    (if items = [] then W else written C now domain [] items (server_known domain W), Inr ())"
proof -
  let ?r = "save_status_items C (uninterrupted now fits) domain items W"
  have "snd ?r = Inr ()"
    using save_transactions_failures[OF accounts_known_Nil store_intact_owned[OF assms(1)] assms(2),
      where domain = domain and C = C and H = "uninterrupted now fits" and i = 0 and tags = "[]"]
    by (simp add: save_status_items_def host_failures_def)
  then have run: "?r = (fst ?r, Inr ())" by (metis prod.collapse)
  have "touched C domain items W W" using assms(1) by (simp add: touched_def)
  from save_success[OF this run] show ?thesis using run by simp
qed

lemma retried_save:
  assumes "store_intact W"
    and "save_status_items_with_retry C hosts domain items W = (W', Inr (), delays)"
  shows "save_status_items C (uninterrupted (ah_now (hosts (Suc (length delays)))) fits) domain items W = (W', Inr ()) \<and>
    delays = take (length delays) [200, 500, 1000, 2000]"
proof -
  let ?op = "\<lambda>attempt. save_status_items C (hosts attempt) domain items"
  let ?H = "hosts (Suc (length delays))"
  have start: "touched C domain items W W" using assms(1) by (simp add: touched_def)
  note r = retry_db_write_success[where op = ?op and P = "touched C domain items W", OF touched_save start
      assms(2)[unfolded save_status_items_with_retry_def]]
  obtain V where V: "touched C domain items W V" "save_status_items C ?H domain items V = (W', Inr ())"
    using r(1) by auto
  have intact: "store_intact V" "may_save_item V = may_save_item W" using V(1) by (simp_all add: touched_def)
  have "\<forall>j \<in> set items. may_save_item W j"
    using save_transactions_effect[OF accounts_known_Nil store_intact_owned[OF intact(1)],
      where domain = domain and items = items and C = C and H = ?H and i = 0 and tags = "[]"] V(2)
    unfolding save_status_items_def intact(2) by auto
  moreover have five: "n \<in> {0, 1, 2, 3, 4}" if "n \<le> 4" for n :: nat
    using that by simp arith
  have "length delays \<in> {0, 1, 2, 3, 4}"
    using r(2) by (intro five) (simp add: db_write_max_attempts_def)
  then have "map (\<lambda>i. db_write_retry_delays_ms ! (i - 1)) [1 ..< 1 + length delays] =
      take (length delays) [200, 500, 1000, 2000]"
    by (auto simp: db_write_retry_delays_ms_def upt_conv_Cons)
  ultimately show ?thesis
    using uninterrupted_save[OF assms(1)] save_success[OF V] r(3) by simp
qed

lemma retried_save_succeeds:
  assumes "store_intact W" "\<forall>j \<in> set items. may_save_item W j"
    and "k \<in> {1..5}" "\<forall>i. ah_failure (hosts k) i = None"
    and "\<forall>n < k. \<forall>i e. ah_failure (hosts n) i = Some e \<longrightarrow> should_retry_sqlx_error e"
  shows "fst (snd (save_status_items_with_retry C hosts domain items W)) = Inr ()"
proof -
  let ?op = "\<lambda>attempt. save_status_items C (hosts attempt) domain items"
  have result: "snd (?op n V) \<in> insert (Inr ()) (Inl ` host_failures (hosts n))" if "touched C domain items W V" for n V
    using that assms(2) save_transactions_failures[OF accounts_known_Nil store_intact_owned,
      where W = V and items = items and domain = domain and C = C and H = "hosts n" and i = 0 and tags = "[]"]
    by (simp add: touched_def save_status_items_def)
  have "touched C domain items W W" using assms(1) by (simp add: touched_def)
  then have "\<exists>r. fst (snd (retry_db_write ?op 1 W)) = Inr r"
  proof (rule retry_db_write_succeeds[where k = k and P = "touched C domain items W", rotated -1])
    show "touched C domain items W (fst (?op n V))" if "touched C domain items W V" for n V
      by (rule touched_save[OF that])
    show "\<exists>r. snd (?op k V) = Inr r" if "touched C domain items W V" for V
      using result[OF that, of k] assms(4) by (auto simp: host_failures_def)
    show "should_retry_sqlx_error e" if "touched C domain items W V" "n < k" "snd (?op n V) = Inl e" for n V e
      using result[OF that(1), of n] that(2,3) assms(5) by (auto simp: host_failures_def)
  qed (use assms(3) in \<open>simp_all add: db_write_max_attempts_def\<close>)
  then show ?thesis by (simp add: save_status_items_with_retry_def)
qed

lemma saved_flags:
  assumes "store_intact W" "save_status_batch C H domain [s] (Some b) W = (W', Inr ())"
  shows "row_of state_row_key (bt_account_acct b, sp_id (payload s), domain) (ks_viewer_states (ws_cache W')) =
    Some (viewer_state_of (bt_account_acct b) (status_from_api C (ah_now H) s domain))"
proof -
  let ?i = "\<lparr>bi_status = s, bi_timeline = Some b, bi_viewer_acct = Some (bt_account_acct b)\<rparr>"
  let ?v = "\<lambda>s. viewer_state_of (bt_account_acct b) (status_from_api C (ah_now H) s domain)"
  have save: "save_status_items C H domain [?i] W = (W', Inr ())"
    using assms(2) by (simp add: save_status_batch_def batch_items_def)
  have "touched C domain [?i] W W" using assms(1) by (simp add: touched_def)
  from save_success[OF this save]
  have W': "W' = written C (ah_now H) domain [] [?i] (server_known domain W)" by simp
  have states: "concat (map (row_states C (ah_now H) domain) (batch_rows [?i])) = map ?v (related s) @ [?v s]"
    by (simp add: batch_rows_def item_rows_def row_states_def concat_map_singleton o_def)
  have key: "state_row_key (?v s) = (bt_account_acct b, sp_id (payload s), domain)"
    by (simp add: state_row_key_def state_key_def viewer_state_of_def status_from_api_def Let_def)
  have "ks_viewer_states (ws_cache W') =
      upsert state_row_key replaced (?v s)
        (upserts state_row_key replaced (map ?v (related s)) (ks_viewer_states (ws_cache W)))"
    unfolding W' written_def put_fields states upserts_append by simp
  then show ?thesis
    by (simp add: states_table.row_of_upsert key[symmetric]) (simp add: replaced_def split: option.split)
qed

text \<open>A row whose author was written before the cache was cleared.\<close>

lemma row_after_clear:
  assumes "account_text domain s \<in> set ks" "ks_statuses (ws_cache W) = []" "ks_accounts (ws_cache W) = []"
  shows "persist_row C now domain viewer s (W, ks, ts) = Inl foreign_key_failed"
  using assms by (simp add: persist_row_def upsert_account_once_def account_text_def upsert_status_on_def Let_def)

lemma transaction_after_clear:
  assumes "items \<noteq> []" and "account_text domain (fst (hd (batch_rows items))) \<in> set ks"
  shows "run_transaction C domain H i items (ks, tags) (clear_cached_rows W) = Inl foreign_key_failed"
proof -
  obtain j js where items: "items = j # js" using assms(1) by (cases items) auto
  obtain r rs where rows: "related (bi_status j) @ [bi_status j] = r # rs" by (cases "related (bi_status j)") auto
  have r: "account_text domain r \<in> set ks"
    using assms(2) rows by (simp add: items batch_rows_def item_rows_def)
  let ?V = "server_known domain (clear_cached_rows W)"
  have empty: "ks_statuses (ws_cache ?V) = []" "ks_accounts (ws_cache ?V) = []"
    by (simp_all add: clear_cached_rows_def delete_statuses_where_def Let_def)
  let ?row = "persist_row C (ah_now H) domain (bi_viewer_acct j)"
  have "and_then (try_fold ?row (related (bi_status j)) st) (?row (bi_status j)) =
      try_fold ?row (related (bi_status j) @ [bi_status j]) st" for st
    by (simp add: try_fold_append)
  then have "persist_item C (ah_now H) domain j (?V, ks, []) = Inl foreign_key_failed"
    unfolding persist_item_def persist_status_graph_def
    using row_after_clear[OF r empty] by (simp add: rows)
  then show ?thesis
    unfolding run_transaction_def server_known_def[symmetric] items by simp
qed

text \<open>A transaction remembers the accounts of the statuses it has written.\<close>

lemma row_keys:
  "persist_row C now domain viewer s st = Inr st' \<Longrightarrow>
   set (fst (snd st')) = insert (account_text domain s) (set (fst (snd st)))"
  by (cases st) (auto simp: persist_row_def upsert_account_once_def account_text_def Let_def and_then_Inr
      split: prod.splits if_splits)

lemma rows_keys:
  "try_fold (persist_row C now domain viewer) ss st = Inr st' \<Longrightarrow>
   set (fst (snd st')) = account_text domain ` set ss \<union> set (fst (snd st))"
proof (induction ss arbitrary: st)
  case (Cons s ss)
  then obtain st1 where one: "persist_row C now domain viewer s st = Inr st1"
    and rest: "try_fold (persist_row C now domain viewer) ss st1 = Inr st'"
    by (auto simp: and_then_Inr)
  show ?case using row_keys[OF one] Cons.IH[OF rest] by auto
qed simp

lemma item_keys:
  assumes "persist_item C now domain j st = Inr st'"
  shows "set (fst (snd st')) = account_text domain ` fst ` set (item_rows j) \<union> set (fst (snd st))"
proof -
  obtain st1 where graph: "persist_status_graph C now domain (bi_viewer_acct j) (bi_status j) st = Inr st1"
    and keys: "fst (snd st') = fst (snd st1)"
    using assms by (auto simp: persist_item_def and_then_Inr split: option.splits)
  have "try_fold (persist_row C now domain (bi_viewer_acct j)) (related (bi_status j) @ [bi_status j]) st = Inr st1"
    using graph by (simp add: persist_status_graph_def try_fold_append)
  from rows_keys[OF this] show ?thesis
    by (simp add: keys item_rows_def image_image)
qed

lemma transaction_keys:
  assumes "run_transaction C domain H i batch (ks, tags) W = Inr (W', ks', tags')"
  shows "set ks' = account_text domain ` fst ` set (batch_rows batch) \<union> set ks"
proof -
  have fold: "set (fst (snd st')) = account_text domain ` fst ` set (batch_rows js) \<union> set (fst (snd st))"
    if "try_fold (persist_item C (ah_now H) domain) js st = Inr st'" for js st st'
    using that
  proof (induction js arbitrary: st)
    case (Cons j js)
    then obtain st1 where one: "persist_item C (ah_now H) domain j st = Inr st1"
      and rest: "try_fold (persist_item C (ah_now H) domain) js st1 = Inr st'"
      by (auto simp: and_then_Inr)
    show ?case using item_keys[OF one] Cons.IH[OF rest] by (simp add: batch_rows_def image_Un Un_ac)
  qed (simp add: batch_rows_def)
  obtain V ts where "try_fold (persist_item C (ah_now H) domain) batch
      (upsert_server_on domain (str ''wss://'' @ domain) W, ks, []) = Inr (V, ks', ts)"
    using assms by (auto simp: run_transaction_def and_then_Inr Let_def split: option.splits)
  from fold[OF this] show ?thesis by simp
qed

text \<open>A save between whose transactions others write: \<open>others i\<close> is what they do before its transaction
  \<open>i\<close>. Left alone, it is \<open>save_transactions\<close>.\<close>

function save_among_writers ::
  "codec \<Rightarrow> rstr \<Rightarrow> attempt_host \<Rightarrow> (nat \<Rightarrow> write_store \<Rightarrow> write_store) \<Rightarrow> nat \<Rightarrow> batch_item list \<Rightarrow>
   rstr list \<times> rstr list \<Rightarrow> write_store \<Rightarrow> write_store \<times> (sql_failure + unit)" where
  "save_among_writers C domain H others i items persisted W =
     (if items = [] then (W, Inr ())
      else
        let n = transaction_size H i; W0 = others i W in
        case run_transaction C domain H i (take n items) persisted W0 of
          Inl e \<Rightarrow> (W0, Inl e)
        | Inr (W', account_keys, tag_names) \<Rightarrow>
            save_among_writers C domain H others (i + 1) (drop n items) (account_keys, tag_names) W')"
  by pat_completeness auto
termination
  by (relation "measure (\<lambda>(C, domain, H, others, i, items, persisted, W). length items)")
    (auto simp: transaction_size_def)

declare save_among_writers.simps [simp del]

lemma save_among_none: "save_among_writers C domain H (\<lambda>_ W. W) i items persisted W =
  save_transactions C domain H i items persisted W"
proof (induction C domain H i items persisted W rule: save_transactions.induct)
  case (1 C domain H i items persisted W)
  then show ?case
    by (simp add: save_among_writers.simps[of C domain H _ i items] save_transactions.simps[of C domain H i items]
        Let_def split: sum.split)
qed

section \<open>Properties\<close>

text \<open>Whatever the writers of the store do, in whatever order, starting with the empty store, and
  whatever fails in a save, the store stays intact: keys are unique; every status has its author, every
  timeline entry, viewer state, identity and tag its status, every entry, viewer state and column its
  login account; the counter is the number of statuses; one login account is active as soon as there is
  one. The readers of the query language rely on it.\<close>

theorem writers_keep_store_intact:
  "store_intact (fold (store_step C) events empty_write_store) \<and>
   store_keys_ok (ws_cache (fold (store_step C) events empty_write_store))"
  using store_intact_run[OF store_intact_empty, of C events] store_intact_keys by blast

text \<open>C20: A save that succeeds, after attempts that failed anywhere between two of its transactions,
  leaves exactly the store of one uninterrupted save with the clock of the last attempt, however that
  one is cut into transactions; and the attempts are at most five, 200, 500, 1000 and 2000 ms apart.\<close>

theorem retried_save_is_one_save:
  assumes "store_intact W"
    and "save_status_items_with_retry C hosts domain items W = (W', Inr (), delays)"
  shows "save_status_items C (uninterrupted (ah_now (hosts (Suc (length delays)))) fits) domain items W = (W', Inr ()) \<and>
    delays = take (length delays) [200, 500, 1000, 2000]"
  by (rule retried_save[OF assms])

text \<open>C21: A save returns: when the accounts it saves for are signed in, one of its five attempts meets no
  failure and those before it only a locked or busy database or an exhausted pool, it succeeds.\<close>

theorem retried_save_returns:
  assumes "store_intact W" "\<forall>j \<in> set items. may_save_item W j"
    and "k \<in> {1..5}" "\<forall>i. ah_failure (hosts k) i = None"
    and "\<forall>n < k. \<forall>i e. ah_failure (hosts n) i = Some e \<longrightarrow> should_retry_sqlx_error e"
  shows "fst (snd (save_status_items_with_retry C hosts domain items W)) = Inr ()"
  by (rule retried_save_succeeds[OF assms])

text \<open>C22: A save overwrites the viewer's flags of the status with those of the payload, absent ones
  included: a provider that leaves the bookmark out of its timelines erases the stored bookmark.\<close>

theorem save_overwrites_flags:
  assumes "store_intact W" "save_status_batch C H domain [s] (Some b) W = (W', Inr ())"
  shows "\<exists>v. row_of state_row_key (bt_account_acct b, sp_id (payload s), domain) (ks_viewer_states (ws_cache W')) = Some v \<and>
    vs_bookmarked v = sp_bookmarked (payload s) \<and> vs_favourited v = sp_favourited (payload s) \<and>
    vs_reblogged v = sp_reblogged (payload s) \<and> vs_muted v = sp_muted (payload s)"
  using saved_flags[OF assms] by (simp add: viewer_state_of_def status_from_api_def Let_def)

text \<open>C23: A save survives no clearing of the cache between two of its transactions when the first status
  that the next one writes is of an account that the save has written before: it carries the accounts
  it has written from transaction to transaction and does not write them again, so that status violates
  the foreign key, and the save ends with an error that is not retried, leaving the cleared cache.\<close>

theorem clearing_breaks_running_save:
  assumes "run_transaction C domain H i (take (transaction_size H i) items) persisted (others i W) = Inr (W', persisted')"
    and "drop (transaction_size H i) items \<noteq> []"
    and "account_text domain (fst (hd (batch_rows (drop (transaction_size H i) items)))) \<in>
      account_text domain ` fst ` set (batch_rows (take (transaction_size H i) items)) \<union> set (fst persisted)"
    and "others (Suc i) = clear_cached_rows"
  shows "save_among_writers C domain H others i items persisted W = (clear_cached_rows W', Inl foreign_key_failed) \<and>
    \<not> should_retry_sqlx_error foreign_key_failed"
proof
  let ?next = "drop (transaction_size H i) items"
  obtain ks tags ks' tags' where p: "persisted = (ks, tags)" "persisted' = (ks', tags')"
    by (cases persisted; cases persisted')
  have known: "account_text domain (fst (hd (batch_rows ?next))) \<in> set ks'"
    using assms(3) transaction_keys[OF assms(1)[unfolded p]] by (simp add: p)
  have items: "items \<noteq> []" "take (transaction_size H (Suc i)) ?next \<noteq> []"
    using assms(2) by (auto simp: transaction_size_def)
  obtain j js where split: "?next = j # js" using assms(2) by (cases ?next) auto
  have "batch_rows [j] \<noteq> []" by (simp add: batch_rows_def item_rows_def)
  then have "hd (batch_rows (take (transaction_size H (Suc i)) ?next)) = hd (batch_rows ?next)"
    unfolding split by (cases "transaction_size H (Suc i)") (simp_all add: transaction_size_def batch_rows_def)
  then have "run_transaction C domain H (Suc i) (take (transaction_size H (Suc i)) ?next) persisted'
      (clear_cached_rows W') = Inl foreign_key_failed"
    using transaction_after_clear[OF items(2)] known by (simp add: p)
  then have "save_among_writers C domain H others (Suc i) ?next persisted' W' =
      (clear_cached_rows W', Inl foreign_key_failed)"
    using assms(2,4) by (simp add: save_among_writers.simps[of C domain H others "Suc i" ?next] Let_def)
  then show "save_among_writers C domain H others i items persisted W = (clear_cached_rows W', Inl foreign_key_failed)"
    using items(1) assms(1)
    by (simp add: save_among_writers.simps[of C domain H others i items] p Let_def)
  show "\<not> should_retry_sqlx_error foreign_key_failed" by code_simp
qed

section \<open>Witnesses\<close>

definition bookmarked_once :: write_store where
  "bookmarked_once = fst (save_status_batch plain_codec (uninterrupted [49] (\<lambda>_. 64)) [109]
     [a_status [53] (Some True)] (Some home) signed_in)"

definition synced_again :: write_store where
  "synced_again = fst (save_status_batch plain_codec (uninterrupted [50] (\<lambda>_. 64)) [109]
     [a_status [53] None] (Some home) bookmarked_once)"

definition two_items :: "batch_item list" where
  "two_items = batch_items (Some home) [a_status [53] None, a_status [54] None]"

lemma intact_signed_in: "store_intact signed_in"
  unfolding signed_in_def by (rule store_intact_login[OF store_intact_empty])

lemma signed_in_may: "\<forall>j \<in> set (batch_items (Some home) page). may_save_item signed_in j"
proof -
  have "logged_in signed_in [117]" by code_simp
  then show ?thesis
    by (auto simp: batch_items_def may_save_item_def may_save_def home_def)
qed

theorem retried_save_is_one_save_witness:
  "\<exists>W'. save_status_items_with_retry plain_codec failing_once [109] two_items signed_in = (W', Inr (), [200]) \<and>
     save_status_items plain_codec (uninterrupted [50] (\<lambda>_. 64)) [109] two_items signed_in = (W', Inr ()) \<and>
     map st_id (ks_statuses (ws_cache W')) = [[53], [54]]"
proof -
  let ?r = "save_status_items_with_retry plain_codec failing_once [109] two_items signed_in"
  have run: "snd ?r = (Inr (), [200])" by code_simp
  have rows: "map st_id (ks_statuses (ws_cache (fst ?r))) = [[53], [54]]" by code_simp
  have "?r = (fst ?r, Inr (), [200])" using run by (metis prod.collapse)
  from retried_save_is_one_save[OF intact_signed_in this, of "\<lambda>_. 64"] this rows
  show ?thesis by (intro exI[of _ "fst ?r"]) (simp add: failing_once_def numeral_2_eq_2[symmetric])
qed

theorem retried_save_returns_witness:
  "fst (snd (save_status_items_with_retry plain_codec failing_once [109] two_items signed_in)) = Inr ()"
proof (rule retried_save_returns[where k = 2])
  show "\<forall>j \<in> set two_items. may_save_item signed_in j"
    unfolding two_items_def by (rule signed_in_may)
  have "should_retry_sqlx_error locked" by code_simp
  then show "\<forall>n < 2. \<forall>i e. ah_failure (failing_once n) i = Some e \<longrightarrow> should_retry_sqlx_error e"
    by (auto simp: failing_once_def split: if_splits)
qed (auto simp: intact_signed_in failing_once_def)

theorem save_overwrites_flags_witness:
  "map vs_bookmarked (ks_viewer_states (ws_cache bookmarked_once)) = [Some True] \<and>
   (\<exists>v. row_of state_row_key ([117], [53], [109]) (ks_viewer_states (ws_cache synced_again)) = Some v \<and>
      vs_bookmarked v = None)"
proof
  show "map vs_bookmarked (ks_viewer_states (ws_cache bookmarked_once)) = [Some True]" by code_simp
  have intact: "store_intact bookmarked_once"
    unfolding bookmarked_once_def save_status_batch_def by (rule store_intact_save[OF intact_signed_in])
  let ?r = "save_status_batch plain_codec (uninterrupted [50] (\<lambda>_. 64)) [109] [a_status [53] None] (Some home) bookmarked_once"
  have "snd ?r = Inr ()" by code_simp
  then have "?r = (synced_again, Inr ())" unfolding synced_again_def by (metis prod.collapse)
  from save_overwrites_flags[OF intact this]
  show "\<exists>v. row_of state_row_key ([117], [53], [109]) (ks_viewer_states (ws_cache synced_again)) = Some v \<and>
      vs_bookmarked v = None"
    by (auto simp: home_def a_status_def)
qed

text \<open>Two statuses of one account, one to a transaction, and the cache cleared in between.\<close>

definition after_first :: persist_state where
  "after_first = (case run_transaction plain_codec [109] (failing_once 2) 0 (take 1 two_items) ([], []) signed_in of
     Inr st \<Rightarrow> st | Inl _ \<Rightarrow> (empty_write_store, [], []))"

definition clearing_between :: "nat \<Rightarrow> write_store \<Rightarrow> write_store" where
  "clearing_between i W = (if i = 1 then clear_cached_rows W else W)"

theorem clearing_breaks_running_save_witness:
  "map st_id (ks_statuses (ws_cache (fst after_first))) = [[53]] \<and>
   save_among_writers plain_codec [109] (failing_once 2) clearing_between 0 two_items ([], []) signed_in =
     (clear_cached_rows (fst after_first), Inl foreign_key_failed)"
proof
  show "map st_id (ks_statuses (ws_cache (fst after_first))) = [[53]]" by code_simp
  let ?run = "run_transaction plain_codec [109] (failing_once 2) 0 (take 1 two_items) ([], []) signed_in"
  have size: "transaction_size (failing_once 2) 0 = 1" by code_simp
  have "case ?run of Inl _ \<Rightarrow> False | Inr _ \<Rightarrow> True" by code_simp
  then have "?run = Inr (fst after_first, snd after_first)"
    by (simp add: after_first_def split: sum.splits)
  moreover have "account_text [109] (fst (hd (batch_rows (drop 1 two_items)))) \<in>
      account_text [109] ` fst ` set (batch_rows (take 1 two_items)) \<union> set (fst ([], []))"
    "drop 1 two_items \<noteq> []"
    by code_simp+
  ultimately show "save_among_writers plain_codec [109] (failing_once 2) clearing_between 0 two_items ([], []) signed_in =
      (clear_cached_rows (fst after_first), Inl foreign_key_failed)"
    using clearing_breaks_running_save[of plain_codec "[109]" "failing_once 2" 0 two_items "([], [])"
        clearing_between signed_in "fst after_first" "snd after_first"]
    by (simp add: size clearing_between_def fun_eq_iff)
qed

end
