(* ===== verification/StartupSync.thy ===== *)
theory StartupSync
imports StoreRuns
begin

text \<open>
  The synchronisation of an account at the start, \<^verbatim>\<open>src/src/services/startup_sync.rs\<close>: five phases with
  a durable row each. Bookmarks and favourites are reconciled completely once a week: every page is
  saved, then committed with its statuses as members of a generation and with the cursor of the next
  page; the last commit clears what no page has listed. A run that ends early is resumed at its cursor.

  An instant is a number of nanoseconds, \<^verbatim>\<open>parse_from_rfc3339\<close> an argument. What the provider answers,
  which database call fails, what the clock says and after how many pages the process ends are given
  by a host for each launch. The time a phase takes is only recorded.
\<close>

section \<open>Phases and plans\<close>

datatype startup_sync_phase = Home | Public | Notifications | Bookmarks | Favourites

definition all_phases :: "startup_sync_phase list" where
  "all_phases = [Home, Public, Notifications, Bookmarks, Favourites]"

fun phase_as_str :: "startup_sync_phase \<Rightarrow> rstr" where
  "phase_as_str Home = str ''home''"
| "phase_as_str Public = str ''public''"
| "phase_as_str Notifications = str ''notifications''"
| "phase_as_str Bookmarks = str ''bookmarks''"
| "phase_as_str Favourites = str ''favourites''"

definition supports_full_reconciliation :: "startup_sync_phase \<Rightarrow> bool" where
  "supports_full_reconciliation phase \<longleftrightarrow> phase = Bookmarks \<or> phase = Favourites"

record startup_sync_state =
  ss_account_acct :: rstr
  ss_phase :: rstr
  ss_high_water_id :: "rstr option"
  ss_resume_cursor :: "rstr option"
  ss_last_success_at :: "rstr option"
  ss_last_full_reconcile_at :: "rstr option"
  ss_reconciliation_generation :: "rstr option"
  ss_api_requests :: int
  ss_db_writes :: int
  ss_last_duration_ms :: int
  ss_last_error :: "rstr option"

datatype startup_sync_plan =
    SkipPhase
  | Incremental "rstr option" nat
  | FullReconcile rstr "rstr option"

record startup_sync_policy =
  head_refresh_interval :: int
  full_reconcile_interval :: int

definition default_policy :: startup_sync_policy where
  "default_policy =
     \<lparr>head_refresh_interval = 6 * 3600 * 1000000000, full_reconcile_interval = 7 * 86400 * 1000000000\<rparr>"

definition full_is_due ::
  "(rstr \<Rightarrow> datetime option) \<Rightarrow> startup_sync_policy \<Rightarrow> startup_sync_state option \<Rightarrow> datetime \<Rightarrow> bool" where
  "full_is_due from_rfc3339 policy state now \<longleftrightarrow>
     (case Option.bind (Option.bind state ss_last_full_reconcile_at) from_rfc3339 of
        None \<Rightarrow> True | Some before \<Rightarrow> full_reconcile_interval policy \<le> now - before)"

definition head_is_fresh ::
  "(rstr \<Rightarrow> datetime option) \<Rightarrow> startup_sync_policy \<Rightarrow> startup_sync_state option \<Rightarrow> datetime \<Rightarrow> bool" where
  "head_is_fresh from_rfc3339 policy state now \<longleftrightarrow>
     (case Option.bind (Option.bind state ss_last_success_at) from_rfc3339 of
        None \<Rightarrow> False | Some before \<Rightarrow> now - before < head_refresh_interval policy)"

definition plan_phase ::
  "(rstr \<Rightarrow> datetime option) \<Rightarrow> startup_sync_policy \<Rightarrow> startup_sync_phase \<Rightarrow> startup_sync_state option \<Rightarrow>
   datetime \<Rightarrow> rstr \<Rightarrow> startup_sync_plan" where
  "plan_phase from_rfc3339 policy phase state now next_generation =
     (case Option.bind state ss_reconciliation_generation of
        Some g \<Rightarrow> FullReconcile g (Option.bind state ss_resume_cursor)
      | None \<Rightarrow>
          if supports_full_reconciliation phase \<and> full_is_due from_rfc3339 policy state now
          then FullReconcile next_generation None
          else if supports_full_reconciliation phase \<and> head_is_fresh from_rfc3339 policy state now
          then SkipPhase
          else Incremental (Option.bind state ss_high_water_id) 1)"

section \<open>Durable state\<close>

text \<open>A member is a status that a page of a generation has listed.\<close>

type_synonym member = "(rstr \<times> rstr \<times> rstr) \<times> entity_key"

record db_notification =
  nt_id :: rstr
  nt_server_domain :: rstr
  nt_account_acct :: rstr
  nt_notification_type :: rstr
  nt_created_at :: rstr
  nt_account_id :: rstr
  nt_status_id :: "rstr option"
  nt_read_at :: "rstr option"
  nt_fetched_at :: rstr

record sync_store =
  sy_store :: write_store
  sy_states :: "startup_sync_state list"
  sy_members :: "member list"
  sy_notifications :: "db_notification list"

definition state_key_of :: "startup_sync_state \<Rightarrow> rstr \<times> rstr" where
  "state_key_of st = (ss_account_acct st, ss_phase st)"

definition load_phase_state :: "rstr \<Rightarrow> startup_sync_phase \<Rightarrow> sync_store \<Rightarrow> startup_sync_state option" where
  "load_phase_state acct phase S = row_of state_key_of (acct, phase_as_str phase) (sy_states S)"

text \<open>\<^verbatim>\<open>UPDATE startup_sync_state\<close> of one row; \<open>None\<close> when there is none.\<close>

definition update_phase_state ::
  "rstr \<Rightarrow> startup_sync_phase \<Rightarrow> (startup_sync_state \<Rightarrow> startup_sync_state) \<Rightarrow> sync_store \<Rightarrow> sync_store option" where
  "update_phase_state acct phase f S =
     (if load_phase_state acct phase S = None then None
      else Some (S\<lparr>sy_states := map (\<lambda>st. if state_key_of st = (acct, phase_as_str phase) then f st else st)
             (sy_states S)\<rparr>))"

definition new_phase_state :: "rstr \<Rightarrow> startup_sync_phase \<Rightarrow> startup_sync_state" where
  "new_phase_state acct phase =
     \<lparr>ss_account_acct = acct, ss_phase = phase_as_str phase, ss_high_water_id = None, ss_resume_cursor = None,
      ss_last_success_at = None, ss_last_full_reconcile_at = None, ss_reconciliation_generation = None,
      ss_api_requests = 0, ss_db_writes = 0, ss_last_duration_ms = 0, ss_last_error = None\<rparr>"

text \<open>Deleting a status or a login account removes what refers to it.\<close>

definition cascade :: "sync_store \<Rightarrow> sync_store" where
  "cascade S =
     (let W = sy_store S; keys = status_key_for_status ` set (ks_statuses (ws_cache W));
          accounts = account_key ` set (ks_accounts (ws_cache W))
      in S\<lparr>sy_states := filter (\<lambda>st. logged_in W (ss_account_acct st)) (sy_states S),
           sy_members := filter (\<lambda>((acct, _, _), k). logged_in W acct \<and> k \<in> keys) (sy_members S),
           sy_notifications := filter (\<lambda>n. logged_in W (nt_account_acct n) \<and>
             (nt_account_id n, nt_server_domain n) \<in> accounts \<and>
             (case nt_status_id n of None \<Rightarrow> True | Some i \<Rightarrow> (i, nt_server_domain n) \<in> keys))
             (sy_notifications S)\<rparr>)"

section \<open>Statements\<close>

definition prepare_phase_at ::
  "(rstr \<Rightarrow> datetime option) \<Rightarrow> rstr \<Rightarrow> startup_sync_phase \<Rightarrow> startup_sync_policy \<Rightarrow> datetime \<Rightarrow> rstr \<Rightarrow>
   sql_failure option \<Rightarrow> sync_store \<Rightarrow> sync_store \<times> (sql_failure + startup_sync_plan)" where
  "prepare_phase_at from_rfc3339 acct phase policy now next_generation failure S =
     (let state = load_phase_state acct phase S;
          plan = plan_phase from_rfc3339 policy phase state now next_generation;
          S1 = (if state = None then S\<lparr>sy_states := sy_states S @ [new_phase_state acct phase]\<rparr> else S)
      in case failure of Some e \<Rightarrow> (S, Inl e) | None \<Rightarrow>
        if state = None \<and> \<not> logged_in (sy_store S) acct then (S, Inl foreign_key_failed)
        else case plan of
          FullReconcile g cursor \<Rightarrow>
            if cursor = None \<and> Option.bind state ss_reconciliation_generation = None
            then let S2 = S1\<lparr>sy_members := filter (\<lambda>((a, p, _), _). \<not> (a = acct \<and> p = phase_as_str phase))
                       (sy_members S1)\<rparr>
                 in (case update_phase_state acct phase
                       (\<lambda>st. st\<lparr>ss_reconciliation_generation := Some g, ss_resume_cursor := None, ss_last_error := None\<rparr>) S2 of
                       None \<Rightarrow> S2 | Some S3 \<Rightarrow> S3, Inr plan)
            else (S1, Inr plan)
        | _ \<Rightarrow> (S1, Inr plan))"

definition saturating_i64 :: "nat \<Rightarrow> int" where
  "saturating_i64 value = int (min value (2 ^ 63 - 1))"

record page_checkpoint =
  pc_high_water_id :: "rstr option"
  pc_next_cursor :: "rstr option"
  pc_reconciliation_generation :: "rstr option"
  pc_members :: "entity_key list"
  pc_api_requests :: nat
  pc_db_writes :: nat
  pc_duration_ms :: nat

interpretation members_table: keyed_table "\<lambda>m :: member. m" ignored
  by unfold_locales (simp_all add: ignored_def)

definition commit_page_checkpoint ::
  "rstr \<Rightarrow> startup_sync_phase \<Rightarrow> page_checkpoint \<Rightarrow> sql_failure option \<Rightarrow> sync_store \<Rightarrow>
   sync_store \<times> (sql_failure + unit)" where
  "commit_page_checkpoint acct phase c failure S =
     (let W = sy_store S;
          listed = (case pc_reconciliation_generation c of None \<Rightarrow> []
            | Some g \<Rightarrow> map (\<lambda>k. ((acct, phase_as_str phase, g), k)) (pc_members c));
          S1 = S\<lparr>sy_members := upserts (\<lambda>m. m) ignored listed (sy_members S)\<rparr>
      in case failure of Some e \<Rightarrow> (S, Inl e) | None \<Rightarrow>
        if \<exists>m \<in> set listed. \<not> (logged_in W acct \<and> snd m \<in> status_key_for_status ` set (ks_statuses (ws_cache W)))
        then (S, Inl foreign_key_failed)
        else case update_phase_state acct phase
               (\<lambda>st. st\<lparr>ss_high_water_id := (case pc_high_water_id c of None \<Rightarrow> ss_high_water_id st | Some i \<Rightarrow> Some i),
                        ss_resume_cursor := pc_next_cursor c,
                        ss_api_requests := ss_api_requests st + saturating_i64 (pc_api_requests c),
                        ss_db_writes := ss_db_writes st + saturating_i64 (pc_db_writes c),
                        ss_last_duration_ms := saturating_i64 (pc_duration_ms c),
                        ss_last_error := None\<rparr>) S1 of
            None \<Rightarrow> (S, Inl OtherSqlFailure)
          | Some S2 \<Rightarrow> (S2, Inr ()))"

record reconciliation_result =
  rr_cleared_viewer_states :: nat
  rr_removed_timeline_entries :: nat

text \<open>The column of the viewer's state that a phase reconciles.\<close>

definition phase_flag :: "startup_sync_phase \<Rightarrow> db_status_viewer_state \<Rightarrow> bool option" where
  "phase_flag phase v = (case phase of Bookmarks \<Rightarrow> vs_bookmarked v | Favourites \<Rightarrow> vs_favourited v | _ \<Rightarrow> None)"

definition clear_flag :: "startup_sync_phase \<Rightarrow> rstr \<Rightarrow> db_status_viewer_state \<Rightarrow> db_status_viewer_state" where
  "clear_flag phase now v =
     (case phase of Bookmarks \<Rightarrow> v\<lparr>vs_bookmarked := Some False, vs_updated_at := now\<rparr>
      | Favourites \<Rightarrow> v\<lparr>vs_favourited := Some False, vs_updated_at := now\<rparr> | _ \<Rightarrow> v)"

definition stale_flag :: "rstr \<Rightarrow> startup_sync_phase \<Rightarrow> rstr \<Rightarrow> member list \<Rightarrow> db_status_viewer_state \<Rightarrow> bool" where
  "stale_flag acct phase g seen v \<longleftrightarrow>
     vs_login_account_acct v = acct \<and> phase_flag phase v = Some True \<and>
     ((acct, phase_as_str phase, g), state_key v) \<notin> set seen"

definition stale_entry :: "rstr \<Rightarrow> startup_sync_phase \<Rightarrow> rstr \<Rightarrow> member list \<Rightarrow> timeline_entry \<Rightarrow> bool" where
  "stale_entry acct phase g seen e \<longleftrightarrow>
     te_account_acct e = acct \<and> te_timeline_type e = phase_as_str phase \<and>
     ((acct, phase_as_str phase, g), entry_key e) \<notin> set seen"

definition reconcile ::
  "rstr \<Rightarrow> startup_sync_phase \<Rightarrow> rstr \<Rightarrow> rstr \<Rightarrow> sync_store \<Rightarrow> sync_store \<times> reconciliation_result" where
  "reconcile acct phase g now S =
     (let W = sy_store S; cache = ws_cache W; seen = sy_members S;
          stale = stale_flag acct phase g seen; old = stale_entry acct phase g seen
      in (S\<lparr>sy_store := W\<lparr>ws_cache := cache\<lparr>
               ks_viewer_states := map (\<lambda>v. if stale v then clear_flag phase now v else v) (ks_viewer_states cache),
               ks_timeline_entries := filter (\<lambda>e. \<not> old e) (ks_timeline_entries cache)\<rparr>\<rparr>,
             sy_members := filter (\<lambda>(key, _). key \<noteq> (acct, phase_as_str phase, g)) seen\<rparr>,
          \<lparr>rr_cleared_viewer_states = length (filter stale (ks_viewer_states cache)),
           rr_removed_timeline_entries = length (filter old (ks_timeline_entries cache))\<rparr>))"

definition complete_phase_at ::
  "rstr \<Rightarrow> startup_sync_phase \<Rightarrow> rstr \<Rightarrow> sql_failure option \<Rightarrow> sync_store \<Rightarrow>
   sync_store \<times> (sql_failure + reconciliation_result)" where
  "complete_phase_at acct phase now failure S =
     (let generation = Option.bind (load_phase_state acct phase S) ss_reconciliation_generation;
          (S1, result) = (case generation of
             None \<Rightarrow> (S, \<lparr>rr_cleared_viewer_states = 0, rr_removed_timeline_entries = 0\<rparr>)
           | Some g \<Rightarrow> reconcile acct phase g now S)
      in case failure of Some e \<Rightarrow> (S, Inl e) | None \<Rightarrow>
        case update_phase_state acct phase
               (\<lambda>st. st\<lparr>ss_resume_cursor := None, ss_reconciliation_generation := None,
                        ss_last_success_at := Some now,
                        ss_last_full_reconcile_at :=
                          (if generation = None then ss_last_full_reconcile_at st else Some now),
                        ss_last_error := None\<rparr>) S1 of
            None \<Rightarrow> (S, Inl OtherSqlFailure)
          | Some S2 \<Rightarrow> (S2, Inr result))"

definition fail_phase :: "rstr \<Rightarrow> startup_sync_phase \<Rightarrow> rstr \<Rightarrow> sync_store \<Rightarrow> sync_store \<times> (sql_failure + unit)" where
  "fail_phase acct phase error S =
     (case update_phase_state acct phase (\<lambda>st. st\<lparr>ss_last_error := Some (take 1000 error)\<rparr>) S of
        None \<Rightarrow> (S, Inl OtherSqlFailure) | Some S' \<Rightarrow> (S', Inr ()))"

definition record_phase_duration :: "rstr \<Rightarrow> startup_sync_phase \<Rightarrow> nat \<Rightarrow> sync_store \<Rightarrow> sync_store" where
  "record_phase_duration acct phase duration_ms S =
     (case update_phase_state acct phase
        (\<lambda>st. st\<lparr>ss_last_duration_ms := saturating_i64 duration_ms, ss_db_writes := ss_db_writes st + 1\<rparr>) S of
        None \<Rightarrow> S | Some S' \<Rightarrow> S')"

end
