(* ===== verification/StartupRun.thy ===== *)
theory StartupRun
imports StartupSync
begin

text \<open>
  The phases of a launch, \<^verbatim>\<open>run_startup_account\<close> of \<^verbatim>\<open>src/src/services/startup_sync.rs\<close>, with the detection of
  a gap from \<^verbatim>\<open>src/src/services/timeline_service.rs\<close>. The background resolution of quotes and the
  progress messages are left out.
\<close>

section \<open>Hosts\<close>

datatype phase_error =
    ApiFailed rstr
  | WriteFailed sql_failure
  | UnexpectedPlan
  | RepeatedCursor rstr
  | ProcessEnded

text \<open>
  What one run of a phase meets. Requests are numbered; \<open>lh_fetch\<close> gets the number, \<^verbatim>\<open>max_id\<close> and
  \<^verbatim>\<open>since_id\<close>. The process ends after \<open>lh_pages\<close> pages, or at the failure that the run meets when
  \<open>lh_killed\<close>; then no error is recorded. The clock is read at the preparation, at the completion and
  for the notifications.
\<close>

record launch_host =
  lh_now :: datetime
  lh_generation :: rstr
  lh_prepare_failure :: "sql_failure option"
  lh_fetch :: "nat \<Rightarrow> rstr option \<Rightarrow> rstr option \<Rightarrow> rstr + api_status list \<times> rstr option"
  lh_gap_failure :: "sql_failure option"
  lh_save :: "nat \<Rightarrow> nat \<Rightarrow> attempt_host"
  lh_commit_failure :: "nat \<Rightarrow> sql_failure option"
  lh_done_at :: datetime
  lh_complete_failure :: "sql_failure option"
  lh_pages :: nat
  lh_killed :: bool
  lh_duration_ms :: nat
  lh_error_text :: "phase_error \<Rightarrow> rstr"

record phase_metrics =
  pm_skipped :: bool
  pm_api_requests :: nat
  pm_db_writes :: nat
  pm_fetched_items :: nat
  pm_duration_ms :: nat
  pm_error :: "phase_error option"

definition metrics_of :: "nat \<Rightarrow> nat \<Rightarrow> nat \<Rightarrow> phase_metrics" where
  "metrics_of api_requests db_writes fetched_items =
     \<lparr>pm_skipped = False, pm_api_requests = api_requests, pm_db_writes = db_writes,
      pm_fetched_items = fetched_items, pm_duration_ms = 0, pm_error = None\<rparr>"

definition skipped_metrics :: phase_metrics where
  "skipped_metrics =
     \<lparr>pm_skipped = True, pm_api_requests = 0, pm_db_writes = 0, pm_fetched_items = 0, pm_duration_ms = 0,
      pm_error = None\<rparr>"

text \<open>A save into the cache; a failure is a failed write.\<close>

definition save_page ::
  "codec \<Rightarrow> (nat \<Rightarrow> attempt_host) \<Rightarrow> rstr \<Rightarrow> api_status list \<Rightarrow> batch_timeline \<Rightarrow> sync_store \<Rightarrow>
   sync_store \<times> (phase_error + unit)" where
  "save_page C hosts domain page context S =
     (let (W, r, _) = save_status_batch_with_retry C hosts domain page (Some context) (sy_store S)
      in (S\<lparr>sy_store := W\<rparr>, case r of Inl e \<Rightarrow> Inl (WriteFailed e) | Inr _ \<Rightarrow> Inr ()))"

section \<open>Collections\<close>

definition with_bookmarked :: "api_status \<Rightarrow> api_status" where
  "with_bookmarked s = ApiStatus ((payload s)\<lparr>sp_bookmarked := Some True\<rparr>) (reblog s) (quoted s)"

definition with_favourited :: "api_status \<Rightarrow> api_status" where
  "with_favourited s = ApiStatus ((payload s)\<lparr>sp_favourited := Some True\<rparr>) (reblog s) (quoted s)"

definition collection_status :: "startup_sync_phase \<Rightarrow> api_status \<Rightarrow> api_status" where
  "collection_status phase s =
     (if phase = Bookmarks then with_bookmarked s
      else with_favourited (case reblog s of Some r \<Rightarrow> r | None \<Rightarrow> s))"

definition page_context :: "rstr \<Rightarrow> startup_sync_phase \<Rightarrow> batch_timeline" where
  "page_context acct phase = \<lparr>bt_timeline_type = phase_as_str phase, bt_account_acct = acct\<rparr>"

definition usable_cursor :: "rstr option \<Rightarrow> rstr option" where
  "usable_cursor next_max_id = (case next_max_id of Some c \<Rightarrow> if c = [] then None else Some c | None \<Rightarrow> None)"

record collection_run =
  cn_acct :: rstr
  cn_domain :: rstr
  cn_phase :: startup_sync_phase
  cn_generation :: "rstr option"
  cn_since_id :: "rstr option"
  cn_max_pages :: nat

text \<open>One page: request, save, commit. The cursor of the next page is returned with the size of the page.\<close>

definition collection_page ::
  "codec \<Rightarrow> launch_host \<Rightarrow> collection_run \<Rightarrow> nat \<Rightarrow> nat \<Rightarrow> rstr option \<Rightarrow> sync_store \<Rightarrow>
   sync_store \<times> (phase_error + rstr option \<times> nat)" where
  "collection_page C H R api_requests page cursor S =
     (case lh_fetch H api_requests cursor (cn_since_id R) of
        Inl e \<Rightarrow> (S, Inl (ApiFailed e))
      | Inr (data, next_max_id) \<Rightarrow>
          let high_water_id = (if page = 1 \<and> cursor = None then map_option (\<lambda>s. sp_id (payload s))
                (case data of [] \<Rightarrow> None | s # _ \<Rightarrow> Some s) else None);
              page_statuses = map (collection_status (cn_phase R)) data;
              (S1, saved) = save_page C (lh_save H api_requests) (cn_domain R) page_statuses
                (page_context (cn_acct R) (cn_phase R)) S
          in case saved of Inl e \<Rightarrow> (S1, Inl e) | Inr _ \<Rightarrow>
               let next_cursor = usable_cursor next_max_id;
                   (S2, committed) = commit_page_checkpoint (cn_acct R) (cn_phase R)
                     \<lparr>pc_high_water_id = high_water_id, pc_next_cursor = next_cursor,
                      pc_reconciliation_generation = cn_generation R,
                      pc_members = map (\<lambda>s. (sp_id (payload s), cn_domain R)) page_statuses,
                      pc_api_requests = 1, pc_db_writes = (if page_statuses = [] then 0 else 1) + 1,
                      pc_duration_ms = 0\<rparr> (lh_commit_failure H api_requests) S1
               in (S2, case committed of Inl e \<Rightarrow> Inl (WriteFailed e) | Inr _ \<Rightarrow>
                     Inr (next_cursor, length page_statuses)))"

text \<open>The page counter is a \<^verbatim>\<open>u32\<close>. The first argument is the number of pages until the process ends.\<close>

fun collection_loop ::
  "codec \<Rightarrow> launch_host \<Rightarrow> collection_run \<Rightarrow> nat \<Rightarrow> nat \<Rightarrow> rstr option \<Rightarrow> rstr list \<Rightarrow> nat \<times> nat \<times> nat \<Rightarrow> sync_store \<Rightarrow>
   sync_store \<times> (phase_error + nat \<times> nat \<times> nat)" where
  "collection_loop C H R 0 page cursor seen counts S = (S, Inl ProcessEnded)"
| "collection_loop C H R (Suc n) page cursor seen (api_requests, db_writes, fetched_items) S =
     (let page = (page + 1) mod 2 ^ 32 in
      case collection_page C H R api_requests page cursor S of
        (S', Inl e) \<Rightarrow> (S', Inl e)
      | (S', Inr (next_cursor, page_count)) \<Rightarrow>
          let counts = (api_requests + 1, db_writes + (if page_count = 0 then 0 else 1) + 1,
                fetched_items + page_count)
          in if cn_generation R = None \<or> cn_max_pages R \<le> page \<or> page_count = 0 then (S', Inr counts)
             else case next_cursor of
               None \<Rightarrow> (S', Inr counts)
             | Some c \<Rightarrow> if c \<in> set seen then (S', Inl (RepeatedCursor c))
                 else collection_loop C H R n page (Some c) (c # seen) counts S')"

lemma collection_loop_code [code]:
  "collection_loop C H R n page cursor seen (api_requests, db_writes, fetched_items) S =
     (if n = 0 then (S, Inl ProcessEnded)
      else let page = (page + 1) mod 2 ^ 32 in
        case collection_page C H R api_requests page cursor S of
          (S', Inl e) \<Rightarrow> (S', Inl e)
        | (S', Inr (next_cursor, page_count)) \<Rightarrow>
            let counts = (api_requests + 1, db_writes + (if page_count = 0 then 0 else 1) + 1,
                  fetched_items + page_count)
            in if cn_generation R = None \<or> cn_max_pages R \<le> page \<or> page_count = 0 then (S', Inr counts)
               else case next_cursor of
                 None \<Rightarrow> (S', Inr counts)
               | Some c \<Rightarrow> if c \<in> set seen then (S', Inl (RepeatedCursor c))
                   else collection_loop C H R (n - 1) page (Some c) (c # seen) counts S')"
proof (cases n)
  case (Suc k)
  have k: "(Suc k = 0) = False" "Suc k - 1 = k" by simp_all
  show ?thesis unfolding Suc collection_loop.simps(2) k if_False ..
qed simp

definition collection_plan ::
  "rstr \<Rightarrow> rstr \<Rightarrow> startup_sync_phase \<Rightarrow> startup_sync_plan \<Rightarrow> (collection_run \<times> rstr option) option" where
  "collection_plan acct domain phase plan =
     (let R = \<lparr>cn_acct = acct, cn_domain = domain, cn_phase = phase, cn_generation = None,
               cn_since_id = None, cn_max_pages = usize_max\<rparr>
      in case plan of
           FullReconcile g cursor \<Rightarrow> Some (R\<lparr>cn_generation := Some g\<rparr>, cursor)
         | Incremental since max_pages \<Rightarrow> Some (R\<lparr>cn_since_id := since, cn_max_pages := max max_pages 1\<rparr>, None)
         | SkipPhase \<Rightarrow> None)"

definition run_collection_phase ::
  "codec \<Rightarrow> launch_host \<Rightarrow> rstr \<Rightarrow> rstr \<Rightarrow> startup_sync_phase \<Rightarrow> startup_sync_plan \<Rightarrow> sync_store \<Rightarrow>
   sync_store \<times> (phase_error + phase_metrics)" where
  "run_collection_phase C H acct domain phase plan S =
     (case collection_plan acct domain phase plan of
        None \<Rightarrow> (S, Inr skipped_metrics)
      | Some (R, cursor) \<Rightarrow>
          (case collection_loop C H R (lh_pages H) 0 cursor (case cursor of None \<Rightarrow> [] | Some c \<Rightarrow> [c]) (0, 0, 0) S of
             (S1, Inl e) \<Rightarrow> (S1, Inl e)
           | (S1, Inr (api_requests, db_writes, fetched_items)) \<Rightarrow>
               (case complete_phase_at acct phase (cd_to_rfc3339 C (lh_done_at H)) (lh_complete_failure H) S1 of
                  (S2, Inl e) \<Rightarrow> (S2, Inl (WriteFailed e))
                | (S2, Inr _) \<Rightarrow> (S2, Inr (metrics_of api_requests (db_writes + 1) fetched_items)))))"

section \<open>Timelines and notifications\<close>

record timeline_gap =
  tg_timeline_type :: rstr
  tg_source_acct :: rstr
  tg_boundary_status_id :: rstr
  tg_boundary_server_domain :: rstr
  tg_boundary_position :: rstr
  tg_next_max_status_id :: rstr

fun oldest_status :: "api_status list \<Rightarrow> api_status option" where
  "oldest_status [] = None"
| "oldest_status (s # ss) = Some (fold (\<lambda>r best.
     if sp_created_at (payload r) < sp_created_at (payload best) then r else best) ss s)"

definition timeline_gap_before_persisting ::
  "codec \<Rightarrow> kq_store \<Rightarrow> rstr \<Rightarrow> rstr \<Rightarrow> rstr \<Rightarrow> api_status list \<Rightarrow> timeline_gap option" where
  "timeline_gap_before_persisting C cache timeline_type acct domain statuses =
     (case oldest_status statuses of None \<Rightarrow> None | Some oldest \<Rightarrow>
        let k = (sp_id (payload oldest), domain);
            boundary_position = cd_to_rfc3339 C (sp_created_at (payload oldest));
            own = filter (\<lambda>e. te_timeline_type e = timeline_type \<and> te_account_acct e = acct) (ks_timeline_entries cache);
            boundary_exists = list_ex (\<lambda>e. entry_key e = k \<and>
              list_ex (\<lambda>s. status_key_for_status s = k \<and> st_uri s = sp_uri (payload oldest)) (ks_statuses cache)) own;
            older_exists = list_ex (\<lambda>e. te_position_at e < boundary_position) own
        in if boundary_exists \<or> \<not> older_exists then None
           else Some \<lparr>tg_timeline_type = timeline_type, tg_source_acct = acct,
             tg_boundary_status_id = sp_id (payload oldest), tg_boundary_server_domain = domain,
             tg_boundary_position = boundary_position, tg_next_max_status_id = sp_id (payload oldest)\<rparr>)"

text \<open>\<^verbatim>\<open>sync_timeline_with_control\<close> without cancellation, for \<^verbatim>\<open>home\<close> and \<^verbatim>\<open>public\<close>; the timelines of Bluesky
  feeds have no gaps and are not synchronised at the start.\<close>

definition sync_timeline ::
  "codec \<Rightarrow> launch_host \<Rightarrow> rstr \<Rightarrow> rstr \<Rightarrow> startup_sync_phase \<Rightarrow> rstr option \<Rightarrow> sync_store \<Rightarrow>
   sync_store \<times> (phase_error + api_status list \<times> timeline_gap option)" where
  "sync_timeline C H acct domain phase since_id S =
     (case lh_fetch H 0 None since_id of
        Inl e \<Rightarrow> (S, Inl (ApiFailed e))
      | Inr (statuses, _) \<Rightarrow>
          (case (if since_id = None then lh_gap_failure H else None) of
             Some e \<Rightarrow> (S, Inl (WriteFailed e))
           | None \<Rightarrow>
               let gap = (if since_id = None then timeline_gap_before_persisting C (ws_cache (sy_store S))
                     (phase_as_str phase) acct domain statuses else None);
                   (S1, saved) = save_page C (lh_save H 0) domain statuses (page_context acct phase) S
               in (S1, case saved of Inl e \<Rightarrow> Inl e | Inr _ \<Rightarrow> Inr (statuses, gap))))"

text \<open>The end of a phase of one page.\<close>

definition finish_single_page ::
  "codec \<Rightarrow> launch_host \<Rightarrow> rstr \<Rightarrow> startup_sync_phase \<Rightarrow> rstr option \<Rightarrow> nat \<Rightarrow> nat \<Rightarrow> sync_store \<Rightarrow>
   sync_store \<times> (phase_error + phase_metrics)" where
  "finish_single_page C H acct phase high_water_id db_writes fetched_items S =
     (case commit_page_checkpoint acct phase
        \<lparr>pc_high_water_id = high_water_id, pc_next_cursor = None, pc_reconciliation_generation = None,
         pc_members = [], pc_api_requests = 1, pc_db_writes = db_writes, pc_duration_ms = 0\<rparr>
        (lh_commit_failure H 0) S of
        (S1, Inl e) \<Rightarrow> (S1, Inl (WriteFailed e))
      | (S1, Inr _) \<Rightarrow>
          (case complete_phase_at acct phase (cd_to_rfc3339 C (lh_done_at H)) (lh_complete_failure H) S1 of
             (S2, Inl e) \<Rightarrow> (S2, Inl (WriteFailed e))
           | (S2, Inr _) \<Rightarrow> (S2, Inr (metrics_of 1 (db_writes + 1) fetched_items))))"

definition run_timeline_phase ::
  "codec \<Rightarrow> launch_host \<Rightarrow> rstr \<Rightarrow> rstr \<Rightarrow> startup_sync_phase \<Rightarrow> startup_sync_plan \<Rightarrow> sync_store \<Rightarrow>
   sync_store \<times> (phase_error + phase_metrics)" where
  "run_timeline_phase C H acct domain phase plan S =
     (case plan of
        Incremental since_id _ \<Rightarrow>
          (case sync_timeline C H acct domain phase since_id S of
             (S1, Inl e) \<Rightarrow> (S1, Inl e)
           | (S1, Inr (statuses, _)) \<Rightarrow>
               finish_single_page C H acct phase
                 (case statuses of [] \<Rightarrow> None | s # _ \<Rightarrow> Some (sp_id (payload s))) 2 (length statuses) S1)
      | _ \<Rightarrow> (S, Inl UnexpectedPlan))"

text \<open>A notification's type is its text (\<^verbatim>\<open>NotificationType::as_str\<close>).\<close>

record api_notification =
  an_id :: rstr
  an_notification_type :: rstr
  an_created_at :: datetime
  an_account :: api_account
  an_status :: "api_status option"

record notification_host =
  nh_fetch :: "rstr option \<Rightarrow> rstr + api_notification list"
  nh_now :: rstr
  nh_failure :: "sql_failure option"
  nh_streaming_url :: rstr

definition notification_key :: "db_notification \<Rightarrow> rstr \<times> rstr \<times> rstr" where
  "notification_key n = (nt_id n, nt_server_domain n, nt_account_acct n)"

definition notification_conflict :: "db_notification \<Rightarrow> db_notification \<Rightarrow> db_notification" where
  "notification_conflict old new = new\<lparr>nt_read_at := nt_read_at old\<rparr>"

interpretation notifications_table: keyed_table notification_key notification_conflict
  by unfold_locales (simp_all add: notification_conflict_def notification_key_def)

definition insert_notification ::
  "codec \<Rightarrow> rstr \<Rightarrow> rstr \<Rightarrow> rstr \<Rightarrow> api_notification \<Rightarrow> sync_store \<times> rstr list \<Rightarrow> sql_failure + sync_store \<times> rstr list" where
  "insert_notification C now acct domain n = (\<lambda>(S, actors).
     let actor = aa_id (an_account n);
         W = (if actor \<in> set actors then sy_store S
              else upsert_account_on (account_from_api C now (an_account n) domain) (sy_store S));
         row = \<lparr>nt_id = an_id n, nt_server_domain = domain, nt_account_acct = acct,
                nt_notification_type = an_notification_type n, nt_created_at = cd_to_rfc3339 C (an_created_at n),
                nt_account_id = actor, nt_status_id = map_option (\<lambda>s. sp_id (payload s)) (an_status n),
                nt_read_at = None, nt_fetched_at = now\<rparr>
     in if logged_in W acct \<and> (actor, domain) \<in> account_key ` set (ks_accounts (ws_cache W)) \<and>
           (case an_status n of None \<Rightarrow> True
            | Some s \<Rightarrow> (sp_id (payload s), domain) \<in> status_key_for_status ` set (ks_statuses (ws_cache W)))
        then Inr (S\<lparr>sy_store := W,
               sy_notifications := upsert notification_key notification_conflict row (sy_notifications S)\<rparr>,
             if actor \<in> set actors then actors else actor # actors)
        else Inl foreign_key_failed)"

definition save_notification_batch ::
  "codec \<Rightarrow> launch_host \<Rightarrow> notification_host \<Rightarrow> rstr \<Rightarrow> rstr \<Rightarrow> api_notification list \<Rightarrow> sync_store \<Rightarrow>
   sync_store \<times> (phase_error + nat)" where
  "save_notification_batch C H N acct domain notifications S =
     (let status_items = map (\<lambda>s. \<lparr>bi_status = s, bi_timeline = None, bi_viewer_acct = Some acct\<rparr>)
            (List.map_filter an_status notifications);
          (W, saved, _) = (if status_items = [] then (sy_store S, Inr (), [])
            else save_status_items_with_retry C (lh_save H 0) domain status_items (sy_store S));
          S1 = S\<lparr>sy_store := W\<rparr>
      in case saved of Inl e \<Rightarrow> (S1, Inl (WriteFailed e)) | Inr _ \<Rightarrow>
           (case try_fold (insert_notification C (nh_now N) acct domain) notifications
                   (S1\<lparr>sy_store := upsert_server_on domain (nh_streaming_url N) W\<rparr>, []) of
              Inl e \<Rightarrow> (S1, Inl (WriteFailed e))
            | Inr (S2, _) \<Rightarrow>
                (case nh_failure N of Some e \<Rightarrow> (S1, Inl (WriteFailed e))
                 | None \<Rightarrow> (S2, Inr ((if status_items = [] then 0 else 1) + 1)))))"

definition run_notification_phase ::
  "codec \<Rightarrow> launch_host \<Rightarrow> notification_host \<Rightarrow> rstr \<Rightarrow> rstr \<Rightarrow> startup_sync_plan \<Rightarrow> sync_store \<Rightarrow>
   sync_store \<times> (phase_error + phase_metrics)" where
  "run_notification_phase C H N acct domain plan S =
     (case plan of
        Incremental since_id _ \<Rightarrow>
          (case nh_fetch N since_id of Inl e \<Rightarrow> (S, Inl (ApiFailed e)) | Inr notifications \<Rightarrow>
             (case save_notification_batch C H N acct domain notifications S of
                (S1, Inl e) \<Rightarrow> (S1, Inl e)
              | (S1, Inr writes) \<Rightarrow>
                  finish_single_page C H acct Notifications
                    (case notifications of [] \<Rightarrow> None | n # _ \<Rightarrow> Some (an_id n)) (writes + 1)
                    (length notifications) S1))
      | _ \<Rightarrow> (S, Inl UnexpectedPlan))"

section \<open>A launch\<close>

definition run_phase ::
  "codec \<Rightarrow> (rstr \<Rightarrow> datetime option) \<Rightarrow> launch_host \<Rightarrow> notification_host \<Rightarrow> rstr \<Rightarrow> rstr \<Rightarrow> startup_sync_phase \<Rightarrow> sync_store \<Rightarrow>
   sync_store \<times> (phase_error + phase_metrics)" where
  "run_phase C from_rfc3339 H N acct domain phase S =
     (case prepare_phase_at from_rfc3339 acct phase default_policy (lh_now H) (lh_generation H) (lh_prepare_failure H) S of
        (S1, Inl e) \<Rightarrow> (S1, Inl (WriteFailed e))
      | (S1, Inr plan) \<Rightarrow>
          if plan = SkipPhase then (S1, Inr skipped_metrics)
          else if phase = Home \<or> phase = Public then run_timeline_phase C H acct domain phase plan S1
          else if phase = Notifications then run_notification_phase C H N acct domain plan S1
          else run_collection_phase C H acct domain phase plan S1)"

text \<open>A phase and what is recorded of it; nothing when the process ended.\<close>

definition launch_phase ::
  "codec \<Rightarrow> (rstr \<Rightarrow> datetime option) \<Rightarrow> launch_host \<Rightarrow> notification_host \<Rightarrow> rstr \<Rightarrow> rstr \<Rightarrow> startup_sync_phase \<Rightarrow> sync_store \<Rightarrow>
   sync_store \<times> phase_metrics" where
  "launch_phase C from_rfc3339 H N acct domain phase S =
     (case run_phase C from_rfc3339 H N acct domain phase S of
        (S1, Inr metrics) \<Rightarrow>
          (record_phase_duration acct phase (lh_duration_ms H) S1,
           metrics\<lparr>pm_duration_ms := lh_duration_ms H, pm_db_writes := pm_db_writes metrics + 1\<rparr>)
      | (S1, Inl e) \<Rightarrow>
          (if e = ProcessEnded \<or> lh_killed H then S1
           else record_phase_duration acct phase (lh_duration_ms H)
             (fst (fail_phase acct phase (lh_error_text H e) S1)),
           (metrics_of 0 0 0)\<lparr>pm_duration_ms := lh_duration_ms H, pm_error := Some e\<rparr>))"

record account_metrics =
  am_phases :: "(startup_sync_phase \<times> phase_metrics) list"
  am_api_requests :: nat
  am_db_writes :: nat
  am_fetched_items :: nat
  am_failed_phases :: nat

fun launch_phases ::
  "codec \<Rightarrow> (rstr \<Rightarrow> datetime option) \<Rightarrow> (startup_sync_phase \<Rightarrow> launch_host) \<Rightarrow> notification_host \<Rightarrow> rstr \<Rightarrow> rstr \<Rightarrow>
   (startup_sync_phase \<Rightarrow> bool) \<Rightarrow> startup_sync_phase list \<Rightarrow> sync_store \<Rightarrow>
   sync_store \<times> (startup_sync_phase \<times> phase_metrics) list" where
  "launch_phases C from_rfc3339 hosts N acct domain supported [] S = (S, [])"
| "launch_phases C from_rfc3339 hosts N acct domain supported (phase # phases) S =
     (let (S1, metrics) = (if supported phase then launch_phase C from_rfc3339 (hosts phase) N acct domain phase S
            else (S, skipped_metrics));
          (S2, rest) = launch_phases C from_rfc3339 hosts N acct domain supported phases S1
      in (S2, (phase, metrics) # rest))"

definition run_startup_account ::
  "codec \<Rightarrow> (rstr \<Rightarrow> datetime option) \<Rightarrow> (startup_sync_phase \<Rightarrow> launch_host) \<Rightarrow> notification_host \<Rightarrow> rstr \<Rightarrow> rstr \<Rightarrow>
   (startup_sync_phase \<Rightarrow> bool) \<Rightarrow> sync_store \<Rightarrow> sync_store \<times> account_metrics" where
  "run_startup_account C from_rfc3339 hosts N acct domain supported S =
     (let (S', phases) = launch_phases C from_rfc3339 hosts N acct domain supported all_phases S
      in (S', \<lparr>am_phases = phases,
               am_api_requests = sum_list (map (\<lambda>p. pm_api_requests (snd p)) phases),
               am_db_writes = sum_list (map (\<lambda>p. pm_db_writes (snd p)) phases),
               am_fetched_items = sum_list (map (\<lambda>p. pm_fetched_items (snd p)) phases),
               am_failed_phases = length (filter (\<lambda>p. pm_error (snd p) \<noteq> None) phases)\<rparr>))"

end
