(* ===== verification/StartupProgress.thy ===== *)
theory StartupProgress
imports StartupRun
begin

text \<open>
  How far a reconciliation has come, and that every run of a phase, whatever fails in it, keeps track of
  it: what the committed pages list is a member and has its entry and, unless a page to come mentions
  it again, the flag that it ends with, and the stored cursor is where the remaining pages begin.
\<close>

section \<open>What a page shows\<close>

definition payload_flag :: "startup_sync_phase \<Rightarrow> api_status \<Rightarrow> bool option" where
  "payload_flag phase s =
     (case phase of Bookmarks \<Rightarrow> sp_bookmarked (payload s) | Favourites \<Rightarrow> sp_favourited (payload s) | _ \<Rightarrow> None)"

text \<open>A collection that an account reconciles: the account, its server and the phase.\<close>

type_synonym collection = "rstr \<times> rstr \<times> startup_sync_phase"

definition flag_on :: "collection \<Rightarrow> rstr \<Rightarrow> write_store \<Rightarrow> bool" where
  "flag_on = (\<lambda>(acct, domain, phase) i W.
     \<exists>v. row_of state_row_key (acct, i, domain) (ks_viewer_states (ws_cache W)) = Some v \<and>
         phase_flag phase v = Some True)"

definition entry_on :: "collection \<Rightarrow> rstr \<Rightarrow> write_store \<Rightarrow> bool" where
  "entry_on = (\<lambda>(acct, domain, phase) i W.
     (phase_as_str phase, (i, domain), acct) \<in> entry_row_key ` set (ks_timeline_entries (ws_cache W)))"

definition listed_id :: "startup_sync_phase \<Rightarrow> api_status \<Rightarrow> rstr" where
  "listed_id phase s = sp_id (payload (collection_status phase s))"

lemma collection_status_flag:
  "phase \<in> {Bookmarks, Favourites} \<Longrightarrow> payload_flag phase (collection_status phase s) = Some True"
  by (auto simp: payload_flag_def collection_status_def with_bookmarked_def with_favourited_def)

definition rows_of :: "api_status list \<Rightarrow> api_status list" where
  "rows_of page = concat (map (\<lambda>s. related s @ [s]) page)"

lemma batch_page:
  "map fst (batch_rows (batch_items (Some b) page)) = rows_of page"
  "concat (map (row_states C now domain) (batch_rows (batch_items (Some b) page))) =
   map (\<lambda>r. viewer_state_of (bt_account_acct b) (status_from_api C now r domain)) (rows_of page)"
  "batch_entries C domain (batch_items (Some b) page) = map (entry_of C domain b) page"
  by (induction page)
    (simp_all add: batch_items_def rows_of_def batch_rows_def batch_entries_def item_rows_def item_entries_def
      row_states_def o_def concat_map_singleton)

lemma leave_replaced: "states_table.leave old ws = (if ws = [] then old else Some (last ws))"
proof (cases old)
  case None
  show ?thesis by (cases ws) (auto simp: None states_table.leave_None replaced_def)
qed (simp add: states_table.leave_Some replaced_def)

lemma viewer_state_flag: "phase_flag phase (viewer_state_of acct (status_from_api C now r domain)) = payload_flag phase r"
  by (cases phase) (simp_all add: phase_flag_def payload_flag_def viewer_state_of_def status_from_api_def Let_def)

lemma viewer_state_row_key:
  "state_row_key (viewer_state_of acct (status_from_api C now r domain)) = (acct, sp_id (payload r), domain)"
  by (simp add: state_row_key_def state_key_def viewer_state_of_def status_from_api_def Let_def)

text \<open>
  A page mentions the posts that it lists and the posts that these carry, in the order in which they are
  saved. The last mention decides on the flag, and a post that another one carries need not have it.
\<close>

definition mentions :: "rstr \<Rightarrow> api_status list \<Rightarrow> api_status list" where
  "mentions i page = filter (\<lambda>r. sp_id (payload r) = i) (rows_of page)"

definition mentioned :: "startup_sync_phase \<Rightarrow> api_status list \<Rightarrow> rstr set" where
  "mentioned phase data = (\<lambda>r. sp_id (payload r)) ` set (rows_of (map (collection_status phase) data))"

definition ends_flagged :: "startup_sync_phase \<Rightarrow> api_status list \<Rightarrow> rstr set" where
  "ends_flagged phase data = {i \<in> mentioned phase data.
     payload_flag phase (last (mentions i (map (collection_status phase) data))) = Some True}"

lemma rows_of_append [simp]: "rows_of (page @ page') = rows_of page @ rows_of page'"
  by (simp add: rows_of_def)

lemma mentioned_simps [simp]:
  "mentioned phase [] = {}" "mentioned phase (data @ data') = mentioned phase data \<union> mentioned phase data'"
  by (auto simp: mentioned_def rows_of_def)

lemma mentions_none: "mentions i (map (collection_status phase) data) = [] \<longleftrightarrow> i \<notin> mentioned phase data"
  by (auto simp: mentions_def mentioned_def filter_empty_conv)

lemma listed_mentioned: "listed_id phase ` set data \<subseteq> mentioned phase data"
  by (force simp: listed_id_def mentioned_def rows_of_def)

lemma ends_flagged_earlier:
  assumes "i \<notin> mentioned phase data'"
  shows "i \<in> ends_flagged phase (data @ data') \<longleftrightarrow> i \<in> ends_flagged phase data"
  using assms mentions_none[of i phase data'] by (simp add: ends_flagged_def mentions_def)

lemma ends_flagged_later:
  assumes "i \<in> mentioned phase data'"
  shows "i \<in> ends_flagged phase (data @ data') \<longleftrightarrow> i \<in> ends_flagged phase data'"
  using assms mentions_none[of i phase data'] by (simp add: ends_flagged_def mentions_def)

lemma ends_flagged_mentioned: "i \<in> ends_flagged phase data \<Longrightarrow> i \<in> mentioned phase data"
  by (simp add: ends_flagged_def)

text \<open>Where no listed post carries another listed post without its flag, all of them end with it.\<close>

definition honest :: "startup_sync_phase \<Rightarrow> api_status list \<Rightarrow> bool" where
  "honest phase data \<longleftrightarrow>
     (\<forall>s \<in> set data. \<forall>r \<in> set (related (collection_status phase s)).
        sp_id (payload r) \<in> listed_id phase ` set data \<longrightarrow> payload_flag phase r = Some True)"

lemma honest_flagged:
  assumes "phase \<in> {Bookmarks, Favourites}" "honest phase data"
  shows "listed_id phase ` set data \<subseteq> ends_flagged phase data"
proof
  fix i assume i: "i \<in> listed_id phase ` set data"
  then have some: "i \<in> mentioned phase data" using listed_mentioned by blast
  define r where "r = last (mentions i (map (collection_status phase) data))"
  have "r \<in> set (mentions i (map (collection_status phase) data))"
    using some mentions_none[of i phase data] unfolding r_def by (intro last_in_set) blast
  then have "r \<in> set (rows_of (map (collection_status phase) data))" "sp_id (payload r) = i"
    by (simp_all add: mentions_def)
  then have "payload_flag phase r = Some True"
    using assms i collection_status_flag[OF assms(1)] by (auto simp: rows_of_def honest_def)
  then show "i \<in> ends_flagged phase data" using some by (simp add: ends_flagged_def r_def)
qed

text \<open>Writing a page gives a post the flag of its last mention there, and an entry to what it lists.\<close>

lemma written_flag:
  "flag_on (acct, domain, phase) i (written C now domain [] (batch_items (Some (page_context acct phase)) page) W) \<longleftrightarrow>
   (if mentions i page = [] then flag_on (acct, domain, phase) i W
    else payload_flag phase (last (mentions i page)) = Some True)"
proof -
  let ?b = "page_context acct phase"
  let ?W = "written C now domain [] (batch_items (Some ?b) page) W"
  let ?v = "\<lambda>r. viewer_state_of acct (status_from_api C now r domain)"
  have b: "bt_account_acct ?b = acct" by (simp add: page_context_def)
  have states: "ks_viewer_states (ws_cache ?W) = upserts state_row_key replaced (map ?v (rows_of page)) (ks_viewer_states (ws_cache W))"
    unfolding written_def put_fields batch_page b ..
  have rows: "filter (\<lambda>w. state_row_key w = (acct, i, domain)) (map ?v (rows_of page)) = map ?v (mentions i page)"
    by (simp add: mentions_def filter_map o_def viewer_state_row_key)
  have "row_of state_row_key (acct, i, domain) (ks_viewer_states (ws_cache ?W)) =
      (if mentions i page = [] then row_of state_row_key (acct, i, domain) (ks_viewer_states (ws_cache W))
       else Some (?v (last (mentions i page))))"
    unfolding states states_table.row_of_upserts leave_replaced rows by (simp add: last_map)
  then show ?thesis by (simp add: flag_on_def viewer_state_flag)
qed

lemma written_entry:
  "entry_on (acct, domain, phase) i (written C now domain [] (batch_items (Some (page_context acct phase)) page) W) \<longleftrightarrow>
   entry_on (acct, domain, phase) i W \<or> i \<in> (\<lambda>s. sp_id (payload s)) ` set page"
proof -
  let ?b = "page_context acct phase"
  have "entry_row_key (entry_of C domain ?b s) = (phase_as_str phase, (sp_id (payload s), domain), acct)" for s
    by (simp add: entry_row_key_def entry_key_def entry_of_def page_context_def)
  then have "entry_row_key ` set (ks_timeline_entries (ws_cache (written C now domain [] (batch_items (Some ?b) page) W))) =
      (\<lambda>s. (phase_as_str phase, (sp_id (payload s), domain), acct)) ` set page \<union>
      entry_row_key ` set (ks_timeline_entries (ws_cache W))"
    unfolding written_def put_fields batch_page entries_table.key_set_upserts by (simp add: image_image)
  then show ?thesis by (auto simp: entry_on_def)
qed

lemma shown_server [simp]:
  "flag_on c i (server_known domain W) = flag_on c i W" "entry_on c i (server_known domain W) = entry_on c i W"
  by (simp_all add: flag_on_def entry_on_def split_def)

text \<open>
  What the cache shows of the posts \<open>past\<close> while the posts \<open>rest\<close> are still to come: their entries, and
  the flag that a post ends with when no page to come mentions it.
\<close>

definition ids_of :: "startup_sync_phase \<Rightarrow> api_status list list \<Rightarrow> rstr set" where
  "ids_of phase pages = listed_id phase ` set (concat pages)"

lemma ids_of_simps [simp]:
  "ids_of phase [] = {}" "ids_of phase (data # pages) = listed_id phase ` set data \<union> ids_of phase pages"
  "ids_of phase (pages @ pages') = ids_of phase pages \<union> ids_of phase pages'"
  by (auto simp: ids_of_def)

definition usable_by :: "rstr \<Rightarrow> write_store \<Rightarrow> bool" where
  "usable_by acct W \<longleftrightarrow> store_intact W \<and> logged_in W acct"

definition shown :: "collection \<Rightarrow> api_status list list \<Rightarrow> api_status list list \<Rightarrow> write_store \<Rightarrow> bool" where
  "shown = (\<lambda>(acct, domain, phase) past rest W. \<forall>i \<in> ids_of phase past.
     entry_on (acct, domain, phase) i W \<and>
     (i \<notin> mentioned phase (concat rest) \<longrightarrow>
       (flag_on (acct, domain, phase) i W \<longleftrightarrow> i \<in> ends_flagged phase (concat past))))"

definition keeps_shown :: "collection \<Rightarrow> api_status list list \<Rightarrow> api_status list list \<Rightarrow> write_store \<Rightarrow> bool" where
  "keeps_shown = (\<lambda>(acct, domain, phase) past rest W. usable_by acct W \<and> shown (acct, domain, phase) past rest W)"

lemma written_usable:
  "logged_in (written C now domain tags items W) = logged_in W" "logged_in (server_known domain W) = logged_in W"
  by (simp_all add: written_def logged_in_def fun_eq_iff)

text \<open>The page that is being saved belongs to the rest until it is committed.\<close>

lemma part_keeps_shown:
  assumes "shown (acct, domain, phase) past (data # rest) W" and "set (rows_of page) \<subseteq> set (rows_of (map (collection_status phase) data))"
  shows "shown (acct, domain, phase) past (data # rest)
    (written C now domain [] (batch_items (Some (page_context acct phase)) page) (server_known domain W))"
proof -
  have "mentions i page = []" if "i \<notin> mentioned phase (concat (data # rest))" for i
    using that assms(2) by (fastforce simp: mentions_def mentioned_def filter_empty_conv)
  then show ?thesis using assms(1) by (simp add: shown_def written_entry written_flag)
qed

lemma page_adds_shown:
  assumes "shown (acct, domain, phase) past (data # rest) W"
  shows "shown (acct, domain, phase) (past @ [data]) rest
    (written C now domain [] (batch_items (Some (page_context acct phase)) (map (collection_status phase) data)) (server_known domain W))"
    (is "shown _ _ _ ?W")
  unfolding shown_def split
proof (intro ballI conjI impI)
  fix i assume i: "i \<in> ids_of phase (past @ [data])"
  show "entry_on (acct, domain, phase) i ?W"
    using i assms by (auto simp: written_entry shown_def listed_id_def image_image)
  assume rest: "i \<notin> mentioned phase (concat rest)"
  show "flag_on (acct, domain, phase) i ?W \<longleftrightarrow> i \<in> ends_flagged phase (concat (past @ [data]))"
  proof (cases "i \<in> mentioned phase data")
    case True
    then have "mentions i (map (collection_status phase) data) \<noteq> []" by (simp add: mentions_none)
    then show ?thesis using True ends_flagged_later[OF True] by (simp add: written_flag) (simp add: ends_flagged_def)
  next
    case False
    then have "i \<in> ids_of phase past" using i listed_mentioned by auto
    moreover have "mentions i (map (collection_status phase) data) = []" using False by (simp add: mentions_none)
    ultimately show ?thesis
      using False rest assms ends_flagged_earlier[OF False] by (simp add: written_flag shown_def)
  qed
qed

lemma empty_page_adds_shown:
  assumes "shown (acct, domain, phase) past ([] # rest) W"
  shows "shown (acct, domain, phase) (past @ [[]]) rest W"
  using assms by (simp add: shown_def)

text \<open>A save keeps what is shown, whatever fails in it.\<close>

lemma batch_items_take: "take m (batch_items b page) = batch_items b (take m page)"
  by (simp add: batch_items_def take_map)

lemma rows_of_take: "set (rows_of (take m page)) \<subseteq> set (rows_of page)"
  by (auto simp: rows_of_def dest: in_set_takeD)

lemma save_keeps_shown:
  assumes "keeps_shown (acct, domain, phase) past (data # rest) W"
  shows "keeps_shown (acct, domain, phase) past (data # rest)
    (fst (save_status_items C H domain (batch_items (Some (page_context acct phase)) (map (collection_status phase) data)) W))"
proof -
  let ?page = "map (collection_status phase) data"
  let ?items = "batch_items (Some (page_context acct phase)) ?page"
  have W: "store_intact W" using assms by (simp add: keeps_shown_def usable_by_def)
  obtain m where m: "fst (save_status_items C H domain ?items W) =
      (if m = 0 then W else written C (ah_now H) domain [] (take m ?items) (server_known domain W))"
    using save_transactions_effect[OF accounts_known_Nil store_intact_owned[OF W],
      where domain = domain and items = ?items and C = C and H = H and i = 0 and tags = "[]"]
    unfolding save_status_items_def by blast
  have "shown (acct, domain, phase) past (data # rest)
      (written C (ah_now H) domain [] (take m ?items) (server_known domain W))"
    unfolding batch_items_take using assms rows_of_take
    by (intro part_keeps_shown) (simp_all add: keeps_shown_def)
  then show ?thesis
    using assms store_intact_save[OF W, of C H domain ?items] unfolding m keeps_shown_def usable_by_def split
    by (auto simp: written_usable)
qed

lemma batch_with_retry_items:
  "save_status_batch_with_retry C hosts domain page b W = save_status_items_with_retry C hosts domain (batch_items b page) W"
  unfolding save_status_batch_with_retry_def save_status_items_with_retry_def save_status_batch_def[abs_def] ..

lemma batch_keeps_shown:
  assumes "keeps_shown (acct, domain, phase) past (data # rest) W"
  shows "keeps_shown (acct, domain, phase) past (data # rest)
    (fst (save_status_batch_with_retry C hosts domain (map (collection_status phase) data) (Some (page_context acct phase)) W))"
  unfolding batch_with_retry_items save_status_items_with_retry_def
  by (rule retry_db_write_keeps[where P = "keeps_shown (acct, domain, phase) past (data # rest)"])
    (intro save_keeps_shown, assumption, rule assms)

lemma batch_saved:
  assumes "store_intact W"
    and "save_status_batch_with_retry C hosts domain page b W = (W', Inr (), delays)"
  shows "\<exists>now. W' = (if page = [] then W else written C now domain [] (batch_items b page) (server_known domain W))"
proof -
  let ?items = "batch_items b page"
  have start: "touched C domain ?items W W" using assms(1) by (simp add: touched_def)
  obtain V where V: "touched C domain ?items W V"
    "save_status_items C (hosts (1 + length delays)) domain ?items V = (W', Inr ())"
    using retry_db_write_success(1)[where P = "touched C domain ?items W", OF touched_save start
        assms(2)[unfolded batch_with_retry_items save_status_items_with_retry_def]] by blast
  from save_success[OF this] show ?thesis by (auto simp: batch_items_def)
qed

end
