(* ===== verification/StartupResume.thy ===== *)
theory StartupResume
imports StartupProgress
begin

text \<open>
  The invariant of a reconciliation and its proof, phase by phase: preparation, page, loop, completion,
  launch, and any number of launches.
\<close>

section \<open>Pages of a provider\<close>

type_synonym provider = "rstr option \<Rightarrow> api_status list \<times> rstr option"

text \<open>The pages from a cursor to the end. Only the last one may be empty.\<close>

inductive listing :: "provider \<Rightarrow> rstr option \<Rightarrow> api_status list list \<Rightarrow> bool" for P where
  last_page: "P cursor = (data, nxt) \<Longrightarrow> usable_cursor nxt = None \<Longrightarrow> listing P cursor [data]"
| more_pages: "P cursor = (data, nxt) \<Longrightarrow> usable_cursor nxt = Some c \<Longrightarrow> data \<noteq> [] \<Longrightarrow>
    listing P (Some c) pages \<Longrightarrow> listing P cursor (data # pages)"

inductive_cases listingE: "listing P cursor pages"

lemma listing_unique: "listing P cursor pages \<Longrightarrow> listing P cursor pages' \<Longrightarrow> pages = pages'"
proof (induction arbitrary: pages' rule: listing.induct)
  case (last_page cursor data nxt)
  show ?case
    using last_page.prems
  proof (cases rule: listing.cases)
    case (last_page data' nxt')
    then show ?thesis using last_page.hyps by simp
  next
    case (more_pages data' nxt' c' ps)
    then show ?thesis using last_page.hyps by simp
  qed
next
  case (more_pages cursor data nxt c pages)
  show ?case
    using more_pages.prems
  proof (cases rule: listing.cases)
    case (last_page data' nxt')
    then show ?thesis using more_pages.hyps by simp
  next
    case (more_pages data' nxt' c' ps)
    then have "data' = data" "c' = c" using more_pages.hyps by simp_all
    then show ?thesis using more_pages.IH[of ps] more_pages by simp
  qed
qed

definition answers_as :: "provider \<Rightarrow> launch_host \<Rightarrow> bool" where
  "answers_as P H \<longleftrightarrow> (\<forall>n cursor. lh_fetch H n cursor None = Inr (P cursor) \<or> (\<exists>e. lh_fetch H n cursor None = Inl e))"

section \<open>The rows of a phase\<close>

lemma row_of_map_keyed:
  assumes "\<And>r. key (f r) = key r"
  shows "row_of key k (map (\<lambda>r. if key r = k then f r else r) rows) = map_option f (row_of key k rows)"
  using assms by (induction rows) auto

lemma update_phase_state_cases:
  assumes "update_phase_state acct phase f S = Some S'" "\<And>st. state_key_of (f st) = state_key_of st"
  shows "load_phase_state acct phase S' = map_option f (load_phase_state acct phase S)"
    and "load_phase_state acct phase S \<noteq> None" and "sy_store S' = sy_store S" and "sy_members S' = sy_members S"
  using assms(1) row_of_map_keyed[where key = state_key_of and f = f, OF assms(2)]
  by (auto simp: update_phase_state_def load_phase_state_def split: if_splits)

lemma update_phase_state_row:
  assumes "load_phase_state acct phase S \<noteq> None"
  shows "\<exists>S'. update_phase_state acct phase f S = Some S'"
  using assms by (simp add: update_phase_state_def)

lemma load_phase_state_fields [simp]:
  "load_phase_state acct phase (S\<lparr>sy_store := W\<rparr>) = load_phase_state acct phase S"
  "load_phase_state acct phase (S\<lparr>sy_members := ms\<rparr>) = load_phase_state acct phase S"
  by (simp_all add: load_phase_state_def)

lemma ss_key_simps [simp]:
  "state_key_of (st\<lparr>ss_high_water_id := a\<rparr>) = state_key_of st"
  "state_key_of (st\<lparr>ss_resume_cursor := a\<rparr>) = state_key_of st"
  "state_key_of (st\<lparr>ss_last_success_at := a\<rparr>) = state_key_of st"
  "state_key_of (st\<lparr>ss_last_full_reconcile_at := a\<rparr>) = state_key_of st"
  "state_key_of (st\<lparr>ss_reconciliation_generation := a\<rparr>) = state_key_of st"
  "state_key_of (st\<lparr>ss_api_requests := b\<rparr>) = state_key_of st"
  "state_key_of (st\<lparr>ss_db_writes := b\<rparr>) = state_key_of st"
  "state_key_of (st\<lparr>ss_last_duration_ms := b\<rparr>) = state_key_of st"
  "state_key_of (st\<lparr>ss_last_error := a\<rparr>) = state_key_of st"
  by (simp_all add: state_key_of_def)

section \<open>Progress\<close>

definition staged :: "rstr \<Rightarrow> startup_sync_phase \<Rightarrow> rstr \<Rightarrow> sync_store \<Rightarrow> entity_key set" where
  "staged acct phase g S = {k. ((acct, phase_as_str phase, g), k) \<in> set (sy_members S)}"

text \<open>
  The first pages \<open>past\<close> are members of generation \<open>g\<close> and shown; what is a member is listed somewhere.
\<close>

definition has_done :: "collection \<Rightarrow> api_status list list \<Rightarrow> rstr \<Rightarrow> api_status list list \<Rightarrow> sync_store \<Rightarrow> bool" where
  "has_done = (\<lambda>(acct, domain, phase) pages g past S.
     keeps_shown (acct, domain, phase) past (drop (length past) pages) (sy_store S) \<and>
     staged acct phase g S \<subseteq> (\<lambda>i. (i, domain)) ` ids_of phase pages \<and>
     (\<lambda>i. (i, domain)) ` ids_of phase past \<subseteq> staged acct phase g S)"

definition at_cursor :: "collection \<Rightarrow> rstr \<Rightarrow> rstr option \<Rightarrow> sync_store \<Rightarrow> bool" where
  "at_cursor = (\<lambda>(acct, domain, phase) g cursor S.
     \<exists>st. load_phase_state acct phase S = Some st \<and> ss_reconciliation_generation st = Some g \<and> ss_resume_cursor st = cursor)"

definition in_progress :: "provider \<Rightarrow> collection \<Rightarrow> api_status list list \<Rightarrow> sync_store \<Rightarrow> bool" where
  "in_progress P c pages S \<longleftrightarrow>
     (\<exists>g past rest cursor. pages = past @ rest \<and> listing P cursor rest \<and> at_cursor c g cursor S \<and> has_done c pages g past S)"

definition all_done :: "collection \<Rightarrow> api_status list list \<Rightarrow> rstr \<Rightarrow> sync_store \<Rightarrow> bool" where
  "all_done c pages g S \<longleftrightarrow> at_cursor c g None S \<and> has_done c pages g pages S"

text \<open>A page: it fails and keeps the progress, or it adds the page to it.\<close>

definition collection_of :: "collection_run \<Rightarrow> collection" where
  "collection_of R = (cn_acct R, cn_domain R, cn_phase R)"

lemma commit_page_cases:
  assumes "commit_page_checkpoint acct phase c failure S = (S', r)"
  shows "case r of Inl _ \<Rightarrow> S' = S
    | Inr _ \<Rightarrow> sy_store S' = sy_store S \<and>
        set (sy_members S') = set (sy_members S) \<union> (case pc_reconciliation_generation c of None \<Rightarrow> {}
          | Some g \<Rightarrow> Pair (acct, phase_as_str phase, g) ` set (pc_members c)) \<and>
        (\<exists>st st'. load_phase_state acct phase S = Some st \<and> load_phase_state acct phase S' = Some st' \<and>
          ss_reconciliation_generation st' = ss_reconciliation_generation st \<and>
          ss_last_full_reconcile_at st' = ss_last_full_reconcile_at st \<and>
          ss_resume_cursor st' = pc_next_cursor c)"
proof -
  let ?listed = "case pc_reconciliation_generation c of None \<Rightarrow> []
      | Some g \<Rightarrow> map (\<lambda>k. ((acct, phase_as_str phase, g), k)) (pc_members c)"
  let ?S1 = "S\<lparr>sy_members := upserts (\<lambda>m. m) ignored ?listed (sy_members S)\<rparr>"
  let ?f = "\<lambda>st. st\<lparr>ss_high_water_id := (case pc_high_water_id c of None \<Rightarrow> ss_high_water_id st | Some i \<Rightarrow> Some i),
       ss_resume_cursor := pc_next_cursor c,
       ss_api_requests := ss_api_requests st + saturating_i64 (pc_api_requests c),
       ss_db_writes := ss_db_writes st + saturating_i64 (pc_db_writes c),
       ss_last_duration_ms := saturating_i64 (pc_duration_ms c), ss_last_error := None\<rparr>"
  have members: "set (upserts (\<lambda>m. m) ignored ?listed (sy_members S)) = set (sy_members S) \<union> set ?listed"
    using members_table.key_set_upserts[of ?listed "sy_members S"] by auto
  show ?thesis
  proof (cases r)
    case (Inl e)
    then show ?thesis
      using assms by (auto simp: commit_page_checkpoint_def Let_def split: option.splits if_splits)
  next
    case (Inr u)
    then have up: "update_phase_state acct phase ?f ?S1 = Some S'"
      using assms by (auto simp: commit_page_checkpoint_def Let_def split: option.splits if_splits)
    note S' = update_phase_state_cases[OF up, simplified]
    obtain st where st: "load_phase_state acct phase S = Some st" using S'(2) by auto
    have row: "load_phase_state acct phase S' = Some (?f st)" using S'(1) st by simp
    have set: "set (sy_members S') = set (sy_members S) \<union> (case pc_reconciliation_generation c of None \<Rightarrow> {}
        | Some g \<Rightarrow> Pair (acct, phase_as_str phase, g) ` set (pc_members c))"
      unfolding S'(4) using members by (cases "pc_reconciliation_generation c") simp_all
    show ?thesis
      unfolding Inr sum.case using S'(3) set st row by (intro conjI exI[of _ st] exI[of _ "?f st"]) simp_all
  qed
qed

lemma save_page_cases:
  assumes "save_page C hosts domain page b S = (S', r)"
  obtains W delays r' where "save_status_batch_with_retry C hosts domain page (Some b) (sy_store S) = (W, r', delays)"
    "S' = S\<lparr>sy_store := W\<rparr>" "r = (case r' of Inl e \<Rightarrow> Inl (WriteFailed e) | Inr _ \<Rightarrow> Inr ())"
  using assms by (cases "save_status_batch_with_retry C hosts domain page (Some b) (sy_store S)")
    (auto simp: save_page_def)

lemma collection_page_step:
  assumes c: "collection_of R = (acct, domain, phase)" and R: "cn_generation R = Some g" "cn_since_id R = None"
    and phase: "phase \<in> {Bookmarks, Favourites}"
    and P: "answers_as P H"
    and pages: "pages = past @ data # rest" "P cursor = (data, nxt)"
    and S: "at_cursor (acct, domain, phase) g cursor S" "has_done (acct, domain, phase) pages g past S"
    and run: "collection_page C H R n page cursor S = (S', r)"
  shows "case r of Inl _ \<Rightarrow> at_cursor (acct, domain, phase) g cursor S' \<and> has_done (acct, domain, phase) pages g past S'
    | Inr (next_cursor, count) \<Rightarrow> next_cursor = usable_cursor nxt \<and> count = length data \<and>
        at_cursor (acct, domain, phase) g next_cursor S' \<and> has_done (acct, domain, phase) pages g (past @ [data]) S'"
proof (cases "lh_fetch H n cursor (cn_since_id R)")
  case (Inl e)
  then show ?thesis using run S by (simp add: collection_page_def) auto
next
  case (Inr answer)
  have fields: "cn_acct R = acct" "cn_domain R = domain" "cn_phase R = phase" using c by (simp_all add: collection_of_def)
  have answer: "answer = (data, nxt)"
    using Inr P pages(2) R(2) unfolding answers_as_def by (metis sum.inject(2) sum.distinct(1))
  let ?page = "map (collection_status phase) data"
  let ?b = "page_context acct phase"
  obtain S1 r1 where save: "save_page C (lh_save H n) domain ?page ?b S = (S1, r1)"
    by (cases "save_page C (lh_save H n) domain ?page ?b S")
  obtain W delays r' where batch: "save_status_batch_with_retry C (lh_save H n) domain ?page (Some ?b) (sy_store S) = (W, r', delays)"
    and S1: "S1 = S\<lparr>sy_store := W\<rparr>" and r1: "r1 = (case r' of Inl e \<Rightarrow> Inl (WriteFailed e) | Inr _ \<Rightarrow> Inr ())"
    using save by (rule save_page_cases)
  have old: "keeps_shown (acct, domain, phase) past (data # rest) (sy_store S)"
    using S(2) by (simp add: has_done_def pages(1))
  have W: "keeps_shown (acct, domain, phase) past (data # rest) W"
    using batch_keeps_shown[OF old, where C = C and hosts = "lh_save H n"] batch by simp
  have kept: "at_cursor (acct, domain, phase) g cursor S1" "has_done (acct, domain, phase) pages g past S1"
    using S W unfolding S1 by (auto simp: at_cursor_def has_done_def staged_def pages(1))
  show ?thesis
  proof (cases r')
    case (Inl e)
    then show ?thesis
      using run kept by (auto simp: collection_page_def fields Inr answer save r1)
  next
    case saved: (Inr u)
    obtain now where now: "W = (if ?page = [] then sy_store S
        else written C now domain [] (batch_items (Some ?b) ?page) (server_known domain (sy_store S)))"
      using batch_saved[of "sy_store S" C "lh_save H n" domain ?page "Some ?b" W delays] batch saved old
      by (auto simp: keeps_shown_def usable_by_def)
    have "shown (acct, domain, phase) (past @ [data]) rest W"
      using page_adds_shown[of acct domain phase past data rest "sy_store S" C now] empty_page_adds_shown[of acct domain phase past rest] old
      unfolding now by (cases data) (simp_all add: keeps_shown_def)
    then have more: "keeps_shown (acct, domain, phase) (past @ [data]) rest W"
      using W by (simp add: keeps_shown_def)
    define ck where "ck = \<lparr>pc_high_water_id = (if page = 1 \<and> cursor = None then map_option (\<lambda>s. sp_id (payload s))
          (case data of [] \<Rightarrow> None | s # _ \<Rightarrow> Some s) else None), pc_next_cursor = usable_cursor nxt,
        pc_reconciliation_generation = Some g, pc_members = map (\<lambda>s. (sp_id (payload s), domain)) ?page,
        pc_api_requests = 1, pc_db_writes = (if ?page = [] then 0 else 1) + 1, pc_duration_ms = 0\<rparr>"
    have ck: "pc_next_cursor ck = usable_cursor nxt" "pc_reconciliation_generation ck = Some g"
        "pc_members ck = map (\<lambda>s. (sp_id (payload s), domain)) ?page"
      by (simp_all add: ck_def)
    obtain S2 r2 where commit: "commit_page_checkpoint acct phase ck (lh_commit_failure H n) S1 = (S2, r2)"
      by (cases "commit_page_checkpoint acct phase ck (lh_commit_failure H n) S1")
    have r1': "r1 = Inr ()" unfolding r1 saved by (cases u) simp
    have r: "S' = S2" "r = (case r2 of Inl e \<Rightarrow> Inl (WriteFailed e) | Inr _ \<Rightarrow> Inr (usable_cursor nxt, length data))"
      using run unfolding collection_page_def fields Inr answer R(1) sum.case prod.case save Let_def r1'
        ck_def[symmetric] commit length_map by (auto split: sum.split)
    show ?thesis
    proof (cases r2)
      case (Inl e)
      then show ?thesis using commit_page_cases[OF commit] kept r by simp
    next
      case (Inr u)
      note committed = commit_page_cases[OF commit, unfolded Inr, simplified]
      have "staged acct phase g S' = staged acct phase g S \<union> (\<lambda>i. (i, domain)) ` listed_id phase ` set data"
        using committed S1 by (auto simp: staged_def ck r(1) listed_id_def image_image)
      then have "has_done (acct, domain, phase) pages g (past @ [data]) S'"
        using S(2) more committed S1 by (auto simp: has_done_def r(1) pages(1))
      moreover have "at_cursor (acct, domain, phase) g (usable_cursor nxt) S'"
        using committed kept(1) ck(1) by (auto simp: at_cursor_def r(1))
      ultimately show ?thesis by (simp add: r(2) Inr)
    qed
  qed
qed

end
