(* ===== verification/StartupLaunch.thy ===== *)
theory StartupLaunch
imports StartupResume StoreClaims
begin

text \<open>
  Loop, completion and launches: a reconciliation that is interrupted any number of times ends with the
  provider's collection, each post with the flag of its last mention, and a launch that meets no failure
  ends it.
\<close>

section \<open>The loop\<close>

lemma page_below_max: "\<not> usize_max \<le> (page + 1) mod 2 ^ 32"
proof -
  have "(page + 1) mod 2 ^ 32 < (2 ^ 32 :: nat)" by simp
  then show ?thesis by (simp add: usize_max_def)
qed

text \<open>What the loop does with a page.\<close>

lemma collection_loop_Suc:
  assumes "cn_max_pages R = usize_max" "cn_generation R = Some g"
    and page: "collection_page C H R api ((page + 1) mod 2 ^ 32) cursor S = (S1, r1)"
    and loop: "collection_loop C H R (Suc n) page cursor seen (api, dw, fetched) S = (S', r)"
  shows "case r1 of Inl e \<Rightarrow> S' = S1 \<and> r = Inl e
    | Inr (next_cursor, count) \<Rightarrow>
        if count = 0 \<or> next_cursor = None then S' = S1 \<and> (\<exists>x. r = Inr x)
        else if the next_cursor \<in> set seen then S' = S1 \<and> r = Inl (RepeatedCursor (the next_cursor))
        else \<exists>counts. collection_loop C H R n ((page + 1) mod 2 ^ 32) next_cursor (the next_cursor # seen) counts S1 = (S', r)"
proof -
  define q where "q = (page + 1) mod 2 ^ 32"
  have q: "\<not> usize_max \<le> q" unfolding q_def by (rule page_below_max)
  note run = loop[unfolded collection_loop.simps page Let_def assms(1,2), folded q_def]
  show ?thesis
    unfolding q_def[symmetric]
  proof (cases r1)
    case (Inr x)
    obtain next_cursor count where x: "x = (next_cursor, count)" by (cases x)
    show "case r1 of Inl e \<Rightarrow> S' = S1 \<and> r = Inl e
      | Inr (next_cursor, count) \<Rightarrow>
          if count = 0 \<or> next_cursor = None then S' = S1 \<and> (\<exists>x. r = Inr x)
          else if the next_cursor \<in> set seen then S' = S1 \<and> r = Inl (RepeatedCursor (the next_cursor))
          else \<exists>counts. collection_loop C H R n q next_cursor (the next_cursor # seen) counts S1 = (S', r)"
      using run q by (cases next_cursor) (auto simp: Inr x split: if_splits)
  qed (use run in simp)
qed

lemma in_progressI:
  "pages = past @ rest \<Longrightarrow> listing P cursor rest \<Longrightarrow> at_cursor c g cursor S \<Longrightarrow> has_done c pages g past S \<Longrightarrow>
   in_progress P c pages S"
  unfolding in_progress_def by blast

lemma collection_loop_progress:
  assumes c: "collection_of R = (acct, domain, phase)"
    and R: "cn_generation R = Some g" "cn_since_id R = None" "cn_max_pages R = usize_max"
    and phase: "phase \<in> {Bookmarks, Favourites}"
    and P: "answers_as P H"
    and "pages = past @ rest" "listing P cursor rest"
    and "at_cursor (acct, domain, phase) g cursor S" "has_done (acct, domain, phase) pages g past S"
    and "collection_loop C H R n page cursor seen counts S = (S', r)"
  shows "case r of Inl _ \<Rightarrow> in_progress P (acct, domain, phase) pages S'
    | Inr _ \<Rightarrow> all_done (acct, domain, phase) pages g S'"
  using assms(7-)
proof (induction n arbitrary: page cursor seen counts S past rest)
  case 0
  then show ?case using in_progressI by (cases counts) auto
next
  case (Suc n)
  obtain api dw fetched where counts: "counts = (api, dw, fetched)" by (cases counts)
  let ?page = "(page + 1) mod 2 ^ 32"
  obtain S1 r1 where page: "collection_page C H R api ?page cursor S = (S1, r1)"
    by (cases "collection_page C H R api ?page cursor S")
  note loop = collection_loop_Suc[OF R(3,1) page Suc.prems(5)[unfolded counts]]
  from Suc.prems(2) obtain data nxt rest' where rest: "rest = data # rest'" "P cursor = (data, nxt)"
    by (cases rule: listing.cases) auto
  note step = collection_page_step[OF c R(1,2) phase P Suc.prems(1)[unfolded rest(1)] rest(2) Suc.prems(3,4) page]
  show ?case
  proof (cases r1)
    case (Inl e)
    then have "S' = S1" "\<exists>e. r = Inl e" using loop by auto
    then show ?thesis using step Inl in_progressI[OF Suc.prems(1,2)] by auto
  next
    case (Inr x)
    have x: "x = (usable_cursor nxt, length data)" and S1: "at_cursor (acct, domain, phase) g (usable_cursor nxt) S1"
      "has_done (acct, domain, phase) pages g (past @ [data]) S1"
      using step Inr by (auto split: prod.splits)
    from Suc.prems(2) show ?thesis
    proof (cases rule: listing.cases)
      case (last_page data' nxt')
      then have end': "usable_cursor nxt = None" "rest' = []" using rest by simp_all
      then have "S' = S1" "\<exists>x. r = Inr x" using loop Inr x by auto
      then show ?thesis using S1 Suc.prems(1) rest(1) end' by (auto simp: all_done_def)
    next
      case (more_pages data' nxt' c' ps)
      then have more: "usable_cursor nxt = Some c'" "data \<noteq> []" "listing P (Some c') rest'" using rest by simp_all
      have pages: "pages = (past @ [data]) @ rest'" using Suc.prems(1) rest(1) by simp
      show ?thesis
      proof (cases "c' \<in> set seen")
        case True
        then have "S' = S1" "\<exists>e. r = Inl e" using loop Inr x more by auto
        then show ?thesis using in_progressI[OF pages more(3)] S1 more(1) by auto
      next
        case False
        then obtain counts' where "collection_loop C H R n ?page (Some c') (c' # seen) counts' S1 = (S', r)"
          using loop Inr x more by auto
        from Suc.IH[OF pages more(3) _ _ this] show ?thesis using S1 more(1) by simp
      qed
    qed
  qed
qed

section \<open>Without failures\<close>

definition healthy :: "provider \<Rightarrow> launch_host \<Rightarrow> bool" where
  "healthy P H \<longleftrightarrow> (\<forall>n cursor. lh_fetch H n cursor None = Inr (P cursor)) \<and> lh_prepare_failure H = None \<and>
     (\<forall>n k i. ah_failure (lh_save H n k) i = None) \<and> (\<forall>n. lh_commit_failure H n = None) \<and>
     lh_complete_failure H = None"

lemma healthy_answers: "healthy P H \<Longrightarrow> answers_as P H"
  by (simp add: healthy_def answers_as_def)

lemma commit_succeeds:
  assumes "load_phase_state acct phase S \<noteq> None" "logged_in (sy_store S) acct"
    and "\<And>k. k \<in> set (pc_members ck) \<Longrightarrow> k \<in> status_key_for_status ` set (ks_statuses (ws_cache (sy_store S)))"
  shows "\<exists>S2. commit_page_checkpoint acct phase ck None S = (S2, Inr ())"
proof -
  let ?listed = "case pc_reconciliation_generation ck of None \<Rightarrow> []
      | Some g \<Rightarrow> map (\<lambda>k. ((acct, phase_as_str phase, g), k)) (pc_members ck)"
  have "\<not> (\<exists>m \<in> set ?listed. \<not> (logged_in (sy_store S) acct \<and>
      snd m \<in> status_key_for_status ` set (ks_statuses (ws_cache (sy_store S)))))"
    using assms(2,3) by (auto split: option.splits)
  then show ?thesis
    unfolding commit_page_checkpoint_def Let_def option.case update_phase_state_def
    using assms(1) by simp
qed

lemma collection_page_healthy:
  assumes c: "collection_of R = (acct, domain, phase)" and R: "cn_since_id R = None"
    and H: "healthy P H" and S: "usable_by acct (sy_store S)"
    and row: "load_phase_state acct phase S \<noteq> None"
    and run: "collection_page C H R n page cursor S = (S', r)"
  shows "\<exists>x. r = Inr x"
proof -
  have fields: "cn_acct R = acct" "cn_domain R = domain" "cn_phase R = phase" using c by (simp_all add: collection_of_def)
  obtain data nxt where data: "P cursor = (data, nxt)" by (cases "P cursor")
  have fetch: "lh_fetch H n cursor (cn_since_id R) = Inr (data, nxt)" using H R data by (simp add: healthy_def)
  let ?page = "map (collection_status phase) data" and ?b = "page_context acct phase"
  let ?items = "batch_items (Some ?b) ?page"
  have S': "store_intact (sy_store S)" "logged_in (sy_store S) acct" using S by (simp_all add: usable_by_def)
  obtain W r' delays where batch: "save_status_batch_with_retry C (lh_save H n) domain ?page (Some ?b) (sy_store S) = (W, r', delays)"
    by (metis prod_cases3)
  have may: "\<forall>j \<in> set ?items. may_save_item (sy_store S) j"
    using S'(2) by (auto simp: batch_items_def may_save_item_def may_save_def page_context_def)
  have r': "r' = Inr ()"
    using retried_save_succeeds[OF S'(1) may, of 1 "lh_save H n" C domain] H batch
    by (simp add: healthy_def batch_with_retry_items)
  have save: "save_page C (lh_save H n) domain ?page ?b S = (S\<lparr>sy_store := W\<rparr>, Inr ())"
    using batch by (simp add: save_page_def r')
  obtain now where W: "W = (if ?page = [] then sy_store S
      else written C now domain [] ?items (server_known domain (sy_store S)))"
    using batch_saved[OF S'(1) batch[unfolded r']] by blast
  have "(sp_id (payload s), domain) \<in> status_key_for_status ` set (ks_statuses (ws_cache W))" if "s \<in> set ?page" for s
  proof -
    have "s \<in> set (map fst (batch_rows ?items))" unfolding batch_page using that by (auto simp: rows_of_def)
    then show ?thesis using that unfolding W written_def by (auto simp: put_statuses_keys simp del: put_fields)
  qed
  moreover have "logged_in W acct" using S'(2) unfolding W by (auto simp: written_def logged_in_def)
  ultimately have ok: "\<exists>S2. commit_page_checkpoint acct phase ck None (S\<lparr>sy_store := W\<rparr>) = (S2, Inr ())"
    if "pc_members ck = map (\<lambda>s. (sp_id (payload s), domain)) ?page" for ck
    using that row by (intro commit_succeeds) auto
  define ck where "ck = \<lparr>pc_high_water_id = (if page = 1 \<and> cursor = None then map_option (\<lambda>s. sp_id (payload s))
        (case data of [] \<Rightarrow> None | s # _ \<Rightarrow> Some s) else None), pc_next_cursor = usable_cursor nxt,
      pc_reconciliation_generation = cn_generation R, pc_members = map (\<lambda>s. (sp_id (payload s), domain)) ?page,
      pc_api_requests = 1, pc_db_writes = (if ?page = [] then 0 else 1) + 1, pc_duration_ms = 0\<rparr>"
  obtain S2 where "commit_page_checkpoint acct phase ck (lh_commit_failure H n) (S\<lparr>sy_store := W\<rparr>) = (S2, Inr ())"
    using ok[of ck] H by (auto simp: ck_def healthy_def)
  then show ?thesis
    using run unfolding collection_page_def fields fetch sum.case prod.case save Let_def ck_def[symmetric] by auto
qed

lemma collection_loop_healthy:
  assumes c: "collection_of R = (acct, domain, phase)"
    and R: "cn_generation R = Some g" "cn_since_id R = None" "cn_max_pages R = usize_max"
    and phase: "phase \<in> {Bookmarks, Favourites}"
    and P: "healthy P H"
    and "pages = past @ rest" "listing P cursor rest"
    and "at_cursor (acct, domain, phase) g cursor S" "has_done (acct, domain, phase) pages g past S"
    and "\<And>k. k \<in> set seen \<Longrightarrow> \<exists>q. listing P (Some k) q \<and> length rest \<le> length q"
    and "length rest \<le> n"
    and "collection_loop C H R n page cursor seen counts S = (S', r)"
  shows "\<exists>x. r = Inr x"
  using assms(7-)
proof (induction n arbitrary: page cursor seen counts S past rest)
  case 0
  then show ?case by (auto elim: listing.cases)
next
  case (Suc n)
  obtain api dw fetched where counts: "counts = (api, dw, fetched)" by (cases counts)
  let ?page = "(page + 1) mod 2 ^ 32"
  obtain S1 r1 where page: "collection_page C H R api ?page cursor S = (S1, r1)"
    by (cases "collection_page C H R api ?page cursor S")
  note loop = collection_loop_Suc[OF R(3,1) page Suc.prems(7)[unfolded counts]]
  from Suc.prems(2) obtain data nxt rest' where rest: "rest = data # rest'" "P cursor = (data, nxt)"
    by (cases rule: listing.cases) auto
  note step = collection_page_step[OF c R(1,2) phase healthy_answers[OF P]
      Suc.prems(1)[unfolded rest(1)] rest(2) Suc.prems(3,4) page]
  have "usable_by acct (sy_store S)" "load_phase_state acct phase S \<noteq> None"
    using Suc.prems(3,4) by (auto simp: has_done_def keeps_shown_def at_cursor_def)
  then obtain x where Inr: "r1 = Inr x"
    using collection_page_healthy[OF c R(2) P _ _ page] by blast
  have x: "x = (usable_cursor nxt, length data)" and S1: "at_cursor (acct, domain, phase) g (usable_cursor nxt) S1"
    "has_done (acct, domain, phase) pages g (past @ [data]) S1"
    using step Inr by (auto split: prod.splits)
  from Suc.prems(2) show ?case
  proof (cases rule: listing.cases)
    case (last_page data' nxt')
    then show ?thesis using loop Inr x rest by auto
  next
    case (more_pages data' nxt' c' ps)
    then have more: "usable_cursor nxt = Some c'" "data \<noteq> []" "listing P (Some c') rest'" using rest by simp_all
    have pages: "pages = (past @ [data]) @ rest'" using Suc.prems(1) rest(1) by simp
    have new: "c' \<notin> set seen"
    proof
      assume "c' \<in> set seen"
      from Suc.prems(5)[OF this] obtain q where "listing P (Some c') q" "length rest \<le> length q" by blast
      then show False using listing_unique[OF more(3)] rest(1) by auto
    qed
    then obtain counts' where run: "collection_loop C H R n ?page (Some c') (c' # seen) counts' S1 = (S', r)"
      using loop Inr x more by auto
    have "\<exists>q. listing P (Some k) q \<and> length rest' \<le> length q" if "k \<in> set (c' # seen)" for k
      using that Suc.prems(5)[of k] more(3) rest(1) by (auto dest: Suc_leD)
    then show ?thesis
      using Suc.IH[OF pages more(3) _ _ _ _ run] S1 more(1) Suc.prems(6) rest(1) by simp
  qed
qed

section \<open>Completion\<close>

text \<open>The cache shows what the provider lists: the flags and the entries of the phase.\<close>

definition flagged :: "collection \<Rightarrow> write_store \<Rightarrow> entity_key set" where
  "flagged = (\<lambda>(acct, domain, phase) W.
     {state_key v | v. v \<in> set (ks_viewer_states (ws_cache W)) \<and> vs_login_account_acct v = acct \<and>
        phase_flag phase v = Some True})"

definition entered :: "collection \<Rightarrow> write_store \<Rightarrow> entity_key set" where
  "entered = (\<lambda>(acct, domain, phase) W.
     {entry_key e | e. e \<in> set (ks_timeline_entries (ws_cache W)) \<and> te_account_acct e = acct \<and>
        te_timeline_type e = phase_as_str phase})"

lemma clear_flag_simps [simp]:
  "state_key (clear_flag phase now v) = state_key v"
  "vs_login_account_acct (clear_flag phase now v) = vs_login_account_acct v"
  by (cases phase; simp add: clear_flag_def state_key_def)+

lemma clear_flag_off: "phase \<in> {Bookmarks, Favourites} \<Longrightarrow> phase_flag phase (clear_flag phase now v) = Some False"
  by (auto simp: clear_flag_def phase_flag_def)

lemma reconcile_shows:
  assumes "phase \<in> {Bookmarks, Favourites}"
  shows "flagged (acct, domain, phase) (sy_store (fst (reconcile acct phase g now S))) =
      flagged (acct, domain, phase) (sy_store S) \<inter> staged acct phase g S"
    and "entered (acct, domain, phase) (sy_store (fst (reconcile acct phase g now S))) =
      entered (acct, domain, phase) (sy_store S) \<inter> staged acct phase g S"
proof -
  let ?stale = "stale_flag acct phase g (sy_members S)"
  define f where "f = (\<lambda>v. if ?stale v then clear_flag phase now v else v)"
  have f: "state_key (f v) = state_key v" "vs_login_account_acct (f v) = vs_login_account_acct v" for v
    by (simp_all add: f_def)
  have states: "ks_viewer_states (ws_cache (sy_store (fst (reconcile acct phase g now S)))) =
      map f (ks_viewer_states (ws_cache (sy_store S)))"
    by (simp add: reconcile_def Let_def f_def)
  have on: "vs_login_account_acct v = acct \<and> phase_flag phase (f v) = Some True \<longleftrightarrow>
      vs_login_account_acct v = acct \<and> phase_flag phase v = Some True \<and> state_key v \<in> staged acct phase g S" for v
    using clear_flag_off[OF assms] by (auto simp: f_def stale_flag_def staged_def)
  show "flagged (acct, domain, phase) (sy_store (fst (reconcile acct phase g now S))) =
      flagged (acct, domain, phase) (sy_store S) \<inter> staged acct phase g S"
  proof (rule set_eqI)
    fix k
    have "k \<in> flagged (acct, domain, phase) (sy_store (fst (reconcile acct phase g now S))) \<longleftrightarrow>
        (\<exists>v \<in> set (ks_viewer_states (ws_cache (sy_store S))). k = state_key (f v) \<and>
           vs_login_account_acct (f v) = acct \<and> phase_flag phase (f v) = Some True)"
      unfolding flagged_def split mem_Collect_eq states set_map image_iff by blast
    also have "\<dots> \<longleftrightarrow> (\<exists>v \<in> set (ks_viewer_states (ws_cache (sy_store S))). k = state_key v \<and>
           vs_login_account_acct v = acct \<and> phase_flag phase v = Some True \<and> state_key v \<in> staged acct phase g S)"
      unfolding f on by blast
    finally show "k \<in> flagged (acct, domain, phase) (sy_store (fst (reconcile acct phase g now S))) \<longleftrightarrow>
        k \<in> flagged (acct, domain, phase) (sy_store S) \<inter> staged acct phase g S"
      by (auto simp: flagged_def)
  qed
  show "entered (acct, domain, phase) (sy_store (fst (reconcile acct phase g now S))) =
      entered (acct, domain, phase) (sy_store S) \<inter> staged acct phase g S"
    by (auto simp: entered_def reconcile_def Let_def stale_entry_def staged_def)
qed

lemma flagged_iff:
  assumes "store_intact W"
  shows "(i, domain) \<in> flagged (acct, domain, phase) W \<longleftrightarrow> flag_on (acct, domain, phase) i W"
proof -
  let ?rows = "ks_viewer_states (ws_cache W)"
  have "distinct (map state_row_key ?rows)" using assms by (simp add: store_intact_def tables_distinct_def)
  note found = row_of_in[OF this]
  show ?thesis
  proof
    assume "(i, domain) \<in> flagged (acct, domain, phase) W"
    then obtain v where v: "v \<in> set ?rows" "state_key v = (i, domain)" "vs_login_account_acct v = acct"
      "phase_flag phase v = Some True" by (auto simp: flagged_def)
    then have "state_row_key v = (acct, i, domain)" by (simp add: state_row_key_def)
    then show "flag_on (acct, domain, phase) i W" using found[OF v(1)] v(4) by (simp add: flag_on_def)
  next
    assume "flag_on (acct, domain, phase) i W"
    then obtain v where v: "row_of state_row_key (acct, i, domain) ?rows = Some v" "phase_flag phase v = Some True"
      by (auto simp: flag_on_def)
    have "v \<in> set ?rows" "state_row_key v = (acct, i, domain)" using row_of_Some[OF v(1)] by simp_all
    then show "(i, domain) \<in> flagged (acct, domain, phase) W"
      using v(2) unfolding flagged_def by (auto simp: state_row_key_def intro!: exI[of _ v])
  qed
qed

lemma entered_iff: "(i, domain) \<in> entered (acct, domain, phase) W \<longleftrightarrow> entry_on (acct, domain, phase) i W"
  by (force simp: entered_def entry_on_def entry_row_key_def)

definition reconciled :: "collection \<Rightarrow> api_status list list \<Rightarrow> sync_store \<Rightarrow> bool" where
  "reconciled = (\<lambda>(acct, domain, phase) pages S.
     flagged (acct, domain, phase) (sy_store S) =
       (\<lambda>i. (i, domain)) ` (ids_of phase pages \<inter> ends_flagged phase (concat pages)) \<and>
     entered (acct, domain, phase) (sy_store S) = (\<lambda>i. (i, domain)) ` ids_of phase pages)"

lemma complete_phase_generation:
  assumes "load_phase_state acct phase S = Some st" "ss_reconciliation_generation st = Some g"
    and "complete_phase_at acct phase now failure S = (S', r)"
  shows "case r of Inl e \<Rightarrow> S' = S \<and> failure = Some e
    | Inr _ \<Rightarrow> sy_store S' = sy_store (fst (reconcile acct phase g now S)) \<and>
        Option.bind (load_phase_state acct phase S') ss_reconciliation_generation = None"
proof -
  obtain S1 result where rec: "reconcile acct phase g now S = (S1, result)" by (cases "reconcile acct phase g now S")
  have load: "load_phase_state acct phase S1 = Some st"
    using assms(1) rec by (auto simp: reconcile_def Let_def)
  have gen: "Option.bind (load_phase_state acct phase S) ss_reconciliation_generation = Some g"
    using assms(1,2) by simp
  obtain S2 where up: "update_phase_state acct phase
      (\<lambda>st. st\<lparr>ss_resume_cursor := None, ss_reconciliation_generation := None, ss_last_success_at := Some now,
         ss_last_full_reconcile_at := Some now, ss_last_error := None\<rparr>) S1 = Some S2"
    using update_phase_state_row[of acct phase S1] load by blast
  note S2 = update_phase_state_cases[OF up, simplified]
  show ?thesis
    using assms(3) S2(1,3) load
    unfolding complete_phase_at_def Let_def gen option.case rec prod.case
    by (cases failure) (auto simp: up)
qed

lemma all_done_complete:
  assumes "phase \<in> {Bookmarks, Favourites}" "all_done (acct, domain, phase) pages g S"
    and "complete_phase_at acct phase now failure S = (S', r)"
  shows "case r of Inl e \<Rightarrow> S' = S \<and> failure = Some e | Inr _ \<Rightarrow> reconciled (acct, domain, phase) pages S'"
proof -
  obtain st where st: "load_phase_state acct phase S = Some st" "ss_reconciliation_generation st = Some g"
    using assms(2) by (auto simp: all_done_def at_cursor_def)
  have shown: "store_intact (sy_store S)" "shown (acct, domain, phase) pages [] (sy_store S)"
    and staged: "staged acct phase g S = (\<lambda>i. (i, domain)) ` ids_of phase pages"
    using assms(2) by (auto simp: all_done_def has_done_def keeps_shown_def usable_by_def)
  have "flagged (acct, domain, phase) (sy_store S) \<inter> staged acct phase g S =
      (\<lambda>i. (i, domain)) ` (ids_of phase pages \<inter> ends_flagged phase (concat pages))"
    "entered (acct, domain, phase) (sy_store S) \<inter> staged acct phase g S = staged acct phase g S"
    unfolding staged using shown by (auto simp: flagged_iff entered_iff shown_def)
  then have "reconciled (acct, domain, phase) pages S'"
    if "sy_store S' = sy_store (fst (reconcile acct phase g now S))"
    unfolding reconciled_def split that reconcile_shows[OF assms(1)] staged by simp
  then show ?thesis using complete_phase_generation[OF st assms(3)] by (cases r) auto
qed

section \<open>Launches\<close>

text \<open>No reconciliation is in progress, and one is due at the given instants.\<close>

definition fresh :: "(rstr \<Rightarrow> datetime option) \<Rightarrow> datetime set \<Rightarrow> collection \<Rightarrow> sync_store \<Rightarrow> bool" where
  "fresh from_rfc3339 instants = (\<lambda>(acct, domain, phase) S.
     usable_by acct (sy_store S) \<and>
     Option.bind (load_phase_state acct phase S) ss_reconciliation_generation = None \<and>
     (\<forall>now \<in> instants. full_is_due from_rfc3339 default_policy (load_phase_state acct phase S) now))"

definition ready ::
  "(rstr \<Rightarrow> datetime option) \<Rightarrow> datetime set \<Rightarrow> provider \<Rightarrow> collection \<Rightarrow> api_status list list \<Rightarrow> sync_store \<Rightarrow> bool" where
  "ready from_rfc3339 instants P c pages S \<longleftrightarrow> fresh from_rfc3339 instants c S \<or> in_progress P c pages S"

lemma prepare_ready:
  assumes phase: "phase \<in> {Bookmarks, Favourites}" and list: "listing P None pages"
    and S: "ready from_rfc3339 instants P (acct, domain, phase) pages S" and now: "now \<in> instants"
    and run: "prepare_phase_at from_rfc3339 acct phase default_policy now gen failure S = (S', r)"
  shows "case r of Inl e \<Rightarrow> S' = S \<and> failure = Some e
    | Inr plan \<Rightarrow> \<exists>g cursor past rest. plan = FullReconcile g cursor \<and> pages = past @ rest \<and> listing P cursor rest \<and>
        at_cursor (acct, domain, phase) g cursor S' \<and> has_done (acct, domain, phase) pages g past S'"
  using S unfolding ready_def
proof (elim disjE)
  assume "in_progress P (acct, domain, phase) pages S"
  then obtain g past rest cursor st where p: "pages = past @ rest" "listing P cursor rest"
    "at_cursor (acct, domain, phase) g cursor S" "has_done (acct, domain, phase) pages g past S"
    and st: "load_phase_state acct phase S = Some st" "ss_reconciliation_generation st = Some g" "ss_resume_cursor st = cursor"
    by (auto simp: in_progress_def at_cursor_def)
  have "plan_phase from_rfc3339 default_policy phase (Some st) now gen = FullReconcile g cursor"
    by (simp add: plan_phase_def st)
  then have S': "(S', r) = (S, case failure of Some e \<Rightarrow> Inl e | None \<Rightarrow> Inr (FullReconcile g cursor))"
    using run by (cases failure) (auto simp: prepare_phase_at_def Let_def st)
  show ?thesis
  proof (cases failure)
    case None
    then have eqs: "S' = S" "r = Inr (FullReconcile g cursor)" using S' by simp_all
    show ?thesis unfolding eqs sum.case using p by blast
  qed (use S' in simp)
next
  assume fresh: "fresh from_rfc3339 instants (acct, domain, phase) S"
  let ?load = "load_phase_state acct phase S"
  have gen: "Option.bind ?load ss_reconciliation_generation = None" and due: "full_is_due from_rfc3339 default_policy ?load now"
    and ok: "usable_by acct (sy_store S)"
    using fresh now by (auto simp: fresh_def)
  have plan: "plan_phase from_rfc3339 default_policy phase ?load now gen = FullReconcile gen None"
    using phase gen due by (auto simp: plan_phase_def supports_full_reconciliation_def)
  show ?thesis
  proof (cases failure)
    case (Some e)
    then show ?thesis using run by (auto simp: prepare_phase_at_def Let_def)
  next
    case None
    let ?S1 = "if ?load = None then S\<lparr>sy_states := sy_states S @ [new_phase_state acct phase]\<rparr> else S"
    define S2 where "S2 = ?S1\<lparr>sy_members := filter (\<lambda>((a, p, _), _). \<not> (a = acct \<and> p = phase_as_str phase)) (sy_members ?S1)\<rparr>"
    have row: "load_phase_state acct phase S2 \<noteq> None"
      by (auto simp: S2_def load_phase_state_def row_of_append new_phase_state_def state_key_of_def split: option.splits)
    obtain S3 where up: "update_phase_state acct phase
        (\<lambda>st. st\<lparr>ss_reconciliation_generation := Some gen, ss_resume_cursor := None, ss_last_error := None\<rparr>) S2 = Some S3"
      using update_phase_state_row[OF row] by blast
    note S3 = update_phase_state_cases[OF up, simplified]
    have "logged_in (sy_store S) acct" using ok by (simp add: usable_by_def)
    then have eqs: "S' = S3" "r = Inr (FullReconcile gen None)"
      using run up plan gen None unfolding S2_def by (auto simp: prepare_phase_at_def Let_def)
    have "at_cursor (acct, domain, phase) gen None S3"
      using S3(1) row by (auto simp: at_cursor_def)
    moreover have "sy_store S3 = sy_store S" "staged acct phase gen S3 = {}"
      using S3(3,4) by (auto simp: S2_def staged_def)
    then have "has_done (acct, domain, phase) pages gen [] S3"
      using ok by (simp add: has_done_def keeps_shown_def shown_def)
    moreover have "pages = [] @ pages" by simp
    ultimately show ?thesis using list unfolding eqs sum.case by blast
  qed
qed

text \<open>A reconciliation: preparation, loop, completion.\<close>

lemma run_phase_collection:
  assumes "phase \<in> {Bookmarks, Favourites}"
    and "prepare_phase_at from_rfc3339 acct phase default_policy (lh_now H) (lh_generation H) (lh_prepare_failure H) S =
      (S1, Inr (FullReconcile g cursor))"
    and run: "run_phase C from_rfc3339 H N acct domain phase S = (S', r)"
  obtains R S2 r2 where "collection_of R = (acct, domain, phase)" "cn_generation R = Some g" "cn_since_id R = None"
    "cn_max_pages R = usize_max"
    "collection_loop C H R (lh_pages H) 0 cursor (case cursor of None \<Rightarrow> [] | Some c \<Rightarrow> [c]) (0, 0, 0) S1 = (S2, r2)"
    "\<forall>e. r2 = Inl e \<longrightarrow> S' = S2 \<and> r = Inl e"
    "\<forall>x. r2 = Inr x \<longrightarrow> (\<exists>S3 r3. complete_phase_at acct phase (cd_to_rfc3339 C (lh_done_at H)) (lh_complete_failure H) S2 = (S3, r3) \<and>
       S' = S3 \<and> (case r3 of Inl e \<Rightarrow> r = Inl (WriteFailed e) | Inr _ \<Rightarrow> \<exists>m. r = Inr m \<and> pm_error m = None))"
proof -
  let ?R = "\<lparr>cn_acct = acct, cn_domain = domain, cn_phase = phase, cn_generation = Some g,
      cn_since_id = None, cn_max_pages = usize_max\<rparr>"
  have plan: "collection_plan acct domain phase (FullReconcile g cursor) = Some (?R, cursor)"
    by (simp add: collection_plan_def)
  obtain S2 r2 where loop: "collection_loop C H ?R (lh_pages H) 0 cursor (case cursor of None \<Rightarrow> [] | Some c \<Rightarrow> [c]) (0, 0, 0) S1 = (S2, r2)"
    by fastforce
  obtain S3 r3 where comp: "complete_phase_at acct phase (cd_to_rfc3339 C (lh_done_at H)) (lh_complete_failure H) S2 = (S3, r3)"
    by fastforce
  have eq: "(S', r) = (case r2 of Inl e \<Rightarrow> (S2, Inl e)
      | Inr (a, w, f) \<Rightarrow> (case r3 of Inl e \<Rightarrow> (S3, Inl (WriteFailed e)) | Inr _ \<Rightarrow> (S3, Inr (metrics_of a (w + 1) f))))"
  proof -
    have "phase \<noteq> Home" "phase \<noteq> Public" "phase \<noteq> Notifications" using assms(1) by auto
    then show ?thesis
      using run by (cases r2; cases r3) (simp_all add: run_phase_def assms(2) run_collection_phase_def plan loop comp split: prod.splits)
  qed
  show ?thesis
  proof (rule that[of ?R S2 r2])
    show "\<forall>e. r2 = Inl e \<longrightarrow> S' = S2 \<and> r = Inl e" using eq by auto
    have "\<exists>S3 r3. complete_phase_at acct phase (cd_to_rfc3339 C (lh_done_at H)) (lh_complete_failure H) S2 = (S3, r3) \<and>
        S' = S3 \<and> (case r3 of Inl e \<Rightarrow> r = Inl (WriteFailed e) | Inr _ \<Rightarrow> \<exists>m. r = Inr m \<and> pm_error m = None)" if "r2 = Inr x" for x
      using eq comp that by (cases x; cases r3) (simp_all add: metrics_of_def)
    then show "\<forall>x. r2 = Inr x \<longrightarrow> (\<exists>S3 r3. complete_phase_at acct phase (cd_to_rfc3339 C (lh_done_at H)) (lh_complete_failure H) S2 = (S3, r3) \<and>
        S' = S3 \<and> (case r3 of Inl e \<Rightarrow> r = Inl (WriteFailed e) | Inr _ \<Rightarrow> \<exists>m. r = Inr m \<and> pm_error m = None))"
      by blast
  qed (simp_all add: collection_of_def loop)
qed

lemma run_phase_ready:
  assumes phase: "phase \<in> {Bookmarks, Favourites}" and list: "listing P None pages"
    and P: "answers_as P H"
    and S: "ready from_rfc3339 instants P (acct, domain, phase) pages S" and now: "lh_now H \<in> instants"
    and run: "run_phase C from_rfc3339 H N acct domain phase S = (S', r)"
  shows "case r of Inl _ \<Rightarrow> ready from_rfc3339 instants P (acct, domain, phase) pages S'
      | Inr m \<Rightarrow> reconciled (acct, domain, phase) pages S' \<and> pm_error m = None"
    and "healthy P H \<Longrightarrow> length pages \<le> lh_pages H \<Longrightarrow> \<exists>m. r = Inr m"
proof -
  obtain S1 r1 where prep: "prepare_phase_at from_rfc3339 acct phase default_policy (lh_now H) (lh_generation H)
      (lh_prepare_failure H) S = (S1, r1)" by fastforce
  note p = prepare_ready[OF phase list S now prep]
  have "(case r of Inl _ \<Rightarrow> ready from_rfc3339 instants P (acct, domain, phase) pages S'
      | Inr m \<Rightarrow> reconciled (acct, domain, phase) pages S' \<and> pm_error m = None) \<and>
    (healthy P H \<longrightarrow> length pages \<le> lh_pages H \<longrightarrow> (\<exists>m. r = Inr m))"
  proof (cases r1)
    case (Inl e)
    then show ?thesis using run S p by (auto simp: run_phase_def prep healthy_def)
  next
    case (Inr plan)
    then obtain g cursor past rest where plan: "plan = FullReconcile g cursor" and at: "pages = past @ rest"
      "listing P cursor rest" "at_cursor (acct, domain, phase) g cursor S1" "has_done (acct, domain, phase) pages g past S1"
      using p by auto
    obtain R S2 r2 where R: "collection_of R = (acct, domain, phase)" "cn_generation R = Some g" "cn_since_id R = None"
        "cn_max_pages R = usize_max"
      and loop: "collection_loop C H R (lh_pages H) 0 cursor (case cursor of None \<Rightarrow> [] | Some c \<Rightarrow> [c]) (0, 0, 0) S1 = (S2, r2)"
      and failed: "\<forall>e. r2 = Inl e \<longrightarrow> S' = S2 \<and> r = Inl e"
      and ended: "\<forall>x. r2 = Inr x \<longrightarrow> (\<exists>S3 r3. complete_phase_at acct phase (cd_to_rfc3339 C (lh_done_at H)) (lh_complete_failure H) S2 = (S3, r3) \<and>
        S' = S3 \<and> (case r3 of Inl e \<Rightarrow> r = Inl (WriteFailed e) | Inr _ \<Rightarrow> \<exists>m. r = Inr m \<and> pm_error m = None))"
      using run_phase_collection[OF phase prep[unfolded Inr plan] run] by blast
    note l = collection_loop_progress[OF R phase P at loop]
    have seen: "\<exists>q. listing P (Some k) q \<and> length rest \<le> length q"
      if "k \<in> set (case cursor of None \<Rightarrow> [] | Some c \<Rightarrow> [c])" for k
      using that at(2) by (auto split: option.splits)
    have ends: "\<exists>x. r2 = Inr x" if "healthy P H" "length pages \<le> lh_pages H"
      using collection_loop_healthy[OF R phase that(1) at seen _ loop] that(2) at(1) by simp
    show ?thesis
    proof (cases r2)
      case (Inl e)
      then show ?thesis using failed l ends by (auto simp: ready_def)
    next
      case (Inr x)
      then obtain S3 r3 where comp: "complete_phase_at acct phase (cd_to_rfc3339 C (lh_done_at H)) (lh_complete_failure H) S2 = (S3, r3)"
        and S3: "S' = S3" "case r3 of Inl e \<Rightarrow> r = Inl (WriteFailed e) | Inr _ \<Rightarrow> \<exists>m. r = Inr m \<and> pm_error m = None"
        using ended by blast
      have all: "all_done (acct, domain, phase) pages g S2" using l Inr by simp
      have "in_progress P (acct, domain, phase) pages S2"
        using all list unfolding all_done_def
        by (intro in_progressI[of pages "[]" pages P None _ g]) (auto simp: has_done_def keeps_shown_def shown_def)
      then show ?thesis
        using S3 all_done_complete[OF phase all comp] by (cases r3) (auto simp: ready_def healthy_def)
    qed
  qed
  then show "case r of Inl _ \<Rightarrow> ready from_rfc3339 instants P (acct, domain, phase) pages S'
      | Inr m \<Rightarrow> reconciled (acct, domain, phase) pages S' \<and> pm_error m = None"
    and "healthy P H \<Longrightarrow> length pages \<le> lh_pages H \<Longrightarrow> \<exists>m. r = Inr m" by simp_all
qed

text \<open>What is recorded of a run changes neither the progress nor the cache.\<close>

definition harmless :: "(startup_sync_state \<Rightarrow> startup_sync_state) \<Rightarrow> bool" where
  "harmless f \<longleftrightarrow> (\<forall>st. state_key_of (f st) = state_key_of st \<and>
     ss_reconciliation_generation (f st) = ss_reconciliation_generation st \<and>
     ss_resume_cursor (f st) = ss_resume_cursor st \<and>
     ss_last_full_reconcile_at (f st) = ss_last_full_reconcile_at st)"

lemma harmless_update:
  assumes "harmless f" "update_phase_state acct phase f S = Some S'"
  shows "sy_store S' = sy_store S"
    and "at_cursor (acct, domain, phase) g cursor S' = at_cursor (acct, domain, phase) g cursor S"
    and "ready from_rfc3339 instants P (acct, domain, phase) pages S \<Longrightarrow> ready from_rfc3339 instants P (acct, domain, phase) pages S'"
    and "reconciled c pages S' = reconciled c pages S"
proof -
  note S' = update_phase_state_cases[OF assms(2)]
  have load: "load_phase_state acct phase S' = map_option f (load_phase_state acct phase S)"
    "sy_store S' = sy_store S" "sy_members S' = sy_members S"
    using S' assms(1) by (simp_all add: harmless_def)
  show "sy_store S' = sy_store S" by (rule load(2))
  have at: "at_cursor (acct, domain, phase) g cursor S' = at_cursor (acct, domain, phase) g cursor S" for g cursor
    using assms(1) by (auto simp: at_cursor_def load harmless_def)
  then show "at_cursor (acct, domain, phase) g cursor S' = at_cursor (acct, domain, phase) g cursor S" .
  have "has_done (acct, domain, phase) pages g past S' = has_done (acct, domain, phase) pages g past S" for g past
    by (simp add: has_done_def load staged_def)
  moreover have "fresh from_rfc3339 instants (acct, domain, phase) S' = fresh from_rfc3339 instants (acct, domain, phase) S"
    using assms(1) by (cases "load_phase_state acct phase S") (simp_all add: fresh_def load full_is_due_def harmless_def)
  ultimately show "ready from_rfc3339 instants P (acct, domain, phase) pages S \<Longrightarrow> ready from_rfc3339 instants P (acct, domain, phase) pages S'"
    by (simp add: ready_def in_progress_def at)
  show "reconciled c pages S' = reconciled c pages S" by (simp add: reconciled_def load split_def)
qed

lemma record_keeps:
  "ready from_rfc3339 instants P (acct, domain, phase) pages S \<Longrightarrow>
   ready from_rfc3339 instants P (acct, domain, phase) pages (record_phase_duration acct phase ms S)"
  "reconciled c pages (record_phase_duration acct phase ms S) = reconciled c pages S"
  "ready from_rfc3339 instants P (acct, domain, phase) pages S \<Longrightarrow>
   ready from_rfc3339 instants P (acct, domain, phase) pages (fst (fail_phase acct phase error S))"
  "sy_store (record_phase_duration acct phase ms S) = sy_store S"
  "sy_store (fst (fail_phase acct phase error S)) = sy_store S"
  "at_cursor (acct, domain, phase) g cursor (record_phase_duration acct phase ms S) = at_cursor (acct, domain, phase) g cursor S"
  "at_cursor (acct, domain, phase) g cursor (fst (fail_phase acct phase error S)) = at_cursor (acct, domain, phase) g cursor S"
proof -
  have h: "harmless (\<lambda>st. st\<lparr>ss_last_duration_ms := saturating_i64 ms, ss_db_writes := ss_db_writes st + 1\<rparr>)"
    "harmless (\<lambda>st. st\<lparr>ss_last_error := Some (take 1000 error)\<rparr>)"
    by (simp_all add: harmless_def)
  show "ready from_rfc3339 instants P (acct, domain, phase) pages S \<Longrightarrow>
      ready from_rfc3339 instants P (acct, domain, phase) pages (record_phase_duration acct phase ms S)"
    "reconciled c pages (record_phase_duration acct phase ms S) = reconciled c pages S"
    "ready from_rfc3339 instants P (acct, domain, phase) pages S \<Longrightarrow>
      ready from_rfc3339 instants P (acct, domain, phase) pages (fst (fail_phase acct phase error S))"
    "sy_store (record_phase_duration acct phase ms S) = sy_store S"
    "sy_store (fst (fail_phase acct phase error S)) = sy_store S"
    "at_cursor (acct, domain, phase) g cursor (record_phase_duration acct phase ms S) = at_cursor (acct, domain, phase) g cursor S"
    "at_cursor (acct, domain, phase) g cursor (fst (fail_phase acct phase error S)) = at_cursor (acct, domain, phase) g cursor S"
    using harmless_update[OF h(1)] harmless_update[OF h(2)]
    by (auto simp: record_phase_duration_def fail_phase_def split: option.splits)
qed

lemma launch_phase_ready:
  assumes "phase \<in> {Bookmarks, Favourites}" "listing P None pages" "answers_as P H"
    and "ready from_rfc3339 instants P (acct, domain, phase) pages S" "lh_now H \<in> instants"
    and run: "launch_phase C from_rfc3339 H N acct domain phase S = (S', m)"
  shows "pm_error m \<noteq> None \<Longrightarrow> ready from_rfc3339 instants P (acct, domain, phase) pages S'"
    and "pm_error m = None \<Longrightarrow> reconciled (acct, domain, phase) pages S'"
    and "healthy P H \<Longrightarrow> length pages \<le> lh_pages H \<Longrightarrow> pm_error m = None"
proof -
  obtain S1 r where r: "run_phase C from_rfc3339 H N acct domain phase S = (S1, r)" by fastforce
  note step = run_phase_ready[OF assms(1-5) r]
  show "pm_error m \<noteq> None \<Longrightarrow> ready from_rfc3339 instants P (acct, domain, phase) pages S'"
    "pm_error m = None \<Longrightarrow> reconciled (acct, domain, phase) pages S'"
    "healthy P H \<Longrightarrow> length pages \<le> lh_pages H \<Longrightarrow> pm_error m = None"
    using run step record_keeps by (cases r; auto simp: launch_phase_def r split: if_splits)+
qed

text \<open>Launches one after the other.\<close>

fun launches ::
  "codec \<Rightarrow> (rstr \<Rightarrow> datetime option) \<Rightarrow> notification_host \<Rightarrow> collection \<Rightarrow> launch_host list \<Rightarrow> sync_store \<Rightarrow>
   sync_store \<times> phase_metrics list" where
  "launches C from_rfc3339 N c [] S = (S, [])"
| "launches C from_rfc3339 N (acct, domain, phase) (H # Hs) S =
     (let (S1, m) = launch_phase C from_rfc3339 H N acct domain phase S;
          (S2, ms) = launches C from_rfc3339 N (acct, domain, phase) Hs S1
      in (S2, m # ms))"

lemma launches_ready:
  assumes "phase \<in> {Bookmarks, Favourites}" "listing P None pages"
    and "ready from_rfc3339 instants P (acct, domain, phase) pages S"
    and "\<forall>H \<in> set Hs. answers_as P H \<and> lh_now H \<in> instants"
    and "launches C from_rfc3339 N (acct, domain, phase) Hs S = (S', ms)" "\<forall>m \<in> set ms. pm_error m \<noteq> None"
  shows "ready from_rfc3339 instants P (acct, domain, phase) pages S'"
  using assms(3-)
proof (induction Hs arbitrary: S ms)
  case (Cons H Hs)
  obtain S1 m where one: "launch_phase C from_rfc3339 H N acct domain phase S = (S1, m)" by fastforce
  obtain S2 ms' where rest: "launches C from_rfc3339 N (acct, domain, phase) Hs S1 = (S2, ms')" by fastforce
  have eqs: "S' = S2" "ms = m # ms'" using Cons.prems(3) one rest by auto
  have "ready from_rfc3339 instants P (acct, domain, phase) pages S1"
    using launch_phase_ready(1)[OF assms(1,2) _ Cons.prems(1) _ one] Cons.prems(2,4) eqs by simp
  then show ?case using Cons.IH[of S1 ms'] Cons.prems(2,4) rest eqs by simp
qed simp

end
