(* ===== verification/StartupClaims.thy ===== *)
theory StartupClaims
imports StartupLaunch
begin

text \<open>
  The properties of the synchronisation at the start, with a concrete provider and concrete launches.
\<close>

section \<open>Facts about any provider\<close>

text \<open>Ids that a page of a host can list.\<close>

definition host_lists :: "startup_sync_phase \<Rightarrow> launch_host \<Rightarrow> rstr set" where
  "host_lists phase H =
     {listed_id phase s | n cursor data next s. lh_fetch H n cursor None = Inr (data, next) \<and> s \<in> set data}"

text \<open>A page adds no member but what it lists, whatever fails in it.\<close>

lemma collection_page_members:
  assumes "collection_of R = (acct, domain, phase)" "cn_generation R = Some g" "cn_since_id R = None"
    and "at_cursor (acct, domain, phase) g cursor S"
    and run: "collection_page C H R n page c S = (S', r)"
  shows "staged acct phase g S' \<subseteq> staged acct phase g S \<union> (\<lambda>i. (i, domain)) ` host_lists phase H \<and>
    (\<exists>cursor'. at_cursor (acct, domain, phase) g cursor' S' \<and> (case r of Inl _ \<Rightarrow> cursor' = cursor
       | Inr (nc, k) \<Rightarrow> cursor' = nc \<and> (\<exists>data nxt. lh_fetch H n c None = Inr (data, nxt) \<and> nc = usable_cursor nxt \<and> k = length data)))"
proof (cases "lh_fetch H n c (cn_since_id R)")
  case (Inl e)
  then show ?thesis using run assms(4) by (auto simp: collection_page_def)
next
  case (Inr answer)
  obtain data nxt where answer: "answer = (data, nxt)" by (cases answer)
  have fields: "cn_acct R = acct" "cn_domain R = domain" "cn_phase R = phase" using assms(1) by (simp_all add: collection_of_def)
  let ?page = "map (collection_status phase) data" and ?b = "page_context acct phase"
  obtain S1 r1 where save: "save_page C (lh_save H n) domain ?page ?b S = (S1, r1)" by fastforce
  obtain W where S1: "S1 = S\<lparr>sy_store := W\<rparr>" using save by (rule save_page_cases)
  have kept: "at_cursor (acct, domain, phase) g cursor S1" "staged acct phase g S1 = staged acct phase g S"
    using assms(4) by (auto simp: S1 at_cursor_def staged_def)
  define ck where "ck = \<lparr>pc_high_water_id = (if page = 1 \<and> c = None then map_option (\<lambda>s. sp_id (payload s))
        (case data of [] \<Rightarrow> None | s # _ \<Rightarrow> Some s) else None), pc_next_cursor = usable_cursor nxt,
      pc_reconciliation_generation = Some g, pc_members = map (\<lambda>s. (sp_id (payload s), domain)) ?page,
      pc_api_requests = 1, pc_db_writes = (if ?page = [] then 0 else 1) + 1, pc_duration_ms = 0\<rparr>"
  obtain S2 r2 where commit: "commit_page_checkpoint acct phase ck (lh_commit_failure H n) S1 = (S2, r2)" by fastforce
  show ?thesis
  proof (cases r1)
    case (Inl e)
    then show ?thesis
      using run kept unfolding collection_page_def fields Inr answer assms(2) sum.case prod.case save Let_def by auto
  next
    case saved: (Inr u)
    have r: "S' = S2" "r = (case r2 of Inl e \<Rightarrow> Inl (WriteFailed e) | Inr _ \<Rightarrow> Inr (usable_cursor nxt, length data))"
      using run unfolding collection_page_def fields Inr answer assms(2) sum.case prod.case save Let_def saved
        ck_def[symmetric] commit length_map by (auto split: sum.split)
    have ids: "listed_id phase ` set data \<subseteq> host_lists phase H"
    proof
      fix i assume "i \<in> listed_id phase ` set data"
      then obtain s where "s \<in> set data" "i = listed_id phase s" by blast
      then show "i \<in> host_lists phase H"
        using Inr unfolding host_lists_def answer assms(3) by blast
    qed
    show ?thesis
    proof (cases r2)
      case (Inl e)
      then show ?thesis using commit_page_cases[OF commit] kept r by auto
    next
      case (Inr x)
      note ok = commit_page_cases[OF commit, unfolded Inr, simplified]
      have "staged acct phase g S' = staged acct phase g S1 \<union> (\<lambda>i. (i, domain)) ` listed_id phase ` set data"
        using ok by (auto simp: staged_def ck_def r(1) listed_id_def image_image)
      moreover have "at_cursor (acct, domain, phase) g (usable_cursor nxt) S'"
        using ok kept(1) by (auto simp: at_cursor_def r(1) ck_def)
      ultimately show ?thesis using kept(2) ids answer assms(3) \<open>lh_fetch H n c (cn_since_id R) = Inr answer\<close> by (auto simp: r(2) Inr)
    qed
  qed
qed

lemma collection_loop_members:
  assumes "collection_of R = (acct, domain, phase)" "cn_generation R = Some g" "cn_since_id R = None"
    "cn_max_pages R = usize_max"
    and "at_cursor (acct, domain, phase) g stored S"
    and "collection_loop C H R n page cursor seen counts S = (S', r)"
  shows "staged acct phase g S' \<subseteq> staged acct phase g S \<union> (\<lambda>i. (i, domain)) ` host_lists phase H \<and>
    (\<exists>cursor'. at_cursor (acct, domain, phase) g cursor' S')"
  using assms(5,6)
proof (induction n arbitrary: page cursor seen counts S stored)
  case 0
  then show ?case by (cases counts) auto
next
  case (Suc n)
  obtain api dw fetched where counts: "counts = (api, dw, fetched)" by (cases counts)
  obtain S1 r1 where page: "collection_page C H R api ((page + 1) mod 2 ^ 32) cursor S = (S1, r1)" by fastforce
  note loop = collection_loop_Suc[OF assms(4,2) page Suc.prems(2)[unfolded counts]]
  obtain stored' where S1: "at_cursor (acct, domain, phase) g stored' S1"
    "staged acct phase g S1 \<subseteq> staged acct phase g S \<union> (\<lambda>i. (i, domain)) ` host_lists phase H"
    using collection_page_members[OF assms(1-3) Suc.prems(1) page] by blast
  consider "S' = S1" | counts' q c s where "collection_loop C H R n q c s counts' S1 = (S', r)"
    using loop by (auto split: sum.splits prod.splits if_splits)
  then show ?case
  proof cases
    case 1
    then show ?thesis using S1 by blast
  next
    case 2
    from Suc.IH[OF S1(1) 2] S1(2) show ?thesis by blast
  qed
qed

text \<open>A launch that resumes generation \<open>g\<close>.\<close>

lemma resumed_phase:
  assumes phase: "phase \<in> {Bookmarks, Favourites}" and S: "at_cursor (acct, domain, phase) g cursor S"
    and run: "run_phase C from_rfc3339 H N acct domain phase S = (S', r)"
  shows "(\<exists>e. lh_prepare_failure H = Some e \<and> S' = S \<and> r = Inl (WriteFailed e)) \<or>
    prepare_phase_at from_rfc3339 acct phase default_policy (lh_now H) (lh_generation H) (lh_prepare_failure H) S =
      (S, Inr (FullReconcile g cursor))"
proof -
  obtain st where st: "load_phase_state acct phase S = Some st" "ss_reconciliation_generation st = Some g" "ss_resume_cursor st = cursor"
    using S by (auto simp: at_cursor_def)
  have plan: "plan_phase from_rfc3339 default_policy phase (Some st) now gen = FullReconcile g cursor" for now gen
    by (simp add: plan_phase_def st)
  show ?thesis
    using run by (cases "lh_prepare_failure H") (simp_all add: run_phase_def prepare_phase_at_def Let_def st plan)
qed

lemma resumed_run_completes:
  assumes phase: "phase \<in> {Bookmarks, Favourites}" and S: "at_cursor (acct, domain, phase) g cursor S"
    and run: "run_phase C from_rfc3339 H N acct domain phase S = (S', Inr m)"
  shows "flagged (acct, domain, phase) (sy_store S') \<subseteq>
    staged acct phase g S \<union> (\<lambda>i. (i, domain)) ` host_lists phase H"
proof -
  have prep: "prepare_phase_at from_rfc3339 acct phase default_policy (lh_now H) (lh_generation H) (lh_prepare_failure H) S =
      (S, Inr (FullReconcile g cursor))"
    using resumed_phase[OF phase S run] by auto
  obtain R S2 r2 where R: "collection_of R = (acct, domain, phase)" "cn_generation R = Some g" "cn_since_id R = None"
      "cn_max_pages R = usize_max"
    and loop: "collection_loop C H R (lh_pages H) 0 cursor (case cursor of None \<Rightarrow> [] | Some c \<Rightarrow> [c]) (0, 0, 0) S = (S2, r2)"
    and failed: "\<forall>e. r2 = Inl e \<longrightarrow> S' = S2 \<and> (Inr m :: phase_error + phase_metrics) = Inl e"
    and ended: "\<forall>x. r2 = Inr x \<longrightarrow> (\<exists>S3 r3. complete_phase_at acct phase (cd_to_rfc3339 C (lh_done_at H)) (lh_complete_failure H) S2 = (S3, r3) \<and>
      S' = S3 \<and> (case r3 of Inl e \<Rightarrow> (Inr m :: phase_error + phase_metrics) = Inl (WriteFailed e) | Inr _ \<Rightarrow> \<exists>m'. (Inr m :: phase_error + phase_metrics) = Inr m' \<and> pm_error m' = None))"
    using run_phase_collection[OF phase prep run] by blast
  obtain x where "r2 = Inr x" using failed by (cases r2) auto
  then obtain r3 where comp: "complete_phase_at acct phase (cd_to_rfc3339 C (lh_done_at H)) (lh_complete_failure H) S2 = (S', r3)"
    and "\<exists>y. r3 = Inr y"
  proof -
    obtain S3 r3 where "complete_phase_at acct phase (cd_to_rfc3339 C (lh_done_at H)) (lh_complete_failure H) S2 = (S3, r3)"
      "S' = S3" "case r3 of Inl e \<Rightarrow> (Inr m :: phase_error + phase_metrics) = Inl (WriteFailed e) | Inr _ \<Rightarrow> True"
      using ended \<open>r2 = Inr x\<close> by (fastforce split: sum.splits)
    then show ?thesis using that by (cases r3) auto
  qed
  obtain cursor' where members: "staged acct phase g S2 \<subseteq> staged acct phase g S \<union> (\<lambda>i. (i, domain)) ` host_lists phase H"
    and at: "at_cursor (acct, domain, phase) g cursor' S2"
    using collection_loop_members[OF R S loop] by blast
  obtain st where "load_phase_state acct phase S2 = Some st" "ss_reconciliation_generation st = Some g"
    using at by (auto simp: at_cursor_def)
  from complete_phase_generation[OF this comp] \<open>\<exists>y. r3 = Inr y\<close>
  have "sy_store S' = sy_store (fst (reconcile acct phase g (cd_to_rfc3339 C (lh_done_at H)) S2))" by auto
  then have "flagged (acct, domain, phase) (sy_store S') \<subseteq> staged acct phase g S2"
    using reconcile_shows(1)[OF phase] by simp
  then show ?thesis using members by blast
qed

lemma launch_success:
  "launch_phase C from_rfc3339 H N acct domain phase S = (S', m) \<Longrightarrow> pm_error m = None \<Longrightarrow>
   \<exists>S1 m1. run_phase C from_rfc3339 H N acct domain phase S = (S1, Inr m1) \<and> sy_store S' = sy_store S1"
  by (auto simp: launch_phase_def record_keeps split: prod.splits sum.splits if_splits)

text \<open>Cursors that lead to each other.\<close>

definition cycle :: "rstr set \<Rightarrow> launch_host \<Rightarrow> bool" where
  "cycle K H \<longleftrightarrow> (\<forall>n. \<forall>k \<in> K. \<exists>data k'. lh_fetch H n (Some k) None = Inr (data, Some k') \<and> data \<noteq> [] \<and> k' \<noteq> [] \<and> k' \<in> K)"

lemma cycle_loop:
  assumes "collection_of R = (acct, domain, phase)" "cn_generation R = Some g" "cn_since_id R = None"
    "cn_max_pages R = usize_max"
    and "cycle K H" "k \<in> K" "at_cursor (acct, domain, phase) g (Some k) S"
    and "collection_loop C H R n page (Some k) seen counts S = (S', r)"
  shows "(\<exists>e. r = Inl e) \<and> (\<exists>k' \<in> K. at_cursor (acct, domain, phase) g (Some k') S')"
  using assms(6-)
proof (induction n arbitrary: page k seen counts S)
  case 0
  then show ?case by (cases counts) auto
next
  case (Suc n)
  obtain api dw fetched where counts: "counts = (api, dw, fetched)" by (cases counts)
  obtain S1 r1 where page: "collection_page C H R api ((page + 1) mod 2 ^ 32) (Some k) S = (S1, r1)" by fastforce
  note loop = collection_loop_Suc[OF assms(4,2) page Suc.prems(3)[unfolded counts]]
  obtain data k' where k': "lh_fetch H api (Some k) None = Inr (data, Some k')" "data \<noteq> []" "k' \<noteq> []" "k' \<in> K"
    using assms(5) Suc.prems(1) unfolding cycle_def by blast
  note step = collection_page_members[OF assms(1-3) Suc.prems(2) page]
  show ?case
  proof (cases r1)
    case (Inl e)
    then show ?thesis using loop step Suc.prems(1) by auto
  next
    case (Inr x)
    have x: "x = (Some k', length data)" and S1: "at_cursor (acct, domain, phase) g (Some k') S1"
      using step k' Inr by (cases x; auto simp: usable_cursor_def)+
    show ?thesis
    proof (cases "k' \<in> set seen")
      case True
      then show ?thesis using loop Inr x k' S1 by auto
    next
      case False
      then obtain counts' where "collection_loop C H R n ((page + 1) mod 2 ^ 32) (Some k') (k' # seen) counts' S1 = (S', r)"
        using loop Inr x k' by auto
      from Suc.IH[OF k'(4) S1 this] show ?thesis .
    qed
  qed
qed

lemma cycle_launch:
  assumes phase: "phase \<in> {Bookmarks, Favourites}" and "cycle K H" "k \<in> K" and S: "at_cursor (acct, domain, phase) g (Some k) S"
    and run: "launch_phase C from_rfc3339 H N acct domain phase S = (S', m)"
  shows "pm_error m \<noteq> None \<and> (\<exists>k' \<in> K. at_cursor (acct, domain, phase) g (Some k') S')"
proof -
  obtain S1 r where r: "run_phase C from_rfc3339 H N acct domain phase S = (S1, r)" by fastforce
  have "(\<exists>e. r = Inl e) \<and> (\<exists>k' \<in> K. at_cursor (acct, domain, phase) g (Some k') S1)"
    using resumed_phase[OF phase S r]
  proof (elim disjE exE conjE)
    fix e assume "S1 = S" "r = Inl (WriteFailed e)"
    then show ?thesis using assms(3) S by blast
  next
    assume prep: "prepare_phase_at from_rfc3339 acct phase default_policy (lh_now H) (lh_generation H) (lh_prepare_failure H) S =
        (S, Inr (FullReconcile g (Some k)))"
    obtain R S2 r2 where R: "collection_of R = (acct, domain, phase)" "cn_generation R = Some g" "cn_since_id R = None"
        "cn_max_pages R = usize_max"
      and loop: "collection_loop C H R (lh_pages H) 0 (Some k) (case Some k of None \<Rightarrow> [] | Some c \<Rightarrow> [c]) (0, 0, 0) S = (S2, r2)"
      and failed: "\<forall>e. r2 = Inl e \<longrightarrow> S1 = S2 \<and> r = Inl e"
      by (rule run_phase_collection[OF phase prep r]) (rule that)
    have "(\<exists>e. r2 = Inl e) \<and> (\<exists>k' \<in> K. at_cursor (acct, domain, phase) g (Some k') S2)"
      by (rule cycle_loop[OF R assms(2,3) S loop])
    then show ?thesis using failed by blast
  qed
  then obtain e k' where e: "r = Inl e" and k': "k' \<in> K" "at_cursor (acct, domain, phase) g (Some k') S1" by blast
  have "at_cursor (acct, domain, phase) g (Some k') S'" "pm_error m = Some e"
    using run r k'(2) by (auto simp: e launch_phase_def record_keeps(6,7) split: if_splits)
  then show ?thesis using k'(1) by blast
qed

lemma cycle_launches:
  assumes "phase \<in> {Bookmarks, Favourites}" "\<forall>H \<in> set Hs. cycle K H"
    and "k \<in> K" "at_cursor (acct, domain, phase) g (Some k) S"
    and "launches C from_rfc3339 N (acct, domain, phase) Hs S = (S', ms)"
  shows "(\<forall>m \<in> set ms. pm_error m \<noteq> None) \<and> (\<exists>k' \<in> K. at_cursor (acct, domain, phase) g (Some k') S')"
  using assms(2-)
proof (induction Hs arbitrary: S k ms)
  case (Cons H Hs)
  obtain S1 m where one: "launch_phase C from_rfc3339 H N acct domain phase S = (S1, m)" by fastforce
  obtain S2 ms' where rest: "launches C from_rfc3339 N (acct, domain, phase) Hs S1 = (S2, ms')" by fastforce
  have eqs: "S' = S2" "ms = m # ms'" using Cons.prems(4) one rest by auto
  have "cycle K H" using Cons.prems(1) by simp
  from cycle_launch[OF assms(1) this Cons.prems(2,3) one]
  obtain k1 where "k1 \<in> K" "at_cursor (acct, domain, phase) g (Some k1) S1" "pm_error m \<noteq> None" by blast
  then show ?case using Cons.IH[OF _ _ _ rest[folded eqs(1)], of k1] Cons.prems(1) by (simp add: eqs(2))
qed auto

text \<open>An empty page that has a successor.\<close>

lemma save_nothing: "save_page C hosts domain [] b S = (S, Inr ())"
  by (simp add: save_page_def batch_with_retry_items save_status_items_with_retry_def batch_items_def
      retry_db_write.simps[of _ "Suc 0"] save_status_items_def save_transactions.simps)

lemma empty_page_completes:
  assumes phase: "phase \<in> {Bookmarks, Favourites}" and S: "at_cursor (acct, domain, phase) g cursor S"
    and H: "lh_fetch H 0 cursor None = Inr ([], Some c)" "lh_prepare_failure H = None" "lh_commit_failure H 0 = None"
      "lh_complete_failure H = None" "0 < lh_pages H"
    and run: "launch_phase C from_rfc3339 H N acct domain phase S = (S', m)"
  shows "pm_error m = None \<and>
    flagged (acct, domain, phase) (sy_store S') = flagged (acct, domain, phase) (sy_store S) \<inter> staged acct phase g S"
proof -
  obtain S1 r where r: "run_phase C from_rfc3339 H N acct domain phase S = (S1, r)" by fastforce
  have prep: "prepare_phase_at from_rfc3339 acct phase default_policy (lh_now H) (lh_generation H) (lh_prepare_failure H) S =
      (S, Inr (FullReconcile g cursor))"
    using resumed_phase[OF phase S r] H(2) by auto
  obtain R S2 r2 where R: "collection_of R = (acct, domain, phase)" "cn_generation R = Some g" "cn_since_id R = None"
      "cn_max_pages R = usize_max"
    and loop: "collection_loop C H R (lh_pages H) 0 cursor (case cursor of None \<Rightarrow> [] | Some c \<Rightarrow> [c]) (0, 0, 0) S = (S2, r2)"
    and failed: "\<forall>e. r2 = Inl e \<longrightarrow> S1 = S2 \<and> r = Inl e"
    and ended: "\<forall>x. r2 = Inr x \<longrightarrow> (\<exists>S3 r3. complete_phase_at acct phase (cd_to_rfc3339 C (lh_done_at H)) (lh_complete_failure H) S2 = (S3, r3) \<and>
      S1 = S3 \<and> (case r3 of Inl e \<Rightarrow> r = Inl (WriteFailed e) | Inr _ \<Rightarrow> \<exists>m. r = Inr m \<and> pm_error m = None))"
    using run_phase_collection[OF phase prep r] by blast
  obtain n where n: "lh_pages H = Suc n" using H(5) by (cases "lh_pages H") auto
  obtain S3 r3 where page: "collection_page C H R 0 ((0 + 1) mod 2 ^ 32) cursor S = (S3, r3)" by fastforce
  have row: "load_phase_state acct phase S \<noteq> None" using S by (auto simp: at_cursor_def)
  have fields: "cn_acct R = acct" "cn_domain R = domain" "cn_phase R = phase" using R(1) by (simp_all add: collection_of_def)
  have commit: "\<exists>S3. commit_page_checkpoint acct phase ck None S = (S3, Inr ())" if "pc_members ck = []" for ck
    using row that by (auto simp: commit_page_checkpoint_def Let_def update_phase_state_def split: option.splits)
  have ok: "\<exists>nc. r3 = Inr (nc, 0) \<and> (\<exists>ck. pc_members ck = [] \<and> commit_page_checkpoint acct phase ck None S = (S3, Inr ()))"
  proof -
    let ?ck = "\<lparr>pc_high_water_id = None, pc_next_cursor = usable_cursor (Some c), pc_reconciliation_generation = Some g,
        pc_members = [], pc_api_requests = 1, pc_db_writes = 0 + 1, pc_duration_ms = 0\<rparr>"
    obtain S4 where "commit_page_checkpoint acct phase ?ck None S = (S4, Inr ())" using commit[of ?ck] by auto
    then show ?thesis
      using page by (auto simp: collection_page_def fields R(2,3) H(1,3) save_nothing Let_def cong: if_cong intro!: exI[of _ ?ck])
  qed
  note first = collection_loop_Suc[OF R(4,2) page loop[unfolded n]]
  obtain x where x: "r2 = Inr x" "S2 = S3" using first ok by auto
  obtain ck where ck: "pc_members ck = []" "commit_page_checkpoint acct phase ck None S = (S3, Inr ())" using ok by blast
  note done' = commit_page_cases[OF ck(2), simplified]
  have same: "sy_store S3 = sy_store S" "staged acct phase g S3 = staged acct phase g S"
    using done' ck(1) by (auto simp: staged_def split: option.splits)
  obtain st where st: "load_phase_state acct phase S3 = Some st" "ss_reconciliation_generation st = Some g"
    using done' S by (auto simp: at_cursor_def)
  obtain S5 r5 where comp: "complete_phase_at acct phase (cd_to_rfc3339 C (lh_done_at H)) (lh_complete_failure H) S3 = (S5, r5)"
      "S1 = S5" "case r5 of Inl e \<Rightarrow> r = Inl (WriteFailed e) | Inr _ \<Rightarrow> \<exists>m. r = Inr m \<and> pm_error m = None"
    using ended x by blast
  have "\<exists>y. r5 = Inr y" using complete_phase_generation[OF st comp(1)] H(4) by (cases r5) auto
  then have "sy_store S1 = sy_store (fst (reconcile acct phase g (cd_to_rfc3339 C (lh_done_at H)) S3))"
    "\<exists>m. r = Inr m \<and> pm_error m = None"
    using complete_phase_generation[OF st comp(1)] comp(2,3) by auto
  then show ?thesis
    using run r reconcile_shows(1)[OF phase, of acct domain g _ S3]
    by (auto simp: launch_phase_def record_keeps(4) same)
qed

section \<open>A concrete provider\<close>

definition two_pages :: provider where
  "two_pages cursor = (if cursor = None then ([a_status [54] None], Some [50]) else ([a_status [55] None], None))"

text \<open>A host that answers with \<open>P\<close>, meets no failure and ends after \<open>n\<close> pages.\<close>

definition calm_host :: "provider \<Rightarrow> nat \<Rightarrow> launch_host" where
  "calm_host P n =
     \<lparr>lh_now = 0, lh_generation = [103], lh_prepare_failure = None,
      lh_fetch = (\<lambda>_ cursor _. Inr (P cursor)), lh_gap_failure = None,
      lh_save = (\<lambda>_ _. uninterrupted [49] (\<lambda>_. 64)), lh_commit_failure = (\<lambda>_. None), lh_done_at = 0,
      lh_complete_failure = None, lh_pages = n, lh_killed = False, lh_duration_ms = 0, lh_error_text = (\<lambda>_. [])\<rparr>"

definition no_notifications :: notification_host where
  "no_notifications = \<lparr>nh_fetch = (\<lambda>_. Inr []), nh_now = [], nh_failure = None, nh_streaming_url = []\<rparr>"

abbreviation never :: "rstr \<Rightarrow> datetime option" where
  "never \<equiv> \<lambda>_. None"

abbreviation bookmarks :: collection where
  "bookmarks \<equiv> ([117], [109], Bookmarks)"

text \<open>A stored bookmark that the provider does not list.\<close>

definition before_launch :: sync_store where
  "before_launch = \<lparr>sy_store = bookmarked_once, sy_states = [], sy_members = [], sy_notifications = []\<rparr>"

definition after_kill :: sync_store where
  "after_kill = fst (launches plain_codec never no_notifications bookmarks [calm_host two_pages 1] before_launch)"




section \<open>Properties\<close>


text \<open>C16: It does end: after any number of failed launches, one that meets no failure and runs for as many
  pages as the provider has reports success.\<close>

theorem healthy_launch_reconciles:
  assumes "phase \<in> {Bookmarks, Favourites}" "listing P None pages"
    and "fresh from_rfc3339 (lh_now ` set (Hs @ [H])) (acct, domain, phase) S"
    and "\<forall>H' \<in> set Hs. answers_as P H'"
    and "launches C from_rfc3339 N (acct, domain, phase) Hs S = (S1, ms)" "\<forall>m \<in> set ms. pm_error m \<noteq> None"
    and "healthy P H" "length pages \<le> lh_pages H"
  shows "pm_error (snd (launch_phase C from_rfc3339 H N acct domain phase S1)) = None"
proof -
  let ?T = "lh_now ` set (Hs @ [H])"
  have "ready from_rfc3339 ?T P (acct, domain, phase) pages S1"
    using assms(3,4) by (intro launches_ready[OF assms(1,2) _ _ assms(5,6)]) (auto simp: ready_def)
  moreover obtain S2 m where one: "launch_phase C from_rfc3339 H N acct domain phase S1 = (S2, m)" by fastforce
  ultimately have "pm_error m = None"
    using assms(7,8) by (intro launch_phase_ready(3)[OF assms(1,2) healthy_answers[OF assms(7)] _ _ one]) auto
  then show ?thesis by (simp add: one)
qed

text \<open>C17: A flag that is set while a reconciliation is in progress, on a post that neither the pages
  committed so far nor the pages still to come list, is cleared by the launch that completes it, although
  it is newer than the page it should be on.\<close>

theorem bookmark_during_reconciliation_cleared:
  assumes "phase \<in> {Bookmarks, Favourites}" "at_cursor (acct, domain, phase) g cursor S"
    and "(i, domain) \<notin> staged acct phase g S" "i \<notin> host_lists phase H"
    and "launch_phase C from_rfc3339 H N acct domain phase S = (S', m)" "pm_error m = None"
  shows "(i, domain) \<notin> flagged (acct, domain, phase) (sy_store S')"
proof -
  obtain S1 m1 where run: "run_phase C from_rfc3339 H N acct domain phase S = (S1, Inr m1)" "sy_store S' = sy_store S1"
    using launch_success[OF assms(5,6)] by blast
  show ?thesis using resumed_run_completes[OF assms(1,2) run(1)] assms(3,4) run(2) by auto
qed

text \<open>C18: An empty page ends a reconciliation even when it names a next page: the launch reports success
  and clears the flags of all posts that have not been listed yet.\<close>

theorem empty_page_ends_reconciliation:
  assumes "phase \<in> {Bookmarks, Favourites}" "at_cursor (acct, domain, phase) g cursor S"
    and "lh_fetch H 0 cursor None = Inr ([], Some c)" "lh_prepare_failure H = None" "lh_commit_failure H 0 = None"
    and "lh_complete_failure H = None" "0 < lh_pages H"
    and "launch_phase C from_rfc3339 H N acct domain phase S = (S', m)"
  shows "pm_error m = None \<and>
    flagged (acct, domain, phase) (sy_store S') = flagged (acct, domain, phase) (sy_store S) \<inter> staged acct phase g S"
  by (rule empty_page_completes[OF assms])

text \<open>C19: A reconciliation whose cursor has come into a cycle never ends: every later launch fails and
  leaves the cursor in the cycle, for the generation stays and with it the plan to resume.\<close>

theorem cursor_cycle_is_permanent:
  assumes "phase \<in> {Bookmarks, Favourites}" "\<forall>H \<in> set Hs. cycle K H"
    and "k \<in> K" "at_cursor (acct, domain, phase) g (Some k) S"
    and "launches C from_rfc3339 N (acct, domain, phase) Hs S = (S', ms)"
  shows "(\<forall>m \<in> set ms. pm_error m \<noteq> None) \<and> (\<exists>k' \<in> K. at_cursor (acct, domain, phase) g (Some k') S')"
  by (rule cycle_launches[OF assms])

section \<open>Witnesses\<close>

lemma flagged_rows:
  "flagged bookmarks W = {k. ([117], k, Some True) \<in> set (map (\<lambda>v. (vs_login_account_acct v, state_key v, vs_bookmarked v))
     (ks_viewer_states (ws_cache W)))}"
  by (force simp: flagged_def phase_flag_def)

lemma intact_bookmarked: "store_intact bookmarked_once" "logged_in bookmarked_once [117]"
proof -
  show "store_intact bookmarked_once"
    unfolding bookmarked_once_def save_status_batch_def by (rule store_intact_save[OF intact_signed_in])
  show "logged_in bookmarked_once [117]" by code_simp
qed

lemma two_pages_listing: "listing two_pages None [[a_status [54] None], [a_status [55] None]]"
  by (rule listing.intros(2)[of _ _ _ "Some [50]" "[50]"], simp_all add: two_pages_def usable_cursor_def,
      rule listing.intros(1)[of _ _ _ None]) (simp_all add: two_pages_def usable_cursor_def)



lemma calm_healthy: "healthy P (calm_host P n)"
  by (simp add: healthy_def calm_host_def)

lemma calm_answers: "answers_as P (calm_host P n)"
  by (rule healthy_answers[OF calm_healthy])

lemma before_launch_fresh: "fresh never T bookmarks before_launch"
  using intact_bookmarked
  by (simp add: fresh_def before_launch_def usable_by_def load_phase_state_def full_is_due_def)

definition killed_metrics :: "phase_metrics list" where
  "killed_metrics = snd (launches plain_codec never no_notifications bookmarks [calm_host two_pages 1] before_launch)"

lemma killed_once:
  "launches plain_codec never no_notifications bookmarks [calm_host two_pages 1] before_launch = (after_kill, killed_metrics)"
  "\<forall>m \<in> set killed_metrics. pm_error m \<noteq> None"
proof -
  show "launches plain_codec never no_notifications bookmarks [calm_host two_pages 1] before_launch = (after_kill, killed_metrics)"
    unfolding after_kill_def killed_metrics_def by (rule prod.collapse[symmetric])
  have "map pm_error killed_metrics = [Some ProcessEnded]" by code_simp
  then obtain m where m: "killed_metrics = [m]" "pm_error m = Some ProcessEnded" by (auto simp: map_eq_Cons_conv)
  show "\<forall>m \<in> set killed_metrics. pm_error m \<noteq> None" unfolding m(1) using m(2) by simp
qed




theorem healthy_launch_reconciles_witness:
  "pm_error (snd (launch_phase plain_codec never (calm_host two_pages 2) no_notifications [117] [109] Bookmarks after_kill)) = None"
proof -
  have hosts: "\<forall>H' \<in> set [calm_host two_pages 1]. answers_as two_pages H'"
    using calm_answers[of two_pages 1] by simp
  have "Bookmarks \<in> {Bookmarks, Favourites}" by simp
  from healthy_launch_reconciles[OF this two_pages_listing before_launch_fresh hosts killed_once calm_healthy]
  show ?thesis by (simp add: calm_host_def)
qed

text \<open>Between the launches the user bookmarks another post, which the provider would list on its first page.\<close>

definition bookmarked_between :: sync_store where
  "bookmarked_between = after_kill\<lparr>sy_store := fst (save_status_batch plain_codec (uninterrupted [50] (\<lambda>_. 64)) [109]
     [a_status [56] (Some True)] (Some home) (sy_store after_kill))\<rparr>"

definition bookmark_lost :: sync_store where
  "bookmark_lost = fst (launch_phase plain_codec never (calm_host two_pages 5) no_notifications [117] [109] Bookmarks bookmarked_between)"

lemma cursor_between:
  "at_cursor bookmarks [103] (Some [50]) bookmarked_between"
  "staged [117] Bookmarks [103] bookmarked_between = {([54], [109])}"
proof -
  have "map_option (\<lambda>st. (ss_reconciliation_generation st, ss_resume_cursor st))
      (load_phase_state [117] Bookmarks bookmarked_between) = Some (Some [103], Some [50])" by code_simp
  then show "at_cursor bookmarks [103] (Some [50]) bookmarked_between" by (auto simp: at_cursor_def)
  have "sy_members bookmarked_between = [(([117], phase_as_str Bookmarks, [103]), ([54], [109]))]" by code_simp
  then show "staged [117] Bookmarks [103] bookmarked_between = {([54], [109])}" by (auto simp: staged_def)
qed

lemma two_pages_lists: "host_lists Bookmarks (calm_host two_pages n) \<subseteq> {[54], [55]}"
  by (auto simp: host_lists_def calm_host_def two_pages_def listed_id_def collection_status_def with_bookmarked_def
      a_status_def split: if_splits)

theorem bookmark_during_reconciliation_cleared_witness:
  "([56], [109]) \<in> flagged bookmarks (sy_store bookmarked_between) \<and>
   ([56], [109]) \<notin> flagged bookmarks (sy_store bookmark_lost)"
proof
  have "([117], ([56], [109]), Some True) \<in> set (map (\<lambda>v. (vs_login_account_acct v, state_key v, vs_bookmarked v))
      (ks_viewer_states (ws_cache (sy_store bookmarked_between))))" by code_simp
  then show "([56], [109]) \<in> flagged bookmarks (sy_store bookmarked_between)" unfolding flagged_rows by simp
  show "([56], [109]) \<notin> flagged bookmarks (sy_store bookmark_lost)"
  proof (rule bookmark_during_reconciliation_cleared[OF _ cursor_between(1)])
    show "launch_phase plain_codec never (calm_host two_pages 5) no_notifications [117] [109] Bookmarks bookmarked_between =
        (bookmark_lost, snd (launch_phase plain_codec never (calm_host two_pages 5) no_notifications [117] [109] Bookmarks bookmarked_between))"
      by (simp add: bookmark_lost_def)
    show "pm_error (snd (launch_phase plain_codec never (calm_host two_pages 5) no_notifications [117] [109] Bookmarks bookmarked_between)) = None"
      by code_simp
  qed (use cursor_between(2) two_pages_lists[of 5] in auto)
qed

text \<open>The second page is empty and names a third.\<close>

definition hollow :: provider where
  "hollow cursor = (if cursor = None then ([a_status [54] None], Some [50]) else ([], Some [51]))"

theorem empty_page_ends_reconciliation_witness:
  "flagged bookmarks (sy_store bookmarked_between) = {([53], [109]), ([54], [109]), ([56], [109])} \<and>
   flagged bookmarks (sy_store (fst (launch_phase plain_codec never (calm_host hollow 5) no_notifications [117] [109]
     Bookmarks bookmarked_between))) = {([54], [109])}"
proof -
  have rows: "map (\<lambda>v. (vs_login_account_acct v, state_key v, vs_bookmarked v))
      (ks_viewer_states (ws_cache (sy_store bookmarked_between))) =
      [([117], ([53], [109]), Some True), ([117], ([54], [109]), Some True), ([117], ([56], [109]), Some True)]"
    by code_simp
  have before: "flagged bookmarks (sy_store bookmarked_between) = {([53], [109]), ([54], [109]), ([56], [109])}"
    unfolding flagged_rows rows by auto
  let ?H = "calm_host hollow 5"
  let ?S = "fst (launch_phase plain_codec never ?H no_notifications [117] [109] Bookmarks bookmarked_between)"
  let ?m = "snd (launch_phase plain_codec never ?H no_notifications [117] [109] Bookmarks bookmarked_between)"
  have "pm_error ?m = None \<and> flagged bookmarks (sy_store ?S) =
      flagged bookmarks (sy_store bookmarked_between) \<inter> staged [117] Bookmarks [103] bookmarked_between"
  proof (rule empty_page_ends_reconciliation[OF _ cursor_between(1)])
    show "lh_fetch ?H 0 (Some [50]) None = Inr ([], Some [51])" by (simp add: calm_host_def hollow_def)
    show "launch_phase plain_codec never ?H no_notifications [117] [109] Bookmarks bookmarked_between = (?S, ?m)" by simp
  qed (simp_all add: calm_host_def)
  then show ?thesis using before cursor_between(2) by auto
qed

text \<open>The second page names itself as the next.\<close>

definition looping :: provider where
  "looping cursor = ([a_status [54] None], Some [50])"

theorem cursor_cycle_is_permanent_witness:
  "\<exists>m1 m2. pm_error m1 \<noteq> None \<and> pm_error m2 \<noteq> None \<and>
     snd (launches plain_codec never no_notifications bookmarks [calm_host looping 9, calm_host looping 9] after_kill) = [m1, m2]"
proof -
  let ?r = "launches plain_codec never no_notifications bookmarks [calm_host looping 9, calm_host looping 9] after_kill"
  have "map_option (\<lambda>st. (ss_reconciliation_generation st, ss_resume_cursor st))
      (load_phase_state [117] Bookmarks after_kill) = Some (Some [103], Some [50])" by code_simp
  then have "at_cursor bookmarks [103] (Some [50]) after_kill" by (auto simp: at_cursor_def)
  moreover have "\<forall>H \<in> set [calm_host looping 9, calm_host looping 9]. cycle {[50]} H"
    by (simp add: cycle_def calm_host_def looping_def)
  ultimately have "\<forall>m \<in> set (snd ?r). pm_error m \<noteq> None"
    using cursor_cycle_is_permanent[of Bookmarks "[calm_host looping 9, calm_host looping 9]" "{[50]}" "[50]" "[117]" "[109]"
        "[103]" after_kill plain_codec never no_notifications "fst ?r" "snd ?r"] by auto
  moreover have "length (snd ?r) = 2" by code_simp
  then obtain m1 m2 where "snd ?r = [m1, m2]" by (auto simp: length_Suc_conv numeral_2_eq_2)
  ultimately show ?thesis by auto
qed

end
