(* ===== verification/StartupIntact.thy ===== *)
theory StartupIntact
imports StartupLaunch
begin

text \<open>
  The invariant of the cache and the tables of the synchronisation together: every run of the writers
  of the store, of streamed notifications and of the phases of launches, in any order and with any
  failures, keeps keys unique and references valid.
\<close>

section \<open>The invariant\<close>

definition sync_refers :: "sync_store \<Rightarrow> bool" where
  "sync_refers S \<longleftrightarrow>
     (let W = sy_store S; keys = status_key_for_status ` set (ks_statuses (ws_cache W));
          accounts = account_key ` set (ks_accounts (ws_cache W)) in
      (\<forall>st \<in> set (sy_states S). logged_in W (ss_account_acct st)) \<and>
      (\<forall>m \<in> set (sy_members S). logged_in W (fst (fst m)) \<and> snd m \<in> keys) \<and>
      (\<forall>n \<in> set (sy_notifications S). logged_in W (nt_account_acct n) \<and>
         (nt_account_id n, nt_server_domain n) \<in> accounts \<and>
         (\<forall>i. nt_status_id n = Some i \<longrightarrow> (i, nt_server_domain n) \<in> keys)))"

definition sync_intact :: "sync_store \<Rightarrow> bool" where
  "sync_intact S \<longleftrightarrow> store_intact (sy_store S) \<and> sync_refers S \<and> distinct (map state_key_of (sy_states S)) \<and>
     distinct (sy_members S) \<and> distinct (map notification_key (sy_notifications S))"

text \<open>A store that has all that another one has.\<close>

definition grows :: "write_store \<Rightarrow> write_store \<Rightarrow> bool" where
  "grows W V \<longleftrightarrow> store_intact V \<and> logged_in V = logged_in W \<and>
     status_key_for_status ` set (ks_statuses (ws_cache W)) \<subseteq> status_key_for_status ` set (ks_statuses (ws_cache V)) \<and>
     account_key ` set (ks_accounts (ws_cache W)) \<subseteq> account_key ` set (ks_accounts (ws_cache V))"

lemma grows_refl: "store_intact W \<Longrightarrow> grows W W"
  by (simp add: grows_def)

lemma grows_trans: "grows W V \<Longrightarrow> grows V U \<Longrightarrow> grows W U"
  unfolding grows_def by (elim conjE, intro conjI, assumption, simp, erule (1) subset_trans, erule (1) subset_trans)

lemma sync_intact_grows:
  assumes "sync_intact S" "grows (sy_store S) V"
  shows "sync_intact (S\<lparr>sy_store := V\<rparr>)"
proof -
  have V: "store_intact V" "logged_in V = logged_in (sy_store S)"
    and s: "k \<in> status_key_for_status ` set (ks_statuses (ws_cache (sy_store S))) \<Longrightarrow>
      k \<in> status_key_for_status ` set (ks_statuses (ws_cache V))"
    and a: "k \<in> account_key ` set (ks_accounts (ws_cache (sy_store S))) \<Longrightarrow>
      k \<in> account_key ` set (ks_accounts (ws_cache V))" for k
    using assms(2) unfolding grows_def by blast+
  have "sync_refers (S\<lparr>sy_store := V\<rparr>)"
    using assms(1) unfolding sync_intact_def sync_refers_def Let_def by (auto simp: V intro: s a)
  then show ?thesis using assms(1) V(1) by (simp add: sync_intact_def)
qed

lemma grows_server: "store_intact W \<Longrightarrow> grows W (server_known domain W)"
  by (simp add: grows_def logged_in_def fun_eq_iff)

lemma grows_server_url: "store_intact W \<Longrightarrow> grows W (upsert_server_on domain url W)"
  by (simp add: grows_def upsert_server_on_def logged_in_def fun_eq_iff store_intact_def tables_distinct_def
    refers_ok_def counter_ok_def may_save_def Let_def cong: option.case_cong)

lemma grows_account:
  assumes "store_intact W"
  shows "grows W (upsert_account_on a W)"
  using store_intact_account[OF assms, of a]
  by (auto simp: grows_def upsert_account_on_def logged_in_def fun_eq_iff upsert_one accounts_table.key_set_upserts
      simp del: upserts_simps)

lemma grows_save:
  assumes "store_intact W"
  shows "grows W (fst (save_status_items C H domain items W))"
proof -
  obtain m where m: "fst (save_status_items C H domain items W) =
      (if m = 0 then W else written C (ah_now H) domain [] (take m items) (server_known domain W))"
    using save_transactions_effect[OF accounts_known_Nil store_intact_owned[OF assms],
      where domain = domain and items = items and C = C and H = H and i = 0 and tags = "[]"]
    unfolding save_status_items_def by blast
  have "status_key_for_status ` set (ks_statuses (ws_cache W)) \<subseteq>
      status_key_for_status ` set (ks_statuses (ws_cache (written C now domain [] is (server_known domain W))))" for now "is"
    unfolding written_def put_statuses_keys by simp
  moreover have "account_key ` set (ks_accounts (ws_cache W)) \<subseteq>
      account_key ` set (ks_accounts (ws_cache (written C now domain [] is (server_known domain W))))" for now "is"
    unfolding written_def put_fields accounts_table.key_set_upserts by simp
  moreover have "logged_in (written C now domain [] is (server_known domain W)) = logged_in W" for now "is"
    by (simp add: written_def logged_in_def fun_eq_iff)
  ultimately show ?thesis
    using store_intact_save[OF assms, of C H domain items] unfolding m grows_def by simp
qed

lemma grows_items_with_retry:
  assumes "store_intact W"
  shows "grows W (fst (save_status_items_with_retry C hosts domain items W))"
  unfolding save_status_items_with_retry_def
proof (rule retry_db_write_keeps[where P = "grows W"])
  show "grows W (fst (save_status_items C (hosts n) domain items V))" if "grows W V" for n V
    using grows_trans[OF that grows_save] that by (simp add: grows_def)
qed (rule grows_refl[OF assms])

lemma sync_intact_save_page:
  assumes "sync_intact S"
  shows "sync_intact (fst (save_page C hosts domain page b S))"
proof -
  have "store_intact (sy_store S)" using assms by (simp add: sync_intact_def)
  then show ?thesis
    using sync_intact_grows[OF assms grows_items_with_retry]
    by (simp add: save_page_def batch_with_retry_items split_def Let_def)
qed

section \<open>Rows and members\<close>

lemma sync_intact_update:
  assumes "sync_intact S" "update_phase_state acct phase f S = Some S'" "\<And>st. state_key_of (f st) = state_key_of st"
  shows "sync_intact S'"
proof -
  have S': "S' = S\<lparr>sy_states := map (\<lambda>st. if state_key_of st = (acct, phase_as_str phase) then f st else st) (sy_states S)\<rparr>"
    using assms(2) by (auto simp: update_phase_state_def split: if_splits)
  have key: "state_key_of (if b then f st else st) = state_key_of st" for b st using assms(3) by simp
  have "ss_account_acct (f st) = ss_account_acct st" for st
    using assms(3)[of st] by (simp add: state_key_of_def)
  then show ?thesis
    using assms(1) unfolding S' by (auto simp: sync_intact_def sync_refers_def Let_def o_def key)
qed

definition member_ok :: "write_store \<Rightarrow> member \<Rightarrow> bool" where
  "member_ok W m \<longleftrightarrow> logged_in W (fst (fst m)) \<and> snd m \<in> status_key_for_status ` set (ks_statuses (ws_cache W))"

lemma sync_intact_members:
  assumes "sync_intact S" "distinct ms" "\<And>m. m \<in> set ms \<Longrightarrow> member_ok (sy_store S) m"
  shows "sync_intact (S\<lparr>sy_members := ms\<rparr>)"
  using assms(1,2) assms(3)[unfolded member_ok_def] unfolding sync_intact_def sync_refers_def Let_def by simp

lemma sync_intact_member:
  "sync_intact S \<Longrightarrow> m \<in> set (sy_members S) \<Longrightarrow> member_ok (sy_store S) m"
  by (simp add: sync_intact_def sync_refers_def member_ok_def Let_def)

lemma sync_intact_distinct: "sync_intact S \<Longrightarrow> distinct (sy_members S)"
  by (simp add: sync_intact_def)

lemma sync_intact_prepare:
  assumes S: "sync_intact S" and run: "prepare_phase_at from_rfc3339 acct phase policy now gen failure S = (S', r)"
  shows "sync_intact S'"
proof -
  let ?S1 = "if load_phase_state acct phase S = None then S\<lparr>sy_states := sy_states S @ [new_phase_state acct phase]\<rparr> else S"
  let ?S2 = "?S1\<lparr>sy_members := filter (\<lambda>((a, p, _), _). \<not> (a = acct \<and> p = phase_as_str phase)) (sy_members ?S1)\<rparr>"
  have S1: "sync_intact ?S1" if "load_phase_state acct phase S = None \<longrightarrow> logged_in (sy_store S) acct"
  proof (cases "load_phase_state acct phase S")
    case None
    have "state_key_of (new_phase_state acct phase) = (acct, phase_as_str phase)"
      "ss_account_acct (new_phase_state acct phase) = acct"
      by (simp_all add: state_key_of_def new_phase_state_def)
    moreover have "(acct, phase_as_str phase) \<notin> state_key_of ` set (sy_states S)"
      using None by (simp add: load_phase_state_def row_of_None)
    ultimately show ?thesis
      using S that None by (auto simp: sync_intact_def sync_refers_def Let_def)
  qed (simp add: S)
  have S2: "sync_intact ?S2" if "sync_intact ?S1"
    by (rule sync_intact_members[OF that])
      (use sync_intact_distinct[OF that] sync_intact_member[OF that] in simp_all)
  show ?thesis
  proof (cases "failure = None \<and> (load_phase_state acct phase S = None \<longrightarrow> logged_in (sy_store S) acct)")
    case True
    then have "S' = ?S1 \<or> S' = ?S2 \<or> (\<exists>g. update_phase_state acct phase
        (\<lambda>st. st\<lparr>ss_reconciliation_generation := Some g, ss_resume_cursor := None, ss_last_error := None\<rparr>) ?S2 = Some S')"
      using run unfolding prepare_phase_at_def Let_def
      by (auto split: startup_sync_plan.splits option.splits if_splits)
    moreover have "sync_intact ?S1" using S1 True by simp
    moreover have "sync_intact S''" if up: "update_phase_state acct phase
        (\<lambda>st. st\<lparr>ss_reconciliation_generation := Some g, ss_resume_cursor := None, ss_last_error := None\<rparr>) ?S2 = Some S''" for g S''
      by (rule sync_intact_update[OF S2[OF \<open>sync_intact ?S1\<close>] up]) simp
    ultimately show ?thesis using S2 by blast
  next
    case False
    then have "S' = S" using run unfolding prepare_phase_at_def Let_def by (auto split: option.splits)
    then show ?thesis using S by simp
  qed
qed

lemma sync_intact_commit:
  assumes S: "sync_intact S" and run: "commit_page_checkpoint acct phase c failure S = (S', r)"
  shows "sync_intact S'"
proof (cases r)
  case (Inl e)
  then show ?thesis using commit_page_cases[OF run] S by simp
next
  case (Inr u)
  let ?listed = "case pc_reconciliation_generation c of None \<Rightarrow> []
      | Some g \<Rightarrow> map (\<lambda>k. ((acct, phase_as_str phase, g), k)) (pc_members c)"
  let ?S1 = "S\<lparr>sy_members := upserts (\<lambda>m. m) ignored ?listed (sy_members S)\<rparr>"
  have ok: "\<forall>m \<in> set ?listed. logged_in (sy_store S) acct \<and>
      snd m \<in> status_key_for_status ` set (ks_statuses (ws_cache (sy_store S)))"
    and up: "\<exists>f. update_phase_state acct phase f ?S1 = Some S' \<and> (\<forall>st. state_key_of (f st) = state_key_of st)"
    using run Inr unfolding commit_page_checkpoint_def Let_def
    by (cases failure; auto split: option.splits if_splits intro!: exI)+
  have listed: "member_ok (sy_store S) m" if "m \<in> set ?listed" for m
  proof -
    have "fst (fst m) = acct" using that by (auto split: option.splits)
    then show ?thesis using bspec[OF ok that] by (simp add: member_ok_def)
  qed
  have set: "set (upserts (\<lambda>m. m) ignored ?listed (sy_members S)) = set ?listed \<union> set (sy_members S)"
    using members_table.key_set_upserts[of ?listed "sy_members S"] by simp
  have "distinct (upserts (\<lambda>m. m) ignored ?listed (sy_members S))"
    using members_table.distinct_upserts[of "sy_members S" ?listed] S by (simp add: sync_intact_def)
  from sync_intact_members[OF S this] have "sync_intact ?S1"
    using listed sync_intact_member[OF S] unfolding set by blast
  then show ?thesis using up sync_intact_update by blast
qed

lemma store_intact_reconcile:
  assumes "store_intact W"
    and f: "\<And>v. state_row_key (f v) = state_row_key v" "\<And>v. vs_login_account_acct (f v) = vs_login_account_acct v"
      "\<And>v. state_key (f v) = state_key v"
  shows "store_intact (W\<lparr>ws_cache := (ws_cache W)\<lparr>ks_viewer_states := map f (ks_viewer_states (ws_cache W)),
    ks_timeline_entries := filter Q (ks_timeline_entries (ws_cache W))\<rparr>\<rparr>)" (is "store_intact ?W")
proof -
  have "logged_in ?W = logged_in W" "may_save ?W = may_save W"
    by (simp_all add: logged_in_def may_save_def fun_eq_iff split: option.split)
  moreover have "map state_row_key (map f vs) = map state_row_key vs" for vs by (simp add: f)
  ultimately show ?thesis
    using assms(1) unfolding store_intact_def tables_distinct_def refers_ok_def counter_ok_def Let_def
    by (simp add: distinct_map_filter f del: map_map)
qed

lemma sync_intact_complete:
  assumes S: "sync_intact S" and run: "complete_phase_at acct phase now failure S = (S', r)"
  shows "sync_intact S'"
proof -
  have rec: "sync_intact (fst (reconcile acct phase g now S))" for g
  proof -
    let ?f = "\<lambda>v. if stale_flag acct phase g (sy_members S) v then clear_flag phase now v else v"
    define V where "V = sy_store (fst (reconcile acct phase g now S))"
    have eq: "fst (reconcile acct phase g now S) = S\<lparr>sy_store := V,
        sy_members := filter (\<lambda>(key, _). key \<noteq> (acct, phase_as_str phase, g)) (sy_members S)\<rparr>"
      by (simp add: V_def reconcile_def Let_def)
    have "state_row_key (clear_flag phase now v) = state_row_key v" for v by (simp add: state_row_key_def)
    then have "store_intact V"
      unfolding V_def reconcile_def Let_def using S
      by (simp add: sync_intact_def) (intro store_intact_reconcile; simp)
    moreover have "logged_in V = logged_in (sy_store S)" "ks_statuses (ws_cache V) = ks_statuses (ws_cache (sy_store S))"
      "ks_accounts (ws_cache V) = ks_accounts (ws_cache (sy_store S))"
      by (simp_all add: V_def reconcile_def Let_def logged_in_def fun_eq_iff)
    ultimately have "sync_intact (S\<lparr>sy_store := V\<rparr>)"
      by (intro sync_intact_grows[OF S]) (simp add: grows_def)
    from sync_intact_members[OF this, of "filter (\<lambda>(key, _). key \<noteq> (acct, phase_as_str phase, g)) (sy_members S)"]
    show ?thesis
      using sync_intact_distinct[OF S] sync_intact_member[OF \<open>sync_intact (S\<lparr>sy_store := V\<rparr>)\<close>] by (simp add: eq)
  qed
  show ?thesis
  proof (cases r)
    case (Inl e)
    then have "S' = S" using run by (auto simp: complete_phase_at_def Let_def split: option.splits prod.splits)
    then show ?thesis using S by simp
  next
    case (Inr x)
    then obtain f S1 where "update_phase_state acct phase f S1 = Some S'" "S1 = S \<or> (\<exists>g. S1 = fst (reconcile acct phase g now S))"
      "\<forall>st. state_key_of (f st) = state_key_of st"
    proof -
      obtain S1 result where S1: "(case Option.bind (load_phase_state acct phase S) ss_reconciliation_generation of
             None \<Rightarrow> (S, \<lparr>rr_cleared_viewer_states = 0, rr_removed_timeline_entries = 0\<rparr>)
           | Some g \<Rightarrow> reconcile acct phase g now S) = (S1, result)" by fastforce
      then have "S1 = S \<or> (\<exists>g. S1 = fst (reconcile acct phase g now S))"
        by (auto split: option.splits intro: arg_cong[where f = fst])
          (metis fst_conv)
      moreover have up: "update_phase_state acct phase
          (\<lambda>st. st\<lparr>ss_resume_cursor := None, ss_reconciliation_generation := None, ss_last_success_at := Some now,
             ss_last_full_reconcile_at := (if Option.bind (load_phase_state acct phase S) ss_reconciliation_generation = None
               then ss_last_full_reconcile_at st else Some now), ss_last_error := None\<rparr>) S1 = Some S'"
        using run Inr unfolding complete_phase_at_def Let_def S1 prod.case by (auto split: option.splits)
      ultimately show thesis by (intro that[OF up]) (simp_all add: state_key_of_def)
    qed
    then show ?thesis using sync_intact_update S rec by blast
  qed
qed

lemma sync_intact_record:
  "sync_intact S \<Longrightarrow> sync_intact (record_phase_duration acct phase ms S)"
  "sync_intact S \<Longrightarrow> sync_intact (fst (fail_phase acct phase error S))"
proof -
  assume S: "sync_intact S"
  show "sync_intact (record_phase_duration acct phase ms S)"
    using sync_intact_update[OF S] S unfolding record_phase_duration_def
    by (auto split: option.split simp: state_key_of_def)
  show "sync_intact (fst (fail_phase acct phase error S))"
    using sync_intact_update[OF S] S unfolding fail_phase_def
    by (auto split: option.split simp: state_key_of_def)
qed

section \<open>Runs\<close>

lemma sync_intact_page:
  assumes "sync_intact S" "collection_page C H R n page cursor S = (S', r)"
  shows "sync_intact S'"
proof (cases "lh_fetch H n cursor (cn_since_id R)")
  case (Inr answer)
  obtain data nxt where answer: "answer = (data, nxt)" by (cases answer)
  obtain S1 r1 where save: "save_page C (lh_save H n) (cn_domain R) (map (collection_status (cn_phase R)) data)
      (page_context (cn_acct R) (cn_phase R)) S = (S1, r1)" by fastforce
  have S1: "sync_intact S1" using sync_intact_save_page[OF assms(1)] save by (metis fst_conv)
  have "S' = S1 \<or> (\<exists>ck r2. commit_page_checkpoint (cn_acct R) (cn_phase R) ck (lh_commit_failure H n) S1 = (S', r2))"
    using assms(2) unfolding collection_page_def Inr answer sum.case prod.case save Let_def
    by (cases r1) (auto split: prod.splits)
  then show ?thesis using S1 sync_intact_commit by blast
qed (use assms in \<open>simp add: collection_page_def\<close>)

lemma sync_intact_loop:
  "sync_intact S \<Longrightarrow> collection_loop C H R n page cursor seen counts S = (S', r) \<Longrightarrow> sync_intact S'"
proof (induction n arbitrary: page cursor seen counts S)
  case 0
  then show ?case by (cases counts) simp
next
  case (Suc n)
  obtain api dw fetched where counts: "counts = (api, dw, fetched)" by (cases counts)
  obtain S1 r1 where page: "collection_page C H R api ((page + 1) mod 2 ^ 32) cursor S = (S1, r1)" by fastforce
  have S1: "sync_intact S1" by (rule sync_intact_page[OF Suc.prems(1) page])
  have "S' = S1 \<or> (\<exists>q c s cs. collection_loop C H R n q c s cs S1 = (S', r))"
    using Suc.prems(2) unfolding counts collection_loop.simps page Let_def
    by (auto split: sum.splits prod.splits option.splits if_splits)
  then show ?case using S1 Suc.IH by blast
qed

lemma sync_intact_finish:
  assumes "sync_intact S" "finish_single_page C H acct phase high writes items S = (S', r)"
  shows "sync_intact S'"
proof -
  obtain S1 r1 where commit: "commit_page_checkpoint acct phase
      \<lparr>pc_high_water_id = high, pc_next_cursor = None, pc_reconciliation_generation = None,
       pc_members = [], pc_api_requests = 1, pc_db_writes = writes, pc_duration_ms = 0\<rparr> (lh_commit_failure H 0) S = (S1, r1)"
    by fastforce
  have S1: "sync_intact S1" by (rule sync_intact_commit[OF assms(1) commit])
  have "S' = S1 \<or> (\<exists>r2. complete_phase_at acct phase (cd_to_rfc3339 C (lh_done_at H)) (lh_complete_failure H) S1 = (S', r2))"
    using assms(2) unfolding finish_single_page_def commit
    by (cases r1) (auto split: prod.splits sum.splits)
  then show ?thesis using S1 sync_intact_complete by blast
qed

lemma sync_intact_timeline:
  assumes "sync_intact S" "run_timeline_phase C H acct domain phase plan S = (S', r)"
  shows "sync_intact S'"
proof (cases plan)
  case (Incremental since n)
  obtain S1 r1 where sync: "sync_timeline C H acct domain phase since S = (S1, r1)" by fastforce
  have "S1 = S \<or> (\<exists>page. S1 = fst (save_page C (lh_save H 0) domain page (page_context acct phase) S))"
    using sync unfolding sync_timeline_def Let_def
    by (auto split: sum.splits prod.splits option.splits if_splits) (metis fst_conv)+
  then have S1: "sync_intact S1" using assms(1) sync_intact_save_page by auto
  have "S' = S1 \<or> (\<exists>high writes items r2. finish_single_page C H acct phase high writes items S1 = (S', r2))"
    using assms(2) unfolding run_timeline_phase_def Incremental startup_sync_plan.case sync
    by (cases r1) (auto split: prod.splits)
  then show ?thesis using S1 sync_intact_finish by blast
qed (use assms in \<open>simp_all add: run_timeline_phase_def\<close>)

lemma notification_ok:
  "sync_intact S \<Longrightarrow> n \<in> set (sy_notifications S) \<Longrightarrow> logged_in (sy_store S) (nt_account_acct n) \<and>
     (nt_account_id n, nt_server_domain n) \<in> account_key ` set (ks_accounts (ws_cache (sy_store S))) \<and>
     (\<forall>i. nt_status_id n = Some i \<longrightarrow> (i, nt_server_domain n) \<in> status_key_for_status ` set (ks_statuses (ws_cache (sy_store S))))"
  by (simp add: sync_intact_def sync_refers_def Let_def)

lemma sync_intact_notifications:
  assumes "sync_intact S" "distinct (map notification_key ns)"
    "\<And>n. n \<in> set ns \<Longrightarrow> logged_in (sy_store S) (nt_account_acct n) \<and>
     (nt_account_id n, nt_server_domain n) \<in> account_key ` set (ks_accounts (ws_cache (sy_store S))) \<and>
     (\<forall>i. nt_status_id n = Some i \<longrightarrow> (i, nt_server_domain n) \<in> status_key_for_status ` set (ks_statuses (ws_cache (sy_store S))))"
  shows "sync_intact (S\<lparr>sy_notifications := ns\<rparr>)"
  using assms unfolding sync_intact_def sync_refers_def Let_def by simp

lemma insert_notification_intact:
  assumes "sync_intact (fst st)" "insert_notification C now acct domain n st = Inr st'"
  shows "sync_intact (fst st')"
proof -
  obtain S actors where st: "st = (S, actors)" by (cases st)
  let ?W = "if aa_id (an_account n) \<in> set actors then sy_store S
    else upsert_account_on (account_from_api C now (an_account n) domain) (sy_store S)"
  let ?row = "\<lparr>nt_id = an_id n, nt_server_domain = domain, nt_account_acct = acct,
      nt_notification_type = an_notification_type n, nt_created_at = cd_to_rfc3339 C (an_created_at n),
      nt_account_id = aa_id (an_account n), nt_status_id = map_option (\<lambda>s. sp_id (payload s)) (an_status n),
      nt_read_at = None, nt_fetched_at = now\<rparr>"
  let ?ns = "upsert notification_key notification_conflict ?row (sy_notifications S)"
  have S: "sync_intact S" using assms(1) by (simp add: st)
  have "grows (sy_store S) ?W"
    using S grows_account grows_refl by (simp add: sync_intact_def)
  from sync_intact_grows[OF S this] have W: "sync_intact (S\<lparr>sy_store := ?W\<rparr>)" .
  have ok: "logged_in ?W acct" "(aa_id (an_account n), domain) \<in> account_key ` set (ks_accounts (ws_cache ?W))"
    "\<And>s. an_status n = Some s \<Longrightarrow> (sp_id (payload s), domain) \<in> status_key_for_status ` set (ks_statuses (ws_cache ?W))"
    and st': "fst st' = S\<lparr>sy_store := ?W, sy_notifications := ?ns\<rparr>"
    using assms(2) unfolding st insert_notification_def split Let_def
    by (auto split: if_splits option.splits)
  have "distinct (map notification_key ?ns)"
    using S unfolding upsert_one
    by (intro notifications_table.distinct_upserts) (simp add: sync_intact_def)
  moreover have cases: "x \<in> set (sy_notifications S) \<or> x = ?row \<or> (\<exists>old \<in> set (sy_notifications S). x = notification_conflict old ?row)"
    if "x \<in> set ?ns" for x
    using that by (auto simp: upsert_def split: if_splits)
  moreover have "logged_in ?W (nt_account_acct x) \<and>
      (nt_account_id x, nt_server_domain x) \<in> account_key ` set (ks_accounts (ws_cache ?W)) \<and>
      (\<forall>i. nt_status_id x = Some i \<longrightarrow> (i, nt_server_domain x) \<in> status_key_for_status ` set (ks_statuses (ws_cache ?W)))"
    if "x \<in> set ?ns" for x
    using cases[OF that] notification_ok[OF W] ok by (fastforce simp: notification_conflict_def)
  ultimately show ?thesis
    unfolding st' by (intro sync_intact_notifications[OF W]) simp_all
qed

lemma insert_notifications_intact:
  "sync_intact (fst st) \<Longrightarrow> try_fold (insert_notification C now acct domain) ns st = Inr st' \<Longrightarrow> sync_intact (fst st')"
proof (induction ns arbitrary: st)
  case (Cons n ns)
  then obtain st1 where "insert_notification C now acct domain n st = Inr st1"
    "try_fold (insert_notification C now acct domain) ns st1 = Inr st'"
    by (cases "insert_notification C now acct domain n st") auto
  then show ?case using Cons insert_notification_intact by blast
qed simp

lemma sync_intact_notification_batch:
  assumes S: "sync_intact S" and run: "save_notification_batch C H N acct domain ns S = (S', r)"
  shows "sync_intact S'"
proof -
  let ?items = "map (\<lambda>s. \<lparr>bi_status = s, bi_timeline = None, bi_viewer_acct = Some acct\<rparr>) (List.map_filter an_status ns)"
  obtain W saved ds where W: "(if ?items = [] then (sy_store S, Inr (), [])
      else save_status_items_with_retry C (lh_save H 0) domain ?items (sy_store S)) = (W, saved, ds)"
    by (metis prod_cases3)
  let ?S1 = "S\<lparr>sy_store := W\<rparr>"
  have intact: "store_intact (sy_store S)" using S by (simp add: sync_intact_def)
  have "grows (sy_store S) W"
    using W grows_refl[OF intact] grows_items_with_retry[OF intact, of C "lh_save H 0" domain ?items]
    by (auto split: if_splits)
  from sync_intact_grows[OF S this] have S1: "sync_intact ?S1" .
  then have "store_intact W" by (simp add: sync_intact_def)
  then have start: "sync_intact (?S1\<lparr>sy_store := upsert_server_on domain (nh_streaming_url N) W\<rparr>)"
    using sync_intact_grows[OF S1 grows_server_url] by simp
  have "S' = ?S1 \<or> (\<exists>st'. try_fold (insert_notification C (nh_now N) acct domain) ns
      (?S1\<lparr>sy_store := upsert_server_on domain (nh_streaming_url N) W\<rparr>, []) = Inr st' \<and> S' = fst st')"
    using run unfolding save_notification_batch_def Let_def W prod.case
    by (auto split: sum.splits option.splits prod.splits)
  then show ?thesis using S1 insert_notifications_intact[of "(_, _)"] start by auto
qed

lemma sync_intact_notification_phase:
  assumes "sync_intact S" "run_notification_phase C H N acct domain plan S = (S', r)"
  shows "sync_intact S'"
proof -
  have "S' = S \<or> (\<exists>ns S1 r1. save_notification_batch C H N acct domain ns S = (S1, r1) \<and>
      (S' = S1 \<or> (\<exists>high w k. finish_single_page C H acct Notifications high w k S1 = (S', r))))"
    using assms(2) unfolding run_notification_phase_def
    by (auto split: startup_sync_plan.splits sum.splits prod.splits) blast+
  then show ?thesis
    using assms(1) sync_intact_notification_batch sync_intact_finish by blast
qed

lemma sync_intact_collection_phase:
  assumes "sync_intact S" "run_collection_phase C H acct domain phase plan S = (S', r)"
  shows "sync_intact S'"
proof (cases "collection_plan acct domain phase plan")
  case (Some Rc)
  obtain R cursor where Rc: "Rc = (R, cursor)" by (cases Rc)
  obtain S1 r1 where loop: "collection_loop C H R (lh_pages H) 0 cursor (case cursor of None \<Rightarrow> [] | Some c \<Rightarrow> [c]) (0, 0, 0) S = (S1, r1)"
    by fastforce
  have S1: "sync_intact S1" by (rule sync_intact_loop[OF assms(1) loop])
  have "S' = S1 \<or> (\<exists>r2. complete_phase_at acct phase (cd_to_rfc3339 C (lh_done_at H)) (lh_complete_failure H) S1 = (S', r2))"
    using assms(2) unfolding run_collection_phase_def Some Rc option.case prod.case loop
    by (auto split: sum.splits prod.splits)
  then show ?thesis using S1 sync_intact_complete by blast
qed (use assms in \<open>simp add: run_collection_phase_def\<close>)

lemma sync_intact_run_phase:
  assumes "sync_intact S" "run_phase C from_rfc3339 H N acct domain phase S = (S', r)"
  shows "sync_intact S'"
proof -
  obtain S1 r1 where prepare: "prepare_phase_at from_rfc3339 acct phase default_policy (lh_now H) (lh_generation H)
      (lh_prepare_failure H) S = (S1, r1)"
    by fastforce
  have S1: "sync_intact S1" by (rule sync_intact_prepare[OF assms(1) prepare])
  have "S' = S1 \<or> (\<exists>plan. run_timeline_phase C H acct domain phase plan S1 = (S', r) \<or>
      run_notification_phase C H N acct domain plan S1 = (S', r) \<or> run_collection_phase C H acct domain phase plan S1 = (S', r))"
    using assms(2) unfolding run_phase_def prepare prod.case by (auto split: sum.splits if_splits)
  then show ?thesis
    by (elim disjE exE) (simp_all add: S1 sync_intact_timeline[OF S1] sync_intact_notification_phase[OF S1]
      sync_intact_collection_phase[OF S1])
qed

lemma sync_intact_launch:
  assumes "sync_intact S"
  shows "sync_intact (fst (launch_phase C from_rfc3339 H N acct domain phase S))"
proof -
  obtain S1 r where run: "run_phase C from_rfc3339 H N acct domain phase S = (S1, r)" by fastforce
  have "sync_intact S1" by (rule sync_intact_run_phase[OF assms run])
  then show ?thesis unfolding launch_phase_def run by (auto simp: sync_intact_record split: sum.split)
qed

section \<open>Streamed notifications\<close>

text \<open>\<^verbatim>\<open>save_notification_to_db\<close> of \<^verbatim>\<open>src/src/application/desktop/stream_notification.rs\<close>: three writes, each
  committed on its own. The row of the notification is that of the batches of a launch, whose statement
  is the same; its account has been written.\<close>

record stream_host =
  sh_now :: rstr
  sh_saves :: "nat \<Rightarrow> attempt_host"
  sh_account_failure :: "sql_failure option"
  sh_insert_failure :: "sql_failure option"

definition insert_streamed_notification ::
  "codec \<Rightarrow> stream_host \<Rightarrow> rstr \<Rightarrow> rstr \<Rightarrow> api_notification \<Rightarrow> sync_store \<Rightarrow> sync_store \<times> (sql_failure + unit)" where
  "insert_streamed_notification C H domain source_acct n S =
     (case sh_insert_failure H of
        Some e \<Rightarrow> (S, Inl e)
      | None \<Rightarrow> (case insert_notification C (sh_now H) source_acct domain n (S, [aa_id (an_account n)]) of
            Inl e \<Rightarrow> (S, Inl e) | Inr (S', _) \<Rightarrow> (S', Inr ())))"

definition save_notification_to_db ::
  "codec \<Rightarrow> stream_host \<Rightarrow> rstr \<Rightarrow> rstr \<Rightarrow> api_notification \<Rightarrow> sync_store \<Rightarrow> sync_store \<times> (sql_failure + unit)" where
  "save_notification_to_db C H domain source_acct n S =
     (case (case sh_account_failure H of Some e \<Rightarrow> (sy_store S, Inl e)
        | None \<Rightarrow> upsert_account (account_from_api C (sh_now H) (an_account n) domain) (sy_store S)) of
        (W, Inl e) \<Rightarrow> (S\<lparr>sy_store := W\<rparr>, Inl e)
      | (W, Inr _) \<Rightarrow>
          (case an_status n of
             None \<Rightarrow> insert_streamed_notification C H domain source_acct n (S\<lparr>sy_store := W\<rparr>)
           | Some s \<Rightarrow>
               (case save_status_items_with_retry C (sh_saves H) domain
                   [\<lparr>bi_status = s, bi_timeline = None, bi_viewer_acct = Some source_acct\<rparr>] W of
                  (W', Inl e, _) \<Rightarrow> (S\<lparr>sy_store := W'\<rparr>, Inl e)
                | (W', Inr _, _) \<Rightarrow>
                    insert_streamed_notification C H domain source_acct n (S\<lparr>sy_store := W'\<rparr>))))"

lemma sync_intact_streamed_insert:
  "sync_intact S \<Longrightarrow> sync_intact (fst (insert_streamed_notification C H domain source_acct n S))"
  using insert_notification_intact[of "(S, [aa_id (an_account n)])"]
  by (fastforce simp: insert_streamed_notification_def split: option.split sum.split prod.split)

lemma sync_intact_streamed:
  assumes S: "sync_intact S"
  shows "sync_intact (fst (save_notification_to_db C H domain source_acct n S))"
proof -
  define r where "r = (case sh_account_failure H of Some e \<Rightarrow> (sy_store S, Inl e)
    | None \<Rightarrow> upsert_account (account_from_api C (sh_now H) (an_account n) domain) (sy_store S))"
  have "store_intact (sy_store S)" using S by (simp add: sync_intact_def)
  then have grown: "grows (sy_store S) (fst r)"
    using grows_account grows_refl by (auto simp: r_def upsert_account_def split: option.split)
  obtain W x where W: "r = (W, x)" by (cases r)
  have one: "sync_intact (S\<lparr>sy_store := W\<rparr>)" using sync_intact_grows[OF S grown] by (simp add: W)
  then have "store_intact W" by (simp add: sync_intact_def)
  from grows_items_with_retry[OF this]
  have two: "sync_intact (S\<lparr>sy_store := fst (save_status_items_with_retry C (sh_saves H) domain is W)\<rparr>)" for "is"
    using sync_intact_grows[OF one, of "fst (save_status_items_with_retry C (sh_saves H) domain is W)"] by simp
  show ?thesis
  proof (cases "an_status n")
    case None
    then show ?thesis
      using one sync_intact_streamed_insert[OF one]
      by (auto simp: save_notification_to_db_def r_def[symmetric] W split: sum.split)
  next
    case (Some s)
    let ?saved = "save_status_items_with_retry C (sh_saves H) domain
      [\<lparr>bi_status = s, bi_timeline = None, bi_viewer_acct = Some source_acct\<rparr>] W"
    obtain W' y ds where saved: "?saved = (W', y, ds)" by (metis prod_cases3)
    have "sync_intact (S\<lparr>sy_store := W'\<rparr>)" using two saved by (metis fst_conv)
    then show ?thesis
      using Some saved one sync_intact_streamed_insert
      by (auto simp: save_notification_to_db_def r_def[symmetric] W split: sum.split)
  qed
qed

section \<open>Runs of the writers and of launches\<close>

datatype cache_event =
    Writer store_event
  | LaunchPhase launch_host notification_host rstr rstr startup_sync_phase
  | StreamNotification stream_host rstr rstr api_notification

fun cache_step :: "codec \<Rightarrow> (rstr \<Rightarrow> datetime option) \<Rightarrow> cache_event \<Rightarrow> sync_store \<Rightarrow> sync_store" where
  "cache_step C from_rfc3339 (Writer e) S = cascade (S\<lparr>sy_store := store_step C e (sy_store S)\<rparr>)"
| "cache_step C from_rfc3339 (LaunchPhase H N acct domain phase) S =
     fst (launch_phase C from_rfc3339 H N acct domain phase S)"
| "cache_step C from_rfc3339 (StreamNotification H domain source_acct n) S =
     fst (save_notification_to_db C H domain source_acct n S)"

definition empty_sync_store :: sync_store where
  "empty_sync_store = \<lparr>sy_store = empty_write_store, sy_states = [], sy_members = [], sy_notifications = []\<rparr>"

lemma sync_intact_cascade:
  assumes "sync_intact S" "store_intact V"
  shows "sync_intact (cascade (S\<lparr>sy_store := V\<rparr>))"
  using assms unfolding sync_intact_def sync_refers_def cascade_def Let_def
  by (auto simp: distinct_map_filter)

lemma sync_intact_step: "sync_intact S \<Longrightarrow> sync_intact (cache_step C from_rfc3339 e S)"
  by (cases e) (auto intro!: sync_intact_cascade sync_intact_launch sync_intact_streamed store_intact_step simp: sync_intact_def[of S])

lemma sync_intact_run: "sync_intact S \<Longrightarrow> sync_intact (fold (cache_step C from_rfc3339) es S)"
  by (induction es arbitrary: S) (simp_all add: sync_intact_step)

lemma sync_intact_empty: "sync_intact empty_sync_store"
  by (simp add: sync_intact_def sync_refers_def empty_sync_store_def store_intact_empty)

section \<open>The property\<close>

text \<open>C14: starting with the empty store, whatever these writers do in whatever order, and whatever fails in
  them: saves of statuses, each transaction or all of them with their retries; the insertion and removal
  of single timeline entries, accounts and polls; the deletion of a status; the clearing of the cache;
  signing in and out, changing the active account and the columns; streamed notifications; and the
  phases of launches. The cache and the tables of the synchronisation stay intact: keys are unique;
  every status has its author, every timeline entry, viewer state, identity and tag its status, every
  entry, viewer state and column its login account, and so have the synchronisation states, the members
  of a reconciliation and the notifications; the counter is the number of statuses; one login account is
  active as soon as there is one. The readers of the query language rely on it.\<close>

theorem synchronised_cache_intact:
  "sync_intact (fold (cache_step C from_rfc3339) events empty_sync_store) \<and>
   store_keys_ok (ws_cache (sy_store (fold (cache_step C from_rfc3339) events empty_sync_store)))"
  using sync_intact_run[OF sync_intact_empty, of C from_rfc3339 events] store_intact_keys sync_intact_def by blast

end
