(* ===== verification/Spec2Isabelle.thy ===== *)
theory Spec2Isabelle
imports KqFields KqQueryClaims RecoverySystem Reconnect StartupGate OutboxClaims SearchClaims SearchLoop StoreClaims StartupClaims StartupIntact
begin

text \<open>
  \<^bold>\<open>Awayuki desktop: a verification library.\<close>

  Awayuki is a desktop client for Mastodon, Misskey and Bluesky. Its Rust core (\<^verbatim>\<open>src/src\<close>) keeps every
  post it has seen in a local SQLite database and shows timelines as queries over it. This library
  models the parts of the core whose correctness is a matter of logic rather than of I/O, and proves
  what they promise. No theorem has an assumption about code of this repository that the library does not model;
  crates, SQLite and the operating system are arguments of the definitions.

  \<^bold>\<open>The query language KQ\<close> (\<^verbatim>\<open>from home where text contains "x"\<close>).
  \<^item> \<open>RustPrelude\<close>: what the models use of Rust: strings as lists of code points with UTF-8 widths and
    char boundaries, ASCII classes, trimming and splitting, signed 64-bit checked arithmetic.
  \<^item> \<open>Models\<close>: the rows and payload types the language reads (\<^verbatim>\<open>db/models.rs\<close>, \<^verbatim>\<open>mastodon/types/status.rs\<close>).
  \<^item> \<open>KqSyntax\<close>, \<open>KqFields\<close>, \<open>KqLexer\<close>, \<open>KqParser\<close> (\<^verbatim>\<open>services/kq_filter.rs\<close>): positions, limits and
    errors; expressions and static types; field and source names; the lexer; the recursive-descent
    parser with its stack machine for right-associative operators, the type checks and the
    requirements of a query. \<open>KqParserProps\<close> proves that compilation always ends, with an error inside
    the query or with a well-typed query within the limits. The recursion of the parser carries
    \<open>max_depth + 2\<close> units of fuel, which the depth guard of the code never exhausts, and the loops over
    tokens the number of unread tokens; both are part of \<open>compile_total\<close>.
  \<^item> \<open>KqText\<close>, \<open>KqValues\<close>, \<open>KqContext\<close>, \<open>KqEval\<close> (\<^verbatim>\<open>services/kq_evaluator.rs\<close>): HTML to text; the
    three-valued operators; the context of an entry, the viewer branches of every source and the value
    of every field; the evaluator with its short circuits and its cache of dynamic regular
    expressions. The specification is the compositional meaning of an expression; the evaluator
    refines it, is type-sound, and matching does not depend on the order of sources or the cache.
  \<^item> \<open>KqTimeline\<close> (\<^verbatim>\<open>services/kq_timeline.rs\<close>): the query budget, the cache of compiled queries and the
    scan that pages through the database by key. The page loop returns exactly the wanted slice of
    the matching rows, and with the budget for the number of cached entries it does return.
  \<^item> \<open>KqStore\<close>, \<open>KqConversation\<close>, \<open>KqSourcePlan\<close> (\<^verbatim>\<open>services/kq_timeline.rs\<close>,
    \<^verbatim>\<open>application/timeline_hydration.rs\<close>, \<^verbatim>\<open>db/queries/read_models.rs\<close>, \<^verbatim>\<open>services/kq_source_plan.rs\<close>): the
    tables of the store as lists of rows, the loaders and the bulk hydration of a page, the recursive
    thread statement and the conversations made of it, and the planner that turns the sources of a
    query into an indexed statement, modelled by the rows that statement selects. \<open>KqSourceCover\<close> proves
    that a plan selects every row its sources match, under \<open>store_written\<close>: unique keys that
    refer to login accounts, names and domains that do not differ by case alone, types and visibilities
    in lower case, mentions as their writers encode them; a \<^verbatim>\<open>user\<close> source needs authors with ASCII
    names besides, and \<open>KqQueryClaims\<close> shows that it misses others. \<open>KqQuery\<close> is \<^verbatim>\<open>query_statuses\<close> from text to page, and
    \<open>KqQueryClaims\<close> its specification: the page of a scan over the whole store. Both also show where the
    code departs from it.

  \<^bold>\<open>Full-text search.\<close>
  \<^item> \<open>SearchTokens\<close> (\<^verbatim>\<open>db/icu_search.rs\<close>): words, their encoding as ASCII tokens, and the three ways of
    matching a term; matching encoded tokens is matching texts.
  \<^item> \<open>SearchIndex\<close> (\<^verbatim>\<open>services/search_indexer.rs\<close>, \<^verbatim>\<open>src/migrations\<close> 032 to 037): the tables of the index
    and the triggers that feed them, the queue, the backfill cursor and the worker as a machine whose
    steps are its reads and commits, any number of workers interleaving with the program's writes.
    \<open>SearchInvariant\<close> states the contract of one kind of rows as the locale \<open>doc_store\<close> and proves its
    invariant once; \<open>SearchSystem\<close> interprets it for statuses and accounts and lifts it to all runs.
    A run starts as migration 037 leaves the tables (\<open>search_start\<close>): queued work of older versions and
    an account index in use are allowed. \<open>SearchDrain\<close> shows that a drained index is exact and that a worker drains it; its bound on turns
    is \<open>work_left\<close>, which every turn lowers.
  \<^item> \<open>SearchLoop\<close>: the loop around the worker, which merges segments before it writes, rests and reports.
  \<^item> \<open>SearchQuery\<close>, \<open>SearchResults\<close>, \<open>SearchClaims\<close> (\<^verbatim>\<open>db/queries/search.rs\<close>): the search statement, one
    definition for each common table expression; its answer is the page of a scan over the cached posts
    as long as the cache is within the windows of the statement (\<open>within_windows\<close>).

  \<^bold>\<open>Writing the cache.\<close>
  \<^item> \<open>TableWrites\<close>: tables with a primary key and \<^verbatim>\<open>INSERT .. ON CONFLICT\<close>; the locale \<open>keyed_table\<close>
    shows what a sequence of writes leaves and that repeating a sequence absorbs a prefix of it. Each
    table interprets it.
  \<^item> \<open>StatusWrites\<close>, \<open>StatusSaves\<close> (\<^verbatim>\<open>mastodon/types\<close>, \<^verbatim>\<open>db/models.rs\<close>, \<^verbatim>\<open>db/queries/statuses.rs\<close> and its
    siblings, \<^verbatim>\<open>services/timeline_service.rs\<close>): payloads and their rows, the statements with foreign
    keys and cascades, and the saving of a page in transactions with retries.
  \<^item> \<open>StatusEffects\<close>: the specification \<open>written\<close> of a save, table by table; transactions refine and compose it.
  \<^item> \<open>StoreIntact\<close>, \<open>StoreRuns\<close>, \<open>StoreClaims\<close> (\<^verbatim>\<open>db/queries/settings.rs\<close>): login accounts, columns, deletion
    and the clearing of the cache; the invariant of all writers, runs of them, and what retries come to.
    The update that activates an account while signing in goes row by row, as SQLite tests a unique index,
    and \<open>sign_in_fails_iff\<close> says when it fails. \<open>save_among_writers\<close> is the loop of a save with what other
    writers do between its transactions.

  \<^bold>\<open>The synchronisation at the start\<close> (\<^verbatim>\<open>services/startup_sync.rs\<close>, and the fetching of a timeline from
  \<^verbatim>\<open>services/timeline_service.rs\<close>).
  \<^item> \<open>StartupSync\<close>: the plan of a phase, its durable row, the staged members of a reconciliation and the
    statements that prepare, commit, complete and fail a phase.
  \<^item> \<open>StartupRun\<close>: the runs of the five phases and of a launch. A host for each phase gives the answers of
    the provider, the failing calls, the clock and the number of pages after which the process ends,
    which is the fuel of the page loop: running out of it is the end of the process, an outcome of its own.
  \<^item> \<open>StartupProgress\<close>, \<open>StartupResume\<close>, \<open>StartupLaunch\<close>, \<open>StartupClaims\<close>: how far a reconciliation has come is
    an invariant of interrupted runs; the first launch that reports success leaves the entries of what
    the provider lists and the flags of its last mentions, and one without failures does report it. What goes wrong when the provider's pages
    are empty or cyclic, or when the user changes a flag meanwhile, is shown as well.
  \<^item> \<open>StartupIntact\<close>: streamed notifications (\<^verbatim>\<open>application/desktop/stream_notification.rs\<close>), and runs of
    the writers of the cache and of launches together keep keys unique and
    references valid, in the cache, the synchronisation state, its members and the notifications.

  \<^bold>\<open>State machines of the application.\<close>
  \<^item> \<open>StateMachines\<close>: reachable states, the invariant rule and times.
  \<^item> \<open>WebviewHealth\<close>, \<open>FrontendRecovery\<close>, \<open>RecoverySystem\<close> (\<^verbatim>\<open>application/desktop/webview_health.rs\<close>,
    \<^verbatim>\<open>application/frontend_recovery.rs\<close>): the watchdog of the web view, the checkpoint of the draft that
    a document stores before it may be reloaded, and both together, every section under a lock being
    one step and all steps interleaving. The checkpoint store refines the history of requests;
    reloads lose no draft and are two minutes apart, and a page that stops to answer while it is visible is
    recovered by the first poll that may do so after a minute and the distance of two polls, once the
    cooldown is over.
  \<^item> \<open>StartupGate\<close> (\<^verbatim>\<open>application/startup_gate.rs\<close>): one initialisation worker at a time; waiters are told
    what the last one reported.
  \<^item> \<open>ServerSlots\<close>, \<open>Reconnect\<close>, \<open>Retry\<close> (\<^verbatim>\<open>services/reconnect_budget.rs\<close>, \<^verbatim>\<open>api/retry.rs\<close>): the locale
    \<open>server_slots\<close> states what a table of next free slots promises and proves once that the slots
    granted to one server are a gap apart; the reconnect budget and the retry budget interpret it. The
    readings of the clock may be out of order by a \<open>slack\<close>, for callers read it before they lock the table.
  \<^item> \<open>AppErrors\<close> (\<^verbatim>\<open>ipc/error.rs\<close>): the codes of errors and how an adapter's error, a database error and a
    text are classified.
  \<^item> \<open>OutboxQueue\<close>, \<open>ComposeOutbox\<close>, \<open>OutboxHistory\<close>, \<open>OutboxClaims\<close> (\<^verbatim>\<open>db/queries/compose_outbox.rs\<close>,
    \<^verbatim>\<open>services/compose_outbox.rs\<close>): the durable queue of posts and edits. \<open>OutboxQueue\<close> has the table and
    its statements, \<open>ComposeOutbox\<close> the worker, its delivery tasks, the recovery at the start and the
    user's requests as actions in any order. The specification is the history of actions; the table
    refines it, and the claims (nothing is posted twice behind the user's back, attempts are bounded,
    when deliveries overlap) are statements about histories.

  \<^bold>\<open>How the models read.\<close> A struct is a record whose fields carry a short prefix, an enum a datatype, a
  \<^verbatim>\<open>Result\<close> a sum with the error on the left. Names are those of the source, with a prefix or suffix
  where two functions of different modules share one (\<open>outbox_retry_delay\<close>). Mutable state is passed;
  concurrency is a step relation or a function on actions, one step per lock section, statement or
  answer. An \<^verbatim>\<open>Instant\<close> is a number of nanoseconds.

  \<^bold>\<open>Parameters.\<close> The record \<open>lib\<close> holds what KQ uses of crates: Unicode classes, case folding and NFKC,
  the regular expressions and serde_json on the stored columns. Which database calls fail, the
  clock and the cancellation token are fields of the host of a query; \<^verbatim>\<open>json_string\<close> is an argument of the planner.
  The record \<open>icu\<close> holds normalisation, case folding and word boundaries; FTS5's \<^verbatim>\<open>MATCH\<close> is the argument
  \<open>fts5\<close>, and \<open>fts5_prefix_query\<close> is what its manual says of a conjunction of
  quoted prefixes over ASCII words, whose case the configured tokenizer ignores. Providers' answers, the
  UUIDs that name documents and items, and JSON values of a checkpoint are arguments; that a UUID is
  new is a guard of the step that draws it.

  \<^bold>\<open>Not modelled.\<close> The text of the SQL statements (their answers are modelled) and the id of a
  thread's first post; the HTTP clients
  and payload conversions of the providers; streaming and the background resolution of quotes, which
  order network connections and tasks; the superseded language YQ; the superseded n-gram
  search (\<^verbatim>\<open>services/search_backfill.rs\<close>, which is not compiled any more) and its tokenizer; plugins, which
  run a JavaScript engine; authentication and the key store; Tauri windows and
  commands; logging and metrics; and the frontend.
\<close>

end
